(* ===== verification/Prelude.thy ===== *)
theory Prelude
  imports Main "HOL-Library.Finite_Map" "HOL-Library.List_Lexorder" "HOL-Library.Char_ord"
begin

text \<open>
  Shared vocabulary of the development: Go's errors as values of a sum type, Go maps as
  finite maps read with the zero value for an absent key, Go's 64-bit \<open>int\<close> arithmetic with
  the wrap-around written out, and the list facts the component theories share.  The
  collections \<open>res_simps\<close> and \<open>map_simps\<close> carry the component proofs.
\<close>

named_theorems res_simps \<open>elimination of the error monad\<close>
named_theorems map_simps \<open>reads after writes of Go maps\<close>

section \<open>Errors as values\<close>

text \<open>
  The sentinel errors of the engine package.  The human-readable detail that the source
  formats after the sentinel is not modelled.  \<open>GoPanic\<close> stands for a run-time panic
  (a slice index out of range, a write to a nil map).
\<close>

datatype error =
    ErrInvalidDefinition
  | ErrInvalidCheckpoint
  | ErrInvalidTransition
  | ErrStaleObservation
  | ErrStaleDecision
  | ErrStaleResolution
  | ErrInvalidDecisionVerdict
  | ErrLoopExhausted
  | ErrTransitionBudgetExhausted
  | ErrInvalidProgramBinding
  | ErrTemplateIneligible
  | GoPanic

type_synonym 'a result = "error + 'a"

definition bindR :: "'e + 'a \<Rightarrow> ('a \<Rightarrow> 'e + 'b) \<Rightarrow> 'e + 'b" where
  "bindR m f = (case m of Inl e \<Rightarrow> Inl e | Inr x \<Rightarrow> f x)"

definition guardR :: "bool \<Rightarrow> 'e \<Rightarrow> 'e + unit" where
  "guardR b e = (if b then Inr () else Inl e)"

lemma bindR_simps [simp]:
  "bindR (Inl e) f = Inl e"
  "bindR (Inr x) f = f x"
  by (simp_all add: bindR_def)

lemma bindR_Inr_iff [res_simps]:
  "bindR m f = Inr y \<longleftrightarrow> (\<exists>x. m = Inr x \<and> f x = Inr y)"
  by (cases m) auto

lemma bindR_Inl_iff:
  "bindR m f = Inl e \<longleftrightarrow> m = Inl e \<or> (\<exists>x. m = Inr x \<and> f x = Inl e)"
  by (cases m) auto

lemma guardR_Inr_iff [res_simps]: "guardR b e = Inr u \<longleftrightarrow> b"
  by (cases b) (auto simp: guardR_def)

lemma guardR_True [simp]: "guardR True e = Inr ()"
  by (simp add: guardR_def)

lemma guardR_False [simp]: "guardR False e = Inl e"
  by (simp add: guardR_def)

lemma bindR_cong [fundef_cong]:
  "m = m' \<Longrightarrow> (\<And>x. m' = Inr x \<Longrightarrow> f x = g x) \<Longrightarrow> bindR m f = bindR m' g"
  by (cases m') auto

text \<open>A \<open>for\<close> loop over a list that stops at the first error.\<close>

fun foldR :: "('x \<Rightarrow> 's \<Rightarrow> 'e + 's) \<Rightarrow> 'x list \<Rightarrow> 's \<Rightarrow> 'e + 's" where
  "foldR f [] s = Inr s"
| "foldR f (x # xs) s = bindR (f x s) (foldR f xs)"

text \<open>The invariant rule for such a loop.\<close>

lemma foldR_invariant:
  assumes "foldR f xs s = Inr s'" and "P s"
    and "\<And>x s s'. x \<in> set xs \<Longrightarrow> P s \<Longrightarrow> f x s = Inr s' \<Longrightarrow> P s'"
  shows "P s'"
  using assms
proof (induction xs arbitrary: s)
  case Nil
  then show ?case by simp
next
  case (Cons x xs)
  from Cons.prems(1) obtain t where t: "f x s = Inr t" "foldR f xs t = Inr s'"
    by (auto simp: bindR_Inr_iff)
  from Cons.prems(2,3) t(1) have "P t" by (metis list.set_intros(1))
  with t(2) Cons.IH Cons.prems(3) show ?case by (meson list.set_intros(2))
qed

text \<open>The same with the elements done so far.\<close>

lemma foldR_prefixes:
  assumes "foldR f xs s = Inr s'" "P [] s"
    and "\<And>ps x s s'. x \<in> set xs \<Longrightarrow> P ps s \<Longrightarrow> f x s = Inr s' \<Longrightarrow> P (ps @ [x]) s'"
  shows "P xs s'"
proof -
  have "foldR f ys t = Inr s' \<Longrightarrow> P ps t \<Longrightarrow> set ys \<subseteq> set xs \<Longrightarrow> P (ps @ ys) s'" for ys ps t
  proof (induction ys arbitrary: ps t)
    case (Cons y ys)
    from Cons.prems(1) obtain u where u: "f y t = Inr u" "foldR f ys u = Inr s'" by (auto simp: bindR_Inr_iff)
    from Cons.IH [OF u(2), of "ps @ [y]"] assms(3) [OF _ Cons.prems(2) u(1)] Cons.prems(3) show ?case by simp
  qed simp
  from this [of xs s "[]"] assms(1,2) show ?thesis by simp
qed

text \<open>The first error of a list of checks.\<close>

fun allR :: "('x \<Rightarrow> 'e + unit) \<Rightarrow> 'x list \<Rightarrow> 'e + unit" where
  "allR f [] = Inr ()"
| "allR f (x # xs) = bindR (f x) (\<lambda>_. allR f xs)"

lemma allR_Inr_iff [res_simps]: "allR f xs = Inr u \<longleftrightarrow> (\<forall>x\<in>set xs. f x = Inr ())"
  by (induction xs) (auto simp: bindR_Inr_iff)

section \<open>Go maps\<close>

text \<open>\<open>m[k]\<close> of a Go map: the value type's zero value \<open>z\<close> for an absent key.\<close>

definition mget :: "'v \<Rightarrow> ('k, 'v) fmap \<Rightarrow> 'k \<Rightarrow> 'v" where
  "mget z m k = (case fmlookup m k of None \<Rightarrow> z | Some v \<Rightarrow> v)"

lemma mget_fmupd [map_simps, simp]:
  "mget z (fmupd k v m) k' = (if k' = k then v else mget z m k')"
  by (auto simp: mget_def)

lemma mget_fmdrop [map_simps, simp]:
  "mget z (fmdrop k m) k' = (if k' = k then z else mget z m k')"
  by (auto simp: mget_def)

lemma mget_fmempty [map_simps, simp]: "mget z fmempty k = z"
  by (simp add: mget_def)

lemma mget_eq_SomeI: "fmlookup m k = Some v \<Longrightarrow> mget z m k = v"
  by (simp add: mget_def)

lemma mget_neq_zero_Some: "mget z m k \<noteq> z \<Longrightarrow> fmlookup m k = Some (mget z m k)"
  by (auto simp: mget_def split: option.splits)

text \<open>\<open>len(m)\<close> and a scan over the values of a map.\<close>

definition mlen :: "('k, 'v) fmap \<Rightarrow> nat" where
  "mlen m = fcard (fmdom m)"

definition mexists :: "('v \<Rightarrow> bool) \<Rightarrow> ('k, 'v) fmap \<Rightarrow> bool" where
  "mexists P m \<longleftrightarrow> fBex (fmran m) P"

definition mforall :: "('k \<Rightarrow> 'v \<Rightarrow> bool) \<Rightarrow> ('k, 'v) fmap \<Rightarrow> bool" where
  "mforall P m \<longleftrightarrow> fBall (fmdom m) (\<lambda>k. case fmlookup m k of None \<Rightarrow> True | Some v \<Rightarrow> P k v)"

lemma mexists_iff: "mexists P m \<longleftrightarrow> (\<exists>k v. fmlookup m k = Some v \<and> P v)"
  unfolding mexists_def Bex_def fmlookup_ran_iff by blast

lemma mforall_iff: "mforall P m \<longleftrightarrow> (\<forall>k v. fmlookup m k = Some v \<longrightarrow> P k v)"
  by (force simp: mforall_def fmdomI split: option.splits)

lemma mlen_fmupd_present [simp]: "k |\<in>| fmdom m \<Longrightarrow> mlen (fmupd k v m) = mlen m"
  by (simp add: mlen_def finsert_absorb)

text \<open>The write \<open>m[a][b] = v\<close> into a nested map whose outer entry exists.\<close>

definition mput2 :: "'a \<Rightarrow> 'b \<Rightarrow> 'v \<Rightarrow> ('a, ('b, 'v) fmap) fmap \<Rightarrow> ('a, ('b, 'v) fmap) fmap" where
  "mput2 a b v m = fmupd a (fmupd b v (mget fmempty m a)) m"

definition mget2 :: "'v \<Rightarrow> ('a, ('b, 'v) fmap) fmap \<Rightarrow> 'a \<Rightarrow> 'b \<Rightarrow> 'v" where
  "mget2 z m a b = mget z (mget fmempty m a) b"

lemma mget2_mput2 [map_simps, simp]:
  "mget2 z (mput2 a b v m) a' b' = (if a' = a \<and> b' = b then v else mget2 z m a' b')"
  by (auto simp: mget2_def mput2_def)

section \<open>Go's 64-bit integers\<close>

definition MaxInt :: int where
  "MaxInt = 9223372036854775807"

definition wrap64 :: "int \<Rightarrow> int" where
  "wrap64 x = (x + 9223372036854775808) mod 18446744073709551616 - 9223372036854775808"

definition is_int64 :: "int \<Rightarrow> bool" where
  "is_int64 x \<longleftrightarrow> - MaxInt - 1 \<le> x \<and> x \<le> MaxInt"

lemma wrap64_id [simp]: "is_int64 x \<Longrightarrow> wrap64 x = x"
  by (simp add: is_int64_def wrap64_def MaxInt_def)

lemma wrap64_range: "is_int64 (wrap64 x)"
proof -
  have "0 \<le> (x + 9223372036854775808) mod 18446744073709551616"
    and "(x + 9223372036854775808) mod 18446744073709551616 < 18446744073709551616"
    by simp_all
  then show ?thesis by (simp add: is_int64_def wrap64_def MaxInt_def)
qed

lemma wrap64_succ:
  "0 \<le> x \<Longrightarrow> x \<le> MaxInt \<Longrightarrow> wrap64 (x + 1) = (if x = MaxInt then - MaxInt - 1 else x + 1)"
  by (auto simp: wrap64_def MaxInt_def)

section \<open>Lists\<close>

text \<open>\<open>slices.Index\<close>: the first position of a value, or none.\<close>

fun index_of :: "'a \<Rightarrow> 'a list \<Rightarrow> nat option" where
  "index_of x [] = None"
| "index_of x (y # ys) = (if x = y then Some 0 else map_option Suc (index_of x ys))"

lemma index_of_Some: "index_of x ys = Some n \<Longrightarrow> n < length ys \<and> ys ! n = x"
  by (induction ys arbitrary: n) (auto split: if_splits)

lemma index_of_None [simp]: "index_of x ys = None \<longleftrightarrow> x \<notin> set ys"
  by (induction ys) auto

lemma index_of_nth: "distinct ys \<Longrightarrow> n < length ys \<Longrightarrow> index_of (ys ! n) ys = Some n"
proof (induction ys arbitrary: n)
  case Nil
  then show ?case by simp
next
  case (Cons y ys)
  then show ?case by (cases n) auto
qed

end
