(* ===== verification/Process_Types.thy ===== *)
theory Process_Types
  imports Prelude
begin

text \<open>
  The data of the process engine: the durable checkpoint with its three outboxes, the
  reducer's inputs, and the prepared definition (\<open>engine/types.go\<close> and the type
  declarations of \<open>engine/validate.go\<close> and \<open>engine/loops.go\<close>).

  Go's string enumerations are datatypes with one constructor per declared constant and one
  more for every other string a decoded checkpoint may hold; the zero value is that
  constructor at the empty string.  A Go \<open>int\<close> that is an index with the sentinel \<open>-1\<close> is a
  \<open>nat option\<close>, every other \<open>int\<close> is an \<open>int\<close> whose arithmetic is written with \<open>wrap64\<close> where
  the source can overflow.  A nil map or slice and an empty one are the same value here: the
  source distinguishes them only in the JSON encoding.
\<close>

section \<open>Enumerations\<close>

datatype RunStatus = RunRunning | RunCompleted | RunFailed | RunCanceled | RunOther string

datatype NodeStatus =
    NodePending | NodeReady | NodeRunning | NodeDone | NodeFailed | NodeSkipped
  | NodeBlocked | NodeCanceled | NodeOther string

datatype EdgeDisposition =
    EdgeUnresolved | EdgeArrived | EdgeNotTaken | EdgeArrivedLate | EdgeOther string

datatype CommandKind = CommandProgram | CommandAgent | CommandOther string

datatype ProgramOutcome = ProgramSucceeded | ProgramFailed | OutcomeOther string

datatype ResolutionAction = ResolveRetry | ResolveSkip | ResolveCancel | ResolveOther string

datatype TransitionKind =
    TransitionAdvance | TransitionCommandPlanned | TransitionProgramObserved
  | TransitionDecisionRecorded | TransitionBlockedResolved | TransitionOther string

datatype StageKind =
    StagePlan | StagePlanApproval | StageDo | StageTest | StageReview | StageDone | StageNone

section \<open>Commands and obligations\<close>

record ProgramCommand =
  pc_Profile :: string
  pc_Run :: string
  pc_Args :: "string list"
  pc_Timeout :: string

record AgentCommand =
  ac_Profile :: string
  ac_Prompt :: string
  ac_Assignee :: string
  ac_Model :: string
  ac_Effort :: string
  ac_Role :: string
  ac_Anyone :: bool
  ac_Spawn :: bool
  ac_FallbackAction :: string
  ac_FallbackProfile :: string
  ac_RetryMode :: string

record Command =
  cmd_ID :: string
  cmd_Kind :: CommandKind
  cmd_NodeID :: string
  cmd_Attempt :: int
  cmd_Program :: ProgramCommand
  cmd_Agent :: "AgentCommand option"
  cmd_Round :: int
  cmd_Rounds :: int
  cmd_LoopFrom :: string
  cmd_LoopOutcome :: string
  cmd_Verdicts :: "string list"

record DecisionObligation =
  do_NodeID :: string

record BlockedObligation =
  bo_NodeID :: string
  bo_Reason :: string

definition emptyProgram :: ProgramCommand where
  "emptyProgram = \<lparr>pc_Profile = [], pc_Run = [], pc_Args = [], pc_Timeout = []\<rparr>"

section \<open>The checkpoint\<close>

record Checkpoint =
  Version :: int
  RunID :: string
  Status :: RunStatus
  Nodes :: "(string, NodeStatus) fmap"
  Attempts :: "(string, int) fmap"
  Edges :: "(string, (string, EdgeDisposition) fmap) fmap"
  AwaitingDecisions :: "DecisionObligation list"
  Commands :: "Command list"
  Blocked :: "BlockedObligation list"
  AttemptCeilings :: "(string, int) fmap"
  Iterations :: "(string, (string, int) fmap) fmap"

definition CheckpointVersion :: int where
  "CheckpointVersion = 3"

definition MaxBlockedReasonBytes :: nat where
  "MaxBlockedReasonBytes = 1024"

text \<open>The reads \<open>c.Nodes[id]\<close>, \<open>c.Attempts[id]\<close>, \<open>c.Edges[f][o]\<close>, \<open>c.Iterations[f][o]\<close>.\<close>

definition nodeStatus :: "Checkpoint \<Rightarrow> string \<Rightarrow> NodeStatus" where
  "nodeStatus c nid = mget (NodeOther []) (Nodes c) nid"

definition attempts :: "Checkpoint \<Rightarrow> string \<Rightarrow> int" where
  "attempts c nid = mget 0 (Attempts c) nid"

definition edgeDisp :: "Checkpoint \<Rightarrow> string \<Rightarrow> string \<Rightarrow> EdgeDisposition" where
  "edgeDisp c f oc = mget2 (EdgeOther []) (Edges c) f oc"

definition iterations :: "Checkpoint \<Rightarrow> string \<Rightarrow> string \<Rightarrow> int" where
  "iterations c f oc = mget2 0 (Iterations c) f oc"

text \<open>The write \<open>c.Nodes[id] = s\<close>.\<close>

definition setNode :: "string \<Rightarrow> NodeStatus \<Rightarrow> Checkpoint \<Rightarrow> Checkpoint" where
  "setNode nid s c = c\<lparr>Nodes := fmupd nid s (Nodes c)\<rparr>"

text \<open>The write \<open>c.Edges[f][o] = e\<close>: it panics when \<open>c.Edges[f]\<close> is nil.\<close>

definition setEdge :: "string \<Rightarrow> string \<Rightarrow> EdgeDisposition \<Rightarrow> Checkpoint \<Rightarrow> Checkpoint" where
  "setEdge f oc e c = c\<lparr>Edges := mput2 f oc e (Edges c)\<rparr>"

definition FirstCommand :: "Checkpoint \<Rightarrow> Command option" where
  "FirstCommand c = (case Commands c of [] \<Rightarrow> None | x # _ \<Rightarrow> Some x)"

definition FirstAwaitingDecision :: "Checkpoint \<Rightarrow> DecisionObligation option" where
  "FirstAwaitingDecision c = (case AwaitingDecisions c of [] \<Rightarrow> None | x # _ \<Rightarrow> Some x)"

definition Fallback :: "AgentCommand \<Rightarrow> string \<times> string" where
  "Fallback ac =
     (if ac_FallbackAction ac \<noteq> [] then (ac_FallbackAction ac, ac_FallbackProfile ac)
      else if ac_Spawn ac \<and> ac_Profile ac \<noteq> [] then (''spawn'', ac_Profile ac)
      else (''wait'', []))"

section \<open>Reducer inputs\<close>

record ProgramObservation =
  obs_CommandID :: string
  obs_NodeID :: string
  obs_Outcome :: ProgramOutcome
  obs_ExitCode :: int
  obs_Error :: string
  obs_Verdict :: string

record DecisionRecord =
  dec_NodeID :: string
  dec_Verdict :: string
  dec_Attempt :: int

record BlockedResolution =
  res_NodeID :: string
  res_Attempt :: int
  res_Action :: ResolutionAction

record Transition =
  tr_Kind :: TransitionKind
  tr_NodeID :: string
  tr_Command :: "Command option"
  tr_Observation :: "ProgramObservation option"
  tr_Decision :: "DecisionRecord option"
  tr_Resolution :: "BlockedResolution option"

section \<open>The prepared definition\<close>

datatype definitionNodeKind =
    definitionStart | definitionTask | definitionEnd | definitionDecision | definitionParallel
  | definitionCompound | definitionStageDone | definitionSubprocess | definitionSubprocessExit

record definitionNode =
  n_id :: string
  n_kind :: definitionNodeKind
  n_program :: ProgramCommand
  n_agent :: "AgentCommand option"
  n_maxAttempts :: int
  n_retryAuthored :: bool
  n_terminal :: RunStatus
  n_verdicts :: "string list"
  n_outgoing :: "nat list"
  n_incoming :: "nat list"
  n_joinAll :: bool
  n_joinAny :: bool
  n_children :: "nat list"
  n_parent :: "nat option"
  n_stage :: StageKind
  n_doAnchor :: "nat option"
  n_planAnchor :: "nat option"
  n_approvalGate :: "nat option"
  n_scope :: "nat option"
  n_scopeEnd :: "nat option"
  n_entry :: "nat option"
  n_exitOutcome :: string
  n_loops :: "nat list"
  n_sourceOf :: "nat list"

record definitionEdge =
  e_from :: string
  e_outcome :: string
  e_to :: string
  e_fromIndex :: nat
  e_toIndex :: nat
  e_loop :: "nat option"
  e_exitOf :: "nat list"

record definitionLoop =
  l_edge :: nat
  l_from :: nat
  l_to :: nat
  l_outcome :: string
  l_maxIterations :: int
  l_onExhausted :: string
  l_body :: "nat list"
  l_exits :: "nat list"
  l_inner :: "nat list"

record Definition =
  d_nodes :: "definitionNode list"
  d_index :: "(string, nat) fmap"
  d_edges :: "definitionEdge list"
  d_joinAnyIncoming :: "nat list"
  d_loops :: "definitionLoop list"

abbreviation node_at :: "Definition \<Rightarrow> nat \<Rightarrow> definitionNode" where
  "node_at d i \<equiv> d_nodes d ! i"

abbreviation edge_at :: "Definition \<Rightarrow> nat \<Rightarrow> definitionEdge" where
  "edge_at d i \<equiv> d_edges d ! i"

abbreviation loop_at :: "Definition \<Rightarrow> nat \<Rightarrow> definitionLoop" where
  "loop_at d i \<equiv> d_loops d ! i"

text \<open>A node whose status, command or obligation makes it live work.\<close>

definition runsCommand :: "definitionNode \<Rightarrow> bool" where
  "runsCommand n \<longleftrightarrow>
     n_kind n = definitionTask \<or> (n_kind n = definitionDecision \<and> n_agent n \<noteq> None)"

definition awaitsHuman :: "definitionNode \<Rightarrow> bool" where
  "awaitsHuman n \<longleftrightarrow> n_kind n = definitionDecision \<and> n_agent n = None"

definition commandKind :: "definitionNode \<Rightarrow> CommandKind" where
  "commandKind n = (if n_agent n \<noteq> None then CommandAgent else CommandProgram)"

definition definitionNodeByID :: "Definition \<Rightarrow> string \<Rightarrow> definitionNode option" where
  "definitionNodeByID d nid = map_option (node_at d) (fmlookup (d_index d) nid)"

lemma runsCommand_not_awaitsHuman [simp]: "runsCommand n \<Longrightarrow> \<not> awaitsHuman n"
  by (auto simp: runsCommand_def awaitsHuman_def)

section \<open>Reads after writes\<close>

lemma nodeStatus_setNode [simp]:
  "nodeStatus (setNode k s c) k' = (if k' = k then s else nodeStatus c k')"
  by (simp add: nodeStatus_def setNode_def)

lemma edgeDisp_setEdge [simp]:
  "edgeDisp (setEdge f oc e c) f' oc' = (if f' = f \<and> oc' = oc then e else edgeDisp c f' oc')"
  by (simp add: edgeDisp_def setEdge_def)

lemma setNode_frame [simp]:
  "edgeDisp (setNode k s c) f oc = edgeDisp c f oc"
  "attempts (setNode k s c) n = attempts c n"
  "iterations (setNode k s c) f oc = iterations c f oc"
  "Version (setNode k s c) = Version c" "RunID (setNode k s c) = RunID c"
  "Status (setNode k s c) = Status c" "Attempts (setNode k s c) = Attempts c"
  "Edges (setNode k s c) = Edges c" "AwaitingDecisions (setNode k s c) = AwaitingDecisions c"
  "Commands (setNode k s c) = Commands c" "Blocked (setNode k s c) = Blocked c"
  "AttemptCeilings (setNode k s c) = AttemptCeilings c" "Iterations (setNode k s c) = Iterations c"
  by (simp_all add: setNode_def edgeDisp_def attempts_def iterations_def)

lemma setEdge_frame [simp]:
  "nodeStatus (setEdge f oc e c) n = nodeStatus c n"
  "attempts (setEdge f oc e c) n = attempts c n"
  "iterations (setEdge f oc e c) f' oc' = iterations c f' oc'"
  "Version (setEdge f oc e c) = Version c" "RunID (setEdge f oc e c) = RunID c"
  "Status (setEdge f oc e c) = Status c" "Attempts (setEdge f oc e c) = Attempts c"
  "Nodes (setEdge f oc e c) = Nodes c" "AwaitingDecisions (setEdge f oc e c) = AwaitingDecisions c"
  "Commands (setEdge f oc e c) = Commands c" "Blocked (setEdge f oc e c) = Blocked c"
  "AttemptCeilings (setEdge f oc e c) = AttemptCeilings c"
  "Iterations (setEdge f oc e c) = Iterations c"
  by (simp_all add: setEdge_def nodeStatus_def attempts_def iterations_def)

end
