(* ===== verification/Outboxes.thy ===== *)
theory Outboxes
  imports Process_Types
begin

text \<open>
  The three durable outboxes of a checkpoint (\<open>engine/engine.go\<close>, \<open>putCommand\<close> to
  \<open>truncateReason\<close>): outstanding commands, awaited decisions and blocked branches.  The locale
  \<open>outbox\<close> states what the reducer relies on, one entry per node id kept sorted by node id, and
  is interpreted on each of the three; its lemmas give the canonical encoding of an outbox.
\<close>

section \<open>Operations\<close>

subsection \<open>Commands\<close>

fun replaceCommand :: "Command \<Rightarrow> Command list \<Rightarrow> Command list" where
  "replaceCommand command [] = []"
| "replaceCommand command (x # xs) =
     (if cmd_NodeID x = cmd_NodeID command then command # xs else x # replaceCommand command xs)"

definition putCommand :: "Command \<Rightarrow> Checkpoint \<Rightarrow> Checkpoint" where
  "putCommand command c =
     (if list_ex (\<lambda>x. cmd_NodeID x = cmd_NodeID command) (Commands c)
      then c\<lparr>Commands := replaceCommand command (Commands c)\<rparr>
      else c\<lparr>Commands := sort_key cmd_NodeID (Commands c @ [command])\<rparr>)"

definition findCommand :: "Checkpoint \<Rightarrow> string \<Rightarrow> string \<Rightarrow> Command option" where
  "findCommand c commandID nodeID =
     find (\<lambda>x. cmd_ID x = commandID \<and> cmd_NodeID x = nodeID) (Commands c)"

definition removeCommand :: "string \<Rightarrow> Checkpoint \<Rightarrow> Checkpoint" where
  "removeCommand nodeID c = c\<lparr>Commands := filter (\<lambda>x. cmd_NodeID x \<noteq> nodeID) (Commands c)\<rparr>"

subsection \<open>Awaited decisions\<close>

definition hasObligation :: "Checkpoint \<Rightarrow> string \<Rightarrow> bool" where
  "hasObligation c nodeID \<longleftrightarrow> list_ex (\<lambda>x. do_NodeID x = nodeID) (AwaitingDecisions c)"

definition addObligation :: "string \<Rightarrow> Checkpoint \<Rightarrow> Checkpoint" where
  "addObligation nodeID c =
     (if hasObligation c nodeID then c
      else c\<lparr>AwaitingDecisions :=
             sort_key do_NodeID (AwaitingDecisions c @ [\<lparr>do_NodeID = nodeID\<rparr>])\<rparr>)"

definition removeObligation :: "string \<Rightarrow> Checkpoint \<Rightarrow> Checkpoint" where
  "removeObligation nodeID c =
     c\<lparr>AwaitingDecisions := filter (\<lambda>x. do_NodeID x \<noteq> nodeID) (AwaitingDecisions c)\<rparr>"

subsection \<open>Blocked branches\<close>

text \<open>
  \<open>utf8.ValidString\<close> of Go's standard library: the byte sequences of RFC 3629, without
  surrogates and overlong forms.
\<close>

definition utf8_cont :: "nat \<Rightarrow> bool" where
  "utf8_cont b \<longleftrightarrow> 128 \<le> b \<and> b \<le> 191"

fun utf8_valid :: "nat list \<Rightarrow> bool" where
  "utf8_valid [] = True"
| "utf8_valid (b # bs) =
    (if b < 128 then utf8_valid bs
     else (case bs of [] \<Rightarrow> False | b1 # bs1 \<Rightarrow>
       if 194 \<le> b \<and> b \<le> 223 then utf8_cont b1 \<and> utf8_valid bs1
       else (case bs1 of [] \<Rightarrow> False | b2 # bs2 \<Rightarrow>
         if 224 \<le> b \<and> b \<le> 239
         then (if b = 224 then 160 else 128) \<le> b1 \<and> b1 \<le> (if b = 237 then 159 else 191) \<and>
              utf8_cont b2 \<and> utf8_valid bs2
         else (case bs2 of [] \<Rightarrow> False | b3 # bs3 \<Rightarrow>
           240 \<le> b \<and> b \<le> 244 \<and>
           (if b = 240 then 144 else 128) \<le> b1 \<and> b1 \<le> (if b = 244 then 143 else 191) \<and>
           utf8_cont b2 \<and> utf8_cont b3 \<and> utf8_valid bs3))))"

definition utf8_ValidString :: "string \<Rightarrow> bool" where
  "utf8_ValidString s = utf8_valid (map of_char s)"

fun truncateCut :: "string \<Rightarrow> nat \<Rightarrow> nat" where
  "truncateCut reason 0 = 0"
| "truncateCut reason (Suc n) =
     (if utf8_ValidString (take (Suc n) reason) then Suc n else truncateCut reason n)"

definition truncateReason :: "string \<Rightarrow> string" where
  "truncateReason reason =
     (if length reason \<le> MaxBlockedReasonBytes then reason
      else take (truncateCut reason MaxBlockedReasonBytes) reason)"

definition hasBlocked :: "Checkpoint \<Rightarrow> string \<Rightarrow> bool" where
  "hasBlocked c nodeID \<longleftrightarrow> list_ex (\<lambda>x. bo_NodeID x = nodeID) (Blocked c)"

definition addBlocked :: "string \<Rightarrow> string \<Rightarrow> Checkpoint \<Rightarrow> Checkpoint" where
  "addBlocked nodeID reason c =
     (if hasBlocked c nodeID then c
      else c\<lparr>Blocked := sort_key bo_NodeID
             (Blocked c @ [\<lparr>bo_NodeID = nodeID, bo_Reason = truncateReason reason\<rparr>])\<rparr>)"

definition removeBlocked :: "string \<Rightarrow> Checkpoint \<Rightarrow> Checkpoint" where
  "removeBlocked nodeID c = c\<lparr>Blocked := filter (\<lambda>x. bo_NodeID x \<noteq> nodeID) (Blocked c)\<rparr>"

section \<open>The outbox interface\<close>

locale outbox =
  fixes key :: "'e \<Rightarrow> string"
    and entries :: "Checkpoint \<Rightarrow> 'e list"
    and put :: "'e \<Rightarrow> Checkpoint \<Rightarrow> Checkpoint"
    and remove :: "string \<Rightarrow> Checkpoint \<Rightarrow> Checkpoint"
  assumes entries_put_new:
      "key e \<notin> key ` set (entries c) \<Longrightarrow> entries (put e c) = sort_key key (entries c @ [e])"
    and keys_put_old:
      "key e \<in> key ` set (entries c) \<Longrightarrow> map key (entries (put e c)) = map key (entries c)"
    and entries_remove: "entries (remove k c) = filter (\<lambda>e. key e \<noteq> k) (entries c)"
begin

definition canonical :: "Checkpoint \<Rightarrow> bool" where
  "canonical c \<longleftrightarrow> sorted (map key (entries c)) \<and> distinct (map key (entries c))"

definition keys :: "Checkpoint \<Rightarrow> string set" where
  "keys c = key ` set (entries c)"

lemma keys_put: "keys (put e c) = insert (key e) (keys c)"
proof (cases "key e \<in> keys c")
  case True
  then have "set (map key (entries (put e c))) = set (map key (entries c))"
    by (simp only: keys_put_old keys_def)
  with True show ?thesis by (simp add: keys_def insert_absorb)
next
  case False
  then show ?thesis by (simp add: keys_def entries_put_new)
qed

lemma keys_remove: "keys (remove k c) = keys c - {k}"
  by (auto simp: keys_def entries_remove)

lemma canonical_put: "canonical c \<Longrightarrow> canonical (put e c)"
proof (cases "key e \<in> keys c")
  case True
  then have "map key (entries (put e c)) = map key (entries c)"
    by (simp only: keys_put_old keys_def)
  then show "canonical c \<Longrightarrow> canonical (put e c)" by (simp add: canonical_def)
next
  case False
  assume "canonical c"
  with False have "distinct (map key (entries c @ [e]))"
    by (auto simp: canonical_def keys_def)
  then have "distinct (map key (sort_key key (entries c @ [e])))"
    by (auto simp: distinct_map)
  moreover have "sorted (map key (sort_key key (entries c @ [e])))"
    by (rule sorted_sort_key)
  ultimately show ?thesis
    using False by (simp add: canonical_def keys_def entries_put_new)
qed

lemma canonical_remove: "canonical c \<Longrightarrow> canonical (remove k c)"
  by (simp add: canonical_def entries_remove sorted_filter distinct_map_filter)

text \<open>
  One logical content has one encoding: two canonical outboxes with the same entries are the
  same list.
\<close>

lemma canonical_unique:
  assumes "canonical c" "canonical c'" "set (entries c) = set (entries c')"
  shows "entries c = entries c'"
proof -
  have "distinct (entries c)" "distinct (entries c')"
    using assms(1,2) by (simp_all add: canonical_def distinct_map)
  moreover have "inj_on key (set (entries c))"
    using assms(1) by (simp add: canonical_def distinct_map)
  ultimately show ?thesis
    using assms by (intro map_sorted_distinct_set_unique [of key]) (auto simp: canonical_def)
qed

lemma length_entries_card: "canonical c \<Longrightarrow> length (entries c) = card (keys c)"
  by (metis canonical_def distinct_card keys_def length_map list.set_map)

lemma keys_remove_length:
  "canonical c \<Longrightarrow> k \<in> keys c \<Longrightarrow> length (entries c) = Suc (length (entries (remove k c)))"
  by (simp add: length_entries_card canonical_remove keys_remove)
    (metis List.finite_set Suc_pred card_gt_0_iff empty_iff finite_imageI keys_def)

end

section \<open>The three outboxes\<close>

lemma replaceCommand_keys [simp]:
  "map cmd_NodeID (replaceCommand command xs) = map cmd_NodeID xs"
  by (induction xs) auto

interpretation cmds: outbox cmd_NodeID Commands putCommand removeCommand
  by unfold_locales (auto simp: putCommand_def removeCommand_def list_ex_iff image_iff)

lemma obligation_eta [simp]: "\<lparr>do_NodeID = do_NodeID e\<rparr> = e"
  by (cases e) simp

interpretation awaits: outbox do_NodeID AwaitingDecisions
  "\<lambda>e. addObligation (do_NodeID e)" removeObligation
  by unfold_locales
    (auto simp: addObligation_def removeObligation_def hasObligation_def list_ex_iff image_iff)

text \<open>
  An entry of the blocked outbox is added with its reason truncated, so the interface's entry
  is the one with the truncated reason.
\<close>

definition putBlocked :: "BlockedObligation \<Rightarrow> Checkpoint \<Rightarrow> Checkpoint" where
  "putBlocked e c =
     (if hasBlocked c (bo_NodeID e) then c
      else c\<lparr>Blocked := sort_key bo_NodeID (Blocked c @ [e])\<rparr>)"

lemma addBlocked_putBlocked:
  "addBlocked nodeID reason c =
     putBlocked \<lparr>bo_NodeID = nodeID, bo_Reason = truncateReason reason\<rparr> c"
  by (simp add: addBlocked_def putBlocked_def)

interpretation parked: outbox bo_NodeID Blocked putBlocked removeBlocked
  by unfold_locales
    (auto simp: putBlocked_def removeBlocked_def hasBlocked_def list_ex_iff image_iff)

end
