(* ===== verification/Attempts.thy ===== *)
theory Attempts
  imports Outboxes
begin

text \<open>
  Attempt counters, ceilings and the gates of a compound task (\<open>engine/engine.go\<close>,
  \<open>nextAttempt\<close> to \<open>recordAttempt\<close>, and the anchor and ceiling functions of
  \<open>engine/stages.go\<close>).  An index of the prepared definition is read with \<open>!\<close>; the source
  panics on an index out of range, which \<open>wf_definition\<close> (theory \<open>Prepared\<close>) rules out.
\<close>

section \<open>Counters\<close>

definition nextAttempt :: "Checkpoint \<Rightarrow> string \<Rightarrow> int" where
  "nextAttempt c nodeID = wrap64 (attempts c nodeID + 1)"

definition attemptCeiling :: "Checkpoint \<Rightarrow> definitionNode \<Rightarrow> int" where
  "attemptCeiling c node =
     (case fmlookup (AttemptCeilings c) (n_id node) of
        Some raised \<Rightarrow> if raised > n_maxAttempts node then raised else n_maxAttempts node
      | None \<Rightarrow> n_maxAttempts node)"

definition raiseAttemptCeiling :: "definitionNode \<Rightarrow> Checkpoint \<Rightarrow> Checkpoint result" where
  "raiseAttemptCeiling node c =
     (let a = attempts c (n_id node);
          raised = wrap64 (a + n_maxAttempts node)
      in if a > wrap64 (MaxInt - n_maxAttempts node) then Inl ErrInvalidTransition
         else if raised \<le> attemptCeiling c node then Inl ErrInvalidTransition
         else Inr (c\<lparr>AttemptCeilings := fmupd (n_id node) raised (AttemptCeilings c)\<rparr>))"

definition recordAttempt :: "string \<Rightarrow> int \<Rightarrow> Checkpoint \<Rightarrow> Checkpoint" where
  "recordAttempt nodeID attempt c = c\<lparr>Attempts := fmupd nodeID attempt (Attempts c)\<rparr>"

definition saturatingNextAttempt :: "Checkpoint \<Rightarrow> string \<Rightarrow> int" where
  "saturatingNextAttempt c nodeID =
     (if attempts c nodeID < MaxInt then attempts c nodeID + 1 else MaxInt)"

section \<open>Gates and their anchors\<close>

definition gateAnchor :: "Definition \<Rightarrow> definitionNode \<Rightarrow> definitionNode option" where
  "gateAnchor d node =
     (case n_parent node of
        None \<Rightarrow> None
      | Some p \<Rightarrow>
          if n_stage node \<noteq> StageTest \<and> n_stage node \<noteq> StageReview then None
          else map_option (node_at d) (n_doAnchor (node_at d p)))"

definition approvalAnchor :: "Definition \<Rightarrow> definitionNode \<Rightarrow> definitionNode option" where
  "approvalAnchor d node =
     (case n_parent node of
        None \<Rightarrow> None
      | Some p \<Rightarrow>
          if n_stage node \<noteq> StagePlanApproval then None
          else map_option (node_at d) (n_planAnchor (node_at d p)))"

definition verdictAnchor :: "Definition \<Rightarrow> definitionNode \<Rightarrow> definitionNode option" where
  "verdictAnchor d node =
     (case gateAnchor d node of Some a \<Rightarrow> Some a | None \<Rightarrow> approvalAnchor d node)"

definition approvalGatedPlan :: "Definition \<Rightarrow> definitionNode \<Rightarrow> bool" where
  "approvalGatedPlan d node \<longleftrightarrow>
     (case n_parent node of
        None \<Rightarrow> False
      | Some p \<Rightarrow> n_stage node = StagePlan \<and> n_approvalGate (node_at d p) \<noteq> None)"

definition executableAttemptCeiling :: "Checkpoint \<Rightarrow> Definition \<Rightarrow> definitionNode \<Rightarrow> int" where
  "executableAttemptCeiling c d node =
     (case gateAnchor d node of
        Some anchor \<Rightarrow> attemptCeiling c anchor
      | None \<Rightarrow>
          if approvalGatedPlan d node then saturatingNextAttempt c (n_id node)
          else attemptCeiling c node)"

definition blockableTask :: "Definition \<Rightarrow> definitionNode \<Rightarrow> bool" where
  "blockableTask d node \<longleftrightarrow>
     n_retryAuthored node \<or>
     (case gateAnchor d node of Some anchor \<Rightarrow> n_retryAuthored anchor | None \<Rightarrow> False)"

definition ApprovalAttempt :: "Definition \<Rightarrow> Checkpoint \<Rightarrow> string \<Rightarrow> int option" where
  "ApprovalAttempt d c nodeID =
     (case definitionNodeByID d nodeID of
        None \<Rightarrow> None
      | Some node \<Rightarrow> map_option (\<lambda>plan. attempts c (n_id plan)) (approvalAnchor d node))"

definition RequiredDecisionAttempt :: "Definition \<Rightarrow> Checkpoint \<Rightarrow> string \<Rightarrow> int" where
  "RequiredDecisionAttempt d c nodeID =
     (case ApprovalAttempt d c nodeID of Some a \<Rightarrow> a | None \<Rightarrow> attempts c nodeID)"

section \<open>Facts\<close>

lemma attempts_record [simp]:
  "attempts (recordAttempt k a c) k' = (if k' = k then a else attempts c k')"
  by (simp add: attempts_def recordAttempt_def)

lemma recordAttempt_frame [simp]:
  "nodeStatus (recordAttempt k a c) n = nodeStatus c n"
  "edgeDisp (recordAttempt k a c) f oc = edgeDisp c f oc"
  "iterations (recordAttempt k a c) f oc = iterations c f oc"
  "Version (recordAttempt k a c) = Version c" "RunID (recordAttempt k a c) = RunID c"
  "Status (recordAttempt k a c) = Status c" "Nodes (recordAttempt k a c) = Nodes c"
  "Edges (recordAttempt k a c) = Edges c"
  "AwaitingDecisions (recordAttempt k a c) = AwaitingDecisions c"
  "Commands (recordAttempt k a c) = Commands c" "Blocked (recordAttempt k a c) = Blocked c"
  "AttemptCeilings (recordAttempt k a c) = AttemptCeilings c"
  "Iterations (recordAttempt k a c) = Iterations c"
  by (simp_all add: recordAttempt_def nodeStatus_def edgeDisp_def iterations_def)

lemma attemptCeiling_ge: "n_maxAttempts node \<le> attemptCeiling c node"
  by (auto simp: attemptCeiling_def split: option.splits)

lemma attemptCeiling_cong:
  "AttemptCeilings c = AttemptCeilings c' \<Longrightarrow> attemptCeiling c = attemptCeiling c'"
  by (simp add: attemptCeiling_def fun_eq_iff)

text \<open>
  The ceiling only rises, and a successful raise opens a window of exactly the authored size
  above the attempts already used.
\<close>

lemma raiseAttemptCeiling_effect:
  assumes "raiseAttemptCeiling node c = Inr c'"
    and "0 \<le> attempts c (n_id node)" "attempts c (n_id node) \<le> MaxInt"
    and "0 \<le> n_maxAttempts node" "n_maxAttempts node \<le> MaxInt"
  shows "attemptCeiling c' node = attempts c (n_id node) + n_maxAttempts node"
    and "attemptCeiling c node < attemptCeiling c' node"
    and "c' = c\<lparr>AttemptCeilings := fmupd (n_id node) (attempts c (n_id node) + n_maxAttempts node)
               (AttemptCeilings c)\<rparr>"
proof -
  let ?a = "attempts c (n_id node)" and ?m = "n_maxAttempts node"
  have m: "wrap64 (MaxInt - ?m) = MaxInt - ?m"
    using assms(4,5) by (intro wrap64_id) (simp add: is_int64_def MaxInt_def)
  with assms(1) have le: "?a + ?m \<le> MaxInt"
    by (auto simp: raiseAttemptCeiling_def Let_def split: if_splits)
  then have w: "wrap64 (?a + ?m) = ?a + ?m"
    using assms(2,4) by (intro wrap64_id) (simp add: is_int64_def MaxInt_def)
  show c': "c' = c\<lparr>AttemptCeilings := fmupd (n_id node) (?a + ?m) (AttemptCeilings c)\<rparr>"
    and gt: "attemptCeiling c node < attemptCeiling c' node"
    and "attemptCeiling c' node = ?a + ?m"
    using assms(1) w attemptCeiling_ge [of node c]
    by (auto simp: raiseAttemptCeiling_def Let_def attemptCeiling_def
        split: if_splits option.splits)
qed

lemma nextAttempt_pos:
  assumes "0 \<le> attempts c k" "attempts c k \<le> MaxInt" "1 \<le> nextAttempt c k"
  shows "nextAttempt c k = attempts c k + 1" "nextAttempt c k \<le> MaxInt"
  using assms wrap64_succ [of "attempts c k"]
  by (auto simp: nextAttempt_def MaxInt_def split: if_splits)

end
