(* ===== verification/Settlement.thy ===== *)
theory Settlement
  imports Attempts
begin

text \<open>
  The settlement pass of the reducer (\<open>engine/engine.go\<close>, \<open>completeAndSettle\<close> with
  \<open>joinAlreadyWon\<close>, \<open>soleOutcome\<close> and \<open>skipSubprocessBody\<close>; \<open>engine/validate.go\<close>,
  \<open>countDispositions\<close>; \<open>engine/loops.go\<close>, \<open>deferredExit\<close>).  Completing a node settles its
  outgoing edges and then works a queue of affected targets until it is empty.  The pass is a
  total function: every settled edge leaves the unresolved ones for good, which bounds the queue.
\<close>

section \<open>Reading edges\<close>

definition edgeState :: "Checkpoint \<Rightarrow> definitionEdge \<Rightarrow> EdgeDisposition" where
  "edgeState c e = edgeDisp c (e_from e) (e_outcome e)"

record edgeCounts =
  unresolved :: int
  arrived :: int
  notTaken :: int
  arrivedLate :: int

definition zeroCounts :: edgeCounts where
  "zeroCounts = \<lparr>unresolved = 0, arrived = 0, notTaken = 0, arrivedLate = 0\<rparr>"

fun countDispositions :: "Checkpoint \<Rightarrow> Definition \<Rightarrow> nat list \<Rightarrow> edgeCounts" where
  "countDispositions c d [] = zeroCounts"
| "countDispositions c d (ei # eis) =
     (let k = countDispositions c d eis in
      case edgeState c (edge_at d ei) of
        EdgeArrived \<Rightarrow> k\<lparr>arrived := arrived k + 1\<rparr>
      | EdgeNotTaken \<Rightarrow> k\<lparr>notTaken := notTaken k + 1\<rparr>
      | EdgeArrivedLate \<Rightarrow> k\<lparr>arrivedLate := arrivedLate k + 1\<rparr>
      | _ \<Rightarrow> k\<lparr>unresolved := unresolved k + 1\<rparr>)"

definition joinAlreadyWon :: "Checkpoint \<Rightarrow> Definition \<Rightarrow> nat \<Rightarrow> bool" where
  "joinAlreadyWon c d i \<longleftrightarrow>
     list_ex (\<lambda>ei. edgeState c (edge_at d ei) = EdgeArrived) (n_incoming (node_at d i))"

definition soleOutcome :: "Definition \<Rightarrow> definitionNode \<Rightarrow> string" where
  "soleOutcome d node =
     (case n_outgoing node of [ei] \<Rightarrow> e_outcome (edge_at d ei) | _ \<Rightarrow> [])"

definition deferredExit :: "Checkpoint \<Rightarrow> Definition \<Rightarrow> nat \<Rightarrow> bool" where
  "deferredExit c d ei \<longleftrightarrow>
     list_ex (\<lambda>li. case nodeStatus c (n_id (node_at d (l_from (loop_at d li)))) of
                     NodeDone \<Rightarrow> False | NodeSkipped \<Rightarrow> False | _ \<Rightarrow> True)
       (e_exitOf (edge_at d ei))"

datatype outgoingArrivals = arrivesAt string | arrivesAtEveryBranch

fun disposition :: "outgoingArrivals \<Rightarrow> string \<Rightarrow> EdgeDisposition" where
  "disposition arrivesAtEveryBranch oc = EdgeArrived"
| "disposition (arrivesAt r) oc = (if oc = r then EdgeArrived else EdgeNotTaken)"

section \<open>The pass\<close>

text \<open>
  The local state of the pass: the checkpoint being rewritten, the cached counts of the targets
  scanned so far, and the queue of targets whose inputs changed.
\<close>

record settling =
  s_next :: Checkpoint
  s_touched :: "(nat, edgeCounts) fmap"
  s_queue :: "nat list"

definition touch :: "EdgeDisposition \<Rightarrow> edgeCounts \<Rightarrow> edgeCounts" where
  "touch disp k =
     (case disp of
        EdgeArrived \<Rightarrow> k\<lparr>unresolved := unresolved k - 1, arrived := arrived k + 1\<rparr>
      | EdgeArrivedLate \<Rightarrow> k\<lparr>unresolved := unresolved k - 1, arrivedLate := arrivedLate k + 1\<rparr>
      | _ \<Rightarrow> k\<lparr>unresolved := unresolved k - 1\<rparr>)"

definition effectiveDisposition ::
    "Checkpoint \<Rightarrow> Definition \<Rightarrow> definitionEdge \<Rightarrow> EdgeDisposition \<Rightarrow> EdgeDisposition" where
  "effectiveDisposition c d e disp =
     (if disp = EdgeArrived \<and> n_joinAny (node_at d (e_toIndex e)) \<and> joinAlreadyWon c d (e_toIndex e)
      then EdgeArrivedLate else disp)"

definition settleEdge ::
    "Definition \<Rightarrow> nat \<Rightarrow> EdgeDisposition \<Rightarrow> settling \<Rightarrow> settling result" where
  "settleEdge d ei disp s =
     (if \<not> ei < length (d_edges d) then Inl GoPanic else
      let e = edge_at d ei; c = s_next s in
      if edgeState c e \<noteq> EdgeUnresolved then Inl ErrInvalidTransition
      else if disp = EdgeNotTaken \<and> deferredExit c d ei then Inr s
      else
        let disp' = effectiveDisposition c d e disp;
            t = e_toIndex e;
            touched = (case fmlookup (s_touched s) t of
                         None \<Rightarrow> s_touched s
                       | Some k \<Rightarrow> fmupd t (touch disp' k) (s_touched s))
        in Inr \<lparr>s_next = setEdge (e_from e) (e_outcome e) disp' c,
                s_touched = touched, s_queue = s_queue s @ [t]\<rparr>)"

definition closeExit :: "Definition \<Rightarrow> nat \<Rightarrow> settling \<Rightarrow> settling result" where
  "closeExit d ei s =
     (if \<not> ei < length (d_edges d) then Inl GoPanic
      else if edgeState (s_next s) (edge_at d ei) \<noteq> EdgeUnresolved then Inr s
      else settleEdge d ei EdgeNotTaken s)"

definition closeLoopExits :: "Definition \<Rightarrow> nat \<Rightarrow> settling \<Rightarrow> settling result" where
  "closeLoopExits d i =
     foldR (\<lambda>li. foldR (closeExit d) (l_exits (loop_at d li))) (n_sourceOf (node_at d i))"

definition settleOutgoing ::
    "Definition \<Rightarrow> outgoingArrivals \<Rightarrow> nat list \<Rightarrow> settling \<Rightarrow> settling result" where
  "settleOutgoing d arr =
     foldR (\<lambda>ei. settleEdge d ei (disposition arr (e_outcome (edge_at d ei))))"

definition closeOutgoing :: "Definition \<Rightarrow> nat list \<Rightarrow> settling \<Rightarrow> settling result" where
  "closeOutgoing d = foldR (\<lambda>ei. settleEdge d ei EdgeNotTaken)"

text \<open>Skipping a subprocess writes its body's nodes and edges; a nil edge map would panic.\<close>

definition closeBodyEdge :: "Definition \<Rightarrow> nat \<Rightarrow> Checkpoint \<Rightarrow> Checkpoint result" where
  "closeBodyEdge d ei c =
     (let e = edge_at d ei in
      if fmlookup (Edges c) (e_from e) = None then Inl GoPanic
      else Inr (setEdge (e_from e) (e_outcome e) EdgeNotTaken c))"

definition skipBodyNode :: "Definition \<Rightarrow> nat \<Rightarrow> Checkpoint \<Rightarrow> Checkpoint result" where
  "skipBodyNode d i c =
     foldR (closeBodyEdge d) (n_outgoing (node_at d i)) (setNode (n_id (node_at d i)) NodeSkipped c)"

definition bodyRange :: "Definition \<Rightarrow> nat \<Rightarrow> nat list" where
  "bodyRange d i = (case n_scopeEnd (node_at d i) of None \<Rightarrow> [] | Some e \<Rightarrow> [Suc i ..< e])"

definition skipSubprocessBody :: "Definition \<Rightarrow> nat \<Rightarrow> Checkpoint \<Rightarrow> Checkpoint result" where
  "skipSubprocessBody d i = foldR (skipBodyNode d) (bodyRange d i)"

definition skipChildren :: "Definition \<Rightarrow> nat list \<Rightarrow> Checkpoint \<Rightarrow> Checkpoint" where
  "skipChildren d is = fold (\<lambda>i. setNode (n_id (node_at d i)) NodeSkipped) is"

text \<open>Activation of a target: ready, and parked on a person when it is a human decision.\<close>

definition activate :: "definitionNode \<Rightarrow> Checkpoint \<Rightarrow> Checkpoint" where
  "activate target c =
     (let c' = setNode (n_id target) NodeReady c
      in if awaitsHuman target then addObligation (n_id target) c' else c')"

definition skipTarget :: "Definition \<Rightarrow> nat \<Rightarrow> settling \<Rightarrow> settling result" where
  "skipTarget d t s =
     (let target = node_at d t;
          c1 = skipChildren d (n_children target) (setNode (n_id target) NodeSkipped (s_next s))
      in bindR (if n_kind target = definitionSubprocess then skipSubprocessBody d t c1 else Inr c1)
           (\<lambda>c2. bindR (closeOutgoing d (n_outgoing target) (s\<lparr>s_next := c2\<rparr>))
             (closeLoopExits d t)))"

text \<open>One iteration of the queue loop, for the target at the head of a non-empty queue.\<close>

definition settleTarget :: "Definition \<Rightarrow> nat \<Rightarrow> settling \<Rightarrow> settling result" where
  "settleTarget d t s =
     (let target = node_at d t; c = s_next s in
      if nodeStatus c (n_id target) \<noteq> NodePending then Inr s
      else
        let k = (case fmlookup (s_touched s) t of
                   Some k \<Rightarrow> k | None \<Rightarrow> countDispositions c d (n_incoming target));
            s' = s\<lparr>s_touched := fmupd t k (s_touched s)\<rparr>
        in if n_joinAny target \<and> arrived k > 0 then Inr (s'\<lparr>s_next := activate target c\<rparr>)
           else if unresolved k > 0 then Inr s'
           else if arrived k = 0 then skipTarget d t s'
           else if n_joinAll target \<or> arrived k = 1 then Inr (s'\<lparr>s_next := activate target c\<rparr>)
           else Inl ErrInvalidTransition)"

definition settleStep :: "Definition \<Rightarrow> settling \<Rightarrow> settling result" where
  "settleStep d s =
     (case s_queue s of
        [] \<Rightarrow> Inr s
      | t # q \<Rightarrow> settleTarget d t (s\<lparr>s_queue := q\<rparr>))"

section \<open>Termination\<close>

definition unresolvedEdges :: "Definition \<Rightarrow> Checkpoint \<Rightarrow> nat" where
  "unresolvedEdges d c = length (filter (\<lambda>e. edgeState c e = EdgeUnresolved) (d_edges d))"

definition settleMeasure :: "Definition \<Rightarrow> settling \<Rightarrow> nat" where
  "settleMeasure d s = 2 * unresolvedEdges d (s_next s) + length (s_queue s)"

lemma effectiveDisposition_resolved:
  "disp \<noteq> EdgeUnresolved \<Longrightarrow> effectiveDisposition c d e disp \<noteq> EdgeUnresolved"
  by (simp add: effectiveDisposition_def)

lemma edgeState_setEdge:
  "edgeState (setEdge f oc x c) e = (if e_from e = f \<and> e_outcome e = oc then x else edgeState c e)"
  by (simp add: edgeState_def)

lemma unresolvedEdges_mono:
  assumes "\<And>e. e \<in> set (d_edges d) \<Longrightarrow> edgeState c' e = EdgeUnresolved \<Longrightarrow> edgeState c e = EdgeUnresolved"
  shows "unresolvedEdges d c' \<le> unresolvedEdges d c"
proof -
  have "length (filter (\<lambda>e. P e) xs) \<le> length (filter (\<lambda>e. Q e) xs)"
    if "\<And>x. x \<in> set xs \<Longrightarrow> P x \<Longrightarrow> Q x" for P Q and xs :: "definitionEdge list"
    using that by (induction xs) (auto intro: le_SucI)
  then show ?thesis using assms by (simp add: unresolvedEdges_def)
qed

lemma unresolvedEdges_less:
  assumes "ei < length (d_edges d)" "edgeState c (edge_at d ei) = EdgeUnresolved"
    "x \<noteq> EdgeUnresolved"
  shows "unresolvedEdges d (setEdge (e_from (edge_at d ei)) (e_outcome (edge_at d ei)) x c)
       < unresolvedEdges d c"
proof -
  let ?e = "edge_at d ei"
  let ?P = "\<lambda>e. edgeState c e = EdgeUnresolved"
  let ?Q = "\<lambda>e. edgeState (setEdge (e_from ?e) (e_outcome ?e) x c) e = EdgeUnresolved"
  have "length (filter ?Q (d_edges d)) < length (filter ?P (d_edges d))"
  proof -
    have "filter ?Q (d_edges d) = filter ?Q (filter ?P (d_edges d))"
      using assms(3) by (auto simp: edgeState_setEdge intro!: filter_cong)
    moreover have "?e \<in> set (filter ?P (d_edges d))" using assms(1,2) by simp
    moreover have "\<not> ?Q ?e" using assms(3) by (simp add: edgeState_setEdge)
    ultimately show ?thesis
      by (metis (mono_tags, lifting) length_filter_less)
  qed
  then show ?thesis by (simp add: unresolvedEdges_def)
qed

lemma settleEdge_cases:
  assumes "settleEdge d ei disp s = Inr s'"
  obtains (deferred) "s' = s" "disp = EdgeNotTaken" "deferredExit (s_next s) d ei"
  | (settled) disp' where
      "ei < length (d_edges d)" "edgeState (s_next s) (edge_at d ei) = EdgeUnresolved"
      "\<not> (disp = EdgeNotTaken \<and> deferredExit (s_next s) d ei)"
      "disp' = effectiveDisposition (s_next s) d (edge_at d ei) disp"
      "s_next s' = setEdge (e_from (edge_at d ei)) (e_outcome (edge_at d ei)) disp' (s_next s)"
      "s_queue s' = s_queue s @ [e_toIndex (edge_at d ei)]"
  using assms by (auto simp: settleEdge_def Let_def split: if_splits)

lemma settleEdge_measure:
  assumes "settleEdge d ei disp s = Inr s'" "disp \<noteq> EdgeUnresolved"
  shows "settleMeasure d s' \<le> settleMeasure d s"
  using assms(1)
proof (cases rule: settleEdge_cases)
  case deferred
  then show ?thesis by simp
next
  case (settled disp')
  then have "unresolvedEdges d (s_next s') < unresolvedEdges d (s_next s)"
    using assms(2) by (simp add: unresolvedEdges_less effectiveDisposition_resolved)
  with settled(6) show ?thesis by (simp add: settleMeasure_def)
qed

lemma closeExit_measure:
  "closeExit d ei s = Inr s' \<Longrightarrow> settleMeasure d s' \<le> settleMeasure d s"
  by (auto simp: closeExit_def dest: settleEdge_measure split: if_splits)

lemma closeLoopExits_measure:
  assumes "closeLoopExits d i s = Inr s'"
  shows "settleMeasure d s' \<le> settleMeasure d s"
proof (rule foldR_invariant [where P = "\<lambda>x. settleMeasure d x \<le> settleMeasure d s",
      OF assms [unfolded closeLoopExits_def]])
  fix li x y
  assume x: "settleMeasure d x \<le> settleMeasure d s"
    and "foldR (closeExit d) (l_exits (loop_at d li)) x = Inr y"
  then show "settleMeasure d y \<le> settleMeasure d s"
    by (rule_tac foldR_invariant [where P = "\<lambda>x. settleMeasure d x \<le> settleMeasure d s"])
      (auto dest: closeExit_measure)
qed simp

lemma closeOutgoing_measure:
  assumes "closeOutgoing d eis s = Inr s'"
  shows "settleMeasure d s' \<le> settleMeasure d s"
  by (rule foldR_invariant [where P = "\<lambda>x. settleMeasure d x \<le> settleMeasure d s",
        OF assms [unfolded closeOutgoing_def]]) (auto dest: settleEdge_measure)

lemma skipChildren_frame:
  "edgeState (skipChildren d is c) e = edgeState c e"
  "Edges (skipChildren d is c) = Edges c"
  by (induction "is" arbitrary: c) (simp_all add: skipChildren_def edgeState_def)

lemma closeBodyEdge_unresolved:
  "closeBodyEdge d ei c = Inr c' \<Longrightarrow> edgeState c' e = EdgeUnresolved \<Longrightarrow> edgeState c e = EdgeUnresolved"
  by (auto simp: closeBodyEdge_def Let_def edgeState_setEdge split: if_splits)

lemma skipBodyNode_unresolved:
  assumes "skipBodyNode d i c = Inr c'"
  shows "edgeState c' e = EdgeUnresolved \<longrightarrow> edgeState c e = EdgeUnresolved"
  by (rule foldR_invariant [where P = "\<lambda>x. edgeState x e = EdgeUnresolved \<longrightarrow> edgeState c e = EdgeUnresolved",
        OF assms [unfolded skipBodyNode_def]])
    (auto simp: edgeState_def [of "setNode _ _ _"] edgeState_def [of c] dest: closeBodyEdge_unresolved)

lemma skipSubprocessBody_unresolved:
  assumes "skipSubprocessBody d i c = Inr c'"
  shows "edgeState c' e = EdgeUnresolved \<longrightarrow> edgeState c e = EdgeUnresolved"
  by (rule foldR_invariant [where P = "\<lambda>x. edgeState x e = EdgeUnresolved \<longrightarrow> edgeState c e = EdgeUnresolved",
        OF assms [unfolded skipSubprocessBody_def]]) (auto dest: skipBodyNode_unresolved)

lemma edgeState_setNode [simp]: "edgeState (setNode k x c) e = edgeState c e"
  by (simp add: edgeState_def)

lemma skipTarget_measure:
  assumes "skipTarget d t s = Inr s'"
  shows "settleMeasure d s' \<le> settleMeasure d s"
proof -
  let ?target = "node_at d t"
  let ?c1 = "skipChildren d (n_children ?target) (setNode (n_id ?target) NodeSkipped (s_next s))"
  from assms obtain c2 s2 where
      c2: "(if n_kind ?target = definitionSubprocess then skipSubprocessBody d t ?c1 else Inr ?c1) = Inr c2"
    and s2: "closeOutgoing d (n_outgoing ?target) (s\<lparr>s_next := c2\<rparr>) = Inr s2"
    and s': "closeLoopExits d t s2 = Inr s'"
    by (auto simp: skipTarget_def Let_def bindR_Inr_iff)
  have "unresolvedEdges d c2 \<le> unresolvedEdges d (s_next s)"
    using c2 by (intro unresolvedEdges_mono)
      (auto simp: skipChildren_frame dest: skipSubprocessBody_unresolved split: if_splits)
  then have "settleMeasure d (s\<lparr>s_next := c2\<rparr>) \<le> settleMeasure d s"
    by (simp add: settleMeasure_def)
  with closeOutgoing_measure [OF s2] closeLoopExits_measure [OF s'] show ?thesis by simp
qed

lemma edgeState_activate [simp]: "edgeState (activate n c) e = edgeState c e"
  by (simp add: activate_def Let_def edgeState_def addObligation_def edgeDisp_def setNode_def)

lemma unresolvedEdges_activate [simp]: "unresolvedEdges d (activate n c) = unresolvedEdges d c"
  by (simp add: unresolvedEdges_def)

lemma settleTarget_measure:
  "settleTarget d t s = Inr s' \<Longrightarrow> settleMeasure d s' \<le> settleMeasure d s"
  by (auto simp: settleTarget_def Let_def settleMeasure_def [of d "settling.s_next_update _ _"]
      dest!: skipTarget_measure split: if_splits)
    (auto simp: settleMeasure_def)

lemma settleStep_measure:
  "s_queue s = t # q \<Longrightarrow> settleStep d s = Inr s' \<Longrightarrow> settleMeasure d s' < settleMeasure d s"
  by (auto simp: settleStep_def settleMeasure_def dest!: settleTarget_measure)

function settleLoop :: "Definition \<Rightarrow> settling \<Rightarrow> Checkpoint result" where
  "settleLoop d s =
     (case s_queue s of
        [] \<Rightarrow> Inr (s_next s)
      | t # q \<Rightarrow>
          (case settleStep d s of
             Inl e \<Rightarrow> Inl e
           | Inr s' \<Rightarrow> settleLoop d s'))"
  by pat_completeness auto
termination
  by (relation "measure (\<lambda>(d, s). settleMeasure d s)") (auto dest: settleStep_measure)

declare settleLoop.simps [simp del]

definition completeAndSettle ::
    "Definition \<Rightarrow> nat \<Rightarrow> outgoingArrivals \<Rightarrow> Checkpoint \<Rightarrow> Checkpoint result" where
  "completeAndSettle d i arr c =
     (let node = node_at d i in
      if nodeStatus c (n_id node) \<notin> {NodeReady, NodeRunning, NodeBlocked}
      then Inl ErrInvalidTransition
      else
        let s0 = \<lparr>s_next = setNode (n_id node) NodeDone c, s_touched = fmempty, s_queue = []\<rparr>
        in bindR (settleOutgoing d arr (n_outgoing node) s0)
             (\<lambda>s1. bindR (closeLoopExits d i s1) (settleLoop d)))"

section \<open>The invariant rule of the pass\<close>

text \<open>A property kept by one iteration of the loop holds of its result.\<close>

lemma settleLoop_invariant:
  assumes "settleLoop d s = Inr c'" and "P s"
    and "\<And>s t q s'. P s \<Longrightarrow> s_queue s = t # q \<Longrightarrow> settleTarget d t (s\<lparr>s_queue := q\<rparr>) = Inr s' \<Longrightarrow> P s'"
  shows "\<exists>s'. P s' \<and> s_queue s' = [] \<and> s_next s' = c'"
  using assms(1,2)
proof (induction "settleMeasure d s" arbitrary: s rule: less_induct)
  case (less s)
  show ?case
  proof (cases "s_queue s")
    case Nil
    with less.prems show ?thesis by (auto simp: settleLoop.simps [of d s])
  next
    case (Cons t q)
    with less.prems(1) obtain s' where s': "settleStep d s = Inr s'" "settleLoop d s' = Inr c'"
      by (auto simp: settleLoop.simps [of d s] split: sum.splits)
    then have "P s'" using assms(3) [OF less.prems(2) Cons] Cons by (simp add: settleStep_def)
    with less.hyps [OF settleStep_measure [OF Cons s'(1)] s'(2)] show ?thesis by blast
  qed
qed

end
