(* ===== verification/Stages.thy ===== *)
theory Stages
  imports Settlement
begin

text \<open>
  The local stage sequence of a compound task (\<open>engine/engine.go\<close>, \<open>advanceStage\<close>;
  \<open>engine/stages.go\<close>, the two resets, the gate retry and the evidence derivation
  \<open>StageReset\<close>).  Every operation moves nodes of one parent's ordered child list and settles no
  edge.
\<close>

definition advanceStage :: "Definition \<Rightarrow> nat \<Rightarrow> Checkpoint \<Rightarrow> Checkpoint result" where
  "advanceStage d i c =
     (let child = node_at d i in
      case n_parent child of
        None \<Rightarrow> Inl GoPanic
      | Some p \<Rightarrow>
          let parent = node_at d p in
          if nodeStatus c (n_id parent) \<noteq> NodeRunning then Inl ErrInvalidTransition
          else (case index_of i (n_children parent) of
             None \<Rightarrow> Inl ErrInvalidTransition
           | Some position \<Rightarrow>
               if position + 1 \<ge> length (n_children parent) then Inl ErrInvalidTransition
               else
                 let successor = node_at d (n_children parent ! (position + 1)) in
                 if nodeStatus c (n_id successor) \<noteq> NodePending then Inl ErrInvalidTransition
                 else Inr (activate successor (setNode (n_id child) NodeDone c))))"

definition setNodes :: "Definition \<Rightarrow> NodeStatus \<Rightarrow> nat list \<Rightarrow> Checkpoint \<Rightarrow> Checkpoint" where
  "setNodes d x is c = fold (\<lambda>i. setNode (n_id (node_at d i)) x) is c"

definition resetCompoundStages :: "Definition \<Rightarrow> nat \<Rightarrow> Checkpoint \<Rightarrow> Checkpoint result" where
  "resetCompoundStages d g c =
     (let gate = node_at d g in
      case n_parent gate of
        None \<Rightarrow> Inl GoPanic
      | Some p \<Rightarrow>
          let parent = node_at d p in
          if nodeStatus c (n_id parent) \<noteq> NodeRunning then Inl ErrInvalidTransition
          else (case n_doAnchor parent of
             None \<Rightarrow> Inl GoPanic
           | Some w \<Rightarrow>
               let work = node_at d w in
               if nodeStatus c (n_id work) \<noteq> NodeDone then Inl ErrInvalidTransition
               else (case (index_of w (n_children parent), index_of g (n_children parent)) of
                  (Some fst_pos, Some lst_pos) \<Rightarrow>
                    if lst_pos \<le> fst_pos then Inl ErrInvalidTransition
                    else Inr (setNodes d NodePending
                                (take (lst_pos - fst_pos) (drop (fst_pos + 1) (n_children parent)))
                                (setNode (n_id work) NodeReady c))
                | _ \<Rightarrow> Inl ErrInvalidTransition)))"

definition resetPlanApproval :: "Definition \<Rightarrow> nat \<Rightarrow> Checkpoint \<Rightarrow> Checkpoint result" where
  "resetPlanApproval d g c =
     (let gate = node_at d g in
      case (approvalAnchor d gate, n_parent gate) of
        (Some plan, Some p) \<Rightarrow>
          let parent = node_at d p in
          if nodeStatus c (n_id parent) \<noteq> NodeRunning then Inl ErrInvalidTransition
          else if nodeStatus c (n_id plan) \<noteq> NodeDone then Inl ErrInvalidTransition
          else if nodeStatus c (n_id gate) \<noteq> NodeReady then Inl ErrInvalidTransition
          else if attempts c (n_id plan) \<ge> MaxInt then Inl ErrInvalidTransition
          else Inr (setNode (n_id gate) NodePending (setNode (n_id plan) NodeReady c))
      | _ \<Rightarrow> Inl ErrInvalidTransition)"

definition retryBlockedGate :: "Definition \<Rightarrow> nat \<Rightarrow> Checkpoint \<Rightarrow> Checkpoint result" where
  "retryBlockedGate d g c =
     (case gateAnchor d (node_at d g) of
        None \<Rightarrow> Inl ErrInvalidTransition
      | Some anchor \<Rightarrow> bindR (raiseAttemptCeiling anchor c) (resetCompoundStages d g))"

record StageReset =
  sr_ParentNodeID :: string
  sr_GateNodeID :: string
  sr_WorkNodeID :: string
  sr_NextWorkAttempt :: int

definition returnedToPending :: "Checkpoint \<Rightarrow> Checkpoint \<Rightarrow> string \<Rightarrow> bool" where
  "returnedToPending before after nodeID \<longleftrightarrow>
     nodeStatus after nodeID = NodePending \<and> nodeStatus before nodeID \<noteq> NodePending"

definition Definition_StageReset :: "Definition \<Rightarrow> string \<Rightarrow> Checkpoint \<Rightarrow> Checkpoint \<Rightarrow> StageReset option" where
  "Definition_StageReset d nodeID before after =
     (case fmlookup (d_index d) nodeID of
        None \<Rightarrow> None
      | Some g \<Rightarrow>
          let gate = node_at d g in
          case (verdictAnchor d gate, n_parent gate) of
            (Some work, Some p) \<Rightarrow>
              if \<not> returnedToPending before after (n_id gate) \<or>
                 nodeStatus before (n_id work) \<noteq> NodeDone then None
              else
                let parent = node_at d p in
                (case index_of g (n_children parent) of
                   None \<Rightarrow> None
                 | Some position \<Rightarrow>
                     if list_ex (\<lambda>i. returnedToPending before after (n_id (node_at d i)))
                          (drop (position + 1) (n_children parent))
                     then None
                     else Some \<lparr>sr_ParentNodeID = n_id parent, sr_GateNodeID = n_id gate,
                                sr_WorkNodeID = n_id work,
                                sr_NextWorkAttempt = saturatingNextAttempt before (n_id work)\<rparr>)
          | _ \<Rightarrow> None)"

lemma setNodes_frame [simp]:
  "edgeDisp (setNodes d x is c) f oc = edgeDisp c f oc"
  "attempts (setNodes d x is c) n = attempts c n"
  "iterations (setNodes d x is c) f oc = iterations c f oc"
  "Version (setNodes d x is c) = Version c" "RunID (setNodes d x is c) = RunID c"
  "Status (setNodes d x is c) = Status c" "Attempts (setNodes d x is c) = Attempts c"
  "Edges (setNodes d x is c) = Edges c" "AwaitingDecisions (setNodes d x is c) = AwaitingDecisions c"
  "Commands (setNodes d x is c) = Commands c" "Blocked (setNodes d x is c) = Blocked c"
  "AttemptCeilings (setNodes d x is c) = AttemptCeilings c"
  "Iterations (setNodes d x is c) = Iterations c"
  by (induction "is" arbitrary: c) (simp_all add: setNodes_def)

lemma nodeStatus_setNodes [simp]:
  "nodeStatus (setNodes d x is c) k =
     (if k \<in> (\<lambda>i. n_id (node_at d i)) ` set is then x else nodeStatus c k)"
  by (induction "is" arbitrary: c) (auto simp: setNodes_def)

lemma skipChildren_setNodes: "skipChildren d is c = setNodes d NodeSkipped is c"
  by (simp add: skipChildren_def setNodes_def)

end
