(* ===== verification/Task_Commands.thy ===== *)
theory Task_Commands
  imports Attempts
begin

text \<open>
  The deterministic request of one attempt of one task (\<open>engine/engine.go\<close>, \<open>taskCommand\<close>;
  \<open>engine/validate.go\<close>, \<open>commandsEqual\<close>) with the round of its innermost loop
  (\<open>engine/loops.go\<close>, \<open>RoundOf\<close>).  The main fact is that the command id determines the run,
  the node, the attempt and the kind.
\<close>

section \<open>Decimal numbers\<close>

definition digit_char :: "nat \<Rightarrow> char" where
  "digit_char n = char_of (48 + n)"

fun show_nat :: "nat \<Rightarrow> string" where
  "show_nat n = (if n < 10 then [digit_char n] else show_nat (n div 10) @ [digit_char (n mod 10)])"

declare show_nat.simps [simp del]

text \<open>The verb \<open>%d\<close> of Go's \<open>fmt\<close>.\<close>

definition show_int :: "int \<Rightarrow> string" where
  "show_int x = (if x < 0 then CHR ''-'' # show_nat (nat (- x)) else show_nat (nat x))"

section \<open>Rounds\<close>

record LoopRound =
  lr_Round :: int
  lr_Of :: int
  lr_From :: string
  lr_Outcome :: string

definition iterationsTaken :: "Checkpoint \<Rightarrow> Definition \<Rightarrow> definitionLoop \<Rightarrow> int" where
  "iterationsTaken c d l = iterations c (n_id (node_at d (l_from l))) (l_outcome l)"

definition RoundOf :: "Definition \<Rightarrow> Checkpoint \<Rightarrow> string \<Rightarrow> LoopRound option" where
  "RoundOf d c nodeID =
     (case definitionNodeByID d nodeID of
        None \<Rightarrow> None
      | Some node \<Rightarrow>
          (case n_loops node of
             [] \<Rightarrow> None
           | li # _ \<Rightarrow>
               (let l = loop_at d li
                in Some \<lparr>lr_Round = wrap64 (iterationsTaken c d l + 1), lr_Of = l_maxIterations l,
                         lr_From = n_id (node_at d (l_from l)), lr_Outcome = l_outcome l\<rparr>)))"

section \<open>The request\<close>

definition kind_string :: "CommandKind \<Rightarrow> string" where
  "kind_string k =
     (case k of CommandProgram \<Rightarrow> ''program'' | CommandAgent \<Rightarrow> ''agent'' | CommandOther s \<Rightarrow> s)"

definition command_id :: "string \<Rightarrow> string \<Rightarrow> int \<Rightarrow> CommandKind \<Rightarrow> string" where
  "command_id runID nodeID attempt kind =
     ''cmd_'' @ show_nat (length runID) @ ''_'' @ runID @ ''_'' @
     show_nat (length nodeID) @ ''_'' @ nodeID @ ''_'' @ show_int attempt @ ''_'' @ kind_string kind"

definition taskCommand :: "Checkpoint \<Rightarrow> Definition \<Rightarrow> definitionNode \<Rightarrow> int \<Rightarrow> Command" where
  "taskCommand c d node attempt =
     (let kind = commandKind node;
          rnd = RoundOf d c (n_id node)
      in \<lparr>cmd_ID = command_id (RunID c) (n_id node) attempt kind,
          cmd_Kind = kind,
          cmd_NodeID = n_id node,
          cmd_Attempt = attempt,
          cmd_Program = (if n_agent node \<noteq> None then emptyProgram else n_program node),
          cmd_Agent = n_agent node,
          cmd_Round = (case rnd of None \<Rightarrow> 0 | Some r \<Rightarrow> lr_Round r),
          cmd_Rounds = (case rnd of None \<Rightarrow> 0 | Some r \<Rightarrow> lr_Of r),
          cmd_LoopFrom = (case rnd of None \<Rightarrow> [] | Some r \<Rightarrow> lr_From r),
          cmd_LoopOutcome = (case rnd of None \<Rightarrow> [] | Some r \<Rightarrow> lr_Outcome r),
          cmd_Verdicts = (if n_kind node = definitionDecision then n_verdicts node else [])\<rparr>)"

definition commandsEqual :: "Command \<Rightarrow> Command \<Rightarrow> bool" where
  "commandsEqual left right \<longleftrightarrow>
     cmd_Agent left = cmd_Agent right \<and>
     cmd_ID left = cmd_ID right \<and> cmd_Kind left = cmd_Kind right \<and>
     cmd_NodeID left = cmd_NodeID right \<and> cmd_Attempt left = cmd_Attempt right \<and>
     cmd_Round left = cmd_Round right \<and> cmd_Rounds left = cmd_Rounds right \<and>
     cmd_LoopFrom left = cmd_LoopFrom right \<and> cmd_LoopOutcome left = cmd_LoopOutcome right \<and>
     cmd_Verdicts left = cmd_Verdicts right \<and>
     pc_Profile (cmd_Program left) = pc_Profile (cmd_Program right) \<and>
     pc_Run (cmd_Program left) = pc_Run (cmd_Program right) \<and>
     pc_Timeout (cmd_Program left) = pc_Timeout (cmd_Program right) \<and>
     pc_Args (cmd_Program left) = pc_Args (cmd_Program right)"

text \<open>The field-by-field comparison is equality of commands: no field is left out.\<close>

lemma commandsEqual_iff: "commandsEqual a b \<longleftrightarrow> a = b"
  by (auto simp: commandsEqual_def intro!: Command.equality ProgramCommand.equality)

lemma taskCommand_simps [simp]:
  "cmd_NodeID (taskCommand c d node a) = n_id node"
  "cmd_Kind (taskCommand c d node a) = commandKind node"
  "cmd_Attempt (taskCommand c d node a) = a"
  "cmd_ID (taskCommand c d node a) = command_id (RunID c) (n_id node) a (commandKind node)"
  by (simp_all add: taskCommand_def Let_def)

section \<open>The command id is injective\<close>

lemma digit_char_not_underscore: "n < 10 \<Longrightarrow> digit_char n \<noteq> CHR ''_''"
proof
  assume "n < 10" and "digit_char n = CHR ''_''"
  then have "of_char (digit_char n) = (of_char (CHR ''_'') :: nat)" by simp
  with \<open>n < 10\<close> show False by (simp add: digit_char_def)
qed

lemma digit_char_inj: "m < 10 \<Longrightarrow> n < 10 \<Longrightarrow> digit_char m = digit_char n \<Longrightarrow> m = n"
proof -
  assume "m < 10" "n < 10" "digit_char m = digit_char n"
  then have "of_char (digit_char m) = (of_char (digit_char n) :: nat)" by simp
  with \<open>m < 10\<close> \<open>n < 10\<close> show "m = n" by (simp add: digit_char_def)
qed

lemma show_nat_not_underscore: "CHR ''_'' \<notin> set (show_nat n)"
proof (induction n rule: show_nat.induct)
  case (1 n)
  then show ?case
    using digit_char_not_underscore [of n] digit_char_not_underscore [of "n mod 10"]
    by (subst show_nat.simps) auto
qed

lemma show_nat_nonempty: "show_nat n \<noteq> []"
  by (subst show_nat.simps) simp

lemma show_nat_inj: "show_nat m = show_nat n \<Longrightarrow> m = n"
proof (induction m arbitrary: n rule: show_nat.induct)
  case (1 m)
  show ?case
  proof (cases "m < 10")
    case True
    have "n < 10"
    proof (rule ccontr)
      assume "\<not> n < 10"
      then have "show_nat n = show_nat (n div 10) @ [digit_char (n mod 10)]"
        by (simp add: show_nat.simps [of n])
      moreover have "show_nat m = [digit_char m]" using True by (simp add: show_nat.simps [of m])
      ultimately show False using "1.prems" show_nat_nonempty [of "n div 10"] by simp
    qed
    with True "1.prems" show ?thesis
      by (auto simp: show_nat.simps [of m] show_nat.simps [of n] dest: digit_char_inj)
  next
    case False
    then have m: "show_nat m = show_nat (m div 10) @ [digit_char (m mod 10)]"
      by (simp add: show_nat.simps [of m])
    have n10: "\<not> n < 10"
    proof
      assume "n < 10"
      then have "show_nat n = [digit_char n]" by (simp add: show_nat.simps [of n])
      with m "1.prems" show_nat_nonempty [of "m div 10"] show False by simp
    qed
    then have "show_nat n = show_nat (n div 10) @ [digit_char (n mod 10)]"
      by (simp add: show_nat.simps [of n])
    with m "1.prems" have "show_nat (m div 10) = show_nat (n div 10)"
      and "digit_char (m mod 10) = digit_char (n mod 10)" by simp_all
    with "1.IH" False have "m div 10 = n div 10" and "m mod 10 = n mod 10"
      by (auto dest: digit_char_inj [rotated 2])
    then show ?thesis by (metis div_mult_mod_eq)
  qed
qed

text \<open>A field without underscores, terminated by one, can be read back.\<close>

lemma field_split:
  assumes "CHR ''_'' \<notin> set a" "CHR ''_'' \<notin> set b" "a @ CHR ''_'' # x = b @ CHR ''_'' # y"
  shows "a = b \<and> x = y"
proof -
  have "takeWhile (\<lambda>z. z \<noteq> CHR ''_'') (a @ CHR ''_'' # x) = a"
    using assms(1) by (auto simp: takeWhile_append)
  moreover have "takeWhile (\<lambda>z. z \<noteq> CHR ''_'') (b @ CHR ''_'' # y) = b"
    using assms(2) by (auto simp: takeWhile_append)
  ultimately have "a = b" using assms(3) by metis
  with assms(3) show ?thesis by simp
qed

text \<open>A field preceded by its length can be read back whatever its content.\<close>

lemma counted_field_split:
  assumes "show_nat (length a) @ ''_'' @ a @ ''_'' @ x = show_nat (length b) @ ''_'' @ b @ ''_'' @ y"
  shows "a = b \<and> x = y"
proof -
  have "show_nat (length a) = show_nat (length b) \<and> a @ ''_'' @ x = b @ ''_'' @ y"
    using assms by (intro field_split) (simp_all add: show_nat_not_underscore)
  then have "length a = length b" and "a @ ''_'' @ x = b @ ''_'' @ y"
    by (auto dest: show_nat_inj)
  then show ?thesis by simp
qed

lemma show_nat_head: "show_nat n \<noteq> CHR ''-'' # xs"
proof
  assume eq: "show_nat n = CHR ''-'' # xs"
  have "\<forall>c\<in>set (show_nat n). (48::nat) \<le> of_char c"
  proof (induction n rule: show_nat.induct)
    case (1 n)
    then show ?case by (subst show_nat.simps) (auto simp: digit_char_def)
  qed
  with eq show False by simp
qed

lemma show_int_inj: "show_int x = show_int y \<Longrightarrow> x = y"
  using show_nat_head by (auto simp: show_int_def dest!: show_nat_inj split: if_splits) (metis show_nat_head)+

lemma show_int_not_underscore: "CHR ''_'' \<notin> set (show_int x)"
  by (auto simp: show_int_def show_nat_not_underscore)

lemma command_id_inj:
  assumes "command_id r n a k = command_id r' n' a' k'"
  shows "r = r' \<and> n = n' \<and> a = a' \<and> kind_string k = kind_string k'"
proof -
  from assms have "show_nat (length r) @ ''_'' @ r @ ''_'' @ show_nat (length n) @ ''_'' @ n @
      ''_'' @ show_int a @ ''_'' @ kind_string k =
    show_nat (length r') @ ''_'' @ r' @ ''_'' @ show_nat (length n') @ ''_'' @ n' @
      ''_'' @ show_int a' @ ''_'' @ kind_string k'"
    by (simp add: command_id_def)
  then have r: "r = r'" and "show_nat (length n) @ ''_'' @ n @ ''_'' @ show_int a @ ''_'' @
      kind_string k = show_nat (length n') @ ''_'' @ n' @ ''_'' @ show_int a' @ ''_'' @ kind_string k'"
    by (blast dest: counted_field_split)+
  then have n: "n = n'" and "show_int a @ ''_'' @ kind_string k = show_int a' @ ''_'' @ kind_string k'"
    by (blast dest: counted_field_split)+
  then have "show_int a = show_int a' \<and> kind_string k = kind_string k'"
    by (intro field_split) (simp_all add: show_int_not_underscore)
  with r n show ?thesis by (auto dest: show_int_inj)
qed

end
