(* ===== verification/Loops.thy ===== *)
theory Loops
  imports Stages Task_Commands
begin

text \<open>
  Bounded loops (\<open>engine/loops.go\<close>): routing a decision's verdict, starting the next round of
  a loop, the fresh attempt windows of a new round, and the read surfaces over rounds.
\<close>

definition loopOf :: "Definition \<Rightarrow> definitionNode \<Rightarrow> string \<Rightarrow> nat option" where
  "loopOf d node oc = find (\<lambda>li. l_outcome (loop_at d li) = oc) (n_sourceOf node)"

definition loopHasRounds :: "Checkpoint \<Rightarrow> Definition \<Rightarrow> definitionLoop \<Rightarrow> bool" where
  "loopHasRounds c d l \<longleftrightarrow> wrap64 (iterationsTaken c d l + 1) < l_maxIterations l"

text \<open>The route a verdict settles, or the loop whose next round it starts.\<close>

datatype route = Settle string | Iterate nat

definition routeDecision :: "Checkpoint \<Rightarrow> Definition \<Rightarrow> definitionNode \<Rightarrow> string \<Rightarrow> route result" where
  "routeDecision c d node verdict =
     (case loopOf d node verdict of
        None \<Rightarrow> Inr (Settle verdict)
      | Some li \<Rightarrow>
          let l = loop_at d li in
          if loopHasRounds c d l then Inr (Iterate li)
          else if l_onExhausted l = [] then Inl ErrLoopExhausted
          else Inr (Settle (l_onExhausted l)))"

definition openLoopAttemptWindow ::
    "Definition \<Rightarrow> definitionNode \<Rightarrow> Checkpoint \<Rightarrow> Checkpoint result" where
  "openLoopAttemptWindow d node c =
     (let a = attempts c (n_id node);
          raised = wrap64 (a + n_maxAttempts node)
      in if a = 0 then Inr c
         else if gateAnchor d node \<noteq> None \<or> approvalGatedPlan d node then Inr c
         else if a > wrap64 (MaxInt - n_maxAttempts node) then Inl ErrInvalidTransition
         else if raised \<le> attemptCeiling c node then Inr c
         else Inr (c\<lparr>AttemptCeilings := fmupd (n_id node) raised (AttemptCeilings c)\<rparr>))"

text \<open>The first scan of \<open>iterateLoop\<close>: the decision is deciding, the rest of the body is over.\<close>

definition roundFinished :: "Definition \<Rightarrow> definitionLoop \<Rightarrow> Checkpoint \<Rightarrow> nat \<Rightarrow> bool" where
  "roundFinished d l c i \<longleftrightarrow>
     (let st = nodeStatus c (n_id (node_at d i)) in
      if i = l_from l then st = NodeReady \<or> st = NodeRunning
      else st = NodeDone \<or> st = NodeSkipped)"

definition bumpIteration :: "string \<Rightarrow> string \<Rightarrow> Checkpoint \<Rightarrow> Checkpoint" where
  "bumpIteration f oc c =
     c\<lparr>Iterations := mput2 f oc (wrap64 (iterations c f oc + 1)) (Iterations c)\<rparr>"

text \<open>Deleting one inner loop's counter, and its source's entry once that is empty.\<close>

definition clearIteration :: "Definition \<Rightarrow> nat \<Rightarrow> Checkpoint \<Rightarrow> Checkpoint" where
  "clearIteration d li c =
     (let l = loop_at d li;
          src = n_id (node_at d (l_from l));
          inner = fmdrop (l_outcome l) (mget fmempty (Iterations c) src)
      in c\<lparr>Iterations :=
            (if mlen inner = 0 then fmdrop src (Iterations c)
             else fmupd src inner (Iterations c))\<rparr>)"

definition reopenEdge :: "Definition \<Rightarrow> nat \<Rightarrow> Checkpoint \<Rightarrow> Checkpoint result" where
  "reopenEdge d ei c =
     (let e = edge_at d ei in
      if fmlookup (Edges c) (e_from e) = None then Inl GoPanic
      else Inr (setEdge (e_from e) (e_outcome e) EdgeUnresolved c))"

definition reopenWindow :: "Definition \<Rightarrow> definitionNode \<Rightarrow> Checkpoint \<Rightarrow> Checkpoint result" where
  "reopenWindow d node c =
     (if awaitsHuman node \<and> n_parent node = None then
        (if attempts c (n_id node) = MaxInt then Inl ErrInvalidTransition
         else Inr (recordAttempt (n_id node) (attempts c (n_id node) + 1) c))
      else if runsCommand node then openLoopAttemptWindow d node c
      else Inr c)"

definition reopenNode :: "Definition \<Rightarrow> nat \<Rightarrow> Checkpoint \<Rightarrow> Checkpoint result" where
  "reopenNode d i c =
     (let node = node_at d i in
      bindR (reopenWindow d node (setNode (n_id node) NodePending c))
        (foldR (reopenEdge d) (n_outgoing node)))"

definition iterateLoop :: "Definition \<Rightarrow> nat \<Rightarrow> Checkpoint \<Rightarrow> Checkpoint result" where
  "iterateLoop d li c =
     (let l = loop_at d li in
      if \<not> list_all (roundFinished d l c) (l_body l) then Inl ErrInvalidTransition
      else
        let c1 = bumpIteration (n_id (node_at d (l_from l))) (l_outcome l) c;
            c2 = fold (clearIteration d) (l_inner l) c1
        in bindR (foldR (reopenNode d) (l_body l) c2)
             (\<lambda>c3. Inr (activate (node_at d (l_to l)) c3)))"

definition verdictAllowed :: "definitionNode \<Rightarrow> string \<Rightarrow> bool" where
  "verdictAllowed node verdict \<longleftrightarrow> verdict \<in> set (n_verdicts node)"

definition settleVerdict :: "Definition \<Rightarrow> nat \<Rightarrow> string \<Rightarrow> Checkpoint \<Rightarrow> Checkpoint result" where
  "settleVerdict d i verdict c =
     (let node = node_at d i in
      if \<not> verdictAllowed node verdict then Inl ErrInvalidDecisionVerdict
      else bindR (routeDecision c d node verdict)
        (\<lambda>r. case r of
           Iterate li \<Rightarrow> iterateLoop d li c
         | Settle oc \<Rightarrow> completeAndSettle d i (arrivesAt oc) c))"

section \<open>Read surfaces\<close>

record LoopEdge =
  le_From :: string
  le_Outcome :: string
  le_To :: string
  le_MaxIterations :: int
  le_OnExhausted :: string
  le_Round :: int

definition loopEdge :: "Definition \<Rightarrow> Checkpoint \<Rightarrow> definitionLoop \<Rightarrow> LoopEdge" where
  "loopEdge d c l =
     \<lparr>le_From = n_id (node_at d (l_from l)), le_Outcome = l_outcome l,
      le_To = n_id (node_at d (l_to l)), le_MaxIterations = l_maxIterations l,
      le_OnExhausted = l_onExhausted l, le_Round = wrap64 (iterationsTaken c d l + 1)\<rparr>"

definition LoopEdges :: "Definition \<Rightarrow> Checkpoint \<Rightarrow> LoopEdge list" where
  "LoopEdges d c = map (loopEdge d c) (d_loops d)"

record LoopStep =
  ls_Loop :: LoopEdge
  ls_Iterated :: bool
  ls_Exhausted :: bool

definition LoopStepOf ::
    "Definition \<Rightarrow> string \<Rightarrow> string \<Rightarrow> Checkpoint \<Rightarrow> Checkpoint \<Rightarrow> LoopStep option" where
  "LoopStepOf d nodeID verdict before after =
     (case definitionNodeByID d nodeID of
        None \<Rightarrow> None
      | Some node \<Rightarrow>
          (case loopOf d node verdict of
             None \<Rightarrow> None
           | Some li \<Rightarrow>
               let l = loop_at d li;
                   edge = \<lparr>le_From = nodeID, le_Outcome = verdict, le_To = n_id (node_at d (l_to l)),
                           le_MaxIterations = l_maxIterations l, le_OnExhausted = l_onExhausted l,
                           le_Round = wrap64 (iterationsTaken after d l + 1)\<rparr>
               in if iterationsTaken after d l > iterationsTaken before d l
                  then Some \<lparr>ls_Loop = edge, ls_Iterated = True, ls_Exhausted = False\<rparr>
                  else Some \<lparr>ls_Loop = edge\<lparr>le_Round := wrap64 (iterationsTaken before d l + 1)\<rparr>,
                             ls_Iterated = False, ls_Exhausted = True\<rparr>))"

end
