(* ===== verification/Reducer.thy ===== *)
theory Reducer
  imports Loops
begin

text \<open>
  The reducer and its driver (\<open>engine/engine.go\<close>): \<open>apply\<close>, one definition per transition
  kind, \<open>AdvanceUntilQuiescent\<close>, \<open>AdvanceAndPlan\<close> and \<open>Runnable\<close>.  The clones the source makes
  of its input are the identity here: a HOL value cannot be mutated.
\<close>

section \<open>Doom\<close>

definition doomed :: "Checkpoint \<Rightarrow> bool" where
  "doomed c \<longleftrightarrow> mexists (\<lambda>s. s = NodeFailed \<or> s = NodeCanceled) (Nodes c)"

definition Draining :: "Checkpoint \<Rightarrow> bool" where
  "Draining c = doomed c"

definition doomStatus :: "Checkpoint \<Rightarrow> RunStatus" where
  "doomStatus c = (if mexists (\<lambda>s. s = NodeCanceled) (Nodes c) then RunCanceled else RunFailed)"

text \<open>A parked branch of a doomed run loses its parked status.\<close>

definition failParked :: "BlockedObligation \<Rightarrow> Checkpoint \<Rightarrow> Checkpoint" where
  "failParked ob c =
     (if nodeStatus c (bo_NodeID ob) = NodeBlocked then setNode (bo_NodeID ob) NodeFailed c else c)"

definition abandonAfterDoom :: "Checkpoint \<Rightarrow> Checkpoint" where
  "abandonAfterDoom c =
     (if \<not> doomed c then c
      else
        let c1 = fold failParked (Blocked c) (c\<lparr>AwaitingDecisions := []\<rparr>);
            c2 = c1\<lparr>Blocked := []\<rparr>
        in if Commands c2 = [] then c2\<lparr>Status := doomStatus c2\<rparr> else c2)"

section \<open>Remaining work\<close>

text \<open>The source also returns what kind of work remains, for its error text only.\<close>

definition remainingWork :: "Checkpoint \<Rightarrow> Definition \<Rightarrow> string \<Rightarrow> string option" where
  "remainingWork c d endNodeID =
     (case Commands c of
        x # _ \<Rightarrow> Some (cmd_NodeID x)
      | [] \<Rightarrow> (case AwaitingDecisions c of
          x # _ \<Rightarrow> Some (do_NodeID x)
        | [] \<Rightarrow> (case Blocked c of
            x # _ \<Rightarrow> Some (bo_NodeID x)
          | [] \<Rightarrow> map_option n_id
              (find (\<lambda>other. n_id other \<noteq> endNodeID \<and>
                     (nodeStatus c (n_id other) = NodeReady \<or> nodeStatus c (n_id other) = NodeRunning))
                (d_nodes d)))))"

definition requireNoWorkRemains :: "Checkpoint \<Rightarrow> Definition \<Rightarrow> string \<Rightarrow> unit result" where
  "requireNoWorkRemains c d endNodeID =
     (case remainingWork c d endNodeID of None \<Rightarrow> Inr () | Some _ \<Rightarrow> Inl ErrInvalidTransition)"

definition scopedWorkRemains :: "Checkpoint \<Rightarrow> Definition \<Rightarrow> nat \<Rightarrow> string option" where
  "scopedWorkRemains c d exitIndex =
     (case n_scope (node_at d exitIndex) of
        None \<Rightarrow> None
      | Some owner \<Rightarrow>
          map_option (\<lambda>i. n_id (node_at d i))
            (find (\<lambda>i. i \<noteq> exitIndex \<and>
                   nodeStatus c (n_id (node_at d i)) \<in> {NodeReady, NodeRunning, NodeBlocked})
              (bodyRange d owner)))"

section \<open>Advance\<close>

definition advanceCompound :: "Definition \<Rightarrow> nat \<Rightarrow> Checkpoint \<Rightarrow> Checkpoint result" where
  "advanceCompound d i c =
     (let node = node_at d i in
      case n_children node of
        [] \<Rightarrow> Inl ErrInvalidTransition
      | first # _ \<Rightarrow>
          if nodeStatus c (n_id (node_at d first)) \<noteq> NodePending then Inl ErrInvalidTransition
          else Inr (setNode (n_id (node_at d first)) NodeReady (setNode (n_id node) NodeRunning c)))"

definition advanceStageDone :: "Definition \<Rightarrow> nat \<Rightarrow> Checkpoint \<Rightarrow> Checkpoint result" where
  "advanceStageDone d i c =
     (case n_parent (node_at d i) of
        None \<Rightarrow> Inl GoPanic
      | Some p \<Rightarrow>
          if nodeStatus c (n_id (node_at d p)) \<noteq> NodeRunning then Inl ErrInvalidTransition
          else completeAndSettle d p (arrivesAt (soleOutcome d (node_at d p)))
                 (setNode (n_id (node_at d i)) NodeDone c))"

definition advanceSubprocess :: "Definition \<Rightarrow> nat \<Rightarrow> Checkpoint \<Rightarrow> Checkpoint result" where
  "advanceSubprocess d i c =
     (let node = node_at d i in
      case n_entry node of
        None \<Rightarrow> Inl GoPanic
      | Some en \<Rightarrow>
          if nodeStatus c (n_id (node_at d en)) \<noteq> NodePending then Inl ErrInvalidTransition
          else Inr (activate (node_at d en) (setNode (n_id node) NodeRunning c)))"

definition advanceSubprocessExit :: "Definition \<Rightarrow> nat \<Rightarrow> Checkpoint \<Rightarrow> Checkpoint result" where
  "advanceSubprocessExit d i c =
     (let node = node_at d i in
      case n_scope node of
        None \<Rightarrow> Inl GoPanic
      | Some owner \<Rightarrow>
          if nodeStatus c (n_id (node_at d owner)) \<noteq> NodeRunning then Inl ErrInvalidTransition
          else if scopedWorkRemains c d i \<noteq> None then Inl ErrInvalidTransition
          else completeAndSettle d owner (arrivesAt (n_exitOutcome node))
                 (setNode (n_id node) NodeDone c))"

definition advanceEnd :: "Definition \<Rightarrow> nat \<Rightarrow> Checkpoint \<Rightarrow> Checkpoint result" where
  "advanceEnd d i c =
     (let node = node_at d i in
      bindR (requireNoWorkRemains c d (n_id node))
        (\<lambda>_. Inr ((setNode (n_id node) NodeDone c)\<lparr>Status := n_terminal node\<rparr>)))"

definition advanceNode :: "Definition \<Rightarrow> nat \<Rightarrow> Checkpoint \<Rightarrow> Checkpoint result" where
  "advanceNode d i c =
     (case n_kind (node_at d i) of
        definitionStart \<Rightarrow> completeAndSettle d i (arrivesAt (soleOutcome d (node_at d i))) c
      | definitionParallel \<Rightarrow> completeAndSettle d i arrivesAtEveryBranch c
      | definitionCompound \<Rightarrow> advanceCompound d i c
      | definitionStageDone \<Rightarrow> advanceStageDone d i c
      | definitionSubprocess \<Rightarrow> advanceSubprocess d i c
      | definitionSubprocessExit \<Rightarrow> advanceSubprocessExit d i c
      | definitionEnd \<Rightarrow> advanceEnd d i c
      | definitionTask \<Rightarrow> Inl ErrInvalidTransition
      | definitionDecision \<Rightarrow> Inl ErrInvalidTransition)"

definition apply_advance :: "Definition \<Rightarrow> Transition \<Rightarrow> Checkpoint \<Rightarrow> Checkpoint result" where
  "apply_advance d t c =
     (if tr_Command t \<noteq> None \<or> tr_Observation t \<noteq> None \<or> tr_Decision t \<noteq> None \<or> tr_Resolution t \<noteq> None
      then Inl ErrInvalidTransition
      else (case fmlookup (d_index d) (tr_NodeID t) of
         None \<Rightarrow> Inl ErrInvalidTransition
       | Some i \<Rightarrow>
           if nodeStatus c (n_id (node_at d i)) \<noteq> NodeReady then Inl ErrInvalidTransition
           else advanceNode d i c))"

section \<open>Planning\<close>

definition planNode :: "Definition \<Rightarrow> nat \<Rightarrow> Command \<Rightarrow> Checkpoint \<Rightarrow> Checkpoint result" where
  "planNode d i command c =
     (let node = node_at d i;
          attempt = nextAttempt c (n_id node);
          expected = taskCommand c d node attempt
      in if nodeStatus c (n_id node) \<noteq> NodeReady then Inl ErrInvalidTransition
         else if attempt < 1 then Inl ErrInvalidTransition
         else if attempt > executableAttemptCeiling c d node then Inl ErrInvalidTransition
         else if \<not> commandsEqual command expected then Inl ErrInvalidTransition
         else Inr (putCommand expected
                    (recordAttempt (n_id node) attempt (setNode (n_id node) NodeRunning c))))"

definition apply_commandPlanned :: "Definition \<Rightarrow> Transition \<Rightarrow> Checkpoint \<Rightarrow> Checkpoint result" where
  "apply_commandPlanned d t c =
     (case tr_Command t of
        None \<Rightarrow> Inl ErrInvalidTransition
      | Some command \<Rightarrow>
          if tr_Observation t \<noteq> None \<or> tr_Decision t \<noteq> None \<or> tr_Resolution t \<noteq> None
          then Inl ErrInvalidTransition
          else (case fmlookup (d_index d) (cmd_NodeID command) of
             None \<Rightarrow> Inl ErrInvalidTransition
           | Some i \<Rightarrow>
               if \<not> runsCommand (node_at d i) then Inl ErrInvalidTransition
               else planNode d i command c))"

section \<open>Observation\<close>

definition observeSuccess ::
    "Definition \<Rightarrow> nat \<Rightarrow> ProgramObservation \<Rightarrow> Checkpoint \<Rightarrow> Checkpoint result" where
  "observeSuccess d i ob c =
     (let node = node_at d i; c1 = removeCommand (obs_NodeID ob) c in
      if obs_ExitCode ob \<noteq> 0 then Inl ErrInvalidTransition
      else if obs_Error ob \<noteq> [] then Inl ErrInvalidTransition
      else bindR
        (if n_kind node = definitionDecision then settleVerdict d i (obs_Verdict ob) c1
         else if n_parent node \<noteq> None then advanceStage d i c1
         else completeAndSettle d i (arrivesAt (soleOutcome d node)) c1)
        (\<lambda>c2. Inr (abandonAfterDoom c2)))"

text \<open>The node whose attempt budget a failure spends.\<close>

definition budgetNode :: "Definition \<Rightarrow> definitionNode \<Rightarrow> definitionNode" where
  "budgetNode d node = (case gateAnchor d node of Some anchor \<Rightarrow> anchor | None \<Rightarrow> node)"

definition observeFailure ::
    "Definition \<Rightarrow> nat \<Rightarrow> ProgramObservation \<Rightarrow> Checkpoint \<Rightarrow> Checkpoint result" where
  "observeFailure d i ob c =
     (let node = node_at d i;
          c1 = removeCommand (obs_NodeID ob) c;
          budget = budgetNode d node
      in if \<not> doomed c1 \<and> attempts c1 (n_id budget) < attemptCeiling c1 budget then
           (if gateAnchor d node \<noteq> None then resetCompoundStages d i c1
            else Inr (setNode (n_id node) NodeReady c1))
         else if \<not> doomed c1 \<and> n_retryAuthored budget then
           Inr (addBlocked (n_id node) (obs_Error ob) (setNode (n_id node) NodeBlocked c1))
         else Inr (abandonAfterDoom (setNode (n_id node) NodeFailed c1)))"

definition observeNode ::
    "Definition \<Rightarrow> nat \<Rightarrow> ProgramObservation \<Rightarrow> Checkpoint \<Rightarrow> Checkpoint result" where
  "observeNode d i ob c =
     (if obs_Verdict ob \<noteq> [] \<and>
         (n_kind (node_at d i) \<noteq> definitionDecision \<or> obs_Outcome ob \<noteq> ProgramSucceeded)
      then Inl ErrInvalidTransition
      else (case obs_Outcome ob of
         ProgramSucceeded \<Rightarrow> observeSuccess d i ob c
       | ProgramFailed \<Rightarrow> observeFailure d i ob c
       | OutcomeOther _ \<Rightarrow> Inl ErrInvalidTransition))"

definition apply_programObserved :: "Definition \<Rightarrow> Transition \<Rightarrow> Checkpoint \<Rightarrow> Checkpoint result" where
  "apply_programObserved d t c =
     (case tr_Observation t of
        None \<Rightarrow> Inl ErrInvalidTransition
      | Some ob \<Rightarrow>
          if tr_Command t \<noteq> None \<or> tr_Decision t \<noteq> None \<or> tr_Resolution t \<noteq> None
          then Inl ErrInvalidTransition
          else (case findCommand c (obs_CommandID ob) (obs_NodeID ob) of
             None \<Rightarrow> Inl ErrStaleObservation
           | Some outstanding \<Rightarrow>
               (case fmlookup (d_index d) (cmd_NodeID outstanding) of
                  None \<Rightarrow> Inl ErrInvalidTransition
                | Some i \<Rightarrow>
                    if \<not> runsCommand (node_at d i) then Inl ErrInvalidTransition
                    else observeNode d i ob c)))"

section \<open>Decision\<close>

definition decideNode ::
    "Definition \<Rightarrow> nat \<Rightarrow> DecisionRecord \<Rightarrow> Checkpoint \<Rightarrow> Checkpoint result" where
  "decideNode d i dec c =
     (let node = node_at d i;
          approval = ApprovalAttempt d c (n_id node);
          required = (case approval of Some a \<Rightarrow> a | None \<Rightarrow> attempts c (n_id node));
          c1 = removeObligation (dec_NodeID dec) c
      in if approval \<noteq> None \<and> required < 1 then Inl ErrInvalidTransition
         else if dec_Attempt dec \<noteq> required then Inl ErrStaleDecision
         else if \<not> verdictAllowed node (dec_Verdict dec) then Inl ErrInvalidDecisionVerdict
         else if approval \<noteq> None then
           (if dec_Verdict dec = ''approve'' then advanceStage d i c1
            else if dec_Verdict dec = ''rework'' then resetPlanApproval d i c1
            else Inl ErrInvalidTransition)
         else settleVerdict d i (dec_Verdict dec) c1)"

text \<open>
  The source reads \<open>definition.index[decision.NodeID]\<close> without checking for its absence; an
  obligation naming an unknown node would read index 0.
\<close>

definition apply_decisionRecorded :: "Definition \<Rightarrow> Transition \<Rightarrow> Checkpoint \<Rightarrow> Checkpoint result" where
  "apply_decisionRecorded d t c =
     (case tr_Decision t of
        None \<Rightarrow> Inl ErrInvalidTransition
      | Some dec \<Rightarrow>
          if tr_Command t \<noteq> None \<or> tr_Observation t \<noteq> None \<or> tr_Resolution t \<noteq> None
          then Inl ErrInvalidTransition
          else if \<not> hasObligation c (dec_NodeID dec) then Inl ErrStaleDecision
          else decideNode d (mget 0 (d_index d) (dec_NodeID dec)) dec c)"

section \<open>Resolution\<close>

definition resolveRetry :: "Definition \<Rightarrow> nat \<Rightarrow> Checkpoint \<Rightarrow> Checkpoint result" where
  "resolveRetry d i c =
     (let node = node_at d i; c1 = removeBlocked (n_id node) c in
      if gateAnchor d node \<noteq> None then retryBlockedGate d i c1
      else bindR (raiseAttemptCeiling node c1) (\<lambda>c2. Inr (setNode (n_id node) NodeReady c2)))"

definition resolveSkip :: "Definition \<Rightarrow> nat \<Rightarrow> Checkpoint \<Rightarrow> Checkpoint result" where
  "resolveSkip d i c =
     (let node = node_at d i; c1 = removeBlocked (n_id node) c in
      if n_parent node \<noteq> None then advanceStage d i c1
      else completeAndSettle d i (arrivesAt (soleOutcome d node)) c1)"

definition resolveCancel :: "Definition \<Rightarrow> nat \<Rightarrow> Checkpoint \<Rightarrow> Checkpoint result" where
  "resolveCancel d i c = Inr (abandonAfterDoom (setNode (n_id (node_at d i)) NodeCanceled c))"

definition apply_blockedResolved :: "Definition \<Rightarrow> Transition \<Rightarrow> Checkpoint \<Rightarrow> Checkpoint result" where
  "apply_blockedResolved d t c =
     (case tr_Resolution t of
        None \<Rightarrow> Inl ErrInvalidTransition
      | Some r \<Rightarrow>
          if tr_Command t \<noteq> None \<or> tr_Observation t \<noteq> None \<or> tr_Decision t \<noteq> None
          then Inl ErrInvalidTransition
          else if Status c \<noteq> RunRunning then Inl ErrStaleResolution
          else if \<not> hasBlocked c (res_NodeID r) \<or> nodeStatus c (res_NodeID r) \<noteq> NodeBlocked
          then Inl ErrStaleResolution
          else (case fmlookup (d_index d) (res_NodeID r) of
             None \<Rightarrow> Inl ErrInvalidTransition
           | Some i \<Rightarrow>
               if res_Attempt r \<noteq> attempts c (n_id (node_at d i)) then Inl ErrStaleResolution
               else (case res_Action r of
                  ResolveRetry \<Rightarrow> resolveRetry d i c
                | ResolveSkip \<Rightarrow> resolveSkip d i c
                | ResolveCancel \<Rightarrow> resolveCancel d i c
                | ResolveOther _ \<Rightarrow> Inl ErrInvalidTransition)))"

section \<open>The reducer\<close>

text \<open>A nil definition and one without nodes are refused alike.\<close>

definition apply_transition :: "Checkpoint \<Rightarrow> Definition \<Rightarrow> Transition \<Rightarrow> Checkpoint result" where
  "apply_transition c d t =
     (if d_nodes d = [] then Inl ErrInvalidDefinition
      else (case tr_Kind t of
         TransitionAdvance \<Rightarrow> apply_advance d t c
       | TransitionCommandPlanned \<Rightarrow> apply_commandPlanned d t c
       | TransitionProgramObserved \<Rightarrow> apply_programObserved d t c
       | TransitionDecisionRecorded \<Rightarrow> apply_decisionRecorded d t c
       | TransitionBlockedResolved \<Rightarrow> apply_blockedResolved d t c
       | TransitionOther _ \<Rightarrow> Inl ErrInvalidTransition))"

section \<open>The driver\<close>

definition advanceTransition :: "string \<Rightarrow> Transition" where
  "advanceTransition nid =
     \<lparr>tr_Kind = TransitionAdvance, tr_NodeID = nid, tr_Command = None, tr_Observation = None,
      tr_Decision = None, tr_Resolution = None\<rparr>"

definition planTransition :: "Command \<Rightarrow> Transition" where
  "planTransition command =
     \<lparr>tr_Kind = TransitionCommandPlanned, tr_NodeID = [], tr_Command = Some command,
      tr_Observation = None, tr_Decision = None, tr_Resolution = None\<rparr>"

text \<open>The scan reads \<open>definition.index[node.id]\<close> for a subprocess exit.\<close>

definition engineOwned :: "Checkpoint \<Rightarrow> Definition \<Rightarrow> definitionNode \<Rightarrow> bool" where
  "engineOwned c d node \<longleftrightarrow>
     nodeStatus c (n_id node) = NodeReady \<and>
     (case n_kind node of
        definitionStart \<Rightarrow> True
      | definitionParallel \<Rightarrow> True
      | definitionCompound \<Rightarrow> True
      | definitionStageDone \<Rightarrow> True
      | definitionSubprocess \<Rightarrow> True
      | definitionSubprocessExit \<Rightarrow>
          scopedWorkRemains c d (mget 0 (d_index d) (n_id node)) = None
      | definitionEnd \<Rightarrow> remainingWork c d (n_id node) = None
      | definitionTask \<Rightarrow> False
      | definitionDecision \<Rightarrow> False)"

definition nextEngineTransition :: "Checkpoint \<Rightarrow> Definition \<Rightarrow> Transition option" where
  "nextEngineTransition c d =
     (if Status c \<noteq> RunRunning \<or> doomed c then None
      else map_option (\<lambda>node. advanceTransition (n_id node)) (find (engineOwned c d) (d_nodes d)))"

definition nextPlannableTask :: "Checkpoint \<Rightarrow> Definition \<Rightarrow> definitionNode option" where
  "nextPlannableTask c d =
     (if Status c \<noteq> RunRunning \<or> doomed c then None
      else find (\<lambda>node. runsCommand node \<and> nodeStatus c (n_id node) = NodeReady) (d_nodes d))"

definition transitionBudget :: "Definition \<Rightarrow> nat" where
  "transitionBudget d = length (d_nodes d)"

text \<open>The loop commits at most \<open>budget\<close> advances; \<open>committed\<close> counts them.\<close>

fun advanceLoop :: "Definition \<Rightarrow> nat \<Rightarrow> nat \<Rightarrow> Checkpoint \<Rightarrow> (Checkpoint \<times> nat) result" where
  "advanceLoop d 0 committed c =
     (if nextEngineTransition c d \<noteq> None then Inl ErrTransitionBudgetExhausted
      else Inr (c, committed))"
| "advanceLoop d (Suc budget) committed c =
     (case nextEngineTransition c d of
        None \<Rightarrow> Inr (c, committed)
      | Some t \<Rightarrow> bindR (apply_transition c d t) (advanceLoop d budget (Suc committed)))"

definition advanceUntilQuiescent :: "Checkpoint \<Rightarrow> Definition \<Rightarrow> nat \<Rightarrow> (Checkpoint \<times> nat) result" where
  "advanceUntilQuiescent c d budget =
     (if d_nodes d = [] then Inl ErrInvalidDefinition else advanceLoop d budget 0 c)"

definition AdvanceUntilQuiescent :: "Checkpoint \<Rightarrow> Definition \<Rightarrow> Checkpoint result" where
  "AdvanceUntilQuiescent c d =
     bindR (advanceUntilQuiescent c d (transitionBudget d)) (\<lambda>(c', _). Inr c')"

definition AdvanceAndPlan ::
    "Checkpoint \<Rightarrow> Definition \<Rightarrow> (Checkpoint \<times> Command option \<times> bool) result" where
  "AdvanceAndPlan c d =
     (if d_nodes d = [] then Inl ErrInvalidDefinition
      else bindR (advanceUntilQuiescent c d (transitionBudget d)) (\<lambda>(c1, committed).
        case nextPlannableTask c1 d of
          None \<Rightarrow> Inr (c1, None, committed > 0)
        | Some node \<Rightarrow>
            let command = taskCommand c1 d node (nextAttempt c1 (n_id node))
            in bindR (apply_transition c1 d (planTransition command))
                 (\<lambda>planned. Inr (planned, Some command, True))))"

definition Runnable :: "Checkpoint \<Rightarrow> Definition \<Rightarrow> bool" where
  "Runnable c d \<longleftrightarrow>
     d_nodes d \<noteq> [] \<and> (nextEngineTransition c d \<noteq> None \<or> nextPlannableTask c d \<noteq> None)"

end
