(* ===== verification/Boundary.thy ===== *)
theory Boundary
  imports Reducer
begin

text \<open>
  The load and creation boundary (\<open>engine/validate.go\<close>, \<open>ValidateCheckpoint\<close> and its helpers;
  \<open>engine/loops.go\<close>, \<open>validateIterations\<close>; \<open>engine/engine.go\<close>, \<open>Initialize\<close>) and the read
  surfaces of a prepared definition.  The validators return the first failed check; every check
  fails with the same sentinel, so the order in which Go visits a map does not matter.
\<close>

section \<open>Validators\<close>

definition ascii_in :: "char \<Rightarrow> char \<Rightarrow> char \<Rightarrow> bool" where
  "ascii_in lo hi x \<longleftrightarrow> (of_char lo :: nat) \<le> of_char x \<and> (of_char x :: nat) \<le> of_char hi"

definition validRunID :: "string \<Rightarrow> bool" where
  "validRunID runID \<longleftrightarrow>
     (case runID of
        [] \<Rightarrow> False
      | x # _ \<Rightarrow>
          length runID \<le> 128 \<and>
          (ascii_in (CHR ''a'') (CHR ''z'') x \<or> ascii_in (CHR ''0'') (CHR ''9'') x) \<and>
          list_all (\<lambda>y. ascii_in (CHR ''a'') (CHR ''z'') y \<or> ascii_in (CHR ''0'') (CHR ''9'') y \<or>
                        y = CHR ''.'' \<or> y = CHR ''_'' \<or> y = CHR ''-'') runID)"

fun knownRunStatus :: "RunStatus \<Rightarrow> bool" where
  "knownRunStatus (RunOther _) = False"
| "knownRunStatus _ = True"

fun knownNodeStatus :: "NodeStatus \<Rightarrow> bool" where
  "knownNodeStatus (NodeOther _) = False"
| "knownNodeStatus _ = True"

fun knownDisposition :: "EdgeDisposition \<Rightarrow> bool" where
  "knownDisposition (EdgeOther _) = False"
| "knownDisposition _ = True"

definition check :: "bool \<Rightarrow> unit result" where
  "check b = guardR b ErrInvalidCheckpoint"

lemma check_Inr [res_simps]: "check b = Inr u \<longleftrightarrow> b"
  by (simp add: check_def guardR_Inr_iff)

definition edgeShapeOf :: "Checkpoint \<Rightarrow> Definition \<Rightarrow> definitionNode \<Rightarrow> bool" where
  "edgeShapeOf c d node \<longleftrightarrow>
     (case fmlookup (Edges c) (n_id node) of
        None \<Rightarrow> False
      | Some dispositions \<Rightarrow>
          mlen dispositions = length (n_outgoing node) \<and>
          list_all (\<lambda>ei. knownDisposition
                     (mget (EdgeOther []) dispositions (e_outcome (edge_at d ei)))) (n_outgoing node))"

definition validateEdgeShape :: "Checkpoint \<Rightarrow> Definition \<Rightarrow> unit result" where
  "validateEdgeShape c d =
     (let sources = filter (\<lambda>node. n_outgoing node \<noteq> []) (d_nodes d) in
      bindR (allR (\<lambda>node. check (edgeShapeOf c d node)) sources)
        (\<lambda>_. check (mlen (Edges c) = length sources)))"

definition ceilingEntryOk :: "Definition \<Rightarrow> string \<Rightarrow> int \<Rightarrow> bool" where
  "ceilingEntryOk d nodeID lim \<longleftrightarrow>
     (case definitionNodeByID d nodeID of
        None \<Rightarrow> False
      | Some node \<Rightarrow>
          runsCommand node \<and> (n_retryAuthored node \<or> n_loops node \<noteq> []) \<and>
          lim > n_maxAttempts node)"

definition validateAttemptCeilings :: "Checkpoint \<Rightarrow> Definition \<Rightarrow> unit result" where
  "validateAttemptCeilings c d = check (mforall (ceilingEntryOk d) (AttemptCeilings c))"

definition iterationEntryOk :: "Definition \<Rightarrow> string \<Rightarrow> (string, int) fmap \<Rightarrow> bool" where
  "iterationEntryOk d src outcomes \<longleftrightarrow>
     (case definitionNodeByID d src of
        None \<Rightarrow> False
      | Some node \<Rightarrow>
          mlen outcomes \<noteq> 0 \<and>
          mforall (\<lambda>oc taken.
            case loopOf d node oc of
              None \<Rightarrow> False
            | Some li \<Rightarrow> 1 \<le> taken \<and> taken < l_maxIterations (loop_at d li)) outcomes)"

definition validateIterations :: "Checkpoint \<Rightarrow> Definition \<Rightarrow> unit result" where
  "validateIterations c d = check (mforall (iterationEntryOk d) (Iterations c))"

definition attemptEntryOk :: "Checkpoint \<Rightarrow> Definition \<Rightarrow> string \<Rightarrow> int \<Rightarrow> bool" where
  "attemptEntryOk c d nodeID attempt \<longleftrightarrow>
     (case definitionNodeByID d nodeID of
        None \<Rightarrow> False
      | Some node \<Rightarrow>
          if awaitsHuman node \<and> n_parent node = None \<and> n_loops node \<noteq> [] then attempt \<ge> 1
          else runsCommand node \<and> 1 \<le> attempt \<and> attempt \<le> executableAttemptCeiling c d node)"

definition validateAttempts :: "Checkpoint \<Rightarrow> Definition \<Rightarrow> unit result" where
  "validateAttempts c d = check (mforall (attemptEntryOk c d) (Attempts c))"

definition commandOk :: "Checkpoint \<Rightarrow> Definition \<Rightarrow> Command \<Rightarrow> bool" where
  "commandOk c d command \<longleftrightarrow>
     (case definitionNodeByID d (cmd_NodeID command) of
        None \<Rightarrow> False
      | Some node \<Rightarrow>
          runsCommand node \<and> cmd_Kind command = commandKind node \<and>
          commandsEqual command (taskCommand c d node (attempts c (cmd_NodeID command))) \<and>
          nodeStatus c (cmd_NodeID command) = NodeRunning)"

definition validateCommands :: "Checkpoint \<Rightarrow> Definition \<Rightarrow> unit result" where
  "validateCommands c d =
     bindR (check (length (Commands c) \<le> length (d_nodes d)))
       (\<lambda>_. bindR (allR (\<lambda>x. check (commandOk c d x)) (Commands c))
         (\<lambda>_. check (distinct (map cmd_NodeID (Commands c)))))"

definition obligationOk :: "Checkpoint \<Rightarrow> Definition \<Rightarrow> DecisionObligation \<Rightarrow> bool" where
  "obligationOk c d ob \<longleftrightarrow>
     (case definitionNodeByID d (do_NodeID ob) of
        None \<Rightarrow> False
      | Some node \<Rightarrow>
          awaitsHuman node \<and> nodeStatus c (do_NodeID ob) = NodeReady \<and>
          (case ApprovalAttempt d c (do_NodeID ob) of None \<Rightarrow> True | Some a \<Rightarrow> a \<ge> 1))"

definition validateAwaitingDecisions :: "Checkpoint \<Rightarrow> Definition \<Rightarrow> unit result" where
  "validateAwaitingDecisions c d =
     (if AwaitingDecisions c = [] then Inr ()
      else bindR (check (Status c = RunRunning))
        (\<lambda>_. bindR (check (length (AwaitingDecisions c) \<le> length (d_nodes d)))
          (\<lambda>_. bindR (allR (\<lambda>x. check (obligationOk c d x)) (AwaitingDecisions c))
            (\<lambda>_. check (distinct (map do_NodeID (AwaitingDecisions c)))))))"

definition parkedCount :: "Checkpoint \<Rightarrow> nat" where
  "parkedCount c = fcard (ffilter (\<lambda>k. fmlookup (Nodes c) k = Some NodeBlocked) (fmdom (Nodes c)))"

definition blockedOk :: "Checkpoint \<Rightarrow> Definition \<Rightarrow> BlockedObligation \<Rightarrow> bool" where
  "blockedOk c d ob \<longleftrightarrow>
     (case definitionNodeByID d (bo_NodeID ob) of
        None \<Rightarrow> False
      | Some node \<Rightarrow>
          n_kind node = definitionTask \<and> blockableTask d node \<and>
          nodeStatus c (bo_NodeID ob) = NodeBlocked \<and> attempts c (bo_NodeID ob) \<ge> 1 \<and>
          length (bo_Reason ob) \<le> MaxBlockedReasonBytes \<and> utf8_ValidString (bo_Reason ob))"

definition validateBlocked :: "Checkpoint \<Rightarrow> Definition \<Rightarrow> unit result" where
  "validateBlocked c d =
     bindR (check (length (Blocked c) = parkedCount c))
       (\<lambda>_. if Blocked c = [] then Inr ()
        else bindR (check (Status c = RunRunning))
          (\<lambda>_. bindR (allR (\<lambda>x. check (blockedOk c d x)) (Blocked c))
            (\<lambda>_. check (distinct (map bo_NodeID (Blocked c))))))"

definition nodesOk :: "Checkpoint \<Rightarrow> Definition \<Rightarrow> bool" where
  "nodesOk c d \<longleftrightarrow>
     mlen (Nodes c) = length (d_nodes d) \<and>
     mforall (\<lambda>nodeID s. definitionNodeByID d nodeID \<noteq> None \<and> knownNodeStatus s) (Nodes c)"

definition validateCheckpoint :: "Checkpoint \<Rightarrow> Definition \<Rightarrow> unit result" where
  "validateCheckpoint c d =
     (if d_nodes d = [] then Inl ErrInvalidDefinition
      else bindR (check (Version c = CheckpointVersion))
       (\<lambda>_. bindR (check (validRunID (RunID c)))
       (\<lambda>_. bindR (check (knownRunStatus (Status c)))
       (\<lambda>_. bindR (check (nodesOk c d))
       (\<lambda>_. bindR (validateEdgeShape c d)
       (\<lambda>_. bindR (validateAttemptCeilings c d)
       (\<lambda>_. bindR (validateIterations c d)
       (\<lambda>_. bindR (validateAttempts c d)
       (\<lambda>_. bindR (validateCommands c d)
       (\<lambda>_. bindR (validateAwaitingDecisions c d)
       (\<lambda>_. validateBlocked c d)))))))))))"

section \<open>Creation\<close>

definition initialEdges :: "Definition \<Rightarrow> (string, (string, EdgeDisposition) fmap) fmap" where
  "initialEdges d = fold (\<lambda>e. mput2 (e_from e) (e_outcome e) EdgeUnresolved) (d_edges d) fmempty"

definition initialNodes :: "Definition \<Rightarrow> (string, NodeStatus) fmap" where
  "initialNodes d = fold (\<lambda>n. fmupd (n_id n) NodePending) (d_nodes d) fmempty"

definition initialCheckpoint :: "string \<Rightarrow> Definition \<Rightarrow> Checkpoint" where
  "initialCheckpoint runID d =
     (let en = node_at d 0;
          c = \<lparr>Version = CheckpointVersion, RunID = runID, Status = RunRunning,
               Nodes = fmupd (n_id en) NodeReady (initialNodes d), Attempts = fmempty,
               Edges = initialEdges d, AwaitingDecisions = [], Commands = [], Blocked = [],
               AttemptCeilings = fmempty, Iterations = fmempty\<rparr>
      in if awaitsHuman en then addObligation (n_id en) c else c)"

definition Initialize :: "string \<Rightarrow> Definition \<Rightarrow> Checkpoint result" where
  "Initialize runID d =
     (if d_nodes d = [] then Inl ErrInvalidDefinition
      else bindR (validateCheckpoint (initialCheckpoint runID d) d)
             (\<lambda>_. Inr (initialCheckpoint runID d)))"

section \<open>Read surfaces\<close>

definition DecisionVerdicts :: "Definition \<Rightarrow> string \<Rightarrow> string list option" where
  "DecisionVerdicts d nodeID =
     (case definitionNodeByID d nodeID of
        None \<Rightarrow> None
      | Some node \<Rightarrow> if n_kind node = definitionDecision then Some (n_verdicts node) else None)"

record ChosenEdge =
  ce_From :: string
  ce_Outcome :: string
  ce_To :: string

definition DecisionEdge :: "Definition \<Rightarrow> string \<Rightarrow> string \<Rightarrow> ChosenEdge option" where
  "DecisionEdge d nodeID verdict =
     (case definitionNodeByID d nodeID of
        None \<Rightarrow> None
      | Some node \<Rightarrow>
          if n_kind node \<noteq> definitionDecision then None
          else map_option (\<lambda>ei. let e = edge_at d ei in
                 \<lparr>ce_From = e_from e, ce_Outcome = e_outcome e, ce_To = e_to e\<rparr>)
               (find (\<lambda>ei. e_outcome (edge_at d ei) = verdict) (n_outgoing node)))"

record JoinArrival =
  ja_JoinNodeID :: string
  ja_From :: string
  ja_Outcome :: string
  ja_Winner :: bool

definition joinArrivalOf :: "Definition \<Rightarrow> Checkpoint \<Rightarrow> Checkpoint \<Rightarrow> nat \<Rightarrow> JoinArrival option" where
  "joinArrivalOf d before after ei =
     (let e = edge_at d ei in
      if edgeState before e \<noteq> EdgeUnresolved then None
      else (case edgeState after e of
         EdgeArrived \<Rightarrow> Some \<lparr>ja_JoinNodeID = e_to e, ja_From = e_from e,
                              ja_Outcome = e_outcome e, ja_Winner = True\<rparr>
       | EdgeArrivedLate \<Rightarrow> Some \<lparr>ja_JoinNodeID = e_to e, ja_From = e_from e,
                              ja_Outcome = e_outcome e, ja_Winner = False\<rparr>
       | _ \<Rightarrow> None))"

definition JoinArrivals :: "Definition \<Rightarrow> Checkpoint \<Rightarrow> Checkpoint \<Rightarrow> JoinArrival list" where
  "JoinArrivals d before after = List.map_filter (joinArrivalOf d before after) (d_joinAnyIncoming d)"

end
