(* ===== verification/Prepared.thy ===== *)
theory Prepared
  imports Boundary
begin

text \<open>
  What preparation guarantees of a definition (\<open>engine/validate.go\<close>, \<open>Prepare\<close> and
  \<open>prepareScope\<close>; \<open>engine/loops.go\<close>, \<open>prepareLoops\<close>): every index is in range, edges and
  incidence lists agree, a compound's stages are its ordered child list, a subprocess body is one
  index range that edges do not leave, and loop bodies are closed.  \<open>wf_definition\<close> is executable;
  the theorems about the reducer assume it.
\<close>

section \<open>Well-formed definitions\<close>

abbreviation node_id :: "Definition \<Rightarrow> nat \<Rightarrow> string" where
  "node_id d i \<equiv> n_id (node_at d i)"

abbreviation n_nodes :: "Definition \<Rightarrow> nat" where
  "n_nodes d \<equiv> length (d_nodes d)"

definition inBody :: "Definition \<Rightarrow> nat \<Rightarrow> nat \<Rightarrow> bool" where
  "inBody d s i \<longleftrightarrow> i \<in> set (bodyRange d s)"

definition subprocesses :: "Definition \<Rightarrow> nat list" where
  "subprocesses d = filter (\<lambda>i. n_kind (node_at d i) = definitionSubprocess) [0 ..< n_nodes d]"

definition sameScopes :: "Definition \<Rightarrow> nat \<Rightarrow> nat \<Rightarrow> bool" where
  "sameScopes d i j \<longleftrightarrow> list_all (\<lambda>s. inBody d s i = inBody d s j) (subprocesses d)"

definition wf_index :: "Definition \<Rightarrow> bool" where
  "wf_index d \<longleftrightarrow>
     d_nodes d \<noteq> [] \<and> distinct (map n_id (d_nodes d)) \<and> n_parent (node_at d 0) = None \<and>
     d_index d = fmap_of_list (zip (map n_id (d_nodes d)) [0 ..< n_nodes d])"

definition wf_edge :: "Definition \<Rightarrow> nat \<Rightarrow> bool" where
  "wf_edge d j \<longleftrightarrow>
     (let e = edge_at d j in
      e_fromIndex e < n_nodes d \<and> e_toIndex e < n_nodes d \<and>
      e_from e = node_id d (e_fromIndex e) \<and> e_to e = node_id d (e_toIndex e) \<and>
      j \<in> set (n_outgoing (node_at d (e_fromIndex e))) \<and>
      (j \<in> set (n_incoming (node_at d (e_toIndex e))) \<longleftrightarrow> e_loop e = None) \<and>
      n_parent (node_at d (e_fromIndex e)) = None \<and> n_parent (node_at d (e_toIndex e)) = None \<and>
      sameScopes d (e_fromIndex e) (e_toIndex e) \<and>
      list_all (\<lambda>li. li < length (d_loops d) \<and> j \<in> set (l_exits (loop_at d li))) (e_exitOf e))"

text \<open>The order of a compound's stages (\<open>model.ExpandNode\<close>).\<close>

definition stagesAfterDo :: "StageKind list \<Rightarrow> bool" where
  "stagesAfterDo xs \<longleftrightarrow>
     (let ys = dropWhile (\<lambda>x. x = StageTest) xs in ys = [StageDone] \<or> ys = [StageReview, StageDone])"

definition stagesOk :: "StageKind list \<Rightarrow> bool" where
  "stagesOk xs \<longleftrightarrow>
     (let ys = (if take 2 xs = [StagePlan, StagePlanApproval] then drop 2 xs
                else if take 1 xs = [StagePlan] then drop 1 xs else xs)
      in ys \<noteq> [] \<and> hd ys = StageDo \<and> stagesAfterDo (tl ys))"

definition wf_child :: "Definition \<Rightarrow> nat \<Rightarrow> nat \<Rightarrow> bool" where
  "wf_child d p i \<longleftrightarrow>
     (let n = node_at d i; parent = node_at d p in
      i < n_nodes d \<and> n_parent n = Some p \<and> sameScopes d p i \<and>
      n_children n = [] \<and> n_outgoing n = [] \<and> n_incoming n = [] \<and> n_sourceOf n = [] \<and>
      \<not> n_joinAny n \<and>
      (n_kind n = definitionTask \<or> n_kind n = definitionDecision \<or> n_kind n = definitionStageDone) \<and>
      (n_kind n = definitionDecision \<longleftrightarrow> n_stage n = StagePlanApproval) \<and>
      (n_kind n = definitionDecision \<longrightarrow> n_agent n = None) \<and>
      (n_kind n = definitionStageDone \<longleftrightarrow> n_stage n = StageDone) \<and>
      (n_retryAuthored n \<longrightarrow> n_stage n = StageDo) \<and>
      (n_stage n = StageDo \<longleftrightarrow> n_doAnchor parent = Some i) \<and>
      (n_stage n = StagePlan \<longleftrightarrow> n_planAnchor parent = Some i) \<and>
      (n_stage n = StagePlanApproval \<longleftrightarrow> n_approvalGate parent = Some i))"

definition wf_compound :: "Definition \<Rightarrow> nat \<Rightarrow> bool" where
  "wf_compound d p \<longleftrightarrow>
     (let n = node_at d p in
      n_parent n = None \<and> distinct (n_children n) \<and>
      stagesOk (map (\<lambda>i. n_stage (node_at d i)) (n_children n)) \<and>
      (\<forall>i \<in> set (n_children n). wf_child d p i) \<and>
      (\<forall>a \<in> set_option (n_doAnchor n) \<union> set_option (n_planAnchor n) \<union> set_option (n_approvalGate n).
         a \<in> set (n_children n)))"

definition wf_subprocess :: "Definition \<Rightarrow> nat \<Rightarrow> bool" where
  "wf_subprocess d s \<longleftrightarrow>
     (let n = node_at d s in
      n_parent n = None \<and>
      (case (n_scopeEnd n, n_entry n) of
         (Some e, Some en) \<Rightarrow>
           s < e \<and> e \<le> n_nodes d \<and> inBody d s en \<and> n_parent (node_at d en) = None \<and>
           list_all (\<lambda>s'. inBody d s' s \<longrightarrow> list_all (inBody d s') (bodyRange d s)) (subprocesses d) \<and>
           list_all (\<lambda>s'. inBody d s s' \<longrightarrow> \<not> inBody d s' en) (subprocesses d)
       | _ \<Rightarrow> False))"

definition wf_node :: "Definition \<Rightarrow> nat \<Rightarrow> bool" where
  "wf_node d i \<longleftrightarrow>
     (let n = node_at d i in
      list_all (\<lambda>j. j < length (d_edges d) \<and> e_fromIndex (edge_at d j) = i) (n_outgoing n) \<and>
      distinct (map (\<lambda>j. e_outcome (edge_at d j)) (n_outgoing n)) \<and>
      list_all (\<lambda>j. j < length (d_edges d) \<and> e_toIndex (edge_at d j) = i) (n_incoming n) \<and>
      distinct (n_incoming n) \<and>
      list_all (\<lambda>li. li < length (d_loops d) \<and> i \<in> set (l_body (loop_at d li))) (n_loops n) \<and>
      list_all (\<lambda>li. li < length (d_loops d) \<and> l_from (loop_at d li) = i) (n_sourceOf n) \<and>
      (runsCommand n \<longrightarrow> 1 \<le> n_maxAttempts n \<and> n_maxAttempts n \<le> MaxInt) \<and>
      (n_retryAuthored n \<longrightarrow> n_kind n = definitionTask) \<and>
      (n_kind n = definitionEnd \<longrightarrow> knownRunStatus (n_terminal n) \<and> n_terminal n \<noteq> RunRunning) \<and>
      (case n_parent n of
         None \<Rightarrow> n_kind n \<noteq> definitionStageDone
       | Some p \<Rightarrow> p < n_nodes d \<and> n_kind (node_at d p) = definitionCompound \<and>
                   i \<in> set (n_children (node_at d p))) \<and>
      (if n_kind n = definitionCompound then wf_compound d i else n_children n = []) \<and>
      (if n_kind n = definitionSubprocess then wf_subprocess d i else n_scopeEnd n = None) \<and>
      (n_kind n = definitionSubprocessExit \<longrightarrow>
         (case n_scope n of
            None \<Rightarrow> False
          | Some s \<Rightarrow> s < n_nodes d \<and> n_kind (node_at d s) = definitionSubprocess \<and> inBody d s i)))"

definition wf_loop :: "Definition \<Rightarrow> nat \<Rightarrow> bool" where
  "wf_loop d li \<longleftrightarrow>
     (let l = loop_at d li in
      l_edge l < length (d_edges d) \<and> l_from l < n_nodes d \<and> l_to l < n_nodes d \<and>
      e_fromIndex (edge_at d (l_edge l)) = l_from l \<and> e_toIndex (edge_at d (l_edge l)) = l_to l \<and>
      e_outcome (edge_at d (l_edge l)) = l_outcome l \<and>
      n_kind (node_at d (l_from l)) = definitionDecision \<and>
      li \<in> set (n_sourceOf (node_at d (l_from l))) \<and>
      2 \<le> l_maxIterations l \<and> l_maxIterations l \<le> MaxInt \<and>
      l_from l \<in> set (l_body l) \<and> l_to l \<in> set (l_body l) \<and>
      (\<forall>i \<in> set (l_body l).
         i < n_nodes d \<and> li \<in> set (n_loops (node_at d i)) \<and>
         set (n_children (node_at d i)) \<subseteq> set (l_body l) \<and>
         set (bodyRange d i) \<subseteq> set (l_body l) \<and>
         set_option (n_parent (node_at d i)) \<subseteq> set (l_body l) \<and>
         \<not> inBody d i (l_to l)) \<and>
      list_all (\<lambda>j. j < length (d_edges d) \<and> sameScopes d (l_from l) (e_toIndex (edge_at d j)))
        (l_exits l) \<and>
      list_all (\<lambda>k. k < length (d_loops d) \<and> set (l_body (loop_at d k)) \<subseteq> set (l_body l)) (l_inner l))"

definition wf_definition :: "Definition \<Rightarrow> bool" where
  "wf_definition d \<longleftrightarrow>
     wf_index d \<and>
     list_all (wf_edge d) [0 ..< length (d_edges d)] \<and>
     list_all (wf_node d) [0 ..< n_nodes d] \<and>
     list_all (wf_loop d) [0 ..< length (d_loops d)] \<and>
     distinct (map (\<lambda>l. (l_from l, l_outcome l)) (d_loops d))"

section \<open>Using well-formedness\<close>

lemma wf_edgeD: "wf_definition d \<Longrightarrow> j < length (d_edges d) \<Longrightarrow> wf_edge d j"
  by (auto simp: wf_definition_def list_all_iff)

lemma wf_nodeD: "wf_definition d \<Longrightarrow> i < n_nodes d \<Longrightarrow> wf_node d i"
  by (auto simp: wf_definition_def list_all_iff)

lemma wf_loopD: "wf_definition d \<Longrightarrow> li < length (d_loops d) \<Longrightarrow> wf_loop d li"
  by (auto simp: wf_definition_def list_all_iff)

lemma wf_nonempty: "wf_definition d \<Longrightarrow> d_nodes d \<noteq> []"
  by (simp add: wf_definition_def wf_index_def)

lemma node_id_inj:
  "wf_definition d \<Longrightarrow> i < n_nodes d \<Longrightarrow> j < n_nodes d \<Longrightarrow> node_id d i = node_id d j \<longleftrightarrow> i = j"
  by (auto simp: wf_definition_def wf_index_def distinct_conv_nth)

lemma wf_index_lookup:
  assumes "wf_index d"
  shows "fmlookup (d_index d) k = Some i \<longleftrightarrow> i < n_nodes d \<and> node_id d i = k"
proof -
  let ?zs = "zip (map n_id (d_nodes d)) [0 ..< n_nodes d]"
  have "fmlookup (d_index d) k = Some i \<longleftrightarrow> map_of ?zs k = Some i"
    using assms by (simp add: wf_index_def fmap_of_list.rep_eq)
  also have "\<dots> \<longleftrightarrow> (k, i) \<in> set ?zs"
    using assms by (intro map_of_eq_Some_iff) (simp add: wf_index_def)
  also have "\<dots> \<longleftrightarrow> i < n_nodes d \<and> node_id d i = k"
    by (auto simp: set_zip intro!: exI [of _ i])
  finally show ?thesis .
qed

lemma index_lookup:
  "wf_definition d \<Longrightarrow> fmlookup (d_index d) k = Some i \<longleftrightarrow> i < n_nodes d \<and> node_id d i = k"
  by (rule wf_index_lookup) (simp add: wf_definition_def)

lemma index_node [simp]:
  "wf_definition d \<Longrightarrow> i < n_nodes d \<Longrightarrow> fmlookup (d_index d) (node_id d i) = Some i"
  by (simp add: index_lookup)

lemma byID_node [simp]:
  "wf_definition d \<Longrightarrow> i < n_nodes d \<Longrightarrow> definitionNodeByID d (node_id d i) = Some (node_at d i)"
  by (simp add: definitionNodeByID_def)

lemma byID_Some:
  "wf_definition d \<Longrightarrow> definitionNodeByID d k = Some n \<longleftrightarrow> (\<exists>i<n_nodes d. node_id d i = k \<and> node_at d i = n)"
  by (auto simp: definitionNodeByID_def index_lookup)

lemma sameScopes_iff:
  "sameScopes d i j \<longleftrightarrow> (\<forall>s<n_nodes d. n_kind (node_at d s) = definitionSubprocess \<longrightarrow> inBody d s i = inBody d s j)"
  by (auto simp: sameScopes_def subprocesses_def list_all_iff)

section \<open>The stage sequence\<close>

lemma stagesAfterDo_set:
  assumes "stagesAfterDo zs"
  shows "set zs \<subseteq> {StageTest, StageReview, StageDone}" "zs \<noteq> []" "last zs = StageDone"
proof -
  let ?P = "\<lambda>x. x = StageTest"
  have d: "dropWhile ?P zs = [StageDone] \<or> dropWhile ?P zs = [StageReview, StageDone]"
    using assms by (simp add: stagesAfterDo_def Let_def)
  have z: "zs = takeWhile ?P zs @ dropWhile ?P zs" by simp
  have "set (takeWhile ?P zs) \<subseteq> {StageTest}" by (auto dest: set_takeWhileD)
  moreover have "set zs = set (takeWhile ?P zs) \<union> set (dropWhile ?P zs)" by (metis set_append z)
  ultimately show "set zs \<subseteq> {StageTest, StageReview, StageDone}" using d by auto
  show "zs \<noteq> []" using d by auto
  have "last (dropWhile ?P zs) = StageDone" "dropWhile ?P zs \<noteq> []"
    using d by (auto simp del: dropWhile_eq_Nil_conv)
  then show "last zs = StageDone" using z by (metis last_appendR)
qed

lemma stagesOk_split:
  assumes "stagesOk xs"
  obtains pre zs where "xs = pre @ StageDo # zs" "stagesAfterDo zs"
    "pre = [] \<or> pre = [StagePlan] \<or> pre = [StagePlan, StagePlanApproval]"
proof -
  define pre where "pre = (if take 2 xs = [StagePlan, StagePlanApproval] then [StagePlan, StagePlanApproval]
      else if take 1 xs = [StagePlan] then [StagePlan] else [])"
  define ys where "ys = (if take 2 xs = [StagePlan, StagePlanApproval] then drop 2 xs
                else if take 1 xs = [StagePlan] then drop 1 xs else xs)"
  have x: "xs = pre @ ys"
    unfolding pre_def ys_def by (cases xs; cases "tl xs"; simp add: numeral_2_eq_2)
  have "ys \<noteq> [] \<and> hd ys = StageDo \<and> stagesAfterDo (tl ys)"
    using assms unfolding stagesOk_def ys_def by (simp add: Let_def)
  with x have "xs = pre @ StageDo # tl ys" "stagesAfterDo (tl ys)" by (metis list.collapse)+
  moreover have "pre = [] \<or> pre = [StagePlan] \<or> pre = [StagePlan, StagePlanApproval]"
    by (simp add: pre_def)
  ultimately show thesis using that by blast
qed

text \<open>The gate of a plan follows it directly; the work precedes every gate on it.\<close>

lemma stagesOk_approval:
  assumes "stagesOk xs" "j < length xs" "xs ! j = StagePlanApproval"
  shows "j = 1" "xs ! 0 = StagePlan"
proof -
  from assms(1) obtain pre zs where x: "xs = pre @ StageDo # zs" and z: "stagesAfterDo zs"
    and p: "pre = [] \<or> pre = [StagePlan] \<or> pre = [StagePlan, StagePlanApproval]" by (rule stagesOk_split)
  have nz: "StagePlanApproval \<notin> set zs" using stagesAfterDo_set(1) [OF z] by auto
  have "j < length pre"
  proof (rule ccontr)
    assume "\<not> j < length pre"
    with assms(2,3) x have "StagePlanApproval \<in> set (StageDo # zs)"
      by (metis append_Nil2 in_set_conv_nth length_append less_diff_conv2 not_less nth_append add.commute)
    with nz show False by simp
  qed
  with assms(3) x p show "j = 1" "xs ! 0 = StagePlan"
    by (auto simp: nth_append nth_Cons' split: if_splits)
qed

lemma stagesOk_gate:
  assumes "stagesOk xs" "j < length xs" "xs ! j = StageTest \<or> xs ! j = StageReview"
  obtains k where "k < j" "xs ! k = StageDo"
proof -
  from assms(1) obtain pre zs where x: "xs = pre @ StageDo # zs"
    and p: "pre = [] \<or> pre = [StagePlan] \<or> pre = [StagePlan, StagePlanApproval]" by (rule stagesOk_split)
  have "length pre < j"
  proof (rule ccontr)
    assume "\<not> length pre < j"
    then have "j < length pre \<or> j = length pre" by linarith
    with assms(3) x p show False by (auto simp: nth_append nth_Cons' split: if_splits)
  qed
  with x that show thesis by (metis nth_append_length)
qed

lemma stagesOk_last: "stagesOk xs \<Longrightarrow> xs \<noteq> [] \<and> last xs = StageDone"
  using stagesAfterDo_set by (metis append_is_Nil_conv last_ConsR last_appendR list.discI stagesOk_split)

end
