(* ===== verification/Settlement_Effect.thy ===== *)
theory Settlement_Effect
  imports Prepared
begin

text \<open>
  What one settlement pass does to a checkpoint, as a relation between the state it starts from
  and the state it returns: it completes the node, moves pending nodes to ready or skipped and
  no other node, parks exactly the human decisions it readies, never touches the stages of a
  compound or the body of a subprocess unless it skips them as a whole, and leaves every other
  field alone.
\<close>

abbreviation st :: "Definition \<Rightarrow> Checkpoint \<Rightarrow> nat \<Rightarrow> NodeStatus" where
  "st d c i \<equiv> nodeStatus c (node_id d i)"

section \<open>The relation\<close>

definition sameRest :: "Checkpoint \<Rightarrow> Checkpoint \<Rightarrow> bool" where
  "sameRest c c' \<longleftrightarrow>
     Version c' = Version c \<and> RunID c' = RunID c \<and> Status c' = Status c \<and>
     Attempts c' = Attempts c \<and> Commands c' = Commands c \<and> Blocked c' = Blocked c \<and>
     AttemptCeilings c' = AttemptCeilings c \<and> Iterations c' = Iterations c"

definition sameDomains :: "Checkpoint \<Rightarrow> Checkpoint \<Rightarrow> bool" where
  "sameDomains c c' \<longleftrightarrow>
     fmdom (Nodes c') = fmdom (Nodes c) \<and> fmdom (Edges c') = fmdom (Edges c) \<and>
     (\<forall>f. fmdom (mget fmempty (Edges c') f) = fmdom (mget fmempty (Edges c) f))"

definition isSub :: "Definition \<Rightarrow> nat \<Rightarrow> bool" where
  "isSub d s \<longleftrightarrow> s < n_nodes d \<and> n_kind (node_at d s) = definitionSubprocess"

definition settleRel :: "Definition \<Rightarrow> nat \<Rightarrow> Checkpoint \<Rightarrow> Checkpoint \<Rightarrow> bool" where
  "settleRel d a c c' \<longleftrightarrow>
     sameRest c c' \<and> sameDomains c c' \<and>
     (\<forall>f oc. edgeDisp c' f oc = edgeDisp c f oc \<or> knownDisposition (edgeDisp c' f oc)) \<and>
     st d c' a = NodeDone \<and>
     (\<forall>i<n_nodes d. i \<noteq> a \<longrightarrow> st d c' i = st d c i \<or>
        st d c i = NodePending \<and> (st d c' i = NodeReady \<and> n_parent (node_at d i) = None \<or>
                                  st d c' i = NodeSkipped)) \<and>
     (awaits.canonical c \<longrightarrow> awaits.canonical c') \<and>
     awaits.keys c' = awaits.keys c \<union>
       {node_id d i | i. i < n_nodes d \<and> i \<noteq> a \<and> awaitsHuman (node_at d i) \<and>
          st d c i = NodePending \<and> st d c' i = NodeReady} \<and>
     (\<forall>p<n_nodes d. \<forall>i\<in>set (n_children (node_at d p)).
        st d c' i = st d c i \<or> st d c' p = NodeSkipped) \<and>
     (\<forall>s i. isSub d s \<longrightarrow> s \<noteq> a \<longrightarrow> (st d c s = NodePending \<or> st d c s = NodeReady) \<longrightarrow>
        st d c' s \<noteq> NodeSkipped \<longrightarrow> inBody d s i \<longrightarrow> st d c' i = st d c i)"

text \<open>What the pass needs of the state it starts from.\<close>

definition edgesPresent :: "Definition \<Rightarrow> Checkpoint \<Rightarrow> bool" where
  "edgesPresent d c \<longleftrightarrow>
     (\<forall>j<length (d_edges d). e_from (edge_at d j) |\<in>| fmdom (Edges c) \<and>
        e_outcome (edge_at d j) |\<in>| fmdom (mget fmempty (Edges c) (e_from (edge_at d j))))"

definition nodesPresent :: "Definition \<Rightarrow> Checkpoint \<Rightarrow> bool" where
  "nodesPresent d c \<longleftrightarrow> (\<forall>i<n_nodes d. node_id d i |\<in>| fmdom (Nodes c))"

definition settlePre :: "Definition \<Rightarrow> nat \<Rightarrow> Checkpoint \<Rightarrow> bool" where
  "settlePre d a c \<longleftrightarrow>
     wf_definition d \<and> a < n_nodes d \<and> n_parent (node_at d a) = None \<and>
     st d c a \<noteq> NodePending \<and> nodesPresent d c \<and> edgesPresent d c \<and>
     (\<forall>p<n_nodes d. st d c p = NodePending \<longrightarrow>
        (\<forall>i\<in>set (n_children (node_at d p)). st d c i = NodePending)) \<and>
     (\<forall>s i. isSub d s \<longrightarrow> (st d c s = NodePending \<or> st d c s = NodeReady) \<longrightarrow>
        inBody d s i \<longrightarrow> st d c i = NodePending)"

section \<open>Consequences of well-formedness\<close>

lemma inBody_bounds:
  "wf_definition d \<Longrightarrow> isSub d s \<Longrightarrow> inBody d s i \<longleftrightarrow> s < i \<and> i < the (n_scopeEnd (node_at d s)) "
  using wf_nodeD [of d s]
  by (auto simp: inBody_def bodyRange_def isSub_def wf_node_def wf_subprocess_def Let_def
      split: option.splits)

lemma inBody_less:
  "wf_definition d \<Longrightarrow> isSub d s \<Longrightarrow> inBody d s i \<Longrightarrow> i < n_nodes d"
  using wf_nodeD [of d s]
  by (auto simp: inBody_def bodyRange_def isSub_def wf_node_def wf_subprocess_def Let_def
      split: option.splits)

lemma inBody_nested:
  "wf_definition d \<Longrightarrow> isSub d s \<Longrightarrow> isSub d t \<Longrightarrow> inBody d s i \<Longrightarrow> inBody d t i \<Longrightarrow>
   s = t \<or> inBody d s t \<or> inBody d t s"
  by (auto simp: inBody_bounds)

lemma sameScopesD: "sameScopes d i j \<Longrightarrow> isSub d s \<Longrightarrow> inBody d s i \<longleftrightarrow> inBody d s j"
  by (auto simp: sameScopes_iff isSub_def)

lemma sameScopes_trans: "sameScopes d i j \<Longrightarrow> sameScopes d j k \<Longrightarrow> sameScopes d i k"
  by (auto simp: sameScopes_iff)

lemma sameScopes_refl [simp]: "sameScopes d i i"
  by (simp add: sameScopes_iff)

lemma outgoing_edge:
  assumes "wf_definition d" "i < n_nodes d" "j \<in> set (n_outgoing (node_at d i))"
  shows "j < length (d_edges d)" "e_fromIndex (edge_at d j) = i"
    "e_toIndex (edge_at d j) < n_nodes d" "n_parent (node_at d (e_toIndex (edge_at d j))) = None"
    "n_parent (node_at d i) = None"
    "e_from (edge_at d j) = node_id d i"
    "sameScopes d i (e_toIndex (edge_at d j))"
  using wf_nodeD [OF assms(1,2)] assms(3) wf_edgeD [OF assms(1), of j]
  by (auto simp: wf_node_def wf_edge_def Let_def list_all_iff)

lemma exit_edge:
  assumes "wf_definition d" "i < n_nodes d" "li \<in> set (n_sourceOf (node_at d i))"
    "j \<in> set (l_exits (loop_at d li))"
  shows "j < length (d_edges d)" "sameScopes d i (e_toIndex (edge_at d j))"
    "e_toIndex (edge_at d j) < n_nodes d" "n_parent (node_at d (e_toIndex (edge_at d j))) = None"
proof -
  from wf_nodeD [OF assms(1,2)] assms(3) have li: "li < length (d_loops d)" "l_from (loop_at d li) = i"
    by (auto simp: wf_node_def Let_def list_all_iff)
  from wf_loopD [OF assms(1) li(1)] assms(4) li(2)
  show j: "j < length (d_edges d)" and "sameScopes d i (e_toIndex (edge_at d j))"
    by (auto simp: wf_loop_def Let_def list_all_iff)
  from wf_edgeD [OF assms(1) j]
  show "e_toIndex (edge_at d j) < n_nodes d" "n_parent (node_at d (e_toIndex (edge_at d j))) = None"
    by (auto simp: wf_edge_def Let_def)
qed

lemma child_wf:
  assumes "wf_definition d" "p < n_nodes d" "i \<in> set (n_children (node_at d p))"
  shows "wf_child d p i" "n_kind (node_at d p) = definitionCompound"
  using wf_nodeD [OF assms(1,2)] assms(3)
  by (auto simp: wf_node_def Let_def wf_compound_def split: if_splits)

lemma child_facts:
  assumes "wf_definition d" "p < n_nodes d" "i \<in> set (n_children (node_at d p))"
  shows "i < n_nodes d" "n_parent (node_at d i) = Some p" "sameScopes d p i"
    "n_kind (node_at d p) = definitionCompound" "n_parent (node_at d p) = None"
  using child_wf [OF assms] wf_nodeD [OF assms(1,2)]
  by (auto simp: wf_child_def wf_compound_def wf_node_def Let_def)

section \<open>Primitive updates\<close>

lemma sameDomains_refl [simp]: "sameDomains c c"
  by (simp add: sameDomains_def)

lemma sameDomains_trans: "sameDomains a b \<Longrightarrow> sameDomains b c \<Longrightarrow> sameDomains a c"
  by (simp add: sameDomains_def)

lemma sameDomains_present:
  "sameDomains c c' \<Longrightarrow> nodesPresent d c \<Longrightarrow> nodesPresent d c'"
  "sameDomains c c' \<Longrightarrow> edgesPresent d c \<Longrightarrow> edgesPresent d c'"
  by (auto simp: sameDomains_def nodesPresent_def edgesPresent_def)

lemma sameDomains_setNode:
  "nodesPresent d c \<Longrightarrow> i < n_nodes d \<Longrightarrow> sameDomains c (setNode (node_id d i) x c)"
  by (auto simp: sameDomains_def setNode_def nodesPresent_def)

lemma sameDomains_setEdge:
  "edgesPresent d c \<Longrightarrow> j < length (d_edges d) \<Longrightarrow>
   sameDomains c (setEdge (e_from (edge_at d j)) (e_outcome (edge_at d j)) x c)"
  by (auto simp: sameDomains_def setEdge_def mput2_def edgesPresent_def)

lemma awaits_addObligation:
  "awaits.keys (addObligation k c) = insert k (awaits.keys c)"
  "awaits.canonical c \<Longrightarrow> awaits.canonical (addObligation k c)"
  using awaits.keys_put [of "\<lparr>do_NodeID = k\<rparr>" c] awaits.canonical_put [of c "\<lparr>do_NodeID = k\<rparr>"]
  by simp_all

lemma addObligation_frame [simp]:
  "nodeStatus (addObligation k c) n = nodeStatus c n"
  "edgeDisp (addObligation k c) f oc = edgeDisp c f oc"
  "attempts (addObligation k c) n = attempts c n"
  "iterations (addObligation k c) f oc = iterations c f oc"
  "Version (addObligation k c) = Version c" "RunID (addObligation k c) = RunID c"
  "Status (addObligation k c) = Status c" "Nodes (addObligation k c) = Nodes c"
  "Attempts (addObligation k c) = Attempts c" "Edges (addObligation k c) = Edges c"
  "Commands (addObligation k c) = Commands c" "Blocked (addObligation k c) = Blocked c"
  "AttemptCeilings (addObligation k c) = AttemptCeilings c"
  "Iterations (addObligation k c) = Iterations c"
  by (simp_all add: addObligation_def nodeStatus_def edgeDisp_def attempts_def iterations_def)

lemma Nodes_setNode [simp]: "Nodes (setNode k x c) = fmupd k x (Nodes c)"
  by (simp add: setNode_def)

lemma awaits_setNode [simp]:
  "awaits.keys (setNode k x c) = awaits.keys c" "awaits.canonical (setNode k x c) = awaits.canonical c"
  "awaits.keys (setEdge f oc e c) = awaits.keys c" "awaits.canonical (setEdge f oc e c) = awaits.canonical c"
  by (simp_all add: awaits.keys_def awaits.canonical_def)

lemma activate_facts:
  "nodeStatus (activate n c) k = (if k = n_id n then NodeReady else nodeStatus c k)"
  "edgeDisp (activate n c) f oc = edgeDisp c f oc"
  "sameRest c (activate n c)"
  "awaits.keys (activate n c) = (if awaitsHuman n then insert (n_id n) (awaits.keys c) else awaits.keys c)"
  "awaits.canonical c \<Longrightarrow> awaits.canonical (activate n c)"
  "Nodes (activate n c) = fmupd (n_id n) NodeReady (Nodes c)"
  "Edges (activate n c) = Edges c"
  by (simp_all add: activate_def Let_def sameRest_def awaits_addObligation)

lemma sameDomains_activate:
  "nodesPresent d c \<Longrightarrow> i < n_nodes d \<Longrightarrow> sameDomains c (activate (node_at d i) c)"
  by (auto simp: sameDomains_def activate_facts nodesPresent_def)

section \<open>Skipping\<close>

text \<open>The effect of writing a set of nodes to skipped and closing some edges.\<close>

definition skipRel :: "string set \<Rightarrow> Checkpoint \<Rightarrow> Checkpoint \<Rightarrow> bool" where
  "skipRel K c c' \<longleftrightarrow>
     sameRest c c' \<and> AwaitingDecisions c' = AwaitingDecisions c \<and>
     (\<forall>k. nodeStatus c' k = (if k \<in> K then NodeSkipped else nodeStatus c k)) \<and>
     (\<forall>f oc. edgeDisp c' f oc = edgeDisp c f oc \<or> edgeDisp c' f oc = EdgeNotTaken)"

lemma skipRel_trans: "skipRel K a b \<Longrightarrow> skipRel L b c \<Longrightarrow> skipRel (K \<union> L) a c"
  by (simp add: skipRel_def sameRest_def) metis

lemma skipRel_setNode: "skipRel {k} c (setNode k NodeSkipped c)"
  by (simp add: skipRel_def sameRest_def)

lemma skipRel_setNodes:
  "skipRel ((\<lambda>i. node_id d i) ` set is) c (setNodes d NodeSkipped is c)"
  by (simp add: skipRel_def sameRest_def)

lemma sameDomains_setNodes:
  "nodesPresent d c \<Longrightarrow> \<forall>i\<in>set is. i < n_nodes d \<Longrightarrow> sameDomains c (setNodes d x is c)"
proof (induction "is" arbitrary: c)
  case Nil
  then show ?case by (simp add: setNodes_def)
next
  case (Cons i "is")
  have "sameDomains c (setNode (node_id d i) x c)" using Cons.prems by (simp add: sameDomains_setNode)
  moreover from this have "sameDomains (setNode (node_id d i) x c) (setNodes d x is (setNode (node_id d i) x c))"
    using Cons.prems by (intro Cons.IH) (auto dest: sameDomains_present)
  ultimately show ?case by (simp add: setNodes_def sameDomains_trans)
qed

lemma closeBodyEdge_rel:
  assumes "closeBodyEdge d j c = Inr c'" "edgesPresent d c" "j < length (d_edges d)"
  shows "skipRel {} c c' \<and> sameDomains c c'"
  using assms sameDomains_setEdge [OF assms(2,3), of EdgeNotTaken]
  by (auto simp: closeBodyEdge_def Let_def skipRel_def sameRest_def split: if_splits)

lemma closeBodyEdges_rel:
  assumes "foldR (closeBodyEdge d) js c = Inr c'" "edgesPresent d c"
    "\<forall>j\<in>set js. j < length (d_edges d)"
  shows "skipRel {} c c' \<and> sameDomains c c'"
proof (rule foldR_invariant [where P = "\<lambda>x. skipRel {} c x \<and> sameDomains c x", OF assms(1)])
  show "skipRel {} c c \<and> sameDomains c c" by (simp add: skipRel_def sameRest_def)
next
  fix j x y
  assume j: "j \<in> set js" and x: "skipRel {} c x \<and> sameDomains c x" and y: "closeBodyEdge d j x = Inr y"
  from x assms(2) have "edgesPresent d x" by (auto dest: sameDomains_present)
  with closeBodyEdge_rel [OF y] j assms(3) have "skipRel {} x y \<and> sameDomains x y" by blast
  with x show "skipRel {} c y \<and> sameDomains c y"
    using skipRel_trans [of "{}" c x "{}" y] by (auto intro: sameDomains_trans)
qed

lemma skipBodyNode_rel:
  assumes "skipBodyNode d i c = Inr c'" "wf_definition d" "i < n_nodes d"
    "edgesPresent d c" "nodesPresent d c"
  shows "skipRel {node_id d i} c c' \<and> sameDomains c c'"
proof -
  let ?c1 = "setNode (node_id d i) NodeSkipped c"
  have dom: "sameDomains c ?c1" using assms(3,5) by (rule_tac sameDomains_setNode)
  have "skipRel {} ?c1 c' \<and> sameDomains ?c1 c'"
    using assms dom outgoing_edge(1) [OF assms(2,3)]
    by (intro closeBodyEdges_rel [of d "n_outgoing (node_at d i)"])
      (auto simp: skipBodyNode_def dest: sameDomains_present)
  with dom skipRel_setNode [of "node_id d i" c] show ?thesis
    using skipRel_trans [of "{node_id d i}" c ?c1 "{}" c'] by (auto intro: sameDomains_trans)
qed

lemma skipBodyNodes_rel:
  assumes "foldR (skipBodyNode d) is c = Inr c'" "wf_definition d" "\<forall>i\<in>set is. i < n_nodes d"
    "edgesPresent d c" "nodesPresent d c"
  shows "skipRel (node_id d ` set is) c c' \<and> sameDomains c c'"
  using assms
proof (induction "is" arbitrary: c)
  case Nil
  then show ?case by (simp add: skipRel_def sameRest_def)
next
  case (Cons i "is")
  then obtain x where x: "skipBodyNode d i c = Inr x" "foldR (skipBodyNode d) is x = Inr c'"
    by (auto simp: bindR_Inr_iff)
  from skipBodyNode_rel [OF x(1)] Cons.prems have i: "skipRel {node_id d i} c x" "sameDomains c x"
    by auto
  with Cons.prems have "skipRel (node_id d ` set is) x c' \<and> sameDomains x c'"
    by (intro Cons.IH [OF x(2)]) (auto dest: sameDomains_present)
  with i show ?case
    using skipRel_trans [of "{node_id d i}" c x "node_id d ` set is" c'] by (auto intro: sameDomains_trans)
qed

text \<open>The nodes a skipped target takes with it: itself, its stages, its body.\<close>

definition skipSet :: "Definition \<Rightarrow> nat \<Rightarrow> nat set" where
  "skipSet d t = insert t (set (n_children (node_at d t)) \<union>
     (if n_kind (node_at d t) = definitionSubprocess then set (bodyRange d t) else {}))"

lemma skipSet_less:
  "wf_definition d \<Longrightarrow> t < n_nodes d \<Longrightarrow> i \<in> skipSet d t \<Longrightarrow> i < n_nodes d"
  using inBody_less [of d t i] child_facts(1) [of d t i]
  by (auto simp: skipSet_def isSub_def inBody_def split: if_splits)

lemma skipWhole_rel:
  assumes "wf_definition d" "t < n_nodes d" "nodesPresent d c" "edgesPresent d c"
    and c1: "c1 = skipChildren d (n_children (node_at d t)) (setNode (node_id d t) NodeSkipped c)"
    and c2: "(if n_kind (node_at d t) = definitionSubprocess then skipSubprocessBody d t c1 else Inr c1) = Inr c2"
  shows "skipRel (node_id d ` skipSet d t) c c2 \<and> sameDomains c c2"
proof -
  let ?ch = "n_children (node_at d t)" and ?c0 = "setNode (node_id d t) NodeSkipped c"
  have d0: "sameDomains c ?c0" using assms(2,3) by (rule_tac sameDomains_setNode)
  have "sameDomains ?c0 c1"
    unfolding c1 skipChildren_setNodes
    using sameDomains_present(1) [OF d0 assms(3)] child_facts(1) [OF assms(1,2)]
    by (intro sameDomains_setNodes) auto
  with d0 have d1: "sameDomains c c1" by (rule sameDomains_trans)
  have r1: "skipRel ({node_id d t} \<union> node_id d ` set ?ch) c c1"
    unfolding c1 skipChildren_setNodes by (intro skipRel_trans [OF skipRel_setNode skipRel_setNodes])
  show ?thesis
  proof (cases "n_kind (node_at d t) = definitionSubprocess")
    case False
    with c2 r1 d1 show ?thesis by (simp add: skipSet_def)
  next
    case True
    then have "\<forall>i\<in>set (bodyRange d t). i < n_nodes d"
      using inBody_less [OF assms(1), of t] assms(2) by (auto simp: isSub_def inBody_def)
    with True c2 d1 assms have "skipRel (node_id d ` set (bodyRange d t)) c1 c2 \<and> sameDomains c1 c2"
      by (intro skipBodyNodes_rel) (auto simp: skipSubprocessBody_def dest: sameDomains_present)
    with skipRel_trans [OF r1] d1 True show ?thesis
      by (auto simp: skipSet_def Un_assoc image_Un intro: sameDomains_trans)
  qed
qed

section \<open>The relation is kept by every update of the pass\<close>

text \<open>A target of the pass: an authored node in the same bodies as the completing node.\<close>

definition passTarget :: "Definition \<Rightarrow> nat \<Rightarrow> nat \<Rightarrow> bool" where
  "passTarget d a t \<longleftrightarrow> t < n_nodes d \<and> n_parent (node_at d t) = None \<and> sameScopes d a t"

lemma settleRel_present:
  assumes "settlePre d a c" "settleRel d a c c1"
  shows "nodesPresent d c1" "edgesPresent d c1"
proof -
  have "sameDomains c c1" "nodesPresent d c" "edgesPresent d c"
    using assms unfolding settlePre_def settleRel_def by blast+
  then show "nodesPresent d c1" "edgesPresent d c1" by (simp_all add: sameDomains_present)
qed

lemma settleRel_pending:
  "settleRel d a c c1 \<Longrightarrow> st d c1 t = NodePending \<Longrightarrow> t < n_nodes d \<Longrightarrow> t \<noteq> a \<and> st d c t = NodePending"
  unfolding settleRel_def by (metis NodeStatus.distinct NodeStatus.simps)

lemma settleRel_edge:
  assumes "settleRel d a c c1" "edgesPresent d c1" "j < length (d_edges d)" "knownDisposition x"
  shows "settleRel d a c (setEdge (e_from (edge_at d j)) (e_outcome (edge_at d j)) x c1)"
proof -
  let ?c2 = "setEdge (e_from (edge_at d j)) (e_outcome (edge_at d j)) x c1"
  have "sameDomains c ?c2"
    using assms(1) sameDomains_trans [OF _ sameDomains_setEdge [OF assms(2,3), of x]]
    unfolding settleRel_def by blast
  moreover have "edgeDisp ?c2 f oc = edgeDisp c f oc \<or> knownDisposition (edgeDisp ?c2 f oc)" for f oc
    using assms(1,4) unfolding settleRel_def edgeDisp_setEdge by presburger
  moreover have "sameRest c ?c2" using assms(1) unfolding settleRel_def sameRest_def setEdge_frame by blast
  ultimately show ?thesis using assms(1) by (simp only: settleRel_def setEdge_frame awaits_setNode) blast
qed

text \<open>No body around a target is the body of a subprocess that has not started.\<close>

lemma passTarget_outside:
  assumes "settlePre d a c" "passTarget d a t" "isSub d s" "st d c s = NodePending \<or> st d c s = NodeReady"
  shows "\<not> inBody d s t"
  using assms sameScopesD [of d a t s] unfolding settlePre_def passTarget_def by metis

lemma settleRel_activate:
  assumes pre: "settlePre d a c" and rel: "settleRel d a c c1"
    and t: "passTarget d a t" and pend: "st d c1 t = NodePending"
  shows "settleRel d a c (activate (node_at d t) c1)"
proof -
  let ?c2 = "activate (node_at d t) c1"
  note wf = pre [unfolded settlePre_def, THEN conjunct1]
  have t': "t < n_nodes d" "n_parent (node_at d t) = None" using t by (simp_all add: passTarget_def)
  have ta: "t \<noteq> a" "st d c t = NodePending" using settleRel_pending [OF rel pend t'(1)] by simp_all
  have st: "st d ?c2 i = (if i = t then NodeReady else st d c1 i)" if "i < n_nodes d" for i
    using that t'(1) wf by (simp add: activate_facts node_id_inj)
  have a: "a < n_nodes d" using pre by (simp add: settlePre_def)
  define R where "R c' = {node_id d i | i. i < n_nodes d \<and> i \<noteq> a \<and> awaitsHuman (node_at d i) \<and>
      st d c i = NodePending \<and> st d c' i = NodeReady}" for c'
  have R: "R ?c2 = R c1 \<union> (if awaitsHuman (node_at d t) then {node_id d t} else {})"
    unfolding R_def using ta t'(1) pend by (auto simp: st split: if_splits)
  moreover have "awaits.keys c1 = awaits.keys c \<union> R c1"
    using rel unfolding settleRel_def R_def by blast
  ultimately have keys: "awaits.keys ?c2 = awaits.keys c \<union> R ?c2"
    unfolding activate_facts(4) by auto
  have kids: "st d ?c2 i = st d c i \<or> st d ?c2 p = NodeSkipped"
    if "p < n_nodes d" "i \<in> set (n_children (node_at d p))" for p i
  proof -
    have "i < n_nodes d" "i \<noteq> t" using child_facts [OF wf that] t'(2) by auto
    moreover have "st d c1 i = st d c i \<or> st d c1 p = NodeSkipped" using rel that by (auto simp: settleRel_def)
    ultimately show ?thesis using that(1) pend by (auto simp: st)
  qed
  have body: "st d ?c2 i = st d c i" if "isSub d s" "s \<noteq> a" "st d c s = NodePending \<or> st d c s = NodeReady"
    "st d ?c2 s \<noteq> NodeSkipped" "inBody d s i" for s i
  proof -
    have "i \<noteq> t" using passTarget_outside [OF pre t that(1,3)] that(5) by blast
    moreover have "st d c1 s \<noteq> NodeSkipped" using that(1,4) pend by (auto simp: st isSub_def split: if_splits)
    then have "st d c1 i = st d c i" using rel that unfolding settleRel_def by blast
    ultimately show ?thesis using inBody_less [OF wf that(1,5)] by (simp add: st)
  qed
  show ?thesis
    unfolding settleRel_def
  proof (intro conjI)
    show "sameRest c ?c2" using rel activate_facts(3) [of c1] by (auto simp: settleRel_def sameRest_def)
    show "sameDomains c ?c2"
      using rel sameDomains_activate [OF settleRel_present(1) [OF pre rel] t'(1)]
      by (auto simp: settleRel_def intro: sameDomains_trans)
    show "\<forall>i<n_nodes d. i \<noteq> a \<longrightarrow> st d ?c2 i = st d c i \<or> st d c i = NodePending \<and>
        (st d ?c2 i = NodeReady \<and> n_parent (node_at d i) = None \<or> st d ?c2 i = NodeSkipped)"
      using rel ta t'(2) by (auto simp: settleRel_def st)
    show "st d ?c2 a = NodeDone" using rel ta(1) a by (simp add: settleRel_def st)
    show "awaits.canonical c \<longrightarrow> awaits.canonical ?c2" using rel by (auto simp: settleRel_def activate_facts)
    show "\<forall>f oc. edgeDisp ?c2 f oc = edgeDisp c f oc \<or> knownDisposition (edgeDisp ?c2 f oc)"
      using rel unfolding settleRel_def activate_facts(2) by blast
  qed (use keys kids body in \<open>unfold R_def, blast+\<close>)
qed

lemma skipSet_pending:
  assumes pre: "settlePre d a c" and rel: "settleRel d a c c1"
    and t: "passTarget d a t" and pend: "st d c1 t = NodePending" and i: "i \<in> skipSet d t"
  shows "i < n_nodes d \<and> i \<noteq> a \<and> st d c i = NodePending"
proof -
  have wf: "wf_definition d" and t': "t < n_nodes d" using pre t by (simp_all add: settlePre_def passTarget_def)
  have ta: "t \<noteq> a" "st d c t = NodePending" using settleRel_pending [OF rel pend t'] by simp_all
  have na: "n_parent (node_at d a) = None" "st d c a \<noteq> NodePending" using pre by (simp_all add: settlePre_def)
  consider "i = t" | "i \<in> set (n_children (node_at d t))" | "isSub d t" "inBody d t i"
    using i t' by (auto simp: skipSet_def isSub_def inBody_def split: if_splits)
  then have "st d c i = NodePending"
  proof cases
    case 1
    then show ?thesis using ta by simp
  next
    case 2
    then show ?thesis using pre ta t' by (auto simp: settlePre_def)
  next
    case 3
    then show ?thesis using pre ta t' unfolding settlePre_def by blast
  qed
  with na skipSet_less [OF wf t' i] show ?thesis by auto
qed

lemma skipSet_closed:
  assumes wf: "wf_definition d" and t: "t < n_nodes d" "n_parent (node_at d t) = None"
    and p: "p < n_nodes d" "i \<in> set (n_children (node_at d p))" and i: "i \<in> skipSet d t"
  shows "p \<in> skipSet d t"
proof -
  note c = child_facts [OF wf p]
  consider "i = t" | "i \<in> set (n_children (node_at d t))" | "isSub d t" "inBody d t i"
    using i t by (auto simp: skipSet_def isSub_def inBody_def split: if_splits)
  then show ?thesis
  proof cases
    case 1
    with c(2) t(2) show ?thesis by simp
  next
    case 2
    with child_facts(2) [OF wf t(1)] c(2) show ?thesis by (auto simp: skipSet_def)
  next
    case 3
    with sameScopesD [OF c(3)] have "inBody d t p" by blast
    with 3 show ?thesis by (auto simp: skipSet_def inBody_def isSub_def)
  qed
qed

lemma skipSet_body_disjoint:
  assumes pre: "settlePre d a c" and t: "passTarget d a t"
    and s: "isSub d s" "st d c s = NodePending \<or> st d c s = NodeReady" "s \<notin> skipSet d t" "inBody d s i"
  shows "i \<notin> skipSet d t"
proof
  assume i: "i \<in> skipSet d t"
  have wf: "wf_definition d" and t': "t < n_nodes d" using pre t by (simp_all add: settlePre_def passTarget_def)
  have out: "\<not> inBody d s t" by (rule passTarget_outside [OF pre t s(1,2)])
  consider "i = t" | "i \<in> set (n_children (node_at d t))" | "isSub d t" "inBody d t i"
    using i t' by (auto simp: skipSet_def isSub_def inBody_def split: if_splits)
  then show False
  proof cases
    case 1
    with out s(4) show False by simp
  next
    case 2
    with sameScopesD [OF child_facts(3) [OF wf t' 2] s(1)] out s(4) show False by simp
  next
    case 3
    with inBody_nested [OF wf s(1) 3(1) s(4) 3(2)] out have "s \<in> skipSet d t"
      by (auto simp: skipSet_def inBody_def isSub_def)
    with s(3) show False by simp
  qed
qed

lemma settleRel_skip:
  assumes pre: "settlePre d a c" and rel: "settleRel d a c c1"
    and t: "passTarget d a t" and pend: "st d c1 t = NodePending"
    and sk: "skipRel (node_id d ` skipSet d t) c1 c2" and dom: "sameDomains c1 c2"
  shows "settleRel d a c c2"
proof -
  have wf: "wf_definition d" and t': "t < n_nodes d" "n_parent (node_at d t) = None" and a: "a < n_nodes d"
    using pre t by (simp_all add: settlePre_def passTarget_def)
  note sp = skipSet_pending [OF pre rel t pend]
  have mem: "node_id d i \<in> node_id d ` skipSet d t \<longleftrightarrow> i \<in> skipSet d t" if "i < n_nodes d" for i
    using that node_id_inj [OF wf that] sp by auto
  have st: "st d c2 i = (if i \<in> skipSet d t then NodeSkipped else st d c1 i)" if "i < n_nodes d" for i
    using sk mem [OF that] by (simp add: skipRel_def)
  have aw: "awaits.keys c2 = awaits.keys c1" "awaits.canonical c2 = awaits.canonical c1"
    using sk by (simp_all add: skipRel_def awaits.keys_def awaits.canonical_def)
  have unready: "i \<notin> skipSet d t" if "st d c1 i = NodeReady" "i < n_nodes d" for i
  proof
    assume i: "i \<in> skipSet d t"
    have c: "st d c1 i = st d c i" if "i \<noteq> t"
    proof -
      from i that consider "i \<in> set (n_children (node_at d t))" | "isSub d t" "inBody d t i"
        using t' by (auto simp: skipSet_def isSub_def inBody_def split: if_splits)
      then show ?thesis
      proof cases
        case 1
        then show ?thesis using rel pend t'(1) unfolding settleRel_def by fastforce
      next
        case 2
        have "t \<noteq> a" "st d c t = NodePending" using settleRel_pending [OF rel pend t'(1)] by simp_all
        with 2 show ?thesis using rel pend t'(1) unfolding settleRel_def by fastforce
      qed
    qed
    show False using c sp [OF i] that(1) pend by (cases "i = t") auto
  qed
  have body: "st d c2 i = st d c i" if "isSub d s" "s \<noteq> a" "st d c s = NodePending \<or> st d c s = NodeReady"
    "st d c2 s \<noteq> NodeSkipped" "inBody d s i" for s i
  proof -
    have s: "s < n_nodes d" using that(1) by (simp add: isSub_def)
    have ns: "s \<notin> skipSet d t" using that(4) st [OF s] by auto
    with skipSet_body_disjoint [OF pre t that(1,3) _ that(5)] have "i \<notin> skipSet d t" by blast
    moreover have "st d c1 s \<noteq> NodeSkipped" using that(4) st [OF s] ns by simp
    then have "st d c1 i = st d c i" using rel that unfolding settleRel_def by blast
    ultimately show ?thesis using st [OF inBody_less [OF wf that(1,5)]] by simp
  qed
  show ?thesis
    unfolding settleRel_def
  proof (intro conjI)
    show "sameRest c c2" using rel sk by (auto simp: settleRel_def skipRel_def sameRest_def)
    show "sameDomains c c2" using rel dom by (auto simp: settleRel_def intro: sameDomains_trans)
    show "\<forall>f oc. edgeDisp c2 f oc = edgeDisp c f oc \<or> knownDisposition (edgeDisp c2 f oc)"
      using rel sk unfolding settleRel_def skipRel_def by (metis knownDisposition.simps(4))
    show "st d c2 a = NodeDone" using rel a sp st by (auto simp: settleRel_def)
    show "\<forall>i<n_nodes d. i \<noteq> a \<longrightarrow> st d c2 i = st d c i \<or> st d c i = NodePending \<and>
        (st d c2 i = NodeReady \<and> n_parent (node_at d i) = None \<or> st d c2 i = NodeSkipped)"
      using rel sp by (auto simp: settleRel_def st)
    show "awaits.canonical c \<longrightarrow> awaits.canonical c2" using rel aw by (simp add: settleRel_def)
    show "awaits.keys c2 = awaits.keys c \<union> {node_id d i | i. i < n_nodes d \<and> i \<noteq> a \<and>
        awaitsHuman (node_at d i) \<and> st d c i = NodePending \<and> st d c2 i = NodeReady}"
      using rel aw unready unfolding settleRel_def by (auto simp: st split: if_splits) 
    show "\<forall>p<n_nodes d. \<forall>i\<in>set (n_children (node_at d p)). st d c2 i = st d c i \<or> st d c2 p = NodeSkipped"
      using rel skipSet_closed [OF wf t'] child_facts(1) [OF wf] unfolding settleRel_def by (auto simp: st)
    show "\<forall>s i. isSub d s \<longrightarrow> s \<noteq> a \<longrightarrow> (st d c s = NodePending \<or> st d c s = NodeReady) \<longrightarrow>
        st d c2 s \<noteq> NodeSkipped \<longrightarrow> inBody d s i \<longrightarrow> st d c2 i = st d c i"
      using body by blast
  qed
qed

section \<open>The pass\<close>

text \<open>Every state of the pass is related to its start, and its queue holds only targets.\<close>

definition passInv :: "Definition \<Rightarrow> nat \<Rightarrow> Checkpoint \<Rightarrow> settling \<Rightarrow> bool" where
  "passInv d a c s \<longleftrightarrow> settleRel d a c (s_next s) \<and> (\<forall>t\<in>set (s_queue s). passTarget d a t)"

lemma settleEdge_pass:
  assumes pre: "settlePre d a c" and inv: "passInv d a c s"
    and s': "settleEdge d ei disp s = Inr s'" and disp: "knownDisposition disp"
    and t: "passTarget d a (e_toIndex (edge_at d ei))"
  shows "passInv d a c s'"
  using s'
proof (cases rule: settleEdge_cases)
  case deferred
  then show ?thesis using inv by simp
next
  case (settled disp')
  have rel: "settleRel d a c (s_next s)" using inv by (simp add: passInv_def)
  have "knownDisposition disp'" using settled(4) disp by (simp add: effectiveDisposition_def)
  from settleRel_edge [OF rel settleRel_present(2) [OF pre rel] settled(1) this] settled(5,6) inv t
  show ?thesis by (simp add: passInv_def)
qed

lemma passTarget_outgoing:
  "wf_definition d \<Longrightarrow> passTarget d a t \<Longrightarrow> ei \<in> set (n_outgoing (node_at d t)) \<Longrightarrow>
   passTarget d a (e_toIndex (edge_at d ei))"
  using outgoing_edge [of d t ei] by (auto simp: passTarget_def intro: sameScopes_trans)

lemma passTarget_exit:
  "wf_definition d \<Longrightarrow> passTarget d a t \<Longrightarrow> li \<in> set (n_sourceOf (node_at d t)) \<Longrightarrow>
   ei \<in> set (l_exits (loop_at d li)) \<Longrightarrow> passTarget d a (e_toIndex (edge_at d ei))"
  using exit_edge [of d t li ei] by (auto simp: passTarget_def intro: sameScopes_trans)

lemma settlePre_wf: "settlePre d a c \<Longrightarrow> wf_definition d"
  by (simp add: settlePre_def)

lemma knownDisposition_disposition [simp]: "knownDisposition (disposition arr oc)"
  by (cases arr) simp_all

lemma settleOutgoing_pass:
  assumes pre: "settlePre d a c" and inv: "passInv d a c s" and t: "passTarget d a t"
    and s': "settleOutgoing d arr (n_outgoing (node_at d t)) s = Inr s'"
  shows "passInv d a c s'"
  by (rule foldR_invariant [where P = "passInv d a c", OF s' [unfolded settleOutgoing_def] inv])
    (erule (1) settleEdge_pass [OF pre];
      simp add: passTarget_outgoing [OF settlePre_wf [OF pre] t])

lemma closeOutgoing_pass:
  assumes pre: "settlePre d a c" and inv: "passInv d a c s" and t: "passTarget d a t"
    and s': "closeOutgoing d (n_outgoing (node_at d t)) s = Inr s'"
  shows "passInv d a c s'"
  by (rule foldR_invariant [where P = "passInv d a c", OF s' [unfolded closeOutgoing_def] inv])
    (erule (1) settleEdge_pass [OF pre];
      simp add: passTarget_outgoing [OF settlePre_wf [OF pre] t])

lemma closeExit_pass:
  assumes pre: "settlePre d a c" and inv: "passInv d a c s"
    and t: "passTarget d a (e_toIndex (edge_at d ei))" and s': "closeExit d ei s = Inr s'"
  shows "passInv d a c s'"
  using s' inv settleEdge_pass [OF pre inv _ _ t] by (auto simp: closeExit_def split: if_splits)

lemma closeLoopExits_pass:
  assumes pre: "settlePre d a c" and inv: "passInv d a c s" and t: "passTarget d a t"
    and s': "closeLoopExits d t s = Inr s'"
  shows "passInv d a c s'"
proof (rule foldR_invariant [where P = "passInv d a c", OF s' [unfolded closeLoopExits_def] inv])
  fix li x y
  assume li: "li \<in> set (n_sourceOf (node_at d t))" and x: "passInv d a c x"
    and y: "foldR (closeExit d) (l_exits (loop_at d li)) x = Inr y"
  show "passInv d a c y"
    by (rule foldR_invariant [where P = "passInv d a c", OF y x])
      (erule (1) closeExit_pass [OF pre, rotated 2];
        simp add: passTarget_exit [OF settlePre_wf [OF pre] t li])
qed

lemma skipTarget_pass:
  assumes pre: "settlePre d a c" and inv: "passInv d a c s" and t: "passTarget d a t"
    and pend: "st d (s_next s) t = NodePending" and s': "skipTarget d t s = Inr s'"
  shows "passInv d a c s'"
proof -
  let ?c1 = "skipChildren d (n_children (node_at d t)) (setNode (node_id d t) NodeSkipped (s_next s))"
  from s' obtain c2 s2 where
      c2: "(if n_kind (node_at d t) = definitionSubprocess then skipSubprocessBody d t ?c1 else Inr ?c1) = Inr c2"
    and s2: "closeOutgoing d (n_outgoing (node_at d t)) (s\<lparr>s_next := c2\<rparr>) = Inr s2"
    and last: "closeLoopExits d t s2 = Inr s'"
    by (auto simp: skipTarget_def Let_def bindR_Inr_iff)
  have rel: "settleRel d a c (s_next s)" using inv by (simp add: passInv_def)
  have "t < n_nodes d" using t by (simp add: passTarget_def)
  from skipWhole_rel [OF settlePre_wf [OF pre] this settleRel_present [OF pre rel] refl c2]
  have "settleRel d a c c2" using settleRel_skip [OF pre rel t pend] by blast
  with inv have "passInv d a c (s\<lparr>s_next := c2\<rparr>)" by (simp add: passInv_def)
  from closeLoopExits_pass [OF pre closeOutgoing_pass [OF pre this t s2] t last] show ?thesis .
qed

lemma target_results:
  "(if p then Inr x else if q then Inr y else if r then f else if u then Inr x else Inl e) = Inr s' \<Longrightarrow>
   s' = y \<or> s' = x \<or> f = Inr s'"
  by (auto split: if_splits)

lemma settleTarget_pass:
  assumes pre: "settlePre d a c" and inv: "passInv d a c s" and t: "passTarget d a t"
    and s': "settleTarget d t s = Inr s'"
  shows "passInv d a c s'"
proof (cases "st d (s_next s) t = NodePending")
  case False
  then show ?thesis using s' inv by (simp add: settleTarget_def)
next
  case True
  define k where "k = (case fmlookup (s_touched s) t of
      Some k \<Rightarrow> k | None \<Rightarrow> countDispositions (s_next s) d (n_incoming (node_at d t)))"
  let ?s = "s\<lparr>s_touched := fmupd t k (s_touched s)\<rparr>"
  have inv': "passInv d a c ?s" using inv by (simp add: passInv_def)
  have act: "passInv d a c (?s\<lparr>s_next := activate (node_at d t) (s_next s)\<rparr>)"
    using inv settleRel_activate [OF pre _ t True] by (simp add: passInv_def)
  have "settleTarget d t s =
    (if n_joinAny (node_at d t) \<and> arrived k > 0 then Inr (?s\<lparr>s_next := activate (node_at d t) (s_next s)\<rparr>)
     else if unresolved k > 0 then Inr ?s
     else if arrived k = 0 then skipTarget d t ?s
     else if n_joinAll (node_at d t) \<or> arrived k = 1
          then Inr (?s\<lparr>s_next := activate (node_at d t) (s_next s)\<rparr>)
     else Inl ErrInvalidTransition)"
    using True by (simp only: settleTarget_def k_def Let_def) simp
  from target_results [OF trans [OF this [symmetric] s']]
  consider "s' = ?s" | "s' = ?s\<lparr>s_next := activate (node_at d t) (s_next s)\<rparr>"
    | "skipTarget d t ?s = Inr s'" by blast
  then show ?thesis
  proof cases
    case 3
    then show ?thesis using skipTarget_pass [OF pre inv' t] True by simp
  qed (use inv' act in \<open>simp_all only:\<close>)
qed

lemma settlePre_done:
  assumes pre: "settlePre d a c"
  shows "settlePre d a (setNode (node_id d a) NodeDone c)"
proof -
  let ?c0 = "setNode (node_id d a) NodeDone c"
  have wf: "wf_definition d" and a: "a < n_nodes d" "n_parent (node_at d a) = None" "st d c a \<noteq> NodePending"
    and np: "nodesPresent d c" and ep: "edgesPresent d c"
    using pre by (simp_all add: settlePre_def)
  have dom: "sameDomains c ?c0" using np a(1) by (rule sameDomains_setNode)
  have st: "st d ?c0 i = (if i = a then NodeDone else st d c i)" if "i < n_nodes d" for i
    using that a(1) wf by (simp add: node_id_inj)
  have kids: "st d ?c0 i = NodePending" if "p < n_nodes d" "st d ?c0 p = NodePending"
    "i \<in> set (n_children (node_at d p))" for p i
  proof -
    have "i < n_nodes d" "i \<noteq> a" using child_facts [OF wf that(1,3)] a(2) by auto
    moreover have "st d c p = NodePending" using that(1,2) by (simp add: st split: if_splits)
    with pre that have "st d c i = NodePending" unfolding settlePre_def by blast
    ultimately show ?thesis using st [of i] by simp
  qed
  have body: "st d ?c0 i = NodePending" if s: "isSub d s" "st d ?c0 s = NodePending \<or> st d ?c0 s = NodeReady"
    "inBody d s i" for s i
  proof -
    have "s < n_nodes d" using s(1) by (simp add: isSub_def)
    with s(2) have "st d c s = NodePending \<or> st d c s = NodeReady" by (simp add: st split: if_splits)
    with pre s have "st d c i = NodePending" unfolding settlePre_def by blast
    with a(3) inBody_less [OF wf s(1,3)] show ?thesis by (auto simp: st)
  qed
  show ?thesis
    unfolding settlePre_def
  proof (intro conjI)
    show "nodesPresent d ?c0" "edgesPresent d ?c0" using sameDomains_present [OF dom] np ep by blast+
    show "st d ?c0 a \<noteq> NodePending" using st [OF a(1)] by simp
  qed (use kids body wf a in blast)+
qed

lemma settleRel_refl: "settleRel d a (setNode (node_id d a) NodeDone c) (setNode (node_id d a) NodeDone c)"
  by (auto simp: settleRel_def sameRest_def)

lemma completeAndSettle_rel:
  assumes pre: "settlePre d a c" and res: "completeAndSettle d a arr c = Inr c'"
  shows "settleRel d a (setNode (node_id d a) NodeDone c) c'"
proof -
  let ?c0 = "setNode (node_id d a) NodeDone c"
  let ?s0 = "\<lparr>s_next = ?c0, s_touched = fmempty, s_queue = []\<rparr>"
  from res obtain s1 s2 where s1: "settleOutgoing d arr (n_outgoing (node_at d a)) ?s0 = Inr s1"
    and s2: "closeLoopExits d a s1 = Inr s2" and last: "settleLoop d s2 = Inr c'"
    by (auto simp: completeAndSettle_def Let_def bindR_Inr_iff split: if_splits)
  have pre0: "settlePre d a ?c0" using pre by (rule settlePre_done)
  have a: "passTarget d a a" using pre by (simp add: passTarget_def settlePre_def)
  have "passInv d a ?c0 ?s0" by (simp add: passInv_def settleRel_refl)
  from closeLoopExits_pass [OF pre0 settleOutgoing_pass [OF pre0 this a s1] a s2]
  have "passInv d a ?c0 s2" .
  then have "\<exists>s'. passInv d a ?c0 s' \<and> s_queue s' = [] \<and> s_next s' = c'"
  proof (rule settleLoop_invariant [where P = "passInv d a ?c0", OF last])
    fix s t q s'
    assume s: "passInv d a ?c0 s" "s_queue s = t # q" "settleTarget d t (s\<lparr>s_queue := q\<rparr>) = Inr s'"
    then have "passInv d a ?c0 (s\<lparr>s_queue := q\<rparr>)" "passTarget d a t" unfolding passInv_def by auto
    then show "passInv d a ?c0 s'" using settleTarget_pass [OF pre0 _ _ s(3)] by blast
  qed
  then show ?thesis unfolding passInv_def by blast
qed

end
