(* ===== verification/Invariant.thy ===== *)
theory Invariant
  imports Settlement_Effect
begin

text \<open>
  The run-time invariant of a checkpoint: what \<open>ValidateCheckpoint\<close> checks, plus the relations
  between node statuses, outboxes, attempts and the stage and body structure that the reducer
  relies on and does not check.  The main lemma is that the invariant implies that the checkpoint
  loads (\<open>Inv_validates\<close>); the preservation lemmas are in the theories that follow.
\<close>

section \<open>The invariant\<close>

definition shapeOk :: "Definition \<Rightarrow> Checkpoint \<Rightarrow> bool" where
  "shapeOk d c \<longleftrightarrow>
     Version c = CheckpointVersion \<and> validRunID (RunID c) \<and> knownRunStatus (Status c) \<and>
     fset (fmdom (Nodes c)) = node_id d ` {..<n_nodes d} \<and>
     fset (fmdom (Edges c)) = node_id d ` {i. i < n_nodes d \<and> n_outgoing (node_at d i) \<noteq> []} \<and>
     (\<forall>i<n_nodes d. fset (fmdom (mget fmempty (Edges c) (node_id d i))) =
        (\<lambda>ei. e_outcome (edge_at d ei)) ` set (n_outgoing (node_at d i))) \<and>
     (\<forall>j<length (d_edges d). knownDisposition (edgeState c (edge_at d j)))"

definition countsOk :: "Definition \<Rightarrow> Checkpoint \<Rightarrow> bool" where
  "countsOk d c \<longleftrightarrow>
     mforall (ceilingEntryOk d) (AttemptCeilings c) \<and>
     mforall (\<lambda>_ x. x \<le> MaxInt) (AttemptCeilings c) \<and>
     mforall (iterationEntryOk d) (Iterations c) \<and>
     mforall (attemptEntryOk c d) (Attempts c) \<and>
     mforall (\<lambda>_ x. x \<le> MaxInt) (Attempts c)"

definition commandsOk :: "Definition \<Rightarrow> Checkpoint \<Rightarrow> bool" where
  "commandsOk d c \<longleftrightarrow>
     cmds.canonical c \<and> cmds.keys c \<subseteq> node_id d ` {..<n_nodes d} \<and>
     (\<forall>x\<in>set (Commands c). \<forall>i<n_nodes d. cmd_NodeID x = node_id d i \<longrightarrow>
        x = taskCommand c d (node_at d i) (attempts c (node_id d i)))"

definition awaitsOk :: "Definition \<Rightarrow> Checkpoint \<Rightarrow> bool" where
  "awaitsOk d c \<longleftrightarrow> awaits.canonical c \<and> awaits.keys c \<subseteq> node_id d ` {..<n_nodes d}"

definition parkedOk :: "Definition \<Rightarrow> Checkpoint \<Rightarrow> bool" where
  "parkedOk d c \<longleftrightarrow>
     parked.canonical c \<and> parked.keys c \<subseteq> node_id d ` {..<n_nodes d} \<and>
     (\<forall>x\<in>set (Blocked c). length (bo_Reason x) \<le> MaxBlockedReasonBytes \<and> utf8_ValidString (bo_Reason x))"

definition nodeOk :: "Definition \<Rightarrow> Checkpoint \<Rightarrow> nat \<Rightarrow> bool" where
  "nodeOk d c i \<longleftrightarrow>
     knownNodeStatus (st d c i) \<and>
     (node_id d i \<in> cmds.keys c \<longleftrightarrow> runsCommand (node_at d i) \<and> st d c i = NodeRunning) \<and>
     (node_id d i \<in> awaits.keys c \<longrightarrow> awaitsHuman (node_at d i) \<and> st d c i = NodeReady) \<and>
     (node_id d i \<in> parked.keys c \<longleftrightarrow> st d c i = NodeBlocked) \<and>
     (st d c i = NodeBlocked \<longrightarrow> n_kind (node_at d i) = definitionTask \<and> blockableTask d (node_at d i)) \<and>
     (st d c i = NodeFailed \<or> st d c i = NodeCanceled \<longrightarrow> runsCommand (node_at d i)) \<and>
     (runsCommand (node_at d i) \<longrightarrow> st d c i = NodeRunning \<or> st d c i = NodeBlocked \<or> st d c i = NodeDone \<longrightarrow>
        1 \<le> attempts c (node_id d i))"

definition liveStage :: "NodeStatus \<Rightarrow> bool" where
  "liveStage s \<longleftrightarrow> s \<in> {NodeReady, NodeRunning, NodeBlocked, NodeFailed, NodeCanceled}"

text \<open>A running compound has one live stage: the ones before it are done, the ones after pending.\<close>

definition stagesAt :: "Definition \<Rightarrow> Checkpoint \<Rightarrow> nat list \<Rightarrow> nat \<Rightarrow> bool" where
  "stagesAt d c ch k \<longleftrightarrow>
     k < length ch \<and> (\<forall>j<k. st d c (ch ! j) = NodeDone) \<and> liveStage (st d c (ch ! k)) \<and>
     (\<forall>j. k < j \<longrightarrow> j < length ch \<longrightarrow> st d c (ch ! j) = NodePending)"

definition compoundOk :: "Definition \<Rightarrow> Checkpoint \<Rightarrow> nat \<Rightarrow> bool" where
  "compoundOk d c p \<longleftrightarrow>
     ((st d c p = NodePending \<or> st d c p = NodeReady) \<longrightarrow>
        (\<forall>i\<in>set (n_children (node_at d p)). st d c i = NodePending)) \<and>
     (n_kind (node_at d p) = definitionCompound \<longrightarrow> st d c p = NodeRunning \<longrightarrow>
        (\<exists>k. stagesAt d c (n_children (node_at d p)) k)) \<and>
     (n_kind (node_at d p) = definitionCompound \<longrightarrow> st d c p \<noteq> NodeRunning \<longrightarrow>
        (\<forall>i\<in>set (n_children (node_at d p)). \<not> liveStage (st d c i)))"

definition bodyOk :: "Definition \<Rightarrow> Checkpoint \<Rightarrow> nat \<Rightarrow> bool" where
  "bodyOk d c s \<longleftrightarrow>
     isSub d s \<longrightarrow> (st d c s = NodePending \<or> st d c s = NodeReady) \<longrightarrow>
     (\<forall>i. inBody d s i \<longrightarrow> st d c i = NodePending)"

text \<open>A run that is over has no outstanding work.\<close>

definition quietOk :: "Checkpoint \<Rightarrow> bool" where
  "quietOk c \<longleftrightarrow> Status c \<noteq> RunRunning \<longrightarrow> Commands c = [] \<and> AwaitingDecisions c = [] \<and> Blocked c = []"

text \<open>While the run is not doomed, every human decision that is ready is in the outbox.\<close>

definition promptOk :: "Definition \<Rightarrow> Checkpoint \<Rightarrow> bool" where
  "promptOk d c \<longleftrightarrow>
     (Status c = RunRunning \<longrightarrow> \<not> doomed c \<longrightarrow>
      (\<forall>i<n_nodes d. awaitsHuman (node_at d i) \<longrightarrow> st d c i = NodeReady \<longrightarrow> node_id d i \<in> awaits.keys c))"

definition Inv :: "Definition \<Rightarrow> Checkpoint \<Rightarrow> bool" where
  "Inv d c \<longleftrightarrow>
     shapeOk d c \<and> countsOk d c \<and> commandsOk d c \<and> awaitsOk d c \<and> parkedOk d c \<and>
     (\<forall>i<n_nodes d. nodeOk d c i) \<and> (\<forall>i<n_nodes d. compoundOk d c i) \<and> (\<forall>i<n_nodes d. bodyOk d c i) \<and>
     quietOk c \<and> promptOk d c"

lemma InvD:
  assumes "Inv d c"
  shows "shapeOk d c" "countsOk d c" "commandsOk d c" "awaitsOk d c" "parkedOk d c"
    "\<And>i. i < n_nodes d \<Longrightarrow> nodeOk d c i" "\<And>i. i < n_nodes d \<Longrightarrow> compoundOk d c i"
    "\<And>i. i < n_nodes d \<Longrightarrow> bodyOk d c i" "quietOk c" "promptOk d c"
  using assms unfolding Inv_def by blast+

lemma InvI:
  assumes "shapeOk d c" "countsOk d c" "commandsOk d c" "awaitsOk d c" "parkedOk d c"
    "\<And>i. i < n_nodes d \<Longrightarrow> nodeOk d c i" "\<And>i. i < n_nodes d \<Longrightarrow> compoundOk d c i"
    "\<And>i. i < n_nodes d \<Longrightarrow> bodyOk d c i" "quietOk c" "promptOk d c"
  shows "Inv d c"
  using assms unfolding Inv_def by blast

section \<open>The invariant implies that the checkpoint loads\<close>

lemma fset_card: "fcard X = card (fset X)"
  by (simp add: fcard.rep_eq)

lemma shapeOk_nodes:
  assumes "wf_definition d" "shapeOk d c" "\<And>i. i < n_nodes d \<Longrightarrow> nodeOk d c i"
  shows "nodesOk c d"
proof -
  have dom: "fset (fmdom (Nodes c)) = node_id d ` {..<n_nodes d}" using assms(2) by (simp add: shapeOk_def)
  have "inj_on (node_id d) {..<n_nodes d}" by (rule inj_onI) (simp add: node_id_inj [OF assms(1)])
  then have "mlen (Nodes c) = n_nodes d" by (simp add: mlen_def fset_card dom card_image)
  moreover have "definitionNodeByID d k \<noteq> None \<and> knownNodeStatus s" if k: "fmlookup (Nodes c) k = Some s" for k s
  proof -
    from fmdomI [OF k] dom obtain i where i: "i < n_nodes d" "k = node_id d i" by auto
    with assms(3) [OF i(1)] k assms(1) show ?thesis
      by (simp add: nodeOk_def nodeStatus_def mget_eq_SomeI)
  qed
  ultimately show ?thesis by (simp add: nodesOk_def mforall_iff)
qed

lemma shapeOk_edgeShape:
  assumes wf: "wf_definition d" and sh: "shapeOk d c"
  shows "validateEdgeShape c d = Inr ()"
proof -
  have dom: "fset (fmdom (Edges c)) = node_id d ` {i. i < n_nodes d \<and> n_outgoing (node_at d i) \<noteq> []}"
    and inner: "\<And>i. i < n_nodes d \<Longrightarrow> fset (fmdom (mget fmempty (Edges c) (node_id d i))) =
        (\<lambda>ei. e_outcome (edge_at d ei)) ` set (n_outgoing (node_at d i))"
    and known: "\<And>j. j < length (d_edges d) \<Longrightarrow> knownDisposition (edgeState c (edge_at d j))"
    using sh unfolding shapeOk_def by blast+
  have inj: "inj_on (node_id d) A" if "A \<subseteq> {..<n_nodes d}" for A
    using that by (intro inj_onI) (metis lessThan_iff node_id_inj [OF wf] subsetD)
  have "edgeShapeOf c d (node_at d i)" if i: "i < n_nodes d" "n_outgoing (node_at d i) \<noteq> []" for i
  proof -
    from i dom have "node_id d i |\<in>| fmdom (Edges c)" by auto
    then obtain m where m: "fmlookup (Edges c) (node_id d i) = Some m" by (auto simp: fmlookup_dom_iff)
    have dist: "distinct (map (\<lambda>j. e_outcome (edge_at d j)) (n_outgoing (node_at d i)))"
      using wf_nodeD [OF wf i(1)] by (simp add: wf_node_def Let_def)
    have "fset (fmdom m) = set (map (\<lambda>ei. e_outcome (edge_at d ei)) (n_outgoing (node_at d i)))"
      using inner [OF i(1)] m by (simp add: mget_def)
    then have "mlen m = length (n_outgoing (node_at d i))"
      using distinct_card [OF dist] by (simp add: mlen_def fset_card)
    moreover have "knownDisposition (mget (EdgeOther []) m (e_outcome (edge_at d ei)))"
      if "ei \<in> set (n_outgoing (node_at d i))" for ei
      using known [OF outgoing_edge(1) [OF wf i(1) that]] outgoing_edge(6) [OF wf i(1) that] m
      by (simp add: edgeState_def edgeDisp_def mget2_def mget_def)
    ultimately show ?thesis by (simp add: edgeShapeOf_def m list_all_iff)
  qed
  moreover have "mlen (Edges c) = length (filter (\<lambda>node. n_outgoing node \<noteq> []) (d_nodes d))"
    unfolding mlen_def fset_card dom by (subst card_image) (auto intro: inj simp: length_filter_conv_card)
  ultimately show ?thesis
    by (auto simp: validateEdgeShape_def Let_def res_simps in_set_conv_nth)
qed

lemma key_index:
  assumes "k \<in> key ` set xs" "key ` set xs \<subseteq> node_id d ` {..<n_nodes d}"
  obtains i where "i < n_nodes d" "k = node_id d i"
  using assms by auto

lemma keys_length:
  assumes "distinct (map key xs)" "key ` set xs \<subseteq> node_id d ` {..<n_nodes d}"
  shows "length xs \<le> n_nodes d"
proof -
  have "length xs = card (key ` set xs)" using distinct_card [OF assms(1)] by simp
  also have "\<dots> \<le> card (node_id d ` {..<n_nodes d})" by (rule card_mono [OF _ assms(2)]) simp
  also have "\<dots> \<le> n_nodes d" using card_image_le [of "{..<n_nodes d}" "node_id d"] by simp
  finally show ?thesis .
qed

lemma Inv_commands:
  assumes wf: "wf_definition d" and inv: "Inv d c"
  shows "validateCommands c d = Inr ()"
proof -
  have can: "distinct (map cmd_NodeID (Commands c))" and sub: "cmds.keys c \<subseteq> node_id d ` {..<n_nodes d}"
    and eq: "\<And>x i. x \<in> set (Commands c) \<Longrightarrow> i < n_nodes d \<Longrightarrow> cmd_NodeID x = node_id d i \<Longrightarrow>
        x = taskCommand c d (node_at d i) (attempts c (node_id d i))"
    using InvD(3) [OF inv] unfolding commandsOk_def cmds.canonical_def by blast+
  have "commandOk c d x" if x: "x \<in> set (Commands c)" for x
  proof -
    from x sub obtain i where i: "i < n_nodes d" "cmd_NodeID x = node_id d i"
      unfolding cmds.keys_def by (metis (no_types, lifting) imageE imageI lessThan_iff subsetD)
    from x i(2) have "node_id d i \<in> cmds.keys c" unfolding cmds.keys_def by (metis imageI)
    with InvD(6) [OF inv i(1)] have "runsCommand (node_at d i)" "st d c i = NodeRunning"
      unfolding nodeOk_def by blast+
    moreover have "cmd_Kind x = commandKind (node_at d i)"
      by (subst eq [OF x i]) (simp add: taskCommand_def Let_def split: option.splits)
    ultimately show ?thesis
      using eq [OF x i] i wf by (simp add: commandOk_def commandsEqual_iff)
  qed
  moreover have "length (Commands c) \<le> n_nodes d"
    using keys_length [OF can] sub by (simp add: cmds.keys_def)
  ultimately show ?thesis using can by (simp add: validateCommands_def res_simps)
qed

lemma approval_facts:
  assumes wf: "wf_definition d" and i: "i < n_nodes d" and a: "approvalAnchor d (node_at d i) = Some plan"
  obtains p w where "n_parent (node_at d i) = Some p" "p < n_nodes d" "i \<in> set (n_children (node_at d p))"
    "n_planAnchor (node_at d p) = Some w" "plan = node_at d w" "w \<in> set (n_children (node_at d p))"
    "n_stage (node_at d i) = StagePlanApproval" "n_stage (node_at d w) = StagePlan" "runsCommand (node_at d w)"
proof -
  from a obtain p w where p: "n_parent (node_at d i) = Some p" and st: "n_stage (node_at d i) = StagePlanApproval"
    and w: "n_planAnchor (node_at d p) = Some w" "plan = node_at d w"
    by (auto simp: approvalAnchor_def split: option.splits if_splits)
  from wf_nodeD [OF wf i] p have p': "p < n_nodes d" "i \<in> set (n_children (node_at d p))"
    by (auto simp: wf_node_def Let_def)
  from wf_nodeD [OF wf p'(1)] child_facts(4) [OF wf p'] have "wf_compound d p"
    by (simp add: wf_node_def Let_def)
  with w(1) have w': "w \<in> set (n_children (node_at d p))" by (auto simp: wf_compound_def Let_def)
  from child_wf(1) [OF wf p'(1) w'] w(1) have "n_stage (node_at d w) = StagePlan" "runsCommand (node_at d w)"
    by (auto simp: wf_child_def Let_def runsCommand_def)
  with p p' w w' st that show thesis by blast
qed

lemma stagesAt_unique:
  "stagesAt d c ch k \<Longrightarrow> j < length ch \<Longrightarrow> liveStage (st d c (ch ! j)) \<Longrightarrow> j = k"
  by (cases "j < k"; cases "k < j"; auto simp: stagesAt_def liveStage_def)

lemma compound_stages:
  assumes "wf_definition d" "p < n_nodes d" "i \<in> set (n_children (node_at d p))"
  shows "stagesOk (map (\<lambda>i. n_stage (node_at d i)) (n_children (node_at d p)))"
    "distinct (n_children (node_at d p))"
  using wf_nodeD [OF assms(1,2)] child_facts(4) [OF assms]
  by (simp_all add: wf_node_def wf_compound_def Let_def)

text \<open>The stages around a live stage of a compound.\<close>

lemma live_child:
  assumes wf: "wf_definition d" and inv: "compoundOk d c p"
    and p: "p < n_nodes d" and i: "i \<in> set (n_children (node_at d p))" and live: "liveStage (st d c i)"
  obtains k where "stagesAt d c (n_children (node_at d p)) k" "n_children (node_at d p) ! k = i"
    "st d c p = NodeRunning"
proof -
  have kind: "n_kind (node_at d p) = definitionCompound" by (rule child_facts(4) [OF wf p i])
  have run: "st d c p = NodeRunning" using inv kind i live unfolding compoundOk_def by blast
  with inv kind obtain k where k: "stagesAt d c (n_children (node_at d p)) k" unfolding compoundOk_def by blast
  from i obtain j where j: "j < length (n_children (node_at d p))" "n_children (node_at d p) ! j = i"
    by (auto simp: in_set_conv_nth)
  with stagesAt_unique [OF k j(1)] live k run that show thesis by blast
qed

lemma approval_attempted:
  assumes wf: "wf_definition d" and inv: "Inv d c" and i: "i < n_nodes d"
    and a: "approvalAnchor d (node_at d i) = Some plan" and ready: "st d c i = NodeReady"
  shows "1 \<le> attempts c (n_id plan)"
proof -
  from approval_facts [OF wf i a] obtain p w where
      p: "n_parent (node_at d i) = Some p" "p < n_nodes d" "i \<in> set (n_children (node_at d p))"
    and w: "plan = node_at d w" "w \<in> set (n_children (node_at d p))" "runsCommand (node_at d w)"
      "n_stage (node_at d w) = StagePlan" "n_stage (node_at d i) = StagePlanApproval"
      "n_planAnchor (node_at d p) = Some w" by metis
  let ?ch = "n_children (node_at d p)" and ?xs = "map (\<lambda>i. n_stage (node_at d i)) (n_children (node_at d p))"
  from ready have "liveStage (st d c i)" by (simp add: liveStage_def)
  from live_child [OF wf InvD(7) [OF inv p(2)] p(2,3) this] obtain k where
    k: "stagesAt d c ?ch k" "?ch ! k = i" by metis
  then have kl: "k < length ?xs" "?xs ! k = StagePlanApproval" using w(5) by (simp_all add: stagesAt_def)
  note ord = stagesOk_approval [OF compound_stages(1) [OF wf p(2,3)] kl]
  have "?ch ! 0 = w"
  proof -
    have "?ch ! 0 \<in> set ?ch" using kl(1) ord(1) by (intro nth_mem) auto
    moreover have "n_stage (node_at d (?ch ! 0)) = StagePlan"
      using ord kl(1) nth_map [of 0 ?ch "\<lambda>i. n_stage (node_at d i)"] by (cases ?ch) auto
    ultimately show ?thesis
      using child_wf(1) [OF wf p(2)] w(6) by (fastforce simp: wf_child_def Let_def)
  qed
  with k(1) ord(1) have "st d c w = NodeDone" by (auto simp: stagesAt_def)
  with InvD(6) [OF inv child_facts(1) [OF wf p(2) w(2)]] w(1,3) show ?thesis by (simp add: nodeOk_def)
qed

lemma Inv_awaits:
  assumes wf: "wf_definition d" and inv: "Inv d c"
  shows "validateAwaitingDecisions c d = Inr ()"
proof -
  have can: "distinct (map do_NodeID (AwaitingDecisions c))"
    and sub: "do_NodeID ` set (AwaitingDecisions c) \<subseteq> node_id d ` {..<n_nodes d}"
    using InvD(4) [OF inv] unfolding awaitsOk_def awaits.canonical_def awaits.keys_def by blast+
  have "obligationOk c d x" if x: "x \<in> set (AwaitingDecisions c)" for x
  proof -
    from x sub obtain i where i: "i < n_nodes d" "do_NodeID x = node_id d i" by auto
    from x i(2) have "node_id d i \<in> awaits.keys c" unfolding awaits.keys_def by (metis imageI)
    with InvD(6) [OF inv i(1)] have "awaitsHuman (node_at d i)" "st d c i = NodeReady"
      unfolding nodeOk_def by blast+
    with approval_attempted [OF wf inv i(1)] show ?thesis
      using i wf by (auto simp: obligationOk_def ApprovalAttempt_def split: option.splits)
  qed
  moreover have "AwaitingDecisions c \<noteq> [] \<Longrightarrow> Status c = RunRunning"
    using InvD(9) [OF inv] unfolding quietOk_def by blast
  ultimately show ?thesis
    using can keys_length [OF can sub] by (auto simp: validateAwaitingDecisions_def res_simps)
qed

lemma Inv_blocked:
  assumes wf: "wf_definition d" and inv: "Inv d c"
  shows "validateBlocked c d = Inr ()"
proof -
  have can: "distinct (map bo_NodeID (Blocked c))"
    and sub: "bo_NodeID ` set (Blocked c) \<subseteq> node_id d ` {..<n_nodes d}"
    and reason: "\<And>x. x \<in> set (Blocked c) \<Longrightarrow>
      length (bo_Reason x) \<le> MaxBlockedReasonBytes \<and> utf8_ValidString (bo_Reason x)"
    using InvD(5) [OF inv] unfolding parkedOk_def parked.canonical_def parked.keys_def by blast+
  have dom: "fset (fmdom (Nodes c)) = node_id d ` {..<n_nodes d}"
    using InvD(1) [OF inv] by (simp add: shapeOk_def)
  have node: "node_id d i \<in> bo_NodeID ` set (Blocked c) \<longleftrightarrow> st d c i = NodeBlocked" if "i < n_nodes d" for i
    using InvD(6) [OF inv that] unfolding nodeOk_def parked.keys_def by blast
  have lookup: "fmlookup (Nodes c) (node_id d i) = Some NodeBlocked \<longleftrightarrow> st d c i = NodeBlocked" for i
    by (auto simp: nodeStatus_def mget_def split: option.splits)
  have "fset (ffilter (\<lambda>k. fmlookup (Nodes c) k = Some NodeBlocked) (fmdom (Nodes c))) = bo_NodeID ` set (Blocked c)"
    (is "?L = ?R")
  proof
    show "?L \<subseteq> ?R" using dom node lookup by (auto simp: ffilter.rep_eq)
    show "?R \<subseteq> ?L"
    proof
      fix k assume k: "k \<in> ?R"
      then obtain i where i: "i < n_nodes d" "k = node_id d i" using sub by auto
      with k node lookup dom show "k \<in> ?L" by (simp add: ffilter.rep_eq fmdomI)
    qed
  qed
  then have count: "length (Blocked c) = parkedCount c"
    using distinct_card [OF can] by (simp add: parkedCount_def fset_card)
  have "blockedOk c d x" if x: "x \<in> set (Blocked c)" for x
  proof -
    from x sub obtain i where i: "i < n_nodes d" "bo_NodeID x = node_id d i" by auto
    with x node have b: "st d c i = NodeBlocked" by (metis imageI)
    with InvD(6) [OF inv i(1)] have "n_kind (node_at d i) = definitionTask" "blockableTask d (node_at d i)"
      "1 \<le> attempts c (node_id d i)" unfolding nodeOk_def runsCommand_def by blast+
    with b reason [OF x] show ?thesis using i wf by (simp add: blockedOk_def)
  qed
  moreover have "Blocked c \<noteq> [] \<Longrightarrow> Status c = RunRunning"
    using InvD(9) [OF inv] unfolding quietOk_def by blast
  ultimately show ?thesis using can count by (auto simp: validateBlocked_def res_simps)
qed

lemma Inv_validates:
  assumes wf: "wf_definition d" and inv: "Inv d c"
  shows "validateCheckpoint c d = Inr ()"
proof -
  note i = InvD [OF inv]
  have "validateAttemptCeilings c d = Inr ()" "validateIterations c d = Inr ()" "validateAttempts c d = Inr ()"
    using i(2) by (simp_all add: countsOk_def validateAttemptCeilings_def validateIterations_def
        validateAttempts_def check_def)
  moreover have "check (Version c = CheckpointVersion) = Inr ()" "check (validRunID (RunID c)) = Inr ()"
    "check (knownRunStatus (Status c)) = Inr ()" using i(1) by (simp_all add: shapeOk_def check_def)
  moreover have "check (nodesOk c d) = Inr ()" using shapeOk_nodes [OF wf i(1,6)] by (simp add: check_def)
  ultimately show ?thesis
    using shapeOk_edgeShape [OF wf i(1)] Inv_commands [OF assms] Inv_awaits [OF assms] Inv_blocked [OF assms]
      wf_nonempty [OF wf]
    by (simp add: validateCheckpoint_def)
qed

end
