(* ===== verification/Preservation.thy ===== *)
theory Preservation
  imports Invariant
begin

text \<open>
  Preservation of the invariant, first part: the congruence lemmas for fields an operation leaves
  alone, the invariant with one node taken out of its outbox (\<open>InvX\<close>), and the operations on one
  node and on the stages of one compound.
\<close>

section \<open>Fields left alone\<close>

definition sameCounts :: "Checkpoint \<Rightarrow> Checkpoint \<Rightarrow> bool" where
  "sameCounts c c' \<longleftrightarrow>
     Version c' = Version c \<and> RunID c' = RunID c \<and> Attempts c' = Attempts c \<and>
     AttemptCeilings c' = AttemptCeilings c \<and> Iterations c' = Iterations c"

lemma sameCounts_refl [simp]: "sameCounts c c"
  by (simp add: sameCounts_def)

lemma sameCounts_trans: "sameCounts a b \<Longrightarrow> sameCounts b c \<Longrightarrow> sameCounts a c"
  by (simp add: sameCounts_def)

lemma attempts_cong: "Attempts c' = Attempts c \<Longrightarrow> attempts c' = attempts c"
  by (simp add: attempts_def fun_eq_iff)

lemma executableAttemptCeiling_cong:
  assumes "Attempts c' = Attempts c" "AttemptCeilings c' = AttemptCeilings c"
  shows "executableAttemptCeiling c' d n = executableAttemptCeiling c d n"
  using assms attempts_cong [OF assms(1)] attemptCeiling_cong [OF assms(2)]
  by (simp add: executableAttemptCeiling_def saturatingNextAttempt_def split: option.splits)

lemma countsOk_cong:
  assumes "sameCounts c c'"
  shows "countsOk d c' = countsOk d c"
proof -
  have "attemptEntryOk c' d = attemptEntryOk c d"
    using assms executableAttemptCeiling_cong [of c' c]
    by (auto simp: attemptEntryOk_def fun_eq_iff sameCounts_def split: option.splits)
  then show ?thesis using assms by (simp add: countsOk_def sameCounts_def)
qed

lemma RoundOf_cong: "Iterations c' = Iterations c \<Longrightarrow> RoundOf d c' k = RoundOf d c k"
  by (auto simp: RoundOf_def iterationsTaken_def iterations_def Let_def split: option.splits list.splits)

lemma taskCommand_cong:
  assumes "Iterations c' = Iterations c" "RunID c' = RunID c"
  shows "taskCommand c' d n a = taskCommand c d n a"
  unfolding taskCommand_def RoundOf_cong [OF assms(1)] assms(2) ..

lemma commandsOk_cong:
  assumes "sameCounts c c'" "commandsOk d c" "cmds.canonical c'" "set (Commands c') \<subseteq> set (Commands c)"
  shows "commandsOk d c'"
proof -
  have "cmds.keys c' \<subseteq> cmds.keys c" using assms(4) by (auto simp: cmds.keys_def)
  moreover have "taskCommand c' d n a = taskCommand c d n a" "attempts c' k = attempts c k" for n a k
    using assms(1) taskCommand_cong [of c' c] attempts_cong [of c' c] by (simp_all add: sameCounts_def)
  ultimately show ?thesis using assms(2-4) unfolding commandsOk_def by auto
qed

lemma shapeOk_cong:
  assumes "shapeOk d c" "sameCounts c c'" "sameDomains c c'" "knownRunStatus (Status c')"
    "\<And>j. j < length (d_edges d) \<Longrightarrow> knownDisposition (edgeState c' (edge_at d j))"
  shows "shapeOk d c'"
  using assms unfolding shapeOk_def sameCounts_def sameDomains_def by simp

lemma doomed_iff:
  assumes dom: "fset (fmdom (Nodes c)) = node_id d ` {..<n_nodes d}"
  shows "doomed c \<longleftrightarrow> (\<exists>i<n_nodes d. st d c i = NodeFailed \<or> st d c i = NodeCanceled)"
proof -
  have look: "fmlookup (Nodes c) k = Some v \<longleftrightarrow> nodeStatus c k = v" if "v \<noteq> NodeOther []" for k v
    using that by (auto simp: nodeStatus_def mget_def split: option.splits)
  show ?thesis
  proof
    assume "doomed c"
    then obtain k v where k: "fmlookup (Nodes c) k = Some v" "v = NodeFailed \<or> v = NodeCanceled"
      unfolding doomed_def mexists_iff by blast
    from fmdomI [OF k(1)] dom obtain i where "i < n_nodes d" "k = node_id d i" by auto
    with k look show "\<exists>i<n_nodes d. st d c i = NodeFailed \<or> st d c i = NodeCanceled" by auto
  next
    assume "\<exists>i<n_nodes d. st d c i = NodeFailed \<or> st d c i = NodeCanceled"
    then show "doomed c" unfolding doomed_def mexists_iff using look [of NodeFailed] look [of NodeCanceled] by auto
  qed
qed

lemma undoomed:
  assumes "shapeOk d c" "sameDomains c c'"
    "\<And>i. i < n_nodes d \<Longrightarrow> st d c i = NodeFailed \<or> st d c i = NodeCanceled \<Longrightarrow>
       st d c' i = NodeFailed \<or> st d c' i = NodeCanceled"
    "\<not> doomed c'"
  shows "\<not> doomed c"
proof -
  have dom: "fset (fmdom (Nodes c)) = node_id d ` {..<n_nodes d}" using assms(1) by (simp add: shapeOk_def)
  then have dom': "fset (fmdom (Nodes c')) = node_id d ` {..<n_nodes d}"
    using assms(2) by (simp add: sameDomains_def)
  show ?thesis using assms(3,4) doomed_iff [OF dom] doomed_iff [OF dom'] by blast
qed

lemma shapeOk_present:
  assumes wf: "wf_definition d" and sh: "shapeOk d c"
  shows "nodesPresent d c" "edgesPresent d c"
proof -
  show "nodesPresent d c" using sh by (auto simp: nodesPresent_def shapeOk_def)
  show "edgesPresent d c"
    unfolding edgesPresent_def
  proof (intro allI impI)
    fix j assume j: "j < length (d_edges d)"
    let ?i = "e_fromIndex (edge_at d j)"
    have i: "?i < n_nodes d" "e_from (edge_at d j) = node_id d ?i" "j \<in> set (n_outgoing (node_at d ?i))"
      using wf_edgeD [OF wf j] by (auto simp: wf_edge_def Let_def)
    from i(3) have ne: "n_outgoing (node_at d ?i) \<noteq> []" by auto
    have "node_id d ?i \<in> fset (fmdom (Edges c))" using sh i(1) ne unfolding shapeOk_def by auto
    moreover have "e_outcome (edge_at d j) \<in> fset (fmdom (mget fmempty (Edges c) (node_id d ?i)))"
      using sh i(1,3) unfolding shapeOk_def by auto
    ultimately show "e_from (edge_at d j) |\<in>| fmdom (Edges c) \<and>
        e_outcome (edge_at d j) |\<in>| fmdom (mget fmempty (Edges c) (e_from (edge_at d j)))"
      using i(2) by simp
  qed
qed

section \<open>Structure left alone\<close>

lemma compoundOk_cong:
  assumes "st d c' p = st d c p" "\<And>i. i \<in> set (n_children (node_at d p)) \<Longrightarrow> st d c' i = st d c i"
  shows "compoundOk d c' p = compoundOk d c p"
proof -
  have "stagesAt d c' (n_children (node_at d p)) k = stagesAt d c (n_children (node_at d p)) k" for k
    using assms(2) by (auto simp: stagesAt_def)
  then show ?thesis using assms by (simp add: compoundOk_def)
qed

lemma compoundOk_leaf:
  assumes "wf_definition d" "i < n_nodes d" "n_kind (node_at d i) \<noteq> definitionCompound"
  shows "compoundOk d c i"
  using wf_nodeD [OF assms(1,2)] assms(3) by (simp add: compoundOk_def wf_node_def Let_def)

section \<open>One node out of its outbox\<close>

text \<open>The invariant for every node but \<open>a\<close>, which no outbox holds.\<close>

definition InvX :: "Definition \<Rightarrow> nat \<Rightarrow> Checkpoint \<Rightarrow> bool" where
  "InvX d a c \<longleftrightarrow>
     shapeOk d c \<and> countsOk d c \<and> commandsOk d c \<and> awaitsOk d c \<and> parkedOk d c \<and>
     (\<forall>i<n_nodes d. i \<noteq> a \<longrightarrow> nodeOk d c i) \<and> (\<forall>i<n_nodes d. i \<noteq> a \<longrightarrow> compoundOk d c i) \<and>
     (\<forall>i<n_nodes d. bodyOk d c i) \<and> Status c = RunRunning \<and>
     (\<not> doomed c \<longrightarrow> (\<forall>i<n_nodes d. i \<noteq> a \<longrightarrow> awaitsHuman (node_at d i) \<longrightarrow> st d c i = NodeReady \<longrightarrow>
        node_id d i \<in> awaits.keys c)) \<and>
     a < n_nodes d \<and> node_id d a \<notin> cmds.keys c \<and> node_id d a \<notin> awaits.keys c \<and> node_id d a \<notin> parked.keys c \<and>
     (runsCommand (node_at d a) \<longrightarrow> st d c a = NodeRunning \<or> st d c a = NodeBlocked \<longrightarrow> 1 \<le> attempts c (node_id d a))"

lemma InvXD:
  assumes "InvX d a c"
  shows "shapeOk d c" "countsOk d c" "commandsOk d c" "awaitsOk d c" "parkedOk d c"
    "\<And>i. i < n_nodes d \<Longrightarrow> i \<noteq> a \<Longrightarrow> nodeOk d c i" "\<And>i. i < n_nodes d \<Longrightarrow> i \<noteq> a \<Longrightarrow> compoundOk d c i"
    "\<And>i. i < n_nodes d \<Longrightarrow> bodyOk d c i" "Status c = RunRunning"
    "\<And>i. \<not> doomed c \<Longrightarrow> i < n_nodes d \<Longrightarrow> i \<noteq> a \<Longrightarrow> awaitsHuman (node_at d i) \<Longrightarrow>
       st d c i = NodeReady \<Longrightarrow> node_id d i \<in> awaits.keys c"
    "a < n_nodes d" "node_id d a \<notin> cmds.keys c" "node_id d a \<notin> awaits.keys c" "node_id d a \<notin> parked.keys c"
    "runsCommand (node_at d a) \<Longrightarrow> st d c a = NodeRunning \<or> st d c a = NodeBlocked \<Longrightarrow> 1 \<le> attempts c (node_id d a)"
  using assms unfolding InvX_def by blast+

text \<open>Taking a node out of its outbox.\<close>

lemma nodeOk_cong:
  assumes "st d c' i = st d c i" "attempts c' (node_id d i) = attempts c (node_id d i)"
    "node_id d i \<in> cmds.keys c' \<longleftrightarrow> node_id d i \<in> cmds.keys c"
    "node_id d i \<in> awaits.keys c' \<longleftrightarrow> node_id d i \<in> awaits.keys c"
    "node_id d i \<in> parked.keys c' \<longleftrightarrow> node_id d i \<in> parked.keys c"
  shows "nodeOk d c' i = nodeOk d c i"
  using assms by (simp add: nodeOk_def)

lemma takeOut:
  assumes wf: "wf_definition d" and inv: "Inv d c" and a: "a < n_nodes d"
    and run: "Status c = RunRunning"
    and rest: "sameCounts c c'" "Status c' = Status c" "Nodes c' = Nodes c" "Edges c' = Edges c"
    and sub: "set (Commands c') \<subseteq> set (Commands c)" "set (Blocked c') \<subseteq> set (Blocked c)"
    and canon: "cmds.canonical c'" "awaits.canonical c'" "parked.canonical c'"
    and keys: "cmds.keys c' = cmds.keys c - {node_id d a}" "awaits.keys c' = awaits.keys c - {node_id d a}"
      "parked.keys c' = parked.keys c - {node_id d a}"
  shows "InvX d a c'"
proof -
  note i = InvD [OF inv]
  have st: "nodeStatus c' k = nodeStatus c k" for k using rest(3) by (simp add: nodeStatus_def)
  have att: "attempts c' k = attempts c k" for k
    using rest(1) attempts_cong [of c' c] by (simp add: sameCounts_def)
  have es: "edgeState c' e = edgeState c e" for e using rest(4) by (simp add: edgeState_def edgeDisp_def)
  have doom: "doomed c' = doomed c" using rest(3) by (simp add: doomed_def)
  have other: "node_id d j \<noteq> node_id d a" if "j < n_nodes d" "j \<noteq> a" for j
    using that a wf by (simp add: node_id_inj)
  have nodes: "nodeOk d c' j" if "j < n_nodes d" "j \<noteq> a" for j
    using i(6) [OF that(1)] nodeOk_cong [of c' d j c] st att keys other [OF that] by simp
  have comp: "compoundOk d c' j" if "j < n_nodes d" for j
    using i(7) [OF that] compoundOk_cong [of c' d j c] st by simp
  have body: "bodyOk d c' j" if "j < n_nodes d" for j
    using i(8) [OF that] unfolding bodyOk_def st .
  have shape: "shapeOk d c'"
    using i(1) rest es unfolding shapeOk_def sameCounts_def by simp
  have prompt: "node_id d j \<in> awaits.keys c'" if "\<not> doomed c'" "j < n_nodes d" "j \<noteq> a"
    "awaitsHuman (node_at d j)" "st d c' j = NodeReady" for j
    using i(10) that run doom st keys(2) other [OF that(2,3)] by (simp add: promptOk_def)
  have "commandsOk d c'" by (rule commandsOk_cong [OF rest(1) i(3) canon(1) sub(1)])
  moreover have "awaitsOk d c'" "parkedOk d c'"
    using i(4,5) canon keys sub(2) unfolding awaitsOk_def parkedOk_def by auto
  moreover have "countsOk d c'" using i(2) countsOk_cong [OF rest(1)] by simp
  moreover have "1 \<le> attempts c' (node_id d a)" if "runsCommand (node_at d a)"
    "st d c' a = NodeRunning \<or> st d c' a = NodeBlocked"
    using i(6) [OF a] that st att by (auto simp: nodeOk_def)
  ultimately show ?thesis
    unfolding InvX_def using shape nodes comp body prompt a run rest(2) keys by simp
qed

lemma commands_running: "Inv d c \<Longrightarrow> Commands c \<noteq> [] \<Longrightarrow> Status c = RunRunning"
  and obligations_running: "Inv d c \<Longrightarrow> AwaitingDecisions c \<noteq> [] \<Longrightarrow> Status c = RunRunning"
  and blocked_running: "Inv d c \<Longrightarrow> Blocked c \<noteq> [] \<Longrightarrow> Status c = RunRunning"
  by (auto simp: Inv_def quietOk_def)

section \<open>Removing a node from one outbox\<close>

lemma removeCommand_frame [simp]:
  "nodeStatus (removeCommand k c) n = nodeStatus c n" "attempts (removeCommand k c) n = attempts c n"
  "edgeDisp (removeCommand k c) f oc = edgeDisp c f oc" "Nodes (removeCommand k c) = Nodes c"
  "Edges (removeCommand k c) = Edges c" "Status (removeCommand k c) = Status c"
  "AwaitingDecisions (removeCommand k c) = AwaitingDecisions c" "Blocked (removeCommand k c) = Blocked c"
  "sameCounts c (removeCommand k c)" "doomed (removeCommand k c) = doomed c"
  by (simp_all add: removeCommand_def nodeStatus_def attempts_def edgeDisp_def sameCounts_def doomed_def)

lemma removeObligation_frame [simp]:
  "nodeStatus (removeObligation k c) n = nodeStatus c n" "attempts (removeObligation k c) n = attempts c n"
  "edgeDisp (removeObligation k c) f oc = edgeDisp c f oc" "Nodes (removeObligation k c) = Nodes c"
  "Edges (removeObligation k c) = Edges c" "Status (removeObligation k c) = Status c"
  "Commands (removeObligation k c) = Commands c" "Blocked (removeObligation k c) = Blocked c"
  "sameCounts c (removeObligation k c)" "doomed (removeObligation k c) = doomed c"
  by (simp_all add: removeObligation_def nodeStatus_def attempts_def edgeDisp_def sameCounts_def doomed_def)

lemma removeBlocked_frame [simp]:
  "nodeStatus (removeBlocked k c) n = nodeStatus c n" "attempts (removeBlocked k c) n = attempts c n"
  "edgeDisp (removeBlocked k c) f oc = edgeDisp c f oc" "Nodes (removeBlocked k c) = Nodes c"
  "Edges (removeBlocked k c) = Edges c" "Status (removeBlocked k c) = Status c"
  "AwaitingDecisions (removeBlocked k c) = AwaitingDecisions c" "Commands (removeBlocked k c) = Commands c"
  "sameCounts c (removeBlocked k c)" "doomed (removeBlocked k c) = doomed c"
  by (simp_all add: removeBlocked_def nodeStatus_def attempts_def edgeDisp_def sameCounts_def doomed_def)

lemma Inv_canonical:
  assumes "Inv d c"
  shows "cmds.canonical c" "awaits.canonical c" "parked.canonical c"
  using InvD(3-5) [OF assms] by (simp_all add: commandsOk_def awaitsOk_def parkedOk_def)

lemma same_outbox:
  "Commands c' = Commands c \<Longrightarrow> cmds.keys c' = cmds.keys c \<and> cmds.canonical c' = cmds.canonical c"
  "AwaitingDecisions c' = AwaitingDecisions c \<Longrightarrow>
     awaits.keys c' = awaits.keys c \<and> awaits.canonical c' = awaits.canonical c"
  "Blocked c' = Blocked c \<Longrightarrow> parked.keys c' = parked.keys c \<and> parked.canonical c' = parked.canonical c"
  by (simp_all add: cmds.keys_def cmds.canonical_def awaits.keys_def awaits.canonical_def
      parked.keys_def parked.canonical_def)

lemma takeOut_command:
  assumes wf: "wf_definition d" and inv: "Inv d c" and a: "a < n_nodes d"
    and k: "node_id d a \<in> cmds.keys c"
  shows "InvX d a (removeCommand (node_id d a) c)"
proof -
  let ?c = "removeCommand (node_id d a) c"
  have "Commands c \<noteq> []" using k by (auto simp: cmds.keys_def)
  then have run: "Status c = RunRunning" by (rule commands_running [OF inv])
  have "node_id d a \<notin> awaits.keys c" "node_id d a \<notin> parked.keys c"
    using InvD(6) [OF inv a] k by (auto simp: nodeOk_def)
  moreover have "awaits.keys ?c = awaits.keys c" "awaits.canonical ?c" "parked.keys ?c = parked.keys c"
    "parked.canonical ?c"
    using Inv_canonical [OF inv] same_outbox(2) [of ?c c] same_outbox(3) [of ?c c] by simp_all
  ultimately show ?thesis
    using Inv_canonical [OF inv] cmds.canonical_remove cmds.keys_remove
    by (intro takeOut [OF wf inv a run]) (auto simp: removeCommand_def sameCounts_def)
qed

lemma takeOut_obligation:
  assumes wf: "wf_definition d" and inv: "Inv d c" and a: "a < n_nodes d"
    and k: "node_id d a \<in> awaits.keys c"
  shows "InvX d a (removeObligation (node_id d a) c)"
proof -
  let ?c = "removeObligation (node_id d a) c"
  have "AwaitingDecisions c \<noteq> []" using k by (auto simp: awaits.keys_def)
  then have run: "Status c = RunRunning" by (rule obligations_running [OF inv])
  have "node_id d a \<notin> cmds.keys c" "node_id d a \<notin> parked.keys c"
    using InvD(6) [OF inv a] k by (auto simp: nodeOk_def)
  moreover have "cmds.keys ?c = cmds.keys c" "cmds.canonical ?c" "parked.keys ?c = parked.keys c"
    "parked.canonical ?c"
    using Inv_canonical [OF inv] same_outbox(1) [of ?c c] same_outbox(3) [of ?c c] by simp_all
  ultimately show ?thesis
    using Inv_canonical [OF inv] awaits.canonical_remove awaits.keys_remove
    by (intro takeOut [OF wf inv a run]) (auto simp: removeObligation_def sameCounts_def)
qed

lemma takeOut_blocked:
  assumes wf: "wf_definition d" and inv: "Inv d c" and a: "a < n_nodes d"
    and k: "node_id d a \<in> parked.keys c"
  shows "InvX d a (removeBlocked (node_id d a) c)"
proof -
  let ?c = "removeBlocked (node_id d a) c"
  have "Blocked c \<noteq> []" using k by (auto simp: parked.keys_def)
  then have run: "Status c = RunRunning" by (rule blocked_running [OF inv])
  have "node_id d a \<notin> cmds.keys c" "node_id d a \<notin> awaits.keys c"
    using InvD(6) [OF inv a] k by (auto simp: nodeOk_def)
  moreover have "cmds.keys ?c = cmds.keys c" "cmds.canonical ?c" "awaits.keys ?c = awaits.keys c"
    "awaits.canonical ?c"
    using Inv_canonical [OF inv] same_outbox(1) [of ?c c] same_outbox(2) [of ?c c] by simp_all
  ultimately show ?thesis
    using Inv_canonical [OF inv] parked.canonical_remove parked.keys_remove
    by (intro takeOut [OF wf inv a run]) (auto simp: removeBlocked_def sameCounts_def)
qed

text \<open>A node that no outbox holds.\<close>

lemma takeOut_none:
  assumes wf: "wf_definition d" and inv: "Inv d c" and a: "a < n_nodes d" and run: "Status c = RunRunning"
    and k: "node_id d a \<notin> cmds.keys c" "node_id d a \<notin> awaits.keys c" "node_id d a \<notin> parked.keys c"
  shows "InvX d a c"
  using Inv_canonical [OF inv] k by (intro takeOut [OF wf inv a run]) auto

section \<open>Updates of the stages of one compound\<close>

lemma children_disjoint:
  assumes "wf_definition d" "p < n_nodes d" "q < n_nodes d" "p \<noteq> q"
    "i \<in> set (n_children (node_at d p))"
  shows "i \<notin> set (n_children (node_at d q))"
  using child_facts(2) [OF assms(1,2,5)] child_facts(2) [OF assms(1,3)] assms(4) by auto

lemma child_kind:
  assumes "wf_definition d" "p < n_nodes d" "i \<in> set (n_children (node_at d p))"
  shows "n_kind (node_at d i) \<noteq> definitionCompound" "n_kind (node_at d i) \<noteq> definitionSubprocess"
  using child_wf(1) [OF assms] by (auto simp: wf_child_def Let_def)

lemma stage_update:
  assumes wf: "wf_definition d" and p: "p < n_nodes d" "st d c p = NodeRunning"
    and comp: "\<And>q. q < n_nodes d \<Longrightarrow> q \<noteq> p \<Longrightarrow> n_kind (node_at d q) = definitionCompound \<Longrightarrow> compoundOk d c q"
    and body: "\<And>s. s < n_nodes d \<Longrightarrow> bodyOk d c s"
    and upd: "\<And>j. j < n_nodes d \<Longrightarrow> st d c' j = st d c j \<or> j \<in> set (n_children (node_at d p))"
    and k: "stagesAt d c' (n_children (node_at d p)) k"
  shows "q < n_nodes d \<Longrightarrow> compoundOk d c' q" "s < n_nodes d \<Longrightarrow> bodyOk d c' s"
proof -
  let ?ch = "n_children (node_at d p)"
  have ne: "?ch ! k \<in> set ?ch" using k by (auto simp: stagesAt_def)
  have par: "n_parent (node_at d p) = None" by (rule child_facts(5) [OF wf p(1) ne])
  have "p \<notin> set ?ch" using child_facts(2) [OF wf p(1)] par by force
  with upd [OF p(1)] p(2) have run: "st d c' p = NodeRunning" by simp
  show "compoundOk d c' q" if q: "q < n_nodes d"
  proof (cases "q = p")
    case True
    then show ?thesis using run k by (auto simp: compoundOk_def)
  next
    case False
    show ?thesis
    proof (cases "n_kind (node_at d q) = definitionCompound")
      case False
      then show ?thesis by (rule compoundOk_leaf [OF wf q])
    next
      case True
      then have "q \<notin> set ?ch" using child_kind(1) [OF wf p(1)] by blast
      moreover have "st d c' i = st d c i" if i: "i \<in> set (n_children (node_at d q))" for i
        using upd [OF child_facts(1) [OF wf q i]] children_disjoint [OF wf q p(1) False i] by blast
      ultimately show ?thesis using comp [OF q False True] compoundOk_cong [of c' d q c] upd [OF q] by simp
    qed
  qed
  show "bodyOk d c' s" if s: "s < n_nodes d"
    unfolding bodyOk_def
  proof (intro impI allI)
    fix i assume sub: "isSub d s" and pend: "st d c' s = NodePending \<or> st d c' s = NodeReady" and i: "inBody d s i"
    have "s \<notin> set ?ch" using child_kind(2) [OF wf p(1)] sub by (auto simp: isSub_def)
    with upd [OF s] pend have "st d c s = NodePending \<or> st d c s = NodeReady" by simp
    with body [OF s] sub have all: "\<And>j. inBody d s j \<Longrightarrow> st d c j = NodePending" by (simp add: bodyOk_def)
    have "i \<notin> set ?ch"
    proof
      assume "i \<in> set ?ch"
      from sameScopesD [OF child_facts(3) [OF wf p(1) this] sub] i all have "st d c p = NodePending" by simp
      with p(2) show False by simp
    qed
    with upd [OF inBody_less [OF wf sub i]] all [OF i] show "st d c' i = NodePending" by simp
  qed
qed

text \<open>The rule for an operation that changes statuses and outboxes only.\<close>

lemma InvX_Inv:
  assumes inv: "InvX d a c"
    and rest: "sameCounts c c'" "sameDomains c c'" "Edges c' = Edges c" "Status c' = Status c"
    and cm: "Commands c' = Commands c"
    and aw: "awaitsOk d c'" and pk: "parkedOk d c'"
    and nodes: "\<And>i. i < n_nodes d \<Longrightarrow> nodeOk d c' i"
    and comp: "\<And>i. i < n_nodes d \<Longrightarrow> compoundOk d c' i" and body: "\<And>i. i < n_nodes d \<Longrightarrow> bodyOk d c' i"
    and prompt: "\<And>i. \<not> doomed c' \<Longrightarrow> i < n_nodes d \<Longrightarrow> awaitsHuman (node_at d i) \<Longrightarrow> st d c' i = NodeReady \<Longrightarrow>
        node_id d i \<in> awaits.keys c'"
  shows "Inv d c'"
proof (rule InvI)
  note x = InvXD [OF inv]
  show "shapeOk d c'"
    by (rule shapeOk_cong [OF x(1) rest(1,2)])
      (use x(1) rest(3,4) in \<open>auto simp: shapeOk_def edgeState_def edgeDisp_def\<close>)
  show "countsOk d c'" using x(2) countsOk_cong [OF rest(1)] by simp
  show "commandsOk d c'"
    using commandsOk_cong [OF rest(1) x(3)] same_outbox(1) [OF cm] x(3) cm by (simp add: commandsOk_def)
  show "quietOk c'" using x(9) rest(4) by (simp add: quietOk_def)
  show "promptOk d c'" using prompt by (simp add: promptOk_def)
qed (use aw pk nodes comp body in auto)

end
