(* ===== verification/Preserve_Nodes.thy ===== *)
theory Preserve_Nodes
  imports Preservation
begin

text \<open>
  Preservation of the invariant by the operations on one node: retry, failure, cancellation,
  blocking, planning, and the abandonment of a doomed run.
\<close>

lemma sameCounts_setNode [simp]:
  "sameCounts c' (setNode k x c) = sameCounts c' c" "sameCounts c' (setEdge f oc e c) = sameCounts c' c"
  by (simp_all add: sameCounts_def)

section \<open>A live node stays live\<close>

lemma live_update:
  assumes wf: "wf_definition d" and a: "a < n_nodes d"
    and kind: "n_kind (node_at d a) \<noteq> definitionCompound" "n_kind (node_at d a) \<noteq> definitionSubprocess"
    and comp: "\<And>q. q < n_nodes d \<Longrightarrow> q \<noteq> a \<Longrightarrow> compoundOk d c q"
    and body: "\<And>s. s < n_nodes d \<Longrightarrow> bodyOk d c s"
    and live: "liveStage (st d c a)" "liveStage (st d c' a)"
    and upd: "\<And>j. j < n_nodes d \<Longrightarrow> j \<noteq> a \<Longrightarrow> st d c' j = st d c j"
  shows "q < n_nodes d \<Longrightarrow> compoundOk d c' q" "s < n_nodes d \<Longrightarrow> bodyOk d c' s"
proof -
  show "compoundOk d c' q" if q: "q < n_nodes d"
  proof (cases "a \<in> set (n_children (node_at d q))")
    case False
    then have "st d c' i = st d c i" if "i \<in> set (n_children (node_at d q))" for i
      using that upd child_facts(1) [OF wf q that] by metis
    then show ?thesis
      using comp [OF q] compoundOk_cong [of c' d q c] compoundOk_leaf [OF wf a kind(1)] upd [OF q] by (cases "q = a") auto
  next
    case True
    have qa: "q \<noteq> a" using child_facts(4) [OF wf q True] kind by auto
    from live_child [OF wf comp [OF q qa] q True live(1)] obtain k where
      k: "stagesAt d c (n_children (node_at d q)) k" "n_children (node_at d q) ! k = a" "st d c q = NodeRunning"
      by metis
    have dist: "distinct (n_children (node_at d q))" by (rule compound_stages(2) [OF wf q True])
    have "st d c' (n_children (node_at d q) ! j) = st d c (n_children (node_at d q) ! j)"
      if "j < length (n_children (node_at d q))" "j \<noteq> k" for j
      using that k(1,2) dist child_facts(1) [OF wf q nth_mem [OF that(1)]]
      by (intro upd) (auto simp: stagesAt_def nth_eq_iff_index_eq)
    with k live(2) have "stagesAt d c' (n_children (node_at d q)) k" by (auto simp: stagesAt_def)
    then show ?thesis using k(3) upd [OF q qa] unfolding compoundOk_def by auto
  qed
  show "bodyOk d c' s" if s: "s < n_nodes d"
    unfolding bodyOk_def
  proof (intro impI allI)
    fix i assume sub: "isSub d s" and pend: "st d c' s = NodePending \<or> st d c' s = NodeReady" and i: "inBody d s i"
    have "s \<noteq> a" using sub kind by (auto simp: isSub_def)
    with upd [OF s] pend body [OF s] sub i have "st d c i = NodePending" by (simp add: bodyOk_def)
    moreover from this have "i \<noteq> a" using live(1) by (auto simp: liveStage_def)
    ultimately show "st d c' i = NodePending" using upd [OF inBody_less [OF wf sub i]] by simp
  qed
qed

lemma runsCommand_kind:
  "runsCommand n \<Longrightarrow> n_kind n \<noteq> definitionCompound \<and> n_kind n \<noteq> definitionSubprocess"
  by (auto simp: runsCommand_def)

text \<open>Returning, failing or canceling a node that runs commands.\<close>

lemma Inv_setNode:
  assumes wf: "wf_definition d" and inv: "InvX d a c" and rc: "runsCommand (node_at d a)"
    and act: "st d c a = NodeRunning \<or> st d c a = NodeBlocked"
    and x: "x = NodeReady \<or> x = NodeFailed \<or> x = NodeCanceled"
  shows "Inv d (setNode (node_id d a) x c)"
proof -
  let ?c = "setNode (node_id d a) x c"
  note i = InvXD [OF inv]
  have st: "st d ?c j = (if j = a then x else st d c j)" if "j < n_nodes d" for j
    using that i(11) wf by (simp add: node_id_inj)
  have keys: "cmds.keys ?c = cmds.keys c" "awaits.keys ?c = awaits.keys c" "parked.keys ?c = parked.keys c"
    "awaits.canonical ?c = awaits.canonical c" "parked.canonical ?c = parked.canonical c"
    using same_outbox [of ?c c] by simp_all
  have live: "liveStage (st d c a)" using act by (auto simp: liveStage_def)
  note upd = live_update [OF wf i(11) _ _ i(7) i(8) live, of ?c]
  have comp: "compoundOk d ?c q" and body: "bodyOk d ?c q" if "q < n_nodes d" for q
    using upd that runsCommand_kind [OF rc] st x i(11) by (auto simp: liveStage_def)
  have nodes: "nodeOk d ?c j" if "j < n_nodes d" for j
  proof (cases "j = a")
    case True
    then show ?thesis using x rc i(12-14) keys by (auto simp: nodeOk_def)
  next
    case False
    then show ?thesis using i(6) [OF that False] nodeOk_cong [of ?c d j c] st [OF that] keys by simp
  qed
  have dom: "sameDomains c ?c" by (rule sameDomains_setNode [OF shapeOk_present(1) [OF wf i(1)] i(11)])
  have doom: "\<not> doomed c" if "\<not> doomed ?c"
    by (rule undoomed [OF i(1) dom _ that]) (use st act in auto)
  show ?thesis
  proof (rule InvX_Inv [OF inv _ dom])
    show "awaitsOk d ?c" using i(4) keys by (simp add: awaitsOk_def)
    show "parkedOk d ?c" using i(5) keys by (simp add: parkedOk_def)
    show "node_id d j \<in> awaits.keys ?c" if "\<not> doomed ?c" "j < n_nodes d" "awaitsHuman (node_at d j)"
      "st d ?c j = NodeReady" for j
      using i(10) [OF doom [OF that(1)] that(2)] that(3,4) rc st [OF that(2)] keys
      by (cases "j = a") auto
  qed (use nodes comp body in simp_all)
qed

section \<open>Blocking\<close>

lemma truncateCut_le: "truncateCut r n \<le> n"
  by (induction n) auto

lemma truncateCut_valid: "utf8_ValidString (take (truncateCut r n) r)"
  by (induction n) (auto simp: utf8_ValidString_def)

lemma truncateReason_ok:
  "length (truncateReason r) \<le> MaxBlockedReasonBytes"
  "utf8_ValidString r \<Longrightarrow> utf8_ValidString (truncateReason r)"
  using truncateCut_le [of r MaxBlockedReasonBytes]
  by (auto simp: truncateReason_def truncateCut_valid)

lemma addBlocked_frame [simp]:
  "nodeStatus (addBlocked k r c) n = nodeStatus c n" "attempts (addBlocked k r c) n = attempts c n"
  "Nodes (addBlocked k r c) = Nodes c" "Edges (addBlocked k r c) = Edges c"
  "Status (addBlocked k r c) = Status c" "AwaitingDecisions (addBlocked k r c) = AwaitingDecisions c"
  "Commands (addBlocked k r c) = Commands c" "sameCounts c' (addBlocked k r c) = sameCounts c' c"
  "doomed (addBlocked k r c) = doomed c"
  by (simp_all add: addBlocked_def nodeStatus_def attempts_def sameCounts_def doomed_def)

lemma addBlocked_keys:
  "parked.keys (addBlocked k r c) = insert k (parked.keys c)"
  "parked.canonical c \<Longrightarrow> parked.canonical (addBlocked k r c)"
  using parked.keys_put [of "\<lparr>bo_NodeID = k, bo_Reason = truncateReason r\<rparr>" c]
    parked.canonical_put [of c "\<lparr>bo_NodeID = k, bo_Reason = truncateReason r\<rparr>"]
  by (simp_all add: addBlocked_putBlocked)

lemma Inv_block:
  assumes wf: "wf_definition d" and inv: "InvX d a c" and rc: "n_kind (node_at d a) = definitionTask"
    and bl: "blockableTask d (node_at d a)" and act: "st d c a = NodeRunning" and r: "utf8_ValidString r"
  shows "Inv d (addBlocked (node_id d a) r (setNode (node_id d a) NodeBlocked c))"
proof -
  let ?c1 = "setNode (node_id d a) NodeBlocked c"
  let ?c = "addBlocked (node_id d a) r ?c1"
  note i = InvXD [OF inv]
  have run: "runsCommand (node_at d a)" using rc by (simp add: runsCommand_def)
  have st: "st d ?c j = (if j = a then NodeBlocked else st d c j)" if "j < n_nodes d" for j
    using that i(11) wf by (simp add: node_id_inj)
  have keys: "cmds.keys ?c = cmds.keys c" "awaits.keys ?c = awaits.keys c"
    "awaits.canonical ?c = awaits.canonical c" "parked.keys ?c = insert (node_id d a) (parked.keys c)"
    "parked.canonical c \<Longrightarrow> parked.canonical ?c"
    using same_outbox [of ?c c] same_outbox(3) [of ?c1 c] addBlocked_keys by simp_all
  have live: "liveStage (st d c a)" "liveStage (st d ?c a)" using act st [OF i(11)] by (simp_all add: liveStage_def)
  note upd = live_update [OF wf i(11) _ _ i(7) i(8) live]
  have comp: "compoundOk d ?c q" and body: "bodyOk d ?c q" if "q < n_nodes d" for q
    using upd that runsCommand_kind [OF run] st by auto
  have nodes: "nodeOk d ?c j" if "j < n_nodes d" for j
  proof (cases "j = a")
    case True
    then show ?thesis using run rc bl i(12,13,15) act keys by (auto simp: nodeOk_def)
  next
    case False
    then show ?thesis
      using i(6) [OF that False] nodeOk_cong [of ?c d j c] st [OF that] keys that i(11) wf by (simp add: node_id_inj)
  qed
  have dom: "sameDomains c ?c"
    using sameDomains_setNode [OF shapeOk_present(1) [OF wf i(1)] i(11), of NodeBlocked] by (simp add: sameDomains_def)
  have doom: "\<not> doomed c" if "\<not> doomed ?c"
    by (rule undoomed [OF i(1) dom _ that]) (use st act in auto)
  have pk: "set (Blocked ?c) \<subseteq> insert \<lparr>bo_NodeID = node_id d a, bo_Reason = truncateReason r\<rparr> (set (Blocked c))"
    by (auto simp: addBlocked_def)
  show ?thesis
  proof (rule InvX_Inv [OF inv _ dom])
    show "awaitsOk d ?c" using i(4) keys by (simp add: awaitsOk_def)
    show "parkedOk d ?c"
      using i(5,11) keys pk truncateReason_ok(1) truncateReason_ok(2) [OF r] unfolding parkedOk_def by auto
    show "node_id d j \<in> awaits.keys ?c" if "\<not> doomed ?c" "j < n_nodes d" "awaitsHuman (node_at d j)"
      "st d ?c j = NodeReady" for j
      using i(10) [OF doom [OF that(1)] that(2)] that(3,4) run st [OF that(2)] keys
      by (cases "j = a") auto
  qed (use nodes comp body in simp_all)
qed

section \<open>Abandoning a doomed run\<close>

lemma failParked_frame [simp]:
  "sameCounts c' (failParked ob c) = sameCounts c' c" "Edges (failParked ob c) = Edges c"
  "Status (failParked ob c) = Status c" "Commands (failParked ob c) = Commands c"
  "AwaitingDecisions (failParked ob c) = AwaitingDecisions c"
  by (simp_all add: failParked_def)

lemma failParked_all:
  "sameCounts c' (fold failParked bs c) = sameCounts c' c" "Edges (fold failParked bs c) = Edges c"
  "Status (fold failParked bs c) = Status c" "Commands (fold failParked bs c) = Commands c"
  "AwaitingDecisions (fold failParked bs c) = AwaitingDecisions c"
  by (induction bs arbitrary: c) simp_all

lemma failParked_nodes:
  "nodeStatus (fold failParked bs c) k =
     (if nodeStatus c k = NodeBlocked \<and> k \<in> bo_NodeID ` set bs then NodeFailed else nodeStatus c k)"
proof (induction bs arbitrary: c)
  case (Cons b bs)
  show ?case by (simp add: Cons.IH) (auto simp: failParked_def)
qed simp

lemma failParked_dom: "fmdom (Nodes (fold failParked bs c)) = fmdom (Nodes c)"
proof (induction bs arbitrary: c)
  case (Cons b bs)
  have "fmdom (Nodes (failParked b c)) = fmdom (Nodes c)"
    by (auto simp: failParked_def nodeStatus_def mget_def fmdomI split: option.splits)
  then show ?case by (simp add: Cons.IH)
qed simp

lemma abandon_fields:
  assumes "doomed c"
  shows "nodeStatus (abandonAfterDoom c) k =
      (if nodeStatus c k = NodeBlocked \<and> k \<in> parked.keys c then NodeFailed else nodeStatus c k)"
    "sameCounts c (abandonAfterDoom c)" "Edges (abandonAfterDoom c) = Edges c"
    "Commands (abandonAfterDoom c) = Commands c" "AwaitingDecisions (abandonAfterDoom c) = []"
    "Blocked (abandonAfterDoom c) = []" "sameDomains c (abandonAfterDoom c)"
    "Status (abandonAfterDoom c) = (if Commands c = [] then doomStatus (abandonAfterDoom c) else Status c)"
proof -
  let ?c0 = "c\<lparr>AwaitingDecisions := []\<rparr>"
  let ?c1 = "fold failParked (Blocked c) ?c0"
  let ?c2 = "?c1\<lparr>Blocked := []\<rparr>"
  have c0: "nodeStatus ?c0 k = nodeStatus c k" "sameCounts c ?c0" for k
    by (simp_all add: nodeStatus_def sameCounts_def)
  have c2: "nodeStatus ?c2 k = nodeStatus ?c1 k" "sameCounts c ?c2 = sameCounts c ?c1"
    "sameDomains c ?c2 = sameDomains c ?c1" for k
    by (simp_all add: nodeStatus_def sameCounts_def sameDomains_def)
  have dom: "sameDomains c ?c1" by (simp add: sameDomains_def failParked_all failParked_dom)
  have stat: "nodeStatus (x\<lparr>Status := s\<rparr>) k = nodeStatus x k" "sameCounts c (x\<lparr>Status := s\<rparr>) = sameCounts c x"
    "sameDomains c (x\<lparr>Status := s\<rparr>) = sameDomains c x" "doomStatus (x\<lparr>Status := s\<rparr>) = doomStatus x" for x s k
    by (simp_all add: nodeStatus_def sameCounts_def sameDomains_def doomStatus_def)
  have c': "abandonAfterDoom c = (if Commands c = [] then ?c2\<lparr>Status := doomStatus ?c2\<rparr> else ?c2)"
    using assms by (simp add: abandonAfterDoom_def Let_def failParked_all)
  show "nodeStatus (abandonAfterDoom c) k =
      (if nodeStatus c k = NodeBlocked \<and> k \<in> parked.keys c then NodeFailed else nodeStatus c k)"
    by (simp add: c' stat c2 failParked_nodes c0 parked.keys_def)
  show "sameCounts c (abandonAfterDoom c)" by (simp add: c' stat c2 failParked_all c0)
  show "sameDomains c (abandonAfterDoom c)" by (simp add: c' stat c2 dom)
  show "Status (abandonAfterDoom c) = (if Commands c = [] then doomStatus (abandonAfterDoom c) else Status c)"
    by (simp add: c' stat failParked_all)
qed (use assms in \<open>simp_all add: abandonAfterDoom_def Let_def failParked_all\<close>)

lemma doomStatus_known: "knownRunStatus (doomStatus c)" "doomStatus c \<noteq> RunRunning"
  by (simp_all add: doomStatus_def)

text \<open>Failing the blocked nodes keeps the stage and body structure.\<close>

lemma fail_blocked_structure:
  assumes wf: "wf_definition d"
    and st: "\<And>k. k < n_nodes d \<Longrightarrow> st d c' k = (if st d c k = NodeBlocked then NodeFailed else st d c k)"
  shows "q < n_nodes d \<Longrightarrow> compoundOk d c q \<Longrightarrow> compoundOk d c' q"
    "s < n_nodes d \<Longrightarrow> bodyOk d c s \<Longrightarrow> bodyOk d c' s"
proof -
  have live: "liveStage (st d c' i) = liveStage (st d c i)" if "i < n_nodes d" for i
    by (simp add: st [OF that] liveStage_def)
  have other: "st d c' i = x \<longleftrightarrow> st d c i = x"
    if "i < n_nodes d" "x \<in> {NodePending, NodeReady, NodeRunning, NodeDone}" for i x
    using that(2) by (auto simp: st [OF that(1)])
  show "compoundOk d c' q" if q: "q < n_nodes d" and ok: "compoundOk d c q"
  proof -
    have ch: "i < n_nodes d" if "i \<in> set (n_children (node_at d q))" for i by (rule child_facts(1) [OF wf q that])
    then have e1: "stagesAt d c' (n_children (node_at d q)) k = stagesAt d c (n_children (node_at d q)) k" for k
      by (auto simp: stagesAt_def live other)
    have e2: "(st d c' q = NodePending) = (st d c q = NodePending)" "(st d c' q = NodeReady) = (st d c q = NodeReady)"
      "(st d c' q = NodeRunning) = (st d c q = NodeRunning)" by (rule other [OF q], simp)+
    have e3: "(\<forall>i\<in>set (n_children (node_at d q)). st d c' i = NodePending) =
        (\<forall>i\<in>set (n_children (node_at d q)). st d c i = NodePending)"
      by (rule ball_cong [OF refl], rule other [OF ch]) simp_all
    have e4: "(\<forall>i\<in>set (n_children (node_at d q)). \<not> liveStage (st d c' i)) =
        (\<forall>i\<in>set (n_children (node_at d q)). \<not> liveStage (st d c i))"
      by (rule ball_cong [OF refl], subst live [OF ch]) simp_all
    have "compoundOk d c' q = compoundOk d c q" by (simp only: compoundOk_def e1 e2 e3 e4)
    with ok show ?thesis by simp
  qed
  show "bodyOk d c' s" if s: "s < n_nodes d" and ok: "bodyOk d c s"
    unfolding bodyOk_def
  proof (intro impI allI)
    fix i assume a: "isSub d s" "st d c' s = NodePending \<or> st d c' s = NodeReady" "inBody d s i"
    have "st d c s = NodePending \<or> st d c s = NodeReady"
      using a(2) other [OF s, of NodePending] other [OF s, of NodeReady] by blast
    with ok a(1,3) have "st d c i = NodePending" unfolding bodyOk_def by blast
    with other [OF inBody_less [OF wf a(1,3)], of NodePending] show "st d c' i = NodePending" by blast
  qed
qed

lemma Inv_abandon:
  assumes wf: "wf_definition d" and inv: "Inv d c"
  shows "Inv d (abandonAfterDoom c)"
proof (cases "doomed c")
  case False
  then show ?thesis using inv by (simp add: abandonAfterDoom_def)
next
  case True
  let ?c = "abandonAfterDoom c"
  note i = InvD [OF inv] and f = abandon_fields [OF True]
  have st: "st d ?c k = (if st d c k = NodeBlocked then NodeFailed else st d c k)" if "k < n_nodes d" for k
    using i(6) [OF that] by (simp add: f nodeOk_def)
  have att: "attempts ?c = attempts c" using f(2) attempts_cong [of ?c c] by (simp add: sameCounts_def)
  have keys: "cmds.keys ?c = cmds.keys c" "cmds.canonical ?c = cmds.canonical c" "awaits.keys ?c = {}"
    "awaits.canonical ?c" "parked.keys ?c = {}" "parked.canonical ?c"
    using same_outbox(1) [OF f(4)] f(5,6)
    by (simp_all add: awaits.keys_def awaits.canonical_def parked.keys_def parked.canonical_def)
  have quiet: "Commands c = []" if "Status c \<noteq> RunRunning" using i(9) that by (simp add: quietOk_def)
  have doom: "doomed ?c"
  proof (rule ccontr)
    assume u: "\<not> doomed ?c"
    have "\<not> doomed c"
    proof (rule undoomed [OF i(1) f(7) _ u])
      fix k assume "k < n_nodes d" "st d c k = NodeFailed \<or> st d c k = NodeCanceled"
      then show "st d ?c k = NodeFailed \<or> st d ?c k = NodeCanceled" using st [of k] by auto
    qed
    with True show False by simp
  qed
  show ?thesis
  proof (rule InvI)
    show "shapeOk d ?c"
      by (rule shapeOk_cong [OF i(1) f(2,7)])
        (use i(1) f(3,8) doomStatus_known in \<open>auto simp: shapeOk_def edgeState_def edgeDisp_def\<close>)
    show "countsOk d ?c" using i(2) countsOk_cong [OF f(2)] by simp
    show "commandsOk d ?c" using commandsOk_cong [OF f(2) i(3)] i(3) keys f(4) by (simp add: commandsOk_def)
    show "awaitsOk d ?c" "parkedOk d ?c" using keys f(6) by (simp_all add: awaitsOk_def parkedOk_def)
    show "nodeOk d ?c k" if "k < n_nodes d" for k
      using i(6) [OF that] st [OF that] keys att by (auto simp: nodeOk_def runsCommand_def)
    show "compoundOk d ?c k" if "k < n_nodes d" for k
      using fail_blocked_structure(1) [OF wf st that i(7) [OF that]] by blast
    show "bodyOk d ?c k" if "k < n_nodes d" for k
      using fail_blocked_structure(2) [OF wf st that i(8) [OF that]] by blast
    show "quietOk ?c" using quiet f doomStatus_known by (auto simp: quietOk_def)
    show "promptOk d ?c" using doom by (simp add: promptOk_def)
  qed
qed

section \<open>Planning\<close>

lemma mforall_fmupd:
  "mforall P (fmupd k v m) \<longleftrightarrow> P k v \<and> (\<forall>k' v'. k' \<noteq> k \<longrightarrow> fmlookup m k' = Some v' \<longrightarrow> P k' v')"
  by (auto simp: mforall_iff)

lemma putCommand_frame [simp]:
  "nodeStatus (putCommand x c) n = nodeStatus c n" "attempts (putCommand x c) n = attempts c n"
  "edgeDisp (putCommand x c) f oc = edgeDisp c f oc" "Nodes (putCommand x c) = Nodes c"
  "Edges (putCommand x c) = Edges c" "Status (putCommand x c) = Status c"
  "AwaitingDecisions (putCommand x c) = AwaitingDecisions c" "Blocked (putCommand x c) = Blocked c"
  "Version (putCommand x c) = Version c" "RunID (putCommand x c) = RunID c"
  "Attempts (putCommand x c) = Attempts c" "AttemptCeilings (putCommand x c) = AttemptCeilings c"
  "Iterations (putCommand x c) = Iterations c"
  by (simp_all add: putCommand_def nodeStatus_def attempts_def edgeDisp_def)

lemma putCommand_new:
  assumes "cmd_NodeID x \<notin> cmds.keys c"
  shows "set (Commands (putCommand x c)) = insert x (set (Commands c))"
proof -
  have "\<not> list_ex (\<lambda>y. cmd_NodeID y = cmd_NodeID x) (Commands c)"
    using assms by (auto simp: cmds.keys_def list_ex_iff image_iff)
  then show ?thesis by (simp add: putCommand_def)
qed

text \<open>Recording an attempt within the node's executable ceiling.\<close>

lemma countsOk_record:
  assumes wf: "wf_definition d" and a: "a < n_nodes d" and ok: "countsOk d c"
    and at: "1 \<le> x" "x \<le> MaxInt"
    and rc: "runsCommand (node_at d a)" "x \<le> executableAttemptCeiling c d (node_at d a)"
    and c': "Attempts c' = fmupd (node_id d a) x (Attempts c)" "AttemptCeilings c' = AttemptCeilings c"
      "Iterations c' = Iterations c"
  shows "countsOk d c'"
proof -
  have ceil: "attemptCeiling c' = attemptCeiling c" by (rule attemptCeiling_cong [OF c'(2)])
  have att: "attempts c' k = (if k = node_id d a then x else attempts c k)" for k
    by (simp add: attempts_def c'(1))
  have self: "x \<le> executableAttemptCeiling c' d (node_at d a)"
    using rc(2) at(2) by (auto simp: executableAttemptCeiling_def saturatingNextAttempt_def ceil att
        split: option.splits if_splits)
  have other: "executableAttemptCeiling c' d n = executableAttemptCeiling c d n" if "n_id n \<noteq> node_id d a" for n
    using that by (simp add: executableAttemptCeiling_def saturatingNextAttempt_def ceil att split: option.splits)
  have "attemptEntryOk c' d k v" if k: "k \<noteq> node_id d a" "fmlookup (Attempts c) k = Some v" for k v
  proof -
    from ok k(2) have e: "attemptEntryOk c d k v" by (simp add: countsOk_def mforall_iff)
    then obtain n where n: "definitionNodeByID d k = Some n" by (auto simp: attemptEntryOk_def split: option.splits)
    then have "n_id n = k" using byID_Some [OF wf, of k n] by auto
    with k(1) have "executableAttemptCeiling c' d n = executableAttemptCeiling c d n" by (intro other) simp
    with e show ?thesis by (simp only: attemptEntryOk_def n option.case)
  qed
  moreover have "attemptEntryOk c' d (node_id d a) x"
    using wf a at rc(1) self by (simp add: attemptEntryOk_def)
  ultimately show ?thesis
    using ok at(2) unfolding countsOk_def c'(2,3) unfolding c'(1) mforall_fmupd unfolding mforall_iff by blast
qed

lemma nextAttempt_le: "nextAttempt c k \<le> MaxInt"
  using wrap64_range [of "attempts c k + 1"] by (simp add: nextAttempt_def is_int64_def)

lemma Inv_plan:
  assumes wf: "wf_definition d" and inv: "Inv d c" and run: "Status c = RunRunning"
    and a: "a < n_nodes d" and rc: "runsCommand (node_at d a)" and plan: "planNode d a command c = Inr c'"
  shows "Inv d c'"
proof -
  define x where "x = nextAttempt c (node_id d a)"
  define e where "e = taskCommand c d (node_at d a) x"
  let ?c1 = "recordAttempt (node_id d a) x (setNode (node_id d a) NodeRunning c)"
  have ready: "st d c a = NodeReady" and x1: "1 \<le> x" and x2: "x \<le> executableAttemptCeiling c d (node_at d a)"
    and c': "c' = putCommand e ?c1"
    using plan by (auto simp: planNode_def Let_def x_def e_def split: if_splits)
  note i = InvD [OF inv]
  have out: "node_id d a \<notin> cmds.keys c" "node_id d a \<notin> awaits.keys c" "node_id d a \<notin> parked.keys c"
    using i(6) [OF a] ready rc by (auto simp: nodeOk_def)
  have st: "st d c' j = (if j = a then NodeRunning else st d c j)" if "j < n_nodes d" for j
    using that a wf by (simp add: c' node_id_inj)
  have att: "attempts c' k = (if k = node_id d a then x else attempts c k)" for k by (simp add: c')
  have same: "Commands ?c1 = Commands c" "AwaitingDecisions c' = AwaitingDecisions c" "Blocked c' = Blocked c"
    "Edges c' = Edges c" "Status c' = Status c" by (simp_all add: c')
  have key: "cmd_NodeID e = node_id d a" by (simp add: e_def)
  have keys: "cmds.keys c' = insert (node_id d a) (cmds.keys c)" "awaits.keys c' = awaits.keys c"
    "parked.keys c' = parked.keys c"
    using same_outbox(1) [OF same(1)] same_outbox(2) [OF same(2)] same_outbox(3) [OF same(3)]
    by (simp_all add: c' cmds.keys_put key)
  have canon: "cmds.canonical c'" "awaits.canonical c'" "parked.canonical c'"
    using same_outbox(1) [OF same(1)] same_outbox(2) [OF same(2)] same_outbox(3) [OF same(3)]
      Inv_canonical [OF inv] by (simp_all add: c' cmds.canonical_put)
  have cmdset: "set (Commands c') = insert e (set (Commands c))"
    unfolding c' using putCommand_new [of e ?c1] key out same_outbox(1) [OF same(1)] same(1) by simp
  have tc: "taskCommand c' d n y = taskCommand c d n y" for n y
    by (rule taskCommand_cong) (simp_all add: c')
  have live: "liveStage (st d c a)" "liveStage (st d c' a)" using ready st [OF a] by (simp_all add: liveStage_def)
  note upd = live_update [OF wf a _ _ i(7) i(8) live]
  have dom: "sameDomains c c'"
    using sameDomains_setNode [OF shapeOk_present(1) [OF wf i(1)] a, of NodeRunning]
    by (simp add: sameDomains_def c')
  show ?thesis
  proof (rule InvI)
    show "shapeOk d c'"
      using i(1) dom unfolding shapeOk_def sameDomains_def by (simp add: c' edgeState_def)
    show "countsOk d c'"
      by (rule countsOk_record [OF wf a i(2) x1 _ rc x2]) (simp_all add: c' x_def nextAttempt_le recordAttempt_def)
    show "commandsOk d c'"
      unfolding commandsOk_def
    proof (intro conjI ballI allI impI)
      show "cmds.canonical c'" by (rule canon(1))
      show "cmds.keys c' \<subseteq> node_id d ` {..<n_nodes d}"
        using i(3) a keys(1) by (auto simp: commandsOk_def)
      fix y j assume y: "y \<in> set (Commands c')" "j < n_nodes d" "cmd_NodeID y = node_id d j"
      show "y = taskCommand c' d (node_at d j) (attempts c' (node_id d j))"
      proof (cases "j = a")
        case True
        with y(3) out(1) have "y \<notin> set (Commands c)" by (metis cmds.keys_def imageI)
        with y(1) cmdset have "y = e" by simp
        with True show ?thesis by (simp add: tc att e_def)
      next
        case False
        then have ne: "node_id d j \<noteq> node_id d a" using y(2) a wf by (simp add: node_id_inj)
        with y cmdset key have "y \<in> set (Commands c)" by auto
        with i(3) y(2,3) ne show ?thesis by (simp add: tc att commandsOk_def)
      qed
    qed
    show "awaitsOk d c'" "parkedOk d c'"
      using i(4,5) keys canon same by (simp_all add: awaitsOk_def parkedOk_def)
    show "nodeOk d c' j" if "j < n_nodes d" for j
    proof (cases "j = a")
      case True
      then show ?thesis using st [OF a] keys out rc x1 att by (auto simp: nodeOk_def)
    next
      case False
      then have ne: "node_id d j \<noteq> node_id d a" using that a wf by (simp add: node_id_inj)
      show ?thesis using i(6) [OF that] nodeOk_cong [of c' d j c] st [OF that] False keys ne att by simp
    qed
    show "compoundOk d c' j" "bodyOk d c' j" if "j < n_nodes d" for j
      using upd that runsCommand_kind [OF rc] st by auto
    show "quietOk c'" using run same by (simp add: quietOk_def)
    have "\<not> doomed c" if "\<not> doomed c'"
      by (rule undoomed [OF i(1) dom _ that]) (use st ready in auto)
    moreover have "st d c j = NodeReady" if "j < n_nodes d" "st d c' j = NodeReady" for j
      using that st by (auto split: if_splits)
    ultimately show "promptOk d c'" using i(10) run unfolding promptOk_def keys same by blast
  qed
qed

end
