(* ===== verification/Preserve_Stages.thy ===== *)
theory Preserve_Stages
  imports Preserve_Nodes
begin

text \<open>
  Preservation of the invariant by the stage operations of a compound: completing a stage,
  returning work to the do stage, returning an unapproved plan, raising a retry window.
\<close>

section \<open>Attempt ceilings\<close>

lemma attemptEntryOk_mono:
  assumes "attemptEntryOk c d k v" "definitionNodeByID d k = Some n"
    "executableAttemptCeiling c d n \<le> executableAttemptCeiling c' d n"
  shows "attemptEntryOk c' d k v"
  using assms(1,3) unfolding attemptEntryOk_def assms(2) option.case by (meson order_trans)

lemma attemptEntryOk_pos: "attemptEntryOk c d k v \<Longrightarrow> 1 \<le> v"
  by (auto simp: attemptEntryOk_def simp del: runsCommand_not_awaitsHuman split: option.splits if_splits)

lemma countsOk_raise:
  assumes wf: "wf_definition d" and w: "w < n_nodes d" and ok: "countsOk d c"
    and r: "attemptCeiling c (node_at d w) \<le> r" "n_maxAttempts (node_at d w) < r" "r \<le> MaxInt"
    and rc: "runsCommand (node_at d w)" "n_retryAuthored (node_at d w) \<or> n_loops (node_at d w) \<noteq> []"
  shows "countsOk d (c\<lparr>AttemptCeilings := fmupd (node_id d w) r (AttemptCeilings c)\<rparr>)"
proof -
  let ?c = "c\<lparr>AttemptCeilings := fmupd (node_id d w) r (AttemptCeilings c)\<rparr>"
  have att: "attempts ?c k = attempts c k" for k by (simp add: attempts_def)
  have ceil: "attemptCeiling c n \<le> attemptCeiling ?c n" if "definitionNodeByID d (n_id n) = Some n" for n
  proof (cases "n_id n = node_id d w")
    case True
    with that w wf have "n = node_at d w" by simp
    with r(1,2) show ?thesis by (simp add: attemptCeiling_def)
  qed (simp add: attemptCeiling_def)
  have anchor: "definitionNodeByID d (n_id a) = Some a" if n: "n < n_nodes d" and a: "gateAnchor d (node_at d n) = Some a" for n a
  proof -
    from a obtain p x where p: "n_parent (node_at d n) = Some p" "n_doAnchor (node_at d p) = Some x" "a = node_at d x"
      by (auto simp: gateAnchor_def split: option.splits if_splits)
    from wf_nodeD [OF wf n] p(1) have p': "p < n_nodes d" "n \<in> set (n_children (node_at d p))"
      by (auto simp: wf_node_def Let_def)
    from wf_nodeD [OF wf p'(1)] child_facts(4) [OF wf p'] have "wf_compound d p"
      by (simp add: wf_node_def Let_def)
    with p(2) have "x \<in> set (n_children (node_at d p))" by (auto simp: wf_compound_def Let_def)
    from child_facts(1) [OF wf p'(1) this] show ?thesis using p(3) wf by simp
  qed
  have exec: "executableAttemptCeiling c d (node_at d n) \<le> executableAttemptCeiling ?c d (node_at d n)"
    if n: "n < n_nodes d" for n
    using ceil [of "node_at d n"] n wf anchor [OF n] ceil
    by (auto simp: executableAttemptCeiling_def saturatingNextAttempt_def att split: option.splits)
  have "attemptEntryOk ?c d k v" if k: "fmlookup (Attempts c) k = Some v" for k v
  proof -
    from ok k have e: "attemptEntryOk c d k v" by (simp add: countsOk_def mforall_iff)
    then obtain n where n: "definitionNodeByID d k = Some (node_at d n)" "n < n_nodes d"
      using byID_Some [OF wf, of k] by (auto simp: attemptEntryOk_def split: option.splits)
    from attemptEntryOk_mono [OF e n(1) exec [OF n(2)]] show ?thesis .
  qed
  moreover have "ceilingEntryOk d (node_id d w) r" using rc r(2) w wf by (simp add: ceilingEntryOk_def)
  ultimately show ?thesis
    using ok r(3) unfolding countsOk_def by (simp add: mforall_fmupd mforall_iff)
qed

lemma InvX_ceiling:
  assumes inv: "InvX d a c" and c': "c' = c\<lparr>AttemptCeilings := m\<rparr>" and ok: "countsOk d c'"
  shows "InvX d a c'"
proof -
  note i = InvXD [OF inv]
  have same: "nodeStatus c' k = nodeStatus c k" "attempts c' k = attempts c k" "edgeState c' e = edgeState c e"
    "doomed c' = doomed c" "cmds.keys c' = cmds.keys c" "awaits.keys c' = awaits.keys c"
    "parked.keys c' = parked.keys c" "cmds.canonical c' = cmds.canonical c"
    "awaits.canonical c' = awaits.canonical c" "parked.canonical c' = parked.canonical c" for k e
    by (simp_all add: c' nodeStatus_def attempts_def edgeState_def edgeDisp_def doomed_def cmds.keys_def
        awaits.keys_def parked.keys_def cmds.canonical_def awaits.canonical_def parked.canonical_def)
  have tc: "taskCommand c' d n y = taskCommand c d n y" for n y by (rule taskCommand_cong) (simp_all add: c')
  have "shapeOk d c'" using i(1) unfolding shapeOk_def same by (simp add: c')
  moreover have "commandsOk d c'" using i(3) unfolding commandsOk_def same tc by (simp add: c')
  moreover have "awaitsOk d c'" "parkedOk d c'" using i(4,5) unfolding awaitsOk_def parkedOk_def same by (simp_all add: c')
  moreover have "nodeOk d c' j = nodeOk d c j" "compoundOk d c' j = compoundOk d c j" "bodyOk d c' j = bodyOk d c j" for j
    unfolding nodeOk_def compoundOk_def bodyOk_def stagesAt_def same by simp_all
  ultimately show ?thesis using inv ok unfolding InvX_def same by (simp add: c')
qed

lemma attempts_bounds:
  assumes "countsOk d c"
  shows "0 \<le> attempts c k" "attempts c k \<le> MaxInt"
proof -
  have "0 \<le> v \<and> v \<le> MaxInt" if "fmlookup (Attempts c) k = Some v" for v
    using assms that attemptEntryOk_pos [of c d k v] unfolding countsOk_def mforall_iff by force
  then show "0 \<le> attempts c k" "attempts c k \<le> MaxInt"
    by (auto simp: attempts_def mget_def MaxInt_def split: option.splits)
qed

lemma InvX_raise:
  assumes wf: "wf_definition d" and inv: "InvX d a c" and w: "w < n_nodes d"
    and rc: "runsCommand (node_at d w)" "n_retryAuthored (node_at d w)"
    and raise: "raiseAttemptCeiling (node_at d w) c = Inr c'"
  shows "InvX d a c'" "nodeStatus c' k = nodeStatus c k"
proof -
  note i = InvXD [OF inv]
  have m: "1 \<le> n_maxAttempts (node_at d w)" "n_maxAttempts (node_at d w) \<le> MaxInt"
    using wf_nodeD [OF wf w] rc(1) by (auto simp: wf_node_def Let_def)
  have m0: "0 \<le> n_maxAttempts (node_at d w)" using m(1) by simp
  note eff = raiseAttemptCeiling_effect [OF raise attempts_bounds [OF i(2)] m0 m(2)]
  let ?r = "attempts c (node_id d w) + n_maxAttempts (node_at d w)"
  have r1: "attemptCeiling c (node_at d w) < ?r" using eff(1,2) by simp
  have r2: "n_maxAttempts (node_at d w) < ?r" using r1 attemptCeiling_ge [of "node_at d w" c] by simp
  have "wrap64 (MaxInt - n_maxAttempts (node_at d w)) = MaxInt - n_maxAttempts (node_at d w)"
    using m by (intro wrap64_id) (simp add: is_int64_def MaxInt_def)
  then have r3: "?r \<le> MaxInt" using raise by (auto simp: raiseAttemptCeiling_def Let_def split: if_splits)
  have "countsOk d c'" unfolding eff(3)
    by (rule countsOk_raise [OF wf w i(2) less_imp_le [OF r1] r2 r3]) (use rc in auto)
  from InvX_ceiling [OF inv eff(3) this] show "InvX d a c'" .
  show "nodeStatus c' k = nodeStatus c k" by (subst eff(3)) (simp add: nodeStatus_def)
qed

section \<open>Moving between stages\<close>

lemma parent_facts:
  assumes "wf_definition d" "i < n_nodes d" "n_parent (node_at d i) = Some p"
  shows "p < n_nodes d" "i \<in> set (n_children (node_at d p))"
  using wf_nodeD [OF assms(1,2)] assms(3) by (auto simp: wf_node_def Let_def)

lemma index_of_stage:
  assumes "wf_definition d" "p < n_nodes d" "k < length (n_children (node_at d p))"
  shows "index_of (n_children (node_at d p) ! k) (n_children (node_at d p)) = Some k"
  using compound_stages(2) [OF assms(1,2) nth_mem [OF assms(3)]] assms(3) by (rule index_of_nth)

text \<open>A node without a command and not blocked.\<close>

lemma nodeOk_idle:
  assumes "st d c i = NodeReady \<or> st d c i = NodePending \<or> st d c i = NodeDone \<or> st d c i = NodeSkipped"
    "node_id d i \<notin> cmds.keys c" "node_id d i \<notin> parked.keys c"
    "node_id d i \<in> awaits.keys c \<Longrightarrow> awaitsHuman (node_at d i) \<and> st d c i = NodeReady"
    "st d c i = NodeDone \<Longrightarrow> runsCommand (node_at d i) \<Longrightarrow> 1 \<le> attempts c (node_id d i)"
  shows "nodeOk d c i"
  using assms unfolding nodeOk_def by (elim disjE) auto

text \<open>The rule for a stage operation that parks at most one human decision.\<close>

lemma stage_Inv:
  assumes wf: "wf_definition d" and inv: "InvX d a c"
    and p: "p < n_nodes d" "a \<noteq> p" "st d c p = NodeRunning"
    and comp: "\<And>q. q < n_nodes d \<Longrightarrow> q \<noteq> p \<Longrightarrow> n_kind (node_at d q) = definitionCompound \<Longrightarrow> compoundOk d c q"
    and rest: "sameCounts c c'" "sameDomains c c'" "Edges c' = Edges c" "Status c' = Status c"
      "Commands c' = Commands c" "Blocked c' = Blocked c"
    and aw: "awaits.canonical c'"
      "awaits.keys c' = awaits.keys c \<union> (if awaitsHuman (node_at d t) then {node_id d t} else {})"
    and t: "t \<in> set (n_children (node_at d p))" "st d c' t = NodeReady"
    and upd: "\<And>j. j < n_nodes d \<Longrightarrow> st d c' j = st d c j \<and> j \<noteq> a \<or> j \<in> set (n_children (node_at d p))"
    and ch: "\<And>j. j \<in> set (n_children (node_at d p)) \<Longrightarrow> st d c' j = st d c j \<and> j \<noteq> a \<or>
        (j = t \<or> st d c' j = NodePending \<or> st d c' j = NodeDone \<and> (runsCommand (node_at d j) \<longrightarrow> 1 \<le> attempts c (node_id d j)))
        \<and> (j = a \<or> st d c j = NodeDone \<or> st d c j = NodePending)"
    and doom: "st d c a \<noteq> NodeFailed" "st d c a \<noteq> NodeCanceled"
    and k: "stagesAt d c' (n_children (node_at d p)) k"
  shows "Inv d c'"
proof -
  note i = InvXD [OF inv]
  have t': "t < n_nodes d" by (rule child_facts(1) [OF wf p(1) t(1)])
  have struct: "compoundOk d c' q" "bodyOk d c' q" if "q < n_nodes d" for q
  proof -
    have only: "st d c' j = st d c j \<or> j \<in> set (n_children (node_at d p))" if "j < n_nodes d" for j
      using upd [OF that] by blast
    show "compoundOk d c' q" "bodyOk d c' q"
      using stage_update [OF wf p(1,3) comp i(8) only k] that by blast+
  qed
  have att: "attempts c' j = attempts c j" for j
    using rest(1) attempts_cong [of c' c] by (simp add: sameCounts_def)
  have keys: "cmds.keys c' = cmds.keys c" "parked.keys c' = parked.keys c" "parked.canonical c' = parked.canonical c"
    using same_outbox(1) [OF rest(5)] same_outbox(3) [OF rest(6)] by simp_all
  have out: "node_id d j \<notin> cmds.keys c \<and> node_id d j \<notin> awaits.keys c \<and> node_id d j \<notin> parked.keys c"
    if "j < n_nodes d" "j = a \<or> st d c j = NodeDone \<or> st d c j = NodePending" for j
  proof (cases "j = a")
    case False
    with that have "nodeOk d c j" "st d c j = NodeDone \<or> st d c j = NodePending" using i(6) by blast+
    then show ?thesis by (elim disjE) (simp_all add: nodeOk_def)
  qed (use i(12-14) in simp)
  have nodes: "nodeOk d c' j" if j: "j < n_nodes d" for j
  proof (cases "st d c' j = st d c j \<and> j \<noteq> a")
    case True
    have "node_id d j \<in> awaits.keys c' \<longleftrightarrow> node_id d j \<in> awaits.keys c \<or> j = t \<and> awaitsHuman (node_at d t)"
      using aw(2) j t' wf by (auto simp: node_id_inj)
    note mem = this
    have ok: "nodeOk d c j" using i(6) [OF j] True by blast
    show ?thesis
    proof (cases "j = t")
      case False
      then show ?thesis using ok nodeOk_cong [of c' d j c] True keys att mem by simp
    next
      case tt: True
      then have "st d c j = NodeReady" using True t(2) by simp
      then have "node_id d j \<notin> cmds.keys c" "node_id d j \<notin> parked.keys c"
        "node_id d j \<in> awaits.keys c \<Longrightarrow> awaitsHuman (node_at d j)"
        using ok by (simp_all add: nodeOk_def)
      then show ?thesis by (intro nodeOk_idle) (use tt t(2) keys mem in auto)
    qed
  next
    case False
    with upd [OF j] have jc: "j \<in> set (n_children (node_at d p))" by blast
    from ch [OF jc] False have
      new: "j = t \<or> st d c' j = NodePending \<or> st d c' j = NodeDone \<and> (runsCommand (node_at d j) \<longrightarrow> 1 \<le> attempts c (node_id d j))"
      and old: "j = a \<or> st d c j = NodeDone \<or> st d c j = NodePending" by blast+
    have "node_id d j \<in> awaits.keys c' \<longleftrightarrow> j = t \<and> awaitsHuman (node_at d t)"
      using out [OF j old] aw(2) j t' wf by (auto simp: node_id_inj)
    with new out [OF j old] t(2) keys att show ?thesis by (intro nodeOk_idle) auto
  qed
  have undoom: "\<not> doomed c" if "\<not> doomed c'"
  proof (rule undoomed [OF i(1) rest(2) _ that])
    fix j assume j: "j < n_nodes d" "st d c j = NodeFailed \<or> st d c j = NodeCanceled"
    then have "\<not> (j = a \<or> st d c j = NodeDone \<or> st d c j = NodePending)" using doom by auto
    with upd [OF j(1)] ch [of j] have "st d c' j = st d c j" by blast
    with j(2) show "st d c' j = NodeFailed \<or> st d c' j = NodeCanceled" by simp
  qed
  show ?thesis
  proof (rule InvX_Inv [OF inv rest(1-5)])
    show "awaitsOk d c'" using i(4) aw t' by (auto simp: awaitsOk_def)
    show "parkedOk d c'" using i(5) keys rest(6) by (simp add: parkedOk_def)
    show "node_id d j \<in> awaits.keys c'" if "\<not> doomed c'" "j < n_nodes d" "awaitsHuman (node_at d j)"
      "st d c' j = NodeReady" for j
    proof (cases "j = t")
      case True
      then show ?thesis using aw(2) that(3) by simp
    next
      case False
      have "st d c' j = st d c j \<and> j \<noteq> a"
      proof (rule ccontr)
        assume n: "\<not> (st d c' j = st d c j \<and> j \<noteq> a)"
        with upd [OF that(2)] have "j \<in> set (n_children (node_at d p))" by blast
        from ch [OF this] n False have "st d c' j = NodePending \<or> st d c' j = NodeDone" by blast
        with that(4) show False by simp
      qed
      with that(4) have "st d c j = NodeReady \<and> j \<noteq> a" by simp
      then show ?thesis using i(10) [OF undoom [OF that(1)] that(2)] that(3) aw(2) by simp
    qed
  qed (use nodes struct in blast)+
qed

lemma Inv_advanceStage:
  assumes wf: "wf_definition d" and inv: "InvX d a c"
    and act: "st d c a = NodeRunning \<or> st d c a = NodeBlocked \<or> st d c a = NodeReady"
    and ready: "runsCommand (node_at d a) \<Longrightarrow> st d c a \<noteq> NodeReady"
    and step: "advanceStage d a c = Inr c'"
  shows "Inv d c'"
proof -
  note i = InvXD [OF inv]
  from step obtain p pos where p: "n_parent (node_at d a) = Some p" and prun: "st d c p = NodeRunning"
    and pos: "index_of a (n_children (node_at d p)) = Some pos" "pos + 1 < length (n_children (node_at d p))"
    and pend: "st d c (n_children (node_at d p) ! (pos + 1)) = NodePending"
    and c': "c' = activate (node_at d (n_children (node_at d p) ! (pos + 1))) (setNode (node_id d a) NodeDone c)"
    by (auto simp: advanceStage_def Let_def split: option.splits if_splits)
  let ?ch = "n_children (node_at d p)"
  define t where "t = ?ch ! (pos + 1)"
  have a: "a < n_nodes d" by (rule i(11))
  note p' = parent_facts [OF wf a p]
  have ap: "a \<noteq> p" using child_facts(2,5) [OF wf p'] by auto
  have tch: "t \<in> set ?ch" using pos(2) by (simp add: t_def)
  have t: "t < n_nodes d" by (rule child_facts(1) [OF wf p'(1) tch])
  have apos: "?ch ! pos = a" "pos < length ?ch" using index_of_Some [OF pos(1)] by auto
  have dist: "distinct ?ch" by (rule compound_stages(2) [OF wf p'])
  have ta: "t \<noteq> a" using pend act by (auto simp: t_def)
  have st: "st d c' j = (if j = t then NodeReady else if j = a then NodeDone else st d c j)" if "j < n_nodes d" for j
    using that t a wf by (simp add: c' t_def activate_facts node_id_inj)
  have "liveStage (st d c a)" using act by (auto simp: liveStage_def)
  from live_child [OF wf i(7) [OF p'(1) ap [symmetric]] p' this] obtain k where
    k: "stagesAt d c ?ch k" "?ch ! k = a" by metis
  have "k < length ?ch" using k(1) by (simp add: stagesAt_def)
  then have kpos: "k = pos" using nth_eq_iff_index_eq [OF dist, of k pos] k(2) apos by simp
  have chst: "st d c' (?ch ! j) = (if j = pos + 1 then NodeReady else if j = pos then NodeDone else st d c (?ch ! j))"
    if "j < length ?ch" for j
    using st [OF child_facts(1) [OF wf p'(1) nth_mem [OF that]]] that apos pos(2) dist
    by (auto simp: t_def nth_eq_iff_index_eq)
  have stages: "stagesAt d c' ?ch (pos + 1)"
    using k(1) pos(2) unfolding stagesAt_def kpos by (auto simp: chst liveStage_def less_Suc_eq)
  have dom: "sameDomains c c'"
  proof -
    have "sameDomains c (setNode (node_id d a) NodeDone c)"
      using shapeOk_present(1) [OF wf i(1)] a by (rule sameDomains_setNode)
    moreover from this have "nodesPresent d (setNode (node_id d a) NodeDone c)"
      using shapeOk_present(1) [OF wf i(1)] by (rule sameDomains_present)
    ultimately show ?thesis unfolding c' t_def [symmetric] using sameDomains_activate [OF _ t] sameDomains_trans by blast
  qed
  have frame: "sameRest (setNode (node_id d a) NodeDone c) c'" unfolding c' by (rule activate_facts(3))
  show ?thesis
  proof (rule stage_Inv [OF wf inv p'(1) ap prun _ _ dom, where t = t and k = "pos + 1"])
    show "compoundOk d c q" if "q < n_nodes d" "q \<noteq> p" "n_kind (node_at d q) = definitionCompound" for q
      using i(7) [OF that(1)] that child_kind(1) [OF wf p'] by auto
    show "sameCounts c c'" "Status c' = Status c" "Commands c' = Commands c" "Blocked c' = Blocked c"
      using frame by (simp_all add: sameRest_def sameCounts_def)
    show "Edges c' = Edges c" by (simp add: c' activate_facts)
    show "awaits.canonical c'" using i(4) by (simp add: c' awaitsOk_def activate_facts)
    show "awaits.keys c' = awaits.keys c \<union> (if awaitsHuman (node_at d t) then {node_id d t} else {})"
      by (simp add: c' activate_facts t_def)
    show "st d c' t = NodeReady" using st [OF t] by simp
    show "st d c' j = st d c j \<and> j \<noteq> a \<or> j \<in> set ?ch" if "j < n_nodes d" for j
      using st [OF that] tch p'(2) by auto
    show "st d c' j = st d c j \<and> j \<noteq> a \<or>
        (j = t \<or> st d c' j = NodePending \<or> st d c' j = NodeDone \<and> (runsCommand (node_at d j) \<longrightarrow> 1 \<le> attempts c (node_id d j)))
        \<and> (j = a \<or> st d c j = NodeDone \<or> st d c j = NodePending)" if "j \<in> set ?ch" for j
      using st [OF child_facts(1) [OF wf p'(1) that]] pend i(15) act ready ta by (auto simp: t_def)
  qed (use tch act stages in auto)
qed

section \<open>Returning work\<close>

lemma take_drop_mem:
  assumes "distinct xs" "m < length xs" "l < length xs" "f < l"
  shows "xs ! m \<in> set (take (l - f) (drop (f + 1) xs)) \<longleftrightarrow> f < m \<and> m \<le> l"
proof
  assume "xs ! m \<in> set (take (l - f) (drop (f + 1) xs))"
  then obtain x where x: "x < l - f" "f + 1 + x < length xs" "xs ! m = xs ! (f + 1 + x)"
    by (auto simp: in_set_conv_nth)
  then have "m = f + 1 + x" using assms(1,2) by (simp add: nth_eq_iff_index_eq)
  with x(1) show "f < m \<and> m \<le> l" by simp
next
  assume m: "f < m \<and> m \<le> l"
  then have "m - (f + 1) < l - f" "f + 1 + (m - (f + 1)) = m" by linarith+
  then have "take (l - f) (drop (f + 1) xs) ! (m - (f + 1)) = xs ! m"
    "m - (f + 1) < length (take (l - f) (drop (f + 1) xs))" using assms by simp_all
  then show "xs ! m \<in> set (take (l - f) (drop (f + 1) xs))" by (metis nth_mem)
qed

lemma sameDomains_setNode2:
  assumes "wf_definition d" "shapeOk d c" "i < n_nodes d" "\<forall>j\<in>set is. j < n_nodes d"
  shows "sameDomains c (setNodes d x is (setNode (node_id d i) y c))"
proof -
  have np: "nodesPresent d c" by (rule shapeOk_present(1) [OF assms(1,2)])
  then have "sameDomains c (setNode (node_id d i) y c)" using assms(3) by (rule sameDomains_setNode)
  moreover from this np have "nodesPresent d (setNode (node_id d i) y c)" by (rule sameDomains_present(1))
  ultimately show ?thesis using sameDomains_setNodes [OF _ assms(4)] sameDomains_trans by blast
qed

lemma setNodes_counts [simp]: "sameCounts c' (setNodes d x is c) = sameCounts c' c"
  by (simp add: sameCounts_def)

lemma Inv_resetCompound:
  assumes wf: "wf_definition d" and inv: "InvX d g c"
    and act: "st d c g = NodeRunning \<or> st d c g = NodeBlocked"
    and step: "resetCompoundStages d g c = Inr c'"
  shows "Inv d c'"
proof -
  note i = InvXD [OF inv]
  from step obtain p w f l where p: "n_parent (node_at d g) = Some p" and prun: "st d c p = NodeRunning"
    and w: "n_doAnchor (node_at d p) = Some w" "st d c w = NodeDone"
    and pos: "index_of w (n_children (node_at d p)) = Some f" "index_of g (n_children (node_at d p)) = Some l" "f < l"
    and c': "c' = setNodes d NodePending (take (l - f) (drop (f + 1) (n_children (node_at d p))))
                    (setNode (node_id d w) NodeReady c)"
    by (auto simp: resetCompoundStages_def Let_def split: option.splits if_splits)
  let ?ch = "n_children (node_at d p)" and ?is = "take (l - f) (drop (f + 1) (n_children (node_at d p)))"
  have g: "g < n_nodes d" by (rule i(11))
  note p' = parent_facts [OF wf g p]
  have gp: "g \<noteq> p" using child_facts(2,5) [OF wf p'] by auto
  have f: "?ch ! f = w" "f < length ?ch" and l: "?ch ! l = g" "l < length ?ch"
    using index_of_Some [OF pos(1)] index_of_Some [OF pos(2)] by auto
  have wch: "w \<in> set ?ch" using f by (metis nth_mem)
  have dist: "distinct ?ch" by (rule compound_stages(2) [OF wf p'])
  have chn: "?ch ! m < n_nodes d" if "m < length ?ch" for m by (rule child_facts(1) [OF wf p'(1) nth_mem [OF that]])
  have isn: "\<forall>j\<in>set ?is. j < n_nodes d \<and> j \<in> set ?ch"
    using child_facts(1) [OF wf p'(1)] by (meson in_set_dropD in_set_takeD)
  have st: "st d c' j = (if j \<in> set ?is then NodePending else if j = w then NodeReady else st d c j)" if "j < n_nodes d" for j
  proof -
    have "node_id d j \<in> node_id d ` set ?is \<longleftrightarrow> j \<in> set ?is" using that isn node_id_inj [OF wf] by blast
    then show ?thesis using that chn [OF f(2)] f(1) wf by (simp add: c' node_id_inj)
  qed
  have chst: "st d c' (?ch ! m) = (if f < m \<and> m \<le> l then NodePending else if m = f then NodeReady else st d c (?ch ! m))"
    if "m < length ?ch" for m
    using st [OF chn [OF that]] take_drop_mem [OF dist that l(2) pos(3)] nth_eq_iff_index_eq [OF dist that f(2)] f(1) by simp
  have "liveStage (st d c g)" using act by (auto simp: liveStage_def)
  from live_child [OF wf i(7) [OF p'(1) gp [symmetric]] p' this] obtain k where
    k: "stagesAt d c ?ch k" "?ch ! k = g" by metis
  then have "k < length ?ch" by (simp add: stagesAt_def)
  then have kl: "k = l" using nth_eq_iff_index_eq [OF dist, of k l] k(2) l by simp
  have before: "st d c (?ch ! m) = NodeDone" if "m < l" for m using k(1) that by (simp add: stagesAt_def kl)
  have stages: "stagesAt d c' ?ch f"
    using k(1) pos(3) f(2) unfolding stagesAt_def kl by (auto simp: chst liveStage_def)
  have nh: "\<not> awaitsHuman (node_at d w)"
    using child_wf(1) [OF wf p'(1) wch] w(1) by (auto simp: wf_child_def Let_def awaitsHuman_def)
  show ?thesis
  proof (rule stage_Inv [OF wf inv p'(1) gp prun, where t = w and k = f])
    show "compoundOk d c q" if "q < n_nodes d" "q \<noteq> p" "n_kind (node_at d q) = definitionCompound" for q
      using i(7) [OF that(1)] that child_kind(1) [OF wf p'] by auto
    show "sameDomains c c'"
      unfolding c' using isn chn [OF f(2)] f(1) by (intro sameDomains_setNode2 [OF wf i(1)]) auto
    show "awaits.canonical c'" "awaits.keys c' = awaits.keys c \<union> (if awaitsHuman (node_at d w) then {node_id d w} else {})"
      using i(4) nh same_outbox(2) [of c' c] by (simp_all add: c' awaitsOk_def)
    show "st d c' w = NodeReady" using chst [OF f(2)] f(1) by simp
    show "st d c' j = st d c j \<and> j \<noteq> g \<or> j \<in> set ?ch" if "j < n_nodes d" for j
      using st [OF that] isn wch p'(2) by auto
    show "st d c' j = st d c j \<and> j \<noteq> g \<or>
        (j = w \<or> st d c' j = NodePending \<or> st d c' j = NodeDone \<and> (runsCommand (node_at d j) \<longrightarrow> 1 \<le> attempts c (node_id d j)))
        \<and> (j = g \<or> st d c j = NodeDone \<or> st d c j = NodePending)" if "j \<in> set ?ch" for j
    proof -
      from that obtain m where m: "m < length ?ch" "j = ?ch ! m" by (auto simp: in_set_conv_nth)
      consider "m < f" | "m = f" | "f < m" "m < l" | "m = l" | "l < m" by linarith
      then show ?thesis
      proof cases
        case 1
        then have "j \<noteq> g" using m l pos(3) nth_eq_iff_index_eq [OF dist, of m l] by auto
        then show ?thesis using 1 m chst by simp
      next
        case 2
        then show ?thesis using m f w(2) by simp
      next
        case 3
        then show ?thesis using m chst before by simp
      next
        case 4
        then show ?thesis using m chst [OF l(2)] l pos(3) by simp
      next
        case 5
        then have "j \<noteq> g" using m l nth_eq_iff_index_eq [OF dist, of m l] by auto
        then show ?thesis using 5 m chst pos(3) by simp
      qed
    qed
  qed (use wch act stages in \<open>auto simp: c'\<close>)
qed

lemma Inv_resetPlan:
  assumes wf: "wf_definition d" and inv: "InvX d g c" and step: "resetPlanApproval d g c = Inr c'"
  shows "Inv d c'"
proof -
  note i = InvXD [OF inv]
  have g: "g < n_nodes d" by (rule i(11))
  from step obtain plan where a: "approvalAnchor d (node_at d g) = Some plan" and ready: "st d c g = NodeReady"
    and pdone: "nodeStatus c (n_id plan) = NodeDone"
    and c': "c' = setNode (node_id d g) NodePending (setNode (n_id plan) NodeReady c)"
    by (auto simp: resetPlanApproval_def Let_def split: option.splits if_splits)
  from approval_facts [OF wf g a] obtain p w where p: "n_parent (node_at d g) = Some p"
    and p': "p < n_nodes d" "g \<in> set (n_children (node_at d p))"
    and w: "n_planAnchor (node_at d p) = Some w" "plan = node_at d w" "w \<in> set (n_children (node_at d p))"
      "n_stage (node_at d g) = StagePlanApproval" "n_stage (node_at d w) = StagePlan" "runsCommand (node_at d w)" by metis
  have prun: "st d c p = NodeRunning"
    using step a p by (auto simp: resetPlanApproval_def Let_def split: if_splits)
  let ?ch = "n_children (node_at d p)" and ?xs = "map (\<lambda>i. n_stage (node_at d i)) (n_children (node_at d p))"
  have gp: "g \<noteq> p" using child_facts(2,5) [OF wf p'] by auto
  have wn: "w < n_nodes d" by (rule child_facts(1) [OF wf p'(1) w(3)])
  have gw: "g \<noteq> w" using w(4,5) by auto
  have dist: "distinct ?ch" by (rule compound_stages(2) [OF wf p'])
  have st: "st d c' j = (if j = g then NodePending else if j = w then NodeReady else st d c j)" if "j < n_nodes d" for j
    using that g wn wf by (simp add: c' w(2) node_id_inj)
  have "liveStage (st d c g)" using ready by (simp add: liveStage_def)
  from live_child [OF wf i(7) [OF p'(1) gp [symmetric]] p' this] obtain k where
    k: "stagesAt d c ?ch k" "?ch ! k = g" by metis
  then have kl: "k < length ?ch" by (simp add: stagesAt_def)
  have ord: "k = 1" "?xs ! 0 = StagePlan"
    using stagesOk_approval [OF compound_stages(1) [OF wf p'], of k] kl k(2) w(4) by simp_all
  have len: "0 < length ?ch" "1 < length ?ch" using kl ord(1) by linarith+
  have w0: "?ch ! 0 = w"
    using child_wf(1) [OF wf p'(1) nth_mem [OF len(1)]] ord(2) len(1) w(1) by (simp add: wf_child_def Let_def)
  have chst: "st d c' (?ch ! m) = (if m = 1 then NodePending else if m = 0 then NodeReady else st d c (?ch ! m))"
    if "m < length ?ch" for m
    using st [OF child_facts(1) [OF wf p'(1) nth_mem [OF that]]] nth_eq_iff_index_eq [OF dist that len(1)]
      nth_eq_iff_index_eq [OF dist that len(2)] w0 k(2) ord(1) by simp
  have stages: "stagesAt d c' ?ch 0"
    using k(1) len unfolding stagesAt_def ord(1) by (auto simp: chst liveStage_def)
  have nh: "\<not> awaitsHuman (node_at d w)" using w(6) by simp
  show ?thesis
  proof (rule stage_Inv [OF wf inv p'(1) gp prun, where t = w and k = 0])
    show "compoundOk d c q" if "q < n_nodes d" "q \<noteq> p" "n_kind (node_at d q) = definitionCompound" for q
      using i(7) [OF that(1)] that child_kind(1) [OF wf p'] by auto
    show "sameDomains c c'"
      using sameDomains_setNode2 [OF wf i(1) wn, of "[g]" NodePending NodeReady] g by (simp add: c' w(2) setNodes_def)
    show "awaits.canonical c'" "awaits.keys c' = awaits.keys c \<union> (if awaitsHuman (node_at d w) then {node_id d w} else {})"
      using i(4) nh same_outbox(2) [of c' c] by (simp_all add: c' awaitsOk_def)
    show "st d c' w = NodeReady" using st [OF wn] gw by simp
    show "st d c' j = st d c j \<and> j \<noteq> g \<or> j \<in> set ?ch" if "j < n_nodes d" for j
      using st [OF that] w(3) p'(2) by auto
    show "st d c' j = st d c j \<and> j \<noteq> g \<or>
        (j = w \<or> st d c' j = NodePending \<or> st d c' j = NodeDone \<and> (runsCommand (node_at d j) \<longrightarrow> 1 \<le> attempts c (node_id d j)))
        \<and> (j = g \<or> st d c j = NodeDone \<or> st d c j = NodePending)" if "j \<in> set ?ch" for j
      using st [OF child_facts(1) [OF wf p'(1) that]] pdone w(2) by auto
  qed (use w(3) ready stages in \<open>auto simp: c'\<close>)
qed

section \<open>Opening a compound\<close>

lemma Inv_advanceCompound:
  assumes wf: "wf_definition d" and inv: "Inv d c" and run: "Status c = RunRunning" and p: "p < n_nodes d"
    and kind: "n_kind (node_at d p) = definitionCompound" and ready: "st d c p = NodeReady"
    and step: "advanceCompound d p c = Inr c'"
  shows "Inv d c'"
proof -
  from step obtain t ts where ch: "n_children (node_at d p) = t # ts"
    and c': "c' = setNode (node_id d t) NodeReady (setNode (node_id d p) NodeRunning c)"
    by (auto simp: advanceCompound_def Let_def split: list.splits if_splits)
  have tch: "t \<in> set (n_children (node_at d p))" by (simp add: ch)
  note tw = child_facts [OF wf p tch]
  have pend: "st d c i = NodePending" if "i \<in> set (n_children (node_at d p))" for i
    using InvD(7) [OF inv p] ready that by (auto simp: compoundOk_def)
  note i = InvD [OF inv]
  let ?c1 = "setNode (node_id d p) NodeRunning c"
  have st1: "st d ?c1 j = (if j = p then NodeRunning else st d c j)" if "j < n_nodes d" for j
    using that p wf by (simp add: node_id_inj)
  have st: "st d c' j = (if j = t then NodeReady else if j = p then NodeRunning else st d c j)" if "j < n_nodes d" for j
    using that p tw(1) wf by (simp add: c' node_id_inj)
  have tp: "t \<noteq> p" using tw(2,5) by auto
  have out: "node_id d j \<notin> cmds.keys c \<and> node_id d j \<notin> awaits.keys c \<and> node_id d j \<notin> parked.keys c"
    if "j = p \<or> j = t" for j
    using that i(6) [OF p] i(6) [OF tw(1)] ready pend [OF tch] kind by (auto simp: nodeOk_def runsCommand_def awaitsHuman_def)
  have comp1: "compoundOk d ?c1 q" if "q < n_nodes d" "q \<noteq> p" for q
  proof -
    have "st d ?c1 j = st d c j" if j: "j \<in> set (n_children (node_at d q))" for j
      using st1 [OF child_facts(1) [OF wf \<open>q < n_nodes d\<close> j]] child_facts(2) [OF wf \<open>q < n_nodes d\<close> j] tw(5) by auto
    then show ?thesis using i(7) [OF that(1)] compoundOk_cong [of ?c1 d q c] st1 [OF that(1)] that(2) by simp
  qed
  have body1: "bodyOk d ?c1 s" if s: "s < n_nodes d" for s
    unfolding bodyOk_def
  proof (intro impI allI)
    fix j assume sub: "isSub d s" and pe: "st d ?c1 s = NodePending \<or> st d ?c1 s = NodeReady" and j: "inBody d s j"
    have "s \<noteq> p" using sub kind by (auto simp: isSub_def)
    with st1 [OF s] pe i(8) [OF s] sub j have "st d c j = NodePending" unfolding bodyOk_def by (metis (no_types))
    with ready st1 [OF inBody_less [OF wf sub j]] show "st d ?c1 j = NodePending" by auto
  qed
  have hdst: "stagesOk (map (\<lambda>i. n_stage (node_at d i)) (t # ts))" "distinct (t # ts)"
    using compound_stages [OF wf p tch] by (simp_all add: ch)
  have nh: "\<not> awaitsHuman (node_at d t)"
  proof
    assume "awaitsHuman (node_at d t)"
    then have "n_stage (node_at d t) = StagePlanApproval"
      using child_wf(1) [OF wf p tch] by (auto simp: wf_child_def Let_def awaitsHuman_def)
    with stagesOk_approval(1) [OF hdst(1), of 0] show False by simp
  qed
  have stages: "stagesAt d c' (n_children (node_at d p)) 0"
  proof -
    have "st d c' (ts ! j) = NodePending" if "j < length ts" for j
    proof -
      have m: "ts ! j \<in> set (n_children (node_at d p))" using that by (simp add: ch)
      moreover have "ts ! j \<noteq> t" using hdst(2) that by auto
      moreover have "ts ! j \<noteq> p" using child_facts(2) [OF wf p m] tw(5) by auto
      ultimately show ?thesis using st [OF child_facts(1) [OF wf p m]] pend by simp
    qed
    then show ?thesis using st [OF tw(1)] unfolding stagesAt_def ch by (auto simp: liveStage_def nth_Cons')
  qed
  have run1: "st d ?c1 p = NodeRunning" by simp
  have only: "st d c' j = st d ?c1 j \<or> j \<in> set (n_children (node_at d p))" if "j < n_nodes d" for j
    using st [OF that] st1 [OF that] tch by auto
  note upd = stage_update [OF wf p run1 comp1 body1 only stages]
  have struct: "compoundOk d c' q" "bodyOk d c' q" if "q < n_nodes d" for q
    using upd that by blast+
  have invx: "InvX d p c" by (rule takeOut_none [OF wf inv p run]) (use out in auto)
  have keys: "cmds.keys c' = cmds.keys c" "awaits.keys c' = awaits.keys c" "parked.keys c' = parked.keys c"
    "awaits.canonical c' = awaits.canonical c" "parked.canonical c' = parked.canonical c"
    using same_outbox [of c' c] by (simp_all add: c')
  have dom: "sameDomains c c'"
    using sameDomains_setNode2 [OF wf i(1) p, of "[t]" NodeReady NodeRunning] tw(1) by (simp add: c' setNodes_def)
  have undoom: "\<not> doomed c" if "\<not> doomed c'"
    by (rule undoomed [OF i(1) dom _ that]) (use st ready pend [OF tch] in auto)
  show ?thesis
  proof (rule InvX_Inv [OF invx _ dom])
    show "awaitsOk d c'" "parkedOk d c'" using i(4,5) keys by (simp_all add: awaitsOk_def parkedOk_def c')
    show "nodeOk d c' j" if j: "j < n_nodes d" for j
    proof (cases "j = p \<or> j = t")
      case True
      then show ?thesis
        using out [OF True] st [OF j] keys kind by (auto simp: nodeOk_def runsCommand_def)
    next
      case False
      then show ?thesis using i(6) [OF j] nodeOk_cong [of c' d j c] st [OF j] keys by (simp add: c')
    qed
    show "node_id d j \<in> awaits.keys c'" if "\<not> doomed c'" "j < n_nodes d" "awaitsHuman (node_at d j)"
      "st d c' j = NodeReady" for j
      using i(10) run undoom [OF that(1)] that nh st [OF that(2)] unfolding promptOk_def keys
      by (auto split: if_splits)
  qed (use struct in \<open>auto simp: c'\<close>)
qed

end
