(* ===== verification/Preserve_Settle.thy ===== *)
theory Preserve_Settle
  imports Preserve_Stages
begin

text \<open>
  Preservation of the invariant by a settlement pass and by the transitions that end in one:
  completing a node, a compound, a subprocess, and opening a subprocess body.
\<close>

section \<open>The pass\<close>

lemma id_mem:
  "wf_definition d \<Longrightarrow> j < n_nodes d \<Longrightarrow> node_id d j \<in> {node_id d i | i. i < n_nodes d \<and> P i} \<longleftrightarrow> P j"
  using node_id_inj [of d j] by auto

lemma settlePre_InvX:
  assumes wf: "wf_definition d" and inv: "InvX d a c" and par: "n_parent (node_at d a) = None"
    and np: "st d c a \<noteq> NodePending"
  shows "settlePre d a c"
  unfolding settlePre_def
proof (intro conjI allI impI ballI)
  note i = InvXD [OF inv]
  show "nodesPresent d c" "edgesPresent d c" by (rule shapeOk_present [OF wf i(1)])+
  show "st d c j = NodePending" if "p < n_nodes d" "st d c p = NodePending" "j \<in> set (n_children (node_at d p))" for p j
    using i(7) [OF that(1)] that np unfolding compoundOk_def by metis
  show "st d c j = NodePending" if "isSub d s" "st d c s = NodePending \<or> st d c s = NodeReady" "inBody d s j" for s j
    using i(8) [of s] that unfolding bodyOk_def isSub_def by blast
qed (use wf par np InvXD(11) [OF inv] in auto)

lemma Inv_settle:
  assumes wf: "wf_definition d" and inv: "InvX d a c" and par: "n_parent (node_at d a) = None"
    and act: "runsCommand (node_at d a) \<Longrightarrow> st d c a \<noteq> NodeReady"
    and kids: "\<And>j. j \<in> set (n_children (node_at d a)) \<Longrightarrow> \<not> liveStage (st d c j)"
    and step: "completeAndSettle d a arr c = Inr c'"
  shows "Inv d c'"
proof -
  note i = InvXD [OF inv]
  have live: "st d c a = NodeReady \<or> st d c a = NodeRunning \<or> st d c a = NodeBlocked"
    using step by (auto simp: completeAndSettle_def Let_def split: if_splits)
  let ?c0 = "setNode (node_id d a) NodeDone c"
  have a: "a < n_nodes d" by (rule i(11))
  have st0: "st d ?c0 j = (if j = a then NodeDone else st d c j)" if "j < n_nodes d" for j
    using that a wf by (simp add: node_id_inj)
  have "settlePre d a c" by (rule settlePre_InvX [OF wf inv par]) (use live in auto)
  from completeAndSettle_rel [OF this step] have rel: "settleRel d a ?c0 c'" .
  have rest: "sameRest ?c0 c'" and dom0: "sameDomains ?c0 c'"
    and disp: "\<And>f oc. edgeDisp c' f oc = edgeDisp c f oc \<or> knownDisposition (edgeDisp c' f oc)"
    and sta: "st d c' a = NodeDone" and can: "awaits.canonical c \<Longrightarrow> awaits.canonical c'"
    and keys: "awaits.keys c' = awaits.keys c \<union> {node_id d i | i. i < n_nodes d \<and> i \<noteq> a \<and>
        awaitsHuman (node_at d i) \<and> st d ?c0 i = NodePending \<and> st d c' i = NodeReady}"
    using rel unfolding settleRel_def by simp_all
  have move0: "\<And>i. i < n_nodes d \<Longrightarrow> i \<noteq> a \<Longrightarrow> st d c' i = st d ?c0 i \<or>
        st d ?c0 i = NodePending \<and> (st d c' i = NodeReady \<and> n_parent (node_at d i) = None \<or> st d c' i = NodeSkipped)"
    and kids0: "\<And>p j. p < n_nodes d \<Longrightarrow> j \<in> set (n_children (node_at d p)) \<Longrightarrow>
        st d c' j = st d ?c0 j \<or> st d c' p = NodeSkipped"
    and body0: "\<And>s i. isSub d s \<Longrightarrow> s \<noteq> a \<Longrightarrow> st d ?c0 s = NodePending \<or> st d ?c0 s = NodeReady \<Longrightarrow>
        st d c' s \<noteq> NodeSkipped \<Longrightarrow> inBody d s i \<Longrightarrow> st d c' i = st d ?c0 i"
    using rel unfolding settleRel_def by blast+
  have move: "st d c' j = st d c j \<or> st d c j = NodePending \<and>
      (st d c' j = NodeReady \<and> n_parent (node_at d j) = None \<or> st d c' j = NodeSkipped)"
    if "j < n_nodes d" "j \<noteq> a" for j
    using move0 [OF that] st0 [OF that(1)] that(2) by simp
  have child: "j < n_nodes d \<and> j \<noteq> a \<and> n_parent (node_at d j) \<noteq> None"
    if "p < n_nodes d" "j \<in> set (n_children (node_at d p))" for p j
    using child_facts(1,2) [OF wf that] par by auto
  have kidsame: "st d c' j = st d c j"
    if "p < n_nodes d" "j \<in> set (n_children (node_at d p))" "st d c' p \<noteq> NodeSkipped" for p j
    using kids0 [OF that(1,2)] st0 [of j] child [OF that(1,2)] that(3) by simp
  have kidmove: "st d c' j = st d c j \<or> st d c j = NodePending \<and> st d c' j = NodeSkipped"
    if "p < n_nodes d" "j \<in> set (n_children (node_at d p))" for p j
    using move [of j] child [OF that] by blast
  have comp: "compoundOk d c' p" if p: "p < n_nodes d" for p
  proof (cases "p = a")
    case True
    then show ?thesis using sta kidsame [OF p] kids unfolding compoundOk_def by auto
  next
    case False
    note ok = i(7) [OF p False]
    show ?thesis
    proof (cases "st d c' p = NodeSkipped")
      case True
      have "\<not> liveStage (st d c' j)" if kd: "n_kind (node_at d p) = definitionCompound"
        and j: "j \<in> set (n_children (node_at d p))" for j
      proof -
        have "st d c p \<noteq> NodeRunning" using move [OF p False] True by auto
        with ok kd j have "\<not> liveStage (st d c j)" unfolding compoundOk_def by blast
        with kidmove [OF p j] show ?thesis by (auto simp: liveStage_def)
      qed
      with True show ?thesis unfolding compoundOk_def by auto
    next
      case nsk: False
      from move [OF p False] nsk consider "st d c' p = st d c p"
        | "st d c p = NodePending" "st d c' p = NodeReady" by blast
      then show ?thesis
      proof cases
        case 1
        then show ?thesis using ok compoundOk_cong [of c' d p c] kidsame [OF p _ nsk] by simp
      next
        case 2
        then have "st d c j = NodePending" if "j \<in> set (n_children (node_at d p))" for j
          using ok that unfolding compoundOk_def by blast
        then have "st d c' j = NodePending" if "j \<in> set (n_children (node_at d p))" for j
          using kidsame [OF p _ nsk] that by simp
        with 2 show ?thesis unfolding compoundOk_def by (auto simp: liveStage_def)
      qed
    qed
  qed
  have body: "bodyOk d c' s" if s: "s < n_nodes d" for s
    unfolding bodyOk_def
  proof (intro impI allI)
    fix j assume sub: "isSub d s" and pe: "st d c' s = NodePending \<or> st d c' s = NodeReady" and j: "inBody d s j"
    have sa: "s \<noteq> a" using sta pe by auto
    have old: "st d c s = NodePending \<or> st d c s = NodeReady" using move [OF s sa] pe by auto
    with i(8) [OF s] sub j have pj: "st d c j = NodePending" unfolding bodyOk_def by blast
    have ja: "j \<noteq> a" using pj live by auto
    have "st d c' j = st d ?c0 j" by (rule body0 [OF sub sa _ _ j]) (use old pe st0 [OF s] sa in auto)
    with pj ja st0 [OF inBody_less [OF wf sub j]] show "st d c' j = NodePending" by simp
  qed
  have same: "sameCounts c c'" "Status c' = Status c" "Commands c' = Commands c" "Blocked c' = Blocked c"
    using rest by (simp_all add: sameRest_def sameCounts_def)
  have dom: "sameDomains c c'"
    using sameDomains_setNode [OF shapeOk_present(1) [OF wf i(1)] a] dom0 by (rule sameDomains_trans)
  have att: "attempts c' k = attempts c k" for k
    using same(1) attempts_cong [of c' c] by (simp add: sameCounts_def)
  have outs: "cmds.keys c' = cmds.keys c" "parked.keys c' = parked.keys c" "parked.canonical c' = parked.canonical c"
    "cmds.canonical c' = cmds.canonical c"
    using same_outbox(1) [OF same(3)] same_outbox(3) [OF same(4)] by simp_all
  have mem: "node_id d j \<in> awaits.keys c' \<longleftrightarrow> node_id d j \<in> awaits.keys c \<or>
      j \<noteq> a \<and> awaitsHuman (node_at d j) \<and> st d c j = NodePending \<and> st d c' j = NodeReady" if "j < n_nodes d" for j
    unfolding keys using st0 [OF that] id_mem [OF wf that] by auto
  have nodes: "nodeOk d c' j" if j: "j < n_nodes d" for j
  proof (cases "j = a")
    case True
    then show ?thesis
      by (intro nodeOk_idle) (use sta i(12-15) outs mem [OF a] att live act in auto)
  next
    case False
    note ok = i(6) [OF j False]
    from move [OF j False] consider "st d c' j = st d c j" | "st d c j = NodePending"
      "st d c' j = NodeReady \<or> st d c' j = NodeSkipped" by blast
    then show ?thesis
    proof cases
      case 1
      then have "node_id d j \<in> awaits.keys c' \<longleftrightarrow> node_id d j \<in> awaits.keys c" using mem [OF j] by auto
      then show ?thesis using ok nodeOk_cong [of c' d j c] 1 outs att by simp
    next
      case 2
      then have "node_id d j \<notin> cmds.keys c" "node_id d j \<notin> parked.keys c" "node_id d j \<notin> awaits.keys c"
        using ok by (simp_all add: nodeOk_def)
      then show ?thesis by (intro nodeOk_idle) (use 2 outs mem [OF j] in auto)
    qed
  qed
  have undoom: "\<not> doomed c" if "\<not> doomed c'"
  proof (rule undoomed [OF i(1) dom _ that])
    fix j assume j: "j < n_nodes d" "st d c j = NodeFailed \<or> st d c j = NodeCanceled"
    then have "j \<noteq> a" using live by auto
    with move [OF j(1)] j(2) show "st d c' j = NodeFailed \<or> st d c' j = NodeCanceled" by auto
  qed
  show ?thesis
  proof (rule InvI)
    show "shapeOk d c'"
      by (rule shapeOk_cong [OF i(1) same(1) dom])
        (use i(1) same(2) disp in \<open>auto simp: shapeOk_def edgeState_def, metis\<close>)
    show "countsOk d c'" using i(2) countsOk_cong [OF same(1)] by simp
    show "commandsOk d c'" using commandsOk_cong [OF same(1) i(3)] i(3) outs same(3) by (simp add: commandsOk_def)
    show "awaitsOk d c'" using i(4) can keys unfolding awaitsOk_def by auto
    show "parkedOk d c'" using i(5) outs same(4) by (simp add: parkedOk_def)
    show "quietOk c'" using same(2) i(9) by (simp add: quietOk_def)
    show "promptOk d c'"
      unfolding promptOk_def
    proof (intro impI allI)
      fix j assume u: "\<not> doomed c'" and j: "j < n_nodes d" "awaitsHuman (node_at d j)" "st d c' j = NodeReady"
      then have ja: "j \<noteq> a" using sta by auto
      show "node_id d j \<in> awaits.keys c'"
        using move [OF j(1) ja] mem [OF j(1)] i(10) [OF undoom [OF u] j(1) ja j(2)] j(2,3) ja by auto
    qed
  qed (use nodes comp body in auto)
qed

end
