(* ===== verification/Preserve_Loops.thy ===== *)
theory Preserve_Loops
  imports Preserve_Settle
begin

text \<open>
  Preservation of the invariant by the next round of a bounded loop: the counters it bumps and
  clears, the fresh attempt windows, and the reopened body.
\<close>

section \<open>Round counters\<close>

lemma iterations_bump [simp]:
  "iterations (bumpIteration f oc c) f' oc' =
     (if f' = f \<and> oc' = oc then wrap64 (iterations c f oc + 1) else iterations c f' oc')"
  by (simp add: bumpIteration_def iterations_def)

lemma mlen_zero: "mlen m = 0 \<longleftrightarrow> m = fmempty"
proof
  assume "mlen m = 0"
  then have "fmdom m = {||}" by (simp add: mlen_def)
  then show "m = fmempty" by (intro fmap_ext) (metis fempty_iff fmdom_notD fmempty_lookup)
qed (simp add: mlen_def)

lemma iterations_clear [simp]:
  "iterations (clearIteration d li c) f oc =
     (if f = n_id (node_at d (l_from (loop_at d li))) \<and> oc = l_outcome (loop_at d li) then 0
      else iterations c f oc)"
proof -
  let ?src = "n_id (node_at d (l_from (loop_at d li)))" and ?oc = "l_outcome (loop_at d li)"
  let ?in = "fmdrop ?oc (mget fmempty (Iterations c) ?src)"
  have "mget 0 (mget fmempty (Iterations c) ?src) x = 0" if "?in = fmempty" "x \<noteq> ?oc" for x
  proof -
    have "mget 0 ?in x = 0" using that(1) by simp
    with that(2) show ?thesis by simp
  qed
  then show ?thesis
    by (auto simp: clearIteration_def Let_def iterations_def mget2_def mlen_zero)
qed

definition onlyIterations :: "Checkpoint \<Rightarrow> Checkpoint \<Rightarrow> bool" where
  "onlyIterations c c' \<longleftrightarrow> (\<exists>m. c' = c\<lparr>Iterations := m\<rparr>)"

lemma onlyIterations_refl: "onlyIterations c c"
  unfolding onlyIterations_def by (rule exI [of _ "Iterations c"]) simp

lemma onlyIterations_trans: "onlyIterations a b \<Longrightarrow> onlyIterations b c \<Longrightarrow> onlyIterations a c"
  by (auto simp: onlyIterations_def)

lemma onlyIterations_bump: "onlyIterations c (bumpIteration f oc c)"
  by (auto simp: onlyIterations_def bumpIteration_def)

lemma onlyIterations_clear: "onlyIterations c (clearIteration d li c)"
  by (auto simp: onlyIterations_def clearIteration_def Let_def)

lemma iterationsOk_clear:
  assumes "mforall (iterationEntryOk d) (Iterations c)"
  shows "mforall (iterationEntryOk d) (Iterations (clearIteration d li c))"
proof -
  let ?src = "n_id (node_at d (l_from (loop_at d li)))" and ?oc = "l_outcome (loop_at d li)"
  let ?in = "fmdrop ?oc (mget fmempty (Iterations c) ?src)"
  have "iterationEntryOk d ?src ?in" if "mlen ?in \<noteq> 0"
  proof -
    from that obtain m where m: "fmlookup (Iterations c) ?src = Some m"
      by (cases "fmlookup (Iterations c) ?src") (auto simp: mget_def mlen_def)
    with assms have e: "iterationEntryOk d ?src m" by (simp add: mforall_iff)
    then obtain n where n: "definitionNodeByID d ?src = Some n" by (auto simp: iterationEntryOk_def split: option.splits)
    have "mget fmempty (Iterations c) ?src = m" using m by (simp add: mget_def)
    with e that n show ?thesis by (simp add: iterationEntryOk_def mforall_iff)
  qed
  with assms show ?thesis
    by (auto simp: clearIteration_def Let_def mforall_iff)
qed

lemma onlyIterations_clearAll: "onlyIterations c (fold (clearIteration d) ls c)"
proof (induction ls arbitrary: c)
  case (Cons l ls)
  from onlyIterations_trans [OF onlyIterations_clear Cons] show ?case by simp
qed (simp add: onlyIterations_refl)

lemma iterationsOk_clearAll:
  "mforall (iterationEntryOk d) (Iterations c) \<Longrightarrow>
   mforall (iterationEntryOk d) (Iterations (fold (clearIteration d) ls c))"
  by (induction ls arbitrary: c) (simp_all add: iterationsOk_clear)

lemma clearAll_other:
  assumes "\<And>li. li \<in> set ls \<Longrightarrow> \<not> (n_id (node_at d (l_from (loop_at d li))) = f \<and> l_outcome (loop_at d li) = oc)"
  shows "iterations (fold (clearIteration d) ls c) f oc = iterations c f oc"
  using assms
proof (induction ls arbitrary: c)
  case (Cons l ls)
  have "\<not> (f = n_id (node_at d (l_from (loop_at d l))) \<and> oc = l_outcome (loop_at d l))" using Cons.prems [of l] by auto
  then have "iterations (clearIteration d l c) f oc = iterations c f oc" by (simp only: iterations_clear if_False)
  with Cons show ?case by simp
qed simp

text \<open>Rounds taken stay below the authored maximum, so the counter does not wrap.\<close>

lemma iterations_bound:
  assumes "mforall (iterationEntryOk d) (Iterations c)" "loopOf d node oc = Some li"
    "definitionNodeByID d src = Some node" "2 \<le> l_maxIterations (loop_at d li)"
  shows "0 \<le> iterations c src oc" "iterations c src oc < l_maxIterations (loop_at d li)"
proof -
  have "0 \<le> iterations c src oc \<and> iterations c src oc < l_maxIterations (loop_at d li)"
  proof (cases "fmlookup (Iterations c) src")
    case None
    then show ?thesis using assms(4) by (simp add: iterations_def mget2_def mget_def)
  next
    case (Some m)
    with assms(1) have e: "iterationEntryOk d src m" by (simp add: mforall_iff)
    show ?thesis
    proof (cases "fmlookup m oc")
      case None
      then show ?thesis using assms(4) Some by (simp add: iterations_def mget2_def mget_def)
    next
      case (Some v)
      with e assms(2,3) have "1 \<le> v" "v < l_maxIterations (loop_at d li)"
        unfolding iterationEntryOk_def mforall_iff by fastforce+
      with Some \<open>fmlookup (Iterations c) src = Some m\<close> show ?thesis
        by (simp add: iterations_def mget2_def mget_def)
    qed
  qed
  then show "0 \<le> iterations c src oc" "iterations c src oc < l_maxIterations (loop_at d li)" by simp_all
qed

lemma iterationsOk_bump:
  assumes ok: "mforall (iterationEntryOk d) (Iterations c)" and l: "loopOf d node oc = Some li"
    and n: "definitionNodeByID d src = Some node"
    and mx: "2 \<le> l_maxIterations (loop_at d li)" "l_maxIterations (loop_at d li) \<le> MaxInt"
    and more: "wrap64 (iterations c src oc + 1) < l_maxIterations (loop_at d li)"
  shows "mforall (iterationEntryOk d) (Iterations (bumpIteration src oc c))"
    "wrap64 (iterations c src oc + 1) = iterations c src oc + 1"
proof -
  let ?m = "mget fmempty (Iterations c) src"
  note b = iterations_bound [OF ok l n mx(1)]
  show w: "wrap64 (iterations c src oc + 1) = iterations c src oc + 1"
    using b mx(2) by (intro wrap64_id) (simp add: is_int64_def MaxInt_def)
  have "iterationEntryOk d src (fmupd oc (iterations c src oc + 1) ?m)"
  proof -
    have "case loopOf d node k of None \<Rightarrow> False | Some li \<Rightarrow> 1 \<le> v \<and> v < l_maxIterations (loop_at d li)"
      if kv: "fmlookup ?m k = Some v" for k v
    proof -
      from kv obtain m where "fmlookup (Iterations c) src = Some m" "fmlookup m k = Some v"
        by (cases "fmlookup (Iterations c) src") (auto simp: mget_def)
      with ok n show ?thesis unfolding iterationEntryOk_def mforall_iff by fastforce
    qed
    moreover have "mlen (fmupd oc (iterations c src oc + 1) ?m) \<noteq> 0"
      by (simp add: mlen_def)
    ultimately show ?thesis using n l b(1) more w by (simp add: iterationEntryOk_def mforall_iff)
  qed
  then show "mforall (iterationEntryOk d) (Iterations (bumpIteration src oc c))"
    using ok w by (auto simp: bumpIteration_def mput2_def mforall_iff)
qed

section \<open>Attempt windows\<close>

lemma countsOk_window:
  assumes wf: "wf_definition d" and a: "a < n_nodes d" and ok: "countsOk d c"
    and at: "1 \<le> x" "x \<le> MaxInt"
    and h: "awaitsHuman (node_at d a)" "n_parent (node_at d a) = None" "n_loops (node_at d a) \<noteq> []"
  shows "countsOk d (recordAttempt (node_id d a) x c)"
proof -
  let ?c = "recordAttempt (node_id d a) x c"
  have ceil: "attemptCeiling ?c = attemptCeiling c" by (rule attemptCeiling_cong) simp
  have other: "executableAttemptCeiling ?c d n = executableAttemptCeiling c d n" if "n_id n \<noteq> node_id d a" for n
    using that by (simp add: executableAttemptCeiling_def saturatingNextAttempt_def ceil split: option.splits)
  have "attemptEntryOk ?c d k v" if k: "k \<noteq> node_id d a" "fmlookup (Attempts c) k = Some v" for k v
  proof -
    from ok k(2) have e: "attemptEntryOk c d k v" by (simp add: countsOk_def mforall_iff)
    then obtain n where n: "definitionNodeByID d k = Some n" by (auto simp: attemptEntryOk_def split: option.splits)
    then have "n_id n = k" using byID_Some [OF wf, of k n] by auto
    with k(1) have "executableAttemptCeiling ?c d n = executableAttemptCeiling c d n" by (intro other) simp
    with e show ?thesis by (simp only: attemptEntryOk_def n option.case)
  qed
  moreover have "attemptEntryOk ?c d (node_id d a) x" using wf a at h by (simp add: attemptEntryOk_def)
  moreover have "Attempts ?c = fmupd (node_id d a) x (Attempts c)" by (simp add: recordAttempt_def)
  ultimately show ?thesis
    using ok at(2) unfolding countsOk_def recordAttempt_frame
    by (simp only: mforall_fmupd) (simp only: mforall_iff, blast)
qed

text \<open>What reopening a node keeps.\<close>

definition reopenKeeps :: "Checkpoint \<Rightarrow> Checkpoint \<Rightarrow> bool" where
  "reopenKeeps c c' \<longleftrightarrow>
     Version c' = Version c \<and> RunID c' = RunID c \<and> Status c' = Status c \<and> Commands c' = Commands c \<and>
     AwaitingDecisions c' = AwaitingDecisions c \<and> Blocked c' = Blocked c \<and> Iterations c' = Iterations c \<and>
     (\<forall>k. attempts c k \<le> attempts c' k) \<and>
     (\<forall>f oc. edgeDisp c' f oc = edgeDisp c f oc \<or> edgeDisp c' f oc = EdgeUnresolved)"

lemma reopenKeeps_refl: "reopenKeeps c c"
  by (simp add: reopenKeeps_def)

lemma reopenKeeps_trans:
  assumes "reopenKeeps a b" "reopenKeeps b c"
  shows "reopenKeeps a c"
proof -
  have "attempts a k \<le> attempts c k" for k
    using assms order_trans [of "attempts a k" "attempts b k"] by (simp add: reopenKeeps_def)
  moreover have "edgeDisp c f oc = edgeDisp a f oc \<or> edgeDisp c f oc = EdgeUnresolved" for f oc
    using assms unfolding reopenKeeps_def by metis
  ultimately show ?thesis using assms by (simp add: reopenKeeps_def)
qed

lemma reopenWindow_effect:
  assumes wf: "wf_definition d" and i: "i < n_nodes d" and ok: "countsOk d c"
    and loop: "n_loops (node_at d i) \<noteq> []" and step: "reopenWindow d (node_at d i) c = Inr c'"
  shows "countsOk d c'" "reopenKeeps c c'" "Nodes c' = Nodes c" "Edges c' = Edges c"
    "\<And>k. k \<noteq> node_id d i \<Longrightarrow> attempts c' k = attempts c k"
proof -
  let ?n = "node_at d i" and ?k = "node_id d i"
  note b = attempts_bounds [OF ok, of ?k]
  consider (human) "awaitsHuman ?n" "n_parent ?n = None" "attempts c ?k \<noteq> MaxInt"
      "c' = recordAttempt ?k (attempts c ?k + 1) c"
    | (window) r where "runsCommand ?n" "attempts c ?k \<noteq> 0" "attempts c ?k \<le> wrap64 (MaxInt - n_maxAttempts ?n)"
      "r = wrap64 (attempts c ?k + n_maxAttempts ?n)" "attemptCeiling c ?n < r"
      "c' = c\<lparr>AttemptCeilings := fmupd ?k r (AttemptCeilings c)\<rparr>"
    | (same) "c' = c"
  proof (cases "awaitsHuman ?n \<and> n_parent ?n = None")
    case True
    then have "attempts c ?k \<noteq> MaxInt" "c' = recordAttempt ?k (attempts c ?k + 1) c"
      using step by (simp_all add: reopenWindow_def split: if_splits)
    with True show ?thesis using human by blast
  next
    case False
    then have w: "if runsCommand ?n then openLoopAttemptWindow d ?n c = Inr c' else c' = c"
      using step by (simp only: reopenWindow_def if_False) (auto simp del: runsCommand_not_awaitsHuman split: if_splits)
    show ?thesis
    proof (cases "c' = c")
      case True
      then show ?thesis by (rule same)
    next
      case False
      with w have rc: "runsCommand ?n" and o: "openLoopAttemptWindow d ?n c = Inr c'" by (simp_all split: if_splits)
      from o False show ?thesis
        unfolding openLoopAttemptWindow_def Let_def
        by (intro window [OF rc]) (simp_all only: not_le not_less split: if_splits, simp_all)
    qed
  qed
  then have "countsOk d c' \<and> reopenKeeps c c' \<and> Nodes c' = Nodes c \<and> Edges c' = Edges c \<and>
      (\<forall>k. k \<noteq> ?k \<longrightarrow> attempts c' k = attempts c k)"
  proof cases
    case human
    have "countsOk d c'" unfolding human(4)
      by (rule countsOk_window [OF wf i ok _ _ human(1,2) loop]) (use b human(3) in auto)
    then show ?thesis by (simp add: human(4) reopenKeeps_def)
  next
    case (window r)
    have m: "1 \<le> n_maxAttempts ?n" "n_maxAttempts ?n \<le> MaxInt"
      using wf_nodeD [OF wf i] window(1) by (auto simp: wf_node_def Let_def)
    have "wrap64 (MaxInt - n_maxAttempts ?n) = MaxInt - n_maxAttempts ?n"
      using m by (intro wrap64_id) (simp add: is_int64_def MaxInt_def)
    then have le: "attempts c ?k + n_maxAttempts ?n \<le> MaxInt" using window(3) by simp
    then have r: "r = attempts c ?k + n_maxAttempts ?n"
      unfolding window(4) using b m by (intro wrap64_id) (simp add: is_int64_def MaxInt_def)
    have "countsOk d c'" unfolding window(6)
      by (rule countsOk_raise [OF wf i ok less_imp_le [OF window(5)]]) (use r le b window(1,2) loop in auto)
    then show ?thesis by (simp add: window(6) reopenKeeps_def attempts_def edgeDisp_def)
  next
    case same
    then show ?thesis using ok by (simp add: reopenKeeps_refl)
  qed
  then show "countsOk d c'" "reopenKeeps c c'" "Nodes c' = Nodes c" "Edges c' = Edges c"
    "\<And>k. k \<noteq> node_id d i \<Longrightarrow> attempts c' k = attempts c k" by blast+
qed

lemma reopenEdges_effect:
  assumes "foldR (reopenEdge d) eis c = Inr c'" "\<forall>ei\<in>set eis. ei < length (d_edges d)" "edgesPresent d c"
  shows "reopenKeeps c c' \<and> sameDomains c c' \<and> Nodes c' = Nodes c \<and> Attempts c' = Attempts c \<and>
    AttemptCeilings c' = AttemptCeilings c"
proof (rule foldR_invariant [where P = "\<lambda>x. reopenKeeps c x \<and> sameDomains c x \<and> Nodes x = Nodes c \<and>
      Attempts x = Attempts c \<and> AttemptCeilings x = AttemptCeilings c", OF assms(1)])
  fix ei x y
  assume ei: "ei \<in> set eis" and x: "reopenKeeps c x \<and> sameDomains c x \<and> Nodes x = Nodes c \<and>
      Attempts x = Attempts c \<and> AttemptCeilings x = AttemptCeilings c"
    and y: "reopenEdge d ei x = Inr y"
  then have y': "y = setEdge (e_from (edge_at d ei)) (e_outcome (edge_at d ei)) EdgeUnresolved x"
    by (auto simp: reopenEdge_def Let_def split: if_splits)
  have "edgesPresent d x" using x assms(3) sameDomains_present(2) by blast
  with assms(2) ei have "sameDomains x y" unfolding y' by (intro sameDomains_setEdge) auto
  moreover have "reopenKeeps x y" by (simp add: y' reopenKeeps_def)
  ultimately show "reopenKeeps c y \<and> sameDomains c y \<and> Nodes y = Nodes c \<and>
      Attempts y = Attempts c \<and> AttemptCeilings y = AttemptCeilings c"
    using x reopenKeeps_trans sameDomains_trans by (auto simp: y')
qed (simp add: reopenKeeps_refl)

section \<open>Reopening the body\<close>

lemma reopenNode_effect:
  assumes wf: "wf_definition d" and i: "i < n_nodes d" and ok: "countsOk d c"
    and np: "nodesPresent d c" and ep: "edgesPresent d c"
    and loop: "n_loops (node_at d i) \<noteq> []" and step: "reopenNode d i c = Inr c'"
  shows "countsOk d c'" "reopenKeeps c c'" "sameDomains c c'"
    "\<And>k. nodeStatus c' k = (if k = node_id d i then NodePending else nodeStatus c k)"
    "\<And>k. k \<noteq> node_id d i \<Longrightarrow> attempts c' k = attempts c k"
proof -
  let ?c0 = "setNode (node_id d i) NodePending c"
  from step obtain x where x: "reopenWindow d (node_at d i) ?c0 = Inr x"
    and y: "foldR (reopenEdge d) (n_outgoing (node_at d i)) x = Inr c'"
    by (auto simp: reopenNode_def Let_def bindR_Inr_iff)
  have c0: "countsOk d ?c0" "reopenKeeps c ?c0" "sameDomains c ?c0"
    using ok countsOk_cong [of c ?c0 d] sameDomains_setNode [OF np i] by (simp_all add: reopenKeeps_def)
  note w = reopenWindow_effect [OF wf i c0(1) loop x]
  have sx: "sameDomains ?c0 x" using w(3,4) by (simp add: sameDomains_def)
  then have "sameDomains c x" using c0(3) sameDomains_trans by blast
  then have "edgesPresent d x" using ep sameDomains_present(2) by blast
  with reopenEdges_effect [OF y] outgoing_edge(1) [OF wf i] have e: "reopenKeeps x c'" "sameDomains x c'"
    "Nodes c' = Nodes x" "Attempts c' = Attempts x" "AttemptCeilings c' = AttemptCeilings x" by blast+
  have "sameCounts x c'" using e by (simp add: sameCounts_def reopenKeeps_def)
  then show "countsOk d c'" using w(1) countsOk_cong by blast
  show "reopenKeeps c c'" using c0(2) w(2) e(1) reopenKeeps_trans by blast
  show "sameDomains c c'" using \<open>sameDomains c x\<close> e(2) sameDomains_trans by blast
  show "nodeStatus c' k = (if k = node_id d i then NodePending else nodeStatus c k)" for k
    using e(3) w(3) by (simp add: nodeStatus_def)
  show "attempts c' k = attempts c k" if "k \<noteq> node_id d i" for k
    using w(5) [OF that] attempts_cong [OF e(4)] by simp
qed

lemma reopenBody_effect:
  assumes wf: "wf_definition d" and step: "foldR (reopenNode d) is c = Inr c'"
    and b: "\<And>i. i \<in> set is \<Longrightarrow> i < n_nodes d \<and> n_loops (node_at d i) \<noteq> []"
    and ok: "countsOk d c" and np: "nodesPresent d c" and ep: "edgesPresent d c"
  shows "countsOk d c' \<and> reopenKeeps c c' \<and> sameDomains c c' \<and>
    (\<forall>k. nodeStatus c' k = (if k \<in> node_id d ` set is then NodePending else nodeStatus c k)) \<and>
    (\<forall>k. k \<notin> node_id d ` set is \<longrightarrow> attempts c' k = attempts c k)"
  using step b ok np ep
proof (induction "is" arbitrary: c)
  case Nil
  then show ?case by (simp add: reopenKeeps_refl)
next
  case (Cons i "is")
  from Cons.prems(1) obtain x where x: "reopenNode d i c = Inr x" "foldR (reopenNode d) is x = Inr c'"
    by (auto simp: bindR_Inr_iff)
  have i: "i < n_nodes d" "n_loops (node_at d i) \<noteq> []" using Cons.prems(2) [of i] by simp_all
  note e = reopenNode_effect [OF wf i(1) Cons.prems(3-5) i(2) x(1)]
  have "nodesPresent d x" "edgesPresent d x"
    using Cons.prems(4,5) sameDomains_present [OF e(3)] by blast+
  from Cons.IH [OF x(2) _ e(1) this] Cons.prems(2) have r: "countsOk d c'" "reopenKeeps x c'" "sameDomains x c'"
    "\<And>k. nodeStatus c' k = (if k \<in> node_id d ` set is then NodePending else nodeStatus x k)"
    "\<And>k. k \<notin> node_id d ` set is \<Longrightarrow> attempts c' k = attempts x k" by auto
  have "nodeStatus c' k = (if k \<in> node_id d ` set (i # is) then NodePending else nodeStatus c k)" for k
    unfolding r(4) e(4) by auto
  moreover have "attempts c' k = attempts c k" if "k \<notin> node_id d ` set (i # is)" for k
    using r(5) [of k] e(5) [of k] that by auto
  ultimately show ?case
    using r(1) reopenKeeps_trans [OF e(2) r(2)] sameDomains_trans [OF e(3) r(3)] by blast
qed

section \<open>The next round\<close>

lemma onlyIterations_same:
  assumes "onlyIterations c c'"
  shows "Nodes c' = Nodes c" "Edges c' = Edges c" "Attempts c' = Attempts c" "AttemptCeilings c' = AttemptCeilings c"
    "Version c' = Version c" "RunID c' = RunID c" "Status c' = Status c" "Commands c' = Commands c"
    "AwaitingDecisions c' = AwaitingDecisions c" "Blocked c' = Blocked c"
    "nodeStatus c' k = nodeStatus c k" "attempts c' k = attempts c k" "edgeDisp c' f oc = edgeDisp c f oc"
    "countsOk d c \<Longrightarrow> mforall (iterationEntryOk d) (Iterations c') \<Longrightarrow> countsOk d c'"
proof -
  from assms obtain m where c': "c' = c\<lparr>Iterations := m\<rparr>" by (auto simp: onlyIterations_def)
  then show "Nodes c' = Nodes c" "Edges c' = Edges c" "Attempts c' = Attempts c" "AttemptCeilings c' = AttemptCeilings c"
    "Version c' = Version c" "RunID c' = RunID c" "Status c' = Status c" "Commands c' = Commands c"
    "AwaitingDecisions c' = AwaitingDecisions c" "Blocked c' = Blocked c"
    "nodeStatus c' k = nodeStatus c k" "attempts c' k = attempts c k" "edgeDisp c' f oc = edgeDisp c f oc"
    by (simp_all add: nodeStatus_def attempts_def edgeDisp_def)
  assume ok: "countsOk d c" and it: "mforall (iterationEntryOk d) (Iterations c')"
  have "attemptEntryOk c' d = attemptEntryOk c d"
    using executableAttemptCeiling_cong [of c' c] c' by (auto simp: attemptEntryOk_def fun_eq_iff split: option.splits)
  with ok it c' show "countsOk d c'" by (simp add: countsOk_def)
qed

text \<open>What \<open>iterateLoop\<close> does, for a decision that leaves its outbox.\<close>

lemma iterateLoop_effect:
  assumes wf: "wf_definition d" and sh: "shapeOk d c" and ok: "countsOk d c"
    and li: "li < length (d_loops d)" and l: "l = loop_at d li"
    and lo: "loopOf d (node_at d (l_from l)) (l_outcome l) = Some li" and more: "loopHasRounds c d l"
    and step: "iterateLoop d li c = Inr c'"
  obtains c3 where "c' = activate (node_at d (l_to l)) c3" "countsOk d c3" "sameDomains c c3"
    "Version c3 = Version c" "RunID c3 = RunID c" "Status c3 = Status c" "Commands c3 = Commands c"
    "AwaitingDecisions c3 = AwaitingDecisions c" "Blocked c3 = Blocked c"
    "\<And>k. nodeStatus c3 k = (if k \<in> node_id d ` set (l_body l) then NodePending else nodeStatus c k)"
    "\<And>k. k \<notin> node_id d ` set (l_body l) \<Longrightarrow> attempts c3 k = attempts c k"
    "\<And>k. attempts c k \<le> attempts c3 k"
    "\<And>f oc. edgeDisp c3 f oc = edgeDisp c f oc \<or> edgeDisp c3 f oc = EdgeUnresolved"
    "\<And>f oc. (f, oc) \<noteq> (node_id d (l_from l), l_outcome l) \<Longrightarrow>
       (\<And>k. k \<in> set (l_inner l) \<Longrightarrow> (f, oc) \<noteq> (node_id d (l_from (loop_at d k)), l_outcome (loop_at d k))) \<Longrightarrow>
       iterations c3 f oc = iterations c f oc"
    "list_all (roundFinished d l c) (l_body l)"
proof -
  let ?c1 = "bumpIteration (node_id d (l_from l)) (l_outcome l) c"
  let ?c2 = "fold (clearIteration d) (l_inner l) ?c1"
  from step obtain c3 where fin: "list_all (roundFinished d l c) (l_body l)"
    and c3: "foldR (reopenNode d) (l_body l) ?c2 = Inr c3" and c': "c' = activate (node_at d (l_to l)) c3"
    by (auto simp: iterateLoop_def Let_def l bindR_Inr_iff split: if_splits)
  have wl: "wf_loop d li" by (rule wf_loopD [OF wf li])
  have from': "l_from l < n_nodes d" and mx: "2 \<le> l_maxIterations l" "l_maxIterations l \<le> MaxInt"
    and body: "\<And>i. i \<in> set (l_body l) \<Longrightarrow> i < n_nodes d \<and> n_loops (node_at d i) \<noteq> []"
    using wl by (auto simp: wf_loop_def Let_def l)
  have it: "mforall (iterationEntryOk d) (Iterations c)" using ok by (simp add: countsOk_def)
  have only: "onlyIterations c ?c2" using onlyIterations_bump onlyIterations_clearAll onlyIterations_trans by blast
  note s2 = onlyIterations_same [OF only]
  have more': "wrap64 (iterations c (node_id d (l_from l)) (l_outcome l) + 1) < l_maxIterations (loop_at d li)"
    using more by (simp add: loopHasRounds_def iterationsTaken_def l)
  have "mforall (iterationEntryOk d) (Iterations ?c1)"
    using iterationsOk_bump(1) [OF it lo _ _ _ more'] from' mx wf by (simp add: l)
  then have "mforall (iterationEntryOk d) (Iterations ?c2)" by (rule iterationsOk_clearAll)
  then have ok2: "countsOk d ?c2" using s2(14) [OF ok] by blast
  have dom2: "sameDomains c ?c2" using s2(1,2) by (simp add: sameDomains_def)
  have pres: "nodesPresent d ?c2" "edgesPresent d ?c2"
    using sameDomains_present [OF dom2] shapeOk_present [OF wf sh] by blast+
  from reopenBody_effect [OF wf c3 body ok2 pres] have r: "countsOk d c3" "reopenKeeps ?c2 c3" "sameDomains ?c2 c3"
    "\<And>k. nodeStatus c3 k = (if k \<in> node_id d ` set (l_body l) then NodePending else nodeStatus ?c2 k)"
    "\<And>k. k \<notin> node_id d ` set (l_body l) \<Longrightarrow> attempts c3 k = attempts ?c2 k" by blast+
  note k = r(2) [unfolded reopenKeeps_def]
  show thesis
  proof (rule that [OF c' r(1) sameDomains_trans [OF dom2 r(3)]])
    show "list_all (roundFinished d l c) (l_body l)" by (rule fin)
    fix f oc
    assume ne: "(f, oc) \<noteq> (node_id d (l_from l), l_outcome l)"
      and inner: "\<And>k. k \<in> set (l_inner l) \<Longrightarrow> (f, oc) \<noteq> (node_id d (l_from (loop_at d k)), l_outcome (loop_at d k))"
    have "iterations c3 f oc = iterations ?c2 f oc" using k by (simp add: iterations_def)
    also have "\<dots> = iterations ?c1 f oc" by (rule clearAll_other) (use inner in auto)
    also have "\<dots> = iterations c f oc" using ne by auto
    finally show "iterations c3 f oc = iterations c f oc" .
  qed (use k r(4,5) s2 in simp_all)
qed

text \<open>The round of a command outside the loop body does not change.\<close>

lemma RoundOf_outside:
  assumes wf: "wf_definition d" and li: "li < length (d_loops d)" and j: "j < n_nodes d" "j \<notin> set (l_body (loop_at d li))"
    and it: "\<And>f oc. (f, oc) \<noteq> (node_id d (l_from (loop_at d li)), l_outcome (loop_at d li)) \<Longrightarrow>
       (\<And>k. k \<in> set (l_inner (loop_at d li)) \<Longrightarrow> (f, oc) \<noteq> (node_id d (l_from (loop_at d k)), l_outcome (loop_at d k))) \<Longrightarrow>
       iterations c' f oc = iterations c f oc"
  shows "RoundOf d c' (node_id d j) = RoundOf d c (node_id d j)"
proof (cases "n_loops (node_at d j)")
  case Nil
  then show ?thesis using wf j(1) by (simp add: RoundOf_def)
next
  case (Cons k ks)
  have k: "k < length (d_loops d)" "j \<in> set (l_body (loop_at d k))"
    using wf_nodeD [OF wf j(1)] Cons by (auto simp: wf_node_def Let_def)
  have inj: "x = y" if "x < length (d_loops d)" "y < length (d_loops d)"
    "node_id d (l_from (loop_at d x)) = node_id d (l_from (loop_at d y))"
    "l_outcome (loop_at d x) = l_outcome (loop_at d y)" for x y
  proof -
    have "l_from (loop_at d x) < n_nodes d" "l_from (loop_at d y) < n_nodes d"
      using wf_loopD [OF wf that(1)] wf_loopD [OF wf that(2)] by (auto simp: wf_loop_def Let_def)
    with that(3) wf have "l_from (loop_at d x) = l_from (loop_at d y)" by (simp add: node_id_inj)
    moreover have "distinct (map (\<lambda>l. (l_from l, l_outcome l)) (d_loops d))" using wf by (simp add: wf_definition_def)
    ultimately show ?thesis using that(1,2,4) by (simp add: distinct_conv_nth) metis
  qed
  have inner: "m < length (d_loops d) \<and> set (l_body (loop_at d m)) \<subseteq> set (l_body (loop_at d li))"
    if "m \<in> set (l_inner (loop_at d li))" for m
    using wf_loopD [OF wf li] that by (auto simp: wf_loop_def Let_def list_all_iff)
  have "iterationsTaken c' d (loop_at d k) = iterationsTaken c d (loop_at d k)"
    unfolding iterationsTaken_def
  proof (rule it)
    show "(node_id d (l_from (loop_at d k)), l_outcome (loop_at d k)) \<noteq>
        (node_id d (l_from (loop_at d li)), l_outcome (loop_at d li))"
      using inj [OF k(1) li] k(2) j(2) by auto
    show "(node_id d (l_from (loop_at d k)), l_outcome (loop_at d k)) \<noteq>
        (node_id d (l_from (loop_at d m)), l_outcome (loop_at d m))" if "m \<in> set (l_inner (loop_at d li))" for m
      using inj [OF k(1)] inner [OF that] k(2) j(2) by auto
  qed
  with Cons show ?thesis using wf j(1) by (simp add: RoundOf_def Let_def)
qed

lemma Inv_iterate:
  assumes wf: "wf_definition d" and inv: "InvX d a c"
    and act: "st d c a = NodeReady \<or> st d c a = NodeRunning"
    and li: "li < length (d_loops d)" and a: "l_from (loop_at d li) = a"
    and lo: "loopOf d (node_at d a) (l_outcome (loop_at d li)) = Some li"
    and more: "loopHasRounds c d (loop_at d li)" and step: "iterateLoop d li c = Inr c'"
  shows "Inv d c'"
proof -
  define l where "l = loop_at d li"
  note i = InvXD [OF inv]
  have lo': "loopOf d (node_at d (l_from l)) (l_outcome l) = Some li" using lo a by (simp add: l_def)
  obtain c3 where c': "c' = activate (node_at d (l_to l)) c3" and ok3: "countsOk d c3" and dom3: "sameDomains c c3"
    and same3: "Version c3 = Version c" "RunID c3 = RunID c" "Status c3 = Status c" "Commands c3 = Commands c"
      "AwaitingDecisions c3 = AwaitingDecisions c" "Blocked c3 = Blocked c"
    and st3: "\<And>k. nodeStatus c3 k = (if k \<in> node_id d ` set (l_body l) then NodePending else nodeStatus c k)"
    and att3: "\<And>k. k \<notin> node_id d ` set (l_body l) \<Longrightarrow> attempts c3 k = attempts c k"
    and ed3: "\<And>f oc. edgeDisp c3 f oc = edgeDisp c f oc \<or> edgeDisp c3 f oc = EdgeUnresolved"
    and it3: "\<And>f oc. (f, oc) \<noteq> (node_id d (l_from l), l_outcome l) \<Longrightarrow>
       (\<And>k. k \<in> set (l_inner l) \<Longrightarrow> (f, oc) \<noteq> (node_id d (l_from (loop_at d k)), l_outcome (loop_at d k))) \<Longrightarrow>
       iterations c3 f oc = iterations c f oc"
    and fin: "list_all (roundFinished d l c) (l_body l)"
    by (rule iterateLoop_effect [OF wf i(1,2) li l_def lo' more [folded l_def] step]) blast
  have wl: "wf_loop d li" by (rule wf_loopD [OF wf li])
  have lto: "l_to l < n_nodes d" "l_to l \<in> set (l_body l)" "a \<in> set (l_body l)"
    and body: "\<And>j. j \<in> set (l_body l) \<Longrightarrow> j < n_nodes d \<and> set (n_children (node_at d j)) \<subseteq> set (l_body l) \<and>
      set (bodyRange d j) \<subseteq> set (l_body l) \<and> set_option (n_parent (node_at d j)) \<subseteq> set (l_body l) \<and>
      \<not> inBody d j (l_to l)"
    and le: "l_edge l < length (d_edges d)" "e_toIndex (edge_at d (l_edge l)) = l_to l"
    using wl a by (auto simp: wf_loop_def Let_def l_def)
  have topar: "n_parent (node_at d (l_to l)) = None"
    using wf_edgeD [OF wf le(1)] le(2) by (auto simp: wf_edge_def Let_def)
  have mem: "node_id d j \<in> node_id d ` set (l_body l) \<longleftrightarrow> j \<in> set (l_body l)" if "j < n_nodes d" for j
    using that body node_id_inj [OF wf] by blast
  have st: "st d c' j = (if j = l_to l then NodeReady else if j \<in> set (l_body l) then NodePending else st d c j)"
    if "j < n_nodes d" for j
    using that lto(1) wf mem [OF that] by (simp add: c' activate_facts st3 node_id_inj)
  have done': "j = a \<or> st d c j = NodeDone \<or> st d c j = NodeSkipped" if "j \<in> set (l_body l)" for j
    using fin that a by (auto simp: list_all_iff roundFinished_def l_def Let_def split: if_splits)
  have npend: "st d c j \<noteq> NodePending \<and> st d c j \<noteq> NodeFailed \<and> st d c j \<noteq> NodeCanceled" if "j \<in> set (l_body l)" for j
    using done' [OF that] act by auto
  have out: "node_id d j \<notin> cmds.keys c \<and> node_id d j \<notin> awaits.keys c \<and> node_id d j \<notin> parked.keys c"
    if j: "j \<in> set (l_body l)" for j
  proof (cases "j = a")
    case False
    with done' [OF j] i(6) [of j] body [OF j] have "nodeOk d c j" "st d c j = NodeDone \<or> st d c j = NodeSkipped" by blast+
    then show ?thesis by (elim disjE) (simp_all add: nodeOk_def)
  qed (use i(12-14) in simp)
  have rest: "sameRest c3 c'" unfolding c' by (rule activate_facts(3))
  have same: "Version c' = Version c" "RunID c' = RunID c" "Status c' = Status c" "Commands c' = Commands c"
    "Blocked c' = Blocked c" "Attempts c' = Attempts c3" "Iterations c' = Iterations c3" "AttemptCeilings c' = AttemptCeilings c3"
    using rest same3 by (simp_all add: sameRest_def)
  have att: "attempts c' (node_id d j) = attempts c (node_id d j)" if "j < n_nodes d" "j \<notin> set (l_body l)" for j
    using att3 [of "node_id d j"] mem [OF that(1)] that(2) attempts_cong [OF same(6)] by simp
  have keys: "cmds.keys c' = cmds.keys c" "cmds.canonical c' = cmds.canonical c" "parked.keys c' = parked.keys c"
    "parked.canonical c' = parked.canonical c"
    using same_outbox(1) [OF same(4)] same_outbox(3) [OF same(5)] by simp_all
  have akeys: "awaits.keys c' = awaits.keys c \<union> (if awaitsHuman (node_at d (l_to l)) then {node_id d (l_to l)} else {})"
    "awaits.canonical c \<Longrightarrow> awaits.canonical c'"
    using same_outbox(2) [OF same3(5)] by (simp_all add: c' activate_facts)
  have amem: "node_id d j \<in> awaits.keys c' \<longleftrightarrow> node_id d j \<in> awaits.keys c \<or> j = l_to l \<and> awaitsHuman (node_at d j)"
    if "j < n_nodes d" for j using that lto(1) wf unfolding akeys(1) by (auto simp: node_id_inj)
  have dom: "sameDomains c c'"
    using sameDomains_trans [OF dom3] sameDomains_activate [OF _ lto(1)]
      sameDomains_present(1) [OF dom3 shapeOk_present(1) [OF wf i(1)]] unfolding c' by blast
  have nodes: "nodeOk d c' j" if j: "j < n_nodes d" for j
  proof (cases "j \<in> set (l_body l)")
    case True
    have s: "st d c' j = (if j = l_to l then NodeReady else NodePending)" using st [OF j] True by simp
    show ?thesis
    proof (rule nodeOk_idle)
      show "st d c' j = NodeReady \<or> st d c' j = NodePending \<or> st d c' j = NodeDone \<or> st d c' j = NodeSkipped"
        using s by simp
      show "node_id d j \<notin> cmds.keys c'" "node_id d j \<notin> parked.keys c'" using out [OF True] keys by simp_all
      show "awaitsHuman (node_at d j) \<and> st d c' j = NodeReady" if "node_id d j \<in> awaits.keys c'"
        using that amem [OF j] out [OF True] s by auto
    qed (use s in \<open>simp split: if_splits\<close>)
  next
    case False
    then have "j \<noteq> a" "j \<noteq> l_to l" using lto by auto
    then show ?thesis
      using i(6) [OF j] nodeOk_cong [of c' d j c] st [OF j] False att [OF j] keys amem [OF j] by simp
  qed
  have comp: "compoundOk d c' p" if p: "p < n_nodes d" for p
  proof (cases "p \<in> set (l_body l)")
    case True
    have "st d c' j = NodePending" if j: "j \<in> set (n_children (node_at d p))" for j
    proof -
      have "j \<in> set (l_body l)" "j \<noteq> l_to l" using body [OF True] j child_facts(2) [OF wf p j] topar by auto
      then show ?thesis using st [OF child_facts(1) [OF wf p j]] by simp
    qed
    moreover have "st d c' p = NodeReady \<or> st d c' p = NodePending" using st [OF p] True by auto
    ultimately show ?thesis unfolding compoundOk_def by (auto simp: liveStage_def)
  next
    case False
    then have pa: "p \<noteq> a" "p \<noteq> l_to l" using lto by auto
    have "st d c' j = st d c j" if j: "j \<in> set (n_children (node_at d p))" for j
    proof -
      have "j \<notin> set (l_body l)" using body [of j] child_facts(2) [OF wf p j] False by auto
      moreover from this lto have "j \<noteq> l_to l" by auto
      ultimately show ?thesis using st [OF child_facts(1) [OF wf p j]] by simp
    qed
    then show ?thesis using i(7) [OF p pa(1)] compoundOk_cong [of c' d p c] st [OF p] False pa by simp
  qed
  have bod: "bodyOk d c' s" if s: "s < n_nodes d" for s
    unfolding bodyOk_def
  proof (intro impI allI)
    fix j assume sub: "isSub d s" and pe: "st d c' s = NodePending \<or> st d c' s = NodeReady" and j: "inBody d s j"
    have jn: "j < n_nodes d" by (rule inBody_less [OF wf sub j])
    show "st d c' j = NodePending"
    proof (cases "s \<in> set (l_body l)")
      case True
      have "j \<in> set (l_body l)" "j \<noteq> l_to l" using body [OF True] j by (auto simp: inBody_def)
      then show ?thesis using st [OF jn] by simp
    next
      case False
      then have "st d c s = NodePending \<or> st d c s = NodeReady" using pe st [OF s] lto by (auto split: if_splits)
      with i(8) [OF s] sub j have pj: "st d c j = NodePending" unfolding bodyOk_def by blast
      then have "j \<notin> set (l_body l)" using npend by blast
      moreover from this lto have "j \<noteq> l_to l" by auto
      ultimately show ?thesis using st [OF jn] pj by simp
    qed
  qed
  have undoom: "\<not> doomed c" if "\<not> doomed c'"
  proof (rule undoomed [OF i(1) dom _ that])
    fix j assume j: "j < n_nodes d" "st d c j = NodeFailed \<or> st d c j = NodeCanceled"
    then have "j \<notin> set (l_body l)" using npend by blast
    moreover from this lto have "j \<noteq> l_to l" by auto
    ultimately show "st d c' j = NodeFailed \<or> st d c' j = NodeCanceled" using st [OF j(1)] j(2) by simp
  qed
  show ?thesis
  proof (rule InvI)
    have "knownDisposition (edgeState c' (edge_at d j))" if "j < length (d_edges d)" for j
      using i(1) that ed3 [of "e_from (edge_at d j)" "e_outcome (edge_at d j)"]
      by (auto simp: shapeOk_def edgeState_def c' activate_facts)
    then show "shapeOk d c'"
      using i(1) dom same unfolding shapeOk_def sameDomains_def by simp
    have "sameCounts c3 c'" using same same3 by (simp add: sameCounts_def)
    then show "countsOk d c'" using ok3 countsOk_cong by blast
    show "commandsOk d c'"
      unfolding commandsOk_def keys
    proof (intro conjI ballI allI impI)
      show "cmds.canonical c" "cmds.keys c \<subseteq> node_id d ` {..<n_nodes d}" using i(3) by (simp_all add: commandsOk_def)
      fix x j assume x: "x \<in> set (Commands c')" "j < n_nodes d" "cmd_NodeID x = node_id d j"
      have "node_id d j \<in> cmds.keys c" using x same(4) by (metis cmds.keys_def imageI)
      then have nb: "j \<notin> set (l_body l)" using out by blast
      have "RoundOf d c' (node_id d j) = RoundOf d c3 (node_id d j)" by (rule RoundOf_cong [OF same(7)])
      also have "\<dots> = RoundOf d c (node_id d j)"
        using RoundOf_outside [OF wf li x(2) _ it3 [unfolded l_def]] nb unfolding l_def by blast
      finally have "taskCommand c' d (node_at d j) y = taskCommand c d (node_at d j) y" for y
        unfolding taskCommand_def same(2) by simp
      then show "x = taskCommand c' d (node_at d j) (attempts c' (node_id d j))"
        using i(3) x same(4) att [OF x(2) nb] by (simp add: commandsOk_def)
    qed
    show "awaitsOk d c'" using i(4) akeys lto(1) by (auto simp: awaitsOk_def)
    show "parkedOk d c'" using i(5) keys same(5) by (simp add: parkedOk_def)
    show "quietOk c'" using same(3) i(9) by (simp add: quietOk_def)
    show "promptOk d c'"
      unfolding promptOk_def
    proof (intro impI allI)
      fix j assume u: "\<not> doomed c'" and j: "j < n_nodes d" "awaitsHuman (node_at d j)" "st d c' j = NodeReady"
      show "node_id d j \<in> awaits.keys c'"
      proof (cases "j = l_to l")
        case False
        then have "j \<notin> set (l_body l)" "st d c j = NodeReady" using st [OF j(1)] j(3) by (auto split: if_splits)
        moreover from this have "j \<noteq> a" using lto by auto
        ultimately show ?thesis using amem [OF j(1)] i(10) [OF undoom [OF u] j(1)] j(2) by blast
      qed (use amem [OF j(1)] j(2) in simp)
    qed
  qed (use nodes comp bod in auto)
qed

end
