(* ===== verification/Preserve_Reducer.thy ===== *)
theory Preserve_Reducer
  imports Preserve_Loops
begin

text \<open>
  Preservation of the invariant by every transition of the reducer.  The advance and plan
  transitions need a running run, which their only caller checks; an observation needs a valid
  UTF-8 error text, which becomes the reason of a blocked branch.
\<close>

section \<open>Engine-owned nodes\<close>

lemma parentless:
  assumes "wf_definition d" "i < n_nodes d"
    "n_kind (node_at d i) \<notin> {definitionTask, definitionDecision, definitionStageDone}"
  shows "n_parent (node_at d i) = None"
proof (rule ccontr)
  assume "n_parent (node_at d i) \<noteq> None"
  then obtain p where "n_parent (node_at d i) = Some p" by blast
  note p = parent_facts [OF assms(1,2) this]
  from child_wf(1) [OF assms(1) p] assms(3) show False by (auto simp: wf_child_def Let_def)
qed

lemma engine_out:
  assumes "Inv d c" "i < n_nodes d" "st d c i \<noteq> NodeBlocked"
    "n_kind (node_at d i) \<noteq> definitionTask" "n_kind (node_at d i) \<noteq> definitionDecision"
  shows "node_id d i \<notin> cmds.keys c" "node_id d i \<notin> awaits.keys c" "node_id d i \<notin> parked.keys c"
  using InvD(6) [OF assms(1,2)] assms(3-5) by (auto simp: nodeOk_def runsCommand_def awaitsHuman_def)

lemma engine_takeOut:
  assumes "wf_definition d" "Inv d c" "Status c = RunRunning" "i < n_nodes d" "st d c i \<noteq> NodeBlocked"
    "n_kind (node_at d i) \<noteq> definitionTask" "n_kind (node_at d i) \<noteq> definitionDecision"
  shows "InvX d i c"
  by (rule takeOut_none [OF assms(1,2,4,3)]) (use engine_out [OF assms(2,4-7)] in auto)

lemma childless:
  "wf_definition d \<Longrightarrow> i < n_nodes d \<Longrightarrow> n_kind (node_at d i) \<noteq> definitionCompound \<Longrightarrow> n_children (node_at d i) = []"
  using wf_nodeD [of d i] by (simp add: wf_node_def Let_def)

lemma Inv_settleEngine:
  assumes wf: "wf_definition d" and inv: "Inv d c" and run: "Status c = RunRunning" and i: "i < n_nodes d"
    and ready: "st d c i = NodeReady"
    and kind: "n_kind (node_at d i) = definitionStart \<or> n_kind (node_at d i) = definitionParallel"
    and step: "completeAndSettle d i arr c = Inr c'"
  shows "Inv d c'"
proof (rule Inv_settle [OF wf _ _ _ _ step])
  show "InvX d i c" by (rule engine_takeOut [OF wf inv run i]) (use ready kind in auto)
  show "n_parent (node_at d i) = None" by (rule parentless [OF wf i]) (use kind in auto)
  show "st d c i \<noteq> NodeReady" if "runsCommand (node_at d i)" using that kind by (auto simp: runsCommand_def)
  show "\<not> liveStage (st d c j)" if "j \<in> set (n_children (node_at d i))" for j
    using that childless [OF wf i] kind by auto
qed

text \<open>Completing a stage marker or a body exit before its owner completes.\<close>

lemma InvX_inner:
  assumes wf: "wf_definition d" and inv: "Inv d c" and run: "Status c = RunRunning"
    and i: "i < n_nodes d" "st d c i = NodeReady" "i \<noteq> ow"
    and kind: "n_kind (node_at d i) = definitionStageDone \<or> n_kind (node_at d i) = definitionSubprocessExit"
    and par: "n_parent (node_at d i) = None \<or> n_parent (node_at d i) = Some ow"
    and ow: "ow < n_nodes d" "st d c ow = NodeRunning"
      "n_kind (node_at d ow) = definitionCompound \<or> n_kind (node_at d ow) = definitionSubprocess"
  shows "InvX d ow (setNode (node_id d i) NodeDone c)"
proof -
  let ?c = "setNode (node_id d i) NodeDone c"
  have "InvX d ow c" by (rule engine_takeOut [OF wf inv run ow(1)]) (use ow in auto)
  note x = InvXD [OF this]
  have st: "st d ?c j = (if j = i then NodeDone else st d c j)" if "j < n_nodes d" for j
    using that i(1) wf by (simp add: node_id_inj)
  have keys: "cmds.keys ?c = cmds.keys c" "awaits.keys ?c = awaits.keys c" "parked.keys ?c = parked.keys c"
    "cmds.canonical ?c = cmds.canonical c" "awaits.canonical ?c = awaits.canonical c" "parked.canonical ?c = parked.canonical c"
    using same_outbox [of ?c c] by simp_all
  have dom: "sameDomains c ?c" by (rule sameDomains_setNode [OF shapeOk_present(1) [OF wf x(1)] i(1)])
  have shape: "shapeOk d ?c"
    by (rule shapeOk_cong [OF x(1) _ dom]) (use x(1) in \<open>auto simp: shapeOk_def edgeState_def\<close>)
  have counts: "countsOk d ?c" using x(2) countsOk_cong [of c ?c d] by simp
  have cmd: "commandsOk d ?c" using commandsOk_cong [of c ?c d] x(3) keys(4) by (simp add: commandsOk_def)
  have out: "node_id d i \<notin> cmds.keys c" "node_id d i \<notin> awaits.keys c" "node_id d i \<notin> parked.keys c"
    using engine_out [OF inv i(1)] i(2) kind by auto
  have nodes: "nodeOk d ?c j" if j: "j < n_nodes d" "j \<noteq> ow" for j
  proof (cases "j = i")
    case True
    show ?thesis
      by (rule nodeOk_idle) (use True out keys kind in \<open>auto simp: runsCommand_def\<close>)
  next
    case False
    then show ?thesis using x(6) [OF j] nodeOk_cong [of ?c d j c] st [OF j(1)] keys by simp
  qed
  have comp: "compoundOk d ?c q" if q: "q < n_nodes d" "q \<noteq> ow" for q
  proof (cases "q = i")
    case True
    then show ?thesis using compoundOk_leaf [OF wf i(1)] kind by auto
  next
    case False
    have "st d ?c j = st d c j" if j: "j \<in> set (n_children (node_at d q))" for j
      using st [OF child_facts(1) [OF wf q(1) j]] child_facts(2) [OF wf q(1) j] par q(2) by auto
    then show ?thesis using x(7) [OF q] compoundOk_cong [of ?c d q c] st [OF q(1)] False by simp
  qed
  have body: "bodyOk d ?c s" if s: "s < n_nodes d" for s
    unfolding bodyOk_def
  proof (intro impI allI)
    fix j assume sub: "isSub d s" and pe: "st d ?c s = NodePending \<or> st d ?c s = NodeReady" and j: "inBody d s j"
    have "s \<noteq> i" using sub kind by (auto simp: isSub_def)
    with st [OF s] pe have "st d c s = NodePending \<or> st d c s = NodeReady" by simp
    with x(8) [OF s] sub j have pj: "st d c j = NodePending" unfolding bodyOk_def by blast
    then have "j \<noteq> i" using i(2) by auto
    then show "st d ?c j = NodePending" using st [OF inBody_less [OF wf sub j]] pj by simp
  qed
  have undoom: "\<not> doomed c" if "\<not> doomed ?c"
    by (rule undoomed [OF x(1) dom _ that]) (use st i(2) in auto)
  have prompt: "node_id d j \<in> awaits.keys ?c" if "\<not> doomed ?c" "j < n_nodes d" "j \<noteq> ow" "awaitsHuman (node_at d j)"
    "st d ?c j = NodeReady" for j
    using x(10) [OF undoom [OF that(1)] that(2-4)] st [OF that(2)] that(5) keys by (auto split: if_splits)
  show ?thesis
    unfolding InvX_def
    using shape counts cmd nodes comp body prompt run ow(1) keys x(4,5,12-15)
    by (auto simp: awaitsOk_def parkedOk_def st [OF ow(1)] ow(2,3) runsCommand_def)
qed

lemma Inv_advanceStageDone:
  assumes wf: "wf_definition d" and inv: "Inv d c" and run: "Status c = RunRunning" and i: "i < n_nodes d"
    and ready: "st d c i = NodeReady" and kind: "n_kind (node_at d i) = definitionStageDone"
    and step: "advanceStageDone d i c = Inr c'"
  shows "Inv d c'"
proof -
  from step obtain p where p: "n_parent (node_at d i) = Some p" and prun: "st d c p = NodeRunning"
    and s: "completeAndSettle d p (arrivesAt (soleOutcome d (node_at d p))) (setNode (node_id d i) NodeDone c) = Inr c'"
    by (auto simp: advanceStageDone_def split: option.splits if_splits)
  note p' = parent_facts [OF wf i p]
  note ch = child_facts [OF wf p']
  have ip: "i \<noteq> p" using ch(2,5) by auto
  have x: "InvX d p (setNode (node_id d i) NodeDone c)"
    by (rule InvX_inner [OF wf inv run i ready ip _ _ p'(1) prun]) (use kind p ch in auto)
  show ?thesis
  proof (rule Inv_settle [OF wf x ch(5) _ _ s])
    show "st d (setNode (node_id d i) NodeDone c) p \<noteq> NodeReady" if "runsCommand (node_at d p)"
      using that ch(4) by (auto simp: runsCommand_def)
    have "liveStage (st d c i)" using ready by (simp add: liveStage_def)
    from live_child [OF wf InvD(7) [OF inv p'(1)] p' this] obtain k where
      k: "stagesAt d c (n_children (node_at d p)) k" "n_children (node_at d p) ! k = i" by metis
    fix j assume j: "j \<in> set (n_children (node_at d p))"
    then obtain m where m: "m < length (n_children (node_at d p))" "j = n_children (node_at d p) ! m"
      by (auto simp: in_set_conv_nth)
    show "\<not> liveStage (st d (setNode (node_id d i) NodeDone c) j)"
    proof (cases "j = i")
      case False
      then have "\<not> liveStage (st d c j)" using stagesAt_unique [OF k(1) m(1)] m(2) k(2) by auto
      moreover have "node_id d j \<noteq> node_id d i" using False child_facts(1) [OF wf p'(1) j] i wf by (simp add: node_id_inj)
      ultimately show ?thesis by simp
    qed (simp add: liveStage_def)
  qed
qed

lemma Inv_advanceSubprocessExit:
  assumes wf: "wf_definition d" and inv: "Inv d c" and run: "Status c = RunRunning" and i: "i < n_nodes d"
    and ready: "st d c i = NodeReady" and kind: "n_kind (node_at d i) = definitionSubprocessExit"
    and step: "advanceSubprocessExit d i c = Inr c'"
  shows "Inv d c'"
proof -
  from step obtain ow where sc: "n_scope (node_at d i) = Some ow" and prun: "st d c ow = NodeRunning"
    and s: "completeAndSettle d ow (arrivesAt (n_exitOutcome (node_at d i))) (setNode (node_id d i) NodeDone c) = Inr c'"
    by (auto simp: advanceSubprocessExit_def Let_def split: option.splits if_splits)
  have ow: "ow < n_nodes d" "n_kind (node_at d ow) = definitionSubprocess"
    using wf_nodeD [OF wf i] sc kind by (auto simp: wf_node_def Let_def)
  have io: "i \<noteq> ow" using kind ow(2) by auto
  have par: "n_parent (node_at d i) = None" "n_parent (node_at d ow) = None"
    using parentless [OF wf i] parentless [OF wf ow(1)] kind ow(2) by auto
  have x: "InvX d ow (setNode (node_id d i) NodeDone c)"
    by (rule InvX_inner [OF wf inv run i ready io _ _ ow(1) prun]) (use kind par ow in auto)
  show ?thesis
    by (rule Inv_settle [OF wf x par(2) _ _ s])
      (use ow childless [OF wf ow(1)] in \<open>auto simp: runsCommand_def\<close>)
qed

lemma Inv_advanceSubprocess:
  assumes wf: "wf_definition d" and inv: "Inv d c" and run: "Status c = RunRunning" and i: "i < n_nodes d"
    and ready: "st d c i = NodeReady" and kind: "n_kind (node_at d i) = definitionSubprocess"
    and step: "advanceSubprocess d i c = Inr c'"
  shows "Inv d c'"
proof -
  let ?c1 = "setNode (node_id d i) NodeRunning c"
  from step obtain en where en: "n_entry (node_at d i) = Some en" "st d c en = NodePending"
    and c': "c' = activate (node_at d en) ?c1"
    by (auto simp: advanceSubprocess_def Let_def split: option.splits if_splits)
  have sub: "isSub d i" using i kind by (simp add: isSub_def)
  have wfs: "wf_subprocess d i" using wf_nodeD [OF wf i] kind by (simp add: wf_node_def Let_def)
  have inb: "inBody d i en" and enp: "n_parent (node_at d en) = None"
    and nest: "\<And>s. isSub d s \<Longrightarrow> inBody d i s \<Longrightarrow> \<not> inBody d s en"
    using wfs en(1) by (auto simp: wf_subprocess_def Let_def isSub_def subprocesses_def list_all_iff split: option.splits)
  have enn: "en < n_nodes d" by (rule inBody_less [OF wf sub inb])
  have ie: "i \<noteq> en" using en(2) ready by auto
  note x = InvD [OF inv]
  have st: "st d c' j = (if j = en then NodeReady else if j = i then NodeRunning else st d c j)" if "j < n_nodes d" for j
    using that i enn wf by (simp add: c' activate_facts node_id_inj)
  have invx: "InvX d i c" by (rule engine_takeOut [OF wf inv run i]) (use ready kind in auto)
  have rest: "sameRest ?c1 c'" unfolding c' by (rule activate_facts(3))
  have dom: "sameDomains c c'"
  proof -
    have d1: "sameDomains c ?c1" by (rule sameDomains_setNode [OF shapeOk_present(1) [OF wf x(1)] i])
    with sameDomains_present(1) [OF d1 shapeOk_present(1) [OF wf x(1)]] show ?thesis
      unfolding c' using sameDomains_activate [OF _ enn] sameDomains_trans by blast
  qed
  have same: "sameCounts c c'" "Status c' = Status c" "Commands c' = Commands c" "Blocked c' = Blocked c" "Edges c' = Edges c"
    using rest by (simp_all add: sameRest_def sameCounts_def c' activate_facts)
  have att: "attempts c' k = attempts c k" for k
    using same(1) attempts_cong [of c' c] by (simp add: sameCounts_def)
  have keys: "cmds.keys c' = cmds.keys c" "parked.keys c' = parked.keys c" "parked.canonical c' = parked.canonical c"
    using same_outbox(1) [OF same(3)] same_outbox(3) [OF same(4)] by simp_all
  have akeys: "awaits.keys c' = awaits.keys c \<union> (if awaitsHuman (node_at d en) then {node_id d en} else {})"
    "awaits.canonical c \<Longrightarrow> awaits.canonical c'" by (simp_all add: c' activate_facts)
  have amem: "node_id d j \<in> awaits.keys c' \<longleftrightarrow> node_id d j \<in> awaits.keys c \<or> j = en \<and> awaitsHuman (node_at d j)"
    if "j < n_nodes d" for j using that enn wf unfolding akeys(1) by (auto simp: node_id_inj)
  have out: "node_id d en \<notin> cmds.keys c" "node_id d en \<notin> awaits.keys c" "node_id d en \<notin> parked.keys c"
    using x(6) [OF enn] en(2) by (simp_all add: nodeOk_def)
  have iout: "node_id d i \<notin> cmds.keys c" "node_id d i \<notin> awaits.keys c" "node_id d i \<notin> parked.keys c"
    using InvXD(12-14) [OF invx] by simp_all
  have nodes: "nodeOk d c' j" if j: "j < n_nodes d" for j
  proof -
    consider "j = en" | "j = i" | "j \<noteq> en" "j \<noteq> i" by blast
    then show ?thesis
    proof cases
      case 1
      show ?thesis by (rule nodeOk_idle) (use 1 st [OF enn] out keys amem [OF enn] in auto)
    next
      case 2
      then show ?thesis using st [OF i] ie iout keys amem [OF i] kind by (auto simp: nodeOk_def runsCommand_def)
    next
      case 3
      then show ?thesis using x(6) [OF j] nodeOk_cong [of c' d j c] st [OF j] keys att amem [OF j] by simp
    qed
  qed
  have comp: "compoundOk d c' q" if q: "q < n_nodes d" for q
  proof -
    have kids: "st d c' j = st d c j" if j: "j \<in> set (n_children (node_at d q))" for j
      using st [OF child_facts(1) [OF wf q j]] child_facts(2) [OF wf q j] enp parentless [OF wf i] kind by auto
    show ?thesis
    proof (cases "n_kind (node_at d q) = definitionCompound")
      case False
      then show ?thesis by (rule compoundOk_leaf [OF wf q])
    next
      case True
      then have qi: "q \<noteq> i" using kind by auto
      show ?thesis
      proof (cases "q = en")
        case True
        have "st d c' j = NodePending" if "j \<in> set (n_children (node_at d q))" for j
          using x(7) [OF q] kids [OF that] en(2) True that unfolding compoundOk_def by auto
        then show ?thesis using st [OF q] True unfolding compoundOk_def by (auto simp: liveStage_def)
      next
        case False
        then show ?thesis using x(7) [OF q] compoundOk_cong [of c' d q c] kids st [OF q] qi by simp
      qed
    qed
  qed
  have body: "bodyOk d c' s" if s: "s < n_nodes d" for s
    unfolding bodyOk_def
  proof (intro impI allI)
    fix j assume ss: "isSub d s" and pe: "st d c' s = NodePending \<or> st d c' s = NodeReady" and j: "inBody d s j"
    have si: "s \<noteq> i" using pe st [OF i] ie by auto
    have "st d c s = NodePending \<or> st d c s = NodeReady"
      using pe st [OF s] si en(2) by (cases "s = en") auto
    with x(8) [OF s] ss have all: "\<And>m. inBody d s m \<Longrightarrow> st d c m = NodePending" unfolding bodyOk_def by blast
    have ni: "\<not> inBody d s i" using all [of i] ready by auto
    have "j \<noteq> en"
      using inBody_nested [OF wf sub ss inb] nest [OF ss] ni si j by blast
    moreover have "j \<noteq> i" using ni j by blast
    ultimately show "st d c' j = NodePending" using st [OF inBody_less [OF wf ss j]] all [OF j] by simp
  qed
  have undoom: "\<not> doomed c" if "\<not> doomed c'"
    by (rule undoomed [OF x(1) dom _ that]) (use st ready en(2) in auto)
  show ?thesis
  proof (rule InvX_Inv [OF invx same(1) dom same(5,2,3)])
    show "awaitsOk d c'" using x(4) akeys enn by (auto simp: awaitsOk_def)
    show "parkedOk d c'" using x(5) keys same(4) by (simp add: parkedOk_def)
    show "node_id d j \<in> awaits.keys c'" if "\<not> doomed c'" "j < n_nodes d" "awaitsHuman (node_at d j)"
      "st d c' j = NodeReady" for j
      using x(10) run undoom [OF that(1)] that amem [OF that(2)] st [OF that(2)] unfolding promptOk_def
      by (auto split: if_splits)
  qed (use nodes comp body in auto)
qed

lemma Inv_advanceEnd:
  assumes wf: "wf_definition d" and inv: "Inv d c" and i: "i < n_nodes d"
    and ready: "st d c i = NodeReady" and kind: "n_kind (node_at d i) = definitionEnd"
    and run: "Status c = RunRunning" and step: "advanceEnd d i c = Inr c'"
  shows "Inv d c'"
proof -
  have rem: "remainingWork c d (node_id d i) = None"
    and c': "c' = (setNode (node_id d i) NodeDone c)\<lparr>Status := n_terminal (node_at d i)\<rparr>"
    using step by (auto simp: advanceEnd_def Let_def requireNoWorkRemains_def bindR_Inr_iff split: option.splits)
  have empty: "Commands c = []" "AwaitingDecisions c = []" "Blocked c = []"
    using rem by (auto simp: remainingWork_def split: list.splits)
  have terml: "knownRunStatus (n_terminal (node_at d i))" "n_terminal (node_at d i) \<noteq> RunRunning"
    using wf_nodeD [OF wf i] kind by (auto simp: wf_node_def Let_def)
  let ?c1 = "setNode (node_id d i) NodeDone c"
  note x = InvD [OF inv]
  have c1: "nodeStatus c' k = nodeStatus ?c1 k" "attempts c' k = attempts c k" "edgeDisp c' f oc = edgeDisp c f oc" for k f oc
    by (simp_all add: c' nodeStatus_def attempts_def edgeDisp_def setNode_def)
  have st: "st d c' j = (if j = i then NodeDone else st d c j)" if "j < n_nodes d" for j
    using that i wf by (simp add: c1 node_id_inj)
  have dom: "sameDomains c c'"
    using sameDomains_setNode [OF shapeOk_present(1) [OF wf x(1)] i, of NodeDone] by (simp add: sameDomains_def c')
  have stat: "Status c' = n_terminal (node_at d i)" by (simp add: c')
  have same: "sameCounts c c'" by (simp add: sameCounts_def c')
  have outs: "Commands c' = []" "AwaitingDecisions c' = []" "Blocked c' = []" by (simp_all add: c' empty)
  have keys: "cmds.keys c' = {}" "awaits.keys c' = {}" "parked.keys c' = {}" "cmds.canonical c'" "awaits.canonical c'"
    "parked.canonical c'" "cmds.keys c = {}" "awaits.keys c = {}" "parked.keys c = {}"
    by (simp_all add: outs empty cmds.keys_def awaits.keys_def parked.keys_def cmds.canonical_def
        awaits.canonical_def parked.canonical_def)
  have par: "n_parent (node_at d i) = None" by (rule parentless [OF wf i]) (use kind in auto)
  show ?thesis
  proof (rule InvI)
    show "shapeOk d c'"
      by (rule shapeOk_cong [OF x(1) same dom]) (use x(1) terml stat in \<open>auto simp: shapeOk_def edgeState_def c1\<close>)
    show "countsOk d c'" using x(2) countsOk_cong [OF same] by simp
    show "commandsOk d c'" using keys outs by (simp add: commandsOk_def)
    show "awaitsOk d c'" "parkedOk d c'" using keys outs by (simp_all add: awaitsOk_def parkedOk_def)
    show "nodeOk d c' j" if j: "j < n_nodes d" for j
    proof (cases "j = i")
      case True
      show ?thesis by (rule nodeOk_idle) (use True st [OF i] keys kind in \<open>auto simp: runsCommand_def\<close>)
    next
      case False
      then show ?thesis using x(6) [OF j] nodeOk_cong [of c' d j c] st [OF j] keys c1(2) by simp
    qed
    show "compoundOk d c' q" if q: "q < n_nodes d" for q
    proof (cases "q = i")
      case True
      then show ?thesis using compoundOk_leaf [OF wf i] kind by simp
    next
      case False
      have "st d c' j = st d c j" if j: "j \<in> set (n_children (node_at d q))" for j
        using st [OF child_facts(1) [OF wf q j]] child_facts(2) [OF wf q j] par by auto
      then show ?thesis using x(7) [OF q] compoundOk_cong [of c' d q c] st [OF q] False by simp
    qed
    show "bodyOk d c' s" if s: "s < n_nodes d" for s
      unfolding bodyOk_def
    proof (intro impI allI)
      fix j assume sub: "isSub d s" and pe: "st d c' s = NodePending \<or> st d c' s = NodeReady" and j: "inBody d s j"
      have "s \<noteq> i" using sub kind by (auto simp: isSub_def)
      with st [OF s] pe have "st d c s = NodePending \<or> st d c s = NodeReady" by simp
      with x(8) [OF s] sub j have pj: "st d c j = NodePending" unfolding bodyOk_def by blast
      then have "j \<noteq> i" using ready by auto
      then show "st d c' j = NodePending" using st [OF inBody_less [OF wf sub j]] pj by simp
    qed
    show "quietOk c'" using outs by (simp add: quietOk_def)
    show "promptOk d c'" using terml by (simp add: promptOk_def c')
  qed
qed

lemma Inv_advance:
  assumes wf: "wf_definition d" and inv: "Inv d c" and run: "Status c = RunRunning"
    and step: "apply_advance d t c = Inr c'"
  shows "Inv d c'"
proof -
  from step obtain i where ix: "fmlookup (d_index d) (tr_NodeID t) = Some i" and ready: "st d c i = NodeReady"
    and s: "advanceNode d i c = Inr c'"
    by (auto simp: apply_advance_def split: option.splits if_splits)
  have i: "i < n_nodes d" using ix index_lookup [OF wf] by blast
  show ?thesis
  proof (cases "n_kind (node_at d i)")
    case definitionStart
    then show ?thesis using s Inv_settleEngine [OF wf inv run i ready] by (simp add: advanceNode_def)
  next
    case definitionParallel
    then show ?thesis using s Inv_settleEngine [OF wf inv run i ready] by (simp add: advanceNode_def)
  next
    case definitionCompound
    then show ?thesis using s Inv_advanceCompound [OF wf inv run i _ ready] by (simp add: advanceNode_def)
  next
    case definitionStageDone
    then show ?thesis using s Inv_advanceStageDone [OF wf inv run i ready] by (simp add: advanceNode_def)
  next
    case definitionSubprocess
    then show ?thesis using s Inv_advanceSubprocess [OF wf inv run i ready] by (simp add: advanceNode_def)
  next
    case definitionSubprocessExit
    then show ?thesis using s Inv_advanceSubprocessExit [OF wf inv run i ready] by (simp add: advanceNode_def)
  next
    case definitionEnd
    then show ?thesis using s Inv_advanceEnd [OF wf inv i ready _ run] by (simp add: advanceNode_def)
  qed (use s in \<open>simp_all add: advanceNode_def\<close>)
qed

lemma Inv_planned:
  assumes wf: "wf_definition d" and inv: "Inv d c" and run: "Status c = RunRunning"
    and step: "apply_commandPlanned d t c = Inr c'"
  shows "Inv d c'"
proof -
  from step obtain cmd i where ix: "fmlookup (d_index d) (cmd_NodeID cmd) = Some i" and rc: "runsCommand (node_at d i)"
    and s: "planNode d i cmd c = Inr c'"
    by (auto simp: apply_commandPlanned_def split: option.splits if_splits)
  have i: "i < n_nodes d" using ix index_lookup [OF wf] by blast
  show ?thesis by (rule Inv_plan [OF wf inv run i rc s])
qed

section \<open>Verdicts\<close>

lemma Inv_settleVerdict:
  assumes wf: "wf_definition d" and inv: "InvX d a c"
    and kind: "n_kind (node_at d a) = definitionDecision" and par: "n_parent (node_at d a) = None"
    and act: "st d c a = NodeReady \<or> st d c a = NodeRunning"
    and rc: "runsCommand (node_at d a) \<Longrightarrow> st d c a \<noteq> NodeReady"
    and step: "settleVerdict d a v c = Inr c'"
  shows "Inv d c'"
proof -
  have a: "a < n_nodes d" by (rule InvXD(11) [OF inv])
  from step obtain r where r: "routeDecision c d (node_at d a) v = Inr r"
    and s: "(case r of Iterate li \<Rightarrow> iterateLoop d li c | Settle oc \<Rightarrow> completeAndSettle d a (arrivesAt oc) c) = Inr c'"
    by (auto simp: settleVerdict_def Let_def bindR_Inr_iff split: if_splits)
  show ?thesis
  proof (cases r)
    case (Settle oc)
    with s have cs: "completeAndSettle d a (arrivesAt oc) c = Inr c'" by simp
    show ?thesis
      by (rule Inv_settle [OF wf inv par rc _ cs]) (use childless [OF wf a] kind in auto)
  next
    case (Iterate li)
    with r have lo: "loopOf d (node_at d a) v = Some li" and more: "loopHasRounds c d (loop_at d li)"
      by (auto simp: routeDecision_def Let_def split: option.splits if_splits)
    have src: "li \<in> set (n_sourceOf (node_at d a))" and oc: "l_outcome (loop_at d li) = v"
      using lo by (auto simp: loopOf_def find_Some_iff)
    have li: "li < length (d_loops d)" "l_from (loop_at d li) = a"
      using wf_nodeD [OF wf a] src by (auto simp: wf_node_def Let_def list_all_iff)
    show ?thesis
      by (rule Inv_iterate [OF wf inv act li _ more]) (use lo oc s Iterate in simp_all)
  qed
qed

section \<open>Observations\<close>

lemma findCommand_key:
  assumes "findCommand c cid k = Some x"
  shows "cmd_NodeID x = k" "x \<in> set (Commands c)" "k \<in> cmds.keys c" "cmd_ID x = cid"
  using assms by (auto simp: findCommand_def find_Some_iff cmds.keys_def)

lemma decision_parentless:
  assumes "wf_definition d" "i < n_nodes d" "n_kind (node_at d i) = definitionDecision" "runsCommand (node_at d i)"
  shows "n_parent (node_at d i) = None"
proof (rule ccontr)
  assume "n_parent (node_at d i) \<noteq> None"
  then obtain p where "n_parent (node_at d i) = Some p" by blast
  note p = parent_facts [OF assms(1,2) this]
  from child_wf(1) [OF assms(1) p] assms(3,4) show False by (auto simp: wf_child_def Let_def runsCommand_def)
qed

lemma Inv_observeSuccess:
  assumes wf: "wf_definition d" and inv: "InvX d i c1" and rc: "runsCommand (node_at d i)"
    and st: "st d c1 i = NodeRunning" and c1: "c1 = removeCommand (obs_NodeID ob) c"
    and step: "observeSuccess d i ob c = Inr c'"
  shows "Inv d c'"
proof -
  have i: "i < n_nodes d" by (rule InvXD(11) [OF inv])
  from step obtain c2 where c2: "(if n_kind (node_at d i) = definitionDecision then settleVerdict d i (obs_Verdict ob) c1
         else if n_parent (node_at d i) \<noteq> None then advanceStage d i c1
         else completeAndSettle d i (arrivesAt (soleOutcome d (node_at d i))) c1) = Inr c2"
    and c': "c' = abandonAfterDoom c2"
    by (auto simp: observeSuccess_def Let_def c1 bindR_Inr_iff split: if_splits)
  have "Inv d c2"
  proof (cases "n_kind (node_at d i) = definitionDecision")
    case True
    then show ?thesis
      using c2 Inv_settleVerdict [OF wf inv True decision_parentless [OF wf i True rc]] st by simp
  next
    case False
    note nd = this
    show ?thesis
    proof (cases "n_parent (node_at d i)")
      case None
      then show ?thesis
        using c2 nd Inv_settle [OF wf inv None] st childless [OF wf i] runsCommand_kind [OF rc] by simp
    next
      case (Some p)
      then show ?thesis using c2 nd Inv_advanceStage [OF wf inv] st by simp
    qed
  qed
  with Inv_abandon [OF wf] c' show ?thesis by blast
qed

lemma gate_facts:
  assumes wf: "wf_definition d" and i: "i < n_nodes d" and a: "gateAnchor d (node_at d i) = Some anchor"
  obtains p w where "n_parent (node_at d i) = Some p" "p < n_nodes d" "i \<in> set (n_children (node_at d p))"
    "n_doAnchor (node_at d p) = Some w" "anchor = node_at d w" "w \<in> set (n_children (node_at d p))" "w < n_nodes d"
    "n_kind (node_at d w) = definitionTask" "n_kind (node_at d i) = definitionTask" "\<not> n_retryAuthored (node_at d i)"
proof -
  from a obtain p w where p: "n_parent (node_at d i) = Some p" and st: "n_stage (node_at d i) = StageTest \<or> n_stage (node_at d i) = StageReview"
    and w: "n_doAnchor (node_at d p) = Some w" "anchor = node_at d w"
    by (auto simp: gateAnchor_def split: option.splits if_splits)
  note p' = parent_facts [OF wf i p]
  from wf_nodeD [OF wf p'(1)] child_facts(4) [OF wf p'] have "wf_compound d p"
    by (simp add: wf_node_def Let_def)
  with w(1) have w': "w \<in> set (n_children (node_at d p))" by (auto simp: wf_compound_def Let_def)
  have "n_kind (node_at d w) = definitionTask"
    using child_wf(1) [OF wf p'(1) w'] w(1) by (auto simp: wf_child_def Let_def)
  moreover have "n_kind (node_at d i) = definitionTask" "\<not> n_retryAuthored (node_at d i)"
    using child_wf(1) [OF wf p'] st by (auto simp: wf_child_def Let_def)
  ultimately show thesis using p p' w w' child_facts(1) [OF wf p'(1) w'] that by blast
qed

lemma failure_results:
  "(if p then (if q then f else Inr x) else if p' \<and> r then Inr y else Inr z) = Inr s' \<Longrightarrow>
   f = Inr s' \<or> s' = x \<or> (r \<and> s' = y) \<or> s' = z"
  by (auto split: if_splits)

lemma Inv_observeFailure:
  assumes wf: "wf_definition d" and inv: "InvX d i c1" and rc: "runsCommand (node_at d i)"
    and st: "st d c1 i = NodeRunning" and c1: "c1 = removeCommand (obs_NodeID ob) c"
    and utf: "utf8_ValidString (obs_Error ob)" and step: "observeFailure d i ob c = Inr c'"
  shows "Inv d c'"
proof -
  have i: "i < n_nodes d" by (rule InvXD(11) [OF inv])
  let ?b = "budgetNode d (node_at d i)"
  let ?more = "\<not> doomed c1 \<and> attempts c1 (n_id ?b) < attemptCeiling c1 ?b"
  have step': "(if ?more then (if gateAnchor d (node_at d i) \<noteq> None then resetCompoundStages d i c1
            else Inr (setNode (node_id d i) NodeReady c1))
         else if \<not> doomed c1 \<and> n_retryAuthored ?b then
           Inr (addBlocked (node_id d i) (obs_Error ob) (setNode (node_id d i) NodeBlocked c1))
         else Inr (abandonAfterDoom (setNode (node_id d i) NodeFailed c1))) = Inr c'"
    using step unfolding observeFailure_def Let_def c1 .
  consider "resetCompoundStages d i c1 = Inr c'" | "c' = setNode (node_id d i) NodeReady c1"
    | "n_retryAuthored ?b" "c' = addBlocked (node_id d i) (obs_Error ob) (setNode (node_id d i) NodeBlocked c1)"
    | "c' = abandonAfterDoom (setNode (node_id d i) NodeFailed c1)"
    using failure_results [OF step'] by blast
  then show ?thesis
  proof cases
    case 1
    show ?thesis by (rule Inv_resetCompound [OF wf inv _ 1]) (use st in simp)
  next
    case 2
    then show ?thesis using Inv_setNode [OF wf inv rc] st by simp
  next
    case 3
    have "n_kind (node_at d i) = definitionTask \<and> blockableTask d (node_at d i)"
    proof (cases "gateAnchor d (node_at d i)")
      case None
      then show ?thesis using 3(1) wf_nodeD [OF wf i] by (auto simp: budgetNode_def blockableTask_def wf_node_def Let_def)
    next
      case (Some anchor)
      from gate_facts [OF wf i Some] have "n_kind (node_at d i) = definitionTask" by metis
      then show ?thesis using 3(1) Some by (simp add: budgetNode_def blockableTask_def)
    qed
    then show ?thesis using 3(2) Inv_block [OF wf inv _ _ st utf] by simp
  next
    case 4
    then show ?thesis using Inv_abandon [OF wf] Inv_setNode [OF wf inv rc] st by simp
  qed
qed

lemma Inv_observed:
  assumes wf: "wf_definition d" and inv: "Inv d c" and ob: "tr_Observation t = Some ob" "utf8_ValidString (obs_Error ob)"
    and step: "apply_programObserved d t c = Inr c'"
  shows "Inv d c'"
proof -
  from step ob(1) obtain x i where x: "findCommand c (obs_CommandID ob) (obs_NodeID ob) = Some x"
    and ix: "fmlookup (d_index d) (cmd_NodeID x) = Some i" and rc: "runsCommand (node_at d i)"
    and s: "observeNode d i ob c = Inr c'"
    by (auto simp: apply_programObserved_def split: option.splits if_splits)
  have i: "i < n_nodes d" "node_id d i = cmd_NodeID x" using ix index_lookup [OF wf] by blast+
  note f = findCommand_key [OF x]
  have id: "obs_NodeID ob = node_id d i" using i(2) f(1) by simp
  define c1 where "c1 = removeCommand (obs_NodeID ob) c"
  have k: "node_id d i \<in> cmds.keys c" using f(3) id by simp
  have inv1: "InvX d i c1" unfolding c1_def id by (rule takeOut_command [OF wf inv i(1) k])
  have st: "st d c1 i = NodeRunning" using InvD(6) [OF inv i(1)] k by (simp add: nodeOk_def c1_def)
  from s have "observeSuccess d i ob c = Inr c' \<or> observeFailure d i ob c = Inr c'"
    by (auto simp: observeNode_def split: ProgramOutcome.splits if_splits)
  then show ?thesis
    using Inv_observeSuccess [OF wf inv1 rc st c1_def] Inv_observeFailure [OF wf inv1 rc st c1_def ob(2)] by blast
qed

section \<open>Decisions and resolutions\<close>

lemma stage_decision:
  assumes wf: "wf_definition d" and i: "i < n_nodes d" and h: "awaitsHuman (node_at d i)"
    and p: "n_parent (node_at d i) = Some p"
  shows "approvalAnchor d (node_at d i) \<noteq> None"
proof -
  note p' = parent_facts [OF wf i p]
  have st: "n_stage (node_at d i) = StagePlanApproval"
    using child_wf(1) [OF wf p'] h by (auto simp: wf_child_def Let_def awaitsHuman_def)
  let ?ch = "n_children (node_at d p)"
  from p'(2) obtain k where k: "k < length ?ch" "?ch ! k = i" by (auto simp: in_set_conv_nth)
  note ord = stagesOk_approval [OF compound_stages(1) [OF wf p'], of k]
  have len: "0 < length ?ch" using k(1) by linarith
  have "n_stage (node_at d (?ch ! 0)) = StagePlan" using ord k st len by simp
  then have "n_planAnchor (node_at d p) = Some (?ch ! 0)"
    using child_wf(1) [OF wf p'(1) nth_mem [OF len]] by (simp add: wf_child_def Let_def)
  then show ?thesis using p st by (simp add: approvalAnchor_def)
qed

lemma hasObligation_keys: "hasObligation c k \<longleftrightarrow> k \<in> awaits.keys c"
  unfolding hasObligation_def awaits.keys_def list_ex_iff by blast

lemma hasBlocked_keys: "hasBlocked c k \<longleftrightarrow> k \<in> parked.keys c"
  unfolding hasBlocked_def parked.keys_def list_ex_iff by blast

lemma Inv_decided:
  assumes wf: "wf_definition d" and inv: "Inv d c" and step: "apply_decisionRecorded d t c = Inr c'"
  shows "Inv d c'"
proof -
  from step obtain dec where h: "hasObligation c (dec_NodeID dec)"
    and s: "decideNode d (mget 0 (d_index d) (dec_NodeID dec)) dec c = Inr c'"
    by (auto simp: apply_decisionRecorded_def split: option.splits if_splits)
  have k: "dec_NodeID dec \<in> awaits.keys c" using h by (simp add: hasObligation_keys)
  then obtain i where i: "i < n_nodes d" "dec_NodeID dec = node_id d i"
    using InvD(4) [OF inv] by (auto simp: awaitsOk_def)
  have ix: "mget 0 (d_index d) (dec_NodeID dec) = i" using i wf by (simp add: mget_def)
  define c1 where "c1 = removeObligation (dec_NodeID dec) c"
  have inv1: "InvX d i c1" unfolding c1_def i(2) by (rule takeOut_obligation [OF wf inv i(1)]) (use k i(2) in simp)
  have ok: "awaitsHuman (node_at d i)" "st d c1 i = NodeReady"
    using InvD(6) [OF inv i(1)] k i(2) by (simp_all add: nodeOk_def c1_def)
  have nrc: "\<not> runsCommand (node_at d i)" using ok(1) by (auto simp: runsCommand_def awaitsHuman_def)
  have "advanceStage d i c1 = Inr c' \<or> resetPlanApproval d i c1 = Inr c' \<or>
      ApprovalAttempt d c (node_id d i) = None \<and> settleVerdict d i (dec_Verdict dec) c1 = Inr c'"
    using s unfolding ix decideNode_def Let_def c1_def by (auto split: if_splits)
  then show ?thesis
  proof (elim disjE conjE)
    assume 1: "advanceStage d i c1 = Inr c'"
    show ?thesis using Inv_advanceStage [OF wf inv1 _ _ 1] ok(2) nrc by simp
  next
    assume "resetPlanApproval d i c1 = Inr c'"
    then show ?thesis by (rule Inv_resetPlan [OF wf inv1])
  next
    assume 3: "ApprovalAttempt d c (node_id d i) = None" "settleVerdict d i (dec_Verdict dec) c1 = Inr c'"
    have "n_parent (node_at d i) = None"
    proof (rule ccontr)
      assume "n_parent (node_at d i) \<noteq> None"
      with stage_decision [OF wf i(1) ok(1)] 3(1) wf i(1) show False by (auto simp: ApprovalAttempt_def)
    qed
    then show ?thesis
      using Inv_settleVerdict [OF wf inv1 _ _ _ _ 3(2)] ok nrc by (simp add: awaitsHuman_def)
  qed
qed

lemma Inv_resolveRetry:
  assumes wf: "wf_definition d" and inv: "InvX d i c1" and st: "st d c1 i = NodeBlocked"
    and bl: "n_kind (node_at d i) = definitionTask" "blockableTask d (node_at d i)"
    and c1: "c1 = removeBlocked (node_id d i) c" and step: "resolveRetry d i c = Inr c'"
  shows "Inv d c'"
proof -
  have i: "i < n_nodes d" by (rule InvXD(11) [OF inv])
  have rc: "runsCommand (node_at d i)" using bl(1) by (simp add: runsCommand_def)
  show ?thesis
  proof (cases "gateAnchor d (node_at d i)")
    case None
    with step obtain c2 where c2: "raiseAttemptCeiling (node_at d i) c1 = Inr c2" "c' = setNode (node_id d i) NodeReady c2"
      by (auto simp: resolveRetry_def Let_def c1 bindR_Inr_iff)
    have ra: "n_retryAuthored (node_at d i)" using bl(2) None by (simp add: blockableTask_def)
    note r = InvX_raise [OF wf inv i rc ra c2(1)]
    show ?thesis unfolding c2(2) by (rule Inv_setNode [OF wf r(1) rc]) (use r(2) st in simp_all)
  next
    case (Some anchor)
    with step obtain c2 where c2: "raiseAttemptCeiling anchor c1 = Inr c2" "resetCompoundStages d i c2 = Inr c'"
      by (auto simp: resolveRetry_def retryBlockedGate_def Let_def c1 bindR_Inr_iff)
    from gate_facts [OF wf i Some] obtain w where w: "anchor = node_at d w" "w < n_nodes d"
      "n_kind (node_at d w) = definitionTask" "\<not> n_retryAuthored (node_at d i)" by metis
    have ra: "n_retryAuthored (node_at d w)" using bl(2) Some w by (simp add: blockableTask_def)
    have rw: "runsCommand (node_at d w)" using w(3) by (simp add: runsCommand_def)
    note r = InvX_raise [OF wf inv w(2) rw ra c2(1) [unfolded w(1)]]
    show ?thesis by (rule Inv_resetCompound [OF wf r(1) _ c2(2)]) (use r(2) st in simp)
  qed
qed

lemma abandon_unparked:
  assumes "nodeStatus c k \<noteq> NodeBlocked" "doomed c"
  shows "abandonAfterDoom (removeBlocked k c) = abandonAfterDoom c"
proof -
  have pass: "failParked b x = x" if "bo_NodeID b = k" "nodeStatus x k \<noteq> NodeBlocked" for b x
    using that by (simp add: failParked_def)
  have keep: "nodeStatus (failParked b x) k \<noteq> NodeBlocked" if "nodeStatus x k \<noteq> NodeBlocked" for b x
    using that by (simp add: failParked_def)
  have skip: "fold failParked (filter (\<lambda>x. bo_NodeID x \<noteq> k) bs) y = fold failParked bs y"
    if "nodeStatus y k \<noteq> NodeBlocked" for bs y
    using that by (induction bs arbitrary: y) (auto simp: pass keep)
  have nb: "nodeStatus (c\<lparr>AwaitingDecisions := []\<rparr>) k \<noteq> NodeBlocked" using assms by (simp add: nodeStatus_def)
  have indep: "fold failParked bs (y\<lparr>Blocked := z\<rparr>)\<lparr>Blocked := []\<rparr> = fold failParked bs y\<lparr>Blocked := []\<rparr>" for bs y z
  proof (induction bs arbitrary: y)
    case (Cons b bs)
    have "failParked b (y\<lparr>Blocked := z\<rparr>) = (failParked b y)\<lparr>Blocked := z\<rparr>"
      by (simp add: failParked_def nodeStatus_def setNode_def)
    then show ?case by (simp add: Cons.IH)
  qed simp
  let ?bs = "filter (\<lambda>x. bo_NodeID x \<noteq> k) (Blocked c)"
  have "(removeBlocked k c)\<lparr>AwaitingDecisions := []\<rparr> = (c\<lparr>AwaitingDecisions := []\<rparr>)\<lparr>Blocked := ?bs\<rparr>"
    "Blocked (removeBlocked k c) = ?bs" by (simp_all add: removeBlocked_def)
  then have "fold failParked (Blocked (removeBlocked k c)) ((removeBlocked k c)\<lparr>AwaitingDecisions := []\<rparr>)\<lparr>Blocked := []\<rparr> =
      fold failParked (Blocked c) (c\<lparr>AwaitingDecisions := []\<rparr>)\<lparr>Blocked := []\<rparr>"
    by (simp only: indep skip [OF nb])
  note same = this
  show ?thesis using assms(2) unfolding abandonAfterDoom_def Let_def same by simp
qed

lemma Inv_resolved:
  assumes wf: "wf_definition d" and inv: "Inv d c" and step: "apply_blockedResolved d t c = Inr c'"
  shows "Inv d c'"
proof -
  from step obtain r :: BlockedResolution and i where b: "nodeStatus c (res_NodeID r) = NodeBlocked"
    and ix: "fmlookup (d_index d) (res_NodeID r) = Some i"
    and s: "(case res_Action r of ResolveRetry \<Rightarrow> resolveRetry d i c | ResolveSkip \<Rightarrow> resolveSkip d i c
                | ResolveCancel \<Rightarrow> resolveCancel d i c | ResolveOther _ \<Rightarrow> Inl ErrInvalidTransition) = Inr c'"
  proof -
    from step obtain r where r: "tr_Resolution t = Some r" by (auto simp: apply_blockedResolved_def split: option.splits)
    moreover from step r obtain i where "fmlookup (d_index d) (res_NodeID r) = Some i"
      by (auto simp: apply_blockedResolved_def split: option.splits if_splits)
    ultimately show ?thesis
      using step that [of r i] by (simp only: apply_blockedResolved_def option.case split: if_splits) simp_all
  qed
  have i: "i < n_nodes d" "node_id d i = res_NodeID r" using ix index_lookup [OF wf] by blast+
  have st0: "st d c i = NodeBlocked" using b i(2) by simp
  have k: "node_id d i \<in> parked.keys c" and bl: "n_kind (node_at d i) = definitionTask" "blockableTask d (node_at d i)"
    using InvD(6) [OF inv i(1)] st0 unfolding nodeOk_def by blast+
  define c1 where "c1 = removeBlocked (node_id d i) c"
  have inv1: "InvX d i c1" unfolding c1_def by (rule takeOut_blocked [OF wf inv i(1) k])
  have st: "st d c1 i = NodeBlocked" using st0 by (simp add: c1_def)
  have rc: "runsCommand (node_at d i)" using bl(1) by (simp add: runsCommand_def)
  show ?thesis
  proof (cases "res_Action r")
    case ResolveRetry
    then show ?thesis using s Inv_resolveRetry [OF wf inv1 st bl c1_def] by simp
  next
    case ResolveSkip
    then have sk: "resolveSkip d i c = Inr c'" using s by simp
    show ?thesis
    proof (cases "n_parent (node_at d i)")
      case None
      then have "completeAndSettle d i (arrivesAt (soleOutcome d (node_at d i))) c1 = Inr c'"
        using sk by (simp add: resolveSkip_def c1_def Let_def)
      then show ?thesis using Inv_settle [OF wf inv1 None] st childless [OF wf i(1)] bl(1) by simp
    next
      case (Some p)
      then have "advanceStage d i c1 = Inr c'" using sk by (simp add: resolveSkip_def c1_def Let_def)
      then show ?thesis using Inv_advanceStage [OF wf inv1] st by simp
    qed
  next
    case ResolveCancel
    then have c': "c' = abandonAfterDoom (setNode (node_id d i) NodeCanceled c)" using s by (simp add: resolveCancel_def)
    have comm: "setNode (node_id d i) NodeCanceled c1 = removeBlocked (node_id d i) (setNode (node_id d i) NodeCanceled c)"
      by (simp add: c1_def setNode_def removeBlocked_def)
    have "Inv d (setNode (node_id d i) NodeCanceled c1)" by (rule Inv_setNode [OF wf inv1 rc]) (use st in simp_all)
    from Inv_abandon [OF wf this] have "Inv d (abandonAfterDoom (removeBlocked (node_id d i) (setNode (node_id d i) NodeCanceled c)))"
      unfolding comm .
    moreover have "nodeStatus (setNode (node_id d i) NodeCanceled c) (node_id d i) \<noteq> NodeBlocked" by simp
    moreover have "doomed (setNode (node_id d i) NodeCanceled c)"
      by (auto simp: doomed_def mexists_iff setNode_def intro: exI [of _ "node_id d i"])
    ultimately show ?thesis unfolding c' using abandon_unparked by metis
  next
    case (ResolveOther x)
    then show ?thesis using s by simp
  qed
qed

end
