(* ===== verification/Runs.thy ===== *)
theory Runs
  imports Preserve_Reducer
begin

text \<open>
  Runs of the process engine: creation establishes the invariant, every transition a driver may
  commit keeps it, and the reachable checkpoints are the rule-inductive closure of both.
\<close>

section \<open>Every transition\<close>

text \<open>
  A transition the drivers may hand to the reducer: advance and plan only on a running run
  (\<open>AdvanceAndPlan\<close> checks it), an observation only with a valid UTF-8 error text (the program
  executor sanitises it).
\<close>

definition admissible :: "Checkpoint \<Rightarrow> Transition \<Rightarrow> bool" where
  "admissible c t \<longleftrightarrow>
     (case tr_Kind t of
        TransitionAdvance \<Rightarrow> Status c = RunRunning
      | TransitionCommandPlanned \<Rightarrow> Status c = RunRunning
      | TransitionProgramObserved \<Rightarrow>
          (case tr_Observation t of None \<Rightarrow> True | Some ob \<Rightarrow> utf8_ValidString (obs_Error ob))
      | _ \<Rightarrow> True)"

lemma Inv_apply:
  assumes wf: "wf_definition d" and inv: "Inv d c" and adm: "admissible c t"
    and step: "apply_transition c d t = Inr c'"
  shows "Inv d c'"
proof (cases "tr_Kind t")
  case TransitionAdvance
  then show ?thesis
    using step adm Inv_advance [OF wf inv] by (simp add: apply_transition_def admissible_def split: if_splits)
next
  case TransitionCommandPlanned
  then show ?thesis
    using step adm Inv_planned [OF wf inv] by (simp add: apply_transition_def admissible_def split: if_splits)
next
  case TransitionProgramObserved
  then have s: "apply_programObserved d t c = Inr c'" using step by (simp add: apply_transition_def split: if_splits)
  then obtain ob where ob: "tr_Observation t = Some ob" by (auto simp: apply_programObserved_def split: option.splits)
  with adm TransitionProgramObserved have "utf8_ValidString (obs_Error ob)" by (simp add: admissible_def)
  from Inv_observed [OF wf inv ob this s] show ?thesis .
next
  case TransitionDecisionRecorded
  then show ?thesis using step Inv_decided [OF wf inv] by (simp add: apply_transition_def split: if_splits)
next
  case TransitionBlockedResolved
  then show ?thesis using step Inv_resolved [OF wf inv] by (simp add: apply_transition_def split: if_splits)
next
  case (TransitionOther s)
  then show ?thesis using step by (simp add: apply_transition_def split: if_splits)
qed

section \<open>Creation\<close>

lemma initialNodes_lookup:
  "fmlookup (initialNodes d) k = (if k \<in> n_id ` set (d_nodes d) then Some NodePending else None)"
proof -
  have "fmlookup (fold (\<lambda>n. fmupd (n_id n) NodePending) ns m) k =
      (if k \<in> n_id ` set ns then Some NodePending else fmlookup m k)" for m and ns :: "definitionNode list"
    by (induction ns arbitrary: m) auto
  then show ?thesis by (simp add: initialNodes_def)
qed

lemma initialEdges_outer:
  "fmlookup (initialEdges d) f = None \<longleftrightarrow> f \<notin> e_from ` set (d_edges d)"
proof -
  have "fmlookup (fold (\<lambda>e. mput2 (e_from e) (e_outcome e) EdgeUnresolved) es m) f = None \<longleftrightarrow>
      f \<notin> e_from ` set es \<and> fmlookup m f = None" for m and es :: "definitionEdge list"
    by (induction es arbitrary: m) (auto simp: mput2_def)
  then show ?thesis by (simp add: initialEdges_def)
qed

lemma initialEdges_inner:
  "fmlookup (mget fmempty (initialEdges d) f) oc =
     (if \<exists>e\<in>set (d_edges d). e_from e = f \<and> e_outcome e = oc then Some EdgeUnresolved else None)"
proof -
  have "fmlookup (mget fmempty (fold (\<lambda>e. mput2 (e_from e) (e_outcome e) EdgeUnresolved) es m) f) oc =
      (if \<exists>e\<in>set es. e_from e = f \<and> e_outcome e = oc then Some EdgeUnresolved
       else fmlookup (mget fmempty m f) oc)" for m and es :: "definitionEdge list"
  proof (induction es arbitrary: m)
    case (Cons e es)
    show ?case by (simp add: Cons.IH) (auto simp: mput2_def)
  qed simp
  then show ?thesis by (simp add: initialEdges_def)
qed

lemma edges_from:
  assumes wf: "wf_definition d" and i: "i < n_nodes d"
  shows "(\<exists>e\<in>set (d_edges d). e_from e = node_id d i \<and> e_outcome e = oc) \<longleftrightarrow>
     oc \<in> (\<lambda>ei. e_outcome (edge_at d ei)) ` set (n_outgoing (node_at d i))"
proof
  assume "\<exists>e\<in>set (d_edges d). e_from e = node_id d i \<and> e_outcome e = oc"
  then obtain j where j: "j < length (d_edges d)" "e_from (edge_at d j) = node_id d i" "e_outcome (edge_at d j) = oc"
    by (auto simp: in_set_conv_nth)
  have "e_fromIndex (edge_at d j) < n_nodes d" "e_from (edge_at d j) = node_id d (e_fromIndex (edge_at d j))"
    "j \<in> set (n_outgoing (node_at d (e_fromIndex (edge_at d j))))"
    using wf_edgeD [OF wf j(1)] by (auto simp: wf_edge_def Let_def)
  with j(2) i wf have "j \<in> set (n_outgoing (node_at d i))" by (simp add: node_id_inj)
  with j(3) show "oc \<in> (\<lambda>ei. e_outcome (edge_at d ei)) ` set (n_outgoing (node_at d i))" by blast
next
  assume "oc \<in> (\<lambda>ei. e_outcome (edge_at d ei)) ` set (n_outgoing (node_at d i))"
  then obtain j where j: "j \<in> set (n_outgoing (node_at d i))" "oc = e_outcome (edge_at d j)" by blast
  from outgoing_edge [OF wf i j(1)] j(2) show "\<exists>e\<in>set (d_edges d). e_from e = node_id d i \<and> e_outcome e = oc"
    by (intro bexI [of _ "edge_at d j"]) auto
qed

text \<open>The fields of the initial checkpoint, with or without the entry's obligation.\<close>

lemma initial_fields:
  "Version (initialCheckpoint r d) = CheckpointVersion" "RunID (initialCheckpoint r d) = r"
  "Status (initialCheckpoint r d) = RunRunning" "Nodes (initialCheckpoint r d) = fmupd (node_id d 0) NodeReady (initialNodes d)"
  "Attempts (initialCheckpoint r d) = fmempty" "Edges (initialCheckpoint r d) = initialEdges d"
  "Commands (initialCheckpoint r d) = []" "Blocked (initialCheckpoint r d) = []"
  "AttemptCeilings (initialCheckpoint r d) = fmempty" "Iterations (initialCheckpoint r d) = fmempty"
  by (simp_all add: initialCheckpoint_def Let_def)

lemma initial_awaits:
  "awaits.keys (initialCheckpoint r d) = (if awaitsHuman (node_at d 0) then {node_id d 0} else {})"
  "awaits.canonical (initialCheckpoint r d)"
  by (simp_all add: initialCheckpoint_def Let_def addObligation_def hasObligation_def awaits.keys_def awaits.canonical_def)

lemma initial_status:
  assumes wf: "wf_definition d" and i: "i < n_nodes d"
  shows "st d (initialCheckpoint r d) i = (if i = 0 then NodeReady else NodePending)"
proof -
  have "node_id d 0 = node_id d i \<longleftrightarrow> i = 0" using node_id_inj [OF wf i, of 0] wf_nonempty [OF wf] by auto
  moreover have "node_id d i \<in> n_id ` set (d_nodes d)" using i by simp
  ultimately show ?thesis by (simp add: nodeStatus_def initial_fields mget_def initialNodes_lookup)
qed

lemma Inv_initial:
  assumes wf: "wf_definition d" and r: "validRunID r"
  shows "Inv d (initialCheckpoint r d)"
proof -
  let ?c = "initialCheckpoint r d"
  have n0: "0 < n_nodes d" using wf_nonempty [OF wf] by simp
  note f = initial_fields [of r d] and st = initial_status [OF wf]
  have keys: "cmds.keys ?c = {}" "parked.keys ?c = {}" by (simp_all add: cmds.keys_def parked.keys_def f)
  have amem: "node_id d j \<in> awaits.keys ?c \<longleftrightarrow> j = 0 \<and> awaitsHuman (node_at d 0)" if "j < n_nodes d" for j
    using that n0 wf by (auto simp: initial_awaits node_id_inj)
  have p0: "n_parent (node_at d 0) = None" using wf by (simp add: wf_definition_def wf_index_def)
  show ?thesis
  proof (rule InvI)
    have "fset (fmdom (Nodes ?c)) = node_id d ` {..<n_nodes d}"
    proof -
      have "fset (fmdom (initialNodes d)) = n_id ` set (d_nodes d)"
        by (auto simp: fmlookup_dom_iff initialNodes_lookup split: if_splits)
      also have "\<dots> = node_id d ` {..<n_nodes d}" by (force simp: in_set_conv_nth)
      finally have "fset (fmdom (initialNodes d)) = node_id d ` {..<n_nodes d}" .
      with n0 show ?thesis by (simp add: f insert_absorb)
    qed
    moreover have "fset (fmdom (Edges ?c)) = node_id d ` {i. i < n_nodes d \<and> n_outgoing (node_at d i) \<noteq> []}"
    proof -
      have "f \<in> fset (fmdom (initialEdges d)) \<longleftrightarrow> f \<in> e_from ` set (d_edges d)" for f
        using initialEdges_outer [of d f] by (auto simp: fmlookup_dom_iff)
      moreover have "e_from ` set (d_edges d) = node_id d ` {i. i < n_nodes d \<and> n_outgoing (node_at d i) \<noteq> []}"
      proof (intro subset_antisym subsetI)
        fix k assume "k \<in> e_from ` set (d_edges d)"
        then obtain j where j: "j < length (d_edges d)" "k = e_from (edge_at d j)" by (auto simp: in_set_conv_nth)
        then show "k \<in> node_id d ` {i. i < n_nodes d \<and> n_outgoing (node_at d i) \<noteq> []}"
          using wf_edgeD [OF wf j(1)] by (force simp: wf_edge_def Let_def)
      next
        fix k assume "k \<in> node_id d ` {i. i < n_nodes d \<and> n_outgoing (node_at d i) \<noteq> []}"
        then obtain i where i: "i < n_nodes d" "n_outgoing (node_at d i) \<noteq> []" "k = node_id d i" by auto
        then obtain oc where "oc \<in> (\<lambda>ei. e_outcome (edge_at d ei)) ` set (n_outgoing (node_at d i))" by fastforce
        then show "k \<in> e_from ` set (d_edges d)" using edges_from [OF wf i(1)] i(3) by force
      qed
      ultimately show ?thesis by (simp add: f set_eq_iff)
    qed
    moreover have "fset (fmdom (mget fmempty (Edges ?c) (node_id d i))) =
        (\<lambda>ei. e_outcome (edge_at d ei)) ` set (n_outgoing (node_at d i))" if "i < n_nodes d" for i
      unfolding f edges_from [OF wf that, symmetric] set_eq_iff
      by (simp add: fmlookup_dom_iff initialEdges_inner edges_from [OF wf that])
    moreover have "knownDisposition (edgeState ?c (edge_at d j))" if "j < length (d_edges d)" for j
    proof -
      have "fmlookup (mget fmempty (initialEdges d) (e_from (edge_at d j))) (e_outcome (edge_at d j)) = Some EdgeUnresolved"
        unfolding initialEdges_inner using nth_mem [OF that] by auto
      then show ?thesis by (simp add: edgeState_def edgeDisp_def mget2_def f mget_def)
    qed
    ultimately show "shapeOk d ?c" using r by (simp add: shapeOk_def f)
    show "countsOk d ?c" by (simp add: countsOk_def f mforall_iff)
    show "commandsOk d ?c" using keys by (simp add: commandsOk_def f cmds.canonical_def)
    show "awaitsOk d ?c" using n0 initial_awaits by (auto simp: awaitsOk_def)
    show "parkedOk d ?c" using keys by (simp add: parkedOk_def f parked.canonical_def)
    show "nodeOk d ?c j" if j: "j < n_nodes d" for j
    proof -
      have s: "st d ?c j = (if j = 0 then NodeReady else NodePending)" by (rule st [OF j])
      show ?thesis
      proof (rule nodeOk_idle)
        show "st d ?c j = NodeReady \<or> st d ?c j = NodePending \<or> st d ?c j = NodeDone \<or> st d ?c j = NodeSkipped"
          unfolding s by simp
        show "awaitsHuman (node_at d j) \<and> st d ?c j = NodeReady" if "node_id d j \<in> awaits.keys ?c"
          unfolding s using amem [OF j] that by simp
        show "1 \<le> attempts ?c (node_id d j)" if "st d ?c j = NodeDone"
          using that unfolding s by (simp split: if_splits)
      qed (simp_all add: keys)
    qed
    show "compoundOk d ?c p" if p: "p < n_nodes d" for p
    proof -
      have "st d ?c j = NodePending" if j: "j \<in> set (n_children (node_at d p))" for j
      proof -
        have "j \<noteq> 0" using child_facts(2) [OF wf p j] p0 by (intro notI) simp
        then show ?thesis using st [OF child_facts(1) [OF wf p j], of r] by simp
      qed
      then show ?thesis using st [OF p] by (auto simp: compoundOk_def liveStage_def)
    qed
    show "bodyOk d ?c s" if s: "s < n_nodes d" for s
      unfolding bodyOk_def
    proof (intro impI allI)
      fix j assume sub: "isSub d s" and j: "inBody d s j"
      have "j \<noteq> 0" using inBody_bounds [OF wf sub, of j] j by simp
      then show "st d ?c j = NodePending" using st [OF inBody_less [OF wf sub j]] by simp
    qed
    show "quietOk ?c" by (simp add: quietOk_def f)
    show "promptOk d ?c" unfolding promptOk_def using amem st by (auto split: if_splits)
  qed
qed

lemma Initialize_initial: "Initialize r d = Inr c \<Longrightarrow> c = initialCheckpoint r d \<and> validRunID r"
  by (auto simp: Initialize_def bindR_Inr_iff validateCheckpoint_def check_Inr initial_fields split: if_splits)

section \<open>Drivers\<close>

lemma nextEngine_facts:
  assumes "nextEngineTransition c d = Some t"
  shows "tr_Kind t = TransitionAdvance" "Status c = RunRunning" "\<not> doomed c"
  using assms by (auto simp: nextEngineTransition_def advanceTransition_def split: if_splits)

lemma nextPlannable_facts:
  assumes "nextPlannableTask c d = Some node"
  shows "Status c = RunRunning" "\<not> doomed c" "runsCommand node" "nodeStatus c (n_id node) = NodeReady"
    "node \<in> set (d_nodes d)"
proof -
  from assms have "find (\<lambda>node. runsCommand node \<and> nodeStatus c (n_id node) = NodeReady) (d_nodes d) = Some node"
    and 1: "Status c = RunRunning" "\<not> doomed c"
    by (auto simp: nextPlannableTask_def split: if_splits)
  then show "Status c = RunRunning" "\<not> doomed c" "runsCommand node" "nodeStatus c (n_id node) = NodeReady"
    "node \<in> set (d_nodes d)" by (auto simp: find_Some_iff)
qed

text \<open>The advance loop is a sequence of engine transitions; what each keeps, the loop keeps.\<close>

lemma advanceLoop_invariant:
  assumes "\<And>c t c'. P c \<Longrightarrow> nextEngineTransition c d = Some t \<Longrightarrow> apply_transition c d t = Inr c' \<Longrightarrow> P c'"
  shows "P c \<Longrightarrow> advanceLoop d budget n c = Inr (c', n') \<Longrightarrow> P c'"
proof (induction budget arbitrary: n c)
  case 0
  then show ?case by (simp split: if_splits)
next
  case (Suc b)
  show ?case
  proof (cases "nextEngineTransition c d")
    case None
    with Suc show ?thesis by simp
  next
    case (Some t)
    with Suc(3) obtain c1 where "apply_transition c d t = Inr c1" "advanceLoop d b (Suc n) c1 = Inr (c', n')"
      by (auto simp: bindR_Inr_iff)
    with Suc(1) [OF assms [OF Suc(2) Some]] show ?thesis by blast
  qed
qed

lemma advanceLoop_quiet:
  "advanceLoop d budget n c = Inr (c', n') \<Longrightarrow> nextEngineTransition c' d = None"
  by (induction budget arbitrary: n c) (auto simp: bindR_Inr_iff split: if_splits option.splits)

lemma Inv_advanceLoop:
  assumes wf: "wf_definition d" and inv: "Inv d c" and run: "advanceLoop d budget n c = Inr (c', n')"
  shows "Inv d c'"
proof (rule advanceLoop_invariant [where P = "Inv d", OF _ inv run])
  fix c t c'
  assume "Inv d c" and t: "nextEngineTransition c d = Some t" and "apply_transition c d t = Inr c'"
  moreover have "admissible c t" using nextEngine_facts [OF t] by (simp add: admissible_def)
  ultimately show "Inv d c'" using Inv_apply [OF wf] by blast
qed

section \<open>Reachable checkpoints\<close>

text \<open>
  What happens to a stored run: it is created; a driver advances it, and plans a command; a program
  observation, a human decision or an operator's resolution arrives, in any order and at any time,
  and is either refused, which leaves the stored checkpoint alone, or applied.
\<close>

definition external :: "Transition \<Rightarrow> bool" where
  "external t \<longleftrightarrow> tr_Kind t \<noteq> TransitionAdvance \<and> tr_Kind t \<noteq> TransitionCommandPlanned"

inductive reachable :: "string \<Rightarrow> Definition \<Rightarrow> Checkpoint \<Rightarrow> bool" for r d where
  created: "Initialize r d = Inr c \<Longrightarrow> reachable r d c"
| advanced: "reachable r d c \<Longrightarrow> AdvanceUntilQuiescent c d = Inr c' \<Longrightarrow> reachable r d c'"
| driven: "reachable r d c \<Longrightarrow> AdvanceAndPlan c d = Inr (c', command, changed) \<Longrightarrow> reachable r d c'"
| received: "reachable r d c \<Longrightarrow> external t \<Longrightarrow> admissible c t \<Longrightarrow> apply_transition c d t = Inr c' \<Longrightarrow> reachable r d c'"

lemma Inv_driven:
  assumes wf: "wf_definition d" and inv: "Inv d c" and run: "AdvanceAndPlan c d = Inr (c', command, changed)"
  shows "Inv d c'"
proof -
  from run obtain c1 n where c1: "advanceLoop d (transitionBudget d) 0 c = Inr (c1, n)"
    and c': "(case nextPlannableTask c1 d of None \<Rightarrow> c' = c1
       | Some node \<Rightarrow> apply_transition c1 d (planTransition (taskCommand c1 d node (nextAttempt c1 (n_id node)))) = Inr c')"
    by (auto simp: AdvanceAndPlan_def advanceUntilQuiescent_def bindR_Inr_iff Let_def split: if_splits option.splits)
  have inv1: "Inv d c1" by (rule Inv_advanceLoop [OF wf inv c1])
  show ?thesis
  proof (cases "nextPlannableTask c1 d")
    case None
    with c' inv1 show ?thesis by simp
  next
    case (Some node)
    have "admissible c1 (planTransition x)" for x
      using nextPlannable_facts(1) [OF Some] by (simp add: admissible_def planTransition_def)
    from Inv_apply [OF wf inv1 this] c' Some show ?thesis by auto
  qed
qed

lemma Inv_reachable:
  assumes wf: "wf_definition d"
  shows "reachable r d c \<Longrightarrow> Inv d c"
proof (induction rule: reachable.induct)
  case (created c)
  then show ?case using Initialize_initial [OF created] Inv_initial [OF wf] by simp
next
  case (advanced c c')
  then show ?case
    using Inv_advanceLoop [OF wf]
    by (auto simp: AdvanceUntilQuiescent_def advanceUntilQuiescent_def bindR_Inr_iff split: if_splits)
next
  case (driven c c' command changed)
  then show ?case using Inv_driven [OF wf] by blast
next
  case (received c t c')
  then show ?case using Inv_apply [OF wf] by blast
qed

end
