(* ===== verification/Writes.thy ===== *)
theory Writes
  imports Reducer
begin

text \<open>
  What the reducer writes.  Every operation of the reducer changes a checkpoint through a small set
  of writes; the locales of this theory name them layer by layer, the settlement pass, the rounds of
  a loop and the stages of a compound, the external transitions, the whole reducer, and prove
  once that a property kept by the writes of a layer is kept by its operations.
\<close>

section \<open>The settlement pass\<close>

locale settle_writes =
  fixes d :: Definition and P :: "Checkpoint \<Rightarrow> bool"
  assumes write_node: "P c \<Longrightarrow> s \<in> {NodePending, NodeReady, NodeRunning, NodeDone, NodeSkipped} \<Longrightarrow> P (setNode k s c)"
    and write_obligation: "P c \<Longrightarrow> P (addObligation k c)"
    and write_settled: "P c \<Longrightarrow> ei < length (d_edges d) \<Longrightarrow> edgeState c (edge_at d ei) = EdgeUnresolved \<Longrightarrow>
      disp = EdgeArrived \<or> disp = EdgeNotTaken \<Longrightarrow>
      P (setEdge (e_from (edge_at d ei)) (e_outcome (edge_at d ei)) (effectiveDisposition c d (edge_at d ei) disp) c)"
    and write_closed: "P c \<Longrightarrow> P (setEdge (e_from (edge_at d ei)) (e_outcome (edge_at d ei)) EdgeNotTaken c)"
begin

lemma activate_keeps: "P c \<Longrightarrow> P (activate n c)"
  by (simp add: activate_def Let_def write_node write_obligation)

lemma settleEdge_keeps:
  assumes "settleEdge d ei disp s = Inr s'" "P (s_next s)" "disp = EdgeArrived \<or> disp = EdgeNotTaken"
  shows "P (s_next s')"
  using assms(1) by (cases rule: settleEdge_cases) (use assms(2,3) write_settled in auto)

lemma disposition_kinds: "disposition arr oc = EdgeArrived \<or> disposition arr oc = EdgeNotTaken"
  by (cases arr) auto

lemma settleOutgoing_keeps: "settleOutgoing d arr eis s = Inr s' \<Longrightarrow> P (s_next s) \<Longrightarrow> P (s_next s')"
  unfolding settleOutgoing_def
  by (erule foldR_invariant [where P = "\<lambda>s. P (s_next s)"]) (auto intro: settleEdge_keeps [OF _ _ disposition_kinds])

lemma closeOutgoing_keeps: "closeOutgoing d eis s = Inr s' \<Longrightarrow> P (s_next s) \<Longrightarrow> P (s_next s')"
  unfolding closeOutgoing_def
  by (erule foldR_invariant [where P = "\<lambda>s. P (s_next s)"]) (auto intro: settleEdge_keeps)

lemma closeExit_keeps: "closeExit d ei s = Inr s' \<Longrightarrow> P (s_next s) \<Longrightarrow> P (s_next s')"
  by (auto simp: closeExit_def split: if_splits intro: settleEdge_keeps)

lemma closeLoopExits_keeps: "closeLoopExits d i s = Inr s' \<Longrightarrow> P (s_next s) \<Longrightarrow> P (s_next s')"
  unfolding closeLoopExits_def
  by (erule foldR_invariant [where P = "\<lambda>s. P (s_next s)"], assumption)
    (erule foldR_invariant [where P = "\<lambda>s. P (s_next s)"], auto intro: closeExit_keeps)

lemma skipChildren_keeps: "P c \<Longrightarrow> P (skipChildren d is c)"
  by (induction "is" arbitrary: c) (simp_all add: skipChildren_def write_node)

lemma skipBodyNode_keeps: "skipBodyNode d i c = Inr c' \<Longrightarrow> P c \<Longrightarrow> P c'"
  unfolding skipBodyNode_def
  by (erule foldR_invariant) (auto simp: closeBodyEdge_def Let_def intro: write_node write_closed split: if_splits)

lemma skipSubprocessBody_keeps: "skipSubprocessBody d i c = Inr c' \<Longrightarrow> P c \<Longrightarrow> P c'"
  unfolding skipSubprocessBody_def by (erule foldR_invariant) (auto intro: skipBodyNode_keeps)

lemma skipTarget_keeps:
  assumes "skipTarget d t s = Inr s'" "P (s_next s)"
  shows "P (s_next s')"
proof -
  let ?c1 = "skipChildren d (n_children (node_at d t)) (setNode (n_id (node_at d t)) NodeSkipped (s_next s))"
  from assms(1) obtain c2 s2 where
      c2: "(if n_kind (node_at d t) = definitionSubprocess then skipSubprocessBody d t ?c1 else Inr ?c1) = Inr c2"
    and s2: "closeOutgoing d (n_outgoing (node_at d t)) (s\<lparr>s_next := c2\<rparr>) = Inr s2" and "closeLoopExits d t s2 = Inr s'"
    by (auto simp: skipTarget_def Let_def bindR_Inr_iff)
  moreover have "P ?c1" using assms(2) by (simp add: skipChildren_keeps write_node)
  with c2 have "P c2" by (auto split: if_splits intro: skipSubprocessBody_keeps)
  ultimately show ?thesis using closeOutgoing_keeps closeLoopExits_keeps by fastforce
qed

lemma settleTarget_keeps: "settleTarget d t s = Inr s' \<Longrightarrow> P (s_next s) \<Longrightarrow> P (s_next s')"
  by (auto simp: settleTarget_def Let_def activate_keeps split: if_splits dest!: skipTarget_keeps)

lemma settleLoop_keeps:
  assumes "settleLoop d s = Inr c'" "P (s_next s)"
  shows "P c'"
proof -
  have "\<exists>s' :: settling. P (s_next s') \<and> s_queue s' = [] \<and> s_next s' = c'"
  proof (rule settleLoop_invariant [where P = "\<lambda>s. P (s_next s)", OF assms])
    fix s s' :: settling and t q
    assume "P (s_next s)" "settleTarget d t (s\<lparr>s_queue := q\<rparr>) = Inr s'"
    then show "P (s_next s')" using settleTarget_keeps by simp
  qed
  then show ?thesis by blast
qed

lemma completeAndSettle_keeps:
  assumes "completeAndSettle d i arr c = Inr c'" "P c"
  shows "P c'"
proof -
  from assms(1) obtain s1 s2 where
      s1: "settleOutgoing d arr (n_outgoing (node_at d i))
        \<lparr>s_next = setNode (n_id (node_at d i)) NodeDone c, s_touched = fmempty, s_queue = []\<rparr> = Inr s1"
    and "closeLoopExits d i s1 = Inr s2" "settleLoop d s2 = Inr c'"
    by (auto simp: completeAndSettle_def Let_def bindR_Inr_iff split: if_splits)
  moreover have "P (s_next s1)" by (rule settleOutgoing_keeps [OF s1]) (simp add: write_node assms(2))
  ultimately show ?thesis using closeLoopExits_keeps settleLoop_keeps by blast
qed

lemma advanceStage_keeps: "advanceStage d i c = Inr c' \<Longrightarrow> P c \<Longrightarrow> P c'"
  by (auto simp: advanceStage_def Let_def activate_keeps write_node split: option.splits if_splits)

lemma setNodes_keeps: "P c \<Longrightarrow> P (setNodes d NodePending is c)"
  by (induction "is" arbitrary: c) (simp_all add: setNodes_def write_node)

lemma resetCompoundStages_keeps: "resetCompoundStages d i c = Inr c' \<Longrightarrow> P c \<Longrightarrow> P c'"
  by (auto simp: resetCompoundStages_def Let_def setNodes_keeps write_node split: option.splits if_splits)

lemma resetPlanApproval_keeps: "resetPlanApproval d i c = Inr c' \<Longrightarrow> P c \<Longrightarrow> P c'"
  by (auto simp: resetPlanApproval_def Let_def write_node split: option.splits if_splits)

lemma advanceNode_keeps:
  assumes "advanceNode d i c = Inr c'" "P c" "n_kind (node_at d i) \<noteq> definitionEnd"
  shows "P c'"
  using assms
  by (auto simp: advanceNode_def advanceCompound_def advanceStageDone_def advanceSubprocess_def advanceSubprocessExit_def
      Let_def activate_keeps write_node intro: completeAndSettle_keeps
      split: definitionNodeKind.splits option.splits if_splits list.splits)

end

section \<open>Rounds, verdicts and retries\<close>

locale round_writes = settle_writes +
  assumes write_reopened: "P c \<Longrightarrow> P (setEdge (e_from (edge_at d ei)) (e_outcome (edge_at d ei)) EdgeUnresolved c)"
    and write_window: "P c \<Longrightarrow> attempts c k \<noteq> MaxInt \<Longrightarrow> P (recordAttempt k (attempts c k + 1) c)"
    and write_ceiling: "P c \<Longrightarrow> P (c\<lparr>AttemptCeilings := m\<rparr>)"
    and write_iteration: "P c \<Longrightarrow> P (c\<lparr>Iterations := n\<rparr>)"
begin

lemma raiseAttemptCeiling_keeps: "raiseAttemptCeiling node c = Inr c' \<Longrightarrow> P c \<Longrightarrow> P c'"
  by (auto simp: raiseAttemptCeiling_def Let_def write_ceiling split: if_splits)

lemma retryBlockedGate_keeps: "retryBlockedGate d i c = Inr c' \<Longrightarrow> P c \<Longrightarrow> P c'"
  by (auto simp: retryBlockedGate_def bindR_Inr_iff split: option.splits
      intro: resetCompoundStages_keeps raiseAttemptCeiling_keeps)

lemma reopenWindow_keeps: "reopenWindow d node c = Inr c' \<Longrightarrow> P c \<Longrightarrow> P c'"
  by (auto simp: reopenWindow_def openLoopAttemptWindow_def Let_def write_window write_ceiling split: if_splits)

lemma reopenNode_keeps:
  assumes "reopenNode d i c = Inr c'" "P c"
  shows "P c'"
proof -
  from assms(1) obtain c1 where "reopenWindow d (node_at d i) (setNode (n_id (node_at d i)) NodePending c) = Inr c1"
    and f: "foldR (reopenEdge d) (n_outgoing (node_at d i)) c1 = Inr c'"
    by (auto simp: reopenNode_def Let_def bindR_Inr_iff)
  then have "P c1" using reopenWindow_keeps write_node assms(2) by blast
  with f show ?thesis
    by (rule foldR_invariant) (auto simp: reopenEdge_def Let_def intro: write_reopened split: if_splits)
qed

lemma iterateLoop_keeps:
  assumes "iterateLoop d li c = Inr c'" "P c"
  shows "P c'"
proof -
  have clear: "P x \<Longrightarrow> P (fold (clearIteration d) ls x)" for ls x
    by (induction ls arbitrary: x) (simp_all add: clearIteration_def Let_def write_iteration)
  let ?c2 = "fold (clearIteration d) (l_inner (loop_at d li))
      (bumpIteration (n_id (node_at d (l_from (loop_at d li)))) (l_outcome (loop_at d li)) c)"
  from assms(1) obtain c3 where c3: "foldR (reopenNode d) (l_body (loop_at d li)) ?c2 = Inr c3"
    and c': "c' = activate (node_at d (l_to (loop_at d li))) c3"
    by (auto simp: iterateLoop_def Let_def bindR_Inr_iff split: if_splits)
  have "P ?c2" using assms(2) by (intro clear) (simp add: bumpIteration_def write_iteration)
  with c3 have "P c3" by (rule foldR_invariant) (rule reopenNode_keeps)
  then show ?thesis unfolding c' by (rule activate_keeps)
qed

lemma settleVerdict_keeps:
  assumes "settleVerdict d i v c = Inr c'" "P c"
  shows "P c'"
proof -
  from assms(1) obtain r where
    r: "(case r of Iterate li \<Rightarrow> iterateLoop d li c | Settle oc \<Rightarrow> completeAndSettle d i (arrivesAt oc) c) = Inr c'"
    by (auto simp: settleVerdict_def Let_def bindR_Inr_iff split: if_splits)
  show ?thesis
  proof (cases r)
    case (Settle oc)
    with r have "completeAndSettle d i (arrivesAt oc) c = Inr c'" by simp
    then show ?thesis using assms(2) by (rule completeAndSettle_keeps)
  next
    case (Iterate li)
    with r have "iterateLoop d li c = Inr c'" by simp
    then show ?thesis using assms(2) by (rule iterateLoop_keeps)
  qed
qed

end

section \<open>Live transitions\<close>

text \<open>The transitions that fail no node: an advance, a decision, a retry, a skip.\<close>

locale live_writes = round_writes +
  assumes write_awaiting: "P c \<Longrightarrow> P (c\<lparr>AwaitingDecisions := os\<rparr>)"
    and write_blocked: "P c \<Longrightarrow> P (c\<lparr>Blocked := bs\<rparr>)"
    and write_status: "P c \<Longrightarrow> P (c\<lparr>Status := s\<rparr>)"
begin

lemma removeBlocked_keeps: "P c \<Longrightarrow> P (removeBlocked k c)"
  by (simp add: removeBlocked_def write_blocked)

lemma decideNode_keeps:
  assumes "decideNode d i dec c = Inr c'" "P c"
  shows "P c'"
proof -
  have "P (removeObligation (dec_NodeID dec) c)" using assms(2) by (simp add: removeObligation_def write_awaiting)
  with assms(1) show ?thesis
    by (auto simp: decideNode_def Let_def split: if_splits option.splits
        intro: settleVerdict_keeps advanceStage_keeps resetPlanApproval_keeps)
qed

lemma apply_decided_keeps: "apply_decisionRecorded d t c = Inr c' \<Longrightarrow> P c \<Longrightarrow> P c'"
  by (auto simp: apply_decisionRecorded_def split: option.splits if_splits intro: decideNode_keeps)

lemma resume_keeps:
  assumes "P c"
  shows "resolveRetry d i c = Inr c' \<Longrightarrow> P c'" "resolveSkip d i c = Inr c' \<Longrightarrow> P c'"
  using removeBlocked_keeps [OF assms, of "n_id (node_at d i)"] assms
  by (auto simp: resolveRetry_def resolveSkip_def Let_def bindR_Inr_iff split: if_splits
      intro: retryBlockedGate_keeps raiseAttemptCeiling_keeps advanceStage_keeps completeAndSettle_keeps
      intro!: write_node)

lemma advance_keeps: "apply_advance d t c = Inr c' \<Longrightarrow> P c \<Longrightarrow> P c'"
proof -
  assume "apply_advance d t c = Inr c'" and p: "P c"
  then obtain i where s: "advanceNode d i c = Inr c'"
    by (auto simp: apply_advance_def split: option.splits if_splits)
  show "P c'"
  proof (cases "n_kind (node_at d i) = definitionEnd")
    case True
    with s p show ?thesis by (auto simp: advanceNode_def advanceEnd_def Let_def bindR_Inr_iff write_node write_status)
  qed (use s p advanceNode_keeps in blast)
qed

end

section \<open>External transitions\<close>

locale external_writes = live_writes +
  assumes write_halted: "P c \<Longrightarrow> s \<in> {NodeBlocked, NodeFailed, NodeCanceled} \<Longrightarrow> P (setNode k s c)"
begin

lemma abandonAfterDoom_keeps:
  assumes "P c"
  shows "P (abandonAfterDoom c)"
proof -
  have fail: "P x \<Longrightarrow> P (fold failParked bs x)" for bs x
    by (induction bs arbitrary: x) (simp_all add: failParked_def write_halted)
  show ?thesis using assms by (simp add: abandonAfterDoom_def Let_def fail write_awaiting write_blocked write_status)
qed

lemma addBlocked_keeps: "P c \<Longrightarrow> P (addBlocked k r c)"
  by (simp add: addBlocked_def write_blocked)

lemma observeNode_keeps:
  assumes "observeNode d i ob c = Inr c'" "P (removeCommand (obs_NodeID ob) c)"
  shows "P c'"
  using assms
  by (auto simp: observeNode_def observeSuccess_def observeFailure_def Let_def bindR_Inr_iff write_node write_halted
      split: if_splits ProgramOutcome.splits
      intro!: abandonAfterDoom_keeps addBlocked_keeps
      intro: settleVerdict_keeps advanceStage_keeps completeAndSettle_keeps resetCompoundStages_keeps)

lemma apply_observed_keeps:
  "apply_programObserved d t c = Inr c' \<Longrightarrow> tr_Observation t = Some ob \<Longrightarrow> P (removeCommand (obs_NodeID ob) c) \<Longrightarrow> P c'"
  by (auto simp: apply_programObserved_def split: option.splits if_splits intro: observeNode_keeps)

lemma apply_resolved_keeps: "apply_blockedResolved d t c = Inr c' \<Longrightarrow> P c \<Longrightarrow> P c'"
  by (auto simp: apply_blockedResolved_def resolveCancel_def split: option.splits if_splits ResolutionAction.splits
      intro: resume_keeps intro!: abandonAfterDoom_keeps write_halted)

end

section \<open>The reducer\<close>

locale reducer_writes = external_writes +
  assumes write_removed: "P c \<Longrightarrow> P (removeCommand k c)"
    and write_planned: "P c \<Longrightarrow> k = n_id (node_at d i) \<Longrightarrow> nextAttempt c k \<ge> 1 \<Longrightarrow> cmd_NodeID x = k \<Longrightarrow>
      cmd_Attempt x = nextAttempt c k \<Longrightarrow> P (putCommand x (recordAttempt k (nextAttempt c k) c))"
begin

lemma planned_keeps: "apply_commandPlanned d t c = Inr c' \<Longrightarrow> P c \<Longrightarrow> P c'"
proof -
  assume "apply_commandPlanned d t c = Inr c'" and p: "P c"
  then obtain i where c': "c' = putCommand (taskCommand c d (node_at d i) (nextAttempt c (n_id (node_at d i))))
      (recordAttempt (n_id (node_at d i)) (nextAttempt c (n_id (node_at d i))) (setNode (n_id (node_at d i)) NodeRunning c))"
    and a: "nextAttempt c (n_id (node_at d i)) \<ge> 1"
    by (auto simp: apply_commandPlanned_def planNode_def Let_def split: option.splits if_splits)
  let ?n = "node_at d i" and ?c1 = "setNode (n_id (node_at d i)) NodeRunning c"
  let ?x = "taskCommand c d ?n (nextAttempt c (n_id ?n))"
  have e: "nextAttempt ?c1 (n_id ?n) = nextAttempt c (n_id ?n)" by (simp add: nextAttempt_def)
  have "P (putCommand ?x (recordAttempt (n_id ?n) (nextAttempt ?c1 (n_id ?n)) ?c1))"
    by (rule write_planned [OF write_node [OF p]]) (simp_all add: e a)
  then show "P c'" unfolding c' e .
qed

lemma apply_keeps:
  assumes "apply_transition c d t = Inr c'" "P c"
  shows "P c'"
proof (cases "tr_Kind t")
  case TransitionProgramObserved
  then have s: "apply_programObserved d t c = Inr c'" using assms(1) by (simp add: apply_transition_def split: if_splits)
  then obtain ob where "tr_Observation t = Some ob" by (auto simp: apply_programObserved_def split: option.splits)
  with s write_removed [OF assms(2)] show ?thesis using apply_observed_keeps by blast
qed (use assms in \<open>auto simp: apply_transition_def split: if_splits
    intro: advance_keeps planned_keeps apply_decided_keeps apply_resolved_keeps\<close>)

end

end
