(* ===== verification/Histories.thy ===== *)
theory Histories
  imports Runs Writes
begin

text \<open>
  Histories of a stored run.  A step of a run is a driver pass or an accepted external transition;
  a history is a sequence of steps.  The facts of this theory relate a checkpoint to a later one of
  the same history: attempts never fall, no command of an observed attempt comes back, the run
  keeps its name, and at most one branch wins a first-arrival join.
\<close>

section \<open>Steps\<close>

inductive run_step :: "Definition \<Rightarrow> Checkpoint \<Rightarrow> Checkpoint \<Rightarrow> bool" for d where
  advance: "AdvanceUntilQuiescent c d = Inr c' \<Longrightarrow> run_step d c c'"
| drive: "AdvanceAndPlan c d = Inr (c', command, changed) \<Longrightarrow> run_step d c c'"
| receive: "external t \<Longrightarrow> admissible c t \<Longrightarrow> apply_transition c d t = Inr c' \<Longrightarrow> run_step d c c'"

inductive_cases run_stepE: "run_step d c c'"

lemma step_reachable: "run_step d c c' \<Longrightarrow> reachable r d c \<Longrightarrow> reachable r d c'"
  by (auto elim!: run_stepE intro: reachable.advanced reachable.driven reachable.received)

lemma history_reachable: "(run_step d)\<^sup>*\<^sup>* c c' \<Longrightarrow> reachable r d c \<Longrightarrow> reachable r d c'"
  by (induction rule: rtranclp_induct) (auto intro: step_reachable)

text \<open>The two outcomes of a driver pass.\<close>

lemma AdvanceAndPlan_cases:
  assumes "AdvanceAndPlan c d = Inr (c', command, changed)"
  obtains (quiet) n where "advanceLoop d (transitionBudget d) 0 c = Inr (c', n)" "nextPlannableTask c' d = None"
      "command = None" "changed \<longleftrightarrow> n > 0"
  | (planned) c1 n node where "advanceLoop d (transitionBudget d) 0 c = Inr (c1, n)" "nextPlannableTask c1 d = Some node"
      "command = Some (taskCommand c1 d node (nextAttempt c1 (n_id node)))" "changed"
      "apply_transition c1 d (planTransition (taskCommand c1 d node (nextAttempt c1 (n_id node)))) = Inr c'"
  using assms
  by (auto simp: AdvanceAndPlan_def advanceUntilQuiescent_def bindR_Inr_iff Let_def split: if_splits option.splits)

context reducer_writes
begin

lemma advanceLoop_keeps: "advanceLoop d budget n c = Inr (c', n') \<Longrightarrow> P c \<Longrightarrow> P c'"
  by (erule advanceLoop_invariant [of P, rotated -1]) (auto intro: apply_keeps)

lemma run_step_keeps: "run_step d c c' \<Longrightarrow> P c \<Longrightarrow> P c'"
proof (erule run_stepE)
  assume "AdvanceUntilQuiescent c d = Inr c'" "P c"
  then show "P c'"
    by (auto simp: AdvanceUntilQuiescent_def advanceUntilQuiescent_def bindR_Inr_iff split: if_splits
        intro: advanceLoop_keeps)
next
  fix command changed
  assume "AdvanceAndPlan c d = Inr (c', command, changed)" "P c"
  then show "P c'" by (cases rule: AdvanceAndPlan_cases) (auto intro: advanceLoop_keeps apply_keeps)
qed (rule apply_keeps)

lemma history_keeps: "(run_step d)\<^sup>*\<^sup>* c c' \<Longrightarrow> P c \<Longrightarrow> P c'"
  by (induction rule: rtranclp_induct) (auto intro: run_step_keeps)

end

section \<open>The name of the run\<close>

lemma putCommand_fields [simp]:
  "RunID (putCommand x c) = RunID c" "Version (putCommand x c) = Version c" "attempts (putCommand x c) k = attempts c k"
  "edgeDisp (putCommand x c) f oc = edgeDisp c f oc"
  by (simp_all add: putCommand_def attempts_def edgeDisp_def)

lemma addObligation_fields [simp]:
  "RunID (addObligation k c) = RunID c" "Version (addObligation k c) = Version c"
  "attempts (addObligation k c) n = attempts c n" "edgeDisp (addObligation k c) f oc = edgeDisp c f oc"
  "Commands (addObligation k c) = Commands c"
  by (simp_all add: addObligation_def attempts_def edgeDisp_def)

interpretation identity: reducer_writes d "\<lambda>c. Version c = v \<and> RunID c = r" for d v r
  by unfold_locales (auto simp: removeCommand_def)

section \<open>Attempts and commands\<close>

text \<open>Attempts at least those of a base line, and commands that are old or of a later attempt.\<close>

definition fresh :: "(string \<Rightarrow> int) \<Rightarrow> Command set \<Rightarrow> Checkpoint \<Rightarrow> bool" where
  "fresh a X c \<longleftrightarrow>
     (\<forall>k. 0 \<le> a k \<and> a k \<le> attempts c k \<and> attempts c k \<le> MaxInt) \<and>
     (\<forall>x\<in>set (Commands c). x \<in> X \<or> a (cmd_NodeID x) < cmd_Attempt x)"

lemma fresh_cong:
  "attempts c' = attempts c \<Longrightarrow> Commands c' = Commands c \<Longrightarrow> fresh a X c \<Longrightarrow> fresh a X c'"
  by (simp add: fresh_def)

lemma putCommand_set: "set (Commands (putCommand x c)) \<subseteq> insert x (set (Commands c))"
proof -
  have "set (replaceCommand x xs) \<subseteq> insert x (set xs)" for xs by (induction xs) auto
  then show ?thesis by (auto simp: putCommand_def)
qed

lemma fresh_raise:
  assumes "fresh a X c" "attempts c k \<le> n" "n \<le> MaxInt"
  shows "fresh a X (recordAttempt k n c)"
  using assms unfolding fresh_def by (auto intro: order_trans)

lemma fresh_planned:
  assumes f: "fresh a X c" and n: "nextAttempt c k \<ge> 1" and x: "cmd_NodeID x = k" "cmd_Attempt x = nextAttempt c k"
  shows "fresh a X (putCommand x (recordAttempt k (nextAttempt c k) c))"
proof -
  have "0 \<le> a k" "a k \<le> attempts c k" and m: "attempts c k \<le> MaxInt" using f unfolding fresh_def by blast+
  then have 0: "0 \<le> attempts c k" by linarith
  note p = nextAttempt_pos [OF 0 m n]
  have "fresh a X (recordAttempt k (nextAttempt c k) c)" by (rule fresh_raise [OF f]) (use p in linarith)+
  moreover have "a k < cmd_Attempt x" using p(1) x(2) \<open>a k \<le> attempts c k\<close> by linarith
  ultimately show ?thesis using putCommand_set [of x "recordAttempt k (nextAttempt c k) c"] x(1)
    unfolding fresh_def putCommand_fields by blast
qed

interpretation history: reducer_writes d "fresh a X" for d a X
proof
  fix c k assume "fresh a X c" "attempts c k \<noteq> MaxInt"
  moreover from this have "attempts c k < MaxInt" by (simp add: fresh_def order_less_le)
  ultimately show "fresh a X (recordAttempt k (attempts c k + 1) c)" by (intro fresh_raise) simp_all
next
  fix c k i and x :: Command
  assume "fresh a X c" "1 \<le> nextAttempt c k" "cmd_NodeID x = k" "cmd_Attempt x = nextAttempt c k"
  then show "fresh a X (putCommand x (recordAttempt k (nextAttempt c k) c))" by (rule fresh_planned)
qed (auto simp: fresh_def attempts_def removeCommand_def addObligation_def)

lemma Inv_fresh: "Inv d c \<Longrightarrow> set (Commands c) \<subseteq> X \<Longrightarrow> fresh (attempts c) X c"
  using attempts_bounds [OF InvD(2)] by (auto simp: fresh_def)

lemma history_attempts:
  assumes "Inv d c" "(run_step d)\<^sup>*\<^sup>* c c'"
  shows "attempts c k \<le> attempts c' k"
  using history.history_keeps [OF assms(2) Inv_fresh [OF assms(1) order_refl]] unfolding fresh_def by blast

text \<open>An outstanding command is the one of its node's current attempt.\<close>

lemma Inv_command:
  assumes inv: "Inv d c" and x: "x \<in> set (Commands c)"
  obtains i where "i < n_nodes d" "cmd_NodeID x = node_id d i"
    "x = taskCommand c d (node_at d i) (attempts c (cmd_NodeID x))"
proof -
  have sub: "cmds.keys c \<subseteq> node_id d ` {..<n_nodes d}" and
    eq: "\<And>i. i < n_nodes d \<Longrightarrow> cmd_NodeID x = node_id d i \<Longrightarrow> x = taskCommand c d (node_at d i) (attempts c (node_id d i))"
    using InvD(3) [OF inv] x unfolding commandsOk_def by blast+
  from x sub obtain i where i: "i < n_nodes d" "cmd_NodeID x = node_id d i" unfolding cmds.keys_def by blast
  from eq [OF i] have "x = taskCommand c d (node_at d i) (attempts c (cmd_NodeID x))" unfolding i(2) .
  with i that show thesis by blast
qed

lemma observed_payload:
  assumes "tr_Kind t = TransitionProgramObserved" "apply_transition c d t = Inr c'"
  obtains ob x where "tr_Observation t = Some ob" "findCommand c (obs_CommandID ob) (obs_NodeID ob) = Some x"
    "apply_programObserved d t c = Inr c'" "d_nodes d \<noteq> []"
    "tr_Command t = None" "tr_Decision t = None" "tr_Resolution t = None"
  using assms
  by (auto simp: apply_transition_def apply_programObserved_def split: if_splits option.splits)

lemma observation_gone:
  assumes inv: "Inv d c" "Inv d c''" and ob: "tr_Observation t = Some ob"
    and x: "findCommand c (obs_CommandID ob) (obs_NodeID ob) = Some x"
    and s: "apply_programObserved d t c = Inr c'" and later: "(run_step d)\<^sup>*\<^sup>* c' c''"
  shows "findCommand c'' (obs_CommandID ob) (obs_NodeID ob) = None"
proof -
  let ?k = "obs_NodeID ob" and ?X = "set (Commands (removeCommand (obs_NodeID ob) c))"
  note xk = findCommand_key [OF x]
  have "fresh (attempts c) ?X (removeCommand ?k c)"
    using Inv_fresh [OF inv(1) order_refl] by (auto simp: fresh_def attempts_def removeCommand_def)
  from history.history_keeps [OF later history.apply_observed_keeps [OF s ob this]]
  have f: "fresh (attempts c) ?X c''" .
  show ?thesis
  proof (cases "findCommand c'' (obs_CommandID ob) ?k")
    case (Some y)
    note yk = findCommand_key [OF Some]
    from Inv_command [OF inv(1) xk(2)] obtain i where "x = taskCommand c d (node_at d i) (attempts c (cmd_NodeID x))" by blast
    then have ix: "cmd_ID x = command_id (RunID c) (node_id d i) (attempts c ?k) (commandKind (node_at d i))"
      unfolding xk(1) by (metis taskCommand_simps(4))
    from Inv_command [OF inv(2) yk(2)] obtain j where "y = taskCommand c'' d (node_at d j) (attempts c'' (cmd_NodeID y))" by blast
    then have iy: "cmd_ID y = command_id (RunID c'') (node_id d j) (cmd_Attempt y) (commandKind (node_at d j))"
      by (metis taskCommand_simps(3,4))
    have "cmd_Attempt y = attempts c ?k" using command_id_inj ix iy xk(4) yk(4) by metis
    moreover have "y \<in> ?X \<or> attempts c ?k < cmd_Attempt y" using f yk(2) unfolding fresh_def yk(1) [symmetric] by blast
    moreover have "y \<notin> ?X" using yk(1) by (simp add: removeCommand_def)
    ultimately show ?thesis by simp
  qed
qed

lemma observation_once:
  assumes inv: "Inv d c" "Inv d c''" and kind: "tr_Kind t = TransitionProgramObserved"
    and step: "apply_transition c d t = Inr c'" and later: "(run_step d)\<^sup>*\<^sup>* c' c''"
  shows "apply_transition c'' d t = Inl ErrStaleObservation"
proof -
  from observed_payload [OF kind step] obtain ob x where ob: "tr_Observation t = Some ob"
    and x: "findCommand c (obs_CommandID ob) (obs_NodeID ob) = Some x"
    and s: "apply_programObserved d t c = Inr c'" and d: "d_nodes d \<noteq> []"
    and pay: "tr_Command t = None" "tr_Decision t = None" "tr_Resolution t = None" .
  have "findCommand c'' (obs_CommandID ob) (obs_NodeID ob) = None" by (rule observation_gone [OF inv ob x s later])
  with ob kind pay d show ?thesis by (simp add: apply_transition_def apply_programObserved_def)
qed

section \<open>Decisions\<close>

lemma fresh_rebase: "fresh a X c \<Longrightarrow> fresh (attempts c) (set (Commands c)) c"
  using order_trans unfolding fresh_def by blast

text \<open>A new round moves the attempt of every human decision of the body.\<close>

lemma reopenNode_attempt:
  assumes "reopenNode d i c = Inr c'" "awaitsHuman (node_at d i)" "n_parent (node_at d i) = None"
  shows "attempts c (node_id d i) < attempts c' (node_id d i)"
proof -
  from assms obtain x where "reopenWindow d (node_at d i) (setNode (node_id d i) NodePending c) = Inr x"
    and f: "foldR (reopenEdge d) (n_outgoing (node_at d i)) x = Inr c'"
    by (auto simp: reopenNode_def Let_def bindR_Inr_iff)
  with assms(2,3) have x: "attempts x (node_id d i) = attempts c (node_id d i) + 1"
    by (auto simp: reopenWindow_def split: if_splits)
  have "attempts c' (node_id d i) = attempts x (node_id d i)"
    by (rule foldR_invariant [where P = "\<lambda>y. attempts y (node_id d i) = attempts x (node_id d i)", OF f])
      (auto simp: reopenEdge_def Let_def split: if_splits)
  with x show ?thesis by simp
qed

lemma reopenBody_attempt:
  assumes "foldR (reopenNode d) is c = Inr c'" "fresh a X c" "i \<in> set is"
    "awaitsHuman (node_at d i)" "n_parent (node_at d i) = None"
  shows "a (node_id d i) < attempts c' (node_id d i)"
  using assms(1-3)
proof (induction "is" arbitrary: c)
  case (Cons j js)
  from Cons.prems(1) obtain x where x: "reopenNode d j c = Inr x" "foldR (reopenNode d) js x = Inr c'"
    by (auto simp: bindR_Inr_iff)
  have f: "fresh a X x" by (rule history.reopenNode_keeps [OF x(1) Cons.prems(2)])
  show ?case
  proof (cases "j = i")
    case True
    have "fresh (attempts x) (set (Commands x)) c'"
      using x(2) fresh_rebase [OF f] by (rule foldR_invariant) (rule history.reopenNode_keeps)
    then have "attempts x (node_id d i) \<le> attempts c' (node_id d i)" unfolding fresh_def by blast
    moreover have "a (node_id d i) \<le> attempts c (node_id d i)" using Cons.prems(2) unfolding fresh_def by blast
    moreover have "attempts c (node_id d i) < attempts x (node_id d i)"
      using reopenNode_attempt [OF x(1)] assms(4,5) True by simp
    ultimately show ?thesis by linarith
  next
    case False
    with Cons.IH [OF x(2) f] Cons.prems(3) show ?thesis by simp
  qed
qed simp

lemma iterateLoop_attempt:
  assumes wf: "wf_definition d" and i: "i < n_nodes d" "awaitsHuman (node_at d i)" "n_parent (node_at d i) = None"
    and lo: "loopOf d (node_at d i) v = Some li" and f: "fresh (attempts c) X c" and step: "iterateLoop d li c = Inr c'"
  shows "attempts c (node_id d i) < attempts c' (node_id d i)"
proof -
  let ?l = "loop_at d li"
  let ?c2 = "fold (clearIteration d) (l_inner ?l) (bumpIteration (n_id (node_at d (l_from ?l))) (l_outcome ?l) c)"
  from lo have "li \<in> set (n_sourceOf (node_at d i))" by (auto simp: loopOf_def find_Some_iff)
  with wf_nodeD [OF wf i(1)] have li: "li < length (d_loops d)" "l_from ?l = i"
    by (auto simp: wf_node_def Let_def list_all_iff)
  with wf_loopD [OF wf li(1)] have b: "i \<in> set (l_body ?l)" by (auto simp: wf_loop_def Let_def)
  from step obtain c3 where c3: "foldR (reopenNode d) (l_body ?l) ?c2 = Inr c3" and c': "c' = activate (node_at d (l_to ?l)) c3"
    by (auto simp: iterateLoop_def Let_def bindR_Inr_iff split: if_splits)
  have "fresh a X y \<Longrightarrow> fresh a X (fold (clearIteration d) ls y)" for ls a X y
    by (induction ls arbitrary: y) (simp_all add: clearIteration_def Let_def history.write_iteration)
  then have "fresh (attempts c) X ?c2" using f by (simp add: bumpIteration_def history.write_iteration)
  from reopenBody_attempt [OF c3 this b i(2,3)] show ?thesis by (simp add: c' activate_def Let_def)
qed

lemma decision_once:
  assumes wf: "wf_definition d" and inv: "Inv d c" and kind: "tr_Kind t = TransitionDecisionRecorded"
    and step: "apply_transition c d t = Inr c'"
  shows "apply_transition c' d t = Inl ErrStaleDecision"
proof -
  from step kind obtain dec where dec: "tr_Decision t = Some dec" and h: "hasObligation c (dec_NodeID dec)"
    and s: "decideNode d (mget 0 (d_index d) (dec_NodeID dec)) dec c = Inr c'"
    and pay: "tr_Command t = None" "tr_Observation t = None" "tr_Resolution t = None" and ne: "d_nodes d \<noteq> []"
    and sd: "apply_decisionRecorded d t c = Inr c'"
    by (auto simp: apply_transition_def apply_decisionRecorded_def split: option.splits if_splits)
  have k: "dec_NodeID dec \<in> awaits.keys c" using h by (simp add: hasObligation_keys)
  then obtain i where i: "i < n_nodes d" "dec_NodeID dec = node_id d i"
    using InvD(4) [OF inv] by (auto simp: awaitsOk_def)
  have ix: "mget 0 (d_index d) (dec_NodeID dec) = i" using i wf by (simp add: mget_def)
  define c1 where "c1 = removeObligation (node_id d i) c"
  have inv1: "InvX d i c1" unfolding c1_def by (rule takeOut_obligation [OF wf inv i(1)]) (use k i(2) in simp)
  have ok: "awaitsHuman (node_at d i)" "st d c1 i = NodeReady"
    using InvD(6) [OF inv i(1)] k i(2) by (simp_all add: nodeOk_def c1_def)
  have inv': "Inv d c'" by (rule Inv_decided [OF wf inv sd])
  have gone: "apply_transition c' d t = Inl ErrStaleDecision" if "st d c' i \<noteq> NodeReady"
  proof -
    have "\<not> hasObligation c' (node_id d i)"
      using InvD(6) [OF inv' i(1)] that by (auto simp: nodeOk_def hasObligation_keys)
    then show ?thesis using kind dec pay ne i(2) by (simp add: apply_transition_def apply_decisionRecorded_def)
  qed
  have att: "attempts c1 = attempts c" by (simp add: c1_def fun_eq_iff)
  consider "advanceStage d i c1 = Inr c'" | "resetPlanApproval d i c1 = Inr c'"
    | "ApprovalAttempt d c (node_id d i) = None" "settleVerdict d i (dec_Verdict dec) c1 = Inr c'" "dec_Attempt dec = attempts c (node_id d i)"
    using s [unfolded ix] unfolding decideNode_def Let_def c1_def i(2) by (auto split: if_splits)
  then show ?thesis
  proof cases
    case 1
    then show ?thesis using ok(2)
      by (intro gone) (auto simp: advanceStage_def Let_def activate_facts split: option.splits if_splits)
  next
    case 2
    then show ?thesis by (intro gone) (auto simp: resetPlanApproval_def Let_def split: option.splits if_splits)
  next
    case 3
    have par: "n_parent (node_at d i) = None"
      using stage_decision [OF wf i(1) ok(1)] 3(1) wf i(1) by (cases "n_parent (node_at d i)") (auto simp: ApprovalAttempt_def)
    from 3(2) obtain r where "routeDecision c1 d (node_at d i) (dec_Verdict dec) = Inr r"
      and r: "(case r of Iterate li \<Rightarrow> iterateLoop d li c1 | Settle oc \<Rightarrow> completeAndSettle d i (arrivesAt oc) c1) = Inr c'"
      by (auto simp: settleVerdict_def Let_def bindR_Inr_iff split: if_splits)
    show ?thesis
    proof (cases r)
      case (Settle oc)
      with r have "completeAndSettle d i (arrivesAt oc) c1 = Inr c'" by simp
      from completeAndSettle_rel [OF settlePre_InvX [OF wf inv1 par] this] ok(2)
      have "st d c' i = NodeDone" by (simp add: settleRel_def)
      then show ?thesis by (intro gone) simp
    next
      case (Iterate li)
      with \<open>routeDecision c1 d (node_at d i) (dec_Verdict dec) = Inr r\<close>
      have lo: "loopOf d (node_at d i) (dec_Verdict dec) = Some li"
        by (auto simp: routeDecision_def Let_def split: option.splits if_splits)
      have "fresh (attempts c1) (set (Commands c)) c1"
        using Inv_fresh [OF inv order_refl] unfolding att by (simp add: fresh_def c1_def)
      from iterateLoop_attempt [OF wf i(1) ok(1) par lo this] r Iterate
      have "attempts c (node_id d i) < attempts c' (node_id d i)" unfolding att by simp
      moreover have "ApprovalAttempt d c' (node_id d i) = None"
        using 3(1) by (auto simp: ApprovalAttempt_def split: option.splits)
      ultimately have "decideNode d i dec c' = Inl ErrStaleDecision" using 3(3) by (simp add: decideNode_def Let_def)
      then show ?thesis using kind dec pay ne i(2) ix by (simp add: apply_transition_def apply_decisionRecorded_def)
    qed
  qed
qed

section \<open>First-arrival joins\<close>

definition joinOk :: "Definition \<Rightarrow> Checkpoint \<Rightarrow> bool" where
  "joinOk d c \<longleftrightarrow>
     (\<forall>i<n_nodes d. n_joinAny (node_at d i) \<longrightarrow>
        (\<forall>e\<in>set (n_incoming (node_at d i)). \<forall>e'\<in>set (n_incoming (node_at d i)).
           edgeState c (edge_at d e) = EdgeArrived \<longrightarrow> edgeState c (edge_at d e') = EdgeArrived \<longrightarrow> e = e'))"

lemma edge_key_inj:
  assumes wf: "wf_definition d" and j: "j < length (d_edges d)" "k < length (d_edges d)"
    and eq: "e_from (edge_at d j) = e_from (edge_at d k)" "e_outcome (edge_at d j) = e_outcome (edge_at d k)"
  shows "j = k"
proof -
  let ?i = "e_fromIndex (edge_at d j)"
  note ej = wf_edgeD [OF wf j(1), unfolded wf_edge_def Let_def] and ek = wf_edgeD [OF wf j(2), unfolded wf_edge_def Let_def]
  have "?i = e_fromIndex (edge_at d k)" using ej ek eq(1) node_id_inj [OF wf] by metis
  with ej ek have "j \<in> set (n_outgoing (node_at d ?i))" "k \<in> set (n_outgoing (node_at d ?i))" by simp_all
  moreover have "distinct (map (\<lambda>j. e_outcome (edge_at d j)) (n_outgoing (node_at d ?i)))"
    using wf_nodeD [OF wf, of ?i] ej by (simp add: wf_node_def Let_def)
  ultimately show ?thesis using eq(2) by (auto simp: distinct_map dest: inj_onD)
qed

lemma edgeState_write:
  assumes "wf_definition d" "j < length (d_edges d)" "k < length (d_edges d)"
  shows "edgeState (setEdge (e_from (edge_at d k)) (e_outcome (edge_at d k)) x c) (edge_at d j) =
    (if j = k then x else edgeState c (edge_at d j))"
  using edge_key_inj [OF assms] by (auto simp: edgeState_setEdge)

lemma incoming_less:
  "wf_definition d \<Longrightarrow> i < n_nodes d \<Longrightarrow> e \<in> set (n_incoming (node_at d i)) \<Longrightarrow> e < length (d_edges d) \<and> e_toIndex (edge_at d e) = i"
  using wf_nodeD [of d i] by (auto simp: wf_node_def Let_def list_all_iff)

lemma joinOk_settled:
  assumes wf: "wf_definition d" and ok: "joinOk d c" and k: "k < length (d_edges d)"
  shows "joinOk d (setEdge (e_from (edge_at d k)) (e_outcome (edge_at d k)) (effectiveDisposition c d (edge_at d k) disp) c)"
    (is "joinOk d ?c'")
  unfolding joinOk_def
proof (intro allI impI ballI)
  fix i e e'
  assume i: "i < n_nodes d" "n_joinAny (node_at d i)" and e: "e \<in> set (n_incoming (node_at d i))"
    and e': "e' \<in> set (n_incoming (node_at d i))"
    and arr: "edgeState ?c' (edge_at d e) = EdgeArrived" "edgeState ?c' (edge_at d e') = EdgeArrived"
  note in_e = incoming_less [OF wf i(1) e] and in_e' = incoming_less [OF wf i(1) e']
  have new: "False" if x: "x \<in> set (n_incoming (node_at d i))" "edgeState c (edge_at d x) = EdgeArrived"
      "effectiveDisposition c d (edge_at d k) disp = EdgeArrived" "k \<in> set (n_incoming (node_at d i))" for x
    using x i incoming_less [OF wf i(1) x(4)]
    by (auto simp: effectiveDisposition_def joinAlreadyWon_def list_ex_iff split: if_splits)
  show "e = e'"
  proof (cases "e = k"; cases "e' = k")
    assume "e \<noteq> k" "e' \<noteq> k"
    with arr in_e in_e' have "edgeState c (edge_at d e) = EdgeArrived" "edgeState c (edge_at d e') = EdgeArrived"
      by (simp_all add: edgeState_write [OF wf _ k])
    with ok i e e' show ?thesis unfolding joinOk_def by blast
  qed (use arr in_e in_e' e e' new in \<open>auto simp: edgeState_write [OF wf _ k]\<close>)
qed

lemma joinOk_cong: "edgeDisp c' = edgeDisp c \<Longrightarrow> joinOk d c' = joinOk d c"
  by (simp add: joinOk_def edgeState_def)

lemma joinOk_frame [simp]:
  "joinOk d (setNode k s c) = joinOk d c" "joinOk d (addObligation k c) = joinOk d c"
  "joinOk d (recordAttempt k n c) = joinOk d c" "joinOk d (putCommand x c) = joinOk d c"
  "joinOk d (removeCommand k c) = joinOk d c" "joinOk d (c\<lparr>AttemptCeilings := m\<rparr>) = joinOk d c"
  "joinOk d (c\<lparr>Iterations := its\<rparr>) = joinOk d c" "joinOk d (c\<lparr>AwaitingDecisions := os\<rparr>) = joinOk d c"
  "joinOk d (c\<lparr>Blocked := bs\<rparr>) = joinOk d c" "joinOk d (c\<lparr>Status := rs\<rparr>) = joinOk d c"
  by (intro joinOk_cong ext; simp add: edgeDisp_def removeCommand_def)+

lemma joinOk_write: "joinOk d c \<Longrightarrow> x \<noteq> EdgeArrived \<Longrightarrow> joinOk d (setEdge f oc x c)"
  unfolding joinOk_def edgeState_setEdge by (simp split: if_splits)

interpretation joins: reducer_writes d "\<lambda>c. wf_definition d \<longrightarrow> joinOk d c" for d
  by unfold_locales (simp_all add: joinOk_settled joinOk_write)

lemma joinOk_initial:
  assumes "wf_definition d"
  shows "joinOk d (initialCheckpoint r d)"
proof -
  have "edgeState (initialCheckpoint r d) (edge_at d e) \<noteq> EdgeArrived" for e
    by (simp add: edgeState_def edgeDisp_def mget2_def mget_def [of "EdgeOther []"] initial_fields initialEdges_inner)
  then show ?thesis by (simp add: joinOk_def)
qed

text \<open>A reachable checkpoint is the end of a history of the initial one.\<close>

lemma reachable_history:
  "reachable r d c \<Longrightarrow> validRunID r \<and> (run_step d)\<^sup>*\<^sup>* (initialCheckpoint r d) c"
proof (induction rule: reachable.induct)
  case (created c)
  then show ?case using Initialize_initial [OF created] by simp
qed (auto intro: rtranclp.rtrancl_into_rtrancl run_step.intros)

lemma joinOk_reachable:
  assumes wf: "wf_definition d" and c: "reachable r d c"
  shows "joinOk d c"
  using joins.history_keeps reachable_history [OF c] joinOk_initial [OF wf] wf by blast

end
