(* ===== verification/Driving.thy ===== *)
theory Driving
  imports Histories
begin

text \<open>
  The driver loop (\<open>engine/engine.go\<close>, \<open>AdvanceUntilQuiescent\<close> and \<open>AdvanceAndPlan\<close>).  Every
  engine transition takes one node out of the pending and ready nodes and puts none back, so the
  loop's budget of one transition per node is never exhausted on a checkpoint of a run; a pass
  that plans nothing leaves nothing runnable, and one that plans leaves the planned command in
  the outbox.
\<close>

section \<open>The open nodes\<close>

definition opened :: "NodeStatus \<Rightarrow> bool" where
  "opened s \<longleftrightarrow> s = NodePending \<or> s = NodeReady"

definition openNodes :: "Definition \<Rightarrow> Checkpoint \<Rightarrow> nat set" where
  "openNodes d c = {i. i < n_nodes d \<and> opened (st d c i)}"

lemma finite_openNodes [simp]: "finite (openNodes d c)"
  by (simp add: openNodes_def)

lemma openNodes_bound: "card (openNodes d c) \<le> n_nodes d"
  using card_mono [of "{..<n_nodes d}" "openNodes d c"] by (auto simp: openNodes_def)

lemma openNodes_write:
  assumes "wf_definition d" "i < n_nodes d" "\<not> opened s"
  shows "openNodes d (setNode (node_id d i) s c) = openNodes d c - {i}"
  using assms by (auto simp: openNodes_def node_id_inj)

lemma openNodes_ready:
  assumes "wf_definition d" "i < n_nodes d" "opened (st d c i)"
  shows "openNodes d (setNode (node_id d i) NodeReady c) = openNodes d c"
  using assms by (auto simp: openNodes_def node_id_inj opened_def)

lemma openNodes_cong: "Nodes c' = Nodes c \<Longrightarrow> openNodes d c' = openNodes d c"
  by (simp add: openNodes_def nodeStatus_def)

lemma openNodes_settle:
  assumes pre: "settlePre d a c" and step: "completeAndSettle d a arr c = Inr c'"
  shows "openNodes d c' \<subseteq> openNodes d c - {a}"
proof -
  have rel: "settleRel d a (setNode (node_id d a) NodeDone c) c'" by (rule completeAndSettle_rel [OF pre step])
  have wf: "wf_definition d" and a: "a < n_nodes d" using pre by (simp_all add: settlePre_def)
  have "opened (st d c i) \<and> i \<noteq> a" if i: "i < n_nodes d" "opened (st d c' i)" for i
  proof (cases "i = a")
    case True
    with rel i(2) show ?thesis by (simp add: settleRel_def opened_def)
  next
    case False
    then have "node_id d i \<noteq> node_id d a" using i(1) a wf by (simp add: node_id_inj)
    moreover have "st d c' i = st d (setNode (node_id d a) NodeDone c) i \<or> st d (setNode (node_id d a) NodeDone c) i = NodePending"
      using rel i(1) False unfolding settleRel_def by blast
    ultimately show ?thesis using i(2) False by (auto simp: opened_def)
  qed
  then show ?thesis by (auto simp: openNodes_def)
qed

section \<open>One engine transition\<close>

lemma inner_settle:
  assumes wf: "wf_definition d" and inv: "Inv d c" and run: "Status c = RunRunning" and i: "i < n_nodes d" "st d c i = NodeReady"
    and kind: "n_kind (node_at d i) = definitionStageDone \<or> n_kind (node_at d i) = definitionSubprocessExit"
    and par: "n_parent (node_at d i) = None \<or> n_parent (node_at d i) = Some ow"
    and ow: "ow < n_nodes d" "st d c ow = NodeRunning" "n_parent (node_at d ow) = None"
      "n_kind (node_at d ow) = definitionCompound \<or> n_kind (node_at d ow) = definitionSubprocess"
    and step: "completeAndSettle d ow arr (setNode (node_id d i) NodeDone c) = Inr c'"
  shows "openNodes d c' \<subseteq> openNodes d c - {i}"
proof -
  have ne: "i \<noteq> ow" using kind ow(4) by auto
  have x: "InvX d ow (setNode (node_id d i) NodeDone c)" by (rule InvX_inner [OF wf inv run i ne kind par ow(1,2,4)])
  have "st d (setNode (node_id d i) NodeDone c) ow \<noteq> NodePending" using ow(2) ne i(1) ow(1) wf by (simp add: node_id_inj)
  from openNodes_settle [OF settlePre_InvX [OF wf x ow(3) this] step] show ?thesis
    by (auto simp: openNodes_write [OF wf i(1)] opened_def)
qed

lemma openNodes_advance:
  assumes wf: "wf_definition d" and inv: "Inv d c" and run: "Status c = RunRunning" and i: "i < n_nodes d" "st d c i = NodeReady"
    and step: "advanceNode d i c = Inr c'"
  shows "openNodes d c' \<subseteq> openNodes d c - {i}"
proof -
  have settle: "openNodes d c' \<subseteq> openNodes d c - {i}"
    if k: "n_kind (node_at d i) = definitionStart \<or> n_kind (node_at d i) = definitionParallel"
      and s: "completeAndSettle d i arr c = Inr c'" for arr
  proof (rule openNodes_settle [OF settlePre_InvX [OF wf] s])
    show "InvX d i c" by (rule engine_takeOut [OF wf inv run i(1)]) (use i(2) k in auto)
    show "n_parent (node_at d i) = None" by (rule parentless [OF wf i(1)]) (use k in auto)
  qed (simp add: i(2))
  show ?thesis
  proof (cases "n_kind (node_at d i)")
    case definitionStart
    then show ?thesis using step settle by (simp add: advanceNode_def)
  next
    case definitionParallel
    then show ?thesis using step settle by (simp add: advanceNode_def)
  next
    case definitionCompound
    with step obtain j rest where j: "n_children (node_at d i) = j # rest" "st d c j = NodePending"
      and c': "c' = setNode (node_id d j) NodeReady (setNode (node_id d i) NodeRunning c)"
      by (auto simp: advanceNode_def advanceCompound_def Let_def split: list.splits if_splits)
    have "j < n_nodes d" by (rule child_facts(1) [OF wf i(1), of j]) (simp add: j(1))
    moreover have "node_id d j \<noteq> node_id d i" using j(2) i(2) by auto
    ultimately show ?thesis unfolding c' using j(2)
      by (subst openNodes_ready [OF wf]) (auto simp: openNodes_write [OF wf i(1)] opened_def)
  next
    case definitionStageDone
    with step obtain p where p: "n_parent (node_at d i) = Some p" "st d c p = NodeRunning"
      and s: "completeAndSettle d p (arrivesAt (soleOutcome d (node_at d p))) (setNode (node_id d i) NodeDone c) = Inr c'"
      by (auto simp: advanceNode_def advanceStageDone_def split: option.splits if_splits)
    note p' = parent_facts [OF wf i(1) p(1)]
    note ch = child_facts [OF wf p']
    show ?thesis by (rule inner_settle [OF wf inv run i _ _ p'(1) p(2) ch(5) _ s]) (use definitionStageDone p ch in auto)
  next
    case definitionSubprocess
    with step obtain en where en: "n_entry (node_at d i) = Some en" "st d c en = NodePending"
      and c': "c' = activate (node_at d en) (setNode (node_id d i) NodeRunning c)"
      by (auto simp: advanceNode_def advanceSubprocess_def Let_def split: option.splits if_splits)
    have "isSub d i" using i(1) definitionSubprocess by (simp add: isSub_def)
    moreover have "inBody d i en"
      using wf_nodeD [OF wf i(1)] definitionSubprocess en(1)
      by (auto simp: wf_node_def wf_subprocess_def Let_def split: option.splits)
    ultimately have enn: "en < n_nodes d" by (rule inBody_less [OF wf])
    have "node_id d en \<noteq> node_id d i" using en(2) i(2) by auto
    moreover have "openNodes d c' = openNodes d (setNode (node_id d en) NodeReady (setNode (node_id d i) NodeRunning c))"
      unfolding c' by (rule openNodes_cong) (simp add: activate_def Let_def addObligation_def)
    ultimately show ?thesis using en(2)
      by (subst (asm) openNodes_ready [OF wf enn]) (auto simp: openNodes_write [OF wf i(1)] opened_def)
  next
    case definitionSubprocessExit
    with step obtain ow where sc: "n_scope (node_at d i) = Some ow" and prun: "st d c ow = NodeRunning"
      and s: "completeAndSettle d ow (arrivesAt (n_exitOutcome (node_at d i))) (setNode (node_id d i) NodeDone c) = Inr c'"
      by (auto simp: advanceNode_def advanceSubprocessExit_def Let_def split: option.splits if_splits)
    have ow: "ow < n_nodes d" "n_kind (node_at d ow) = definitionSubprocess"
      using wf_nodeD [OF wf i(1)] sc definitionSubprocessExit by (auto simp: wf_node_def Let_def)
    show ?thesis
      by (rule inner_settle [OF wf inv run i _ _ ow(1) prun _ _ s])
        (use parentless [OF wf i(1)] parentless [OF wf ow(1)] ow(2) definitionSubprocessExit in auto)
  next
    case definitionEnd
    with step have "c' = (setNode (node_id d i) NodeDone c)\<lparr>Status := n_terminal (node_at d i)\<rparr>"
      by (auto simp: advanceNode_def advanceEnd_def Let_def bindR_Inr_iff)
    then have "openNodes d c' = openNodes d (setNode (node_id d i) NodeDone c)" by (intro openNodes_cong) simp
    then show ?thesis by (simp add: openNodes_write [OF wf i(1)] opened_def)
  qed (use step in \<open>simp_all add: advanceNode_def\<close>)
qed

lemma engine_progress:
  assumes wf: "wf_definition d" and inv: "Inv d c"
    and t: "nextEngineTransition c d = Some t" and step: "apply_transition c d t = Inr c'"
  shows "card (openNodes d c') < card (openNodes d c)"
proof -
  note f = nextEngine_facts [OF t]
  from step f(1) obtain i where ix: "fmlookup (d_index d) (tr_NodeID t) = Some i" and ready: "st d c i = NodeReady"
    and s: "advanceNode d i c = Inr c'"
    by (auto simp: apply_transition_def apply_advance_def split: option.splits if_splits)
  have i: "i < n_nodes d" using ix index_lookup [OF wf] by blast
  have "openNodes d c' \<subseteq> openNodes d c - {i}" by (rule openNodes_advance [OF wf inv f(2) i ready s])
  moreover have "i \<in> openNodes d c" using i ready by (simp add: openNodes_def opened_def)
  ultimately show ?thesis by (intro psubset_card_mono) auto
qed

section \<open>Errors of an engine transition\<close>

definition refusal :: "error \<Rightarrow> bool" where
  "refusal e \<longleftrightarrow> e = ErrInvalidTransition \<or> e = GoPanic"

lemma foldR_error: "foldR f xs s = Inl e \<Longrightarrow> \<exists>x s. f x s = Inl e"
  by (induction xs arbitrary: s) (auto simp: bindR_Inl_iff)

lemma settleEdge_error: "settleEdge d ei disp s = Inl e \<Longrightarrow> refusal e"
  by (auto simp: settleEdge_def Let_def refusal_def split: if_splits)

lemma closeLoopExits_error: "closeLoopExits d i s = Inl e \<Longrightarrow> refusal e"
  by (auto simp: closeLoopExits_def closeExit_def refusal_def split: if_splits
      dest!: foldR_error settleEdge_error)

lemma skipBodyNode_error: "skipBodyNode d i c = Inl e \<Longrightarrow> refusal e"
  by (auto simp: skipBodyNode_def closeBodyEdge_def Let_def refusal_def dest!: foldR_error split: if_splits)

lemma skipTarget_error: "skipTarget d t s = Inl e \<Longrightarrow> refusal e"
  by (auto simp: skipTarget_def Let_def bindR_Inl_iff skipSubprocessBody_def closeOutgoing_def
      dest!: foldR_error skipBodyNode_error settleEdge_error closeLoopExits_error split: if_splits)

lemma settleTarget_error: "settleTarget d t s = Inl e \<Longrightarrow> refusal e"
  by (auto simp: settleTarget_def Let_def refusal_def [of ErrInvalidTransition] dest!: skipTarget_error split: if_splits)

lemma settleLoop_error: "settleLoop d s = Inl e \<Longrightarrow> refusal e"
proof (induction "settleMeasure d s" arbitrary: s rule: less_induct)
  case (less s)
  then obtain t q where q: "s_queue s = t # q" by (subst (asm) settleLoop.simps) (auto split: list.splits)
  show ?case
  proof (cases "settleStep d s")
    case (Inl e')
    with less.prems q have "settleTarget d t (s\<lparr>s_queue := q\<rparr>) = Inl e"
      by (subst (asm) settleLoop.simps) (simp add: settleStep_def)
    then show ?thesis by (rule settleTarget_error)
  next
    case (Inr s')
    with less.prems q have "settleLoop d s' = Inl e" by (subst (asm) settleLoop.simps) simp
    then show ?thesis by (rule less.hyps [OF settleStep_measure [OF q Inr]])
  qed
qed

lemma completeAndSettle_error: "completeAndSettle d i arr c = Inl e \<Longrightarrow> refusal e"
  by (auto simp: completeAndSettle_def Let_def bindR_Inl_iff settleOutgoing_def refusal_def [of ErrInvalidTransition]
      dest!: foldR_error settleEdge_error closeLoopExits_error settleLoop_error split: if_splits)

lemma engine_error:
  assumes "nextEngineTransition c d = Some t" "apply_transition c d t = Inl e" "d_nodes d \<noteq> []"
  shows "refusal e"
  using assms nextEngine_facts(1) [OF assms(1)]
  by (auto simp: apply_transition_def apply_advance_def advanceNode_def advanceCompound_def advanceStageDone_def
      advanceSubprocess_def advanceSubprocessExit_def advanceEnd_def requireNoWorkRemains_def Let_def bindR_Inl_iff
      refusal_def [of ErrInvalidTransition] refusal_def [of GoPanic]
      split: if_splits option.splits definitionNodeKind.splits list.splits dest: completeAndSettle_error)

section \<open>The budget\<close>

lemma advanceLoop_error:
  assumes wf: "wf_definition d"
  shows "Inv d c \<Longrightarrow> card (openNodes d c) \<le> budget \<Longrightarrow> advanceLoop d budget n c = Inl e \<Longrightarrow> refusal e"
proof (induction budget arbitrary: n c)
  case 0
  have "nextEngineTransition c d = None"
  proof (rule ccontr)
    assume "nextEngineTransition c d \<noteq> None"
    then obtain node where "find (engineOwned c d) (d_nodes d) = Some node"
      by (auto simp: nextEngineTransition_def split: if_splits)
    then obtain i where "i < n_nodes d" "st d c i = NodeReady" by (auto simp: find_Some_iff engineOwned_def)
    then have "i \<in> openNodes d c" by (simp add: openNodes_def opened_def)
    with 0(2) show False by simp
  qed
  with 0(3) show ?case by simp
next
  case (Suc b)
  from Suc.prems(3) obtain t where t: "nextEngineTransition c d = Some t" by (auto split: option.splits)
  show ?case
  proof (cases "apply_transition c d t")
    case (Inl e')
    with Suc.prems(3) t engine_error [OF t Inl wf_nonempty [OF wf]] show ?thesis by simp
  next
    case (Inr c1)
    have "admissible c t" using nextEngine_facts [OF t] by (simp add: admissible_def)
    then have "Inv d c1" using Inv_apply [OF wf Suc.prems(1) _ Inr] by blast
    moreover have "card (openNodes d c1) \<le> b" using engine_progress [OF wf Suc.prems(1) t Inr] Suc.prems(2) by simp
    ultimately show ?thesis using Suc.IH Suc.prems(3) t Inr by simp
  qed
qed

lemma advance_error:
  assumes wf: "wf_definition d" and inv: "Inv d c" and e: "advanceUntilQuiescent c d (transitionBudget d) = Inl e"
  shows "refusal e"
proof -
  have "card (openNodes d c) \<le> transitionBudget d" unfolding transitionBudget_def by (rule openNodes_bound)
  then show ?thesis using advanceLoop_error [OF wf inv] e wf_nonempty [OF wf] by (auto simp: advanceUntilQuiescent_def)
qed

section \<open>Quiescence and planning\<close>

lemma quiet_not_runnable:
  assumes "AdvanceAndPlan c d = Inr (c', None, changed)"
  shows "\<not> Runnable c' d"
  using assms by (cases rule: AdvanceAndPlan_cases) (auto simp: Runnable_def dest: advanceLoop_quiet)

lemma putCommand_mem: "x \<in> set (Commands (putCommand x c))"
proof -
  have "x \<in> set (replaceCommand x xs)" if "list_ex (\<lambda>y. cmd_NodeID y = cmd_NodeID x) xs" for xs
    using that by (induction xs) auto
  then show ?thesis by (auto simp: putCommand_def)
qed

text \<open>What a planning pass leaves behind, for the node it planned.\<close>

lemma planned_result:
  assumes wf: "wf_definition d" and inv: "Inv d c" and run: "AdvanceAndPlan c d = Inr (c', Some x, changed)"
  obtains c1 i where "Inv d c1" "i < n_nodes d" "runsCommand (node_at d i)" "\<not> doomed c1" "Status c1 = RunRunning"
    "x = taskCommand c1 d (node_at d i) (attempts c1 (node_id d i) + 1)"
    "c' = putCommand x (recordAttempt (node_id d i) (attempts c1 (node_id d i) + 1) (setNode (node_id d i) NodeRunning c1))"
    "attempts c1 (node_id d i) + 1 \<le> executableAttemptCeiling c1 d (node_at d i)"
    "attempts c (node_id d i) \<le> attempts c1 (node_id d i)"
  using run
proof (cases rule: AdvanceAndPlan_cases)
  case (planned c1 n node)
  note f = nextPlannable_facts [OF planned(2)]
  have inv1: "Inv d c1" by (rule Inv_advanceLoop [OF wf inv planned(1)])
  from f(5) obtain i where i: "i < n_nodes d" "node = node_at d i" by (auto simp: in_set_conv_nth)
  from planned(3,5) have s: "planNode d i x c1 = Inr c'" and x: "x = taskCommand c1 d (node_at d i) (nextAttempt c1 (node_id d i))"
    using i wf f(3) by (auto simp: apply_transition_def planTransition_def apply_commandPlanned_def split: if_splits)
  then have a: "1 \<le> nextAttempt c1 (node_id d i)" "nextAttempt c1 (node_id d i) \<le> executableAttemptCeiling c1 d (node_at d i)"
    and c': "c' = putCommand x (recordAttempt (node_id d i) (nextAttempt c1 (node_id d i)) (setNode (node_id d i) NodeRunning c1))"
    by (auto simp: planNode_def Let_def split: if_splits)
  note n = nextAttempt_pos [OF attempts_bounds [OF InvD(2) [OF inv1]] a(1)]
  have "fresh (attempts c) (set (Commands c)) c1"
    by (rule history.advanceLoop_keeps [OF planned(1) Inv_fresh [OF inv order_refl]])
  then have "attempts c (node_id d i) \<le> attempts c1 (node_id d i)" unfolding fresh_def by blast
  then show thesis using that [OF inv1 i(1) _ f(2,1)] f(3) i(2) x c' a(2) unfolding n(1) by blast
qed simp_all

lemma planned_command:
  assumes wf: "wf_definition d" and inv: "Inv d c" and run: "AdvanceAndPlan c d = Inr (c', Some x, changed)"
  shows "x \<in> set (Commands c')" "nodeStatus c' (cmd_NodeID x) = NodeRunning" "cmd_Attempt x = attempts c' (cmd_NodeID x)"
    "attempts c (cmd_NodeID x) < cmd_Attempt x" "Status c' = RunRunning"
proof -
  from planned_result [OF assms] obtain c1 i where
    x: "x = taskCommand c1 d (node_at d i) (attempts c1 (node_id d i) + 1)"
    and c': "c' = putCommand x (recordAttempt (node_id d i) (attempts c1 (node_id d i) + 1) (setNode (node_id d i) NodeRunning c1))"
    and s: "Status c1 = RunRunning" and a: "attempts c (node_id d i) \<le> attempts c1 (node_id d i)" by blast
  show "x \<in> set (Commands c')" unfolding c' by (rule putCommand_mem)
  show "nodeStatus c' (cmd_NodeID x) = NodeRunning" "Status c' = RunRunning"
    by (simp_all add: c' x s putCommand_def nodeStatus_def setNode_def recordAttempt_def mget_def)
  show "cmd_Attempt x = attempts c' (cmd_NodeID x)" "attempts c (cmd_NodeID x) < cmd_Attempt x"
    using a by (simp_all add: c' x)
qed

end
