(* ===== verification/Outcomes.thy ===== *)
theory Outcomes
  imports Driving
begin

text \<open>
  How a run ends: a run that is over stays as it is, a doomed run drains its outstanding commands
  and then is over, and the accepted observations and resolutions of one task, branch by branch.
\<close>

section \<open>A finished run\<close>

lemma advanceLoop_none: "nextEngineTransition c d = None \<Longrightarrow> advanceLoop d b n c = Inr (c, n)"
  by (cases b) simp_all

text \<open>Every external transition of a run that is over is refused.\<close>

lemma finished_refuses:
  assumes "quietOk c" "Status c \<noteq> RunRunning" "external t"
  shows "\<exists>e. apply_transition c d t = Inl e"
proof -
  have "Commands c = []" "AwaitingDecisions c = []" using assms(1,2) by (simp_all add: quietOk_def)
  with assms(2,3) show ?thesis
    by (cases "tr_Kind t") (auto simp: external_def apply_transition_def apply_programObserved_def
        apply_decisionRecorded_def apply_blockedResolved_def findCommand_def hasObligation_def split: option.splits)
qed

lemma finished_step:
  assumes "Inv d c" "Status c \<noteq> RunRunning" "run_step d c c'"
  shows "c' = c"
proof -
  have n: "nextEngineTransition c d = None" "nextPlannableTask c d = None"
    using assms(2) by (simp_all add: nextEngineTransition_def nextPlannableTask_def)
  show ?thesis using assms(3)
  proof (cases rule: run_step.cases)
    case advance
    then show ?thesis
      by (auto simp: AdvanceUntilQuiescent_def advanceUntilQuiescent_def bindR_Inr_iff advanceLoop_none [OF n(1)] split: if_splits)
  next
    case (drive command changed)
    then show ?thesis by (cases rule: AdvanceAndPlan_cases) (use n(2) in \<open>auto simp: advanceLoop_none [OF n(1)]\<close>)
  next
    case (receive t)
    then show ?thesis using finished_refuses [OF InvD(9) [OF assms(1)] assms(2) receive(1), of d] by auto
  qed
qed

lemma finished_history:
  assumes "(run_step d)\<^sup>*\<^sup>* c c'" "Inv d c" "Status c \<noteq> RunRunning"
  shows "c' = c"
  using assms by (induction rule: rtranclp_induct) (auto dest: finished_step)

section \<open>A doomed run\<close>

lemma doomed_setNode: "\<not> doomed c \<Longrightarrow> s \<noteq> NodeFailed \<Longrightarrow> s \<noteq> NodeCanceled \<Longrightarrow> \<not> doomed (setNode k s c)"
  unfolding doomed_def mexists_iff setNode_def by (auto split: if_splits)

lemma doomed_cong: "Nodes c' = Nodes c \<Longrightarrow> doomed c' = doomed c"
  by (simp add: doomed_def)

lemma doomed_frame [simp]:
  "doomed (addObligation k c) = doomed c" "doomed (setEdge f oc x c) = doomed c" "doomed (recordAttempt k n c) = doomed c"
  "doomed (putCommand x' c) = doomed c" "doomed (removeCommand k c) = doomed c"
  "doomed (c\<lparr>AttemptCeilings := m\<rparr>) = doomed c"
  "doomed (c\<lparr>Iterations := its\<rparr>) = doomed c" "doomed (c\<lparr>AwaitingDecisions := os\<rparr>) = doomed c"
  "doomed (c\<lparr>Blocked := bs\<rparr>) = doomed c" "doomed (c\<lparr>Status := rs\<rparr>) = doomed c" "doomed (c\<lparr>Commands := cs\<rparr>) = doomed c"
  by (intro doomed_cong; simp add: addObligation_def setEdge_def putCommand_def)+

interpretation undoomed: live_writes d "\<lambda>c. \<not> doomed c" for d
  by unfold_locales (auto simp: doomed_setNode)

text \<open>While a doomed run is not over it waits for outstanding commands and for nothing else.\<close>

definition drainOk :: "Checkpoint \<Rightarrow> bool" where
  "drainOk c \<longleftrightarrow>
     (Status c = RunRunning \<longrightarrow> doomed c \<longrightarrow> Commands c \<noteq> [] \<and> AwaitingDecisions c = [] \<and> Blocked c = [])"

lemma failParked_outboxes [simp]:
  "Commands (fold failParked bs c) = Commands c" "AwaitingDecisions (fold failParked bs c) = AwaitingDecisions c"
  by (induction bs arbitrary: c) (simp_all add: failParked_def)

lemma doomStatus_over: "doomStatus c \<noteq> RunRunning"
  by (simp add: doomStatus_def)

lemma undoomed_drain: "\<not> doomed c \<Longrightarrow> drainOk c"
  by (simp add: drainOk_def)

lemma drainOk_abandon: "drainOk (abandonAfterDoom c)"
  using doomStatus_over by (simp add: drainOk_def abandonAfterDoom_def Let_def)

lemma failure_branches:
  "(if a \<and> b then (if q then f else Inr x) else if a \<and> r then Inr y else Inr z) = Inr s \<Longrightarrow>
   (a \<and> b \<and> q \<and> f = Inr s) \<or> (a \<and> b \<and> \<not> q \<and> s = x) \<or> (a \<and> \<not> b \<and> r \<and> s = y) \<or> ((a \<longrightarrow> \<not> b \<and> \<not> r) \<and> s = z)"
  by (auto split: if_splits)

lemma attemptCeiling_removeCommand: "attemptCeiling (removeCommand k c) = attemptCeiling c"
  by (rule attemptCeiling_cong) (simp add: removeCommand_def)

text \<open>The four ways a failed attempt ends, for the node that spends the attempt.\<close>

lemma observeFailure_cases:
  assumes "observeFailure d i ob c = Inr c'"
  obtains (gate) "\<not> doomed c" "gateAnchor d (node_at d i) \<noteq> None" "resetCompoundStages d i (removeCommand (obs_NodeID ob) c) = Inr c'"
      "attempts c (n_id (budgetNode d (node_at d i))) < attemptCeiling c (budgetNode d (node_at d i))"
  | (again) "\<not> doomed c" "gateAnchor d (node_at d i) = None" "c' = setNode (node_id d i) NodeReady (removeCommand (obs_NodeID ob) c)"
      "attempts c (n_id (budgetNode d (node_at d i))) < attemptCeiling c (budgetNode d (node_at d i))"
  | (parked) "\<not> doomed c" "n_retryAuthored (budgetNode d (node_at d i))"
      "\<not> attempts c (n_id (budgetNode d (node_at d i))) < attemptCeiling c (budgetNode d (node_at d i))"
      "c' = addBlocked (node_id d i) (obs_Error ob) (setNode (node_id d i) NodeBlocked (removeCommand (obs_NodeID ob) c))"
  | (failed) "doomed c \<or> \<not> attempts c (n_id (budgetNode d (node_at d i))) < attemptCeiling c (budgetNode d (node_at d i)) \<and>
        \<not> n_retryAuthored (budgetNode d (node_at d i))"
      "c' = abandonAfterDoom (setNode (node_id d i) NodeFailed (removeCommand (obs_NodeID ob) c))"
proof -
  have "attempts (removeCommand (obs_NodeID ob) c) k = attempts c k" "doomed (removeCommand (obs_NodeID ob) c) = doomed c" for k
    by simp_all
  note e = this attemptCeiling_removeCommand
  from failure_branches [OF assms [unfolded observeFailure_def Let_def e]] that show thesis by blast
qed

lemma drainOk_observed:
  assumes "apply_programObserved d t c = Inr c'"
  shows "drainOk c'"
proof -
  from assms obtain ob i where s: "observeNode d i ob c = Inr c'"
    by (auto simp: apply_programObserved_def split: option.splits if_splits)
  show ?thesis
  proof (cases "obs_Outcome ob")
    case ProgramSucceeded
    with s show ?thesis
      by (auto simp: observeNode_def observeSuccess_def Let_def bindR_Inr_iff drainOk_abandon split: if_splits)
  next
    case ProgramFailed
    with s have f: "observeFailure d i ob c = Inr c'" by (simp add: observeNode_def split: if_splits)
    let ?c1 = "removeCommand (obs_NodeID ob) c"
    from f show ?thesis
    proof (cases rule: observeFailure_cases)
      case gate
      then have "\<not> doomed c'" using undoomed.resetCompoundStages_keeps [OF gate(3)] by simp
      then show ?thesis by (rule undoomed_drain)
    next
      case again
      then show ?thesis by (intro undoomed_drain) (simp add: doomed_setNode)
    next
      case parked
      then show ?thesis by (intro undoomed_drain) (simp add: addBlocked_def doomed_setNode)
    qed (simp add: drainOk_abandon)
  next
    case (OutcomeOther s)
    with \<open>observeNode d i ob c = Inr c'\<close> show ?thesis by (simp add: observeNode_def split: if_splits)
  qed
qed

lemma drain_undoomed: "quietOk c \<Longrightarrow> drainOk c \<Longrightarrow> AwaitingDecisions c \<noteq> [] \<or> Blocked c \<noteq> [] \<Longrightarrow> \<not> doomed c"
  by (auto simp: quietOk_def drainOk_def)

lemma drainOk_external:
  assumes q: "quietOk c" "drainOk c" and t: "external t" and step: "apply_transition c d t = Inr c'"
  shows "drainOk c'"
proof (cases "tr_Kind t")
  case TransitionProgramObserved
  with step show ?thesis by (simp add: apply_transition_def drainOk_observed split: if_splits)
next
  case TransitionDecisionRecorded
  with step have s: "apply_decisionRecorded d t c = Inr c'" by (simp add: apply_transition_def split: if_splits)
  then have "AwaitingDecisions c \<noteq> []"
    by (auto simp: apply_decisionRecorded_def hasObligation_def split: option.splits if_splits)
  with drain_undoomed [OF q] undoomed.apply_decided_keeps [OF s] show ?thesis by (simp add: drainOk_def)
next
  case TransitionBlockedResolved
  with step have s: "apply_blockedResolved d t c = Inr c'" by (simp add: apply_transition_def split: if_splits)
  then have "Blocked c \<noteq> []"
    by (auto simp: apply_blockedResolved_def hasBlocked_def split: option.splits if_splits)
  then have nd: "\<not> doomed c" using drain_undoomed [OF q] by blast
  from s obtain i where "resolveRetry d i c = Inr c' \<or> resolveSkip d i c = Inr c' \<or> resolveCancel d i c = Inr c'"
    by (auto simp: apply_blockedResolved_def split: option.splits if_splits ResolutionAction.splits)
  then show ?thesis
    using undoomed.resume_keeps [OF nd] undoomed_drain drainOk_abandon unfolding resolveCancel_def by blast
qed (use t step in \<open>auto simp: external_def apply_transition_def split: if_splits\<close>)

lemma drainOk_advanceLoop:
  assumes "drainOk c" "advanceLoop d b n c = Inr (c', n')"
  shows "drainOk c'"
proof (rule advanceLoop_invariant [of drainOk, OF _ assms])
  fix c t c' assume t: "nextEngineTransition c d = Some t" and "apply_transition c d t = Inr c'"
  with nextEngine_facts [OF t] have "\<not> doomed c'"
    using undoomed.advance_keeps by (auto simp: apply_transition_def split: if_splits)
  then show "drainOk c'" by (simp add: drainOk_def)
qed

lemma drainOk_step:
  assumes inv: "Inv d c" and ok: "drainOk c" and step: "run_step d c c'"
  shows "drainOk c'"
  using step
proof (cases rule: run_step.cases)
  case advance
  then show ?thesis using drainOk_advanceLoop [OF ok]
    by (auto simp: AdvanceUntilQuiescent_def advanceUntilQuiescent_def bindR_Inr_iff split: if_splits)
next
  case (drive command changed)
  then show ?thesis
  proof (cases rule: AdvanceAndPlan_cases)
    case (quiet n)
    with drainOk_advanceLoop [OF ok] show ?thesis by blast
  next
    case (planned c1 n node)
    from planned(5) have "\<not> doomed c'" using nextPlannable_facts(2) [OF planned(2)]
      by (auto simp: apply_transition_def planTransition_def apply_commandPlanned_def planNode_def Let_def doomed_setNode
          split: if_splits option.splits)
    then show ?thesis by (simp add: drainOk_def)
  qed
next
  case (receive t)
  then show ?thesis using drainOk_external [OF InvD(9) [OF inv] ok] by blast
qed

lemma drainOk_reachable:
  assumes wf: "wf_definition d"
  shows "reachable r d c \<Longrightarrow> drainOk c"
proof (induction rule: reachable.induct)
  case (created c)
  have "\<not> doomed (initialCheckpoint r d)"
    unfolding doomed_def mexists_iff by (auto simp: initial_fields initialNodes_lookup split: if_splits)
  then show ?case using Initialize_initial [OF created] by (simp add: drainOk_def)
qed (use drainOk_step [OF Inv_reachable [OF wf]] in \<open>blast intro: run_step.intros\<close>)+

section \<open>A failed attempt\<close>

lemma failParked_other: "nodeStatus c k \<noteq> NodeBlocked \<Longrightarrow> nodeStatus (fold failParked bs c) k = nodeStatus c k"
  by (induction bs arbitrary: c) (auto simp: failParked_def)

lemma abandon_other: "nodeStatus c k \<noteq> NodeBlocked \<Longrightarrow> nodeStatus (abandonAfterDoom c) k = nodeStatus c k"
  using failParked_other [of "c\<lparr>AwaitingDecisions := []\<rparr>" k "Blocked c"]
  by (simp add: abandonAfterDoom_def Let_def nodeStatus_def)

lemma doomed_failed: "nodeStatus c k = NodeFailed \<Longrightarrow> doomed c"
  unfolding doomed_def mexists_iff by (auto simp: nodeStatus_def mget_def split: option.splits)

lemma failed_attempt:
  assumes step: "observeFailure d i ob c = Inr c'" and plain: "gateAnchor d (node_at d i) = None"
  shows "st d c' i =
    (if doomed c then NodeFailed
     else if attempts c (node_id d i) < attemptCeiling c (node_at d i) then NodeReady
     else if n_retryAuthored (node_at d i) then NodeBlocked else NodeFailed)"
  using step
proof (cases rule: observeFailure_cases)
  case failed
  have "st d c' i = NodeFailed" unfolding failed(2) by (subst abandon_other) simp_all
  with failed(1) plain show ?thesis by (auto simp: budgetNode_def)
qed (use plain in \<open>auto simp: budgetNode_def addBlocked_def nodeStatus_def setNode_def mget_def\<close>)

section \<open>Retries\<close>

text \<open>An operator's retry of a plain task opens a window of the authored size above the attempts used.\<close>

lemma retry_window:
  assumes wf: "wf_definition d" and inv: "Inv d c" and i: "i < n_nodes d" "st d c i = NodeBlocked"
    and plain: "gateAnchor d (node_at d i) = None" and step: "resolveRetry d i c = Inr c'"
  shows "st d c' i = NodeReady" "attemptCeiling c' (node_at d i) = attempts c (node_id d i) + n_maxAttempts (node_at d i)"
    "attempts c' = attempts c" "node_id d i \<notin> parked.keys c'"
proof -
  let ?n = "node_at d i" and ?c1 = "removeBlocked (node_id d i) c"
  from plain step obtain c2 where c2: "raiseAttemptCeiling ?n ?c1 = Inr c2" and c': "c' = setNode (node_id d i) NodeReady c2"
    by (auto simp: resolveRetry_def Let_def bindR_Inr_iff)
  have "n_kind ?n = definitionTask" using InvD(6) [OF inv i(1)] i(2) by (simp add: nodeOk_def)
  then have "runsCommand ?n" by (simp add: runsCommand_def)
  with wf_nodeD [OF wf i(1)] have m: "0 \<le> n_maxAttempts ?n" "n_maxAttempts ?n \<le> MaxInt" by (simp_all add: wf_node_def Let_def)
  have a: "0 \<le> attempts ?c1 (node_id d i)" "attempts ?c1 (node_id d i) \<le> MaxInt"
    using attempts_bounds [OF InvD(2) [OF inv]] by simp_all
  note e = raiseAttemptCeiling_effect [OF c2 a m]
  show "st d c' i = NodeReady" by (simp add: c')
  show "attemptCeiling c' ?n = attempts c (node_id d i) + n_maxAttempts ?n"
    using e(1) attemptCeiling_cong [of c' c2] by (simp add: c')
  show "attempts c' = attempts c" by (rule ext) (simp add: c' e(3) attempts_def removeBlocked_def)
  have "parked.keys c' = parked.keys ?c1" by (simp add: parked.keys_def c' e(3))
  then show "node_id d i \<notin> parked.keys c'" by (simp add: parked.keys_remove)
qed

section \<open>The next round of a loop\<close>

lemma next_round:
  assumes wf: "wf_definition d" and inv: "Inv d c" and i: "i < n_nodes d" and lo: "loopOf d (node_at d i) v = Some li"
    and more: "loopHasRounds c d (loop_at d li)" and step: "iterateLoop d li c = Inr c'"
  shows "\<forall>j\<in>set (l_body (loop_at d li)). st d c' j = (if j = l_to (loop_at d li) then NodeReady else NodePending)"
    "\<forall>j<n_nodes d. j \<notin> set (l_body (loop_at d li)) \<longrightarrow> st d c' j = st d c j"
    "Commands c' = Commands c" "Blocked c' = Blocked c" "Status c' = Status c"
proof -
  define l where "l = loop_at d li"
  from lo have src: "li \<in> set (n_sourceOf (node_at d i))" "l_outcome l = v" by (auto simp: loopOf_def find_Some_iff l_def)
  with wf_nodeD [OF wf i] have li: "li < length (d_loops d)" "l_from l = i"
    by (auto simp: wf_node_def Let_def list_all_iff l_def)
  have lo': "loopOf d (node_at d (l_from l)) (l_outcome l) = Some li" using lo src li by simp
  obtain c3 where c': "c' = activate (node_at d (l_to l)) c3"
    and same: "Status c3 = Status c" "Commands c3 = Commands c" "Blocked c3 = Blocked c"
    and st3: "\<And>k. nodeStatus c3 k = (if k \<in> node_id d ` set (l_body l) then NodePending else nodeStatus c k)"
    by (rule iterateLoop_effect [OF wf InvD(1,2) [OF inv] li(1) l_def lo' more [folded l_def] step]) blast
  have body: "\<And>j. j \<in> set (l_body l) \<Longrightarrow> j < n_nodes d" "l_to l < n_nodes d" "l_to l \<in> set (l_body l)"
    using wf_loopD [OF wf li(1)] by (auto simp: wf_loop_def Let_def l_def)
  have mem: "node_id d j \<in> node_id d ` set (l_body l) \<longleftrightarrow> j \<in> set (l_body l)" if "j < n_nodes d" for j
    using that body(1) node_id_inj [OF wf] by blast
  have st: "st d c' j = (if j = l_to l then NodeReady else if j \<in> set (l_body l) then NodePending else st d c j)"
    if "j < n_nodes d" for j
    using that body(2) wf mem [OF that] by (simp add: c' activate_facts st3 node_id_inj)
  show "\<forall>j\<in>set (l_body (loop_at d li)). st d c' j = (if j = l_to (loop_at d li) then NodeReady else NodePending)"
    "\<forall>j<n_nodes d. j \<notin> set (l_body (loop_at d li)) \<longrightarrow> st d c' j = st d c j"
    using st body unfolding l_def by auto
  show "Commands c' = Commands c" "Blocked c' = Blocked c" "Status c' = Status c"
    using activate_facts(3) [of c3 "node_at d (l_to l)"] same by (simp_all add: sameRest_def c')
qed

section \<open>Outstanding commands as a map\<close>

text \<open>What the command outbox stands for: at most one command for each node.\<close>

definition commandMap :: "Checkpoint \<Rightarrow> string \<rightharpoonup> Command" where
  "commandMap c = map_of (map (\<lambda>x. (cmd_NodeID x, x)) (Commands c))"

lemma keyed_map:
  "distinct (map f xs) \<Longrightarrow> map_of (map (\<lambda>x. (f x, x)) xs) k = Some x \<longleftrightarrow> x \<in> set xs \<and> f x = k"
  by (subst map_of_eq_Some_iff) (auto simp: comp_def image_iff)

lemma option_eqI: "(\<And>y. a = Some y \<longleftrightarrow> b = Some y) \<Longrightarrow> a = b"
  by (cases a; cases b) auto

lemma map_of_replaceCommand:
  "list_ex (\<lambda>y. cmd_NodeID y = cmd_NodeID x) xs \<Longrightarrow>
   map_of (map (\<lambda>x. (cmd_NodeID x, x)) (replaceCommand x xs)) = (map_of (map (\<lambda>x. (cmd_NodeID x, x)) xs))(cmd_NodeID x \<mapsto> x)"
  by (induction xs) (auto simp: fun_eq_iff)

lemma commandMap_put:
  assumes "cmds.canonical c"
  shows "commandMap (putCommand x c) = (commandMap c)(cmd_NodeID x \<mapsto> x)"
proof (cases "list_ex (\<lambda>y. cmd_NodeID y = cmd_NodeID x) (Commands c)")
  case True
  then show ?thesis by (simp add: commandMap_def putCommand_def map_of_replaceCommand)
next
  case False
  have 1: "distinct (map cmd_NodeID (Commands c @ [x]))" using assms False by (auto simp: cmds.canonical_def list_ex_iff)
  then have 2: "distinct (map cmd_NodeID (sort_key cmd_NodeID (Commands c @ [x])))" by (auto simp: distinct_map)
  have c: "distinct (map cmd_NodeID (Commands c))" using 1 by simp
  have "commandMap (putCommand x c) = map_of (map (\<lambda>x. (cmd_NodeID x, x)) (sort_key cmd_NodeID (Commands c @ [x])))"
    using False by (simp add: commandMap_def putCommand_def)
  also have "\<dots> = (commandMap c)(cmd_NodeID x \<mapsto> x)"
  proof (intro ext option_eqI)
    fix k y
    show "map_of (map (\<lambda>x. (cmd_NodeID x, x)) (sort_key cmd_NodeID (Commands c @ [x]))) k = Some y \<longleftrightarrow>
        ((commandMap c)(cmd_NodeID x \<mapsto> x)) k = Some y"
      unfolding keyed_map [OF 2] using keyed_map [OF c, of k y] False
      by (auto simp: commandMap_def list_ex_iff split: if_splits)
  qed
  finally show ?thesis .
qed

lemma commandMap_remove: "commandMap (removeCommand k c) = (commandMap c)(k := None)"
proof -
  have "map_of (map (\<lambda>x. (cmd_NodeID x, x)) (filter (\<lambda>x. cmd_NodeID x \<noteq> k) xs)) =
      (map_of (map (\<lambda>x. (cmd_NodeID x, x)) xs))(k := None)" for xs :: "Command list"
    by (induction xs) (auto simp: fun_eq_iff)
  then show ?thesis by (simp add: commandMap_def removeCommand_def)
qed

lemma findCommand_map:
  assumes "cmds.canonical c"
  shows "findCommand c cid k = (case commandMap c k of Some x \<Rightarrow> if cmd_ID x = cid then Some x else None | None \<Rightarrow> None)"
proof (rule option_eqI)
  fix y
  have dist: "distinct (map cmd_NodeID (Commands c))" using assms by (simp add: cmds.canonical_def)
  have "y = z" if "y \<in> set (Commands c)" "z \<in> set (Commands c)" "cmd_NodeID y = cmd_NodeID z" for y z
    using dist that by (auto simp: distinct_map dest: inj_onD)
  moreover have "findCommand c cid k = None \<longleftrightarrow> (\<forall>x\<in>set (Commands c). \<not> (cmd_ID x = cid \<and> cmd_NodeID x = k))"
    by (auto simp: findCommand_def find_None_iff)
  ultimately have "findCommand c cid k = Some y \<longleftrightarrow> y \<in> set (Commands c) \<and> cmd_NodeID y = k \<and> cmd_ID y = cid"
    by (cases "findCommand c cid k") (auto dest: findCommand_key)
  moreover have "(case commandMap c k of Some x \<Rightarrow> if cmd_ID x = cid then Some x else None | None \<Rightarrow> None) = Some y \<longleftrightarrow>
      commandMap c k = Some y \<and> cmd_ID y = cid" by (auto split: option.splits)
  ultimately show "findCommand c cid k = Some y \<longleftrightarrow>
      (case commandMap c k of Some x \<Rightarrow> if cmd_ID x = cid then Some x else None | None \<Rightarrow> None) = Some y"
    using keyed_map [OF dist, of k y] by (auto simp: commandMap_def)
qed

section \<open>Budgets and rounds\<close>

lemma command_budget:
  assumes wf: "wf_definition d" and inv: "Inv d c" and x: "x \<in> set (Commands c)"
  shows "\<exists>i<n_nodes d. cmd_NodeID x = node_id d i \<and> runsCommand (node_at d i) \<and>
    x = taskCommand c d (node_at d i) (attempts c (cmd_NodeID x)) \<and>
    1 \<le> cmd_Attempt x \<and> cmd_Attempt x \<le> executableAttemptCeiling c d (node_at d i)"
proof -
  from Inv_command [OF inv x] obtain i where i: "i < n_nodes d" "cmd_NodeID x = node_id d i"
    "x = taskCommand c d (node_at d i) (attempts c (cmd_NodeID x))" .
  have "node_id d i \<in> cmds.keys c" using x i(2) by (auto simp: cmds.keys_def intro!: image_eqI [of _ _ x])
  then have rc: "runsCommand (node_at d i)" "1 \<le> attempts c (node_id d i)"
    using InvD(6) [OF inv i(1)] by (auto simp: nodeOk_def)
  have "\<exists>v. fmlookup (Attempts c) (node_id d i) = Some v \<and> v = attempts c (node_id d i)"
    using rc(2) by (cases "fmlookup (Attempts c) (node_id d i)") (auto simp: attempts_def mget_def)
  then have "attemptEntryOk c d (node_id d i) (attempts c (node_id d i))"
    using InvD(2) [OF inv] by (auto simp: countsOk_def mforall_iff)
  moreover have "\<not> awaitsHuman (node_at d i)" using rc(1) by (auto simp: runsCommand_def awaitsHuman_def)
  ultimately have "attempts c (node_id d i) \<le> executableAttemptCeiling c d (node_at d i)"
    using i(1) wf by (simp add: attemptEntryOk_def)
  moreover have "cmd_Attempt x = attempts c (node_id d i)" using i(2,3) by (metis taskCommand_simps(3))
  ultimately show ?thesis using i rc by auto
qed

lemma rounds_bound:
  assumes wf: "wf_definition d" and inv: "Inv d c" and li: "li < length (d_loops d)"
  shows "0 \<le> iterationsTaken c d (loop_at d li) \<and> iterationsTaken c d (loop_at d li) + 1 \<le> l_maxIterations (loop_at d li)"
proof -
  let ?l = "loop_at d li"
  let ?f = "node_id d (l_from ?l)" and ?oc = "l_outcome ?l"
  have wl: "l_from ?l < n_nodes d" "li \<in> set (n_sourceOf (node_at d (l_from ?l)))" "2 \<le> l_maxIterations ?l"
    using wf_loopD [OF wf li] by (auto simp: wf_loop_def Let_def)
  show ?thesis
  proof (cases "fmlookup (Iterations c) ?f")
    case None
    then show ?thesis using wl(3) by (simp add: iterationsTaken_def iterations_def mget2_def mget_def)
  next
    case (Some m)
    have "iterationEntryOk d ?f m" using InvD(2) [OF inv] Some by (auto simp: countsOk_def mforall_iff)
    then have ok: "\<forall>oc n. fmlookup m oc = Some n \<longrightarrow> (case loopOf d (node_at d (l_from ?l)) oc of None \<Rightarrow> False
          | Some k \<Rightarrow> 1 \<le> n \<and> n < l_maxIterations (loop_at d k))"
      using wl(1) wf by (simp add: iterationEntryOk_def mforall_iff)
    have "k = li" if k: "loopOf d (node_at d (l_from ?l)) ?oc = Some k" for k
    proof -
      from k have k': "k \<in> set (n_sourceOf (node_at d (l_from ?l)))" "l_outcome (loop_at d k) = ?oc"
        by (auto simp: loopOf_def find_Some_iff)
      with wf_nodeD [OF wf wl(1)] have "k < length (d_loops d)" "l_from (loop_at d k) = l_from ?l"
        by (auto simp: wf_node_def Let_def list_all_iff)
      with k'(2) li wf show ?thesis by (auto simp: wf_definition_def distinct_conv_nth)
    qed
    with ok wl(3) show ?thesis
      by (cases "fmlookup m ?oc") (force simp: iterationsTaken_def iterations_def mget2_def mget_def Some split: option.splits)+
  qed
qed

section \<open>Transitions branch by branch\<close>

lemma settle_moves:
  assumes wf: "wf_definition d" and inv: "Inv d c" and run: "Status c = RunRunning" and i: "i < n_nodes d" "st d c i = NodeReady"
    and k: "n_kind (node_at d i) = definitionStart \<or> n_kind (node_at d i) = definitionParallel"
    and step: "completeAndSettle d i arr c = Inr c'"
  shows "st d c' i = NodeDone \<and>
    (\<forall>j<n_nodes d. j \<noteq> i \<longrightarrow> st d c' j = st d c j \<or> st d c j = NodePending \<and> st d c' j \<in> {NodeReady, NodeSkipped}) \<and>
    Attempts c' = Attempts c \<and> Commands c' = Commands c \<and> Blocked c' = Blocked c \<and>
    AttemptCeilings c' = AttemptCeilings c \<and> Iterations c' = Iterations c \<and> Status c' = Status c"
proof -
  have x: "InvX d i c" by (rule engine_takeOut [OF wf inv run i(1)]) (use i(2) k in auto)
  have "n_parent (node_at d i) = None" by (rule parentless [OF wf i(1)]) (use k in auto)
  from completeAndSettle_rel [OF settlePre_InvX [OF wf x this] step] i(2)
  have rel: "settleRel d i (setNode (node_id d i) NodeDone c) c'" by simp
  have "st d c' j = st d c j \<or> st d c j = NodePending \<and> st d c' j \<in> {NodeReady, NodeSkipped}" if j: "j < n_nodes d" "j \<noteq> i" for j
  proof -
    have "st d (setNode (node_id d i) NodeDone c) j = st d c j" using j i(1) wf by (simp add: node_id_inj)
    moreover have "st d c' j = st d (setNode (node_id d i) NodeDone c) j \<or> st d (setNode (node_id d i) NodeDone c) j = NodePending \<and>
       (st d c' j = NodeReady \<and> n_parent (node_at d j) = None \<or> st d c' j = NodeSkipped)"
      using rel j unfolding settleRel_def by blast
    ultimately show ?thesis by auto
  qed
  moreover have "sameRest (setNode (node_id d i) NodeDone c) c'" "st d c' i = NodeDone" using rel unfolding settleRel_def by blast+
  ultimately show ?thesis by (simp add: sameRest_def)
qed

lemma Initialize_result:
  assumes wf: "wf_definition d"
  shows "Initialize r d = (if validRunID r then Inr (initialCheckpoint r d) else Inl ErrInvalidCheckpoint) \<and>
    (\<forall>i<n_nodes d. st d (initialCheckpoint r d) i = (if i = 0 then NodeReady else NodePending))"
proof -
  have "Initialize r d = Inl ErrInvalidCheckpoint" if "\<not> validRunID r"
    using that wf_nonempty [OF wf] by (simp add: Initialize_def validateCheckpoint_def initial_fields check_def)
  moreover have "Initialize r d = Inr (initialCheckpoint r d)" if "validRunID r"
    using Inv_validates [OF wf Inv_initial [OF wf that]] wf_nonempty [OF wf] by (simp add: Initialize_def)
  ultimately show ?thesis using initial_status [OF wf] by simp
qed

lemma remainingWork_None:
  assumes wf: "wf_definition d" and i: "i < n_nodes d"
  shows "remainingWork c d (node_id d i) = None \<longleftrightarrow>
    Commands c = [] \<and> AwaitingDecisions c = [] \<and> Blocked c = [] \<and> (\<forall>j<n_nodes d. j \<noteq> i \<longrightarrow> st d c j \<notin> {NodeReady, NodeRunning})"
proof -
  have "(\<forall>x\<in>set (d_nodes d). \<not> (n_id x \<noteq> node_id d i \<and> (nodeStatus c (n_id x) = NodeReady \<or> nodeStatus c (n_id x) = NodeRunning))) \<longleftrightarrow>
      (\<forall>j<n_nodes d. j \<noteq> i \<longrightarrow> st d c j \<notin> {NodeReady, NodeRunning})"
    using node_id_inj [OF wf _ i] by (auto simp: all_set_conv_all_nth)
  then show ?thesis by (auto simp: remainingWork_def find_None_iff split: list.splits)
qed

lemma advance_end:
  assumes wf: "wf_definition d" and i: "i < n_nodes d" "n_kind (node_at d i) = definitionEnd" "st d c i = NodeReady"
  shows "apply_transition c d (advanceTransition (node_id d i)) =
    (if Commands c = [] \<and> AwaitingDecisions c = [] \<and> Blocked c = [] \<and> (\<forall>j<n_nodes d. j \<noteq> i \<longrightarrow> st d c j \<notin> {NodeReady, NodeRunning})
     then Inr ((setNode (node_id d i) NodeDone c)\<lparr>Status := n_terminal (node_at d i)\<rparr>) else Inl ErrInvalidTransition)"
proof -
  have "apply_transition c d (advanceTransition (node_id d i)) =
    (if remainingWork c d (node_id d i) = None
     then Inr ((setNode (node_id d i) NodeDone c)\<lparr>Status := n_terminal (node_at d i)\<rparr>) else Inl ErrInvalidTransition)"
    using i wf_nonempty [OF wf] wf
    by (auto simp: apply_transition_def advanceTransition_def apply_advance_def advanceNode_def advanceEnd_def
        requireNoWorkRemains_def Let_def split: option.splits)
  then show ?thesis unfolding remainingWork_None [OF wf i(1)] .
qed

lemma failed_observation:
  assumes wf: "wf_definition d" and t: "tr_Kind t = TransitionProgramObserved" "tr_Observation t = Some ob" "obs_Outcome ob = ProgramFailed"
    and i: "i < n_nodes d" "obs_NodeID ob = node_id d i" and step: "apply_transition c d t = Inr c'"
  shows "observeFailure d i ob c = Inr c'"
proof -
  from t step obtain x j where x: "findCommand c (obs_CommandID ob) (obs_NodeID ob) = Some x"
    and j: "fmlookup (d_index d) (cmd_NodeID x) = Some j" "observeNode d j ob c = Inr c'"
    by (auto simp: apply_transition_def apply_programObserved_def split: if_splits option.splits)
  have "j = i" using j(1) findCommand_key(1) [OF x] i wf by simp
  with j(2) t(3) show ?thesis by (auto simp: observeNode_def split: if_splits)
qed

lemma observed_answered:
  assumes inv: "Inv d c" "Inv d c'" and kind: "tr_Kind t = TransitionProgramObserved" and ob: "tr_Observation t = Some ob"
    and step: "apply_transition c d t = Inr c'"
  shows "findCommand c' (obs_CommandID ob) (obs_NodeID ob) = None"
proof -
  from observed_payload [OF kind step] ob obtain x where x: "findCommand c (obs_CommandID ob) (obs_NodeID ob) = Some x"
    and s: "apply_programObserved d t c = Inr c'" by (metis option.inject)
  from observation_gone [OF inv ob x s rtranclp.rtrancl_refl] show ?thesis .
qed

end
