(* ===== verification/Samples.thy ===== *)
theory Samples
  imports Runs
begin

text \<open>
  Small prepared definitions and the checkpoints of runs of them.  The witnesses of the theorems
  evaluate the model on these inputs.
\<close>

section \<open>Building blocks\<close>

definition blankNode :: definitionNode where
  "blankNode = \<lparr>n_id = [], n_kind = definitionTask, n_program = emptyProgram, n_agent = None, n_maxAttempts = 1,
    n_retryAuthored = False, n_terminal = RunOther [], n_verdicts = [], n_outgoing = [], n_incoming = [],
    n_joinAll = False, n_joinAny = False, n_children = [], n_parent = None, n_stage = StageNone,
    n_doAnchor = None, n_planAnchor = None, n_approvalGate = None, n_scope = None, n_scopeEnd = None,
    n_entry = None, n_exitOutcome = [], n_loops = [], n_sourceOf = []\<rparr>"

definition plainEdge :: "string \<Rightarrow> string \<Rightarrow> string \<Rightarrow> nat \<Rightarrow> nat \<Rightarrow> definitionEdge" where
  "plainEdge f oc t i j =
     \<lparr>e_from = f, e_outcome = oc, e_to = t, e_fromIndex = i, e_toIndex = j, e_loop = None, e_exitOf = []\<rparr>"

definition indexed :: "definitionNode list \<Rightarrow> definitionEdge list \<Rightarrow> definitionLoop list \<Rightarrow> Definition" where
  "indexed ns es ls =
     \<lparr>d_nodes = ns, d_index = fmap_of_list (zip (map n_id ns) [0 ..< length ns]), d_edges = es,
      d_joinAnyIncoming = [], d_loops = ls\<rparr>"

definition observed :: "string \<Rightarrow> string \<Rightarrow> ProgramOutcome \<Rightarrow> int \<Rightarrow> string \<Rightarrow> Transition" where
  "observed cid nid oc ex err =
     \<lparr>tr_Kind = TransitionProgramObserved, tr_NodeID = [], tr_Command = None,
      tr_Observation = Some \<lparr>obs_CommandID = cid, obs_NodeID = nid, obs_Outcome = oc, obs_ExitCode = ex,
                             obs_Error = err, obs_Verdict = []\<rparr>,
      tr_Decision = None, tr_Resolution = None\<rparr>"

definition decided :: "string \<Rightarrow> string \<Rightarrow> int \<Rightarrow> Transition" where
  "decided nid v k =
     \<lparr>tr_Kind = TransitionDecisionRecorded, tr_NodeID = [], tr_Command = None, tr_Observation = None,
      tr_Decision = Some \<lparr>dec_NodeID = nid, dec_Verdict = v, dec_Attempt = k\<rparr>, tr_Resolution = None\<rparr>"

definition resolved :: "string \<Rightarrow> int \<Rightarrow> ResolutionAction \<Rightarrow> Transition" where
  "resolved nid k a =
     \<lparr>tr_Kind = TransitionBlockedResolved, tr_NodeID = [], tr_Command = None, tr_Observation = None,
      tr_Decision = None, tr_Resolution = Some \<lparr>res_NodeID = nid, res_Attempt = k, res_Action = a\<rparr>\<rparr>"

definition drive :: "Definition \<Rightarrow> Checkpoint \<Rightarrow> Checkpoint" where
  "drive d c = fst (projr (AdvanceAndPlan c d))"

definition accept :: "Definition \<Rightarrow> Transition \<Rightarrow> Checkpoint \<Rightarrow> Checkpoint" where
  "accept d t c = projr (apply_transition c d t)"

lemma drive_reachable:
  "reachable r d c \<Longrightarrow> \<not> isl (AdvanceAndPlan c d) \<Longrightarrow> reachable r d (drive d c)"
  using reachable.driven [of r d c] by (cases "AdvanceAndPlan c d") (auto simp: drive_def)

lemma accept_reachable:
  "reachable r d c \<Longrightarrow> external t \<Longrightarrow> admissible c t \<Longrightarrow> \<not> isl (apply_transition c d t) \<Longrightarrow> reachable r d (accept d t c)"
  using reachable.received [of r d c t] by (cases "apply_transition c d t") (auto simp: accept_def)

lemma initial_reachable:
  "validateCheckpoint (initialCheckpoint r d) d = Inr () \<Longrightarrow> d_nodes d \<noteq> [] \<Longrightarrow> reachable r d (initialCheckpoint r d)"
  by (rule reachable.created) (simp add: Initialize_def)

section \<open>A reviewed task\<close>

text \<open>
  A task with two attempts, then a human review that either sends the work back, for at most two
  more rounds, or finishes the run.
\<close>

definition reviewLoop :: Definition where
  "reviewLoop = indexed
     [blankNode\<lparr>n_id := ''start'', n_kind := definitionStart, n_outgoing := [0]\<rparr>,
      blankNode\<lparr>n_id := ''work'', n_maxAttempts := 2, n_retryAuthored := True, n_outgoing := [1],
                n_incoming := [0], n_loops := [0]\<rparr>,
      blankNode\<lparr>n_id := ''review'', n_kind := definitionDecision, n_verdicts := [''changes'', ''ok''],
                n_outgoing := [2, 3], n_incoming := [1], n_loops := [0], n_sourceOf := [0]\<rparr>,
      blankNode\<lparr>n_id := ''fin'', n_kind := definitionEnd, n_terminal := RunCompleted, n_incoming := [3]\<rparr>]
     [plainEdge ''start'' ''next'' ''work'' 0 1, plainEdge ''work'' ''pass'' ''review'' 1 2,
      (plainEdge ''review'' ''changes'' ''work'' 2 1)\<lparr>e_loop := Some 0\<rparr>,
      (plainEdge ''review'' ''ok'' ''fin'' 2 3)\<lparr>e_exitOf := [0]\<rparr>]
     [\<lparr>l_edge = 2, l_from = 2, l_to = 1, l_outcome = ''changes'', l_maxIterations = 2, l_onExhausted = [],
       l_body = [1, 2], l_exits = [3], l_inner = []\<rparr>]"

definition rl_created :: Checkpoint where "rl_created = initialCheckpoint ''run'' reviewLoop"

lemma rl_created_value [code]:
  "rl_created =
   \<lparr>Version = 3, RunID = ''run'', Status = RunRunning,
    Nodes =
      fmap_of_list
       [(''start'', NodeReady), (''work'', NodePending),
        (''review'', NodePending), (''fin'', NodePending)],
    Attempts = fmap_of_list [],
    Edges =
      fmap_of_list
       [(''start'', fmap_of_list [(''next'', EdgeUnresolved)]),
        (''work'', fmap_of_list [(''pass'', EdgeUnresolved)]),
        (''review'',
         fmap_of_list
          [(''changes'', EdgeUnresolved), (''ok'', EdgeUnresolved)])],
    AwaitingDecisions = [], Commands = [], Blocked = [],
    AttemptCeilings = fmap_of_list [], Iterations = fmap_of_list []\<rparr>"
  by code_simp

definition rl_planned :: Checkpoint where "rl_planned = drive reviewLoop rl_created"

lemma rl_planned_value [code]:
  "rl_planned =
   \<lparr>Version = 3, RunID = ''run'', Status = RunRunning,
    Nodes =
      fmap_of_list
       [(''start'', NodeDone), (''work'', NodeRunning),
        (''review'', NodePending), (''fin'', NodePending)],
    Attempts = fmap_of_list [(''work'', 1)],
    Edges =
      fmap_of_list
       [(''start'', fmap_of_list [(''next'', EdgeArrived)]),
        (''work'', fmap_of_list [(''pass'', EdgeUnresolved)]),
        (''review'',
         fmap_of_list
          [(''changes'', EdgeUnresolved), (''ok'', EdgeUnresolved)])],
    AwaitingDecisions = [],
    Commands =
      [\<lparr>cmd_ID = ''cmd_3_run_4_work_1_program'', cmd_Kind = CommandProgram,
          cmd_NodeID = ''work'', cmd_Attempt = 1,
          cmd_Program =
            \<lparr>pc_Profile = [], pc_Run = [], pc_Args = [], pc_Timeout = []\<rparr>,
          cmd_Agent = None, cmd_Round = 1, cmd_Rounds = 2,
          cmd_LoopFrom = ''review'', cmd_LoopOutcome = ''changes'',
          cmd_Verdicts = []\<rparr>],
    Blocked = [], AttemptCeilings = fmap_of_list [],
    Iterations = fmap_of_list []\<rparr>"
  by code_simp

definition rl_retry :: Checkpoint where
  "rl_retry = accept reviewLoop (observed ''cmd_3_run_4_work_1_program'' ''work'' ProgramFailed 1 ''boom'') rl_planned"

lemma rl_retry_value [code]:
  "rl_retry =
   \<lparr>Version = 3, RunID = ''run'', Status = RunRunning,
    Nodes =
      fmap_of_list
       [(''start'', NodeDone), (''work'', NodeReady),
        (''review'', NodePending), (''fin'', NodePending)],
    Attempts = fmap_of_list [(''work'', 1)],
    Edges =
      fmap_of_list
       [(''start'', fmap_of_list [(''next'', EdgeArrived)]),
        (''work'', fmap_of_list [(''pass'', EdgeUnresolved)]),
        (''review'',
         fmap_of_list
          [(''changes'', EdgeUnresolved), (''ok'', EdgeUnresolved)])],
    AwaitingDecisions = [], Commands = [], Blocked = [],
    AttemptCeilings = fmap_of_list [], Iterations = fmap_of_list []\<rparr>"
  by code_simp

definition rl_planned2 :: Checkpoint where "rl_planned2 = drive reviewLoop rl_retry"

lemma rl_planned2_value [code]:
  "rl_planned2 =
   \<lparr>Version = 3, RunID = ''run'', Status = RunRunning,
    Nodes =
      fmap_of_list
       [(''start'', NodeDone), (''work'', NodeRunning),
        (''review'', NodePending), (''fin'', NodePending)],
    Attempts = fmap_of_list [(''work'', 2)],
    Edges =
      fmap_of_list
       [(''start'', fmap_of_list [(''next'', EdgeArrived)]),
        (''work'', fmap_of_list [(''pass'', EdgeUnresolved)]),
        (''review'',
         fmap_of_list
          [(''changes'', EdgeUnresolved), (''ok'', EdgeUnresolved)])],
    AwaitingDecisions = [],
    Commands =
      [\<lparr>cmd_ID = ''cmd_3_run_4_work_2_program'', cmd_Kind = CommandProgram,
          cmd_NodeID = ''work'', cmd_Attempt = 2,
          cmd_Program =
            \<lparr>pc_Profile = [], pc_Run = [], pc_Args = [], pc_Timeout = []\<rparr>,
          cmd_Agent = None, cmd_Round = 1, cmd_Rounds = 2,
          cmd_LoopFrom = ''review'', cmd_LoopOutcome = ''changes'',
          cmd_Verdicts = []\<rparr>],
    Blocked = [], AttemptCeilings = fmap_of_list [],
    Iterations = fmap_of_list []\<rparr>"
  by code_simp

definition rl_blocked :: Checkpoint where
  "rl_blocked = accept reviewLoop (observed ''cmd_3_run_4_work_2_program'' ''work'' ProgramFailed 1 ''boom'') rl_planned2"

lemma rl_blocked_value [code]:
  "rl_blocked =
   \<lparr>Version = 3, RunID = ''run'', Status = RunRunning,
    Nodes =
      fmap_of_list
       [(''start'', NodeDone), (''work'', NodeBlocked),
        (''review'', NodePending), (''fin'', NodePending)],
    Attempts = fmap_of_list [(''work'', 2)],
    Edges =
      fmap_of_list
       [(''start'', fmap_of_list [(''next'', EdgeArrived)]),
        (''work'', fmap_of_list [(''pass'', EdgeUnresolved)]),
        (''review'',
         fmap_of_list
          [(''changes'', EdgeUnresolved), (''ok'', EdgeUnresolved)])],
    AwaitingDecisions = [], Commands = [],
    Blocked = [\<lparr>bo_NodeID = ''work'', bo_Reason = ''boom''\<rparr>],
    AttemptCeilings = fmap_of_list [], Iterations = fmap_of_list []\<rparr>"
  by code_simp

definition rl_review :: Checkpoint where
  "rl_review = accept reviewLoop (observed ''cmd_3_run_4_work_2_program'' ''work'' ProgramSucceeded 0 []) rl_planned2"

lemma rl_review_value [code]:
  "rl_review =
   \<lparr>Version = 3, RunID = ''run'', Status = RunRunning,
    Nodes =
      fmap_of_list
       [(''start'', NodeDone), (''work'', NodeDone),
        (''review'', NodeReady), (''fin'', NodePending)],
    Attempts = fmap_of_list [(''work'', 2)],
    Edges =
      fmap_of_list
       [(''start'', fmap_of_list [(''next'', EdgeArrived)]),
        (''work'', fmap_of_list [(''pass'', EdgeArrived)]),
        (''review'',
         fmap_of_list
          [(''changes'', EdgeUnresolved), (''ok'', EdgeUnresolved)])],
    AwaitingDecisions = [\<lparr>do_NodeID = ''review''\<rparr>], Commands = [],
    Blocked = [], AttemptCeilings = fmap_of_list [],
    Iterations = fmap_of_list []\<rparr>"
  by code_simp

definition rl_again :: Checkpoint where
  "rl_again = accept reviewLoop (decided ''review'' ''changes'' 0) rl_review"

lemma rl_again_value [code]:
  "rl_again =
   \<lparr>Version = 3, RunID = ''run'', Status = RunRunning,
    Nodes =
      fmap_of_list
       [(''start'', NodeDone), (''work'', NodeReady),
        (''review'', NodePending), (''fin'', NodePending)],
    Attempts = fmap_of_list [(''work'', 2), (''review'', 1)],
    Edges =
      fmap_of_list
       [(''start'', fmap_of_list [(''next'', EdgeArrived)]),
        (''work'', fmap_of_list [(''pass'', EdgeUnresolved)]),
        (''review'',
         fmap_of_list
          [(''changes'', EdgeUnresolved), (''ok'', EdgeUnresolved)])],
    AwaitingDecisions = [], Commands = [], Blocked = [],
    AttemptCeilings = fmap_of_list [(''work'', 4)],
    Iterations =
      fmap_of_list [(''review'', fmap_of_list [(''changes'', 1)])]\<rparr>"
  by code_simp

definition rl_approved :: Checkpoint where
  "rl_approved = accept reviewLoop (decided ''review'' ''ok'' 0) rl_review"

lemma rl_approved_value [code]:
  "rl_approved =
   \<lparr>Version = 3, RunID = ''run'', Status = RunRunning,
    Nodes =
      fmap_of_list
       [(''start'', NodeDone), (''work'', NodeDone), (''review'', NodeDone),
        (''fin'', NodeReady)],
    Attempts = fmap_of_list [(''work'', 2)],
    Edges =
      fmap_of_list
       [(''start'', fmap_of_list [(''next'', EdgeArrived)]),
        (''work'', fmap_of_list [(''pass'', EdgeArrived)]),
        (''review'',
         fmap_of_list
          [(''changes'', EdgeNotTaken), (''ok'', EdgeArrived)])],
    AwaitingDecisions = [], Commands = [], Blocked = [],
    AttemptCeilings = fmap_of_list [], Iterations = fmap_of_list []\<rparr>"
  by code_simp

definition rl_done :: Checkpoint where "rl_done = drive reviewLoop rl_approved"

lemma rl_done_value [code]:
  "rl_done =
   \<lparr>Version = 3, RunID = ''run'', Status = RunCompleted,
    Nodes =
      fmap_of_list
       [(''start'', NodeDone), (''work'', NodeDone), (''review'', NodeDone),
        (''fin'', NodeDone)],
    Attempts = fmap_of_list [(''work'', 2)],
    Edges =
      fmap_of_list
       [(''start'', fmap_of_list [(''next'', EdgeArrived)]),
        (''work'', fmap_of_list [(''pass'', EdgeArrived)]),
        (''review'',
         fmap_of_list
          [(''changes'', EdgeNotTaken), (''ok'', EdgeArrived)])],
    AwaitingDecisions = [], Commands = [], Blocked = [],
    AttemptCeilings = fmap_of_list [], Iterations = fmap_of_list []\<rparr>"
  by code_simp

lemma reviewLoop_wf: "wf_definition reviewLoop"
  by code_simp

lemma rl_created_reachable: "reachable ''run'' reviewLoop rl_created"
  unfolding rl_created_def by (rule initial_reachable; code_simp)

lemma rl_planned_reachable: "reachable ''run'' reviewLoop rl_planned"
  unfolding rl_planned_def by (rule drive_reachable [OF rl_created_reachable]) code_simp

lemma rl_retry_reachable: "reachable ''run'' reviewLoop rl_retry"
  unfolding rl_retry_def by (rule accept_reachable [OF rl_planned_reachable]; code_simp)

lemma rl_planned2_reachable: "reachable ''run'' reviewLoop rl_planned2"
  unfolding rl_planned2_def by (rule drive_reachable [OF rl_retry_reachable]) code_simp

lemma rl_blocked_reachable: "reachable ''run'' reviewLoop rl_blocked"
  unfolding rl_blocked_def by (rule accept_reachable [OF rl_planned2_reachable]; code_simp)

lemma rl_review_reachable: "reachable ''run'' reviewLoop rl_review"
  unfolding rl_review_def by (rule accept_reachable [OF rl_planned2_reachable]; code_simp)

lemma rl_again_reachable: "reachable ''run'' reviewLoop rl_again"
  unfolding rl_again_def by (rule accept_reachable [OF rl_review_reachable]; code_simp)

lemma rl_approved_reachable: "reachable ''run'' reviewLoop rl_approved"
  unfolding rl_approved_def by (rule accept_reachable [OF rl_review_reachable]; code_simp)

lemma rl_done_reachable: "reachable ''run'' reviewLoop rl_done"
  unfolding rl_done_def by (rule drive_reachable [OF rl_approved_reachable]) code_simp

end
