(* ===== verification/Parallel_Samples.thy ===== *)
theory Parallel_Samples
  imports Samples
begin

text \<open>Prepared definitions with parallel branches, and checkpoints of runs of them.\<close>

section \<open>Two branches and a first-arrival join\<close>

definition firstWins :: Definition where
  "firstWins = indexed
     [blankNode\<lparr>n_id := ''start'', n_kind := definitionStart, n_outgoing := [0]\<rparr>,
      blankNode\<lparr>n_id := ''fork'', n_kind := definitionParallel, n_outgoing := [1, 2], n_incoming := [0]\<rparr>,
      blankNode\<lparr>n_id := ''left'', n_outgoing := [3], n_incoming := [1]\<rparr>,
      blankNode\<lparr>n_id := ''right'', n_outgoing := [4], n_incoming := [2]\<rparr>,
      blankNode\<lparr>n_id := ''race'', n_outgoing := [5], n_incoming := [3, 4], n_joinAny := True\<rparr>,
      blankNode\<lparr>n_id := ''fin'', n_kind := definitionEnd, n_terminal := RunCompleted, n_incoming := [5]\<rparr>]
     [plainEdge ''start'' ''next'' ''fork'' 0 1, plainEdge ''fork'' ''a'' ''left'' 1 2, plainEdge ''fork'' ''b'' ''right'' 1 3,
      plainEdge ''left'' ''pass'' ''race'' 2 4, plainEdge ''right'' ''pass'' ''race'' 3 4, plainEdge ''race'' ''pass'' ''fin'' 4 5] []"

definition fw_both :: Checkpoint where
  "fw_both = drive firstWins (drive firstWins (initialCheckpoint ''run'' firstWins))"

lemma fw_both_value [code]:
  "fw_both =
   \<lparr>Version = 3, RunID = ''run'', Status = RunRunning,
    Nodes =
      fmap_of_list
       [(''start'', NodeDone), (''fork'', NodeDone),
        (''left'', NodeRunning), (''right'', NodeRunning),
        (''race'', NodePending), (''fin'', NodePending)],
    Attempts = fmap_of_list [(''left'', 1), (''right'', 1)],
    Edges =
      fmap_of_list
       [(''start'', fmap_of_list [(''next'', EdgeArrived)]),
        (''fork'',
         fmap_of_list [(''a'', EdgeArrived), (''b'', EdgeArrived)]),
        (''left'', fmap_of_list [(''pass'', EdgeUnresolved)]),
        (''right'', fmap_of_list [(''pass'', EdgeUnresolved)]),
        (''race'', fmap_of_list [(''pass'', EdgeUnresolved)])],
    AwaitingDecisions = [],
    Commands =
      [\<lparr>cmd_ID = ''cmd_3_run_4_left_1_program'', cmd_Kind = CommandProgram,
          cmd_NodeID = ''left'', cmd_Attempt = 1,
          cmd_Program =
            \<lparr>pc_Profile = [], pc_Run = [], pc_Args = [], pc_Timeout = []\<rparr>,
          cmd_Agent = None, cmd_Round = 0, cmd_Rounds = 0,
          cmd_LoopFrom = [], cmd_LoopOutcome = [], cmd_Verdicts = []\<rparr>,
       \<lparr>cmd_ID = ''cmd_3_run_5_right_1_program'', cmd_Kind = CommandProgram,
          cmd_NodeID = ''right'', cmd_Attempt = 1,
          cmd_Program =
            \<lparr>pc_Profile = [], pc_Run = [], pc_Args = [], pc_Timeout = []\<rparr>,
          cmd_Agent = None, cmd_Round = 0, cmd_Rounds = 0,
          cmd_LoopFrom = [], cmd_LoopOutcome = [], cmd_Verdicts = []\<rparr>],
    Blocked = [], AttemptCeilings = fmap_of_list [],
    Iterations = fmap_of_list []\<rparr>"
  by code_simp

definition fw_won :: Checkpoint where
  "fw_won = accept firstWins (observed ''cmd_3_run_5_right_1_program'' ''right'' ProgramSucceeded 0 []) fw_both"

lemma fw_won_value [code]:
  "fw_won =
   \<lparr>Version = 3, RunID = ''run'', Status = RunRunning,
    Nodes =
      fmap_of_list
       [(''start'', NodeDone), (''fork'', NodeDone),
        (''left'', NodeRunning), (''right'', NodeDone),
        (''race'', NodeReady), (''fin'', NodePending)],
    Attempts = fmap_of_list [(''left'', 1), (''right'', 1)],
    Edges =
      fmap_of_list
       [(''start'', fmap_of_list [(''next'', EdgeArrived)]),
        (''fork'',
         fmap_of_list [(''a'', EdgeArrived), (''b'', EdgeArrived)]),
        (''left'', fmap_of_list [(''pass'', EdgeUnresolved)]),
        (''right'', fmap_of_list [(''pass'', EdgeArrived)]),
        (''race'', fmap_of_list [(''pass'', EdgeUnresolved)])],
    AwaitingDecisions = [],
    Commands =
      [\<lparr>cmd_ID = ''cmd_3_run_4_left_1_program'', cmd_Kind = CommandProgram,
          cmd_NodeID = ''left'', cmd_Attempt = 1,
          cmd_Program =
            \<lparr>pc_Profile = [], pc_Run = [], pc_Args = [], pc_Timeout = []\<rparr>,
          cmd_Agent = None, cmd_Round = 0, cmd_Rounds = 0,
          cmd_LoopFrom = [], cmd_LoopOutcome = [], cmd_Verdicts = []\<rparr>],
    Blocked = [], AttemptCeilings = fmap_of_list [],
    Iterations = fmap_of_list []\<rparr>"
  by code_simp

definition fw_late :: Checkpoint where
  "fw_late = accept firstWins (observed ''cmd_3_run_4_left_1_program'' ''left'' ProgramSucceeded 0 []) fw_won"

lemma fw_late_value [code]:
  "fw_late =
   \<lparr>Version = 3, RunID = ''run'', Status = RunRunning,
    Nodes =
      fmap_of_list
       [(''start'', NodeDone), (''fork'', NodeDone), (''left'', NodeDone),
        (''right'', NodeDone), (''race'', NodeReady),
        (''fin'', NodePending)],
    Attempts = fmap_of_list [(''left'', 1), (''right'', 1)],
    Edges =
      fmap_of_list
       [(''start'', fmap_of_list [(''next'', EdgeArrived)]),
        (''fork'',
         fmap_of_list [(''a'', EdgeArrived), (''b'', EdgeArrived)]),
        (''left'', fmap_of_list [(''pass'', EdgeArrivedLate)]),
        (''right'', fmap_of_list [(''pass'', EdgeArrived)]),
        (''race'', fmap_of_list [(''pass'', EdgeUnresolved)])],
    AwaitingDecisions = [], Commands = [], Blocked = [],
    AttemptCeilings = fmap_of_list [], Iterations = fmap_of_list []\<rparr>"
  by code_simp

lemma firstWins_wf: "wf_definition firstWins"
  by code_simp

lemma fw_both_reachable: "reachable ''run'' firstWins fw_both"
  unfolding fw_both_def by (intro drive_reachable initial_reachable; code_simp)

lemma fw_won_reachable: "reachable ''run'' firstWins fw_won"
  unfolding fw_won_def by (rule accept_reachable [OF fw_both_reachable]; code_simp)

lemma fw_late_reachable: "reachable ''run'' firstWins fw_late"
  unfolding fw_late_def by (rule accept_reachable [OF fw_won_reachable]; code_simp)

section \<open>A branch that fails while another waits at a fork\<close>

definition forkRace :: Definition where
  "forkRace = indexed
     [blankNode\<lparr>n_id := ''start'', n_kind := definitionStart, n_outgoing := [0]\<rparr>,
      blankNode\<lparr>n_id := ''fork'', n_kind := definitionParallel, n_outgoing := [1, 2], n_incoming := [0]\<rparr>,
      blankNode\<lparr>n_id := ''a'', n_outgoing := [3], n_incoming := [1]\<rparr>,
      blankNode\<lparr>n_id := ''b'', n_outgoing := [4], n_incoming := [2]\<rparr>,
      blankNode\<lparr>n_id := ''f'', n_kind := definitionParallel, n_outgoing := [5, 6], n_incoming := [3]\<rparr>,
      blankNode\<lparr>n_id := ''h'', n_kind := definitionDecision, n_verdicts := [''ok''], n_outgoing := [7], n_incoming := [5]\<rparr>,
      blankNode\<lparr>n_id := ''g'', n_outgoing := [8], n_incoming := [6]\<rparr>,
      blankNode\<lparr>n_id := ''fin'', n_kind := definitionEnd, n_terminal := RunCompleted, n_incoming := [4, 7, 8], n_joinAll := True\<rparr>]
     [plainEdge ''start'' ''next'' ''fork'' 0 1, plainEdge ''fork'' ''x'' ''a'' 1 2, plainEdge ''fork'' ''y'' ''b'' 1 3,
      plainEdge ''a'' ''pass'' ''f'' 2 4, plainEdge ''b'' ''pass'' ''fin'' 3 7, plainEdge ''f'' ''u'' ''h'' 4 5,
      plainEdge ''f'' ''v'' ''g'' 4 6, plainEdge ''h'' ''ok'' ''fin'' 5 7, plainEdge ''g'' ''pass'' ''fin'' 6 7] []"

definition fr_both :: Checkpoint where
  "fr_both = drive forkRace (drive forkRace (initialCheckpoint ''run'' forkRace))"

lemma fr_both_value [code]:
  "fr_both =
   \<lparr>Version = 3, RunID = ''run'', Status = RunRunning,
    Nodes =
      fmap_of_list
       [(''start'', NodeDone), (''fork'', NodeDone), (''a'', NodeRunning),
        (''b'', NodeRunning), (''f'', NodePending), (''h'', NodePending),
        (''g'', NodePending), (''fin'', NodePending)],
    Attempts = fmap_of_list [(''a'', 1), (''b'', 1)],
    Edges =
      fmap_of_list
       [(''start'', fmap_of_list [(''next'', EdgeArrived)]),
        (''fork'',
         fmap_of_list [(''x'', EdgeArrived), (''y'', EdgeArrived)]),
        (''a'', fmap_of_list [(''pass'', EdgeUnresolved)]),
        (''b'', fmap_of_list [(''pass'', EdgeUnresolved)]),
        (''f'',
         fmap_of_list [(''u'', EdgeUnresolved), (''v'', EdgeUnresolved)]),
        (''h'', fmap_of_list [(''ok'', EdgeUnresolved)]),
        (''g'', fmap_of_list [(''pass'', EdgeUnresolved)])],
    AwaitingDecisions = [],
    Commands =
      [\<lparr>cmd_ID = ''cmd_3_run_1_a_1_program'', cmd_Kind = CommandProgram,
          cmd_NodeID = ''a'', cmd_Attempt = 1,
          cmd_Program =
            \<lparr>pc_Profile = [], pc_Run = [], pc_Args = [], pc_Timeout = []\<rparr>,
          cmd_Agent = None, cmd_Round = 0, cmd_Rounds = 0,
          cmd_LoopFrom = [], cmd_LoopOutcome = [], cmd_Verdicts = []\<rparr>,
       \<lparr>cmd_ID = ''cmd_3_run_1_b_1_program'', cmd_Kind = CommandProgram,
          cmd_NodeID = ''b'', cmd_Attempt = 1,
          cmd_Program =
            \<lparr>pc_Profile = [], pc_Run = [], pc_Args = [], pc_Timeout = []\<rparr>,
          cmd_Agent = None, cmd_Round = 0, cmd_Rounds = 0,
          cmd_LoopFrom = [], cmd_LoopOutcome = [], cmd_Verdicts = []\<rparr>],
    Blocked = [], AttemptCeilings = fmap_of_list [],
    Iterations = fmap_of_list []\<rparr>"
  by code_simp

definition fr_ready :: Checkpoint where
  "fr_ready = accept forkRace (observed ''cmd_3_run_1_a_1_program'' ''a'' ProgramSucceeded 0 []) fr_both"

lemma fr_ready_value [code]:
  "fr_ready =
   \<lparr>Version = 3, RunID = ''run'', Status = RunRunning,
    Nodes =
      fmap_of_list
       [(''start'', NodeDone), (''fork'', NodeDone), (''a'', NodeDone),
        (''b'', NodeRunning), (''f'', NodeReady), (''h'', NodePending),
        (''g'', NodePending), (''fin'', NodePending)],
    Attempts = fmap_of_list [(''a'', 1), (''b'', 1)],
    Edges =
      fmap_of_list
       [(''start'', fmap_of_list [(''next'', EdgeArrived)]),
        (''fork'',
         fmap_of_list [(''x'', EdgeArrived), (''y'', EdgeArrived)]),
        (''a'', fmap_of_list [(''pass'', EdgeArrived)]),
        (''b'', fmap_of_list [(''pass'', EdgeUnresolved)]),
        (''f'',
         fmap_of_list [(''u'', EdgeUnresolved), (''v'', EdgeUnresolved)]),
        (''h'', fmap_of_list [(''ok'', EdgeUnresolved)]),
        (''g'', fmap_of_list [(''pass'', EdgeUnresolved)])],
    AwaitingDecisions = [],
    Commands =
      [\<lparr>cmd_ID = ''cmd_3_run_1_b_1_program'', cmd_Kind = CommandProgram,
          cmd_NodeID = ''b'', cmd_Attempt = 1,
          cmd_Program =
            \<lparr>pc_Profile = [], pc_Run = [], pc_Args = [], pc_Timeout = []\<rparr>,
          cmd_Agent = None, cmd_Round = 0, cmd_Rounds = 0,
          cmd_LoopFrom = [], cmd_LoopOutcome = [], cmd_Verdicts = []\<rparr>],
    Blocked = [], AttemptCeilings = fmap_of_list [],
    Iterations = fmap_of_list []\<rparr>"
  by code_simp

definition fr_failed :: Checkpoint where
  "fr_failed = accept forkRace (observed ''cmd_3_run_1_b_1_program'' ''b'' ProgramFailed 1 ''boom'') fr_ready"

lemma fr_failed_value [code]:
  "fr_failed =
   \<lparr>Version = 3, RunID = ''run'', Status = RunFailed,
    Nodes =
      fmap_of_list
       [(''start'', NodeDone), (''fork'', NodeDone), (''a'', NodeDone),
        (''b'', NodeFailed), (''f'', NodeReady), (''h'', NodePending),
        (''g'', NodePending), (''fin'', NodePending)],
    Attempts = fmap_of_list [(''a'', 1), (''b'', 1)],
    Edges =
      fmap_of_list
       [(''start'', fmap_of_list [(''next'', EdgeArrived)]),
        (''fork'',
         fmap_of_list [(''x'', EdgeArrived), (''y'', EdgeArrived)]),
        (''a'', fmap_of_list [(''pass'', EdgeArrived)]),
        (''b'', fmap_of_list [(''pass'', EdgeUnresolved)]),
        (''f'',
         fmap_of_list [(''u'', EdgeUnresolved), (''v'', EdgeUnresolved)]),
        (''h'', fmap_of_list [(''ok'', EdgeUnresolved)]),
        (''g'', fmap_of_list [(''pass'', EdgeUnresolved)])],
    AwaitingDecisions = [], Commands = [], Blocked = [],
    AttemptCeilings = fmap_of_list [], Iterations = fmap_of_list []\<rparr>"
  by code_simp

definition fr_draining :: Checkpoint where
  "fr_draining = accept forkRace (observed ''cmd_3_run_1_b_1_program'' ''b'' ProgramFailed 1 ''boom'') fr_both"

lemma fr_draining_value [code]:
  "fr_draining =
   \<lparr>Version = 3, RunID = ''run'', Status = RunRunning,
    Nodes =
      fmap_of_list
       [(''start'', NodeDone), (''fork'', NodeDone), (''a'', NodeRunning),
        (''b'', NodeFailed), (''f'', NodePending), (''h'', NodePending),
        (''g'', NodePending), (''fin'', NodePending)],
    Attempts = fmap_of_list [(''a'', 1), (''b'', 1)],
    Edges =
      fmap_of_list
       [(''start'', fmap_of_list [(''next'', EdgeArrived)]),
        (''fork'',
         fmap_of_list [(''x'', EdgeArrived), (''y'', EdgeArrived)]),
        (''a'', fmap_of_list [(''pass'', EdgeUnresolved)]),
        (''b'', fmap_of_list [(''pass'', EdgeUnresolved)]),
        (''f'',
         fmap_of_list [(''u'', EdgeUnresolved), (''v'', EdgeUnresolved)]),
        (''h'', fmap_of_list [(''ok'', EdgeUnresolved)]),
        (''g'', fmap_of_list [(''pass'', EdgeUnresolved)])],
    AwaitingDecisions = [],
    Commands =
      [\<lparr>cmd_ID = ''cmd_3_run_1_a_1_program'', cmd_Kind = CommandProgram,
          cmd_NodeID = ''a'', cmd_Attempt = 1,
          cmd_Program =
            \<lparr>pc_Profile = [], pc_Run = [], pc_Args = [], pc_Timeout = []\<rparr>,
          cmd_Agent = None, cmd_Round = 0, cmd_Rounds = 0,
          cmd_LoopFrom = [], cmd_LoopOutcome = [], cmd_Verdicts = []\<rparr>],
    Blocked = [], AttemptCeilings = fmap_of_list [],
    Iterations = fmap_of_list []\<rparr>"
  by code_simp

lemma forkRace_wf: "wf_definition forkRace"
  by code_simp

lemma fr_both_reachable: "reachable ''run'' forkRace fr_both"
  unfolding fr_both_def by (intro drive_reachable initial_reachable; code_simp)

lemma fr_ready_reachable: "reachable ''run'' forkRace fr_ready"
  unfolding fr_ready_def by (rule accept_reachable [OF fr_both_reachable]; code_simp)

lemma fr_failed_reachable: "reachable ''run'' forkRace fr_failed"
  unfolding fr_failed_def by (rule accept_reachable [OF fr_ready_reachable]; code_simp)

lemma fr_draining_reachable: "reachable ''run'' forkRace fr_draining"
  unfolding fr_draining_def by (rule accept_reachable [OF fr_both_reachable]; code_simp)

lemma fr_advance_stale:
  "Status fr_failed = RunFailed \<and> nodeStatus fr_failed ''f'' = NodeReady"
  "validateCheckpoint (accept forkRace (advanceTransition ''f'') fr_failed) forkRace = Inl ErrInvalidCheckpoint"
  by code_simp+

end
