(* ===== verification/Sample_Steps.thy ===== *)
theory Sample_Steps
  imports Outcomes Parallel_Samples
begin

text \<open>The steps between the checkpoints of the sample runs, for the witnesses of the theorems.\<close>

section \<open>Steps of the sample runs\<close>

lemma accept_step: "\<not> isl (apply_transition c d t) \<Longrightarrow> apply_transition c d t = Inr (accept d t c)"
  by (cases "apply_transition c d t") (simp_all add: accept_def)

lemma rl_again_step:
  "apply_transition rl_review reviewLoop (decided ''review'' ''changes'' 0) = Inr rl_again"
  unfolding rl_again_def by (rule accept_step) code_simp

lemma rl_review_step:
  "apply_transition rl_planned2 reviewLoop (observed ''cmd_3_run_4_work_2_program'' ''work'' ProgramSucceeded 0 []) = Inr rl_review"
  unfolding rl_review_def by (rule accept_step) code_simp

lemma rl_retry_step:
  "apply_transition rl_planned reviewLoop (observed ''cmd_3_run_4_work_1_program'' ''work'' ProgramFailed 1 ''boom'') = Inr rl_retry"
  unfolding rl_retry_def by (rule accept_step) code_simp

lemma rl_again_run_step: "run_step reviewLoop rl_review rl_again"
  by (rule run_step.receive [OF _ _ rl_again_step]; code_simp)

lemma rl_again_history: "(run_step reviewLoop)\<^sup>*\<^sup>* rl_review rl_again"
  using rl_again_run_step by (rule r_into_rtranclp)

lemma drive_step: "\<not> isl (AdvanceAndPlan c d) \<Longrightarrow> AdvanceAndPlan c d = Inr (drive d c, fst (snd (projr (AdvanceAndPlan c d))), snd (snd (projr (AdvanceAndPlan c d))))"
  by (cases "AdvanceAndPlan c d") (simp_all add: drive_def)

end
