(* ===== verification/Run_Laws.thy ===== *)
theory Run_Laws
  imports Sample_Steps
begin

text \<open>
  The theorems about whole runs: safety of every reachable checkpoint, exactly-once effects of
  external transitions, the end of a run, the driver, attempts, rounds and joins.
\<close>

section \<open>Safety of a run\<close>

text \<open>
  C1. Every checkpoint the process engine can reach loads: whatever order driver steps, program
  observations, human decisions and operator resolutions come in, the checkpoint passes the full
  structural validation of the load boundary.
\<close>

theorem reachable_validates:
  assumes "wf_definition d" "reachable r d c"
  shows "validateCheckpoint c d = Inr ()"
  by (rule Inv_validates [OF assms(1) Inv_reachable [OF assms]])

theorem reachable_validates_witness:
  "validateCheckpoint rl_again reviewLoop = Inr () \<and> Iterations rl_again \<noteq> fmempty"
  using reachable_validates [OF reviewLoop_wf rl_again_reachable] by (simp, code_simp)

text \<open>
  C4. The run-time invariant (node statuses, outboxes, attempts, stages of a compound, bodies of a
  subprocess, rounds of a loop) is kept by every transition of every kind that the reducer accepts,
  provided advance and plan come while the run is running and an observation's error text is valid
  UTF-8.
\<close>

theorem transition_keeps_invariant:
  assumes "wf_definition d" "Inv d c" "admissible c t" "apply_transition c d t = Inr c'"
  shows "Inv d c'"
  by (rule Inv_apply [OF assms])

theorem transition_keeps_invariant_witness: "Inv reviewLoop rl_again"
  by (rule transition_keeps_invariant [OF reviewLoop_wf Inv_reachable [OF reviewLoop_wf rl_review_reachable] _ rl_again_step])
    code_simp

text \<open>
  C5. An observation counts once.  After an observation was accepted, the same observation is refused
  as stale at every later point of the run: no retry, later round or reopened window brings back the
  command it answered.
\<close>

theorem observation_accepted_once:
  assumes "wf_definition d" "reachable r d c" "tr_Kind t = TransitionProgramObserved"
    "apply_transition c d t = Inr c'" "admissible c t" "(run_step d)\<^sup>*\<^sup>* c' c''"
  shows "apply_transition c'' d t = Inl ErrStaleObservation"
proof -
  have "reachable r d c'"
    by (rule reachable.received [OF assms(2) _ assms(5,4)]) (simp add: external_def assms(3))
  then have "reachable r d c''" by (rule history_reachable [OF assms(6)])
  with assms show ?thesis using observation_once Inv_reachable by blast
qed

theorem observation_accepted_once_witness:
  "apply_transition rl_again reviewLoop (observed ''cmd_3_run_4_work_2_program'' ''work'' ProgramSucceeded 0 []) =
     Inl ErrStaleObservation"
  by (rule observation_accepted_once [OF reviewLoop_wf rl_planned2_reachable _ rl_review_step _ rl_again_history])
    code_simp+

text \<open>
  C6. A decision counts once: recording the same verdict for the same attempt a second time is refused
  as stale, even when the first one started a new round in which the same decision is asked again.
\<close>

theorem decision_accepted_once:
  assumes "wf_definition d" "reachable r d c" "tr_Kind t = TransitionDecisionRecorded" "apply_transition c d t = Inr c'"
  shows "apply_transition c' d t = Inl ErrStaleDecision"
  using decision_once [OF assms(1) Inv_reachable [OF assms(1,2)] assms(3,4)] .

theorem decision_accepted_once_witness:
  "apply_transition rl_again reviewLoop (decided ''review'' ''changes'' 0) = Inl ErrStaleDecision"
  by (rule decision_accepted_once [OF reviewLoop_wf rl_review_reachable _ rl_again_step]) code_simp

text \<open>
  C7. A run that is over is final: it has no outstanding command, decision or parked branch, nothing
  of it is runnable, every external transition is refused, and no step of a driver changes it.
\<close>

theorem finished_run_final:
  assumes "wf_definition d" "reachable r d c" "Status c \<noteq> RunRunning"
  shows "Commands c = [] \<and> AwaitingDecisions c = [] \<and> Blocked c = [] \<and> \<not> Runnable c d \<and>
    (\<forall>t. external t \<longrightarrow> isl (apply_transition c d t)) \<and> (\<forall>c'. (run_step d)\<^sup>*\<^sup>* c c' \<longrightarrow> c' = c)"
proof -
  have inv: "Inv d c" by (rule Inv_reachable [OF assms(1,2)])
  have q: "quietOk c" by (rule InvD(9) [OF inv])
  have "isl (apply_transition c d t)" if "external t" for t
    using finished_refuses [OF q assms(3) that, of d] by auto
  moreover have "c' = c" if "(run_step d)\<^sup>*\<^sup>* c c'" for c' by (rule finished_history [OF that inv assms(3)])
  ultimately show ?thesis
    using q assms(3) by (simp add: quietOk_def Runnable_def nextEngineTransition_def nextPlannableTask_def)
qed

theorem finished_run_final_witness:
  "Status rl_done = RunCompleted \<and> \<not> Runnable rl_done reviewLoop \<and>
   isl (apply_transition rl_done reviewLoop (decided ''review'' ''ok'' 0))"
proof -
  have s: "Status rl_done = RunCompleted" "external (decided ''review'' ''ok'' 0)" by code_simp+
  then show ?thesis using finished_run_final [OF reviewLoop_wf rl_done_reachable] by simp
qed

text \<open>
  C8. A doomed run drains: once a node failed or was canceled and the run is not over yet, it waits
  for outstanding commands and for nothing else, so it is over as soon as the last one is observed.
\<close>

theorem doomed_run_drains:
  assumes "wf_definition d" "reachable r d c" "Status c = RunRunning" "doomed c"
  shows "Commands c \<noteq> [] \<and> AwaitingDecisions c = [] \<and> Blocked c = [] \<and> \<not> Runnable c d"
  using drainOk_reachable [OF assms(1,2)] assms(3,4)
  by (simp add: drainOk_def Runnable_def nextEngineTransition_def nextPlannableTask_def)

theorem doomed_run_drains_witness:
  "nodeStatus fr_draining ''b'' = NodeFailed \<and> Commands fr_draining \<noteq> [] \<and> \<not> Runnable fr_draining forkRace"
proof -
  have s: "Status fr_draining = RunRunning" "doomed fr_draining" "nodeStatus fr_draining ''b'' = NodeFailed" by code_simp+
  then show ?thesis using doomed_run_drains [OF forkRace_wf fr_draining_reachable] by simp
qed

section \<open>The driver\<close>

text \<open>
  C9. The driver's transition budget, one transition per node of the definition, is never exhausted:
  on a checkpoint of a run a pass either returns or reports an error of one transition.
\<close>

theorem driver_within_budget:
  assumes "wf_definition d" "reachable r d c"
  shows "AdvanceUntilQuiescent c d \<noteq> Inl ErrTransitionBudgetExhausted"
proof
  assume "AdvanceUntilQuiescent c d = Inl ErrTransitionBudgetExhausted"
  then have "advanceUntilQuiescent c d (transitionBudget d) = Inl ErrTransitionBudgetExhausted"
    by (auto simp: AdvanceUntilQuiescent_def bindR_Inl_iff)
  from advance_error [OF assms(1) Inv_reachable [OF assms] this] show False by (simp add: refusal_def)
qed

theorem driver_within_budget_witness:
  "AdvanceUntilQuiescent rl_created reviewLoop \<noteq> Inl ErrTransitionBudgetExhausted \<and> Runnable rl_created reviewLoop"
  using driver_within_budget [OF reviewLoop_wf rl_created_reachable] by (simp, code_simp)

text \<open>
  C10. A driver pass that plans no command leaves nothing runnable: no engine-owned node can advance
  and no task can be planned until something external arrives.
\<close>

theorem driver_stops_quiescent:
  assumes "AdvanceAndPlan c d = Inr (c', None, changed)"
  shows "\<not> Runnable c' d"
  by (rule quiet_not_runnable [OF assms])

theorem driver_stops_quiescent_witness: "\<not> Runnable rl_done reviewLoop \<and> Runnable rl_approved reviewLoop"
proof -
  have "AdvanceAndPlan rl_approved reviewLoop = Inr (rl_done, None, True)"
    unfolding rl_done_def by (subst drive_step) (code_simp+)
  from driver_stops_quiescent [OF this] have "\<not> Runnable rl_done reviewLoop" .
  moreover have "Runnable rl_approved reviewLoop" by code_simp
  ultimately show ?thesis by blast
qed

text \<open>
  C11. A driver pass that returns a command has made it outstanding: its node is running, its attempt is
  the node's recorded one and higher than the one before the pass, and the run is still running.
\<close>

theorem driver_plans_next_attempt:
  assumes "wf_definition d" "reachable r d c" "AdvanceAndPlan c d = Inr (c', Some x, changed)"
  shows "x \<in> set (Commands c') \<and> nodeStatus c' (cmd_NodeID x) = NodeRunning \<and> cmd_Attempt x = attempts c' (cmd_NodeID x) \<and>
    attempts c (cmd_NodeID x) < cmd_Attempt x \<and> Status c' = RunRunning"
  using planned_command [OF assms(1) Inv_reachable [OF assms(1,2)] assms(3)] by blast

theorem driver_plans_next_attempt_witness:
  "\<exists>x. x \<in> set (Commands rl_planned2) \<and> attempts rl_retry (cmd_NodeID x) < cmd_Attempt x"
proof -
  let ?x = "the (fst (snd (projr (AdvanceAndPlan rl_retry reviewLoop))))"
  have "AdvanceAndPlan rl_retry reviewLoop = Inr (rl_planned2, Some ?x, True)"
    unfolding rl_planned2_def by (subst drive_step) (code_simp+)
  from driver_plans_next_attempt [OF reviewLoop_wf rl_retry_reachable this] show ?thesis by blast
qed

section \<open>Attempts, rounds and joins\<close>

text \<open>C12. Along a run the attempt count of a node never falls.\<close>

theorem attempts_never_fall:
  assumes "wf_definition d" "reachable r d c" "(run_step d)\<^sup>*\<^sup>* c c'"
  shows "attempts c k \<le> attempts c' k"
  by (rule history_attempts [OF Inv_reachable [OF assms(1,2)] assms(3)])

theorem attempts_never_fall_witness:
  "attempts rl_review ''review'' \<le> attempts rl_again ''review'' \<and> attempts rl_again ''review'' = 1"
  using attempts_never_fall [OF reviewLoop_wf rl_review_reachable rl_again_history] by (simp, code_simp)

text \<open>
  C13. Every outstanding command of a run is the request of its node's current attempt, which lies
  between one and the ceiling its retry budget allows.
\<close>

theorem commands_within_budget:
  assumes "wf_definition d" "reachable r d c" "x \<in> set (Commands c)"
  shows "\<exists>i<length (d_nodes d). cmd_NodeID x = n_id (node_at d i) \<and> runsCommand (node_at d i) \<and>
    x = taskCommand c d (node_at d i) (attempts c (cmd_NodeID x)) \<and>
    1 \<le> cmd_Attempt x \<and> cmd_Attempt x \<le> executableAttemptCeiling c d (node_at d i)"
  by (rule command_budget [OF assms(1) Inv_reachable [OF assms(1,2)] assms(3)])

theorem commands_within_budget_witness:
  "\<exists>x\<in>set (Commands rl_planned2). cmd_Attempt x = 2 \<and> cmd_Attempt x \<le> executableAttemptCeiling rl_planned2 reviewLoop (node_at reviewLoop 1)"
proof -
  have x: "hd (Commands rl_planned2) \<in> set (Commands rl_planned2)" "cmd_Attempt (hd (Commands rl_planned2)) = 2"
    "cmd_NodeID (hd (Commands rl_planned2)) = ''work''" by code_simp+
  have "node_at reviewLoop i = node_at reviewLoop 1" if "i < length (d_nodes reviewLoop)" "n_id (node_at reviewLoop i) = ''work''" for i
    using node_id_inj [OF reviewLoop_wf that(1), of 1] that(2) by (simp add: reviewLoop_def indexed_def)
  with commands_within_budget [OF reviewLoop_wf rl_planned2_reachable x(1)] x show ?thesis by metis
qed

text \<open>
  C14. A bounded loop stays within its bound: in every checkpoint of a run the round of a loop is at
  most its authored number of iterations.
\<close>

theorem rounds_bounded:
  assumes "wf_definition d" "reachable r d c" "li < length (d_loops d)"
  shows "0 \<le> iterationsTaken c d (loop_at d li) \<and> iterationsTaken c d (loop_at d li) + 1 \<le> l_maxIterations (loop_at d li)"
  by (rule rounds_bound [OF assms(1) Inv_reachable [OF assms(1,2)] assms(3)])

theorem rounds_bounded_witness:
  "iterationsTaken rl_again reviewLoop (loop_at reviewLoop 0) = 1 \<and> iterationsTaken rl_again reviewLoop (loop_at reviewLoop 0) + 1 \<le> 2"
proof -
  have "0 < length (d_loops reviewLoop)" "l_maxIterations (loop_at reviewLoop 0) = 2"
    "iterationsTaken rl_again reviewLoop (loop_at reviewLoop 0) = 1" by code_simp+
  then show ?thesis using rounds_bounded [OF reviewLoop_wf rl_again_reachable, of 0] by simp
qed

text \<open>
  C15. A first-arrival join has one winner: in every checkpoint of a run at most one incoming edge of
  such a node carries the arrival; the others that arrive are recorded as late.
\<close>

theorem join_any_single_winner:
  assumes "wf_definition d" "reachable r d c" "i < length (d_nodes d)" "n_joinAny (node_at d i)"
    "e \<in> set (n_incoming (node_at d i))" "e' \<in> set (n_incoming (node_at d i))"
    "edgeState c (edge_at d e) = EdgeArrived" "edgeState c (edge_at d e') = EdgeArrived"
  shows "e = e'"
  using joinOk_reachable [OF assms(1,2)] assms(3-8) unfolding joinOk_def by blast

theorem join_any_single_winner_witness:
  "edgeState fw_late (edge_at firstWins 4) = EdgeArrived \<and> edgeState fw_late (edge_at firstWins 3) \<noteq> EdgeArrived \<and>
   nodeStatus fw_late ''left'' = NodeDone"
proof -
  have s: "edgeState fw_late (edge_at firstWins 4) = EdgeArrived" "nodeStatus fw_late ''left'' = NodeDone"
    "4 < length (d_nodes firstWins)" "n_joinAny (node_at firstWins 4)" "(4::nat) \<in> set (n_incoming (node_at firstWins 4))"
    "(3::nat) \<in> set (n_incoming (node_at firstWins 4))" by code_simp+
  then show ?thesis using join_any_single_winner [OF firstWins_wf fw_late_reachable s(3-6)] by auto
qed

text \<open>
  C16. Completing a start node or a fork of a run marks it done and moves other nodes only from pending
  to ready or skipped; attempts, commands, parked branches, ceilings, rounds and the run status stay.
\<close>

theorem settlement_moves_pending_only:
  assumes "wf_definition d" "reachable r d c" "Status c = RunRunning" "i < length (d_nodes d)"
    "nodeStatus c (n_id (node_at d i)) = NodeReady"
    "n_kind (node_at d i) = definitionStart \<or> n_kind (node_at d i) = definitionParallel"
    "completeAndSettle d i arr c = Inr c'"
  shows "nodeStatus c' (n_id (node_at d i)) = NodeDone \<and>
    (\<forall>j<length (d_nodes d). j \<noteq> i \<longrightarrow> nodeStatus c' (n_id (node_at d j)) = nodeStatus c (n_id (node_at d j)) \<or>
       nodeStatus c (n_id (node_at d j)) = NodePending \<and> nodeStatus c' (n_id (node_at d j)) \<in> {NodeReady, NodeSkipped}) \<and>
    Attempts c' = Attempts c \<and> Commands c' = Commands c \<and> Blocked c' = Blocked c \<and>
    AttemptCeilings c' = AttemptCeilings c \<and> Iterations c' = Iterations c \<and> Status c' = Status c"
  by (rule settle_moves [OF assms(1) Inv_reachable [OF assms(1,2)] assms(3-7)])

theorem settlement_moves_pending_only_witness:
  "nodeStatus (projr (completeAndSettle reviewLoop 0 (arrivesAt ''next'') rl_created)) ''work'' = NodeReady \<and>
   Status (projr (completeAndSettle reviewLoop 0 (arrivesAt ''next'') rl_created)) = RunRunning"
proof -
  let ?x = "completeAndSettle reviewLoop 0 (arrivesAt ''next'') rl_created"
  have s: "Status rl_created = RunRunning" "0 < length (d_nodes reviewLoop)" "nodeStatus rl_created (n_id (node_at reviewLoop 0)) = NodeReady"
    "n_kind (node_at reviewLoop 0) = definitionStart" "\<not> isl ?x" "nodeStatus (projr ?x) ''work'' = NodeReady" by code_simp+
  from s(5) have "?x = Inr (projr ?x)" by (cases ?x) auto
  with settlement_moves_pending_only [OF reviewLoop_wf rl_created_reachable s(1-3) disjI1 [OF s(4)]] s show ?thesis by metis
qed

end
