(* ===== verification/Classify.thy ===== *)
theory Classify
  imports Boundary
begin

text \<open>
  The strict classification of sequential runs (\<open>engine/validate.go\<close>, \<open>ClassifyCheckpoint\<close>,
  \<open>classifyCheckpoint\<close>, \<open>deferredOutgoing\<close>): a diagnostic that, on top of the structural checks,
  demands a single live token, settled candidate sets and agreement between the run status and the
  nodes.  A checkpoint it accepts is shown to have that single token.
\<close>

section \<open>The classification\<close>

definition ValidateCheckpoint :: "Checkpoint \<Rightarrow> Definition \<Rightarrow> unit result" where
  "ValidateCheckpoint c d = validateCheckpoint c d"

definition deferredOutgoing :: "Checkpoint \<Rightarrow> Definition \<Rightarrow> definitionNode \<Rightarrow> int" where
  "deferredOutgoing c d node =
     int (length (filter (\<lambda>ei. edgeState c (edge_at d ei) = EdgeUnresolved \<and> deferredExit c d ei) (n_outgoing node)))"

record classification =
  activeIndex :: "nat option"
  doomedIndex :: "nat option"
  doneEndIndex :: "nat option"

definition settledOnce :: "bool \<Rightarrow> edgeCounts \<Rightarrow> bool" where
  "settledOnce entry inc \<longleftrightarrow> entry \<or> \<not> (unresolved inc > 0 \<or> arrived inc \<noteq> 1)"

definition classifyDone ::
    "Checkpoint \<Rightarrow> Definition \<Rightarrow> nat \<Rightarrow> edgeCounts \<Rightarrow> classification \<Rightarrow> classification result" where
  "classifyDone c d index out k =
     (let node = node_at d index; n = int (length (n_outgoing node)) in
      case n_kind node of
        definitionStart \<Rightarrow> if arrived out \<noteq> n then Inl ErrInvalidCheckpoint else Inr k
      | definitionTask \<Rightarrow> if arrived out \<noteq> n then Inl ErrInvalidCheckpoint else Inr k
      | definitionDecision \<Rightarrow>
          if arrived out \<noteq> 1 \<or> notTaken out + deferredOutgoing c d node \<noteq> n - 1 then Inl ErrInvalidCheckpoint else Inr k
      | definitionEnd \<Rightarrow>
          if doneEndIndex k \<noteq> None then Inl ErrInvalidCheckpoint else Inr (k\<lparr>doneEndIndex := Some index\<rparr>)
      | _ \<Rightarrow> Inr k)"

definition classifyNode :: "Checkpoint \<Rightarrow> Definition \<Rightarrow> nat \<Rightarrow> classification \<Rightarrow> classification result" where
  "classifyNode c d index k =
     (let node = node_at d index;
          inc = countDispositions c d (n_incoming node);
          out = countDispositions c d (n_outgoing node);
          status = nodeStatus c (n_id node);
          entry = (index = 0);
          n = int (length (n_outgoing node))
      in case status of
           NodePending \<Rightarrow>
             if entry \<or> unresolved inc = 0 \<or> arrived inc \<noteq> 0 \<or> unresolved out \<noteq> n then Inl ErrInvalidCheckpoint else Inr k
         | NodeReady \<Rightarrow>
             if activeIndex k \<noteq> None \<or> \<not> settledOnce entry inc \<or> unresolved out \<noteq> n then Inl ErrInvalidCheckpoint
             else Inr (k\<lparr>activeIndex := Some index\<rparr>)
         | NodeRunning \<Rightarrow>
             if activeIndex k \<noteq> None \<or> \<not> settledOnce entry inc \<or> unresolved out \<noteq> n \<or> \<not> runsCommand node then Inl ErrInvalidCheckpoint
             else (case FirstCommand c of
                     None \<Rightarrow> Inl ErrInvalidCheckpoint
                   | Some command \<Rightarrow>
                       if cmd_NodeID command \<noteq> n_id node then Inl ErrInvalidCheckpoint else Inr (k\<lparr>activeIndex := Some index\<rparr>))
         | NodeDone \<Rightarrow> if \<not> settledOnce entry inc then Inl ErrInvalidCheckpoint else classifyDone c d index out k
         | NodeSkipped \<Rightarrow>
             if n_incoming node = [] \<or> notTaken inc \<noteq> int (length (n_incoming node)) \<or>
                notTaken out + deferredOutgoing c d node \<noteq> n then Inl ErrInvalidCheckpoint else Inr k
         | NodeFailed \<Rightarrow>
             if doomedIndex k \<noteq> None \<or> \<not> runsCommand node \<or> \<not> settledOnce entry inc \<or> unresolved out \<noteq> n then Inl ErrInvalidCheckpoint
             else Inr (k\<lparr>doomedIndex := Some index\<rparr>)
         | NodeCanceled \<Rightarrow>
             if doomedIndex k \<noteq> None \<or> \<not> runsCommand node \<or> \<not> settledOnce entry inc \<or> unresolved out \<noteq> n then Inl ErrInvalidCheckpoint
             else Inr (k\<lparr>doomedIndex := Some index\<rparr>)
         | NodeBlocked \<Rightarrow>
             if activeIndex k \<noteq> None \<or> n_kind node \<noteq> definitionTask \<or> \<not> settledOnce entry inc \<or> unresolved out \<noteq> n
             then Inl ErrInvalidCheckpoint else Inr (k\<lparr>activeIndex := Some index\<rparr>)
         | NodeOther _ \<Rightarrow> Inl ErrInvalidCheckpoint)"

definition classifyObligation :: "Checkpoint \<Rightarrow> Definition \<Rightarrow> unit result" where
  "classifyObligation c d =
     (case FirstAwaitingDecision c of
        None \<Rightarrow> Inr ()
      | Some ob \<Rightarrow>
          if Status c \<noteq> RunRunning then Inl ErrInvalidCheckpoint
          else (case definitionNodeByID d (do_NodeID ob) of
                  None \<Rightarrow> Inl ErrInvalidCheckpoint
                | Some node \<Rightarrow>
                    if n_kind node \<noteq> definitionDecision \<or> nodeStatus c (do_NodeID ob) \<noteq> NodeReady
                    then Inl ErrInvalidCheckpoint else Inr ()))"

definition classifyRunning :: "Checkpoint \<Rightarrow> Definition \<Rightarrow> classification \<Rightarrow> unit result" where
  "classifyRunning c d k =
     (if doomedIndex k \<noteq> None \<or> doneEndIndex k \<noteq> None then Inl ErrInvalidCheckpoint
      else (case activeIndex k of
         None \<Rightarrow> Inl ErrInvalidCheckpoint
       | Some i \<Rightarrow>
           let active = node_at d i in
           if nodeStatus c (n_id active) = NodeReady \<and> FirstCommand c \<noteq> None then Inl ErrInvalidCheckpoint
           else if awaitsHuman active then
             (case FirstAwaitingDecision c of
                None \<Rightarrow> Inl ErrInvalidCheckpoint
              | Some ob \<Rightarrow> if do_NodeID ob \<noteq> n_id active then Inl ErrInvalidCheckpoint else Inr ())
           else if FirstAwaitingDecision c \<noteq> None then Inl ErrInvalidCheckpoint
           else Inr ()))"

definition classifyTerminal :: "Checkpoint \<Rightarrow> Definition \<Rightarrow> classification \<Rightarrow> unit result" where
  "classifyTerminal c d k =
     (if FirstCommand c \<noteq> None \<or> activeIndex k \<noteq> None then Inl ErrInvalidCheckpoint
      else (case doneEndIndex k of
         Some i \<Rightarrow>
           if doomedIndex k \<noteq> None \<or> n_terminal (node_at d i) \<noteq> Status c then Inl ErrInvalidCheckpoint
           else if \<not> list_all (\<lambda>node. nodeStatus c (n_id node) \<in> {NodeDone, NodeSkipped}) (d_nodes d) then Inl ErrInvalidCheckpoint
           else Inr ()
       | None \<Rightarrow>
           if Status c \<noteq> RunFailed \<and> Status c \<noteq> RunCanceled then Inl ErrInvalidCheckpoint
           else if doomedIndex k = None \<or> doomStatus c \<noteq> Status c then Inl ErrInvalidCheckpoint
           else Inr ()))"

definition classifyCheckpoint :: "Checkpoint \<Rightarrow> Definition \<Rightarrow> unit result" where
  "classifyCheckpoint c d =
     bindR (foldR (classifyNode c d) [0 ..< length (d_nodes d)]
              \<lparr>activeIndex = None, doomedIndex = None, doneEndIndex = None\<rparr>) (\<lambda>k.
       bindR (classifyObligation c d) (\<lambda>_.
         case Status c of
           RunRunning \<Rightarrow> classifyRunning c d k
         | RunCompleted \<Rightarrow> classifyTerminal c d k
         | RunCanceled \<Rightarrow> classifyTerminal c d k
         | RunFailed \<Rightarrow> classifyTerminal c d k
         | RunOther _ \<Rightarrow> Inl ErrInvalidCheckpoint))"

definition ClassifyCheckpoint :: "Checkpoint \<Rightarrow> Definition \<Rightarrow> unit result" where
  "ClassifyCheckpoint c d = bindR (validateCheckpoint c d) (\<lambda>_. classifyCheckpoint c d)"

section \<open>The single token\<close>

definition activeNode :: "Checkpoint \<Rightarrow> Definition \<Rightarrow> nat \<Rightarrow> bool" where
  "activeNode c d i \<longleftrightarrow> nodeStatus c (n_id (node_at d i)) \<in> {NodeReady, NodeRunning, NodeBlocked}"

definition doomedNode :: "Checkpoint \<Rightarrow> Definition \<Rightarrow> nat \<Rightarrow> bool" where
  "doomedNode c d i \<longleftrightarrow> nodeStatus c (n_id (node_at d i)) \<in> {NodeFailed, NodeCanceled}"

definition doneEnd :: "Checkpoint \<Rightarrow> Definition \<Rightarrow> nat \<Rightarrow> bool" where
  "doneEnd c d i \<longleftrightarrow> nodeStatus c (n_id (node_at d i)) = NodeDone \<and> n_kind (node_at d i) = definitionEnd"

definition agrees :: "(nat \<Rightarrow> bool) \<Rightarrow> nat set \<Rightarrow> nat option \<Rightarrow> bool" where
  "agrees P I x \<longleftrightarrow> {i \<in> I. P i} = set_option x"

lemma classifyDone_result:
  "classifyDone c d i out k = Inr k' \<Longrightarrow>
   (if n_kind (node_at d i) = definitionEnd then doneEndIndex k = None \<and> k' = k\<lparr>doneEndIndex := Some i\<rparr> else k' = k)"
  by (cases "n_kind (node_at d i)") (auto simp: classifyDone_def Let_def split: if_splits)

lemma classifyNode_result:
  assumes k': "classifyNode c d i k = Inr k'"
  shows "activeIndex k' = (if activeNode c d i then Some i else activeIndex k) \<and> (activeNode c d i \<longrightarrow> activeIndex k = None)"
    "doomedIndex k' = (if doomedNode c d i then Some i else doomedIndex k) \<and> (doomedNode c d i \<longrightarrow> doomedIndex k = None)"
    "doneEndIndex k' = (if doneEnd c d i then Some i else doneEndIndex k) \<and> (doneEnd c d i \<longrightarrow> doneEndIndex k = None)"
proof -
  note defs = activeNode_def doomedNode_def doneEnd_def
  show "activeIndex k' = (if activeNode c d i then Some i else activeIndex k) \<and> (activeNode c d i \<longrightarrow> activeIndex k = None)"
    "doomedIndex k' = (if doomedNode c d i then Some i else doomedIndex k) \<and> (doomedNode c d i \<longrightarrow> doomedIndex k = None)"
    "doneEndIndex k' = (if doneEnd c d i then Some i else doneEndIndex k) \<and> (doneEnd c d i \<longrightarrow> doneEndIndex k = None)"
    using k' classifyDone_result [of c d i _ k k']
    by (cases "nodeStatus c (n_id (node_at d i))";
        force simp: classifyNode_def Let_def defs split: if_splits option.splits)+
qed

lemma agrees_insert:
  "agrees P I x \<Longrightarrow> y = (if P i then Some i else x) \<and> (P i \<longrightarrow> x = None) \<Longrightarrow> agrees P (insert i I) y"
  by (auto simp: agrees_def split: if_splits)

lemma classify_fold:
  assumes "foldR (classifyNode c d) [m ..< n] k = Inr k'" "m \<le> n" "agrees (activeNode c d) {..<m} (activeIndex k)"
    "agrees (doomedNode c d) {..<m} (doomedIndex k)" "agrees (doneEnd c d) {..<m} (doneEndIndex k)"
  shows "agrees (activeNode c d) {..<n} (activeIndex k') \<and> agrees (doomedNode c d) {..<n} (doomedIndex k') \<and>
    agrees (doneEnd c d) {..<n} (doneEndIndex k')"
  using assms
proof (induction "n - m" arbitrary: m k)
  case 0
  then show ?case by simp
next
  case (Suc x)
  then have "[m ..< n] = m # [Suc m ..< n]" by (simp add: upt_conv_Cons)
  with Suc.prems(1) obtain k1 where k1: "classifyNode c d m k = Inr k1" "foldR (classifyNode c d) [Suc m ..< n] k1 = Inr k'"
    by (auto simp: bindR_Inr_iff)
  have "insert m {..<m} = {..<Suc m}" by auto
  moreover note agrees_insert [OF Suc.prems(3) classifyNode_result(1) [OF k1(1)]]
    agrees_insert [OF Suc.prems(4) classifyNode_result(2) [OF k1(1)]]
    agrees_insert [OF Suc.prems(5) classifyNode_result(3) [OF k1(1)]]
  ultimately show ?case using Suc.hyps(1) [of "Suc m" k1] Suc.hyps(2) k1(2) by simp
qed

lemma classified_counts:
  assumes "classifyCheckpoint c d = Inr ()"
  obtains k where "agrees (activeNode c d) {..<length (d_nodes d)} (activeIndex k)"
    "agrees (doomedNode c d) {..<length (d_nodes d)} (doomedIndex k)"
    "agrees (doneEnd c d) {..<length (d_nodes d)} (doneEndIndex k)"
    "Status c = RunRunning \<Longrightarrow> classifyRunning c d k = Inr ()"
    "Status c \<noteq> RunRunning \<Longrightarrow> classifyTerminal c d k = Inr ()"
proof -
  from assms obtain k where k: "foldR (classifyNode c d) [0 ..< length (d_nodes d)]
      \<lparr>activeIndex = None, doomedIndex = None, doneEndIndex = None\<rparr> = Inr k"
    and st: "(case Status c of RunRunning \<Rightarrow> classifyRunning c d k | RunCompleted \<Rightarrow> classifyTerminal c d k
         | RunCanceled \<Rightarrow> classifyTerminal c d k | RunFailed \<Rightarrow> classifyTerminal c d k
         | RunOther _ \<Rightarrow> Inl ErrInvalidCheckpoint) = Inr ()"
    by (auto simp: classifyCheckpoint_def bindR_Inr_iff)
  have "agrees P {..<0} None" for P by (simp add: agrees_def)
  with classify_fold [OF k] st show thesis
    by (intro that [of k]) (auto split: RunStatus.splits)
qed

lemma agrees_unique: "agrees P I (Some i) \<Longrightarrow> \<exists>!i. i \<in> I \<and> P i"
  by (rule ex1I [of _ i]) (auto simp: agrees_def set_eq_iff)

lemma agrees_none: "agrees P I None \<Longrightarrow> i \<in> I \<Longrightarrow> \<not> P i"
  by (auto simp: agrees_def)

end
