(* ===== verification/Refusals.thy ===== *)
theory Refusals
  imports Sample_Steps Classify
begin

text \<open>
  When the reducer refuses a human decision or an operator's resolution, and what an accepted
  classification says about the tokens of a checkpoint.
\<close>

section \<open>Errors of a decision\<close>

lemma reopenNode_error: "reopenNode d i c = Inl e \<Longrightarrow> refusal e"
  by (auto simp: reopenNode_def reopenWindow_def openLoopAttemptWindow_def reopenEdge_def Let_def bindR_Inl_iff refusal_def
      dest!: foldR_error split: if_splits)

lemma iterateLoop_error: "iterateLoop d li c = Inl e \<Longrightarrow> refusal e"
  by (auto simp: iterateLoop_def Let_def bindR_Inl_iff refusal_def [of ErrInvalidTransition] dest!: foldR_error reopenNode_error split: if_splits)

lemma stage_error: "advanceStage d i c = Inl e \<Longrightarrow> refusal e" "resetPlanApproval d i c = Inl e \<Longrightarrow> refusal e"
  by (auto simp: advanceStage_def resetPlanApproval_def Let_def refusal_def split: option.splits if_splits)

lemma settleVerdict_error:
  "verdictAllowed (node_at d i) v \<Longrightarrow> settleVerdict d i v c = Inl e \<Longrightarrow> refusal e \<or> e = ErrLoopExhausted"
  by (auto simp: settleVerdict_def routeDecision_def Let_def bindR_Inl_iff dest: completeAndSettle_error iterateLoop_error
      split: option.splits if_splits route.splits)

text \<open>A decision that waits, with the attempt it requires: the attempt of its own node or of the gated plan.\<close>

lemma waiting_decision:
  assumes wf: "wf_definition d" and c: "reachable r d c" and h: "hasObligation c nid"
  obtains i where "i < n_nodes d" "node_id d i = nid" "definitionNodeByID d nid = Some (node_at d i)"
    "apply_transition c d (decided nid v k) = decideNode d i \<lparr>dec_NodeID = nid, dec_Verdict = v, dec_Attempt = k\<rparr> c"
    "\<And>a. ApprovalAttempt d c nid = Some a \<Longrightarrow> 1 \<le> a"
proof -
  note inv = Inv_reachable [OF wf c]
  from h have k: "nid \<in> awaits.keys c" by (simp add: hasObligation_keys)
  then obtain i where i: "i < n_nodes d" "nid = node_id d i" using InvD(4) [OF inv] by (auto simp: awaitsOk_def)
  have byid: "definitionNodeByID d nid = Some (node_at d i)" using wf i by simp
  have "st d c i = NodeReady" using InvD(6) [OF inv i(1)] k i(2) by (simp add: nodeOk_def)
  then have "1 \<le> a" if "ApprovalAttempt d c nid = Some a" for a
    using that approval_attempted [OF wf inv i(1)] byid by (auto simp: ApprovalAttempt_def)
  moreover have "apply_transition c d (decided nid v k) = decideNode d i \<lparr>dec_NodeID = nid, dec_Verdict = v, dec_Attempt = k\<rparr> c"
    using wf_nonempty [OF wf] h index_node [OF wf i(1)] i(2)
    by (simp add: apply_transition_def decided_def apply_decisionRecorded_def mget_def)
  ultimately show thesis using that i byid by blast
qed

lemma waiting_outcome:
  assumes wf: "wf_definition d" and c: "reachable r d c" and h: "hasObligation c nid"
  obtains node where "definitionNodeByID d nid = Some node"
    "k \<noteq> RequiredDecisionAttempt d c nid \<Longrightarrow> apply_transition c d (decided nid v k) = Inl ErrStaleDecision"
    "k = RequiredDecisionAttempt d c nid \<Longrightarrow> v \<notin> set (n_verdicts node) \<Longrightarrow> apply_transition c d (decided nid v k) = Inl ErrInvalidDecisionVerdict"
    "\<And>e. k = RequiredDecisionAttempt d c nid \<Longrightarrow> v \<in> set (n_verdicts node) \<Longrightarrow> apply_transition c d (decided nid v k) = Inl e \<Longrightarrow>
      refusal e \<or> e = ErrLoopExhausted"
proof -
  obtain i where i: "node_id d i = nid" "definitionNodeByID d nid = Some (node_at d i)"
    and step: "apply_transition c d (decided nid v k) = decideNode d i \<lparr>dec_NodeID = nid, dec_Verdict = v, dec_Attempt = k\<rparr> c"
    and a: "\<And>a. ApprovalAttempt d c nid = Some a \<Longrightarrow> 1 \<le> a" by (rule waiting_decision [OF wf c h, of v k]) blast
  have body: "decideNode d i \<lparr>dec_NodeID = nid, dec_Verdict = v, dec_Attempt = k\<rparr> c =
      (if k \<noteq> RequiredDecisionAttempt d c nid then Inl ErrStaleDecision
       else if v \<notin> set (n_verdicts (node_at d i)) then Inl ErrInvalidDecisionVerdict
       else if ApprovalAttempt d c nid \<noteq> None then
         (if v = ''approve'' then advanceStage d i (removeObligation nid c)
          else if v = ''rework'' then resetPlanApproval d i (removeObligation nid c) else Inl ErrInvalidTransition)
       else settleVerdict d i v (removeObligation nid c))"
    using a by (cases "ApprovalAttempt d c nid")
      (simp_all add: decideNode_def Let_def i(1) RequiredDecisionAttempt_def verdictAllowed_def)
  have "refusal e \<or> e = ErrLoopExhausted"
    if "k = RequiredDecisionAttempt d c nid" "v \<in> set (n_verdicts (node_at d i))" "apply_transition c d (decided nid v k) = Inl e" for e
    using that(3) that(1,2) settleVerdict_error [of d i v] stage_error [of d i] unfolding step body
    by (simp add: verdictAllowed_def refusal_def [of ErrInvalidTransition] split: if_splits)
  then show thesis using that [OF i(2)] unfolding step body by simp
qed

lemma decision_errors:
  assumes wf: "wf_definition d" and c: "reachable r d c"
  shows "(apply_transition c d (decided nid v k) = Inl ErrStaleDecision \<longleftrightarrow> \<not> hasObligation c nid \<or> k \<noteq> RequiredDecisionAttempt d c nid) \<and>
    (apply_transition c d (decided nid v k) = Inl ErrInvalidDecisionVerdict \<longleftrightarrow>
      hasObligation c nid \<and> k = RequiredDecisionAttempt d c nid \<and> (\<forall>node. definitionNodeByID d nid = Some node \<longrightarrow> v \<notin> set (n_verdicts node)))"
proof (cases "hasObligation c nid")
  case False
  then show ?thesis using wf_nonempty [OF wf] by (simp add: apply_transition_def decided_def apply_decisionRecorded_def)
next
  case True
  from waiting_outcome [OF wf c True, of k v] obtain node where n: "definitionNodeByID d nid = Some node"
    "k \<noteq> RequiredDecisionAttempt d c nid \<Longrightarrow> apply_transition c d (decided nid v k) = Inl ErrStaleDecision"
    "k = RequiredDecisionAttempt d c nid \<Longrightarrow> v \<notin> set (n_verdicts node) \<Longrightarrow> apply_transition c d (decided nid v k) = Inl ErrInvalidDecisionVerdict"
    "\<And>e. k = RequiredDecisionAttempt d c nid \<Longrightarrow> v \<in> set (n_verdicts node) \<Longrightarrow> apply_transition c d (decided nid v k) = Inl e \<Longrightarrow>
      refusal e \<or> e = ErrLoopExhausted" by blast
  consider "k \<noteq> RequiredDecisionAttempt d c nid" | "k = RequiredDecisionAttempt d c nid" "v \<notin> set (n_verdicts node)"
    | "k = RequiredDecisionAttempt d c nid" "v \<in> set (n_verdicts node)" by blast
  then show ?thesis
  proof cases
    case 1
    then show ?thesis using n(2) True by simp
  next
    case 2
    then show ?thesis using n(1,3) True by simp
  next
    case 3
    then show ?thesis using n(1) n(4) [OF 3] True by (auto simp: refusal_def)
  qed
qed

section \<open>Resolutions and tokens\<close>

lemma stale_resolution:
  assumes wf: "wf_definition d" and inv: "Inv d c"
    and stale: "Status c \<noteq> RunRunning \<or> \<not> hasBlocked c nid \<or> k \<noteq> attempts c nid"
  shows "apply_transition c d (resolved nid k a) = Inl ErrStaleResolution"
proof (cases "Status c = RunRunning \<and> hasBlocked c nid")
  case True
  then have "nid \<in> parked.keys c" by (simp add: hasBlocked_keys)
  with InvD(5) [OF inv] obtain i where i: "i < n_nodes d" "nid = node_id d i" by (auto simp: parkedOk_def)
  have "st d c i = NodeBlocked" using InvD(6) [OF inv i(1)] \<open>nid \<in> parked.keys c\<close> i(2) by (simp add: nodeOk_def)
  with True stale i wf wf_nonempty [OF wf] show ?thesis
    by (simp add: apply_transition_def resolved_def apply_blockedResolved_def)
qed (use wf_nonempty [OF wf] in \<open>auto simp: apply_transition_def resolved_def apply_blockedResolved_def\<close>)

lemma classified_token:
  assumes "classifyCheckpoint c d = Inr ()"
  shows "(Status c = RunRunning \<longrightarrow> (\<exists>!i. i < length (d_nodes d) \<and> activeNode c d i) \<and>
      (\<forall>i<length (d_nodes d). \<not> doomedNode c d i \<and> \<not> doneEnd c d i)) \<and>
    (Status c \<noteq> RunRunning \<longrightarrow> (\<forall>i<length (d_nodes d). \<not> activeNode c d i))"
proof -
  from classified_counts [OF assms] obtain k where act: "agrees (activeNode c d) {..<length (d_nodes d)} (activeIndex k)"
    and doom: "agrees (doomedNode c d) {..<length (d_nodes d)} (doomedIndex k)"
    and fin: "agrees (doneEnd c d) {..<length (d_nodes d)} (doneEndIndex k)"
    and run: "Status c = RunRunning \<Longrightarrow> classifyRunning c d k = Inr ()"
    and over: "Status c \<noteq> RunRunning \<Longrightarrow> classifyTerminal c d k = Inr ()" by blast
  have "(\<exists>!i. i < length (d_nodes d) \<and> activeNode c d i) \<and> (\<forall>i<length (d_nodes d). \<not> doomedNode c d i \<and> \<not> doneEnd c d i)"
    if "Status c = RunRunning"
  proof -
    from run [OF that] obtain i where "doomedIndex k = None" "doneEndIndex k = None" "activeIndex k = Some i"
      by (auto simp: classifyRunning_def split: if_splits option.splits)
    with act doom fin show ?thesis using agrees_unique agrees_none by (metis lessThan_iff)
  qed
  moreover have "\<not> activeNode c d i" if "Status c \<noteq> RunRunning" "i < length (d_nodes d)" for i
  proof -
    from over [OF that(1)] have "activeIndex k = None" by (auto simp: classifyTerminal_def split: if_splits)
    with act that(2) show ?thesis using agrees_none [of "activeNode c d" "{..<length (d_nodes d)}" i] by simp
  qed
  ultimately show ?thesis by blast
qed

end
