(* ===== verification/Template_Types.thy ===== *)
theory Template_Types
  imports Process_Types
begin

text \<open>
  The authored template (\<open>model/types.go\<close>, \<open>model/next.go\<close>, the types of \<open>model/subprocess.go\<close>
  and \<open>model/loops.go\<close>, \<open>model/diagnostics.go\<close>).  A node may hold a subprocess, whose body is a
  template again, so the three types are mutually recursive.  The name, description and doc of a struct
  are one record here.  A node's metadata, the coordinates of a laid out node and the label pin of a laid out
  edge are read by no function here and are left out.  A declared default is kept as the text
  \<open>formatParamDefault\<close> renders it to, which is the only way it is used.
\<close>

section \<open>Enumerations\<close>

datatype NodeType =
    NodeTypeTask | NodeTypeDecision | NodeTypeWait | NodeTypeStart | NodeTypeEnd
  | NodeTypeParallel | NodeTypeSubprocess | NodeTypeOther string

datatype JoinPolicy = JoinAll | JoinAny | JoinOther string

datatype PerformerKind = PerformerHuman | PerformerAgent | PerformerProgram | PerformerOther string

datatype Severity = SeverityError | SeverityWarning

section \<open>Slots, steps and parameters\<close>

record Prose =
  tx_Name :: string
  tx_Description :: string
  tx_Doc :: string

definition noProse :: Prose where
  "noProse = \<lparr>tx_Name = [], tx_Description = [], tx_Doc = []\<rparr>"

record PerformerFallback =
  fb_Action :: string
  fb_Profile :: string

record ContactSchedule =
  cs_Cadence :: string
  cs_Budget :: int
  cs_EscalationTarget :: string

record Performer =
  p_Kind :: PerformerKind
  p_Profile :: string
  p_Prompt :: string
  p_Ask :: string
  p_Choices :: "string list"
  p_Assignee :: string
  p_Role :: string
  p_Anyone :: bool
  p_Fallback :: "PerformerFallback option"
  p_ChoiceOutcomes :: "(string, string) fmap"
  p_Spawn :: string
  p_Model :: string
  p_Effort :: string
  p_Run :: string
  p_Args :: "string list"
  p_Timeout :: string
  p_Contact :: "ContactSchedule option"

record RetryPolicy =
  rp_MaxAttempts :: int
  rp_Backoff :: string
  rp_OnFail :: string

record Step =
  sp_ID :: string
  sp_Performer :: Performer
  sp_Approval :: string
  sp_ApprovalRetry :: "RetryPolicy option"
  sp_Retry :: "RetryPolicy option"
  sp_Prose :: Prose

record Param =
  pm_Type :: string
  pm_Required :: "bool option"
  pm_Default :: "string option"
  pm_Prose :: Prose

definition zeroParam :: Param where
  "zeroParam = \<lparr>pm_Type = [], pm_Required = None, pm_Default = None, pm_Prose = noProse\<rparr>"

record LoopBound =
  lb_MaxIterations :: int
  lb_OnExhausted :: string

record WaitConfig =
  wc_Duration :: string
  wc_Until :: string
  wc_Signal :: string

text \<open>The layout names nodes, and edges by source and outcome.\<close>

record Layout =
  ly_Direction :: string
  ly_Nodes :: "string fset"
  ly_Edges :: "(string, string fset) fmap"

type_synonym Next = "(string, string) fmap"

section \<open>Nodes, subprocesses and templates\<close>

datatype Node = Node
    (Type: NodeType) (Join: JoinPolicy) (NodePerformer: "Performer option")
    (Plan: "Step option") (Checks: "Step list") (Review: "Step option")
    (Retry: "RetryPolicy option") (Wait: "WaitConfig option")
    (NextOf: Next) (LoopBounds: "(string, LoopBound) fmap")
    (Result: string) (Captures: "string list") (SubprocessOf: "Subprocess option")
    (NodeProse: Prose)
and Subprocess = Subprocess
    (TemplateRef: string) (PinnedVersion: string) (SubParams: "(string, Param) fmap")
    (SubStart: string) (SubNodes: "(string, Node) fmap")
    (Inputs: "(string, string) fmap") (Outputs: "(string, string) fmap")
    (Resolved: "Template option")
and Template = Template
    (APIVersion: string) (TemplateKind: string) (TemplateID: string)
    (Params: "(string, Param) fmap") (TemplateFallback: "PerformerFallback option")
    (Start: string) (TemplateNodes: "(string, Node) fmap")
    (TemplateProse: Prose) (LayoutOf: "Layout option")

record Edge =
  ed_From :: string
  ed_Outcome :: string
  ed_To :: string

record Diagnostic =
  dg_Severity :: Severity
  dg_Code :: string
  dg_Path :: string
  dg_Message :: string

type_synonym Diagnostics = "Diagnostic list"

definition zeroNode :: Node where
  "zeroNode = Node (NodeTypeOther []) (JoinOther []) None None [] None None None fmempty fmempty [] [] None noProse"

text \<open>The reads \<open>tmpl.Nodes[id]\<close> and the keys of a map in order.\<close>

definition node_of :: "Template \<Rightarrow> string \<Rightarrow> Node" where
  "node_of t nid = mget zeroNode (TemplateNodes t) nid"

definition sortedKeys :: "(string, 'v) fmap \<Rightarrow> string list" where
  "sortedKeys m = sorted_list_of_fset (fmdom m)"

lemma sortedKeys_facts [simp]:
  "set (sortedKeys m) = fset (fmdom m)" "sorted (sortedKeys m)" "distinct (sortedKeys m)"
  by (simp_all add: sortedKeys_def sorted_list_of_fset.rep_eq)

lemma sortedKeys_length [simp]: "length (sortedKeys m) = mlen m"
  by (simp add: sortedKeys_def mlen_def sorted_list_of_fset.rep_eq fcard.rep_eq)

section \<open>Diagnostics\<close>

definition diagError :: "string \<Rightarrow> string \<Rightarrow> string \<Rightarrow> Diagnostic" where
  "diagError code path message =
     \<lparr>dg_Severity = SeverityError, dg_Code = code, dg_Path = path, dg_Message = message\<rparr>"

definition diagWarning :: "string \<Rightarrow> string \<Rightarrow> string \<Rightarrow> Diagnostic" where
  "diagWarning code path message =
     \<lparr>dg_Severity = SeverityWarning, dg_Code = code, dg_Path = path, dg_Message = message\<rparr>"

definition HasErrors :: "Diagnostics \<Rightarrow> bool" where
  "HasErrors ds \<longleftrightarrow> list_ex (\<lambda>d. dg_Severity d = SeverityError) ds"

definition withSeverity :: "Severity \<Rightarrow> Diagnostics \<Rightarrow> Diagnostics" where
  "withSeverity s ds = filter (\<lambda>d. dg_Severity d = s) ds"

definition Errors :: "Diagnostics \<Rightarrow> Diagnostics" where
  "Errors = withSeverity SeverityError"

definition Warnings :: "Diagnostics \<Rightarrow> Diagnostics" where
  "Warnings = withSeverity SeverityWarning"

definition HasSourceFidelityError :: "Diagnostics \<Rightarrow> bool" where
  "HasSourceFidelityError ds \<longleftrightarrow>
     list_ex (\<lambda>d. dg_Severity d = SeverityError \<and>
       dg_Code d \<in> {''unknown_field'', ''duplicate_key'', ''merge_key_unsupported''}) ds"

lemma Errors_empty_iff: "Errors ds = [] \<longleftrightarrow> \<not> HasErrors ds"
  by (auto simp: Errors_def withSeverity_def HasErrors_def filter_empty_conv list_ex_iff)

section \<open>Subprocess bodies\<close>

text \<open>How deep subprocess bodies nest, inline or resolved: the measure of the recursive walks.\<close>

primrec nodeDepth :: "Node \<Rightarrow> nat" and subDepth :: "Subprocess \<Rightarrow> nat" and tmplDepth :: "Template \<Rightarrow> nat" where
  "nodeDepth (Node ty jn pf pl ch rv rt wt nx lb rs cp s px) =
     (case map_option subDepth s of None \<Rightarrow> 0 | Some k \<Rightarrow> Suc k)"
| "subDepth (Subprocess tr v ps st ns ins outs rs) =
     Suc (max (Max (fset (finsert 0 (fmran (fmmap nodeDepth ns)))))
              (case map_option tmplDepth rs of None \<Rightarrow> 0 | Some k \<Rightarrow> k))"
| "tmplDepth (Template av k i ps fb st ns px ly) = Suc (Max (fset (finsert 0 (fmran (fmmap nodeDepth ns)))))"

definition IsInline :: "Subprocess \<Rightarrow> bool" where
  "IsInline s \<longleftrightarrow> SubStart s \<noteq> [] \<or> SubNodes s \<noteq> fmempty \<or> SubParams s \<noteq> fmempty"

definition Body :: "Subprocess option \<Rightarrow> Template option" where
  "Body sp =
     (case sp of
        None \<Rightarrow> None
      | Some s \<Rightarrow>
          if IsInline s
          then Some (Template ''tclaude.dev/v1alpha1'' ''ProcessTemplate'' [] (SubParams s) None
                       (SubStart s) (SubNodes s) noProse None)
          else Resolved s)"

definition OutputOutcome :: "Subprocess option \<Rightarrow> string \<Rightarrow> Next \<Rightarrow> string option" where
  "OutputOutcome sp endNodeID parentNext =
     (case sp of
        None \<Rightarrow> None
      | Some s \<Rightarrow>
          (case fmlookup (Outputs s) endNodeID of
             Some oc \<Rightarrow> Some oc
           | None \<Rightarrow> (case sortedKeys parentNext of [oc] \<Rightarrow> Some oc | _ \<Rightarrow> None)))"

definition SubprocessChildID :: "string \<Rightarrow> string \<Rightarrow> string" where
  "SubprocessChildID sub inner = sub @ ''/'' @ inner"

lemma node_of_depth:
  assumes "nid |\<in>| fmdom (TemplateNodes t)"
  shows "nodeDepth (node_of t nid) < tmplDepth t"
proof -
  from assms obtain n where n: "fmlookup (TemplateNodes t) nid = Some n" by (auto simp: fmlookup_dom_iff)
  then have "nodeDepth n \<in> fset (finsert 0 (fmran (fmmap nodeDepth (TemplateNodes t))))"
    by (auto intro!: fmranI [of _ nid])
  then have "nodeDepth n \<le> Max (fset (finsert 0 (fmran (fmmap nodeDepth (TemplateNodes t)))))"
    by (intro Max_ge) simp_all
  with n show ?thesis by (cases t) (simp add: node_of_def mget_def)
qed

lemma Body_depth:
  assumes "Body (SubprocessOf n) = Some b"
  shows "tmplDepth b \<le> nodeDepth n"
proof (cases "SubprocessOf n")
  case None
  with assms show ?thesis by (simp add: Body_def)
next
  case (Some s)
  then have n: "nodeDepth n = Suc (subDepth s)" by (cases n) simp
  let ?ns = "Max (fset (finsert 0 (fmran (fmmap nodeDepth (SubNodes s)))))"
  have s: "subDepth s = Suc (max ?ns (case Resolved s of None \<Rightarrow> 0 | Some t \<Rightarrow> tmplDepth t))"
    by (cases s) (simp split: option.splits)
  have "tmplDepth b = Suc ?ns \<or> Resolved s = Some b"
    using assms Some by (auto simp: Body_def split: if_splits)
  then show ?thesis
  proof
    assume "tmplDepth b = Suc ?ns"
    with n s show ?thesis by (simp only: le_SucI max.cobounded1 Suc_le_mono)
  next
    assume "Resolved s = Some b"
    with n s show ?thesis by (simp del: Max_le_iff add: le_SucI)
  qed
qed

end
