(* ===== verification/Template_Text.thy ===== *)
theory Template_Text
  imports Template_Types
begin

text \<open>
  Text of a template: Go's \<open>strings.TrimSpace\<close> and \<open>strings.ToLower\<close> as far as the model package uses
  them, the parameter references \<open>{{ params.x }}\<close> (\<open>model/validate.go\<close>, \<open>paramRefPattern\<close>;
  \<open>model/interpolate.go\<close>), and the binding of a subprocess body's inputs (\<open>model/subprocess.go\<close>).
  Strings are byte lists.
\<close>

section \<open>White space and case\<close>

text \<open>The UTF-8 encodings of the runes Go's \<open>unicode.IsSpace\<close> accepts.\<close>

definition spaceRunes :: "string list" where
  "spaceRunes =
     map (\<lambda>n. [char_of n]) [9, 10, 11, 12, 13, 32 :: nat] @
     map (map char_of) ([[194, 133], [194, 160], [225, 154, 128], [226, 128, 168], [226, 128, 169],
        [226, 128, 175], [226, 129, 159], [227, 128, 128]] :: nat list list) @
     map (\<lambda>n. map char_of [226, 128, n]) [128 ..< 139 :: nat]"

definition dropPrefix :: "string \<Rightarrow> string \<Rightarrow> string option" where
  "dropPrefix p s = (if take (length p) s = p then Some (drop (length p) s) else None)"

text \<open>The rest after one leading white space rune.\<close>

fun dropRune :: "string list \<Rightarrow> string \<Rightarrow> string option" where
  "dropRune [] s = None"
| "dropRune (r # rs) s = (case dropPrefix r s of Some s' \<Rightarrow> Some s' | None \<Rightarrow> dropRune rs s)"

lemma dropPrefix_Some: "dropPrefix p s = Some r \<longleftrightarrow> s = p @ r"
proof
  assume "dropPrefix p s = Some r"
  then show "s = p @ r" by (auto simp: dropPrefix_def split: if_splits) (metis append_take_drop_id)
qed (simp add: dropPrefix_def)

lemma dropRune_shorter:
  "dropRune rs s = Some s' \<Longrightarrow> [] \<notin> set rs \<Longrightarrow> length s' < length s"
  by (induction rs) (auto simp: dropPrefix_Some split: option.splits)

lemma spaceRunes_nonempty: "[] \<notin> set spaceRunes" "[] \<notin> set (map rev spaceRunes)"
  by (auto simp: spaceRunes_def)

function trimLeft :: "string list \<Rightarrow> string \<Rightarrow> string" where
  "trimLeft rs s =
     (if [] \<in> set rs then s else (case dropRune rs s of None \<Rightarrow> s | Some s' \<Rightarrow> trimLeft rs s'))"
  by pat_completeness auto
termination
  by (relation "measure (\<lambda>(rs, s). length s)") (auto dest: dropRune_shorter)

declare trimLeft.simps [simp del]

definition TrimSpace :: "string \<Rightarrow> string" where
  "TrimSpace s = rev (trimLeft (map rev spaceRunes) (rev (trimLeft spaceRunes s)))"

definition isBlank :: "string \<Rightarrow> bool" where
  "isBlank s \<longleftrightarrow> TrimSpace s = []"

text \<open>
  Lower case of ASCII letters and of the two other runes whose lower case is ASCII, the dotted
  capital I and the Kelvin sign; the result is only ever compared with ASCII words.
\<close>

fun ToLower :: "string \<Rightarrow> string" where
  "ToLower [] = []"
| "ToLower (c # s) =
     (case dropPrefix (map char_of [196, 176 :: nat]) (c # s) of
        Some r \<Rightarrow> CHR ''i'' # ToLower (drop 1 s)
      | None \<Rightarrow>
          (case dropPrefix (map char_of [226, 132, 170 :: nat]) (c # s) of
             Some r \<Rightarrow> CHR ''k'' # ToLower (drop 2 s)
           | None \<Rightarrow>
               (let n = of_char c :: nat in if 65 \<le> n \<and> n \<le> 90 then char_of (n + 32) else c) # ToLower s))"

section \<open>Parameter references\<close>

definition nameStart :: "char \<Rightarrow> bool" where
  "nameStart c \<longleftrightarrow> (let n = of_char c :: nat in 65 \<le> n \<and> n \<le> 90 \<or> 97 \<le> n \<and> n \<le> 122 \<or> n = 95)"

definition nameChar :: "char \<Rightarrow> bool" where
  "nameChar c \<longleftrightarrow> nameStart c \<or> (let n = of_char c :: nat in 48 \<le> n \<and> n \<le> 57)"

definition patternSpace :: "char \<Rightarrow> bool" where
  "patternSpace c \<longleftrightarrow> (of_char c :: nat) \<in> {9, 10, 12, 13, 32}"

text \<open>The pattern at the head of a text: the referenced name and the text after the reference.\<close>

definition refAt :: "string \<Rightarrow> (string \<times> string) option" where
  "refAt s =
     (case dropPrefix ''{{'' s of None \<Rightarrow> None
      | Some s1 \<Rightarrow>
     (case dropPrefix ''params.'' (dropWhile patternSpace s1) of None \<Rightarrow> None
      | Some s2 \<Rightarrow>
     (let name = takeWhile nameChar s2 in
      if name = [] \<or> \<not> nameStart (hd name) then None
      else (case dropPrefix ''}}'' (dropWhile patternSpace (dropWhile nameChar s2)) of
              None \<Rightarrow> None
            | Some rest \<Rightarrow> Some (name, rest)))))"

lemma refAt_shorter:
  assumes "refAt s = Some (name, rest)"
  shows "length rest < length s"
proof -
  from assms obtain s1 s2 where s1: "dropPrefix ''{{'' s = Some s1"
    and s2: "dropPrefix ''params.'' (dropWhile patternSpace s1) = Some s2"
    and r: "dropPrefix ''}}'' (dropWhile patternSpace (dropWhile nameChar s2)) = Some rest"
    by (auto simp: refAt_def Let_def split: option.splits if_splits)
  have "length s1 < length s" "length s2 \<le> length (dropWhile patternSpace s1)"
    "length rest \<le> length (dropWhile patternSpace (dropWhile nameChar s2))"
    using s1 s2 r by (simp_all add: dropPrefix_Some)
  then show ?thesis
    using length_dropWhile_le [of patternSpace s1] length_dropWhile_le [of nameChar s2]
      length_dropWhile_le [of patternSpace "dropWhile nameChar s2"] by linarith
qed

text \<open>The leftmost matches of the pattern in a text, and the bytes between them.\<close>

datatype piece = Literal char | Reference string

function paramRefPattern :: "string \<Rightarrow> piece list" where
  "paramRefPattern [] = []"
| "paramRefPattern (c # s) =
     (case refAt (c # s) of
        Some (name, rest) \<Rightarrow> Reference name # paramRefPattern rest
      | None \<Rightarrow> Literal c # paramRefPattern s)"
  by pat_completeness auto
termination
  by (relation "measure length") (auto dest: refAt_shorter)

definition ParamReferences :: "string \<Rightarrow> string list" where
  "ParamReferences v = concat (map (\<lambda>p. case p of Reference r \<Rightarrow> [r] | Literal _ \<Rightarrow> []) (paramRefPattern v))"

definition interpolateParams :: "string \<Rightarrow> (string, string) fmap \<Rightarrow> string" where
  "interpolateParams v ps =
     concat (map (\<lambda>p. case p of Literal c \<Rightarrow> [c] | Reference r \<Rightarrow> mget [] ps r) (paramRefPattern v))"

definition InterpolatePerformer :: "Performer \<Rightarrow> (string, string) fmap \<Rightarrow> Performer" where
  "InterpolatePerformer p ps =
     p\<lparr>p_Prompt := interpolateParams (p_Prompt p) ps,
       p_Ask := interpolateParams (p_Ask p) ps,
       p_Run := interpolateParams (p_Run p) ps,
       p_Args := map (\<lambda>a. interpolateParams a ps) (p_Args p)\<rparr>"

definition paramRefsPresent :: "string \<Rightarrow> (string, string) fmap \<Rightarrow> bool" where
  "paramRefsPresent e ps \<longleftrightarrow> list_all (\<lambda>r. fmlookup ps r \<noteq> None) (ParamReferences e)"

definition bindInput :: "Subprocess \<Rightarrow> (string, string) fmap \<Rightarrow> string \<Rightarrow> Param \<Rightarrow> string option" where
  "bindInput s ps name param =
     (case fmlookup (Inputs s) name of
        Some e \<Rightarrow> if paramRefsPresent e ps then Some (interpolateParams e ps) else pm_Default param
      | None \<Rightarrow> pm_Default param)"

definition BindInputs :: "Subprocess \<Rightarrow> Template \<Rightarrow> (string, string) fmap \<Rightarrow> (string, string) fmap" where
  "BindInputs s body ps =
     fold (\<lambda>name m. case bindInput s ps name (mget zeroParam (Params body) name) of
                      Some v \<Rightarrow> fmupd name v m | None \<Rightarrow> m)
       (sortedKeys (Params body)) fmempty"

section \<open>Facts\<close>

lemma interpolate_cong:
  assumes "\<And>r. r \<in> set (ParamReferences v) \<Longrightarrow> mget [] ps r = mget [] qs r"
  shows "interpolateParams v ps = interpolateParams v qs"
proof -
  have "mget [] ps r = mget [] qs r" if "Reference r \<in> set (paramRefPattern v)" for r
    using that by (intro assms) (auto simp: ParamReferences_def intro!: bexI [of _ "Reference r"])
  then have "map (\<lambda>p. case p of Literal c \<Rightarrow> [c] | Reference r \<Rightarrow> mget [] ps r) (paramRefPattern v)
      = map (\<lambda>p. case p of Literal c \<Rightarrow> [c] | Reference r \<Rightarrow> mget [] qs r) (paramRefPattern v)"
    by (intro map_cong) (auto split: piece.splits)
  then show ?thesis by (simp only: interpolateParams_def)
qed

lemma interpolate_literal:
  assumes "ParamReferences v = []"
  shows "interpolateParams v ps = v"
  using assms unfolding interpolateParams_def ParamReferences_def
  by (induction v rule: paramRefPattern.induct) (auto split: option.splits)

lemma BindInputs_lookup:
  "fmlookup (BindInputs s body ps) name =
     (case fmlookup (Params body) name of None \<Rightarrow> None | Some param \<Rightarrow> bindInput s ps name param)"
proof -
  let ?z = zeroParam
  let ?f = "\<lambda>name m. case bindInput s ps name (mget ?z (Params body) name) of Some v \<Rightarrow> fmupd name v m | None \<Rightarrow> m"
  have fold: "fmlookup (fold ?f ks m) name =
      (if name \<in> set ks then (case bindInput s ps name (mget ?z (Params body) name) of
          Some v \<Rightarrow> Some v | None \<Rightarrow> fmlookup m name) else fmlookup m name)" for ks m
    by (induction ks arbitrary: m) (auto split: option.splits)
  have "fmlookup (BindInputs s body ps) name =
      (if name \<in> set (sortedKeys (Params body)) then (case bindInput s ps name (mget ?z (Params body) name) of
          Some v \<Rightarrow> Some v | None \<Rightarrow> None) else None)"
    unfolding BindInputs_def fold by (simp split: option.splits)
  then show ?thesis
    by (cases "fmlookup (Params body) name") (auto simp: mget_def fmlookup_dom_iff split: option.splits)
qed

end
