(* ===== verification/Text_Forms.thy ===== *)
theory Text_Forms
  imports Template_Text Task_Commands
begin

text \<open>
  The textual forms that authoring validation accepts: identifiers (\<open>model/validate.go\<close>, \<open>idPattern\<close>),
  version pins (\<open>model/subprocess.go\<close>, \<open>templateVersionPattern\<close>), RFC 3339 timestamps
  (\<open>model/time.go\<close>), and what the model package uses of Go's library: \<open>strconv.Quote\<close>,
  \<open>time.ParseDuration\<close>, \<open>strconv.ParseInt\<close>, \<open>ParseBool\<close>, \<open>ParseFloat\<close> and \<open>strings.EqualFold\<close>.
  Quoting and folding are those of ASCII text, with the two runes that fold to ASCII letters; other
  runes are quoted as themselves and fold only to themselves.
\<close>

section \<open>Characters\<close>

definition byte :: "char \<Rightarrow> int" where
  "byte c = of_char c"

definition isDigit :: "char \<Rightarrow> bool" where
  "isDigit c \<longleftrightarrow> 48 \<le> byte c \<and> byte c \<le> 57"

definition isLower :: "char \<Rightarrow> bool" where
  "isLower c \<longleftrightarrow> 97 \<le> byte c \<and> byte c \<le> 122"

definition digitValue :: "char \<Rightarrow> int" where
  "digitValue c = byte c - 48"

definition decimal :: "string \<Rightarrow> int" where
  "decimal s = fold (\<lambda>c n. 10 * n + digitValue c) s 0"

section \<open>Evaluation of trimming\<close>

text \<open>A text that starts and ends with a visible ASCII character is its own trimming.\<close>

definition visible :: "char \<Rightarrow> bool" where
  "visible c \<longleftrightarrow> 33 \<le> byte c \<and> byte c \<le> 126"

lemma dropRune_other:
  assumes "\<And>r. r \<in> set rs \<Longrightarrow> r \<noteq> [] \<and> hd r \<noteq> c"
  shows "dropRune rs (c # s) = None"
  using assms
proof (induction rs)
  case (Cons r rs)
  then have "r \<noteq> []" "hd r \<noteq> c" by auto
  then have "dropPrefix r (c # s) = None" by (cases r) (auto simp: dropPrefix_def)
  with Cons show ?case by simp
qed simp

lemma spaceRunes_invisible:
  assumes "visible c" "r \<in> set spaceRunes"
  shows "r \<noteq> [] \<and> hd r \<noteq> c \<and> hd (rev r) \<noteq> c"
proof -
  have "list_all (\<lambda>r. \<not> visible (hd r) \<and> \<not> visible (last r) \<and> r \<noteq> []) spaceRunes" by code_simp
  then have "\<not> visible (hd r) \<and> \<not> visible (last r) \<and> r \<noteq> []" using assms(2) by (simp add: list_all_iff)
  with assms(1) show ?thesis by (auto simp: hd_rev)
qed

lemma trimLeft_visible:
  assumes "s = [] \<or> visible (hd s)" "rs = spaceRunes \<or> rs = map rev spaceRunes"
  shows "trimLeft rs s = s"
proof (cases s)
  case Nil
  have "dropRune rs [] = None" if "[] \<notin> set rs" for rs
    using that by (induction rs) (auto simp: dropPrefix_def)
  with Nil show ?thesis by (subst trimLeft.simps) auto
next
  case (Cons c cs)
  have "r \<noteq> [] \<and> hd r \<noteq> c" if "r \<in> set rs" for r
    using that assms Cons spaceRunes_invisible [of c r] spaceRunes_invisible [of c "rev r"] by auto
  then have "dropRune rs s = None" unfolding Cons by (rule dropRune_other)
  then show ?thesis by (subst trimLeft.simps) simp
qed

lemma TrimSpace_code [code]:
  "TrimSpace s =
     (if s = [] \<or> visible (hd s) \<and> visible (last s) then s
      else rev (trimLeft (map rev spaceRunes) (rev (trimLeft spaceRunes s))))"
proof (cases "s = [] \<or> visible (hd s) \<and> visible (last s)")
  case True
  then have "trimLeft spaceRunes s = s" "trimLeft (map rev spaceRunes) (rev s) = rev s"
    by (auto intro!: trimLeft_visible simp: hd_rev)
  with True show ?thesis by (simp add: TrimSpace_def)
qed (auto simp: TrimSpace_def)

section \<open>Quoting\<close>

definition hexDigit :: "int \<Rightarrow> char" where
  "hexDigit n = char_of (if n < 10 then 48 + n else 87 + n)"

definition quoteChar :: "char \<Rightarrow> string" where
  "quoteChar c =
     (let n = byte c in
      if n = 34 \<or> n = 92 then [CHR 0x5C, c]
      else if n = 7 then [CHR 0x5C, CHR ''a'']
      else if n = 8 then [CHR 0x5C, CHR ''b'']
      else if n = 12 then [CHR 0x5C, CHR ''f'']
      else if n = 10 then [CHR 0x5C, CHR ''n'']
      else if n = 13 then [CHR 0x5C, CHR ''r'']
      else if n = 9 then [CHR 0x5C, CHR ''t'']
      else if n = 11 then [CHR 0x5C, CHR ''v'']
      else if n < 32 \<or> n = 127 then [CHR 0x5C, CHR ''x'', hexDigit (n div 16), hexDigit (n mod 16)]
      else [c])"

definition quote :: "string \<Rightarrow> string" where
  "quote s = [CHR 0x22] @ concat (map quoteChar s) @ [CHR 0x22]"

section \<open>Case folding\<close>

text \<open>A text with every rune replaced by the least rune of its fold class, on ASCII lower case.\<close>

fun foldCase :: "string \<Rightarrow> string" where
  "foldCase [] = []"
| "foldCase (c # s) =
     (case dropPrefix (map char_of [226, 132, 170 :: int]) (c # s) of
        Some r \<Rightarrow> CHR ''k'' # foldCase (drop 2 s)
      | None \<Rightarrow>
          (case dropPrefix (map char_of [197, 191 :: int]) (c # s) of
             Some r \<Rightarrow> CHR ''s'' # foldCase (drop 1 s)
           | None \<Rightarrow> (if 65 \<le> byte c \<and> byte c \<le> 90 then char_of (byte c + 32) else c) # foldCase s))"

definition EqualFold :: "string \<Rightarrow> string \<Rightarrow> bool" where
  "EqualFold a b \<longleftrightarrow> foldCase a = foldCase b"

section \<open>Identifiers and versions\<close>

definition idPattern :: "string \<Rightarrow> bool" where
  "idPattern s \<longleftrightarrow>
     (case s of
        [] \<Rightarrow> False
      | c # cs \<Rightarrow> (isLower c \<or> isDigit c) \<and>
          list_all (\<lambda>c. isLower c \<or> isDigit c \<or> c \<in> {CHR ''.'', CHR ''_'', CHR ''-''}) cs)"

definition idPatternString :: string where
  "idPatternString = ''^[a-z0-9][a-z0-9._-]*$''"

definition templateVersionPattern :: "string \<Rightarrow> bool" where
  "templateVersionPattern s \<longleftrightarrow>
     (case dropPrefix ''sha256:'' s of
        None \<Rightarrow> False
      | Some hex \<Rightarrow> length hex = 64 \<and> list_all (\<lambda>c. isDigit c \<or> 97 \<le> byte c \<and> byte c \<le> 102) hex)"

section \<open>Binary floating point\<close>

text \<open>Rounding of a fraction to 53 significant bits, halves to even; no exponent limits are met here.\<close>

definition halfEven :: "int \<Rightarrow> int \<Rightarrow> int" where
  "halfEven a b =
     (let q = a div b; r = a mod b in if 2 * r < b \<or> 2 * r = b \<and> even q then q else q + 1)"

function bitLen :: "int \<Rightarrow> int" where
  "bitLen n = (if n \<le> 0 then 0 else 1 + bitLen (n div 2))"
  by pat_completeness auto
termination by (relation "measure nat") auto

declare bitLen.simps [simp del]

definition scaled :: "int \<Rightarrow> int \<Rightarrow> int \<Rightarrow> int \<times> int" where
  "scaled a b k = (if k \<ge> 0 then (a * 2 ^ nat k, b) else (a, b * 2 ^ nat (- k)))"

definition unscaled :: "int \<Rightarrow> int \<Rightarrow> int \<times> int" where
  "unscaled m k = (if k \<ge> 0 then (m, 2 ^ nat k) else (m * 2 ^ nat (- k), 1))"

definition float64 :: "int \<Rightarrow> int \<Rightarrow> int \<times> int" where
  "float64 a b =
     (if a = 0 then (0, 1)
      else
        let k = 53 - (bitLen a - bitLen b);
            (x, y) = scaled a b k;
            k' = (if x div y \<ge> 2 ^ 53 then k - 1 else k);
            (x', y') = scaled a b k'
        in unscaled (halfEven x' y') k')"

section \<open>Durations\<close>

definition unitMap :: "string \<Rightarrow> int option" where
  "unitMap u =
     (if u = ''ns'' then Some 1
      else if u = ''us'' \<or> u = map char_of [194, 181, 115 :: int] \<or> u = map char_of [206, 188, 115 :: int] then Some 1000
      else if u = ''ms'' then Some 1000000
      else if u = ''s'' then Some 1000000000
      else if u = ''m'' then Some 60000000000
      else if u = ''h'' then Some 3600000000000
      else None)"

definition two63 :: int where
  "two63 = 9223372036854775808"

text \<open>\<open>leadingInt\<close>: the value stays an unsigned number of at most 2 to the power 63.\<close>

fun leadingInt :: "int \<Rightarrow> string \<Rightarrow> (int \<times> string) option" where
  "leadingInt x [] = Some (x, [])"
| "leadingInt x (c # s) =
     (if \<not> isDigit c then Some (x, c # s)
      else if x > two63 div 10 then None
      else let x' = 10 * x + digitValue c in if x' > two63 then None else leadingInt x' s)"

text \<open>\<open>leadingFraction\<close>: digits after an overflow are consumed and ignored.\<close>

fun leadingFraction :: "int \<Rightarrow> int \<Rightarrow> bool \<Rightarrow> string \<Rightarrow> int \<times> int \<times> string" where
  "leadingFraction x scale overflow [] = (x, scale, [])"
| "leadingFraction x scale overflow (c # s) =
     (if \<not> isDigit c then (x, scale, c # s)
      else if overflow then leadingFraction x scale True s
      else if x > (two63 - 1) div 10 then leadingFraction x scale True s
      else let y = 10 * x + digitValue c in
           if y > two63 then leadingFraction x scale True s else leadingFraction y (10 * scale) False s)"

definition fractionNanos :: "int \<Rightarrow> int \<Rightarrow> int \<Rightarrow> int" where
  "fractionNanos f unit scale =
     (let (fn, fd) = float64 f 1; (un, ud) = float64 unit scale; (n, d) = float64 (fn * un) (fd * ud) in n div d)"

lemma leadingInt_rest: "leadingInt x s = Some (v, r) \<Longrightarrow> r = dropWhile isDigit s"
proof (induction s arbitrary: x)
  case (Cons c s)
  then show ?case by (cases "isDigit c") (auto simp: Let_def split: if_split_asm)
qed simp

lemma leadingFraction_rest: "leadingFraction x scale ov s = (f, k, r) \<Longrightarrow> r = dropWhile isDigit s"
proof (induction s arbitrary: x scale ov)
  case (Cons c s)
  then show ?case by (cases "isDigit c"; cases ov) (auto simp: Let_def split: if_split_asm)
qed simp

definition isUnitChar :: "char \<Rightarrow> bool" where
  "isUnitChar c \<longleftrightarrow> c \<noteq> CHR ''.'' \<and> \<not> isDigit c"

text \<open>One number with its unit: the nanoseconds and the rest.\<close>

definition durationPart :: "string \<Rightarrow> (int \<times> string) option" where
  "durationPart s =
     (if s = [] \<or> \<not> (hd s = CHR ''.'' \<or> isDigit (hd s)) then None
      else
        (case leadingInt 0 s of
           None \<Rightarrow> None
         | Some (v, s1) \<Rightarrow>
             let pre = length s \<noteq> length s1;
                 (f, scale, s2) = (if s1 \<noteq> [] \<and> hd s1 = CHR ''.'' then leadingFraction 0 1 False (tl s1) else (0, 1, s1));
                 post = s1 \<noteq> [] \<and> hd s1 = CHR ''.'' \<and> length (tl s1) \<noteq> length s2
             in if \<not> pre \<and> \<not> post then None
                else
                  (case unitMap (takeWhile isUnitChar s2) of
                     None \<Rightarrow> None
                   | Some unit \<Rightarrow>
                       if v > two63 div unit then None
                       else
                         let v' = v * unit + (if f > 0 then fractionNanos f unit scale else 0)
                         in if v' > two63 then None else Some (v', dropWhile isUnitChar s2))))"

lemma unitMap_nonempty: "unitMap u = Some k \<Longrightarrow> u \<noteq> []"
  by (auto simp: unitMap_def)

lemma durationPart_shorter:
  assumes "durationPart s = Some (v, r)"
  shows "length r < length s"
proof -
  from assms obtain w s1 where s1: "leadingInt 0 s = Some (w, s1)"
    by (auto simp: durationPart_def split: if_splits option.splits)
  obtain f scale s2 where s2: "(if s1 \<noteq> [] \<and> hd s1 = CHR ''.'' then leadingFraction 0 1 False (tl s1) else (0, 1, s1)) = (f, scale, s2)"
    by (metis prod_cases3)
  have r: "r = dropWhile isUnitChar s2" "unitMap (takeWhile isUnitChar s2) \<noteq> None"
    using assms s1 s2 by (auto simp: durationPart_def Let_def split: if_splits option.splits)
  from r(2) have "takeWhile isUnitChar s2 \<noteq> []" using unitMap_nonempty by fastforce
  then have "length r < length s2"
    unfolding r(1) by (metis dropWhile_eq_self_iff length_dropWhile_le le_neq_implies_less takeWhile_eq_Nil_iff
        append_Nil2 append_eq_append_conv takeWhile_dropWhile_id self_append_conv2)
  also have "length s2 \<le> length s1"
    using s2 leadingFraction_rest [of 0 1 False "tl s1" f scale s2] length_dropWhile_le [of isDigit "tl s1"]
    by (cases s1) (auto split: if_splits)
  also have "length s1 \<le> length s" using leadingInt_rest [OF s1] length_dropWhile_le [of isDigit s] by simp
  finally show ?thesis .
qed

function durationParts :: "int \<Rightarrow> string \<Rightarrow> int option" where
  "durationParts d s =
     (if s = [] then Some d
      else (case durationPart s of
              None \<Rightarrow> None
            | Some (v, r) \<Rightarrow> if d + v > two63 then None else durationParts (d + v) r))"
  by pat_completeness auto
termination by (relation "measure (\<lambda>(d, s). length s)") (auto dest: durationPart_shorter)

declare durationParts.simps [simp del]

definition ParseDuration :: "string \<Rightarrow> int option" where
  "ParseDuration s =
     (let signed = (s \<noteq> [] \<and> (hd s = CHR ''-'' \<or> hd s = CHR ''+''));
          neg = (signed \<and> hd s = CHR ''-'');
          body = (if signed then tl s else s)
      in if body = ''0'' then Some 0
         else if body = [] then None
         else (case durationParts 0 body of
                 None \<Rightarrow> None
               | Some d \<Rightarrow>
                   if neg then Some (- d)
                   else if d > two63 - 1 then None else Some d))"

section \<open>Timestamps\<close>

text \<open>A text of a fixed shape, where the letter d stands for a digit.\<close>

definition shape :: "string \<Rightarrow> string \<Rightarrow> bool" where
  "shape pat s \<longleftrightarrow>
     length s = length pat \<and> list_all (\<lambda>(p, c). if p = CHR ''d'' then isDigit c else c = p) (zip pat s)"

definition slice :: "nat \<Rightarrow> nat \<Rightarrow> string \<Rightarrow> int" where
  "slice from to s = decimal (take (to - from) (drop from s))"

definition strictZone :: "string \<Rightarrow> bool" where
  "strictZone z \<longleftrightarrow>
     z = ''Z'' \<or>
     (z \<noteq> [] \<and> (hd z = CHR ''+'' \<or> hd z = CHR ''-'') \<and> shape ''dd:dd'' (tl z) \<and>
      slice 0 2 (tl z) \<le> 23 \<and> slice 3 5 (tl z) \<le> 59)"

definition strictRFC3339Pattern :: "string \<Rightarrow> bool" where
  "strictRFC3339Pattern t \<longleftrightarrow>
     shape ''dddd-dd-ddTdd:dd:dd'' (take 19 t) \<and>
     slice 11 13 t \<le> 23 \<and> slice 14 16 t \<le> 59 \<and> slice 17 19 t \<le> 59 \<and>
     (case drop 19 t of
        [] \<Rightarrow> False
      | c # z \<Rightarrow> if c = CHR ''.'' then z \<noteq> [] \<and> isDigit (hd z) \<and> strictZone (dropWhile isDigit z)
                 else strictZone (c # z))"

definition isLeap :: "int \<Rightarrow> bool" where
  "isLeap y \<longleftrightarrow> y mod 4 = 0 \<and> (y mod 100 \<noteq> 0 \<or> y mod 400 = 0)"

definition daysIn :: "int \<Rightarrow> int \<Rightarrow> int" where
  "daysIn m y =
     (if m = 2 then (if isLeap y then 29 else 28) else if m \<in> {4, 6, 9, 11} then 30 else 31)"

text \<open>Whether \<open>ParseRFC3339\<close> returns a time: the lexical gate, then the calendar.\<close>

definition ParseRFC3339 :: "string \<Rightarrow> bool" where
  "ParseRFC3339 v \<longleftrightarrow>
     (let t = TrimSpace v; y = slice 0 4 t; m = slice 5 7 t; d = slice 8 10 t in
      strictRFC3339Pattern t \<and> 1 \<le> m \<and> m \<le> 12 \<and> 1 \<le> d \<and> d \<le> daysIn m y)"

section \<open>Numbers and truth values\<close>

definition unsigned :: "string \<Rightarrow> string" where
  "unsigned s = (if s \<noteq> [] \<and> (hd s = CHR ''-'' \<or> hd s = CHR ''+'') then tl s else s)"

definition negative :: "string \<Rightarrow> bool" where
  "negative s \<longleftrightarrow> s \<noteq> [] \<and> hd s = CHR ''-''"

text \<open>Whether \<open>strconv.ParseInt(s, 10, 64)\<close> succeeds.\<close>

definition ParseInt :: "string \<Rightarrow> bool" where
  "ParseInt s \<longleftrightarrow>
     (let u = unsigned s in
      u \<noteq> [] \<and> list_all isDigit u \<and> (if negative s then decimal u \<le> two63 else decimal u < two63))"

definition ParseBool :: "string \<Rightarrow> bool" where
  "ParseBool s \<longleftrightarrow>
     s \<in> {''1'', ''t'', ''T'', ''TRUE'', ''true'', ''True'', ''0'', ''f'', ''F'', ''FALSE'', ''false'', ''False''}"

definition lowerASCII :: "char \<Rightarrow> char" where
  "lowerASCII c = (if 65 \<le> byte c \<and> byte c \<le> 90 then char_of (byte c + 32) else c)"

definition isHex :: "char \<Rightarrow> bool" where
  "isHex c \<longleftrightarrow> isDigit c \<or> 97 \<le> byte (lowerASCII c) \<and> byte (lowerASCII c) \<le> 102"

definition hexValue :: "char \<Rightarrow> int" where
  "hexValue c = (if isDigit c then digitValue c else byte (lowerASCII c) - 87)"

text \<open>
  \<open>readFloat\<close>, first part: the digits as one number, whether there were any, how many follow the
  point, whether an underscore was seen, and the rest.
\<close>

fun readMantissa :: "bool \<Rightarrow> bool \<Rightarrow> int \<times> bool \<times> int \<times> bool \<Rightarrow> string \<Rightarrow> (int \<times> bool \<times> int \<times> bool) \<times> string" where
  "readMantissa hex dot acc [] = (acc, [])"
| "readMantissa hex dot (m, digits, fr, us) (c # s) =
     (if c = CHR ''_'' then readMantissa hex dot (m, digits, fr, True) s
      else if c = CHR ''.'' then
        (if dot then ((m, digits, fr, us), c # s) else readMantissa hex True (m, digits, fr, us) s)
      else if isDigit c \<or> hex \<and> isHex c
      then readMantissa hex dot
             (m * (if hex then 16 else 10) + hexValue c, True, (if dot then fr + 1 else fr), us) s
      else ((m, digits, fr, us), c # s))"

text \<open>The digits of an exponent stop counting once it has reached ten thousand.\<close>

fun readExponent :: "int \<Rightarrow> bool \<Rightarrow> string \<Rightarrow> int \<times> bool \<times> string" where
  "readExponent e us [] = (e, us, [])"
| "readExponent e us (c # s) =
     (if c = CHR ''_'' then readExponent e True s
      else if isDigit c then readExponent (if e < 10000 then 10 * e + digitValue c else e) us s
      else (e, us, c # s))"

text \<open>\<open>underscoreOK\<close>: an underscore stands between digits or between the base prefix and a digit.\<close>

fun underscoreLoop :: "bool \<Rightarrow> char \<Rightarrow> string \<Rightarrow> bool" where
  "underscoreLoop hex saw [] = (saw \<noteq> CHR ''_'')"
| "underscoreLoop hex saw (c # s) =
     (if isDigit c \<or> hex \<and> isHex c then underscoreLoop hex (CHR ''0'') s
      else if c = CHR ''_'' then (if saw \<noteq> CHR ''0'' then False else underscoreLoop hex (CHR ''_'') s)
      else if saw = CHR ''_'' then False
      else underscoreLoop hex (CHR ''!'') s)"

definition underscoreOK :: "string \<Rightarrow> bool" where
  "underscoreOK s =
     (let u = unsigned s;
          prefixed = (length u \<ge> 2 \<and> hd u = CHR ''0'' \<and> lowerASCII (u ! 1) \<in> {CHR ''b'', CHR ''o'', CHR ''x''})
      in if prefixed then underscoreLoop (lowerASCII (u ! 1) = CHR ''x'') (CHR ''0'') (drop 2 u)
         else underscoreLoop False (CHR ''^'') u)"

text \<open>A nonzero magnitude that rounds past the largest finite 64-bit float.\<close>

definition floatOverflows :: "bool \<Rightarrow> int \<Rightarrow> int \<Rightarrow> bool" where
  "floatOverflows hex m e \<longleftrightarrow>
     (let limit = 2 ^ 1024 - 2 ^ 970; base = (if hex then 2 else 10) in
      m > 0 \<and> (if e \<ge> 0 then m * base ^ nat e \<ge> limit else m \<ge> limit * base ^ nat (- e)))"

text \<open>Whether \<open>strconv.ParseFloat(s, 64)\<close> succeeds.\<close>

definition ParseFloat :: "string \<Rightarrow> bool" where
  "ParseFloat s \<longleftrightarrow>
     (let u = unsigned s in
      map lowerASCII u \<in> {''inf'', ''infinity''} \<or> map lowerASCII s = ''nan'' \<or>
      (let hex = (length u > 2 \<and> hd u = CHR ''0'' \<and> lowerASCII (u ! 1) = CHR ''x'');
           ((m, digits, fr, us), rest) = readMantissa hex False (0, False, 0, False) (if hex then drop 2 u else u)
       in digits \<and>
          (case rest of
             [] \<Rightarrow> \<not> hex \<and> (us \<longrightarrow> underscoreOK s) \<and> \<not> floatOverflows hex m (- fr)
           | c # r \<Rightarrow>
               lowerASCII c = (if hex then CHR ''p'' else CHR ''e'') \<and>
               (let body = unsigned r; (e, us', rest') = readExponent 0 us body;
                    exponent = (if negative r then - e else e)
                in body \<noteq> [] \<and> isDigit (hd body) \<and> rest' = [] \<and> (us' \<longrightarrow> underscoreOK s) \<and>
                   \<not> floatOverflows hex m (exponent - (if hex then 4 else 1) * fr)))))"

end
