(* ===== verification/Template_Graph.thy ===== *)
theory Template_Graph
  imports Template_Text Prepared
begin

text \<open>
  The graph of one template scope: compound stage expansion (\<open>model/expand.go\<close>), outcome
  vocabularies (\<open>model/next.go\<close>), normalized edges (\<open>model/parse.go\<close>, \<open>NormalizeEdges\<close>), and the
  bounded loops with their bodies and exits (\<open>model/loops.go\<close>).  The stack walk \<open>reachableFrom\<close> is
  shown to compute the reflexive transitive closure, and Go's binary search to decide membership.
\<close>

section \<open>Compound stages\<close>

record StageSpec =
  ss_ChildID :: string
  ss_Stage :: StageKind
  ss_StepID :: string
  ss_Performer :: "Performer option"
  ss_Retry :: "RetryPolicy option"

definition blankPerformer :: Performer where
  "blankPerformer =
     \<lparr>p_Kind = PerformerOther [], p_Profile = [], p_Prompt = [], p_Ask = [], p_Choices = [], p_Assignee = [],
      p_Role = [], p_Anyone = False, p_Fallback = None, p_ChoiceOutcomes = fmempty, p_Spawn = [], p_Model = [],
      p_Effort = [], p_Run = [], p_Args = [], p_Timeout = [], p_Contact = None\<rparr>"

fun stageString :: "StageKind \<Rightarrow> string" where
  "stageString StagePlan = ''plan''"
| "stageString StagePlanApproval = ''plan.approval''"
| "stageString StageDo = ''do''"
| "stageString StageTest = ''test''"
| "stageString StageReview = ''review''"
| "stageString StageDone = ''done''"
| "stageString StageNone = []"

definition IsValidStage :: "StageKind \<Rightarrow> bool" where
  "IsValidStage k \<longleftrightarrow> k \<noteq> StageNone"

definition IsGateStage :: "StageKind \<Rightarrow> bool" where
  "IsGateStage k \<longleftrightarrow> k \<in> {StagePlanApproval, StageTest, StageReview}"

definition RetryMode :: "RetryPolicy option \<Rightarrow> string" where
  "RetryMode retry =
     (case retry of
        None \<Rightarrow> ''fresh-attempt''
      | Some r \<Rightarrow> if rp_OnFail r = [] then ''fresh-attempt'' else rp_OnFail r)"

definition RetryBudget :: "RetryPolicy option \<Rightarrow> int" where
  "RetryBudget retry = (case retry of Some r \<Rightarrow> if rp_MaxAttempts r > 0 then rp_MaxAttempts r else 1 | None \<Rightarrow> 1)"

definition IsCompound :: "Node \<Rightarrow> bool" where
  "IsCompound n \<longleftrightarrow> Type n = NodeTypeTask \<and> (Plan n \<noteq> None \<or> Checks n \<noteq> [] \<or> Review n \<noteq> None)"

definition stageChildID :: "string \<Rightarrow> StageKind \<Rightarrow> string \<Rightarrow> string" where
  "stageChildID nid stage stepID =
     (if stage = StageTest then nid @ ''.'' @ stageString StageTest @ ''.'' @ stepID
      else nid @ ''.'' @ stageString stage)"

text \<open>The quoting of the node id in the gate's question is the identity on authored ids.\<close>

definition planSpecs :: "string \<Rightarrow> Step \<Rightarrow> StageSpec list" where
  "planSpecs nid plan =
     \<lparr>ss_ChildID = stageChildID nid StagePlan [], ss_Stage = StagePlan, ss_StepID = [],
      ss_Performer = Some (sp_Performer plan), ss_Retry = sp_Retry plan\<rparr> #
     (if sp_Approval plan = ''human''
      then [\<lparr>ss_ChildID = stageChildID nid StagePlanApproval [], ss_Stage = StagePlanApproval, ss_StepID = [],
             ss_Performer = Some (blankPerformer\<lparr>p_Kind := PerformerHuman,
               p_Ask := ''Approve the plan for node '' @ [CHR 0x22] @ nid @ [CHR 0x22] @ ''?''\<rparr>),
             ss_Retry = sp_ApprovalRetry plan\<rparr>]
      else [])"

definition ExpandNode :: "string \<Rightarrow> Node \<Rightarrow> StageSpec list" where
  "ExpandNode nid n =
     (if \<not> IsCompound n then []
      else
        (case Plan n of None \<Rightarrow> [] | Some plan \<Rightarrow> planSpecs nid plan) @
        [\<lparr>ss_ChildID = stageChildID nid StageDo [], ss_Stage = StageDo, ss_StepID = [],
          ss_Performer = NodePerformer n, ss_Retry = Retry n\<rparr>] @
        map (\<lambda>step. \<lparr>ss_ChildID = stageChildID nid StageTest (sp_ID step), ss_Stage = StageTest, ss_StepID = sp_ID step,
                     ss_Performer = Some (sp_Performer step), ss_Retry = sp_Retry step\<rparr>) (Checks n) @
        (case Review n of None \<Rightarrow> [] | Some review \<Rightarrow>
          [\<lparr>ss_ChildID = stageChildID nid StageReview [], ss_Stage = StageReview, ss_StepID = [],
            ss_Performer = Some (sp_Performer review), ss_Retry = sp_Retry review\<rparr>]) @
        [\<lparr>ss_ChildID = stageChildID nid StageDone [], ss_Stage = StageDone, ss_StepID = [],
          ss_Performer = None, ss_Retry = None\<rparr>])"

lemma dropWhile_replicate: "P x \<Longrightarrow> dropWhile P (map (\<lambda>_. x) xs @ ys) = dropWhile P ys"
  by (induction xs) simp_all

lemma ExpandNode_stages:
  assumes "IsCompound n"
  shows "map ss_Stage (ExpandNode nid n) =
     (case Plan n of None \<Rightarrow> [] | Some p \<Rightarrow> StagePlan # (if sp_Approval p = ''human'' then [StagePlanApproval] else [])) @
     [StageDo] @ map (\<lambda>_. StageTest) (Checks n) @ (case Review n of None \<Rightarrow> [] | Some _ \<Rightarrow> [StageReview]) @ [StageDone]"
  using assms by (simp add: ExpandNode_def planSpecs_def comp_def split: option.splits)

lemma ExpandNode_stagesOk: "IsCompound n \<Longrightarrow> stagesOk (map ss_Stage (ExpandNode nid n))"
  unfolding ExpandNode_stages stagesOk_def stagesAfterDo_def
  by (auto simp: Let_def dropWhile_replicate split: option.splits)

lemma ExpandNode_distinct:
  assumes "distinct (map sp_ID (Checks n))"
  shows "distinct (map ss_ChildID (ExpandNode nid n))"
proof -
  have "inj_on (\<lambda>s. stageChildID nid StageTest (sp_ID s)) (set (Checks n)) \<and> distinct (Checks n)"
    using assms by (auto simp: inj_on_def stageChildID_def distinct_map)
  then have "distinct (map (\<lambda>s. stageChildID nid StageTest (sp_ID s)) (Checks n))" by (simp add: distinct_map)
  then show ?thesis
    by (auto simp: ExpandNode_def planSpecs_def stageChildID_def comp_def split: option.splits)
qed

section \<open>Outcome vocabularies\<close>

definition failOutcomeLabels :: "string list" where
  "failOutcomeLabels = [''fail'', ''failed'', ''failure'', ''error'']"

definition passOutcomeLabels :: "string list" where
  "passOutcomeLabels = [''pass'', ''done'', ''success'', ''next'']"

definition FailTarget :: "Next \<Rightarrow> string" where
  "FailTarget nx =
     (case find (\<lambda>oc. mget [] nx oc \<noteq> []) failOutcomeLabels of Some oc \<Rightarrow> mget [] nx oc | None \<Rightarrow> [])"

definition IsFailOutcomeLabel :: "string \<Rightarrow> bool" where
  "IsFailOutcomeLabel oc \<longleftrightarrow> oc \<in> set failOutcomeLabels"

definition IsCanceledResult :: "string \<Rightarrow> bool" where
  "IsCanceledResult r \<longleftrightarrow> ToLower (TrimSpace r) \<in> {''cancel'', ''canceled'', ''cancelled''}"

section \<open>Edges\<close>

definition NormalizeEdges :: "Template \<Rightarrow> Edge list" where
  "NormalizeEdges t =
     (if Start t \<noteq> [] then [\<lparr>ed_From = [], ed_Outcome = ''start'', ed_To = Start t\<rparr>] else []) @
     concat (map (\<lambda>nid. let nx = NextOf (node_of t nid) in
                    map (\<lambda>oc. \<lparr>ed_From = nid, ed_Outcome = oc, ed_To = mget [] nx oc\<rparr>) (sortedKeys nx))
              (sortedKeys (TemplateNodes t)))"

definition IsBoundedLoopEdge :: "Template \<Rightarrow> Edge \<Rightarrow> bool" where
  "IsBoundedLoopEdge t e \<longleftrightarrow>
     ed_From e \<noteq> [] \<and>
     (case fmlookup (TemplateNodes t) (ed_From e) of
        None \<Rightarrow> False
      | Some n \<Rightarrow> fmlookup (LoopBounds n) (ed_Outcome e) \<noteq> None \<and> mget [] (NextOf n) (ed_Outcome e) = ed_To e)"

definition IsPoisonEscalationRetryEdge :: "Template \<Rightarrow> Edge \<Rightarrow> bool" where
  "IsPoisonEscalationRetryEdge t e \<longleftrightarrow>
     ed_Outcome e = ''retry'' \<and>
     (case (fmlookup (TemplateNodes t) (ed_From e), fmlookup (TemplateNodes t) (ed_To e)) of
        (Some decision, Some target) \<Rightarrow>
          Type decision = NodeTypeDecision \<and>
          (case NodePerformer decision of None \<Rightarrow> False | Some p \<Rightarrow> p_Kind p = PerformerHuman) \<and>
          IsCompound target \<and> FailTarget (NextOf target) = ed_From e
      | _ \<Rightarrow> False)"

definition isCycleExemptEdge :: "Template \<Rightarrow> Edge \<Rightarrow> bool" where
  "isCycleExemptEdge t e \<longleftrightarrow> IsBoundedLoopEdge t e \<or> IsPoisonEscalationRetryEdge t e"

definition mappend :: "string \<Rightarrow> 'a \<Rightarrow> (string, 'a list) fmap \<Rightarrow> (string, 'a list) fmap" where
  "mappend k x m = fmupd k (mget [] m k @ [x]) m"

definition forwardEdge :: "Template \<Rightarrow> Edge \<Rightarrow> bool" where
  "forwardEdge t e \<longleftrightarrow>
     \<not> (ed_From e = [] \<or> isCycleExemptEdge t e) \<and> fmlookup (TemplateNodes t) (ed_To e) \<noteq> None"

definition forwardAdjacency ::
    "Template \<Rightarrow> Edge list \<Rightarrow> (string, string list) fmap \<times> (string, string list) fmap" where
  "forwardAdjacency t es =
     fold (\<lambda>e (out, inc). if forwardEdge t e
             then (mappend (ed_From e) (ed_To e) out, mappend (ed_To e) (ed_From e) inc)
             else (out, inc)) es (fmempty, fmempty)"

section \<open>Reachability\<close>

text \<open>The targets of one node that are not yet seen become seen and go on the stack.\<close>

fun pushUnseen :: "string list \<Rightarrow> string fset \<Rightarrow> string list \<Rightarrow> string fset \<times> string list" where
  "pushUnseen [] seen stack = (seen, stack)"
| "pushUnseen (n # ns) seen stack =
     (if n |\<in>| seen then pushUnseen ns seen stack else pushUnseen ns (finsert n seen) (n # stack))"

definition targets :: "(string, string list) fmap \<Rightarrow> string set" where
  "targets adj = (\<Union>ns\<in>fset (fmran adj). set ns)"

lemma finite_targets [simp]: "finite (targets adj)"
  by (simp add: targets_def)

lemma mget_targets: "set (mget [] adj k) \<subseteq> targets adj"
  by (cases "fmlookup adj k") (auto simp: mget_def targets_def intro!: bexI [of _ "the (fmlookup adj k)"] fmranI)

lemma pushUnseen_measure:
  assumes "pushUnseen ns seen stack = (seen', stack')" "set ns \<subseteq> T" "finite T"
  shows "card (T - fset seen') + length stack' = card (T - fset seen) + length stack
    \<and> card (T - fset seen') \<le> card (T - fset seen)"
  using assms(1,2)
proof (induction ns arbitrary: seen stack)
  case (Cons n ns)
  show ?case
  proof (cases "n |\<in>| seen")
    case False
    have "T - fset (finsert n seen) = (T - fset seen) - {n}" by auto
    moreover have "n \<in> T - fset seen" using False Cons.prems(2) by simp
    ultimately have "Suc (card (T - fset (finsert n seen))) = card (T - fset seen)"
      using assms(3) by (metis card_Suc_Diff1 finite_Diff)
    with Cons.IH [of "finsert n seen" "n # stack"] Cons.prems False show ?thesis by auto
  qed (use Cons in auto)
qed simp

function reachLoop :: "(string, string list) fmap \<Rightarrow> string fset \<Rightarrow> string list \<Rightarrow> string fset" where
  "reachLoop adj seen [] = seen"
| "reachLoop adj seen (nid # stack) =
     (case pushUnseen (mget [] adj nid) seen stack of (seen', stack') \<Rightarrow> reachLoop adj seen' stack')"
  by pat_completeness auto
termination
proof (relation "measure (\<lambda>(adj, seen, stack). 2 * card (targets adj - fset seen) + length stack)")
  fix adj :: "(string, string list) fmap" and seen nid stack seen' stack'
  assume "(seen', stack') = pushUnseen (mget [] adj nid) seen stack"
  from pushUnseen_measure [OF this [symmetric] mget_targets finite_targets]
  show "((adj, seen', stack'), (adj, seen, nid # stack))
      \<in> measure (\<lambda>(adj, seen, stack). 2 * card (targets adj - fset seen) + length stack)" by simp
qed simp

definition reachableFrom :: "string \<Rightarrow> (string, string list) fmap \<Rightarrow> string fset" where
  "reachableFrom start adj = reachLoop adj {|start|} [start]"

definition adjRel :: "(string, string list) fmap \<Rightarrow> (string \<times> string) set" where
  "adjRel adj = {(a, b). b \<in> set (mget [] adj a)}"

lemma pushUnseen_spec:
  assumes "pushUnseen ns seen stack = (seen', stack')"
  shows "fset seen' = fset seen \<union> set ns"
    "set stack' \<union> fset seen = set stack \<union> fset seen \<union> set ns"
    "set stack \<subseteq> set stack'"
proof -
  have "fset seen' = fset seen \<union> set ns \<and> set stack' \<union> fset seen = set stack \<union> fset seen \<union> set ns \<and>
      set stack \<subseteq> set stack'"
    using assms
  proof (induction ns seen stack rule: pushUnseen.induct)
    case (2 n ns seen stack)
    show ?case
    proof (cases "n |\<in>| seen")
      case False
      with 2 have *: "fset seen' = insert n (fset seen) \<union> set ns"
        "set stack' \<union> insert n (fset seen) = set (n # stack) \<union> insert n (fset seen) \<union> set ns"
        "set (n # stack) \<subseteq> set stack'" by simp_all
      then have "n \<in> set stack'" by simp
      with * show ?thesis by (metis Un_insert_left Un_insert_right insert_absorb le_sup_iff list.set_intros(1) list.simps(15) set_subset_Cons subset_trans sup.orderE sup_commute UnCI)
    qed (use 2 in auto)
  qed auto
  then show "fset seen' = fset seen \<union> set ns" "set stack' \<union> fset seen = set stack \<union> fset seen \<union> set ns"
    "set stack \<subseteq> set stack'" by blast+
qed

lemma reachLoop_spec:
  assumes "set stack \<subseteq> fset seen" "\<forall>a\<in>fset seen - set stack. set (mget [] adj a) \<subseteq> fset seen"
  shows "fset (reachLoop adj seen stack) = (adjRel adj)\<^sup>* `` fset seen"
  using assms
proof (induction adj seen stack rule: reachLoop.induct)
  case (1 adj seen)
  have "b \<in> fset seen" if "(a, b) \<in> (adjRel adj)\<^sup>*" "a \<in> fset seen" for a b
    using that by (induction rule: rtrancl_induct) (use 1 in \<open>auto simp: adjRel_def\<close>)
  then show ?case by auto
next
  case (2 adj seen nid stack)
  obtain seen' stack' where p: "pushUnseen (mget [] adj nid) seen stack = (seen', stack')" by force
  note ps = pushUnseen_spec [OF p]
  have step: "set (mget [] adj nid) \<subseteq> (adjRel adj)\<^sup>* `` fset seen"
    using 2(2) by (auto simp: adjRel_def intro!: ImageI [of nid])
  have "(adjRel adj)\<^sup>* `` fset seen' = (adjRel adj)\<^sup>* `` fset seen"
    using step unfolding ps(1) by (auto intro: rtrancl_trans)
  moreover have "fset (reachLoop adj seen' stack') = (adjRel adj)\<^sup>* `` fset seen'"
  proof (rule 2(1) [OF p [symmetric]])
    show "set stack' \<subseteq> fset seen'" using ps 2(2) by auto
    show "\<forall>a\<in>fset seen' - set stack'. set (mget [] adj a) \<subseteq> fset seen'"
    proof
      fix a assume a: "a \<in> fset seen' - set stack'"
      then have "a \<in> fset seen" "a \<notin> set stack" using ps by auto
      then show "set (mget [] adj a) \<subseteq> fset seen'"
        using 2(3) ps(1) by (cases "a = nid") auto
    qed
  qed
  ultimately show ?case by (simp add: p)
qed

lemma reachableFrom_closure: "fset (reachableFrom start adj) = {x. (start, x) \<in> (adjRel adj)\<^sup>*}"
  unfolding reachableFrom_def by (subst reachLoop_spec) auto

section \<open>Binary search\<close>

text \<open>Go's \<open>slices.BinarySearch\<close>: the loop over the half-open range from \<open>i\<close> to \<open>j\<close>.\<close>

function searchLoop :: "'a::linorder list \<Rightarrow> 'a \<Rightarrow> nat \<Rightarrow> nat \<Rightarrow> nat" where
  "searchLoop xs v i j =
     (if i < j then (let h = (i + j) div 2 in if xs ! h < v then searchLoop xs v (Suc h) j else searchLoop xs v i h)
      else i)"
  by pat_completeness auto
termination by (relation "measure (\<lambda>(xs, v, i, j). j - i)") auto

declare searchLoop.simps [simp del]

definition BinarySearch :: "'a::linorder list \<Rightarrow> 'a \<Rightarrow> bool" where
  "BinarySearch xs v = (let i = searchLoop xs v 0 (length xs) in i < length xs \<and> xs ! i = v)"

lemma searchLoop_spec:
  assumes "sorted xs" "i \<le> j" "j \<le> length xs" "\<forall>k<i. xs ! k < v" "\<forall>k. j \<le> k \<and> k < length xs \<longrightarrow> v \<le> xs ! k"
  shows "searchLoop xs v i j \<le> length xs \<and> (\<forall>k<searchLoop xs v i j. xs ! k < v) \<and>
    (\<forall>k. searchLoop xs v i j \<le> k \<and> k < length xs \<longrightarrow> v \<le> xs ! k)"
  using assms
proof (induction xs v i j rule: searchLoop.induct)
  case (1 xs v i j)
  show ?case
  proof (cases "i < j")
    case False
    then have eq: "searchLoop xs v i j = i" by (subst searchLoop.simps) simp
    from False 1(4) have "i = j" by simp
    with 1(5-7) show ?thesis unfolding eq by simp
  next
    case True
    define h where "h = (i + j) div 2"
    have h: "i \<le> h" "h < j" using True by (auto simp: h_def)
    show ?thesis
    proof (cases "xs ! h < v")
      case less: True
      have eq: "searchLoop xs v i j = searchLoop xs v (Suc h) j"
        using True less by (subst searchLoop.simps) (simp add: h_def)
      have "\<forall>k<Suc h. xs ! k < v"
      proof (intro allI impI)
        fix k assume "k < Suc h"
        then have "xs ! k \<le> xs ! h" using sorted_nth_mono [OF 1(3), of k h] h 1(5) by simp
        with less show "xs ! k < v" by simp
      qed
      from 1(1) [OF True h_def less 1(3) _ 1(5) this 1(7)] h show ?thesis unfolding eq by simp
    next
      case False
      have eq: "searchLoop xs v i j = searchLoop xs v i h"
        using True False by (subst searchLoop.simps) (simp add: h_def)
      have "\<forall>k. h \<le> k \<and> k < length xs \<longrightarrow> v \<le> xs ! k"
      proof (intro allI impI)
        fix k assume "h \<le> k \<and> k < length xs"
        then have "xs ! h \<le> xs ! k" using sorted_nth_mono [OF 1(3), of h k] by simp
        with False show "v \<le> xs ! k" by simp
      qed
      from 1(2) [OF True h_def False 1(3) h(1) _ 1(6) this] h 1(5) show ?thesis unfolding eq by simp
    qed
  qed
qed

lemma BinarySearch_iff:
  assumes "sorted xs"
  shows "BinarySearch xs v \<longleftrightarrow> v \<in> set xs"
proof
  assume "v \<in> set xs"
  then obtain k where k: "k < length xs" "xs ! k = v" by (auto simp: in_set_conv_nth)
  let ?i = "searchLoop xs v 0 (length xs)"
  have "\<forall>k. length xs \<le> k \<and> k < length xs \<longrightarrow> v \<le> xs ! k" by auto
  note spec0 = searchLoop_spec [OF assms le0 le_refl _ this]
  then have spec: "\<forall>k<?i. xs ! k < v" "\<forall>k. ?i \<le> k \<and> k < length xs \<longrightarrow> v \<le> xs ! k" by blast+
  have "?i \<le> k" using spec(1) k by (meson less_irrefl not_less)
  then have "?i < length xs" "xs ! ?i \<le> v" using k sorted_nth_mono [OF assms, of ?i k] by auto
  with spec(2) show "BinarySearch xs v" by (simp add: BinarySearch_def Let_def antisym)
qed (auto simp: BinarySearch_def Let_def in_set_conv_nth)

section \<open>Loops\<close>

record Loop =
  lp_From :: string
  lp_Outcome :: string
  lp_To :: string
  lp_MaxIterations :: int
  lp_OnExhausted :: string
  lp_Body :: "string list"
  lp_Exits :: "Edge list"

definition Contains :: "Loop \<Rightarrow> string \<Rightarrow> bool" where
  "Contains l nid = BinarySearch (lp_Body l) nid"

definition compareKey :: "Edge \<Rightarrow> string list" where
  "compareKey e = [ed_From e, ed_Outcome e, ed_To e]"

definition loopAt :: "Template \<Rightarrow> Edge list \<Rightarrow> string \<Rightarrow> string \<Rightarrow> Loop option" where
  "loopAt t es from oc =
     (let (out, inc) = forwardAdjacency t es; node = node_of t from in
      case fmlookup (NextOf node) oc of
        None \<Rightarrow> None
      | Some to \<Rightarrow>
          if fmlookup (TemplateNodes t) to = None then None
          else
            let ahead = reachableFrom to out in
            if from |\<notin>| ahead then None
            else
              let behind = reachableFrom from inc;
                  bound = mget \<lparr>lb_MaxIterations = 0, lb_OnExhausted = []\<rparr> (LoopBounds node) oc;
                  l = \<lparr>lp_From = from, lp_Outcome = oc, lp_To = to, lp_MaxIterations = lb_MaxIterations bound,
                       lp_OnExhausted = lb_OnExhausted bound, lp_Body = sorted_list_of_fset (ahead |\<inter>| behind), lp_Exits = []\<rparr>
              in Some (l\<lparr>lp_Exits := sort_key compareKey
                   (filter (\<lambda>e. \<not> (ed_From e = [] \<or> \<not> Contains l (ed_From e) \<or> Contains l (ed_To e) \<or> isCycleExemptEdge t e)) es)\<rparr>))"

definition Loops :: "Template \<Rightarrow> Edge list \<Rightarrow> Loop list" where
  "Loops t es =
     concat (map (\<lambda>from. concat (map (\<lambda>oc. case loopAt t es from oc of None \<Rightarrow> [] | Some l \<Rightarrow> [l])
                    (sortedKeys (LoopBounds (node_of t from)))))
       (sortedKeys (TemplateNodes t)))"

definition loopsNestOrDisjoint :: "Loop \<Rightarrow> Loop \<Rightarrow> bool" where
  "loopsNestOrDisjoint a b \<longleftrightarrow>
     (let shared = length (filter (Contains b) (lp_Body a))
      in shared = 0 \<or> shared = length (lp_Body a) \<or> shared = length (lp_Body b))"

end
