(* ===== verification/Topology.thy ===== *)
theory Topology
  imports Template_Graph "HOL-Library.Multiset"
begin

text \<open>
  The deterministic topological order of one scope (\<open>engine/validate.go\<close>, \<open>topologicalOrder\<close>,
  \<open>mergeSorted\<close>, \<open>sortedOutcomes\<close>).  The loop terminates because every released target leaves the
  targets with unprocessed predecessors for good, and a returned order lists every node once, the
  entry first and the sources of a node's forward edges before it.
\<close>

section \<open>Merging\<close>

definition sortedOutcomes :: "(string, 'v) fmap \<Rightarrow> string list" where
  "sortedOutcomes nx = sortedKeys nx"

fun mergeLoop :: "string list \<Rightarrow> string list \<Rightarrow> string list" where
  "mergeLoop (l # ls) (r # rs) = (if l \<le> r then l # mergeLoop ls (r # rs) else r # mergeLoop (l # ls) rs)"
| "mergeLoop ls rs = ls @ rs"

definition mergeSorted :: "string list \<Rightarrow> string list \<Rightarrow> string list" where
  "mergeSorted left right = (if right = [] then left else mergeLoop left right)"

lemma mset_mergeLoop [simp]: "mset (mergeLoop ls rs) = mset ls + mset rs"
  by (induction ls rs rule: mergeLoop.induct) auto

lemma mset_mergeSorted [simp]: "mset (mergeSorted ls rs) = mset ls + mset rs"
  by (simp add: mergeSorted_def)

lemma set_mergeSorted [simp]: "set (mergeSorted ls rs) = set ls \<union> set rs"
  by (metis mset_mergeSorted set_mset_mset set_mset_union)

lemma length_mergeSorted [simp]: "length (mergeSorted ls rs) = length ls + length rs"
  by (metis mset_mergeSorted size_mset size_union)

lemma set_mergeLoop [simp]: "set (mergeLoop ls rs) = set ls \<union> set rs"
  by (metis mset_mergeLoop set_mset_mset set_mset_union)

lemma sorted_mergeLoop: "sorted ls \<Longrightarrow> sorted rs \<Longrightarrow> sorted (mergeLoop ls rs)"
  by (induction ls rs rule: mergeLoop.induct) auto

lemma sorted_mergeSorted: "sorted ls \<Longrightarrow> sorted rs \<Longrightarrow> sorted (mergeSorted ls rs)"
  by (simp add: mergeSorted_def sorted_mergeLoop)

section \<open>Counting predecessors\<close>

text \<open>The outcomes of a node that are not bounded back edges, and the forward edges of a scope.\<close>

definition forwardTargets :: "Node \<Rightarrow> string list" where
  "forwardTargets n =
     map (mget [] (NextOf n)) (filter (\<lambda>oc. fmlookup (LoopBounds n) oc = None) (sortedOutcomes (NextOf n)))"

definition forwardPairs :: "Template \<Rightarrow> (string \<times> string) list" where
  "forwardPairs t = concat (map (\<lambda>u. map (Pair u) (forwardTargets (node_of t u))) (sortedKeys (TemplateNodes t)))"

definition initialRemaining :: "Template \<Rightarrow> (string, int) fmap" where
  "initialRemaining t =
     fold (\<lambda>(u, v) m. if fmlookup m v = None then m else fmupd v (mget 0 m v + 1) m) (forwardPairs t)
       (fold (\<lambda>nid. fmupd nid 0) (sortedKeys (TemplateNodes t)) fmempty)"

text \<open>One pass over a node's outcomes: every decremented target that reaches zero is released.\<close>

fun release :: "string list \<Rightarrow> (string, int) fmap \<Rightarrow> string list \<Rightarrow> (string, int) fmap \<times> string list" where
  "release [] remaining released = (remaining, released)"
| "release (v # vs) remaining released =
     (let k = mget 0 remaining v - 1;
          remaining' = fmupd v k remaining
      in release vs remaining' (if k = 0 then released @ [v] else released))"

definition positive :: "(string, int) fmap \<Rightarrow> string set" where
  "positive m = {k. k |\<in>| fmdom m \<and> mget 0 m k > 0}"

lemma finite_positive [simp]: "finite (positive m)"
  by (rule finite_subset [of _ "fset (fmdom m)"]) (auto simp: positive_def)

lemma positive_iff: "k \<in> positive m \<longleftrightarrow> mget 0 m k > 0"
  by (auto simp: positive_def mget_def fmlookup_dom_iff split: option.splits)

lemma positive_decrement:
  "positive (fmupd v (mget 0 m v - 1) m) = (if mget 0 m v = 1 then positive m - {v} else positive m)"
  by (auto simp: positive_iff split: if_splits)

lemma release_measure:
  "release vs m rel = (m', rel') \<Longrightarrow> card (positive m') + length rel' = card (positive m) + length rel"
proof (induction vs m rel rule: release.induct)
  case (2 v vs m rel)
  let ?m = "fmupd v (mget 0 m v - 1) m"
  have "card (positive ?m) + (if mget 0 m v = 1 then 1 else 0) = card (positive m)"
    unfolding positive_decrement using card_Suc_Diff1 [of "positive m" v] by (simp add: positive_iff)
  with 2(1) [OF refl refl] 2(2) show ?case by (auto simp: Let_def split: if_splits)
qed simp

function orderLoop :: "Template \<Rightarrow> string list \<Rightarrow> (string, int) fmap \<Rightarrow> string list \<Rightarrow> string list" where
  "orderLoop t [] remaining order = order"
| "orderLoop t (current # candidates) remaining order =
     (case release (forwardTargets (node_of t current)) remaining [] of
        (remaining', released) \<Rightarrow>
          orderLoop t (mergeSorted candidates (sort released)) remaining' (order @ [current]))"
  by pat_completeness auto
termination
  by (relation "measure (\<lambda>(t, cs, m, order). 2 * card (positive m) + length cs)")
    (auto dest!: release_measure [OF sym])

definition topologicalOrder :: "Template \<Rightarrow> string list result" where
  "topologicalOrder t =
     (let remaining = initialRemaining t;
          candidates = filter (\<lambda>nid. mget 0 remaining nid = 0) (sortedKeys remaining)
      in if candidates \<noteq> [Start t] then Inl ErrInvalidDefinition
         else let order = orderLoop t candidates remaining []
              in if length order \<noteq> mlen (TemplateNodes t) then Inl ErrInvalidDefinition else Inr order)"

section \<open>The order is topological\<close>

text \<open>How many forward edges from nodes outside \<open>P\<close> end in \<open>v\<close>.\<close>

definition openEdges :: "Template \<Rightarrow> string set \<Rightarrow> string \<Rightarrow> nat" where
  "openEdges t P v = length (filter (\<lambda>(u, w). u \<notin> P \<and> w = v) (forwardPairs t))"

definition nodeSet :: "Template \<Rightarrow> string set" where
  "nodeSet t = fset (fmdom (TemplateNodes t))"

lemma fold_zero_lookup:
  "fmlookup (fold (\<lambda>nid. fmupd nid (0::int)) ks m) k = (if k \<in> set ks then Some 0 else fmlookup m k)"
  by (induction ks arbitrary: m) auto

lemma fold_count:
  "fset (fmdom (fold (\<lambda>(u, v) m. if fmlookup m v = None then m else fmupd v (mget 0 m v + 1) m) es m)) = fset (fmdom m) \<and>
   (k |\<in>| fmdom m \<longrightarrow>
    mget 0 (fold (\<lambda>(u, v) m. if fmlookup m v = None then m else fmupd v (mget (0::int) m v + 1) m) es m) k =
      mget 0 m k + int (length (filter (\<lambda>(u, w). w = k) es)))"
proof (induction es arbitrary: m)
  case (Cons e es)
  obtain u v where e: "e = (u, v)" by force
  let ?m = "if fmlookup m v = None then m else fmupd v (mget 0 m v + 1) m"
  have dom: "fset (fmdom ?m) = fset (fmdom m)" by (auto simp: fmlookup_dom_iff insert_absorb)
  have val: "mget 0 ?m k = mget 0 m k + (if v = k then 1 else 0)" if "k |\<in>| fmdom m"
    using that by (auto simp: fmlookup_dom_iff)
  from Cons.IH [of ?m] dom val show ?case by (auto simp: e)
qed simp

lemma initialRemaining_spec:
  "fset (fmdom (initialRemaining t)) = nodeSet t"
  "v \<in> nodeSet t \<Longrightarrow> mget 0 (initialRemaining t) v = int (openEdges t {} v)"
proof -
  let ?m = "fold (\<lambda>nid. fmupd nid (0::int)) (sortedKeys (TemplateNodes t)) fmempty"
  have dom: "fset (fmdom ?m) = nodeSet t"
    by (auto simp: fmlookup_dom_iff fold_zero_lookup nodeSet_def split: if_splits)
  have zero: "mget 0 ?m v = 0" for v by (simp add: mget_def fold_zero_lookup split: option.splits)
  show "fset (fmdom (initialRemaining t)) = nodeSet t"
    unfolding initialRemaining_def using fold_count [of "forwardPairs t" ?m] dom by simp
  show "mget 0 (initialRemaining t) v = int (openEdges t {} v)" if "v \<in> nodeSet t"
    unfolding initialRemaining_def openEdges_def using fold_count [of "forwardPairs t" ?m v] dom that zero by simp
qed

lemma release_value:
  "release vs m rel = (m', rel') \<Longrightarrow> mget 0 m' v = mget 0 m v - int (count_list vs v)"
  by (induction vs m rel rule: release.induct) (auto simp: Let_def split: if_splits)

lemma release_released:
  "release vs m rel = (m', rel') \<Longrightarrow> distinct rel \<Longrightarrow> (\<And>v. v \<in> set rel \<Longrightarrow> mget 0 m v \<le> 0) \<Longrightarrow>
   distinct rel' \<and> set rel' = set rel \<union> {v. mget 0 m v > 0 \<and> mget 0 m' v \<le> 0}"
proof (induction vs m rel rule: release.induct)
  case (2 v vs m rel)
  let ?m = "fmupd v (mget 0 m v - 1) m"
  let ?rel = "if mget 0 m v = 1 then rel @ [v] else rel"
  have step: "release vs ?m ?rel = (m', rel')" using 2(2) by (simp add: Let_def)
  have le: "mget 0 m' w \<le> mget 0 ?m w" for w using release_value [OF step, of w] by simp
  have "v \<notin> set rel" if "mget 0 m v = 1" using 2(4) [of v] that by auto
  then have "distinct ?rel" "\<And>w. w \<in> set ?rel \<Longrightarrow> mget 0 ?m w \<le> 0"
    using 2(3) order_trans [OF 2(4), of _ 1] 2(4) by (auto split: if_splits)
  then have ih: "distinct rel' \<and> set rel' = set ?rel \<union> {w. mget 0 ?m w > 0 \<and> mget 0 m' w \<le> 0}"
    using 2(1) [OF refl refl] step by (simp split: if_splits)
  moreover have "set ?rel \<union> {w. mget 0 ?m w > 0 \<and> mget 0 m' w \<le> 0} = set rel \<union> {w. mget 0 m w > 0 \<and> mget 0 m' w \<le> 0}"
    using le [of v] by (auto split: if_splits)
  ultimately show ?case by simp
qed auto

lemma count_map_filter: "count_list (map snd (filter (\<lambda>(u, w). u = c) es)) v = length (filter (\<lambda>(u, w). u = c \<and> w = v) es)"
  by (induction es) auto

lemma filter_concat_pairs:
  "distinct us \<Longrightarrow> filter (\<lambda>(u, w). u = c) (concat (map (\<lambda>u. map (Pair u) (f u)) us)) =
    (if c \<in> set us then map (Pair c) (f c) else [])"
proof (induction us)
  case (Cons u us)
  have "filter (\<lambda>(u, w). u = c) (map (Pair u) xs) = (if u = c then map (Pair u) xs else [])" for xs
    by (induction xs) auto
  note one = this
  show ?case unfolding list.map concat.simps filter_append one using Cons by auto
qed simp

lemma openEdges_step:
  assumes "c \<in> nodeSet t" "c \<notin> P"
  shows "openEdges t P v = openEdges t (insert c P) v + count_list (forwardTargets (node_of t c)) v"
proof -
  have "filter (\<lambda>(u, w). u = c) (forwardPairs t) = map (Pair c) (forwardTargets (node_of t c))"
    unfolding forwardPairs_def filter_concat_pairs [OF sortedKeys_facts(3)] using assms(1)
    by (simp add: nodeSet_def)
  then have "count_list (forwardTargets (node_of t c)) v = length (filter (\<lambda>(u, w). u = c \<and> w = v) (forwardPairs t))"
    using count_map_filter [of c "forwardPairs t" v] by (simp add: comp_def)
  moreover have "length (filter (\<lambda>(u, w). u \<notin> P \<and> w = v) es) =
      length (filter (\<lambda>(u, w). u \<notin> insert c P \<and> w = v) es) + length (filter (\<lambda>(u, w). u = c \<and> w = v) es)" for es
    using assms(2) by (induction es) auto
  ultimately show ?thesis by (simp add: openEdges_def)
qed

text \<open>The loop invariant, and what it gives of the result.\<close>

definition orderInv :: "Template \<Rightarrow> string list \<Rightarrow> (string, int) fmap \<Rightarrow> string list \<Rightarrow> bool" where
  "orderInv t cs m order \<longleftrightarrow>
     distinct (order @ cs) \<and> set (order @ cs) = {v \<in> nodeSet t. openEdges t (set order) v = 0} \<and>
     (\<forall>v\<in>nodeSet t. mget 0 m v = int (openEdges t (set order) v)) \<and>
     (\<forall>v. v \<notin> nodeSet t \<longrightarrow> mget 0 m v \<le> 0) \<and>
     (\<forall>i<length order. \<forall>u. (u, order ! i) \<in> set (forwardPairs t) \<longrightarrow> u \<in> set (take i order))"

lemma orderInv_step:
  assumes inv: "orderInv t (c # cs) m order"
    and rel: "release (forwardTargets (node_of t c)) m [] = (m', released)"
  shows "orderInv t (mergeSorted cs (sort released)) m' (order @ [c])"
proof -
  let ?ts = "forwardTargets (node_of t c)" and ?P = "set order"
  from inv have dist: "distinct (order @ c # cs)"
    and elems: "set (order @ c # cs) = {v \<in> nodeSet t. openEdges t ?P v = 0}"
    and val: "\<And>v. v \<in> nodeSet t \<Longrightarrow> mget 0 m v = int (openEdges t ?P v)"
    and out: "\<And>v. v \<notin> nodeSet t \<Longrightarrow> mget 0 m v \<le> 0"
    and topo: "\<And>i u. i < length order \<Longrightarrow> (u, order ! i) \<in> set (forwardPairs t) \<Longrightarrow> u \<in> set (take i order)"
    unfolding orderInv_def by blast+
  have c: "c \<in> nodeSet t" "openEdges t ?P c = 0" using elems by auto
  have step: "openEdges t ?P v = openEdges t (insert c ?P) v + count_list ?ts v" for v
    using openEdges_step [OF c(1)] dist by simp
  have val': "mget 0 m' v = int (openEdges t (insert c ?P) v)" if "v \<in> nodeSet t" for v
    using release_value [OF rel, of v] val [OF that] step [of v] by simp
  have released: "distinct released" "set released = {v. mget 0 m v > 0 \<and> mget 0 m' v \<le> 0}"
    using release_released [OF rel] by auto
  have relset: "set released = {v \<in> nodeSet t. openEdges t ?P v \<noteq> 0 \<and> openEdges t (insert c ?P) v = 0}"
  proof (intro set_eqI)
    fix v
    show "v \<in> set released \<longleftrightarrow> v \<in> {v \<in> nodeSet t. openEdges t ?P v \<noteq> 0 \<and> openEdges t (insert c ?P) v = 0}"
    proof (cases "v \<in> nodeSet t")
      case True
      then show ?thesis using val [OF True] val' [OF True] by (simp add: released(2))
    next
      case False
      then show ?thesis using out [OF False] by (simp add: released(2))
    qed
  qed
  have "distinct (cs @ sort released)" using dist released(1) elems relset by auto
  then have dm: "distinct (mergeSorted cs (sort released))"
    by (metis mset_append mset_eq_imp_distinct_iff mset_mergeSorted)
  have "distinct ((order @ [c]) @ mergeSorted cs (sort released))"
    using dist dm elems relset by auto
  moreover have "set ((order @ [c]) @ mergeSorted cs (sort released)) =
      {v \<in> nodeSet t. openEdges t (insert c ?P) v = 0}"
  proof -
    have "set ((order @ [c]) @ mergeSorted cs (sort released)) = set (order @ c # cs) \<union> set released" by auto
    also have "\<dots> = {v \<in> nodeSet t. openEdges t (insert c ?P) v = 0}"
      unfolding elems relset using step by auto
    finally show ?thesis .
  qed
  moreover have "mget 0 m' v \<le> 0" if "v \<notin> nodeSet t" for v
    using release_value [OF rel, of v] out [OF that] by simp
  moreover have "u \<in> set (take i (order @ [c]))"
    if "i < length (order @ [c])" "(u, (order @ [c]) ! i) \<in> set (forwardPairs t)" for i u
  proof (cases "i < length order")
    case True
    with topo that show ?thesis by (simp add: nth_append)
  next
    case False
    with that have i: "i = length order" "(u, c) \<in> set (forwardPairs t)" by (auto simp: nth_append)
    from c(2) have "\<forall>(u, w)\<in>set (forwardPairs t). \<not> (u \<notin> ?P \<and> w = c)"
      unfolding openEdges_def by (auto simp: filter_empty_conv)
    with i show ?thesis by auto
  qed
  ultimately show ?thesis unfolding orderInv_def using val' by simp
qed

lemma orderLoop_spec:
  "orderInv t cs m order \<Longrightarrow> \<exists>m'. orderInv t [] m' (orderLoop t cs m order) \<and> take (length order) (orderLoop t cs m order) = order"
proof (induction t cs m order rule: orderLoop.induct)
  case (1 t m order)
  then show ?case by auto
next
  case (2 t c cs m order)
  obtain m' released where rel: "release (forwardTargets (node_of t c)) m [] = (m', released)" by force
  from 2(1) [OF rel [symmetric] orderInv_step [OF 2(2) rel]] obtain m'' where
    "orderInv t [] m'' (orderLoop t (mergeSorted cs (sort released)) m' (order @ [c]))"
    "take (length (order @ [c])) (orderLoop t (mergeSorted cs (sort released)) m' (order @ [c])) = order @ [c]" by blast
  then show ?case by (auto simp: rel) (metis append_eq_conv_conj append_take_drop_id append.assoc)
qed

lemma topologicalOrder_spec:
  assumes "topologicalOrder t = Inr order"
  shows "distinct order" "set order = nodeSet t" "order \<noteq> []" "hd order = Start t"
    "\<And>i u. i < length order \<Longrightarrow> (u, order ! i) \<in> set (forwardPairs t) \<Longrightarrow> u \<in> set (take i order)"
proof -
  let ?m = "initialRemaining t"
  from assms have cs: "filter (\<lambda>nid. mget 0 ?m nid = 0) (sortedKeys ?m) = [Start t]"
    and ord: "order = orderLoop t [Start t] ?m []" and len: "length order = mlen (TemplateNodes t)"
    by (auto simp: topologicalOrder_def Let_def split: if_splits)
  have "set (filter (\<lambda>nid. mget 0 ?m nid = 0) (sortedKeys ?m)) = {v \<in> nodeSet t. openEdges t {} v = 0}"
    using initialRemaining_spec(1) [of t] initialRemaining_spec(2) by auto
  then have start: "{v \<in> nodeSet t. openEdges t {} v = 0} = {Start t}" unfolding cs by simp
  have "mget 0 ?m v \<le> 0" if "v \<notin> nodeSet t" for v
    using that initialRemaining_spec(1) [of t] by (metis fmdom_notD mget_def option.simps(4) order_refl)
  then have "orderInv t [Start t] ?m []"
    unfolding orderInv_def using start initialRemaining_spec(2) by simp
  from orderLoop_spec [OF this] obtain m' where inv: "orderInv t [] m' order" unfolding ord by blast
  then have d: "distinct order" and sub: "set order \<subseteq> nodeSet t"
    and topo: "\<And>i u. i < length order \<Longrightarrow> (u, order ! i) \<in> set (forwardPairs t) \<Longrightarrow> u \<in> set (take i order)"
    unfolding orderInv_def by auto
  have "card (set order) = card (nodeSet t)"
    using distinct_card [OF d] len by (simp add: mlen_def nodeSet_def fcard.rep_eq)
  then show "set order = nodeSet t" using sub by (simp add: card_subset_eq nodeSet_def)
  show "distinct order" by (rule d)
  show "u \<in> set (take i order)" if "i < length order" "(u, order ! i) \<in> set (forwardPairs t)" for i u
    by (rule topo [OF that])
  obtain m1 released where rel: "release (forwardTargets (node_of t (Start t))) ?m [] = (m1, released)" by force
  have "orderInv t (mergeSorted [] (sort released)) m1 ([] @ [Start t])"
    by (rule orderInv_step [OF \<open>orderInv t [Start t] ?m []\<close> rel])
  from orderLoop_spec [OF this] have "take 1 order = [Start t]"
    unfolding ord by (auto simp: rel)
  then show "order \<noteq> []" "hd order = Start t" by (cases order; simp)+
qed

end
