(* ===== verification/Limits.thy ===== *)
theory Limits
  imports Topology Task_Commands
begin

text \<open>
  Resource limits of a template (\<open>model/limits.go\<close>) and the walks over its subprocess bodies
  (\<open>model/subprocess.go\<close>): saturating counts of the nodes and edges of the whole nested graph, and
  the shared budget of authoring diagnostics.
\<close>

section \<open>Saturating counts\<close>

definition MaxNormalizedDegree :: int where "MaxNormalizedDegree = 2046"
definition MaxNormalizedNodes :: int where "MaxNormalizedNodes = MaxNormalizedDegree + 2"
definition MaxNormalizedEdges :: int where "MaxNormalizedEdges = 2 * MaxNormalizedNodes"
definition MaxExecutableNodeIDBytes :: nat where "MaxExecutableNodeIDBytes = 256"
definition MaxSubprocessDepth :: nat where "MaxSubprocessDepth = 4"

definition saturatingCount :: "int \<Rightarrow> int \<Rightarrow> int" where
  "saturatingCount v maximum = (if v > maximum then maximum + 1 else v)"

definition saturatingAdd :: "int \<Rightarrow> int \<Rightarrow> int \<Rightarrow> int" where
  "saturatingAdd current increment maximum =
     (if current > maximum \<or> increment > maximum - current then maximum + 1 else current + increment)"

lemma saturatingAdd_min:
  assumes "0 \<le> c" "c \<le> m + 1" "0 \<le> i"
  shows "saturatingAdd c i m = min (c + i) (m + 1)"
  using assms by (auto simp: saturatingAdd_def)

record NormalizedGraphCardinality =
  gc_Nodes :: int
  gc_Edges :: int

definition saturated :: "NormalizedGraphCardinality \<Rightarrow> bool" where
  "saturated k \<longleftrightarrow> gc_Nodes k > MaxNormalizedNodes \<and> gc_Edges k > MaxNormalizedEdges"

definition addNodes :: "int \<Rightarrow> NormalizedGraphCardinality \<Rightarrow> NormalizedGraphCardinality" where
  "addNodes n k = k\<lparr>gc_Nodes := saturatingAdd (gc_Nodes k) n MaxNormalizedNodes\<rparr>"

definition addEdges :: "int \<Rightarrow> NormalizedGraphCardinality \<Rightarrow> NormalizedGraphCardinality" where
  "addEdges n k = k\<lparr>gc_Edges := saturatingAdd (gc_Edges k) n MaxNormalizedEdges\<rparr>"

definition edgesOfBody :: "Template \<Rightarrow> NormalizedGraphCardinality \<Rightarrow> NormalizedGraphCardinality" where
  "edgesOfBody body =
     fold (\<lambda>nid. addEdges (int (mlen (NextOf (node_of body nid))))) (sortedKeys (TemplateNodes body))"

text \<open>
  The walk over one scope: \<open>depth\<close> counts down from one more than the nesting limit.  The source
  ranges over the nodes in map order and leaves the loop once both counts are saturated; the counts
  do not depend on either.
\<close>

fun cardinalityWalk :: "nat \<Rightarrow> Template \<Rightarrow> NormalizedGraphCardinality \<Rightarrow> NormalizedGraphCardinality" where
  "cardinalityWalk 0 scope k = k"
| "cardinalityWalk (Suc d) scope k =
     fold (\<lambda>nid k.
             let node = node_of scope nid in
             if saturated k then k
             else if Type node \<noteq> NodeTypeSubprocess \<and> SubprocessOf node = None then k
             else (case Body (SubprocessOf node) of
                     None \<Rightarrow> k
                   | Some body \<Rightarrow>
                       cardinalityWalk d body
                         (edgesOfBody body (addNodes (int (mlen (TemplateNodes body))) k))))
       (sortedKeys (TemplateNodes scope)) k"

definition subprocessGraphCardinality :: "Template \<Rightarrow> NormalizedGraphCardinality" where
  "subprocessGraphCardinality t = cardinalityWalk (MaxSubprocessDepth + 2) t \<lparr>gc_Nodes = 0, gc_Edges = 0\<rparr>"

definition normalizedGraphCardinalityDiagnostics :: "NormalizedGraphCardinality \<Rightarrow> Diagnostics" where
  "normalizedGraphCardinalityDiagnostics k =
     (if gc_Nodes k > MaxNormalizedNodes
      then [diagError ''normalized_node_limit'' ''nodes''
        (''normalized node count exceeds '' @ show_int MaxNormalizedNodes @ '' (counted at least '' @
         show_int (MaxNormalizedNodes + 1) @ '')'')] else []) @
     (if gc_Edges k > MaxNormalizedEdges
      then [diagError ''normalized_edge_limit'' ''nodes''
        (''normalized edge count exceeds '' @ show_int MaxNormalizedEdges @ '' (counted at least '' @
         show_int (MaxNormalizedEdges + 1) @ '', including the synthetic start edge when present)'')] else [])"

definition scopeEdgeCount :: "Template \<Rightarrow> int \<Rightarrow> int" where
  "scopeEdgeCount t =
     fold (\<lambda>nid k. if k > MaxNormalizedEdges then k
                   else saturatingAdd k (int (mlen (NextOf (node_of t nid)))) MaxNormalizedEdges)
       (sortedKeys (TemplateNodes t))"

definition PreflightNormalizedGraphCardinality :: "Template \<Rightarrow> Diagnostics" where
  "PreflightNormalizedGraphCardinality t =
     (let nested = subprocessGraphCardinality t;
          nodes = saturatingCount (int (mlen (TemplateNodes t))) MaxNormalizedNodes;
          edges = scopeEdgeCount t (if Start t \<noteq> [] then 1 else 0)
      in normalizedGraphCardinalityDiagnostics
           \<lparr>gc_Nodes = saturatingAdd nodes (gc_Nodes nested) MaxNormalizedNodes,
            gc_Edges = saturatingAdd edges (gc_Edges nested) MaxNormalizedEdges\<rparr>)"

definition NormalizeEdgesWithinBudget :: "Template \<Rightarrow> Edge list \<times> Diagnostics" where
  "NormalizeEdgesWithinBudget t =
     (let pre = PreflightNormalizedGraphCardinality t in
      if HasErrors pre then ([], pre)
      else
        let edges = NormalizeEdges t in
        (edges, normalizedGraphCardinalityDiagnostics
           \<lparr>gc_Nodes = saturatingCount (int (mlen (TemplateNodes t))) MaxNormalizedNodes,
            gc_Edges = saturatingCount (int (length edges)) MaxNormalizedEdges\<rparr>))"

section \<open>Walking nested nodes\<close>

fun walkNodes :: "nat \<Rightarrow> Template \<Rightarrow> string \<Rightarrow> (string \<times> Node) list" where
  "walkNodes 0 t prefix = []"
| "walkNodes (Suc d) t prefix =
     concat (map (\<lambda>nid.
         let node = node_of t nid; fid = prefix @ nid in
         (fid, node) #
         (if Type node \<noteq> NodeTypeSubprocess then []
          else (case Body (SubprocessOf node) of None \<Rightarrow> [] | Some body \<Rightarrow> walkNodes d body (fid @ ''/''))))
       (sortedKeys (TemplateNodes t)))"

definition WalkNodes :: "Template \<Rightarrow> (string \<times> Node) list" where
  "WalkNodes t = walkNodes (MaxSubprocessDepth + 1) t []"

section \<open>The diagnostic budget\<close>

definition MaxProcessTemplateSourceBytes :: int where "MaxProcessTemplateSourceBytes = 4194304"
definition MaxTemplateAuthoringDiagnostics :: int where
  "MaxTemplateAuthoringDiagnostics = MaxNormalizedNodes + MaxNormalizedEdges"
definition MaxTemplateDiagnosticWireBytes :: int where
  "MaxTemplateDiagnosticWireBytes = MaxProcessTemplateSourceBytes - 4096"

definition templateDiagnosticWireCost :: "nat \<Rightarrow> nat \<Rightarrow> nat \<Rightarrow> int" where
  "templateDiagnosticWireCost codeBytes pathBytes messageBytes =
     (let maximum = MaxTemplateDiagnosticWireBytes + 1;
          text0 = saturatingAdd (int codeBytes) (saturatingAdd (int pathBytes) (int pathBytes) maximum) maximum;
          textBytes = saturatingAdd text0 (int messageBytes) maximum;
          expanded = (if textBytes \<le> maximum div 6 then textBytes * 6 else maximum)
      in saturatingAdd 256 expanded maximum)"

definition templateDiagnosticBudgetDiagnostic :: Diagnostic where
  "templateDiagnosticBudgetDiagnostic =
     diagError ''template_diagnostic_budget'' []
       (''process template diagnostics exceed the bounded authoring budget ('' @ show_int MaxTemplateAuthoringDiagnostics @
        '' findings or '' @ show_int MaxTemplateDiagnosticWireBytes @ '' encoded bytes)'')"

definition diagnosticCost :: "Diagnostic \<Rightarrow> int" where
  "diagnosticCost dg = templateDiagnosticWireCost (length (dg_Code dg)) (length (dg_Path dg)) (length (dg_Message dg))"

record templateDiagnosticBudget =
  tb_count :: int
  tb_wireBytes :: int
  tb_exhausted :: bool

record templateDiagnosticCollector =
  tc_budget :: templateDiagnosticBudget
  tc_diagnostics :: Diagnostics

definition fits :: "Diagnostic \<Rightarrow> templateDiagnosticBudget \<Rightarrow> bool" where
  "fits dg b \<longleftrightarrow>
     \<not> tb_exhausted b \<and> tb_count b < MaxTemplateAuthoringDiagnostics - 1 \<and>
     \<not> diagnosticCost dg > MaxTemplateDiagnosticWireBytes - diagnosticCost templateDiagnosticBudgetDiagnostic - tb_wireBytes b"

text \<open>Adding a finding to the root collector; \<open>False\<close> when the budget refuses it.\<close>

definition Add :: "Diagnostic \<Rightarrow> templateDiagnosticCollector \<Rightarrow> bool \<times> templateDiagnosticCollector" where
  "Add dg tc =
     (let b = tc_budget tc in
      if \<not> fits dg b then (False, tc\<lparr>tc_budget := b\<lparr>tb_exhausted := True\<rparr>\<rparr>)
      else (True, \<lparr>tc_budget = b\<lparr>tb_count := tb_count b + 1, tb_wireBytes := tb_wireBytes b + diagnosticCost dg\<rparr>,
                   tc_diagnostics = tc_diagnostics tc @ [dg]\<rparr>))"

fun AddAll :: "Diagnostics \<Rightarrow> templateDiagnosticCollector \<Rightarrow> bool \<times> templateDiagnosticCollector" where
  "AddAll [] tc = (True, tc)"
| "AddAll (dg # dgs) tc = (case Add dg tc of (ok, tc') \<Rightarrow> if ok then AddAll dgs tc' else (False, tc'))"

definition newTemplateDiagnosticCollector :: templateDiagnosticCollector where
  "newTemplateDiagnosticCollector =
     \<lparr>tc_budget = \<lparr>tb_count = 0, tb_wireBytes = 0, tb_exhausted = False\<rparr>, tc_diagnostics = []\<rparr>"

definition collectorDiagnostics :: "templateDiagnosticCollector \<Rightarrow> Diagnostics" where
  "collectorDiagnostics tc =
     (if tb_exhausted (tc_budget tc) \<and>
         (tc_diagnostics tc = [] \<or> dg_Code (last (tc_diagnostics tc)) \<noteq> ''template_diagnostic_budget'')
      then tc_diagnostics tc @ [templateDiagnosticBudgetDiagnostic] else tc_diagnostics tc)"

text \<open>The counters agree with the findings kept, which leave room for the sentinel.\<close>

definition budgetInv :: "templateDiagnosticCollector \<Rightarrow> bool" where
  "budgetInv tc \<longleftrightarrow>
     tb_count (tc_budget tc) = int (length (tc_diagnostics tc)) \<and>
     tb_wireBytes (tc_budget tc) = sum_list (map diagnosticCost (tc_diagnostics tc)) \<and>
     tb_count (tc_budget tc) \<le> MaxTemplateAuthoringDiagnostics - 1 \<and>
     tb_wireBytes (tc_budget tc) \<le> MaxTemplateDiagnosticWireBytes - diagnosticCost templateDiagnosticBudgetDiagnostic"

lemma budgetInv_Add: "budgetInv tc \<Longrightarrow> budgetInv (snd (Add dg tc))"
  by (auto simp: budgetInv_def Add_def Let_def fits_def)

lemma budgetInv_AddAll: "budgetInv tc \<Longrightarrow> budgetInv (snd (AddAll dgs tc))"
proof (induction dgs arbitrary: tc)
  case (Cons dg dgs)
  then show ?case using budgetInv_Add [of tc dg] by (auto split: prod.splits)
qed simp

lemma budgetInv_bounds:
  assumes "budgetInv tc"
  shows "int (length (collectorDiagnostics tc)) \<le> MaxTemplateAuthoringDiagnostics"
    "sum_list (map diagnosticCost (collectorDiagnostics tc)) \<le> MaxTemplateDiagnosticWireBytes"
proof -
  have "0 \<le> diagnosticCost templateDiagnosticBudgetDiagnostic"
    by (auto simp: diagnosticCost_def templateDiagnosticWireCost_def Let_def saturatingAdd_def
        MaxTemplateDiagnosticWireBytes_def MaxProcessTemplateSourceBytes_def)
  then show "int (length (collectorDiagnostics tc)) \<le> MaxTemplateAuthoringDiagnostics"
    "sum_list (map diagnosticCost (collectorDiagnostics tc)) \<le> MaxTemplateDiagnosticWireBytes"
    using assms by (auto simp: budgetInv_def collectorDiagnostics_def)
qed

text \<open>The empty collector leaves room for the sentinel.\<close>

lemma budgetInv_new: "budgetInv newTemplateDiagnosticCollector"
proof -
  have "diagnosticCost templateDiagnosticBudgetDiagnostic \<le> MaxTemplateDiagnosticWireBytes"
    by (simp add: diagnosticCost_def templateDiagnosticBudgetDiagnostic_def diagError_def templateDiagnosticWireCost_def Let_def
        saturatingAdd_def MaxTemplateDiagnosticWireBytes_def MaxProcessTemplateSourceBytes_def show_int_def
        MaxTemplateAuthoringDiagnostics_def MaxNormalizedNodes_def MaxNormalizedEdges_def MaxNormalizedDegree_def show_nat.simps)
  then show ?thesis
    by (simp add: budgetInv_def newTemplateDiagnosticCollector_def MaxTemplateAuthoringDiagnostics_def
        MaxNormalizedNodes_def MaxNormalizedEdges_def MaxNormalizedDegree_def)
qed

section \<open>The graph limits\<close>

lemma cardinality_bounds:
  "\<not> HasErrors (normalizedGraphCardinalityDiagnostics k) \<Longrightarrow> gc_Nodes k \<le> MaxNormalizedNodes \<and> gc_Edges k \<le> MaxNormalizedEdges"
  by (auto simp: normalizedGraphCardinalityDiagnostics_def HasErrors_def diagError_def split: if_splits)

lemma saturatingCount_le: "saturatingCount v m \<le> m \<Longrightarrow> v \<le> m"
  by (simp add: saturatingCount_def split: if_splits)

lemma normalized_bounds:
  assumes "\<not> HasErrors (snd (NormalizeEdgesWithinBudget t))"
  shows "int (length (fst (NormalizeEdgesWithinBudget t))) \<le> MaxNormalizedEdges \<and> int (mlen (TemplateNodes t)) \<le> MaxNormalizedNodes"
  using assms saturatingCount_le
  by (auto simp: NormalizeEdgesWithinBudget_def Let_def dest!: cardinality_bounds split: if_splits)

end
