(* ===== verification/Validate_Fields.thy ===== *)
theory Validate_Fields
  imports Text_Forms Limits
begin

text \<open>
  Validation of the fields of a template (\<open>model/validate.go\<close>): fallbacks, retries, durations,
  performers with their kind-scoped fields and choice outcomes, steps, captures, end results,
  parameter references and the layout.  A producer is the list of findings it feeds to the collector,
  in order.  The source passes the collector down and leaves a producer at the first refused finding;
  \<open>AddAll_append\<close> and \<open>AddAll_exhausted\<close> are why feeding the whole list gives the same collector:
  a chain of producers that stops at the first failure is one \<open>AddAll\<close> of their concatenation.
\<close>

section \<open>Feeding the collector\<close>

lemma AddAll_append:
  "AddAll (xs @ ys) tc = (case AddAll xs tc of (ok, tc') \<Rightarrow> if ok then AddAll ys tc' else (False, tc'))"
  by (induction xs arbitrary: tc) (auto split: prod.splits)

lemma AddAll_exhausted: "tb_exhausted (tc_budget tc) \<Longrightarrow> snd (AddAll xs tc) = tc"
proof (induction xs)
  case (Cons x xs)
  then have "Add x tc = (False, tc)" by (simp add: Add_def fits_def Let_def)
  then show ?case by simp
qed simp

text \<open>A finding under a condition, and the findings of the elements of a list with their positions.\<close>

abbreviation finding :: "bool \<Rightarrow> Diagnostic \<Rightarrow> Diagnostics" where
  "finding b dg \<equiv> (if b then [dg] else [])"

definition indexed :: "(nat \<Rightarrow> 'a \<Rightarrow> Diagnostics) \<Rightarrow> 'a list \<Rightarrow> Diagnostics" where
  "indexed f xs = concat (map (\<lambda>(i, x). f i x) (enumerate 0 xs))"

definition at_index :: "string \<Rightarrow> nat \<Rightarrow> string" where
  "at_index path i = path @ ''['' @ show_nat i @ '']''"

lemma HasErrors_append [simp]: "HasErrors (xs @ ys) \<longleftrightarrow> HasErrors xs \<or> HasErrors ys"
  by (auto simp: HasErrors_def)

lemma HasErrors_Nil [simp]: "\<not> HasErrors []"
  by (simp add: HasErrors_def)

lemma HasErrors_error [simp]: "HasErrors (finding b (diagError c p m)) \<longleftrightarrow> b"
  by (simp add: HasErrors_def diagError_def)

lemma HasErrors_warning [simp]: "\<not> HasErrors (finding b (diagWarning c p m))"
  by (simp add: HasErrors_def diagWarning_def)

lemma HasErrors_Cons: "HasErrors (x # xs) \<longleftrightarrow> dg_Severity x = SeverityError \<or> HasErrors xs"
  by (simp add: HasErrors_def)

lemma HasErrors_concat: "HasErrors (concat xss) \<longleftrightarrow> (\<exists>xs\<in>set xss. HasErrors xs)"
  by (auto simp: HasErrors_def list_ex_iff)

section \<open>Simple values\<close>

fun kindString :: "PerformerKind \<Rightarrow> string" where
  "kindString PerformerHuman = ''human''"
| "kindString PerformerAgent = ''agent''"
| "kindString PerformerProgram = ''program''"
| "kindString (PerformerOther s) = s"

definition checkInertParamRef :: "string \<Rightarrow> string \<Rightarrow> Diagnostics" where
  "checkInertParamRef path v =
     finding (ParamReferences v \<noteq> []) (diagWarning ''inert_param_ref'' path
       ''param references are only interpolated in performer prompt, ask, run, and args; this field is used literally'')"

definition validateDuration :: "string \<Rightarrow> string \<Rightarrow> Diagnostics" where
  "validateDuration path v =
     (if isBlank v then []
      else (case ParseDuration (TrimSpace v) of
              None \<Rightarrow> [diagError ''invalid_duration'' path (''must be a Go duration such as 30s, 5m, or 1h30m; got '' @ quote v)]
            | Some d \<Rightarrow> finding (d \<le> 0) (diagError ''invalid_duration'' path (''must be a positive duration; got '' @ quote v))))"

definition validateUntil :: "string \<Rightarrow> string \<Rightarrow> Diagnostics" where
  "validateUntil path v =
     (if isBlank v then []
      else finding (\<not> ParseRFC3339 v) (diagError ''invalid_until'' path
             (''must be an RFC3339 timestamp such as 2026-07-14T10:03:44Z; got '' @ quote v)))"

definition validateFallback :: "PerformerFallback option \<Rightarrow> string \<Rightarrow> Diagnostics" where
  "validateFallback fb path =
     (case fb of
        None \<Rightarrow> []
      | Some f \<Rightarrow>
          finding (fb_Action f \<notin> {''spawn'', ''wait'', ''fail''})
            (diagError ''invalid_fallback'' (path @ ''.action'')
               (''fallback action must be '' @ quote ''spawn'' @ '', '' @ quote ''wait'' @ '' or '' @ quote ''fail'')) @
          finding (\<not> isBlank (fb_Profile f) \<and> fb_Action f \<noteq> ''spawn'')
            (diagError ''invalid_fallback'' (path @ ''.profile'') ''a fallback profile is only valid with action spawn'') @
          checkInertParamRef (path @ ''.profile'') (fb_Profile f))"

definition validateRetry :: "RetryPolicy option \<Rightarrow> string \<Rightarrow> Diagnostics" where
  "validateRetry retry path =
     (case retry of
        None \<Rightarrow> []
      | Some r \<Rightarrow>
          finding (rp_MaxAttempts r \<le> 0)
            (diagError ''invalid_retry_budget'' (path @ ''.maxAttempts'') ''retry policy requires maxAttempts greater than zero'') @
          finding (rp_OnFail r \<notin> {[], ''feedback-same-session'', ''fresh-attempt''})
            (diagError ''invalid_retry_mode'' (path @ ''.onFail'')
               (''retry onFail must be feedback-same-session or fresh-attempt; got '' @ quote (rp_OnFail r))) @
          checkInertParamRef (path @ ''.backoff'') (rp_Backoff r) @
          validateDuration (path @ ''.backoff'') (rp_Backoff r))"

definition validateEndResult :: "string \<Rightarrow> string \<Rightarrow> Diagnostics" where
  "validateEndResult result path =
     (if isBlank result then []
      else finding (ToLower (TrimSpace result) \<notin>
             {''success'', ''succeeded'', ''complete'', ''completed'', ''done'', ''pass'', ''passed'', ''ok'',
              ''fail'', ''failed'', ''failure'', ''error'', ''cancel'', ''canceled'', ''cancelled''})
             (diagError ''invalid_end_result'' path
                (''end node result must be success, failed, or canceled; got '' @ quote result)))"

section \<open>Performers\<close>

definition scopedField :: "Performer \<Rightarrow> string \<Rightarrow> string \<Rightarrow> bool \<Rightarrow> PerformerKind list \<Rightarrow> Diagnostics" where
  "scopedField performer path field isSet kinds =
     finding (isSet \<and> p_Kind performer \<notin> set kinds)
       (diagError ''kind_scoped_field'' (path @ ''.'' @ field)
          (field @ '' is only valid on '' @
           (case map kindString kinds of [] \<Rightarrow> [] | k # ks \<Rightarrow> k @ concat (map (\<lambda>x. '' or '' @ x) ks)) @ '' performers''))"

definition agentSelectors :: "Performer \<Rightarrow> nat" where
  "agentSelectors p =
     length (filter id [\<not> isBlank (p_Assignee p) \<and> p_Kind p = PerformerAgent, \<not> isBlank (p_Role p), p_Anyone p])"

definition validateKindScopedFields :: "Performer \<Rightarrow> string \<Rightarrow> Diagnostics" where
  "validateKindScopedFields p path =
     (if p_Kind p \<notin> {PerformerHuman, PerformerAgent, PerformerProgram} then []
      else
        scopedField p path ''ask'' (\<not> isBlank (p_Ask p)) [PerformerHuman] @
        scopedField p path ''choices'' (p_Choices p \<noteq> []) [PerformerHuman] @
        scopedField p path ''choiceOutcomes'' (p_ChoiceOutcomes p \<noteq> fmempty) [PerformerHuman] @
        scopedField p path ''assignee'' (\<not> isBlank (p_Assignee p)) [PerformerHuman, PerformerAgent] @
        scopedField p path ''spawn'' (\<not> isBlank (p_Spawn p)) [PerformerAgent] @
        scopedField p path ''role'' (\<not> isBlank (p_Role p)) [PerformerAgent] @
        scopedField p path ''anyone'' (p_Anyone p) [PerformerAgent] @
        scopedField p path ''fallback'' (p_Fallback p \<noteq> None) [PerformerAgent] @
        scopedField p path ''prompt'' (\<not> isBlank (p_Prompt p)) [PerformerAgent, PerformerHuman] @
        scopedField p path ''model'' (\<not> isBlank (p_Model p)) [PerformerAgent] @
        scopedField p path ''effort'' (\<not> isBlank (p_Effort p)) [PerformerAgent] @
        scopedField p path ''run'' (\<not> isBlank (p_Run p)) [PerformerProgram] @
        scopedField p path ''args'' (p_Args p \<noteq> []) [PerformerProgram] @
        finding (\<not> isBlank (p_Spawn p) \<and> p_Spawn p \<noteq> ''allowed'' \<and> p_Spawn p \<noteq> ''never'')
          (diagError ''invalid_spawn'' (path @ ''.spawn'') (''spawn must be '' @ quote ''allowed'' @ '' or '' @ quote ''never'')) @
        finding (agentSelectors p > 1)
          (diagError ''conflicting_performer_selector'' path ''an agent performer names at most one of assignee, role and anyone'') @
        finding (p_Fallback p \<noteq> None \<and> \<not> isBlank (p_Spawn p))
          (diagError ''conflicting_fallback'' (path @ ''.spawn'') ''spawn is the legacy form of fallback; set fallback only'') @
        validateFallback (p_Fallback p) (path @ ''.fallback'') @
        indexed (\<lambda>i choice. finding (isBlank choice)
          (diagError ''invalid_choice'' (at_index (path @ ''.choices'') i) ''choices must not be blank'')) (p_Choices p) @
        checkInertParamRef (path @ ''.assignee'') (p_Assignee p) @
        checkInertParamRef (path @ ''.role'') (p_Role p) @
        checkInertParamRef (path @ ''.model'') (p_Model p) @
        checkInertParamRef (path @ ''.effort'') (p_Effort p) @
        indexed (\<lambda>i choice. checkInertParamRef (at_index (path @ ''.choices'') i) choice) (p_Choices p))"

text \<open>The first position whose element satisfies a predicate.\<close>

fun firstIndex :: "('a \<Rightarrow> bool) \<Rightarrow> 'a list \<Rightarrow> nat option" where
  "firstIndex P [] = None"
| "firstIndex P (x # xs) = (if P x then Some 0 else map_option Suc (firstIndex P xs))"

definition choiceOutcome :: "Performer \<Rightarrow> string \<Rightarrow> string \<Rightarrow> Diagnostics" where
  "choiceOutcome p path label =
     (case fmlookup (p_ChoiceOutcomes p) label of
        None \<Rightarrow> [diagError ''missing_choice_outcome'' (path @ ''.choiceOutcomes.'' @ label)
                   (''choice '' @ quote label @ '' requires an explicit pass or fail outcome'')]
      | Some oc \<Rightarrow> finding (TrimSpace oc \<notin> {''pass'', ''fail''})
                   (diagError ''invalid_choice_outcome'' (path @ ''.choiceOutcomes.'' @ label)
                      (''choice outcome must be pass or fail; got '' @ quote oc)))"

text \<open>
  The loop over the choices: the labels seen so far, blank ones skipped.  The position a duplicate is
  reported to conflict with is its position among these labels.
\<close>

fun choiceLoop :: "Performer \<Rightarrow> string \<Rightarrow> nat \<Rightarrow> string list \<Rightarrow> string list \<Rightarrow> Diagnostics \<times> string list" where
  "choiceLoop p path i labels [] = ([], labels)"
| "choiceLoop p path i labels (raw # rest) =
     (let label = TrimSpace raw; choicePath = at_index (path @ ''.choices'') i in
      if label = [] then choiceLoop p path (Suc i) labels rest
      else
        let here = finding (raw \<noteq> label)
                     (diagError ''noncanonical_choice'' choicePath ''choice labels must not have leading or trailing whitespace'') @
                   (case firstIndex (\<lambda>existing. EqualFold existing label) labels of
                      None \<Rightarrow> []
                    | Some first \<Rightarrow> [diagError ''duplicate_choice'' choicePath
                        (''choice '' @ quote label @ '' conflicts with '' @ at_index ''choices'' first @ '' under case-insensitive matching'')]) @
                   choiceOutcome p path label;
            (more, all) = choiceLoop p path (Suc i) (labels @ [label]) rest
        in (here @ more, all))"

definition validateChoiceOutcomes :: "Performer \<Rightarrow> string \<Rightarrow> bool \<Rightarrow> Diagnostics" where
  "validateChoiceOutcomes p path decision =
     (if p_Kind p \<noteq> PerformerHuman then []
      else if decision then
        finding (p_ChoiceOutcomes p \<noteq> fmempty)
          (diagError ''choice_outcomes_on_decision'' (path @ ''.choiceOutcomes'')
             ''decision performer choices route through outcome edges; choiceOutcomes is not applicable'')
      else
        let (found, labels) = choiceLoop p path 0 [] (p_Choices p) in
        found @
        concat (map (\<lambda>key. finding (key \<notin> set labels)
            (diagError ''extra_choice_outcome'' (path @ ''.choiceOutcomes.'' @ key)
               (''choice outcome key '' @ quote key @ '' does not exactly match an authored choice label'')))
          (sortedKeys (p_ChoiceOutcomes p))))"

definition validatePerformerKind :: "Performer \<Rightarrow> string \<Rightarrow> Diagnostics" where
  "validatePerformerKind p path =
     (case p_Kind p of
        PerformerAgent \<Rightarrow> finding (isBlank (p_Prompt p)) (diagError ''missing_prompt'' (path @ ''.prompt'') ''agent performer requires prompt'')
      | PerformerHuman \<Rightarrow> finding (isBlank (p_Ask p) \<and> isBlank (p_Prompt p))
          (diagError ''missing_prompt'' (path @ ''.ask'') ''human performer requires ask or prompt'')
      | PerformerProgram \<Rightarrow> finding (isBlank (p_Run p)) (diagError ''missing_run'' (path @ ''.run'') ''program performer requires run'')
      | PerformerOther k \<Rightarrow> [diagError ''invalid_performer_kind'' (path @ ''.kind'') (''unsupported performer kind '' @ quote k)])"

definition validateContact :: "ContactSchedule option \<Rightarrow> string \<Rightarrow> Diagnostics" where
  "validateContact contact path =
     (case contact of
        None \<Rightarrow> []
      | Some k \<Rightarrow>
          validateDuration (path @ ''.contact.cadence'') (cs_Cadence k) @
          finding (TrimSpace (cs_Cadence k) = [])
            (diagError ''missing_contact_cadence'' (path @ ''.contact.cadence'') ''contact schedule requires cadence'') @
          finding (cs_Budget k \<le> 0)
            (diagError ''invalid_contact_budget'' (path @ ''.contact.budget'') ''contact schedule requires budget greater than zero'') @
          finding (TrimSpace (cs_EscalationTarget k) = [])
            (diagError ''missing_escalation_target'' (path @ ''.contact.escalationTarget'') ''contact schedule requires an escalation target''))"

definition validatePerformer :: "Performer \<Rightarrow> string \<Rightarrow> bool \<Rightarrow> Diagnostics" where
  "validatePerformer p path decision =
     validatePerformerKind p path @
     validateKindScopedFields p path @
     validateChoiceOutcomes p path decision @
     checkInertParamRef (path @ ''.profile'') (p_Profile p) @
     checkInertParamRef (path @ ''.timeout'') (p_Timeout p) @
     validateDuration (path @ ''.timeout'') (p_Timeout p) @
     validateContact (p_Contact p) path"

text \<open>The dispatch-time check of a persisted performer: the first finding, if any.\<close>

definition ValidateChoiceRouting :: "Performer \<Rightarrow> bool \<Rightarrow> string option" where
  "ValidateChoiceRouting p decision =
     (case collectorDiagnostics (snd (AddAll (validateChoiceOutcomes p ''performer'' decision) newTemplateDiagnosticCollector)) of
        [] \<Rightarrow> None
      | dg # _ \<Rightarrow> Some (dg_Path dg @ '': '' @ dg_Message dg))"

section \<open>Steps\<close>

definition validateStep :: "Step \<Rightarrow> string \<Rightarrow> bool \<Rightarrow> Diagnostics" where
  "validateStep step path allowApproval =
     (if TrimSpace (sp_ID step) = []
      then [diagError ''missing_step_id'' (path @ ''.id'') ''step id is required'']
      else finding (\<not> idPattern (sp_ID step)) (diagError ''invalid_id'' (path @ ''.id'') (''step id must match '' @ idPatternString))) @
     (if sp_Approval step = [] then []
      else if \<not> allowApproval
      then [diagError ''approval_on_non_plan_step'' (path @ ''.approval'') ''approval is only valid on plan steps'']
      else finding (sp_Approval step \<noteq> ''human'' \<and> sp_Approval step \<noteq> ''auto'')
             (diagError ''invalid_plan_approval'' (path @ ''.approval'')
                (''plan approval must be human or auto; got '' @ quote (sp_Approval step)))) @
     (if sp_ApprovalRetry step = None then []
      else if \<not> allowApproval
      then [diagError ''approval_retry_on_non_plan_step'' (path @ ''.approvalRetry'') ''approvalRetry is only valid on plan steps'']
      else finding (sp_Approval step \<noteq> ''human'')
             (diagError ''approval_retry_without_human_approval'' (path @ ''.approvalRetry'') ''approvalRetry requires approval: human'')) @
     validatePerformer (sp_Performer step) (path @ ''.performer'') False @
     validateRetry (sp_ApprovalRetry step) (path @ ''.approvalRetry'') @
     validateRetry (sp_Retry step) (path @ ''.retry'')"

text \<open>The checks of a task, each step id remembered with its first position.\<close>

fun checkLoop :: "string \<Rightarrow> nat \<Rightarrow> (string, nat) fmap \<Rightarrow> Step list \<Rightarrow> Diagnostics" where
  "checkLoop path i seen [] = []"
| "checkLoop path i seen (step # steps) =
     (let checkPath = at_index (path @ ''.checks'') i in
      validateStep step checkPath False @
      (if sp_ID step = [] then checkLoop path (Suc i) seen steps
       else (case fmlookup seen (sp_ID step) of
               Some first \<Rightarrow>
                 diagError ''duplicate_step_id'' (checkPath @ ''.id'')
                   (''check step id '' @ quote (sp_ID step) @ '' is already used by '' @ at_index ''checks'' first) #
                 checkLoop path (Suc i) seen steps
             | None \<Rightarrow> checkLoop path (Suc i) (fmupd (sp_ID step) i seen) steps)))"

fun captureLoop :: "string \<Rightarrow> nat \<Rightarrow> (string, nat) fmap \<Rightarrow> string list \<Rightarrow> Diagnostics" where
  "captureLoop path i seen [] = []"
| "captureLoop path i seen (name # names) =
     (let capturePath = at_index (path @ ''.captures'') i in
      if \<not> idPattern name
      then diagError ''invalid_id'' capturePath (''capture name must match '' @ idPatternString) # captureLoop path (Suc i) seen names
      else (case fmlookup seen name of
              Some first \<Rightarrow>
                diagError ''duplicate_capture'' capturePath
                  (''capture name '' @ quote name @ '' is already used by '' @ at_index ''captures'' first) #
                captureLoop path (Suc i) seen names
            | None \<Rightarrow> captureLoop path (Suc i) (fmupd name i seen) names))"

definition validateCaptures :: "Node \<Rightarrow> string \<Rightarrow> Diagnostics" where
  "validateCaptures node path =
     (if Captures node = [] then []
      else finding (Type node \<noteq> NodeTypeTask)
             (diagError ''captures_on_non_task_node'' (path @ ''.captures'') ''captures are only valid on task nodes'') @
           captureLoop path 0 fmempty (Captures node))"

section \<open>Parameter references\<close>

definition collectParamRefs :: "string list \<Rightarrow> string \<Rightarrow> string \<Rightarrow> Severity \<Rightarrow> Diagnostics" where
  "collectParamRefs declared path v severity =
     concat (map (\<lambda>name. finding (name \<notin> set declared)
         ((if severity = SeverityWarning then diagWarning else diagError) ''undeclared_param_ref'' path
            (''reference to undeclared param '' @ quote name)))
       (ParamReferences v))"

definition collectExecutableParamRefs :: "string list \<Rightarrow> string \<Rightarrow> string \<Rightarrow> Diagnostics" where
  "collectExecutableParamRefs declared path v = collectParamRefs declared path v SeverityError"

definition collectProseParamRefs :: "string list \<Rightarrow> string \<Rightarrow> string \<Rightarrow> Diagnostics" where
  "collectProseParamRefs declared path v = collectParamRefs declared path v SeverityWarning"

text \<open>The three prose fields of a struct.\<close>

definition proseParamRefs :: "string list \<Rightarrow> string \<Rightarrow> Prose \<Rightarrow> Diagnostics" where
  "proseParamRefs declared prefix px =
     collectProseParamRefs declared (prefix @ ''name'') (tx_Name px) @
     collectProseParamRefs declared (prefix @ ''description'') (tx_Description px) @
     collectProseParamRefs declared (prefix @ ''doc'') (tx_Doc px)"

definition collectPerformerParamRefs :: "string list \<Rightarrow> string \<Rightarrow> Performer \<Rightarrow> Diagnostics" where
  "collectPerformerParamRefs declared path p =
     collectExecutableParamRefs declared (path @ ''.prompt'') (p_Prompt p) @
     collectExecutableParamRefs declared (path @ ''.ask'') (p_Ask p) @
     collectExecutableParamRefs declared (path @ ''.run'') (p_Run p) @
     indexed (\<lambda>i arg. collectExecutableParamRefs declared (at_index (path @ ''.args'') i) arg) (p_Args p)"

definition collectStepParamRefs :: "string list \<Rightarrow> string \<Rightarrow> Step \<Rightarrow> Diagnostics" where
  "collectStepParamRefs declared path step =
     proseParamRefs declared (path @ ''.'') (sp_Prose step) @
     collectPerformerParamRefs declared (path @ ''.performer'') (sp_Performer step)"

definition collectNodeParamRefs :: "string list \<Rightarrow> string \<Rightarrow> Node \<Rightarrow> Diagnostics" where
  "collectNodeParamRefs declared path node =
     proseParamRefs declared (path @ ''.'') (NodeProse node) @
     (case NodePerformer node of None \<Rightarrow> [] | Some p \<Rightarrow> collectPerformerParamRefs declared (path @ ''.performer'') p) @
     (case Plan node of None \<Rightarrow> [] | Some plan \<Rightarrow> collectStepParamRefs declared (path @ ''.plan'') plan) @
     indexed (\<lambda>i check. collectStepParamRefs declared (at_index (path @ ''.checks'') i) check) (Checks node) @
     (case Review node of None \<Rightarrow> [] | Some review \<Rightarrow> collectStepParamRefs declared (path @ ''.review'') review)"

definition validateParamRefs :: "Template \<Rightarrow> Diagnostics" where
  "validateParamRefs t =
     (let declared = sortedKeys (Params t) in
      proseParamRefs declared [] (TemplateProse t) @
      concat (map (\<lambda>pid. proseParamRefs declared (''params.'' @ pid @ ''.'') (pm_Prose (mget zeroParam (Params t) pid)))
        (sortedKeys (Params t))) @
      concat (map (\<lambda>nid. collectNodeParamRefs declared (''nodes.'' @ nid) (node_of t nid)) (sortedKeys (TemplateNodes t))))"

section \<open>Layout\<close>

text \<open>\<open>strings.Split\<close> at the separator byte, and the node a layout key names.\<close>

fun splitAt :: "char \<Rightarrow> string \<Rightarrow> string list" where
  "splitAt sep [] = [[]]"
| "splitAt sep (c # s) =
     (case splitAt sep s of
        [] \<Rightarrow> []
      | part # parts \<Rightarrow> if c = sep then [] # part # parts else (c # part) # parts)"

fun layoutParts :: "(string, Node) fmap \<Rightarrow> string list \<Rightarrow> Node option" where
  "layoutParts nodes [] = None"
| "layoutParts nodes (part # parts) =
     (case fmlookup nodes part of
        None \<Rightarrow> None
      | Some node \<Rightarrow>
          if parts = [] then Some node
          else (case SubprocessOf node of
                  None \<Rightarrow> None
                | Some s \<Rightarrow> if IsInline s then layoutParts (SubNodes s) parts else None))"

definition layoutNode :: "(string, Node) fmap \<Rightarrow> string \<Rightarrow> Node option" where
  "layoutNode nodes key = layoutParts nodes (splitAt (CHR ''/'') key)"

definition validateLayout :: "Template \<Rightarrow> Diagnostics" where
  "validateLayout t =
     (case LayoutOf t of
        None \<Rightarrow> []
      | Some ly \<Rightarrow>
          finding (ly_Direction ly \<notin> {[], ''down'', ''right'', ''up'', ''left''})
            (diagError ''invalid_layout_direction'' ''layout.direction''
               (''layout direction '' @ quote (ly_Direction ly) @ '' must be one of down, right, up, left'')) @
          concat (map (\<lambda>nid. finding (layoutNode (TemplateNodes t) nid = None)
              (diagWarning ''stale_layout_node'' (''layout.nodes.'' @ nid) (''layout references undeclared node '' @ quote nid)))
            (sorted_list_of_fset (ly_Nodes ly))) @
          concat (map (\<lambda>from.
              (case layoutNode (TemplateNodes t) from of
                 None \<Rightarrow> [diagWarning ''stale_layout_edge'' (''layout.edges.'' @ from) (''layout references undeclared node '' @ quote from)]
               | Some node \<Rightarrow>
                   concat (map (\<lambda>oc. finding (fmlookup (NextOf node) oc = None)
                       (diagWarning ''stale_layout_edge'' (''layout.edges.'' @ from @ ''.'' @ oc)
                          (''layout references undeclared outcome '' @ quote oc @ '' on node '' @ quote from)))
                     (sorted_list_of_fset (mget {||} (ly_Edges ly) from)))))
            (sortedKeys (ly_Edges ly))))"

end
