(* ===== verification/Graph_Walks.thy ===== *)
theory Graph_Walks
  imports Validate_Fields
begin

text \<open>
  The recursive walks of authoring validation (\<open>model/validate.go\<close>): \<open>validateReachability\<close> and the
  cycle search of \<open>validateAcyclic\<close>, each a depth-first search whose recursive calls thread the set of
  visited nodes.  Both are total; the first computes the nodes reachable from the start, the second
  reports nothing exactly when the edges that are not exempt form no cycle.
\<close>

section \<open>Adjacency\<close>

definition adjacency :: "Edge list \<Rightarrow> (string, string list) fmap" where
  "adjacency es = fold (\<lambda>e adj. if ed_From e = [] then adj else mappend (ed_From e) (ed_To e) adj) es fmempty"

definition edgeRel :: "Edge list \<Rightarrow> (string \<times> string) set" where
  "edgeRel es = {(ed_From e, ed_To e) | e. e \<in> set es \<and> ed_From e \<noteq> []}"

lemma adjRel_mappend: "adjRel (mappend a b adj) = insert (a, b) (adjRel adj)"
  by (auto simp: adjRel_def mappend_def split: if_splits)

lemma adjacency_fold:
  "adjRel (fold (\<lambda>e adj. if ed_From e = [] then adj else mappend (ed_From e) (ed_To e) adj) es adj) = edgeRel es \<union> adjRel adj"
  by (induction es arbitrary: adj) (auto simp: edgeRel_def adjRel_mappend)

lemma adjRel_adjacency: "adjRel (adjacency es) = edgeRel es"
  unfolding adjacency_def adjacency_fold by (simp add: adjRel_def)

definition visited :: "(string, 'v) fmap \<Rightarrow> string set \<Rightarrow> nat" where
  "visited adj seen = card (fset (fmdom adj) - seen)"

lemma visited_insert:
  "k |\<in>| fmdom adj \<Longrightarrow> k \<notin> seen \<Longrightarrow> insert k seen \<subseteq> seen' \<Longrightarrow> visited adj seen' < visited adj seen"
  unfolding visited_def by (intro psubset_card_mono) auto

lemma visited_mono: "seen \<subseteq> seen' \<Longrightarrow> visited adj seen' \<le> visited adj seen"
  unfolding visited_def by (intro card_mono) auto

lemma mget_undefined: "k |\<notin>| fmdom adj \<Longrightarrow> mget [] adj k = []"
  by (simp add: mget_def fmdom_notD)

section \<open>Reachability\<close>

text \<open>\<open>visit\<close> on each of a list of nodes; \<open>nodes\<close> are the declared ones.\<close>

function reachVisits :: "string fset \<Rightarrow> (string, string list) fmap \<Rightarrow> string list \<Rightarrow> string fset \<Rightarrow> string fset" where
  "reachVisits nodes adj [] seen = seen"
| "reachVisits nodes adj (nid # ids) seen =
     (if nid |\<in>| seen then reachVisits nodes adj ids seen
      else reachVisits nodes adj ids
             (reachVisits nodes adj (filter (\<lambda>to. to |\<in>| nodes) (mget [] adj nid)) (finsert nid seen)))"
  by pat_completeness auto

lemma reachVisits_grows:
  "reachVisits_dom (nodes, adj, ids, seen) \<Longrightarrow> seen |\<subseteq>| reachVisits nodes adj ids seen"
  by (induction nodes adj ids seen rule: reachVisits.pinduct) (auto simp: reachVisits.psimps)

termination reachVisits
proof (relation "measures [\<lambda>(nodes, adj, ids, seen). visited adj (fset seen), \<lambda>(nodes, adj, ids, seen). length ids]",
    simp, goal_cases)
  case (1 nodes adj nid ids seen)
  then show ?case by simp
next
  case (2 nodes adj nid ids seen)
  show ?case
  proof (cases "nid |\<in>| fmdom adj")
    case True
    with 2 show ?thesis by (auto intro!: visited_insert)
  next
    case False
    then show ?thesis using visited_mono [of "fset seen" "fset (finsert nid seen)" adj]
      by (auto simp: mget_undefined le_less)
  qed
next
  case (3 nodes adj nid ids seen)
  have "fset seen \<subseteq> fset (reachVisits nodes adj (filter (\<lambda>to. to |\<in>| nodes) (mget [] adj nid)) (finsert nid seen))"
    using reachVisits_grows [OF 3(2)] by auto
  from visited_mono [OF this, of adj] show ?case by auto
qed

definition insideRel :: "string fset \<Rightarrow> (string, string list) fmap \<Rightarrow> (string \<times> string) set" where
  "insideRel nodes adj = {(a, b). (a, b) \<in> adjRel adj \<and> b |\<in>| nodes}"

lemma reachVisits_sub: "seen |\<subseteq>| reachVisits nodes adj ids seen"
  by (induction nodes adj ids seen rule: reachVisits.induct) auto

lemma reachVisits_covers: "set ids \<subseteq> fset (reachVisits nodes adj ids seen)"
proof (induction nodes adj ids seen rule: reachVisits.induct)
  case (2 nodes adj nid ids seen)
  show ?case
  proof (cases "nid |\<in>| seen")
    case True
    with 2(1) reachVisits_sub [of seen nodes adj ids] show ?thesis by auto
  next
    case False
    let ?s = "reachVisits nodes adj (filter (\<lambda>to. to |\<in>| nodes) (mget [] adj nid)) (finsert nid seen)"
    have "nid |\<in>| reachVisits nodes adj ids ?s"
      using reachVisits_sub [of "finsert nid seen" nodes adj "filter (\<lambda>to. to |\<in>| nodes) (mget [] adj nid)"]
        reachVisits_sub [of ?s nodes adj ids] by auto
    with False 2(3) show ?thesis by simp
  qed
qed simp

text \<open>Every node that a call adds has its successors among the visited ones afterwards.\<close>

lemma reachVisits_closed:
  "a |\<in>| reachVisits nodes adj ids seen \<Longrightarrow> a |\<notin>| seen \<Longrightarrow> (a, b) \<in> insideRel nodes adj \<Longrightarrow>
   b |\<in>| reachVisits nodes adj ids seen"
proof (induction nodes adj ids seen rule: reachVisits.induct)
  case (2 nodes adj nid ids seen)
  show ?case
  proof (cases "nid |\<in>| seen")
    case True
    with 2 show ?thesis by simp
  next
    case False
    let ?next = "filter (\<lambda>to. to |\<in>| nodes) (mget [] adj nid)"
    let ?s = "reachVisits nodes adj ?next (finsert nid seen)"
    have sub: "?s |\<subseteq>| reachVisits nodes adj ids ?s" by (rule reachVisits_sub)
    have res: "reachVisits nodes adj (nid # ids) seen = reachVisits nodes adj ids ?s" using False by simp
    show ?thesis
    proof (cases "a |\<in>| ?s")
      case True
      have "b |\<in>| ?s"
      proof (cases "a = nid")
        case True
        with 2(6) have "b \<in> set ?next" by (auto simp: insideRel_def adjRel_def)
        with reachVisits_covers [of ?next nodes adj "finsert nid seen"] show ?thesis by auto
      next
        case False
        with 2(2) [OF \<open>nid |\<notin>| seen\<close>] True 2(5,6) show ?thesis by simp
      qed
      with sub res show ?thesis by auto
    next
      case False
      with 2(3) [OF \<open>nid |\<notin>| seen\<close>] 2(4,6) res show ?thesis by simp
    qed
  qed
qed simp

lemma reachVisits_sound:
  "a |\<in>| reachVisits nodes adj ids seen \<Longrightarrow> a |\<notin>| seen \<Longrightarrow> \<exists>i\<in>set ids. (i, a) \<in> (insideRel nodes adj)\<^sup>*"
proof (induction nodes adj ids seen arbitrary: a rule: reachVisits.induct)
  case (2 nodes adj nid ids seen)
  show ?case
  proof (cases "nid |\<in>| seen")
    case True
    with 2 show ?thesis by auto
  next
    case False
    let ?next = "filter (\<lambda>to. to |\<in>| nodes) (mget [] adj nid)"
    let ?s = "reachVisits nodes adj ?next (finsert nid seen)"
    show ?thesis
    proof (cases "a |\<in>| ?s")
      case False
      with 2(3) [OF \<open>nid |\<notin>| seen\<close>] 2(4) \<open>nid |\<notin>| seen\<close> show ?thesis by auto
    next
      case True
      show ?thesis
      proof (cases "a = nid")
        case False
        with 2(2) [OF \<open>nid |\<notin>| seen\<close> True] 2(5) obtain i where i: "i \<in> set ?next" "(i, a) \<in> (insideRel nodes adj)\<^sup>*" by auto
        then have "(nid, i) \<in> insideRel nodes adj" by (simp add: insideRel_def adjRel_def)
        then have "(nid, a) \<in> (insideRel nodes adj)\<^sup>*" using i(2) by (rule converse_rtrancl_into_rtrancl)
        then show ?thesis by auto
      qed auto
    qed
  qed
qed simp

lemma reachVisits_spec: "fset (reachVisits nodes adj ids {||}) = (insideRel nodes adj)\<^sup>* `` set ids"
proof
  show "fset (reachVisits nodes adj ids {||}) \<subseteq> (insideRel nodes adj)\<^sup>* `` set ids"
    using reachVisits_sound [of _ nodes adj ids "{||}"] by auto
  have "b |\<in>| reachVisits nodes adj ids {||}" if "(a, b) \<in> (insideRel nodes adj)\<^sup>*" "a \<in> set ids" for a b
    using that
  proof (induction rule: rtrancl_induct)
    case base
    with reachVisits_covers show ?case by blast
  next
    case (step b c)
    then show ?case using reachVisits_closed [of b nodes adj ids "{||}" c] by simp
  qed
  then show "(insideRel nodes adj)\<^sup>* `` set ids \<subseteq> fset (reachVisits nodes adj ids {||})" by auto
qed

definition reachedNodes :: "Template \<Rightarrow> Edge list \<Rightarrow> string fset" where
  "reachedNodes t es =
     (if fmlookup (TemplateNodes t) (Start t) \<noteq> None
      then reachVisits (fmdom (TemplateNodes t)) (adjacency es) [Start t] {||} else {||})"

definition validateReachability :: "Template \<Rightarrow> Edge list \<Rightarrow> Diagnostics" where
  "validateReachability t es =
     (if Start t = [] then []
      else concat (map (\<lambda>nid. finding (nid |\<notin>| reachedNodes t es)
             (diagError ''unreachable_node'' (''nodes.'' @ nid) (''node '' @ quote nid @ '' is not reachable from start'')))
           (sortedKeys (TemplateNodes t))))"

section \<open>Cycles\<close>

datatype VisitState = Unseen | Active | Finished

definition visitState :: "(string, VisitState) fmap \<Rightarrow> string \<Rightarrow> VisitState" where
  "visitState st nid = mget Unseen st nid"

lemma visitState_fmupd [simp]: "visitState (fmupd k v st) nid = (if nid = k then v else visitState st nid)"
  by (simp add: visitState_def)

definition seenNodes :: "(string, VisitState) fmap \<Rightarrow> string set" where
  "seenNodes st = {k. visitState st k \<noteq> Unseen}"

text \<open>\<open>visit\<close> on each of a list of nodes; \<open>report\<close> is the finding for a cycle, given as its nodes.\<close>

function cycleVisits ::
    "(string, string list) fmap \<Rightarrow> (string list \<Rightarrow> Diagnostic) \<Rightarrow> string list \<Rightarrow> string list \<Rightarrow>
     (string, VisitState) fmap \<Rightarrow> (string, VisitState) fmap \<times> Diagnostics" where
  "cycleVisits adj report stack [] st = (st, [])"
| "cycleVisits adj report stack (nid # ids) st =
     (case visitState st nid of
        Active \<Rightarrow>
          (case cycleVisits adj report stack ids st of
             (st', found) \<Rightarrow> (st', report (dropWhile (\<lambda>x. x \<noteq> nid) stack @ [nid]) # found))
      | Finished \<Rightarrow> cycleVisits adj report stack ids st
      | Unseen \<Rightarrow>
          (case cycleVisits adj report (stack @ [nid]) (mget [] adj nid) (fmupd nid Active st) of
             (st1, found) \<Rightarrow>
               (case cycleVisits adj report stack ids (fmupd nid Finished st1) of
                  (st2, later) \<Rightarrow> (st2, found @ later))))"
  by pat_completeness auto

lemma cycleVisits_grows:
  "cycleVisits_dom (adj, report, stack, ids, st) \<Longrightarrow> seenNodes st \<subseteq> seenNodes (fst (cycleVisits adj report stack ids st))"
proof (induction adj report stack ids st rule: cycleVisits.pinduct)
  case (2 adj report stack nid ids st)
  obtain st1 found where inner: "cycleVisits adj report (stack @ [nid]) (mget [] adj nid) (fmupd nid Active st) = (st1, found)" by force
  show ?case
  proof (cases "visitState st nid")
    case Unseen
    from 2(2) [OF Unseen] inner have "seenNodes (fmupd nid Active st) \<subseteq> seenNodes st1" by simp
    moreover from 2(3) [OF Unseen inner [symmetric]]
    have "seenNodes (fmupd nid Finished st1) \<subseteq> seenNodes (fst (cycleVisits adj report stack ids (fmupd nid Finished st1)))" by simp
    ultimately have "seenNodes st \<subseteq> seenNodes (fst (cycleVisits adj report stack ids (fmupd nid Finished st1)))"
      by (auto simp: seenNodes_def split: if_splits)
    then show ?thesis using 2(1) Unseen inner
      by (cases "cycleVisits adj report stack ids (fmupd nid Finished st1)") (simp add: cycleVisits.psimps)
  qed (use 2 in \<open>auto simp: cycleVisits.psimps split: prod.splits\<close>)
qed (simp add: cycleVisits.psimps)

termination cycleVisits
proof (relation "measures [\<lambda>(adj, report, stack, ids, st). visited adj (seenNodes st),
      \<lambda>(adj, report, stack, ids, st). length ids]", simp, goal_cases)
  case (1 adj report stack nid ids st)
  have sub: "insert nid (seenNodes st) \<subseteq> seenNodes (fmupd nid Active st)" by (auto simp: seenNodes_def)
  show ?case
  proof (cases "nid |\<in>| fmdom adj")
    case True
    from visited_insert [OF True _ sub] 1 show ?thesis by (simp add: seenNodes_def)
  next
    case False
    then show ?thesis using visited_mono [of "seenNodes st" "seenNodes (fmupd nid Active st)" adj] sub
      by (auto simp: mget_undefined le_less)
  qed
next
  case (2 adj report stack nid ids st st1 found)
  from cycleVisits_grows [OF 2(3)] 2(2) have "seenNodes (fmupd nid Active st) \<subseteq> seenNodes st1" by (metis fst_conv)
  then have "seenNodes st \<subseteq> seenNodes (fmupd nid Finished st1)" by (auto simp: seenNodes_def split: if_splits)
  from visited_mono [OF this, of adj] show ?case by auto
next
  case (3 adj report stack nid ids st)
  then show ?case by simp
next
  case (4 adj report stack nid ids st)
  then show ?case by simp
qed

text \<open>
  A silent search leaves every visited node finished, and a finished node starts no infinite path.
\<close>

definition settledNodes :: "(string, string list) fmap \<Rightarrow> (string, VisitState) fmap \<Rightarrow> bool" where
  "settledNodes adj st \<longleftrightarrow> (\<forall>k. visitState st k = Finished \<longrightarrow> k \<in> Wellfounded.acc ((adjRel adj)\<inverse>))"

lemma cycleVisits_silent:
  assumes "cycleVisits adj report stack ids st = (st', [])" "settledNodes adj st"
  shows "settledNodes adj st' \<and> (\<forall>i\<in>set ids. visitState st' i = Finished) \<and>
    (\<forall>k. visitState st k \<noteq> Unseen \<longrightarrow> visitState st' k = visitState st k)"
  using assms
proof (induction adj report stack ids st arbitrary: st' rule: cycleVisits.induct)
  case (2 adj report stack nid ids st)
  show ?case
  proof (cases "visitState st nid")
    case Active
    with 2(5) show ?thesis by (simp split: prod.splits)
  next
    case Finished
    with 2(5) have "cycleVisits adj report stack ids st = (st', [])" by simp
    from 2(4) [OF Finished this 2(6)] Finished show ?thesis by simp
  next
    case Unseen
    obtain st1 found where inner: "cycleVisits adj report (stack @ [nid]) (mget [] adj nid) (fmupd nid Active st) = (st1, found)" by force
    obtain st2 later where outer: "cycleVisits adj report stack ids (fmupd nid Finished st1) = (st2, later)" by force
    have "cycleVisits adj report stack (nid # ids) st = (st2, found @ later)" using Unseen inner outer by simp
    with 2(5) inner outer have inner': "cycleVisits adj report (stack @ [nid]) (mget [] adj nid) (fmupd nid Active st) = (st1, [])"
      and outer: "cycleVisits adj report stack ids (fmupd nid Finished st1) = (st', [])" by simp_all
    have "settledNodes adj (fmupd nid Active st)" using 2(6) by (simp add: settledNodes_def)
    note first = 2(1) [OF Unseen inner' this]
    then have "\<forall>b. (nid, b) \<in> adjRel adj \<longrightarrow> b \<in> Wellfounded.acc ((adjRel adj)\<inverse>)"
      by (auto simp: settledNodes_def adjRel_def)
    then have "nid \<in> Wellfounded.acc ((adjRel adj)\<inverse>)" by (blast intro: accI)
    with first have "settledNodes adj (fmupd nid Finished st1)" by (simp add: settledNodes_def)
    note rest = 2(2) [OF Unseen inner [symmetric] outer this]
    have "visitState st' k = visitState st k" if "visitState st k \<noteq> Unseen" for k
    proof -
      have "k \<noteq> nid" using that Unseen by auto
      with first that have "visitState st1 k = visitState st k" by auto
      with rest \<open>k \<noteq> nid\<close> that show ?thesis by auto
    qed
    moreover have "visitState st' nid = Finished" using rest by auto
    ultimately show ?thesis using rest by auto
  qed
qed simp

text \<open>A search below a path never reports when the edges are acyclic, and leaves no node active.\<close>

lemma cycleVisits_acyclic:
  assumes "acyclic (adjRel adj)" "\<And>k i. visitState st k = Active \<Longrightarrow> i \<in> set ids \<Longrightarrow> (k, i) \<in> (adjRel adj)\<^sup>+"
  shows "snd (cycleVisits adj report stack ids st) = [] \<and>
    (\<forall>k. visitState (fst (cycleVisits adj report stack ids st)) k = Active \<longrightarrow> visitState st k = Active)"
  using assms
proof (induction adj report stack ids st rule: cycleVisits.induct)
  case (2 adj report stack nid ids st)
  have rest: "visitState s k = Active \<Longrightarrow> i \<in> set ids \<Longrightarrow> (k, i) \<in> (adjRel adj)\<^sup>+"
    if "\<And>k. visitState s k = Active \<Longrightarrow> visitState st k = Active" for s k i
    using that 2(6) by simp
  show ?case
  proof (cases "visitState st nid")
    case Active
    with 2(6) have "(nid, nid) \<in> (adjRel adj)\<^sup>+" by simp
    with 2(5) show ?thesis by (simp add: acyclic_def)
  next
    case Finished
    from 2(4) [OF Finished 2(5)] 2(6) Finished show ?thesis by simp
  next
    case Unseen
    obtain st1 found where inner: "cycleVisits adj report (stack @ [nid]) (mget [] adj nid) (fmupd nid Active st) = (st1, found)" by force
    have "(k, i) \<in> (adjRel adj)\<^sup>+" if "visitState (fmupd nid Active st) k = Active" "i \<in> set (mget [] adj nid)" for k i
    proof -
      have step: "(nid, i) \<in> adjRel adj" using that(2) by (simp add: adjRel_def)
      show ?thesis
      proof (cases "k = nid")
        case True
        with step show ?thesis by auto
      next
        case False
        with that(1) have "visitState st k = Active" by simp
        with 2(6) have "(k, nid) \<in> (adjRel adj)\<^sup>+" by simp
        then show ?thesis using step by (rule trancl_into_trancl)
      qed
    qed
    from 2(1) [OF Unseen 2(5) this] inner have first: "found = []"
      "\<And>k. visitState st1 k = Active \<Longrightarrow> k = nid \<or> visitState st k = Active" by (auto split: if_splits)
    have act: "visitState st k = Active" if "visitState (fmupd nid Finished st1) k = Active" for k
      using that first(2) [of k] by (auto split: if_splits)
    obtain st2 later where outer: "cycleVisits adj report stack ids (fmupd nid Finished st1) = (st2, later)" by force
    from 2(2) [OF Unseen inner [symmetric] 2(5)] rest [of "fmupd nid Finished st1"] act outer
    have "later = []" "\<And>k. visitState st2 k = Active \<Longrightarrow> visitState (fmupd nid Finished st1) k = Active" by auto
    moreover have "cycleVisits adj report stack (nid # ids) st = (st2, found @ later)" using Unseen inner outer by simp
    ultimately show ?thesis using act first(1) by simp
  qed
qed simp

lemma cycleVisits_spec:
  assumes "\<And>k. k |\<in>| fmdom adj \<Longrightarrow> k \<in> set roots"
  shows "snd (cycleVisits adj report [] roots fmempty) = [] \<longleftrightarrow> acyclic (adjRel adj)"
proof
  assume "acyclic (adjRel adj)"
  then show "snd (cycleVisits adj report [] roots fmempty) = []"
    using cycleVisits_acyclic [of adj fmempty roots report "[]"] by (simp add: visitState_def)
next
  assume "snd (cycleVisits adj report [] roots fmempty) = []"
  then obtain st where "cycleVisits adj report [] roots fmempty = (st, [])" by (metis prod.collapse)
  from cycleVisits_silent [OF this] have st: "settledNodes adj st" "\<forall>i\<in>set roots. visitState st i = Finished"
    by (simp_all add: settledNodes_def visitState_def)
  have "x \<in> Wellfounded.acc ((adjRel adj)\<inverse>)" for x
  proof (cases "x |\<in>| fmdom adj")
    case True
    with assms st show ?thesis unfolding settledNodes_def by blast
  next
    case False
    then have "(x, y) \<notin> adjRel adj" for y by (simp add: adjRel_def mget_undefined)
    then show ?thesis by (blast intro: accI)
  qed
  then have "wf ((adjRel adj)\<inverse>)" by (simp add: acc_wfI)
  then show "acyclic (adjRel adj)" by (metis acyclic_converse wf_acyclic)
qed

text \<open>How to bound a cycle: the outcome of the decision whose edge closed it.\<close>

definition joinWith :: "string \<Rightarrow> string list \<Rightarrow> string" where
  "joinWith sep xs = (case xs of [] \<Rightarrow> [] | y # ys \<Rightarrow> y @ concat (map (\<lambda>z. sep @ z) ys))"

definition cycleFixHint :: "Template \<Rightarrow> Edge list \<Rightarrow> string list \<Rightarrow> string" where
  "cycleFixHint t es cycle =
     (let n = length cycle; from = cycle ! (n - 2); to = cycle ! (n - 1);
          general = ''only a decision can send work back for another round: route the cycle through a decision and bound that outcome with loops: {<outcome>: {maxIterations: N}}''
      in if n \<ge> 2 \<and> Type (node_of t from) = NodeTypeDecision
         then (case find (\<lambda>e. ed_From e = from \<and> ed_To e = to) es of
                 Some e \<Rightarrow> ''bound decision '' @ quote from @ [CHR 0x27] @ ''s outcome '' @ quote (ed_Outcome e) @
                   '' with loops: {'' @ ed_Outcome e @ '': {maxIterations: N}}''
               | None \<Rightarrow> general)
         else general)"

definition acyclicEdges :: "Template \<Rightarrow> Edge list \<Rightarrow> Edge list" where
  "acyclicEdges t es = filter (\<lambda>e. \<not> isCycleExemptEdge t e) es"

definition cycleDiagnostic :: "Template \<Rightarrow> Edge list \<Rightarrow> string list \<Rightarrow> Diagnostic" where
  "cycleDiagnostic t es cycle =
     diagError ''graph_cycle'' (''nodes.'' @ last cycle)
       (''this cycle has no bounded edge: '' @ joinWith '' -> '' cycle @ ''; '' @ cycleFixHint t es cycle)"

definition validateAcyclic :: "Template \<Rightarrow> Edge list \<Rightarrow> Diagnostics" where
  "validateAcyclic t es =
     (let fes = acyclicEdges t es; adj = adjacency fes;
          roots = (if Start t \<noteq> [] then [Start t] else []) @ sortedKeys adj
      in snd (cycleVisits adj (cycleDiagnostic t fes) [] roots fmempty))"

lemma validateAcyclic_iff: "validateAcyclic t es = [] \<longleftrightarrow> acyclic (edgeRel (acyclicEdges t es))"
  unfolding validateAcyclic_def Let_def by (subst cycleVisits_spec) (auto simp: adjRel_adjacency)

lemma cycleVisits_reports:
  "dg \<in> set (snd (cycleVisits adj report stack ids st)) \<Longrightarrow> \<exists>cycle. dg = report cycle"
proof (induction adj report stack ids st rule: cycleVisits.induct)
  case (2 adj report stack nid ids st)
  obtain st1 found where inner: "cycleVisits adj report (stack @ [nid]) (mget [] adj nid) (fmupd nid Active st) = (st1, found)" by force
  obtain st2 later where outer: "cycleVisits adj report stack ids (fmupd nid Finished st1) = (st2, later)" by force
  obtain st3 others where other: "cycleVisits adj report stack ids st = (st3, others)" by force
  from 2(1) 2(2) [OF _ inner [symmetric]] 2(3-5) show ?case
    by (cases "visitState st nid") (auto simp: inner outer other)
qed simp

lemma validateAcyclic_errors: "HasErrors (validateAcyclic t es) \<longleftrightarrow> validateAcyclic t es \<noteq> []"
proof
  assume "validateAcyclic t es \<noteq> []"
  then obtain dg where "dg \<in> set (validateAcyclic t es)" by (metis list.set_intros(1) neq_Nil_conv)
  moreover from this have "dg_Severity dg = SeverityError"
    by (auto simp: validateAcyclic_def Let_def cycleDiagnostic_def diagError_def dest!: cycleVisits_reports)
  ultimately show "HasErrors (validateAcyclic t es)" by (auto simp: HasErrors_def list_ex_iff)
qed auto

end
