(* ===== verification/Validate_Graph.thy ===== *)
theory Validate_Graph
  imports Graph_Walks
begin

text \<open>
  Validation of the graph of one scope (\<open>model/validate.go\<close>, \<open>model/parallel.go\<close>,
  \<open>model/loops.go\<close>): edge targets, degrees and joins, outcome routing, derived stage ids, poison
  escalations and the bounded loops with their bodies.
\<close>

section \<open>Edges and joins\<close>

definition validateEdges :: "Template \<Rightarrow> Edge list \<Rightarrow> Diagnostics" where
  "validateEdges t es =
     concat (map (\<lambda>e.
         if ed_From e = [] then []
         else
           finding (TrimSpace (ed_Outcome e) = [])
             (diagError ''missing_outcome'' (''nodes.'' @ ed_From e @ ''.next'') ''next outcome label is required'') @
           (if TrimSpace (ed_To e) = []
            then [diagError ''missing_target'' (''nodes.'' @ ed_From e @ ''.next.'' @ ed_Outcome e) ''next target is required'']
            else finding (fmlookup (TemplateNodes t) (ed_To e) = None)
                   (diagError ''unknown_target'' (''nodes.'' @ ed_From e @ ''.next.'' @ ed_Outcome e)
                      (''target node '' @ quote (ed_To e) @ '' is not declared'')))) es)"

definition inboundCount :: "Edge list \<Rightarrow> string \<Rightarrow> int" where
  "inboundCount es nid = int (length (filter (\<lambda>e. ed_From e \<noteq> [] \<and> ed_To e = nid) es))"

definition joinableCount :: "Template \<Rightarrow> Edge list \<Rightarrow> string \<Rightarrow> int" where
  "joinableCount t es nid =
     int (length (filter (\<lambda>e. ed_From e \<noteq> [] \<and> \<not> IsBoundedLoopEdge t e \<and> ed_To e = nid) es))"

definition validateJoinAndDegree :: "Template \<Rightarrow> Edge list \<Rightarrow> Diagnostics" where
  "validateJoinAndDegree t es =
     concat (map (\<lambda>nid.
         let node = node_of t nid; path = ''nodes.'' @ nid; degree = int (mlen (NextOf node)) in
         finding (degree > MaxNormalizedDegree)
           (diagError ''normalized_degree_limit'' (path @ ''.next'')
              (''normalized outgoing degree '' @ show_int degree @ '' exceeds '' @ show_int MaxNormalizedDegree)) @
         finding (inboundCount es nid > MaxNormalizedDegree)
           (diagError ''normalized_inbound_limit'' (path @ ''.join'')
              (''normalized inbound candidate count '' @ show_int (inboundCount es nid) @ '' exceeds '' @ show_int MaxNormalizedDegree)) @
         (case Join node of
            JoinOther k \<Rightarrow> finding (k \<noteq> []) (diagError ''invalid_join'' (path @ ''.join'') (''join must be all or any; got '' @ quote k))
          | _ \<Rightarrow> finding (joinableCount t es nid < 2)
                   (diagError ''join_degree'' (path @ ''.join'') ''join requires at least two normalized inbound edges'')))
       (sortedKeys (TemplateNodes t)))"

section \<open>Outcome routing\<close>

definition firstPresentLabel :: "Next \<Rightarrow> string list \<Rightarrow> string" where
  "firstPresentLabel nx labels = (case find (\<lambda>l. mget [] nx l \<noteq> []) labels of Some l \<Rightarrow> l | None \<Rightarrow> [])"

definition taskRouting :: "string \<Rightarrow> Next \<Rightarrow> Diagnostics" where
  "taskRouting path nx =
     (let passWinner = firstPresentLabel nx passOutcomeLabels; failWinner = firstPresentLabel nx failOutcomeLabels in
      concat (map (\<lambda>oc. finding (IsCanceledResult oc)
          (diagWarning ''dead_edge'' (path @ ''.'' @ oc)
             (''cancel verdicts route through the fail edge; outcome '' @ quote oc @ '' can never be taken''))) (sortedKeys nx)) @
      (if passWinner = [] then
         (if list_all (\<lambda>oc. IsFailOutcomeLabel oc \<or> IsCanceledResult oc) (sortedKeys nx)
          then [diagError ''missing_pass_edge'' path
                  ''task node has only fail/cancel edges; a passing attempt cannot route and stalls the run (add a pass, done, success, or next edge)'']
          else [diagWarning ''missing_pass_edge'' path
                  ''task node has no pass, done, success, or next edge; an attempt that passes without a custom verdict matching an edge stalls the run''])
       else
         concat (map (\<lambda>oc. finding (oc \<noteq> passWinner \<and> mget [] nx oc \<noteq> [])
             (diagWarning ''ambiguous_pass_edge'' (path @ ''.'' @ oc)
                (''outcome edge '' @ quote oc @ '' is shadowed by '' @ quote passWinner @ '' for plain pass outcomes (resolution order: '' @
                 joinWith '', '' passOutcomeLabels @ ''); an exact '' @ quote oc @ '' attempt verdict still routes here''))) passOutcomeLabels)) @
      concat (map (\<lambda>oc. finding (failWinner \<noteq> [] \<and> oc \<noteq> failWinner \<and> mget [] nx oc \<noteq> [])
          (diagWarning ''ambiguous_fail_edge'' (path @ ''.'' @ oc)
             (''fail edge '' @ quote oc @ '' is shadowed by '' @ quote failWinner @ '' (resolution order: '' @
              joinWith '', '' failOutcomeLabels @ '')''))) failOutcomeLabels))"

definition passRouting :: "string \<Rightarrow> string \<Rightarrow> Next \<Rightarrow> Diagnostics" where
  "passRouting kind path nx =
     (let passWinner = firstPresentLabel nx passOutcomeLabels in
      if passWinner = []
      then [diagError ''missing_pass_edge'' path
              (kind @ '' node routes only through a pass edge; none of its outcomes is pass, done, success, or next, so it stalls the run'')]
      else concat (map (\<lambda>oc. finding (oc \<noteq> passWinner)
             (diagWarning ''dead_edge'' (path @ ''.'' @ oc)
                (kind @ '' node only follows its '' @ quote passWinner @ '' edge; outcome '' @ quote oc @ '' can never be taken''))) (sortedKeys nx)))"

definition validateOutcomeRouting :: "Template \<Rightarrow> Diagnostics" where
  "validateOutcomeRouting t =
     concat (map (\<lambda>nid.
         let node = node_of t nid; path = ''nodes.'' @ nid @ ''.next'' in
         if mlen (NextOf node) < 2 then []
         else (case Type node of
                 NodeTypeTask \<Rightarrow> taskRouting path (NextOf node)
               | NodeTypeWait \<Rightarrow> passRouting ''wait'' path (NextOf node)
               | NodeTypeStart \<Rightarrow> passRouting ''start'' path (NextOf node)
               | _ \<Rightarrow> []))
       (sortedKeys (TemplateNodes t)))"

section \<open>Derived stage ids\<close>

definition compoundChildIDs :: "string \<Rightarrow> Node \<Rightarrow> string list" where
  "compoundChildIDs nid node =
     (case Plan node of
        None \<Rightarrow> []
      | Some plan \<Rightarrow>
          stageChildID nid StagePlan [] #
          (if sp_Approval plan = ''human'' then [stageChildID nid StagePlanApproval []] else [])) @
     [stageChildID nid StageDo []] @
     map (\<lambda>step. stageChildID nid StageTest (sp_ID step)) (Checks node) @
     (case Review node of None \<Rightarrow> [] | Some _ \<Rightarrow> [stageChildID nid StageReview []]) @
     [stageChildID nid StageDone []]"

definition derivedStages :: "Template \<Rightarrow> (string \<times> string) list" where
  "derivedStages t =
     concat (map (\<lambda>nid. if IsCompound (node_of t nid) then map (Pair nid) (compoundChildIDs nid (node_of t nid)) else [])
       (sortedKeys (TemplateNodes t)))"

fun collisionLoop :: "Template \<Rightarrow> (string, string) fmap \<Rightarrow> (string \<times> string) list \<Rightarrow> Diagnostics" where
  "collisionLoop t derivedBy [] = []"
| "collisionLoop t derivedBy ((nid, childID) # rest) =
     (case fmlookup derivedBy childID of
        Some owner \<Rightarrow>
          diagError ''node_id_collides_with_expansion'' (''nodes.'' @ nid)
            (''compound nodes '' @ quote owner @ '' and '' @ quote nid @ '' both derive child stage '' @ quote childID) #
          collisionLoop t derivedBy rest
      | None \<Rightarrow>
          finding (fmlookup (TemplateNodes t) childID \<noteq> None)
            (diagError ''node_id_collides_with_expansion'' (''nodes.'' @ childID)
               (''node id '' @ quote childID @ '' collides with a child stage of compound node '' @ quote nid)) @
          collisionLoop t (fmupd childID nid derivedBy) rest)"

definition validateExpansionCollisions :: "Template \<Rightarrow> Diagnostics" where
  "validateExpansionCollisions t = collisionLoop t fmempty (derivedStages t)"

lemma compoundChildIDs_expand:
  "IsCompound node \<Longrightarrow> compoundChildIDs nid node = map ss_ChildID (ExpandNode nid node)"
  by (auto simp: compoundChildIDs_def ExpandNode_def planSpecs_def split: option.splits)

lemma collisionLoop_clean:
  "collisionLoop t m ps = [] \<longleftrightarrow>
   distinct (map snd ps) \<and> set (map snd ps) \<inter> (fset (fmdom m) \<union> fset (fmdom (TemplateNodes t))) = {}"
proof (induction t m ps rule: collisionLoop.induct)
  case (2 t m nid childID rest)
  show ?case
  proof (cases "fmlookup m childID")
    case None
    then show ?thesis using 2(1) [OF None] by (auto simp: fmdom_notD fmdom_notI)
  next
    case (Some owner)
    then have "childID |\<in>| fmdom m" by (simp add: fmdomI)
    with Some show ?thesis by auto
  qed
qed simp

lemma validateExpansionCollisions_iff:
  "validateExpansionCollisions t = [] \<longleftrightarrow>
   distinct (map snd (derivedStages t)) \<and> set (map snd (derivedStages t)) \<inter> fset (fmdom (TemplateNodes t)) = {}"
  by (simp add: validateExpansionCollisions_def collisionLoop_clean)

section \<open>Poison escalations\<close>

definition humanDecision :: "Template \<Rightarrow> string \<Rightarrow> Node option" where
  "humanDecision t nid =
     (case fmlookup (TemplateNodes t) nid of
        None \<Rightarrow> None
      | Some node \<Rightarrow>
          if nid = [] \<or> Type node \<noteq> NodeTypeDecision then None
          else (case NodePerformer node of
                  None \<Rightarrow> None
                | Some p \<Rightarrow> if p_Kind p = PerformerHuman then Some node else None))"

definition validateLoopBudgets :: "Template \<Rightarrow> Diagnostics" where
  "validateLoopBudgets t =
     concat (map (\<lambda>sourceID.
         let source = node_of t sourceID; decisionID = FailTarget (NextOf source) in
         if \<not> IsCompound source \<or> Retry source \<noteq> None then []
         else (case humanDecision t decisionID of
                 None \<Rightarrow> []
               | Some decision \<Rightarrow> finding (mget [] (NextOf decision) ''retry'' = sourceID)
                   (diagWarning ''retry_loop_without_budget'' (''nodes.'' @ sourceID @ ''.retry'')
                      (''retry loop through decision '' @ quote decisionID @ '' has no declared budget on '' @ quote sourceID @
                       ''; each round runs one attempt before re-escalating (declare retry.maxAttempts to size the loop window)''))))
       (sortedKeys (TemplateNodes t)))"

definition strayEntries :: "Template \<Rightarrow> string \<Rightarrow> string \<Rightarrow> Diagnostics" where
  "strayEntries t sourceID decisionID =
     concat (map (\<lambda>incomingID.
         let incoming = NextOf (node_of t incomingID) in
         concat (map (\<lambda>oc.
             finding (\<not> (mget [] incoming oc \<noteq> decisionID \<or> incomingID = sourceID \<and> IsFailOutcomeLabel oc))
               (diagError ''invalid_poison_escalation'' (''nodes.'' @ incomingID @ ''.next.'' @ oc)
                  (''poison escalation decision '' @ quote decisionID @ '' may only be entered by compound node '' @ quote sourceID @
                   [CHR 0x27] @ ''s fail edge'')))
           (sortedKeys incoming)))
       (sortedKeys (TemplateNodes t)))"

definition cancelsRun :: "Template \<Rightarrow> Next \<Rightarrow> bool" where
  "cancelsRun t nx \<longleftrightarrow>
     (case fmlookup nx ''cancel'' of
        None \<Rightarrow> False
      | Some target \<Rightarrow>
          (case fmlookup (TemplateNodes t) target of
             None \<Rightarrow> False
           | Some node \<Rightarrow> Type node = NodeTypeEnd \<and> IsCanceledResult (Result node)))"

definition validatePoisonEscalations :: "Template \<Rightarrow> Diagnostics" where
  "validatePoisonEscalations t =
     concat (map (\<lambda>sourceID.
         let source = node_of t sourceID; decisionID = FailTarget (NextOf source); path = ''nodes.'' @ decisionID @ ''.next'' in
         if \<not> IsCompound source then []
         else (case humanDecision t decisionID of
                 None \<Rightarrow> []
               | Some decision \<Rightarrow>
                   finding (mlen (NextOf decision) \<noteq> 2)
                     (diagError ''invalid_poison_escalation'' path ''poison escalation requires exactly retry and cancel choices'') @
                   finding (fmlookup (NextOf decision) ''retry'' \<noteq> Some sourceID)
                     (diagError ''invalid_poison_escalation'' (path @ ''.retry'')
                        (''poison escalation retry must target compound node '' @ quote sourceID)) @
                   finding (\<not> cancelsRun t (NextOf decision))
                     (diagError ''invalid_poison_escalation'' (path @ ''.cancel'')
                        ''poison escalation cancel must target an end node with result canceled'') @
                   finding (Start t = decisionID)
                     (diagError ''invalid_poison_escalation'' ''start''
                        (''poison escalation decision '' @ quote decisionID @ '' cannot also be the template start'')) @
                   strayEntries t sourceID decisionID))
       (sortedKeys (TemplateNodes t)))"

section \<open>Bounded loops\<close>

definition MinLoopIterations :: int where "MinLoopIterations = 2"
definition MaxLoopIterations :: int where "MaxLoopIterations = 100"

definition loopBound :: "Node \<Rightarrow> string \<Rightarrow> LoopBound" where
  "loopBound node oc = mget \<lparr>lb_MaxIterations = 0, lb_OnExhausted = []\<rparr> (LoopBounds node) oc"

text \<open>One declared bound of a decision; \<open>free\<close> counts the outcomes that do not go back.\<close>

definition boundFindings :: "string \<Rightarrow> Node \<Rightarrow> nat \<Rightarrow> string \<Rightarrow> Diagnostics" where
  "boundFindings path node free oc =
     (let b = loopBound node oc; outcomePath = path @ ''.'' @ oc; exhausted = TrimSpace (lb_OnExhausted b) in
      if fmlookup (NextOf node) oc = None
      then [diagError ''loop_outcome'' outcomePath (''loops names outcome '' @ quote oc @ '', which next does not route'')]
      else
        finding (lb_MaxIterations b < MinLoopIterations \<or> lb_MaxIterations b > MaxLoopIterations)
          (diagError ''loop_iterations'' (outcomePath @ ''.maxIterations'')
             (''maxIterations is the most rounds the loop runs and must be '' @ show_int MinLoopIterations @ ''..'' @
              show_int MaxLoopIterations @ ''; got '' @ show_int (lb_MaxIterations b))) @
        (if exhausted = [] then
           finding (free = 0) (diagError ''loop_exhaustion'' outcomePath
             ''with every outcome going back, a used-up loop has no way on; name onExhausted or add an outcome that leaves the loop'')
         else if exhausted = oc then
           [diagError ''loop_exhaustion'' (outcomePath @ ''.onExhausted'') ''onExhausted must name another outcome than the one that goes back'']
         else if fmlookup (NextOf node) exhausted = None then
           [diagError ''loop_exhaustion'' (outcomePath @ ''.onExhausted'')
              (''onExhausted names outcome '' @ quote exhausted @ '', which next does not route'')]
         else
           finding (fmlookup (LoopBounds node) exhausted \<noteq> None)
             (diagError ''loop_exhaustion'' (outcomePath @ ''.onExhausted'') (''onExhausted names '' @ quote exhausted @ '', which goes back itself''))))"

definition boundsOfNode :: "Template \<Rightarrow> string \<Rightarrow> Diagnostics" where
  "boundsOfNode t nid =
     (let node = node_of t nid; path = ''nodes.'' @ nid @ ''.loops'' in
      if LoopBounds node = fmempty then []
      else if Type node \<noteq> NodeTypeDecision
      then [diagError ''loop_source'' path ''only a decision can send work back for another round; loops are valid on decision nodes'']
      else
        let free = length (filter (\<lambda>oc. fmlookup (LoopBounds node) oc = None) (sortedKeys (NextOf node)))
        in concat (map (boundFindings path node free) (sortedKeys (LoopBounds node))))"

text \<open>A bound is only meaningful on an edge that closes a cycle.\<close>

definition notBackFindings :: "Template \<Rightarrow> Edge list \<Rightarrow> string \<Rightarrow> Diagnostics" where
  "notBackFindings t es nid =
     concat (map (\<lambda>oc.
         let to = mget [] (NextOf (node_of t nid)) oc; path = ''nodes.'' @ nid @ ''.loops.'' @ oc in
         if fmlookup (TemplateNodes t) to = None then []
         else if to = nid
         then [diagError ''loop_not_back'' path
                 (''outcome '' @ quote oc @ '' routes '' @ quote nid @ '' back to itself; a loop goes back to earlier work'')]
         else finding (nid |\<notin>| reachableFrom to (fst (forwardAdjacency t es)))
                (diagError ''loop_not_back'' path
                   (''outcome '' @ quote oc @ '' goes forward to '' @ quote to @ ''; only an edge back to earlier work can be bounded'')))
       (sortedKeys (LoopBounds (node_of t nid))))"

definition loopShape :: "Template \<Rightarrow> Edge list \<Rightarrow> Loop \<Rightarrow> Diagnostics" where
  "loopShape t es l =
     finding (Contains l (Start t) \<and> lp_To l \<noteq> Start t)
       (diagError ''loop_entry'' (''nodes.'' @ lp_From l @ ''.loops.'' @ lp_Outcome l)
          (''the process starts at '' @ quote (Start t) @ '' inside the loop body; a loop is entered only at '' @ quote (lp_To l))) @
     concat (map (\<lambda>e.
         finding (\<not> (ed_From e = [] \<or> isCycleExemptEdge t e \<or> Contains l (ed_From e) \<or> \<not> Contains l (ed_To e) \<or> ed_To e = lp_To l))
           (diagError ''loop_entry'' (''nodes.'' @ ed_From e @ ''.next.'' @ ed_Outcome e)
              (quote (ed_From e) @ '' enters the loop body at '' @ quote (ed_To e) @ ''; a loop back to '' @ quote (lp_To l) @
               '' is entered only there''))) es) @
     concat (map (\<lambda>e.
         finding (Type (node_of t (ed_From e)) \<noteq> NodeTypeDecision)
           (diagError ''loop_exit'' (''nodes.'' @ ed_From e @ ''.next.'' @ ed_Outcome e)
              (quote (ed_From e) @ '' leaves the loop back to '' @ quote (lp_To l) @ '' for '' @ quote (ed_To e) @
               ''; only a decision may leave a loop''))) (lp_Exits l)) @
     concat (map (\<lambda>nid.
         finding (Join (node_of t nid) = JoinAny)
           (diagError ''loop_join_any'' (''nodes.'' @ nid @ ''.join'')
              (''join: any inside the loop back to '' @ quote (lp_To l) @ '' would leave losing branches running into the next round''))) (lp_Body l))"

fun overlaps :: "Loop list \<Rightarrow> Diagnostics" where
  "overlaps [] = []"
| "overlaps (a # ls) =
     concat (map (\<lambda>b. finding (\<not> loopsNestOrDisjoint a b)
         (diagError ''loop_overlap'' (''nodes.'' @ lp_From b @ ''.loops.'' @ lp_Outcome b)
            (''the loop back to '' @ quote (lp_To b) @ '' overlaps the loop from '' @ quote (lp_From a) @ '' back to '' @ quote (lp_To a) @
             '' without one containing the other''))) ls) @ overlaps ls"

definition validateLoops :: "Template \<Rightarrow> Edge list \<Rightarrow> Diagnostics" where
  "validateLoops t es =
     (let declared = concat (map (boundsOfNode t) (sortedKeys (TemplateNodes t))) in
      if declared \<noteq> [] then declared
      else
        let notBack = concat (map (notBackFindings t es) (sortedKeys (TemplateNodes t))) in
        if notBack \<noteq> [] \<or> HasErrors (validateAcyclic t es) then notBack
        else concat (map (loopShape t es) (Loops t es)) @ overlaps (Loops t es))"

end
