(* ===== verification/Validate_Parallel.thy ===== *)
theory Validate_Parallel
  imports Validate_Graph
begin

text \<open>
  The static plan of parallel scopes (\<open>model/parallel.go\<close>).  Every node gets the signature of the
  forks it is inside of; several inbound edges either carry one signature or are a complete reduction
  of one fork.  The source keeps the ready nodes of the topological order in a heap and always takes
  the least one; the heap is a sorted list here.
\<close>

type_synonym scopeSignature = "(string \<times> Edge) list"

section \<open>The order\<close>

definition planEdges :: "Template \<Rightarrow> Edge list \<Rightarrow> Edge list" where
  "planEdges t es =
     filter (\<lambda>e. \<not> (ed_From e = [] \<or> isCycleExemptEdge t e) \<and>
                 fmlookup (TemplateNodes t) (ed_From e) \<noteq> None \<and> fmlookup (TemplateNodes t) (ed_To e) \<noteq> None) es"

definition inboundEdges :: "Template \<Rightarrow> Edge list \<Rightarrow> string \<Rightarrow> Edge list" where
  "inboundEdges t es nid = sort_key compareKey (filter (\<lambda>e. ed_To e = nid) (planEdges t es))"

definition outboundEdges :: "Template \<Rightarrow> Edge list \<Rightarrow> string \<Rightarrow> Edge list" where
  "outboundEdges t es nid = sort_key compareKey (filter (\<lambda>e. ed_From e = nid) (planEdges t es))"

definition planIndegree :: "Template \<Rightarrow> Edge list \<Rightarrow> (string, int) fmap" where
  "planIndegree t es =
     fold (\<lambda>e m. fmupd (ed_To e) (mget 0 m (ed_To e) + 1) m) (planEdges t es)
       (fold (\<lambda>nid. fmupd nid 0) (sortedKeys (TemplateNodes t)) fmempty)"

lemma length_fold_insort [simp]: "length (fold insort xs ys) = length xs + length ys"
  by (induction xs arbitrary: ys) auto

function heapOrder :: "(string \<Rightarrow> Edge list) \<Rightarrow> string list \<Rightarrow> (string, int) fmap \<Rightarrow> string list \<Rightarrow> string list" where
  "heapOrder out [] indegree order = order"
| "heapOrder out (nid # ready) indegree order =
     (case release (map ed_To (out nid)) indegree [] of
        (indegree', released) \<Rightarrow> heapOrder out (fold insort released ready) indegree' (order @ [nid]))"
  by pat_completeness auto
termination
  by (relation "measure (\<lambda>(out, ready, m, order). 2 * card (positive m) + length ready)")
    (auto dest!: release_measure [OF sym])

definition deterministicTopologicalOrder :: "(string, int) fmap \<Rightarrow> (string \<Rightarrow> Edge list) \<Rightarrow> string list" where
  "deterministicTopologicalOrder indegree out =
     heapOrder out (filter (\<lambda>nid. mget 0 indegree nid = 0) (sortedKeys indegree)) indegree []"

section \<open>Signatures\<close>

definition allSignaturesEqual :: "scopeSignature list \<Rightarrow> bool" where
  "allSignaturesEqual sigs \<longleftrightarrow> (case sigs of [] \<Rightarrow> True | s # ss \<Rightarrow> list_all (\<lambda>x. s = x) ss)"

definition oneScopeReduction :: "scopeSignature list \<Rightarrow> (scopeSignature \<times> string \<times> Edge list) option" where
  "oneScopeReduction sigs =
     (if length sigs < 2 \<or> hd sigs = [] then None
      else
        let depth = length (hd sigs); prefix = butlast (hd sigs); fork = fst (last (hd sigs)) in
        if list_all (\<lambda>s. length s = depth \<and> fst (last s) = fork \<and> prefix = butlast s) sigs
        then Some (prefix, fork, map (\<lambda>s. snd (last s)) sigs) else None)"

text \<open>The branches are a set in the source; \<open>remdups\<close> counts its elements.\<close>

definition completeForkBranches :: "Template \<Rightarrow> string \<Rightarrow> Edge list \<Rightarrow> bool" where
  "completeForkBranches t fork branches \<longleftrightarrow>
     (case fmlookup (TemplateNodes t) fork of
        None \<Rightarrow> False
      | Some node \<Rightarrow>
          Type node = NodeTypeParallel \<and> length (remdups branches) = mlen (NextOf node) \<and>
          list_all (\<lambda>oc. \<lparr>ed_From = fork, ed_Outcome = oc, ed_To = mget [] (NextOf node) oc\<rparr> \<in> set branches)
            (sortedKeys (NextOf node)))"

definition crossScopeDiagnostic :: "string \<Rightarrow> string \<Rightarrow> Diagnostic" where
  "crossScopeDiagnostic nid message = diagError ''cross_scope_join_v1'' (''nodes.'' @ nid @ ''.join'') message"

section \<open>The plan\<close>

record scopePlan =
  pp_outputs :: "(string, scopeSignature) fmap"
  pp_reachable :: "string fset"
  pp_reducers :: "(string, string) fmap"
  pp_found :: Diagnostics

definition edgeSignature :: "Template \<Rightarrow> scopePlan \<Rightarrow> Edge \<Rightarrow> scopeSignature" where
  "edgeSignature t s e =
     mget [] (pp_outputs s) (ed_From e) @
     (if Type (node_of t (ed_From e)) = NodeTypeParallel then [(ed_From e, e)] else [])"

definition incomingSignatures :: "Template \<Rightarrow> Edge list \<Rightarrow> scopePlan \<Rightarrow> string \<Rightarrow> scopeSignature list" where
  "incomingSignatures t es s nid =
     map (edgeSignature t s) (filter (\<lambda>e. ed_From e |\<in>| pp_reachable s) (inboundEdges t es nid))"

text \<open>The signature of a node, with the reducers; or the finding that refuses it.\<close>

definition reduceNode :: "Template \<Rightarrow> string \<Rightarrow> scopeSignature list \<Rightarrow> (string, string) fmap \<Rightarrow> Diagnostic + (scopeSignature \<times> (string, string) fmap)" where
  "reduceNode t nid sigs reducers =
     (if sigs = [] then Inr ([], reducers)
      else if allSignaturesEqual sigs then Inr (hd sigs, reducers)
      else
        let refused = Inl (crossScopeDiagnostic nid ''multiple inbound edges must be a local merge or a complete one-scope reduction'') in
        (case oneScopeReduction sigs of
           None \<Rightarrow> refused
         | Some (prefix, fork, branches) \<Rightarrow>
             if \<not> completeForkBranches t fork branches then refused
             else if mget [] reducers fork \<noteq> [] \<and> mget [] reducers fork \<noteq> nid
             then Inl (crossScopeDiagnostic nid (''parallel fork '' @ quote fork @ '' already reduces at node '' @ quote (mget [] reducers fork)))
             else Inr (prefix, fmupd fork nid reducers)))"

definition planScopeNode :: "Template \<Rightarrow> Edge list \<Rightarrow> string \<Rightarrow> scopePlan \<Rightarrow> scopePlan" where
  "planScopeNode t es nid s =
     (let sigs = incomingSignatures t es s nid in
      if nid \<noteq> Start t \<and> sigs = [] then s
      else
        let s1 = s\<lparr>pp_reachable := finsert nid (pp_reachable s)\<rparr> in
        (case reduceNode t nid sigs (pp_reducers s) of
           Inl dg \<Rightarrow> s1\<lparr>pp_found := pp_found s1 @ [dg]\<rparr>
         | Inr (output, reducers) \<Rightarrow>
             s1\<lparr>pp_reducers := reducers, pp_outputs := fmupd nid output (pp_outputs s1),
                pp_found := pp_found s1 @
                  finding (outboundEdges t es nid = [] \<and> output \<noteq> [])
                    (crossScopeDiagnostic nid (''branch escapes open parallel scope from fork '' @ quote (fst (last output))))\<rparr>))"

definition forkFindings :: "Template \<Rightarrow> scopePlan \<Rightarrow> string \<Rightarrow> Diagnostics" where
  "forkFindings t s nid =
     (if Type (node_of t nid) \<noteq> NodeTypeParallel \<or> nid |\<notin>| pp_reachable s then []
      else
        let reducer = mget [] (pp_reducers s) nid in
        if reducer = []
        then [diagError ''cross_scope_join_v1'' (''nodes.'' @ nid @ ''.next'')
                ''parallel fork branches must have one complete structural reducer before leaving their scope'']
        else finding (Join (node_of t reducer) = JoinOther [])
               (diagError ''missing_reducer_join'' (''nodes.'' @ reducer @ ''.join'')
                  (''node '' @ quote reducer @ '' reduces parallel fork '' @ quote nid @ '' and must declare a join policy'')))"

definition scopePlanOf :: "Template \<Rightarrow> Edge list \<Rightarrow> string list \<Rightarrow> scopePlan" where
  "scopePlanOf t es order =
     fold (planScopeNode t es) order \<lparr>pp_outputs = fmempty, pp_reachable = {||}, pp_reducers = fmempty, pp_found = []\<rparr>"

definition validateParallelScopePlan :: "Template \<Rightarrow> Edge list \<Rightarrow> Diagnostics" where
  "validateParallelScopePlan t es =
     (let order = deterministicTopologicalOrder (planIndegree t es) (outboundEdges t es) in
      if length order \<noteq> mlen (TemplateNodes t) then []
      else
        let plan = scopePlanOf t es order in
        pp_found plan @ concat (map (forkFindings t plan) (sortedKeys (TemplateNodes t))))"

end
