(* ===== verification/Validate_Scope.thy ===== *)
theory Validate_Scope
  imports Validate_Parallel
begin

text \<open>
  Authoring validation of a template (\<open>model/validate.go\<close>, \<open>Validate\<close>, \<open>validateScope\<close>,
  \<open>validateNodes\<close>; \<open>model/subprocess.go\<close>, \<open>validateSubprocessNode\<close>, \<open>validateSubprocessPorts\<close>): the
  template and every subprocess body nested in it, with one collector.  The findings of a body carry
  the path of the subprocess they are nested in.
\<close>

section \<open>Scoped findings\<close>

definition joinPath :: "string \<Rightarrow> string \<Rightarrow> string" where
  "joinPath parent child = (if parent = [] then child else parent @ ''.'' @ child)"

definition scoped :: "string \<Rightarrow> Diagnostic \<Rightarrow> Diagnostic" where
  "scoped prefix dg = dg\<lparr>dg_Path := if dg_Path dg = [] then prefix else joinPath prefix (dg_Path dg)\<rparr>"

section \<open>Headers\<close>

definition validateTemplateIdentity :: "Template \<Rightarrow> Diagnostics" where
  "validateTemplateIdentity t =
     finding (APIVersion t \<noteq> ''tclaude.dev/v1alpha1'')
       (diagError ''invalid_api_version'' ''apiVersion'' (''apiVersion must be '' @ quote ''tclaude.dev/v1alpha1'')) @
     finding (TemplateKind t \<noteq> ''ProcessTemplate'')
       (diagError ''invalid_kind'' ''kind'' (''kind must be '' @ quote ''ProcessTemplate'')) @
     validateFallback (TemplateFallback t) ''fallback'' @
     (if TrimSpace (TemplateID t) = [] then [diagError ''missing_id'' ''id'' ''template id is required'']
      else finding (\<not> idPattern (TemplateID t)) (diagError ''invalid_id'' ''id'' (''template id must match '' @ idPatternString)))"

definition validateScopeHeader :: "Template \<Rightarrow> Diagnostics" where
  "validateScopeHeader t =
     (if TrimSpace (Start t) = [] then [diagError ''missing_start'' ''start'' ''top-level start node is required'']
      else finding (fmlookup (TemplateNodes t) (Start t) = None)
             (diagError ''unknown_start'' ''start'' (''start node '' @ quote (Start t) @ '' is not declared''))) @
     finding (TemplateNodes t = fmempty) (diagError ''missing_nodes'' ''nodes'' ''at least one node is required'') @
     concat (map (\<lambda>pid. finding (\<not> idPattern pid)
         (diagError ''invalid_id'' (''params.'' @ pid) (''param id must match '' @ idPatternString))) (sortedKeys (Params t)))"

definition validateHeader :: "Template \<Rightarrow> bool \<Rightarrow> Diagnostics" where
  "validateHeader t isBody = (if isBody then [] else validateTemplateIdentity t) @ validateScopeHeader t"

section \<open>Subprocess ports\<close>

definition inputTypeMismatch :: "Template \<Rightarrow> Param \<Rightarrow> string \<Rightarrow> string option" where
  "inputTypeMismatch t bodyParam expression =
     (let want = ToLower (TrimSpace (pm_Type bodyParam)); trimmed = TrimSpace expression in
      if want = [] then None
      else (case refAt trimmed of
              Some (name, []) \<Rightarrow>
                (let have = ToLower (TrimSpace (pm_Type (mget zeroParam (Params t) name))) in
                 if fmlookup (Params t) name = None \<or> have = [] \<or> have = want then None
                 else Some (''forwards a '' @ have @ '' param into a '' @ want @ '' port''))
            | _ \<Rightarrow>
                if ParamReferences expression \<noteq> [] then None
                else if want = ''number'' \<and> \<not> ParseFloat trimmed
                then Some (''literal '' @ quote expression @ '' is not a number'')
                else if want \<in> {''integer'', ''int''} \<and> \<not> ParseInt trimmed
                then Some (''literal '' @ quote expression @ '' is not an integer'')
                else if want \<in> {''boolean'', ''bool''} \<and> \<not> ParseBool trimmed
                then Some (''literal '' @ quote expression @ '' is not a boolean'')
                else None))"

definition inputFindings :: "Template \<Rightarrow> Subprocess \<Rightarrow> Template \<Rightarrow> string \<Rightarrow> string \<Rightarrow> Diagnostics" where
  "inputFindings t sp body spPath name =
     (let at = spPath @ ''.inputs.'' @ name; expression = mget [] (Inputs sp) name in
      case fmlookup (Params body) name of
        None \<Rightarrow> [diagError ''unknown_input'' at (''in-port '' @ quote name @ '' is not a declared param of the subprocess body'')]
      | Some bodyParam \<Rightarrow>
          concat (map (\<lambda>r. finding (fmlookup (Params t) r = None)
              (diagError ''undeclared_param_ref'' at (''reference to undeclared param '' @ quote r))) (ParamReferences expression)) @
          (case inputTypeMismatch t bodyParam expression of
             None \<Rightarrow> []
           | Some message \<Rightarrow> [diagError ''input_type_mismatch'' at message]))"

definition endNodes :: "Template \<Rightarrow> string list" where
  "endNodes body = filter (\<lambda>nid. Type (node_of body nid) = NodeTypeEnd) (sortedKeys (TemplateNodes body))"

definition validateSubprocessPorts :: "Template \<Rightarrow> Node \<Rightarrow> Subprocess \<Rightarrow> Template \<Rightarrow> string \<Rightarrow> string \<Rightarrow> Diagnostics" where
  "validateSubprocessPorts t node sp body path spPath =
     concat (map (inputFindings t sp body spPath) (sortedKeys (Inputs sp))) @
     concat (map (\<lambda>name.
         let param = mget zeroParam (Params body) name in
         finding (\<not> (fmlookup (Inputs sp) name \<noteq> None \<or> pm_Default param \<noteq> None \<or> pm_Required param = Some False))
           (diagError ''unbound_input'' (spPath @ ''.inputs.'' @ name)
              (''subprocess param '' @ quote name @ '' has no default and needs an in-port binding'')))
       (sortedKeys (Params body))) @
     concat (map (\<lambda>endID. finding (endID \<notin> set (endNodes body))
         (diagError ''unknown_output'' (spPath @ ''.outputs.'' @ endID)
            (''out-port '' @ quote endID @ '' is not an end node of the subprocess body''))) (sortedKeys (Outputs sp))) @
     concat (map (\<lambda>endID. finding (OutputOutcome (Some sp) endID (NextOf node) = None)
         (diagError ''unmapped_output'' (spPath @ ''.outputs.'' @ endID)
            (''end node '' @ quote endID @ '' needs an out-port mapping to one of this node'' @ [CHR 0x27] @ ''s next outcomes''))) (endNodes body)) @
     concat (map (\<lambda>oc. finding (Some oc \<notin> (\<lambda>endID. OutputOutcome (Some sp) endID (NextOf node)) ` set (endNodes body))
         (diagWarning ''dead_edge'' (path @ ''.next.'' @ oc) (''no out-port of the subprocess leaves through outcome '' @ quote oc)))
       (sortedKeys (NextOf node)))"

section \<open>Subprocess nodes\<close>

definition subprocessSource :: "Template \<Rightarrow> Subprocess \<Rightarrow> string \<Rightarrow> Diagnostics" where
  "subprocessSource t sp spPath =
     (let isRef = TemplateRef sp \<noteq> [] in
      (if IsInline sp \<and> isRef
       then [diagError ''subprocess_source_conflict'' spPath ''subprocess declares both an inline body and a templateRef; author exactly one'']
       else finding (\<not> IsInline sp \<and> \<not> isRef)
              (diagError ''missing_subprocess_source'' spPath ''subprocess requires an inline body (start and nodes) or a templateRef'')) @
      (if \<not> isRef then []
       else if \<not> idPattern (TemplateRef sp)
       then [diagError ''invalid_id'' (spPath @ ''.templateRef'') (''templateRef must name a template id matching '' @ idPatternString)]
       else finding (TemplateRef sp = TemplateID t \<and> TemplateID t \<noteq> [])
              (diagError ''subprocess_ref_cycle'' (spPath @ ''.templateRef'')
                 (''template '' @ quote (TemplateRef sp) @ '' cannot reference itself as a subprocess''))) @
      (if PinnedVersion sp = [] then []
       else if \<not> isRef
       then [diagError ''version_without_template_ref'' (spPath @ ''.version'') ''version is only valid together with templateRef'']
       else finding (\<not> templateVersionPattern (PinnedVersion sp))
              (diagError ''invalid_template_version'' (spPath @ ''.version'') ''version must be sha256:<64 lowercase hex digits>'')) @
      (case Resolved sp of
         None \<Rightarrow> []
       | Some r \<Rightarrow> finding (\<not> isRef \<or> TemplateID r \<noteq> TemplateRef sp)
           (diagError ''invalid_resolved_subprocess'' (spPath @ ''.resolved'') ''a resolved subprocess body must be the template its templateRef names'')))"

definition validateSubprocessNode ::
    "(Template \<Rightarrow> bool \<Rightarrow> Diagnostics) \<Rightarrow> Template \<Rightarrow> Node \<Rightarrow> string \<Rightarrow> nat \<Rightarrow> Diagnostics" where
  "validateSubprocessNode nested t node path depth =
     (let spPath = path @ ''.subprocess'' in
      finding (NextOf node = fmempty)
        (diagError ''missing_next'' (path @ ''.next'') ''subprocess node requires at least one next outcome'') @
      finding (NodePerformer node \<noteq> None \<or> Plan node \<noteq> None \<or> Checks node \<noteq> [] \<or> Review node \<noteq> None \<or>
               Retry node \<noteq> None \<or> Wait node \<noteq> None \<or> Captures node \<noteq> [])
        (diagError ''subprocess_fields'' path ''subprocess node cannot declare performer, plan, checks, review, retry, wait, or captures'') @
      (case SubprocessOf node of
         None \<Rightarrow> [diagError ''missing_subprocess'' spPath ''subprocess node requires a subprocess body: inline start and nodes, or a templateRef'']
       | Some sp \<Rightarrow>
           subprocessSource t sp spPath @
           concat (map (\<lambda>endID. finding (fmlookup (NextOf node) (mget [] (Outputs sp) endID) = None)
               (diagError ''unknown_output_outcome'' (spPath @ ''.outputs.'' @ endID)
                  (''out-port maps to outcome '' @ quote (mget [] (Outputs sp) endID) @ '', which is not in this node'' @ [CHR 0x27] @ ''s next'')))
             (sortedKeys (Outputs sp))) @
           (case Body (SubprocessOf node) of
              None \<Rightarrow> []
            | Some body \<Rightarrow>
                if depth + 1 > MaxSubprocessDepth
                then [diagError ''subprocess_depth_limit'' spPath (''subprocesses nest at most '' @ show_nat MaxSubprocessDepth @ '' levels deep'')]
                else
                  validateSubprocessPorts t node sp body path spPath @
                  map (scoped (if IsInline sp then spPath else spPath @ ''.resolved'')) (nested body (IsInline sp)))))"

section \<open>Nodes\<close>

definition validateTask :: "Node \<Rightarrow> string \<Rightarrow> Diagnostics" where
  "validateTask node path =
     (case NodePerformer node of
        None \<Rightarrow> [diagError ''missing_performer'' (path @ ''.performer'') ''task node requires a performer'']
      | Some p \<Rightarrow> validatePerformer p (path @ ''.performer'') False) @
     checkLoop path 0 fmempty (Checks node) @
     (case Plan node of None \<Rightarrow> [] | Some plan \<Rightarrow> validateStep plan (path @ ''.plan'') True) @
     (case Review node of None \<Rightarrow> [] | Some review \<Rightarrow> validateStep review (path @ ''.review'') False) @
     validateRetry (Retry node) (path @ ''.retry'') @
     finding (NextOf node = fmempty) (diagError ''missing_next'' (path @ ''.next'') ''task node requires at least one next outcome'')"

definition validateDecision :: "Node \<Rightarrow> string \<Rightarrow> Diagnostics" where
  "validateDecision node path =
     (case NodePerformer node of
        None \<Rightarrow> [diagError ''missing_performer'' (path @ ''.performer'') ''decision node requires a decider performer'']
      | Some p \<Rightarrow> validatePerformer p (path @ ''.performer'') True) @
     finding (NextOf node = fmempty) (diagError ''missing_next'' (path @ ''.next'') ''decision node requires outcome edges'')"

definition validateWait :: "Node \<Rightarrow> string \<Rightarrow> Diagnostics" where
  "validateWait node path =
     (case Wait node of
        None \<Rightarrow> [diagError ''missing_wait'' (path @ ''.wait'') ''wait node requires duration, until, or signal'']
      | Some w \<Rightarrow>
          finding (isBlank (wc_Duration w) \<and> isBlank (wc_Until w) \<and> isBlank (wc_Signal w))
            (diagError ''missing_wait'' (path @ ''.wait'') ''wait node requires duration, until, or signal'') @
          checkInertParamRef (path @ ''.wait.duration'') (wc_Duration w) @
          validateDuration (path @ ''.wait.duration'') (wc_Duration w) @
          checkInertParamRef (path @ ''.wait.until'') (wc_Until w) @
          validateUntil (path @ ''.wait.until'') (wc_Until w) @
          checkInertParamRef (path @ ''.wait.signal'') (wc_Signal w)) @
     finding (NextOf node = fmempty) (diagError ''missing_next'' (path @ ''.next'') ''wait node requires a next target'')"

definition validateEnd :: "Node \<Rightarrow> string \<Rightarrow> Diagnostics" where
  "validateEnd node path =
     finding (NextOf node \<noteq> fmempty) (diagError ''end_has_next'' (path @ ''.next'') ''end node must not have outgoing edges'') @
     validateEndResult (Result node) (path @ ''.result'')"

definition validateFork :: "Node \<Rightarrow> string \<Rightarrow> Diagnostics" where
  "validateFork node path =
     finding (mlen (NextOf node) < 2) (diagError ''parallel_degree'' (path @ ''.next'') ''parallel node requires at least two outgoing edges'') @
     finding (NodePerformer node \<noteq> None \<or> Plan node \<noteq> None \<or> Checks node \<noteq> [] \<or> Review node \<noteq> None \<or> Retry node \<noteq> None \<or>
              Wait node \<noteq> None \<or> \<not> isBlank (Result node) \<or> Captures node \<noteq> [])
       (diagError ''parallel_fields'' path ''parallel node cannot declare performer, plan, checks, review, retry, wait, result, or captures'')"

definition validateNode :: "(Template \<Rightarrow> bool \<Rightarrow> Diagnostics) \<Rightarrow> Template \<Rightarrow> nat \<Rightarrow> string \<Rightarrow> Diagnostics" where
  "validateNode nested t depth nid =
     (let node = node_of t nid; path = ''nodes.'' @ nid in
      finding (\<not> idPattern nid) (diagError ''invalid_id'' path (''node id must match '' @ idPatternString)) @
      finding (Type node \<noteq> NodeTypeEnd \<and> \<not> isBlank (Result node))
        (diagError ''result_on_non_end_node'' (path @ ''.result'') ''result is only valid on end nodes'') @
      validateCaptures node path @
      finding (SubprocessOf node \<noteq> None \<and> Type node \<noteq> NodeTypeSubprocess)
        (diagError ''subprocess_on_non_subprocess_node'' (path @ ''.subprocess'') ''subprocess is only valid on subprocess nodes'') @
      (case Type node of
         NodeTypeSubprocess \<Rightarrow> validateSubprocessNode nested t node path depth
       | NodeTypeTask \<Rightarrow> validateTask node path
       | NodeTypeDecision \<Rightarrow> validateDecision node path
       | NodeTypeWait \<Rightarrow> validateWait node path
       | NodeTypeStart \<Rightarrow> finding (NextOf node = fmempty) (diagError ''missing_next'' (path @ ''.next'') ''start node requires a next target'')
       | NodeTypeEnd \<Rightarrow> validateEnd node path
       | NodeTypeParallel \<Rightarrow> validateFork node path
       | NodeTypeOther k \<Rightarrow> [diagError ''invalid_node_type'' (path @ ''.type'') (''unsupported node type '' @ quote k)]))"

definition validateNodes :: "(Template \<Rightarrow> bool \<Rightarrow> Diagnostics) \<Rightarrow> Template \<Rightarrow> nat \<Rightarrow> Diagnostics" where
  "validateNodes nested t depth =
     concat (map (validateNode nested t depth) (sortedKeys (TemplateNodes t))) @
     finding (length (filter (\<lambda>nid. Type (node_of t nid) = NodeTypeStart) (sortedKeys (TemplateNodes t))) > 1)
       (diagError ''multiple_start_nodes'' ''nodes'' ''at most one node may have type start'')"

lemma validateNodes_cong [fundef_cong]:
  assumes "t = t'" "depth = depth'"
    "\<And>nid body inline. nid |\<in>| fmdom (TemplateNodes t') \<Longrightarrow> Body (SubprocessOf (node_of t' nid)) = Some body \<Longrightarrow>
       f body inline = g body inline"
  shows "validateNodes f t depth = validateNodes g t' depth'"
proof -
  have "validateNode f t' depth' nid = validateNode g t' depth' nid" if "nid |\<in>| fmdom (TemplateNodes t')" for nid
    using assms(3) [OF that]
    by (auto simp: validateNode_def validateSubprocessNode_def Let_def split: NodeType.splits option.splits)
  then have "map (validateNode f t' depth') (sortedKeys (TemplateNodes t')) = map (validateNode g t' depth') (sortedKeys (TemplateNodes t'))"
    by simp
  then show ?thesis using assms(1,2) by (simp only: validateNodes_def)
qed

section \<open>Scopes\<close>

definition validateScopeGraph :: "Template \<Rightarrow> Edge list \<Rightarrow> Diagnostics" where
  "validateScopeGraph t es =
     validateExpansionCollisions t @ validateEdges t es @ validateJoinAndDegree t es @ validateParallelScopePlan t es @
     validateOutcomeRouting t @ validateLoopBudgets t @ validateLoops t es @ validatePoisonEscalations t @
     validateReachability t es @ validateAcyclic t es @ validateParamRefs t"

function validateScope :: "Template \<Rightarrow> Edge list \<Rightarrow> nat \<Rightarrow> bool \<Rightarrow> Diagnostics" where
  "validateScope t es depth isBody =
     validateHeader t isBody @
     validateNodes (\<lambda>body inline. validateScope body (NormalizeEdges body) (depth + 1) inline) t depth @
     validateScopeGraph t es @
     (if isBody then [] else validateLayout t)"
  by pat_completeness auto
termination
proof (relation "measure (\<lambda>(t, es, depth, isBody). tmplDepth t)", simp, goal_cases)
  case (1 t es depth isBody nid body inline)
  then show ?case using node_of_depth [of nid t] Body_depth [of "node_of t nid" body] by simp
qed

declare validateScope.simps [simp del]

definition templateFindings :: "Template \<Rightarrow> Edge list \<Rightarrow> Diagnostics" where
  "templateFindings t es =
     (let nested = subprocessGraphCardinality t;
          cardinality = normalizedGraphCardinalityDiagnostics
            \<lparr>gc_Nodes = saturatingAdd (saturatingCount (int (mlen (TemplateNodes t))) MaxNormalizedNodes) (gc_Nodes nested) MaxNormalizedNodes,
             gc_Edges = saturatingAdd (saturatingCount (int (length es)) MaxNormalizedEdges) (gc_Edges nested) MaxNormalizedEdges\<rparr>
      in if HasErrors cardinality then cardinality else validateScope t es 0 False)"

definition Validate :: "Template \<Rightarrow> Edge list \<Rightarrow> Diagnostics" where
  "Validate t es = collectorDiagnostics (snd (AddAll (templateFindings t es) newTemplateDiagnosticCollector))"

end
