(* ===== verification/Validate_Facts.thy ===== *)
theory Validate_Facts
  imports Validate_Scope
begin

text \<open>
  What a template without validation errors has.  No producer uses the code of the collector's
  closing sentinel, so a result without errors means that no finding was refused and that none of
  them is an error; the facts about nodes, edges, loops and stage ids follow.
\<close>

section \<open>The sentinel\<close>

named_theorems plain \<open>producers that do not use the sentinel's code\<close>

definition plainCode :: "Diagnostic \<Rightarrow> bool" where
  "plainCode dg \<longleftrightarrow> dg_Code dg \<noteq> ''template_diagnostic_budget''"

definition plainFindings :: "Diagnostics \<Rightarrow> bool" where
  "plainFindings ds \<longleftrightarrow> list_all plainCode ds"

lemma plain_basic [plain]:
  "plainFindings []" "plainFindings (xs @ ys) \<longleftrightarrow> plainFindings xs \<and> plainFindings ys"
  "plainFindings (x # xs) \<longleftrightarrow> plainCode x \<and> plainFindings xs"
  "plainFindings (concat (map f zs)) \<longleftrightarrow> (\<forall>z\<in>set zs. plainFindings (f z))"
  "plainCode (diagError c p m) \<longleftrightarrow> c \<noteq> ''template_diagnostic_budget''"
  "plainCode (diagWarning c p m) \<longleftrightarrow> c \<noteq> ''template_diagnostic_budget''"
  "plainFindings (if b then xs else ys) \<longleftrightarrow> (b \<longrightarrow> plainFindings xs) \<and> (\<not> b \<longrightarrow> plainFindings ys)"
  by (auto simp: plainFindings_def plainCode_def diagError_def diagWarning_def list_all_iff)

lemma plain_indexed [plain]: "(\<And>i x. plainFindings (f i x)) \<Longrightarrow> plainFindings (indexed f xs)"
  by (auto simp: indexed_def plain)

lemma plain_values [plain]:
  "plainFindings (checkInertParamRef p v)" "plainFindings (validateDuration p v)" "plainFindings (validateUntil p v)"
  "plainFindings (validateEndResult v p)"
  by (simp_all add: checkInertParamRef_def validateDuration_def validateUntil_def validateEndResult_def plain split: option.split)

lemma plain_policies [plain]: "plainFindings (validateFallback fb p)" "plainFindings (validateRetry r p)"
  by (simp_all add: validateFallback_def validateRetry_def plain split: option.split)

lemma plain_scopedField [plain]: "plainFindings (scopedField pf p f b ks)"
  by (simp add: scopedField_def plain)

lemma plain_kindScoped [plain]: "plainFindings (validateKindScopedFields pf p)"
  by (simp add: validateKindScopedFields_def plain)

lemma plain_choiceLoop [plain]: "choiceLoop pf p i ls cs = (found, all) \<Longrightarrow> plainFindings found"
proof (induction pf p i ls cs arbitrary: found all rule: choiceLoop.induct)
  case (2 pf p i ls raw rest)
  then show ?case
    by (auto simp: choiceOutcome_def plain Let_def split: prod.splits if_splits option.splits)
qed (simp add: plain)

lemma plain_choices [plain]: "plainFindings (validateChoiceOutcomes pf p d)"
  by (auto simp: validateChoiceOutcomes_def plain split: prod.split)

lemma plain_performer [plain]: "plainFindings (validatePerformer pf p d)"
  by (simp add: validatePerformer_def validatePerformerKind_def validateContact_def plain split: PerformerKind.split option.split)

lemma plain_step [plain]: "plainFindings (validateStep s p a)"
  by (simp add: validateStep_def plain)

lemma plain_checkLoop [plain]: "plainFindings (checkLoop p i seen ss)"
  by (induction p i seen ss rule: checkLoop.induct) (simp_all add: plain Let_def split: option.split)

lemma plain_captures [plain]: "plainFindings (validateCaptures n p)"
proof -
  have "plainFindings (captureLoop p i seen names)" for i seen names
    by (induction p i seen names rule: captureLoop.induct) (simp_all add: plain Let_def split: option.split)
  then show ?thesis by (simp add: validateCaptures_def plain)
qed

lemma plain_paramRefs [plain]: "plainFindings (validateParamRefs t)"
proof -
  have refs: "plainFindings (collectParamRefs ds p v s)" for ds p v s by (simp add: collectParamRefs_def plain)
  then have "plainFindings (proseParamRefs ds p px)" "plainFindings (collectPerformerParamRefs ds p pf)" for ds p px pf
    by (simp_all add: proseParamRefs_def collectProseParamRefs_def collectPerformerParamRefs_def collectExecutableParamRefs_def plain)
  then have "plainFindings (collectNodeParamRefs ds p n)" for ds p n
    by (simp add: collectNodeParamRefs_def collectStepParamRefs_def plain split: option.split)
  then show ?thesis
    using refs by (simp add: validateParamRefs_def proseParamRefs_def collectProseParamRefs_def plain Let_def)
qed

lemma plain_layout [plain]: "plainFindings (validateLayout t)"
  by (auto simp: validateLayout_def plain split: option.split)

lemma plain_graph [plain]:
  "plainFindings (validateReachability t es)" "plainFindings (validateEdges t es)" "plainFindings (validateJoinAndDegree t es)"
  "plainFindings (validateLoopBudgets t)" "plainFindings (validatePoisonEscalations t)"
  by (simp_all add: validateReachability_def validateEdges_def validateJoinAndDegree_def validateLoopBudgets_def
      validatePoisonEscalations_def strayEntries_def plain Let_def split: option.split JoinPolicy.split)

lemma plain_routing [plain]: "plainFindings (validateOutcomeRouting t)"
  by (simp add: validateOutcomeRouting_def taskRouting_def passRouting_def plain Let_def split: NodeType.split)

lemma plain_acyclic [plain]: "plainFindings (validateAcyclic t es)"
proof -
  have "plainCode dg" if "dg \<in> set (validateAcyclic t es)" for dg
    using that by (auto simp: validateAcyclic_def Let_def cycleDiagnostic_def plain dest!: cycleVisits_reports)
  then show ?thesis by (simp add: plainFindings_def list_all_iff)
qed

lemma plain_collisions [plain]: "plainFindings (validateExpansionCollisions t)"
proof -
  have "plainFindings (collisionLoop t m ps)" for m ps
    by (induction t m ps rule: collisionLoop.induct) (simp_all add: plain split: option.split)
  then show ?thesis by (simp add: validateExpansionCollisions_def)
qed

lemma plain_loops [plain]: "plainFindings (validateLoops t es)"
proof -
  have "plainFindings (overlaps ls)" for ls by (induction ls rule: overlaps.induct) (simp_all add: plain)
  then show ?thesis
    by (simp add: validateLoops_def boundsOfNode_def boundFindings_def notBackFindings_def loopShape_def plain Let_def)
qed

lemma plain_parallel [plain]: "plainFindings (validateParallelScopePlan t es)"
proof -
  have cross: "plainCode (crossScopeDiagnostic nid m)" for nid m by (simp add: crossScopeDiagnostic_def plain)
  have refused: "plainCode dg" if "reduceNode t nid sigs rs = Inl dg" for nid sigs rs dg
    using that cross by (auto simp: reduceNode_def Let_def split: if_splits option.splits)
  have "plainFindings (pp_found (planScopeNode t es nid s)) = plainFindings (pp_found s)" for nid s
    using refused [of nid "incomingSignatures t es s nid" "pp_reducers s"]
    by (cases "reduceNode t nid (incomingSignatures t es s nid) (pp_reducers s)")
      (auto simp: planScopeNode_def cross plain Let_def)
  then have "plainFindings (pp_found (fold (planScopeNode t es) order s)) = plainFindings (pp_found s)" for order s
    by (induction order arbitrary: s) simp_all
  then show ?thesis
    by (simp add: validateParallelScopePlan_def scopePlanOf_def forkFindings_def plain Let_def)
qed

lemma plain_ports [plain]: "plainFindings (validateSubprocessPorts t n sp b p q)"
  by (simp add: validateSubprocessPorts_def inputFindings_def plain Let_def split: option.split)

lemma plain_source [plain]: "plainFindings (subprocessSource t sp p)"
  by (simp add: subprocessSource_def plain Let_def split: option.split)

lemma plain_scoped [plain]: "plainFindings (map (scoped p) ds) = plainFindings ds"
  by (simp add: plainFindings_def list_all_iff scoped_def plainCode_def)

lemma plain_header [plain]: "plainFindings (validateHeader t b)"
  by (simp add: validateHeader_def validateTemplateIdentity_def validateScopeHeader_def plain)

lemma plain_kinds [plain]:
  "plainFindings (validateTask n p)" "plainFindings (validateDecision n p)" "plainFindings (validateWait n p)"
  "plainFindings (validateEnd n p)" "plainFindings (validateFork n p)"
  by (simp_all add: validateTask_def validateDecision_def validateWait_def validateEnd_def validateFork_def plain Let_def split: option.split)

lemma plain_node [plain]:
  assumes "\<And>body inline. Body (SubprocessOf (node_of t nid)) = Some body \<Longrightarrow> plainFindings (nested body inline)"
  shows "plainFindings (validateNode nested t depth nid)"
proof -
  have "plainFindings (validateSubprocessNode nested t (node_of t nid) p depth)" for p
    using assms by (simp add: validateSubprocessNode_def plain Let_def split: option.split)
  then show ?thesis unfolding validateNode_def Let_def by (cases "Type (node_of t nid)") (simp_all add: plain)
qed

lemma plain_scope [plain]: "plainFindings (validateScope t es depth b)"
proof (induction t es depth b rule: validateScope.induct)
  case (1 t es depth b)
  have "plainFindings (validateNode (\<lambda>body inline. validateScope body (NormalizeEdges body) (depth + 1) inline) t depth nid)"
    if "nid |\<in>| fmdom (TemplateNodes t)" for nid
    by (rule plain_node) (rule 1 [OF that])
  then show ?case
    by (subst validateScope.simps) (simp add: validateNodes_def validateScopeGraph_def plain)
qed

section \<open>No errors\<close>

lemma AddAll_kept:
  "AddAll ds tc = (ok, tc') \<Longrightarrow> \<not> tb_exhausted (tc_budget tc') \<Longrightarrow> tc_diagnostics tc' = tc_diagnostics tc @ ds"
proof (induction ds arbitrary: tc)
  case (Cons dg ds)
  obtain k tc1 where add: "Add dg tc = (k, tc1)" by force
  show ?case
  proof (cases k)
    case True
    with add have "tc_diagnostics tc1 = tc_diagnostics tc @ [dg]" by (auto simp: Add_def Let_def split: if_splits)
    with Cons.IH [of tc1] Cons.prems add True show ?thesis by simp
  next
    case False
    with add Cons.prems show ?thesis by (auto simp: Add_def Let_def split: if_splits)
  qed
qed simp

lemma AddAll_subset: "set (tc_diagnostics (snd (AddAll ds tc))) \<subseteq> set (tc_diagnostics tc) \<union> set ds"
proof (induction ds arbitrary: tc)
  case (Cons dg ds)
  obtain k tc1 where add: "Add dg tc = (k, tc1)" by force
  then have "set (tc_diagnostics tc1) \<subseteq> insert dg (set (tc_diagnostics tc))" by (auto simp: Add_def Let_def split: if_splits)
  with Cons.IH [of tc1] add show ?case by (cases k) auto
qed simp

lemma collected_errors:
  assumes "plainFindings ds" "\<not> HasErrors (collectorDiagnostics (snd (AddAll ds newTemplateDiagnosticCollector)))"
  shows "\<not> HasErrors ds" "collectorDiagnostics (snd (AddAll ds newTemplateDiagnosticCollector)) = ds"
proof -
  obtain k tc where tc: "AddAll ds newTemplateDiagnosticCollector = (k, tc)" by force
  have sub: "set (tc_diagnostics tc) \<subseteq> set ds"
    using AddAll_subset [of ds newTemplateDiagnosticCollector] tc by (simp add: newTemplateDiagnosticCollector_def)
  have "\<not> tb_exhausted (tc_budget tc)"
  proof
    assume ex: "tb_exhausted (tc_budget tc)"
    have "dg_Code (last (tc_diagnostics tc)) \<noteq> ''template_diagnostic_budget''" if "tc_diagnostics tc \<noteq> []"
    proof -
      have "plainCode (last (tc_diagnostics tc))"
        using last_in_set [OF that] sub assms(1) by (auto simp: plainFindings_def list_all_iff)
      then show ?thesis by (simp add: plainCode_def)
    qed
    with ex have "collectorDiagnostics tc = tc_diagnostics tc @ [templateDiagnosticBudgetDiagnostic]"
      by (auto simp: collectorDiagnostics_def)
    with assms(2) tc show False by (simp add: HasErrors_def templateDiagnosticBudgetDiagnostic_def diagError_def)
  qed
  with AddAll_kept [OF tc] tc show "collectorDiagnostics (snd (AddAll ds newTemplateDiagnosticCollector)) = ds"
    by (simp add: collectorDiagnostics_def newTemplateDiagnosticCollector_def)
  with assms(2) show "\<not> HasErrors ds" by simp
qed

lemma plain_findings: "plainFindings (templateFindings t es)"
  by (simp add: templateFindings_def normalizedGraphCardinalityDiagnostics_def plain Let_def)

lemma Validate_clean:
  assumes "\<not> HasErrors (Validate t es)"
  shows "\<not> HasErrors (validateScope t es 0 False)" "Validate t es = validateScope t es 0 False"
  using collected_errors [OF plain_findings, of t es] assms unfolding Validate_def
  by (auto simp: templateFindings_def Let_def split: if_splits)

end
