(* ===== verification/Clean_Scopes.thy ===== *)
theory Clean_Scopes
  imports Validate_Facts
begin

text \<open>
  What validation guarantees of every scope of a template without errors, nested bodies included:
  well-formed node ids, declared edge targets, bounded loops that leave decisions, no unbounded cycle.
\<close>

section \<open>Scopes without errors\<close>

definition cleanScope :: "Template \<Rightarrow> bool" where
  "cleanScope t \<longleftrightarrow> (\<exists>depth isBody. \<not> HasErrors (validateScope t (NormalizeEdges t) depth isBody))"

lemma HasErrors_map: "HasErrors (concat (map f xs)) \<longleftrightarrow> (\<exists>x\<in>set xs. HasErrors (f x))"
  by (auto simp: HasErrors_concat)

lemma HasErrors_scoped [simp]: "HasErrors (map (scoped p) ds) \<longleftrightarrow> HasErrors ds"
  by (induction ds) (simp_all add: HasErrors_def scoped_def)

lemma HasErrors_diagError [simp]: "HasErrors (diagError c p m # ds)"
  by (simp add: HasErrors_def diagError_def)

abbreviation nestedScope :: "nat \<Rightarrow> Template \<Rightarrow> bool \<Rightarrow> Diagnostics" where
  "nestedScope depth \<equiv> (\<lambda>body inline. validateScope body (NormalizeEdges body) (depth + 1) inline)"

lemma clean_split:
  assumes "\<not> HasErrors (validateScope t es depth isBody)"
  shows "\<not> HasErrors (validateHeader t isBody)" "\<not> HasErrors (validateNodes (nestedScope depth) t depth)"
    "\<not> HasErrors (validateScopeGraph t es)"
  using assms unfolding validateScope.simps [of t es depth isBody] HasErrors_append by blast+

lemma clean_graph: "cleanScope t \<Longrightarrow> \<not> HasErrors (validateScopeGraph t (NormalizeEdges t))"
  using clean_split(3) by (auto simp: cleanScope_def)

lemma clean_edges: "cleanScope t \<Longrightarrow> \<not> HasErrors (validateEdges t (NormalizeEdges t))"
  and clean_loops: "cleanScope t \<Longrightarrow> \<not> HasErrors (validateLoops t (NormalizeEdges t))"
  and clean_cycles: "cleanScope t \<Longrightarrow> \<not> HasErrors (validateAcyclic t (NormalizeEdges t))"
  using clean_graph [of t] unfolding validateScopeGraph_def HasErrors_append by blast+

lemma clean_node:
  assumes "cleanScope t" "nid |\<in>| fmdom (TemplateNodes t)"
  obtains depth where "\<not> HasErrors (validateNode (nestedScope depth) t depth nid)"
proof -
  from assms(1) obtain depth isBody where "\<not> HasErrors (validateNodes (nestedScope depth) t depth)"
    using clean_split(2) unfolding cleanScope_def by blast
  then have "\<not> HasErrors (concat (map (validateNode (nestedScope depth) t depth) (sortedKeys (TemplateNodes t))))"
    unfolding validateNodes_def HasErrors_append by blast
  with assms(2) have "\<not> HasErrors (validateNode (nestedScope depth) t depth nid)" unfolding HasErrors_map by simp
  then show thesis by (rule that)
qed

lemma clean_body:
  assumes "cleanScope t" "nid |\<in>| fmdom (TemplateNodes t)" "Type (node_of t nid) = NodeTypeSubprocess"
    "Body (SubprocessOf (node_of t nid)) = Some body"
  shows "cleanScope body"
proof -
  obtain depth where "\<not> HasErrors (validateNode (nestedScope depth) t depth nid)" by (rule clean_node [OF assms(1,2)])
  with assms(3) have n: "\<not> HasErrors (validateSubprocessNode (nestedScope depth) t (node_of t nid) (''nodes.'' @ nid) depth)"
    unfolding validateNode_def Let_def HasErrors_append by simp
  obtain sp where sp: "SubprocessOf (node_of t nid) = Some sp" using assms(4) by (auto simp: Body_def split: option.splits)
  from n have "\<not> HasErrors (nestedScope depth body (IsInline sp))"
    unfolding validateSubprocessNode_def Let_def HasErrors_append sp option.case assms(4) [unfolded sp] by (simp split: if_splits)
  then show ?thesis unfolding cleanScope_def by blast
qed

lemma clean_id:
  assumes "cleanScope t" "nid |\<in>| fmdom (TemplateNodes t)"
  shows "idPattern nid" "nid \<noteq> []"
proof -
  obtain depth where "\<not> HasErrors (validateNode (nestedScope depth) t depth nid)" by (rule clean_node [OF assms])
  then show "idPattern nid" unfolding validateNode_def Let_def HasErrors_append by simp
  then show "nid \<noteq> []" by (auto simp: idPattern_def)
qed

lemma NormalizeEdges_mem:
  assumes "nid |\<in>| fmdom (TemplateNodes t)" "fmlookup (NextOf (node_of t nid)) oc = Some to"
  shows "\<lparr>ed_From = nid, ed_Outcome = oc, ed_To = to\<rparr> \<in> set (NormalizeEdges t)"
proof -
  have "oc \<in> set (sortedKeys (NextOf (node_of t nid)))" "mget [] (NextOf (node_of t nid)) oc = to"
    using assms(2) by (simp_all add: fmdomI mget_def)
  then show ?thesis using assms(1) unfolding NormalizeEdges_def Let_def by force
qed

lemma NormalizeEdges_cases:
  assumes "e \<in> set (NormalizeEdges t)" "ed_From e \<noteq> []"
  shows "ed_From e |\<in>| fmdom (TemplateNodes t)" "fmlookup (NextOf (node_of t (ed_From e))) (ed_Outcome e) = Some (ed_To e)"
proof -
  from assms obtain nid oc where "nid |\<in>| fmdom (TemplateNodes t)" "oc |\<in>| fmdom (NextOf (node_of t nid))"
    "e = \<lparr>ed_From = nid, ed_Outcome = oc, ed_To = mget [] (NextOf (node_of t nid)) oc\<rparr>"
    unfolding NormalizeEdges_def Let_def by (auto split: if_splits)
  then show "ed_From e |\<in>| fmdom (TemplateNodes t)" "fmlookup (NextOf (node_of t (ed_From e))) (ed_Outcome e) = Some (ed_To e)"
    by (auto simp: mget_def fmlookup_dom_iff)
qed

lemma clean_target:
  assumes "cleanScope t" "nid |\<in>| fmdom (TemplateNodes t)" "fmlookup (NextOf (node_of t nid)) oc = Some to"
  shows "to |\<in>| fmdom (TemplateNodes t)"
proof -
  let ?e = "\<lparr>ed_From = nid, ed_Outcome = oc, ed_To = to\<rparr>"
  have "\<not> HasErrors (if ed_From ?e = [] then [] else
           finding (TrimSpace (ed_Outcome ?e) = [])
             (diagError ''missing_outcome'' (''nodes.'' @ ed_From ?e @ ''.next'') ''next outcome label is required'') @
           (if TrimSpace (ed_To ?e) = []
            then [diagError ''missing_target'' (''nodes.'' @ ed_From ?e @ ''.next.'' @ ed_Outcome ?e) ''next target is required'']
            else finding (fmlookup (TemplateNodes t) (ed_To ?e) = None)
                   (diagError ''unknown_target'' (''nodes.'' @ ed_From ?e @ ''.next.'' @ ed_Outcome ?e)
                      (''target node '' @ quote (ed_To ?e) @ '' is not declared''))))"
    using clean_edges [OF assms(1)] NormalizeEdges_mem [OF assms(2,3)] unfolding validateEdges_def HasErrors_map by blast
  then show ?thesis using clean_id(2) [OF assms(1,2)] by (auto simp: fmlookup_dom_iff split: if_splits)
qed

lemma clean_bound:
  assumes "cleanScope t" "nid |\<in>| fmdom (TemplateNodes t)" "fmlookup (LoopBounds (node_of t nid)) oc = Some b"
  shows "Type (node_of t nid) = NodeTypeDecision" "fmlookup (NextOf (node_of t nid)) oc \<noteq> None"
    "2 \<le> lb_MaxIterations b" "lb_MaxIterations b \<le> 100"
proof -
  let ?node = "node_of t nid"
  let ?ds = "concat (map (boundsOfNode t) (sortedKeys (TemplateNodes t)))"
  have "?ds \<noteq> [] \<Longrightarrow> validateLoops t (NormalizeEdges t) = ?ds" unfolding validateLoops_def Let_def by (rule if_P)
  moreover have "?ds = [] \<Longrightarrow> \<not> HasErrors ?ds" by (simp only: HasErrors_Nil not_False_eq_True)
  ultimately have "\<not> HasErrors ?ds" using clean_loops [OF assms(1)] by metis
  with assms(2) have none: "\<not> HasErrors (boundsOfNode t nid)" unfolding HasErrors_map by simp
  have ne: "LoopBounds ?node \<noteq> fmempty" using assms(3) by auto
  with none show dec: "Type ?node = NodeTypeDecision" unfolding boundsOfNode_def Let_def by (simp split: if_splits)
  have "oc \<in> set (sortedKeys (LoopBounds ?node))" using assms(3) by (simp add: fmdomI)
  with none ne dec obtain free where "\<not> HasErrors (boundFindings (''nodes.'' @ nid @ ''.loops'') ?node free oc)"
    unfolding boundsOfNode_def Let_def by (auto simp: HasErrors_map)
  moreover have "loopBound ?node oc = b" using assms(3) by (simp add: loopBound_def mget_def)
  ultimately show "fmlookup (NextOf ?node) oc \<noteq> None" "2 \<le> lb_MaxIterations b" "lb_MaxIterations b \<le> 100"
    unfolding boundFindings_def Let_def by (auto simp: MinLoopIterations_def MaxLoopIterations_def split: if_splits)
qed

lemma clean_acyclic:
  assumes "cleanScope t"
  shows "acyclic (edgeRel (acyclicEdges t (NormalizeEdges t)))"
  using clean_cycles [OF assms] validateAcyclic_iff validateAcyclic_errors by blast

end
