(* ===== verification/Eligibility.thy ===== *)
theory Eligibility
  imports Clean_Scopes
begin

text \<open>
  Execution eligibility (\<open>engine/eligibility.go\<close>): which authoring-valid templates the engine can
  run.
\<close>

definition maxExecutableRetryAttempts :: int where "maxExecutableRetryAttempts = 100"

section \<open>Compound stages\<close>

definition addStagePerformerDiagnostics :: "string \<Rightarrow> Performer \<Rightarrow> Diagnostics" where
  "addStagePerformerDiagnostics path p =
     (if p_Kind p \<noteq> PerformerProgram \<and> p_Kind p \<noteq> PerformerAgent
      then [diagError ''unsupported_performer'' (path @ ''.kind'') ''this engine executes only program and agent stage performers'']
      else
        (if p_Contact p \<noteq> None
         then [diagError ''unsupported_contact'' (path @ ''.contact'') ''performer contact schedules are not executable in this engine yet'']
         else []) @
        (if p_Kind p = PerformerAgent \<and> TrimSpace (p_Timeout p) \<noteq> []
         then [diagError ''unsupported_timeout'' (path @ ''.timeout'') ''agent performer timeouts are not executable in this engine yet'']
         else []))"

fun stageIDLoop :: "string \<Rightarrow> nat \<Rightarrow> StageSpec list \<Rightarrow> Diagnostics" where
  "stageIDLoop path checkIndex [] = []"
| "stageIDLoop path checkIndex (spec # specs) =
     (let test = ss_Stage spec = StageTest;
          stagePath = (if test then path @ ''.checks['' @ show_nat checkIndex @ '']''
                       else path @ ''.'' @ stageString (ss_Stage spec))
      in (if length (ss_ChildID spec) > MaxExecutableNodeIDBytes
          then [diagError ''expanded_node_id_limit'' stagePath
                  (''this stage derives a '' @ show_nat (length (ss_ChildID spec)) @ ''-byte node id, above the '' @
                   show_nat MaxExecutableNodeIDBytes @ ''-byte executable node id ceiling; shorten the task id or the step id'')]
          else []) @
         stageIDLoop path (if test then Suc checkIndex else checkIndex) specs)"

definition addStageIDDiagnostics :: "string \<Rightarrow> string \<Rightarrow> Node \<Rightarrow> Diagnostics" where
  "addStageIDDiagnostics path nodeID node = stageIDLoop path 0 (ExpandNode nodeID node)"

definition addStageDiagnostics :: "string \<Rightarrow> string \<Rightarrow> Node \<Rightarrow> Diagnostics" where
  "addStageDiagnostics path nodeID node =
     addStageIDDiagnostics path nodeID node @
     (case Plan node of None \<Rightarrow> [] | Some plan \<Rightarrow> addStagePerformerDiagnostics (path @ ''.plan.performer'') (sp_Performer plan)) @
     concat (map (\<lambda>(i, check). addStagePerformerDiagnostics (path @ ''.checks['' @ show_nat i @ ''].performer'') (sp_Performer check))
               (enumerate 0 (Checks node))) @
     (case Review node of None \<Rightarrow> [] | Some review \<Rightarrow> addStagePerformerDiagnostics (path @ ''.review.performer'') (sp_Performer review))"

section \<open>One node\<close>

definition performerIs :: "PerformerKind \<Rightarrow> Node \<Rightarrow> bool" where
  "performerIs k n \<longleftrightarrow> (case NodePerformer n of None \<Rightarrow> False | Some p \<Rightarrow> p_Kind p = k)"

definition nodeIDDiagnostics :: "string \<Rightarrow> string \<Rightarrow> Diagnostics" where
  "nodeIDDiagnostics path nodeID =
     (if length nodeID > MaxExecutableNodeIDBytes
      then [diagError ''node_id_limit'' path (''this node id is '' @ show_nat (length nodeID) @ '' bytes, above the '' @
              show_nat MaxExecutableNodeIDBytes @ ''-byte executable node id ceiling'')]
      else [])"

definition retryDiagnostics :: "string \<Rightarrow> Node \<Rightarrow> Diagnostics" where
  "retryDiagnostics path node =
     (case Retry node of
        None \<Rightarrow> []
      | Some retry \<Rightarrow>
          let agentTask = Type node = NodeTypeTask \<and> performerIs PerformerAgent node in
          if Type node \<noteq> NodeTypeTask \<or> NodePerformer node = None \<or> (\<not> performerIs PerformerProgram node \<and> \<not> agentTask)
          then [diagError ''unsupported_retry'' (path @ ''.retry'') ''only program and agent task retries are executable in this engine yet'']
          else
            (if rp_MaxAttempts retry \<le> 0
             then [diagError ''unsupported_retry'' (path @ ''.retry.maxAttempts'')
                     ''an executable retry requires a positive maxAttempts, which includes the first attempt'']
             else if rp_MaxAttempts retry > maxExecutableRetryAttempts
             then [diagError ''unsupported_retry'' (path @ ''.retry.maxAttempts'')
                     (''an executable retry budget is at most '' @ show_int maxExecutableRetryAttempts @
                      '' attempts including the first; got '' @ show_int (rp_MaxAttempts retry) @
                      '', and this engine retries immediately with no backoff wait to throttle it'')]
             else []) @
            (if TrimSpace (rp_Backoff retry) \<noteq> []
             then [diagError ''unsupported_retry'' (path @ ''.retry.backoff'') ''retry backoff waits are not executable in this engine yet'']
             else []) @
            (if RetryMode (Some retry) \<noteq> ''fresh-attempt'' \<and> \<not> agentTask
             then [diagError ''unsupported_retry'' (path @ ''.retry.onFail'')
                     (''only fresh-attempt retries are executable in this engine yet; '' @
                      ''feedback-same-session needs a performer session this engine does not keep'')]
             else []))"

definition stageRetryDiagnostics :: "string \<Rightarrow> Node \<Rightarrow> Diagnostics" where
  "stageRetryDiagnostics path node =
     (case Plan node of
        None \<Rightarrow> []
      | Some plan \<Rightarrow>
          (if sp_Retry plan \<noteq> None
           then [diagError ''unsupported_retry'' (path @ ''.plan.retry'') ''stage retries are not executable in this engine yet''] else []) @
          (if sp_ApprovalRetry plan \<noteq> None
           then [diagError ''unsupported_retry'' (path @ ''.plan.approvalRetry'') ''approval retries are not executable in this engine yet''] else [])) @
     concat (map (\<lambda>(i, check). if sp_Retry check \<noteq> None
         then [diagError ''unsupported_retry'' (path @ ''.checks['' @ show_nat i @ ''].retry'') ''stage retries are not executable in this engine yet'']
         else []) (enumerate 0 (Checks node))) @
     (case Review node of
        None \<Rightarrow> []
      | Some review \<Rightarrow>
          if sp_Retry review \<noteq> None
          then [diagError ''unsupported_retry'' (path @ ''.review.retry'') ''stage retries are not executable in this engine yet''] else [])"

definition stagesDiagnostics :: "string \<Rightarrow> string \<Rightarrow> Node \<Rightarrow> Diagnostics" where
  "stagesDiagnostics path nodeID node =
     (if Plan node \<noteq> None \<or> Checks node \<noteq> [] \<or> Review node \<noteq> None then
        (if Type node \<noteq> NodeTypeTask
         then [diagError ''unsupported_compound_stages'' path ''plan, check, and review stages are executable only on task nodes'']
         else addStageDiagnostics path nodeID node)
      else [])"

definition fieldDiagnostics :: "string \<Rightarrow> Node \<Rightarrow> Diagnostics" where
  "fieldDiagnostics path node =
     (if Wait node \<noteq> None \<and> Type node \<noteq> NodeTypeWait
      then [diagError ''unsupported_wait'' (path @ ''.wait'') ''wait configuration is not executable in this engine yet''] else []) @
     (if Captures node \<noteq> []
      then [diagError ''unsupported_captures'' (path @ ''.captures'') ''runtime captures are not executable in this engine yet''] else []) @
     (if NodePerformer node \<noteq> None \<and> Type node \<noteq> NodeTypeTask \<and> Type node \<noteq> NodeTypeDecision
      then [diagError ''unsupported_performer'' (path @ ''.performer'') ''only task and decision nodes may declare performers in this engine'']
      else [])"

text \<open>The performer of a task or a decision: its kind, its contact schedule, an agent's timeout.\<close>

definition slotDiagnostics :: "string \<Rightarrow> Node \<Rightarrow> PerformerKind \<Rightarrow> string \<Rightarrow> Diagnostics" where
  "slotDiagnostics path node other message =
     (case NodePerformer node of
        None \<Rightarrow> [diagError ''unsupported_performer'' (path @ ''.performer.kind'') message]
      | Some p \<Rightarrow>
          if p_Kind p \<noteq> other \<and> p_Kind p \<noteq> PerformerAgent
          then [diagError ''unsupported_performer'' (path @ ''.performer.kind'') message]
          else if p_Contact p \<noteq> None
          then [diagError ''unsupported_contact'' (path @ ''.performer.contact'') ''performer contact schedules are not executable in this engine yet'']
          else if p_Kind p = PerformerAgent \<and> TrimSpace (p_Timeout p) \<noteq> []
          then [diagError ''unsupported_timeout'' (path @ ''.performer.timeout'') ''agent performer timeouts are not executable in this engine yet'']
          else [])"

definition kindDiagnostics :: "string \<Rightarrow> Node \<Rightarrow> Diagnostics" where
  "kindDiagnostics path node =
     (case Type node of
        NodeTypeStart \<Rightarrow>
          if mlen (NextOf node) \<noteq> 1
          then [diagError ''unsupported_routing'' (path @ ''.next'') ''a start node requires exactly one outgoing route in this engine''] else []
      | NodeTypeTask \<Rightarrow>
          slotDiagnostics path node PerformerProgram ''this engine executes only program and agent task performers'' @
          (if mlen (NextOf node) \<noteq> 1
           then [diagError ''unsupported_routing'' (path @ ''.next'') ''a task requires exactly one outgoing route in this engine''] else [])
      | NodeTypeDecision \<Rightarrow> slotDiagnostics path node PerformerHuman ''this engine executes only human and agent deciders''
      | NodeTypeWait \<Rightarrow> [diagError ''unsupported_wait'' (path @ ''.type'') ''wait nodes are not executable in this engine yet'']
      | NodeTypeSubprocess \<Rightarrow>
          if Body (SubprocessOf node) = None
          then [diagError ''unresolved_subprocess'' (path @ ''.subprocess.templateRef'')
                  ''a subprocess template reference executes only after run creation resolves it''] else []
      | _ \<Rightarrow> [])"

definition nodeDiagnostics :: "string \<Rightarrow> string \<Rightarrow> Node \<Rightarrow> Diagnostics" where
  "nodeDiagnostics path nodeID node =
     nodeIDDiagnostics path nodeID @ retryDiagnostics path node @ stageRetryDiagnostics path node @
     stagesDiagnostics path nodeID node @ fieldDiagnostics path node @ kindDiagnostics path node"

section \<open>Scopes\<close>

definition bodyPath :: "string \<Rightarrow> Node \<Rightarrow> string" where
  "bodyPath path node =
     path @ ''.subprocess.'' @
     (case SubprocessOf node of Some s \<Rightarrow> if IsInline s then [] else ''resolved.'' | None \<Rightarrow> ''resolved.'')"

definition scopeBody :: "Node \<Rightarrow> Template option" where
  "scopeBody node = (if Type node = NodeTypeSubprocess then Body (SubprocessOf node) else None)"

lemma scopeBody_depth:
  "nid |\<in>| fmdom (TemplateNodes t) \<Longrightarrow> scopeBody (node_of t nid) = Some body \<Longrightarrow> tmplDepth body < tmplDepth t"
  using node_of_depth [of nid t] Body_depth [of "node_of t nid" body] by (auto simp: scopeBody_def split: if_splits)

function checkScope :: "Template \<Rightarrow> string \<Rightarrow> string \<Rightarrow> Diagnostics" where
  "checkScope scope idPrefix pathPrefix =
     concat (map (\<lambda>authoredID.
         let node = node_of scope authoredID;
             nodeID = idPrefix @ authoredID;
             path = pathPrefix @ ''nodes.'' @ authoredID
         in nodeDiagnostics path nodeID node @
            (case scopeBody node of
               None \<Rightarrow> []
             | Some body \<Rightarrow> checkScope body (nodeID @ ''/'') (bodyPath path node)))
       (sortedKeys (TemplateNodes scope)))"
  by pat_completeness auto
termination
  by (relation "measure (\<lambda>(t, i, p). tmplDepth t)") (auto intro: scopeBody_depth)

declare checkScope.simps [simp del]

definition expandedNodeCount :: "Template \<Rightarrow> nat" where
  "expandedNodeCount t = sum_list (map (\<lambda>(nid, node). 1 + length (ExpandNode nid node)) (WalkNodes t))"

definition executionDiagnostics :: "Template \<Rightarrow> Diagnostics" where
  "executionDiagnostics t =
     checkScope t [] [] @
     (if fmlookup (TemplateNodes t) (Start t) = None
      then [diagError ''unsupported_sequence_start'' ''start'' ''start must name a declared node''] else []) @
     (if int (expandedNodeCount t) > MaxNormalizedNodes
      then [diagError ''expanded_node_limit'' ''nodes'' (''expanding compound stages yields '' @ show_nat (expandedNodeCount t) @
              '' executable nodes, above the '' @ show_int MaxNormalizedNodes @ '' node ceiling'')] else [])"

definition CheckEligibility :: "Template \<Rightarrow> Diagnostics" where
  "CheckEligibility t =
     (let (edges, budget) = NormalizeEdgesWithinBudget t in
      if HasErrors budget then Errors budget
      else if HasErrors (Validate t edges) then Errors (Validate t edges)
      else executionDiagnostics t)"

definition RequireEligible :: "Template \<Rightarrow> unit result" where
  "RequireEligible t = (if CheckEligibility t = [] then Inr () else Inl ErrTemplateIneligible)"

section \<open>What eligibility guarantees\<close>

lemma RequireEligible_execution:
  assumes "RequireEligible t = Inr ()"
  shows "executionDiagnostics t = []"
  using assms
  by (auto simp: RequireEligible_def CheckEligibility_def Errors_empty_iff split: if_splits prod.splits)

lemma RequireEligible_clean:
  assumes "RequireEligible t = Inr ()"
  shows "cleanScope t"
proof -
  obtain es budget where nb: "NormalizeEdgesWithinBudget t = (es, budget)" by force
  from assms have "CheckEligibility t = []" by (simp add: RequireEligible_def split: if_splits)
  then have "\<not> HasErrors budget" "\<not> HasErrors (Validate t es)"
    unfolding CheckEligibility_def nb by (auto simp: Errors_empty_iff split: if_splits)
  moreover from this nb have "es = NormalizeEdges t" by (auto simp: NormalizeEdgesWithinBudget_def Let_def split: if_splits)
  ultimately show ?thesis using Validate_clean(1) unfolding cleanScope_def by blast
qed

lemma checkScope_node:
  assumes "checkScope t i p = []" "nid |\<in>| fmdom (TemplateNodes t)"
  shows "nodeDiagnostics (p @ ''nodes.'' @ nid) (i @ nid) (node_of t nid) = []"
    "scopeBody (node_of t nid) = Some body \<Longrightarrow>
       checkScope body (i @ nid @ ''/'') (bodyPath (p @ ''nodes.'' @ nid) (node_of t nid)) = []"
  using assms by (subst (asm) checkScope.simps; force simp: Let_def split: option.splits)+

text \<open>The executable shape of every node of an eligible template.\<close>

lemma eligible_node:
  assumes "RequireEligible t = Inr ()" "fmlookup (TemplateNodes t) nid = Some node"
  shows "(\<forall>retry. Retry node = Some retry \<longrightarrow> Type node = NodeTypeTask \<and> 1 \<le> rp_MaxAttempts retry \<and> rp_MaxAttempts retry \<le> 100) \<and>
    (Type node = NodeTypeTask \<longrightarrow> mlen (NextOf node) = 1 \<and>
       (\<exists>p. NodePerformer node = Some p \<and> (p_Kind p = PerformerProgram \<or> p_Kind p = PerformerAgent) \<and> p_Contact p = None)) \<and>
    Type node \<noteq> NodeTypeWait \<and> length nid \<le> MaxExecutableNodeIDBytes"
proof -
  have "checkScope t [] [] = []" using RequireEligible_execution [OF assms(1)] by (simp add: executionDiagnostics_def)
  moreover have n: "nid |\<in>| fmdom (TemplateNodes t)" "node_of t nid = node" using assms(2) by (auto simp: node_of_def mget_def intro: fmdomI)
  ultimately have dg: "nodeDiagnostics (''nodes.'' @ nid) nid node = []" using checkScope_node(1) [of t "[]" "[]" nid] by simp
  then have "retryDiagnostics (''nodes.'' @ nid) node = []" "kindDiagnostics (''nodes.'' @ nid) node = []"
    "nodeIDDiagnostics (''nodes.'' @ nid) nid = []" by (simp_all add: nodeDiagnostics_def)
  then show ?thesis
    by (auto simp: retryDiagnostics_def kindDiagnostics_def nodeIDDiagnostics_def slotDiagnostics_def Let_def
        maxExecutableRetryAttempts_def split: option.splits if_splits)
qed

end
