(* ===== verification/Preparation.thy ===== *)
theory Preparation
  imports Eligibility
begin

text \<open>
  Preparation of a template (\<open>engine/validate.go\<close>, \<open>Prepare\<close>, \<open>prepareScope\<close>, \<open>prepareSubprocess\<close>
  and the parameter binding; \<open>engine/loops.go\<close>, \<open>prepareLoops\<close>): the executable definition the
  reducer works on.  The process-wide fallback, a field of the source's definition that only
  preparation reads, is an argument here.  A node type that eligibility or authoring validation
  refuses has no prepared kind; the model stops there with \<open>GoPanic\<close>.
\<close>

section \<open>Binding performers\<close>

definition bindProgram :: "Performer \<Rightarrow> (string, string) fmap \<Rightarrow> ProgramCommand result" where
  "bindProgram performer params =
     (if \<not> list_all (\<lambda>r. case fmlookup params r of None \<Rightarrow> False | Some v \<Rightarrow> TrimSpace v \<noteq> []) (ParamReferences (p_Run performer))
      then Inl ErrInvalidProgramBinding
      else if \<not> list_all (\<lambda>arg. list_all (\<lambda>r. fmlookup params r \<noteq> None) (ParamReferences arg)) (p_Args performer)
      then Inl ErrInvalidProgramBinding
      else
        let bound = InterpolatePerformer performer params in
        if TrimSpace (p_Run bound) = [] then Inl ErrInvalidProgramBinding
        else Inr \<lparr>pc_Profile = p_Profile bound, pc_Run = p_Run bound, pc_Args = p_Args bound, pc_Timeout = p_Timeout bound\<rparr>)"

definition AgentCommandFor :: "Performer \<Rightarrow> PerformerFallback option \<Rightarrow> AgentCommand" where
  "AgentCommandFor bound processFallback =
     (let fb = (case p_Fallback bound of
                  Some f \<Rightarrow> (fb_Action f, TrimSpace (fb_Profile f))
                | None \<Rightarrow>
                    if p_Spawn bound = ''allowed'' then ([], [])
                    else (case processFallback of
                            Some f \<Rightarrow> (fb_Action f, TrimSpace (fb_Profile f))
                          | None \<Rightarrow> ([], [])))
      in \<lparr>ac_Profile = p_Profile bound, ac_Prompt = p_Prompt bound, ac_Assignee = p_Assignee bound,
          ac_Model = p_Model bound, ac_Effort = p_Effort bound, ac_Role = TrimSpace (p_Role bound),
          ac_Anyone = p_Anyone bound, ac_Spawn = (p_Spawn bound = ''allowed''),
          ac_FallbackAction = fst fb, ac_FallbackProfile = snd fb, ac_RetryMode = []\<rparr>)"

definition bindAgent ::
    "Performer \<Rightarrow> RetryPolicy option \<Rightarrow> (string, string) fmap \<Rightarrow> PerformerFallback option \<Rightarrow> AgentCommand result" where
  "bindAgent performer retry params processFallback =
     (if \<not> list_all (\<lambda>r. fmlookup params r \<noteq> None) (ParamReferences (p_Prompt performer))
      then Inl ErrInvalidProgramBinding
      else
        let bound = InterpolatePerformer performer params in
        if TrimSpace (p_Prompt bound) = [] then Inl ErrInvalidProgramBinding
        else Inr ((AgentCommandFor bound processFallback)\<lparr>ac_RetryMode := RetryMode retry\<rparr>))"

definition terminalStatus :: "string \<Rightarrow> RunStatus" where
  "terminalStatus result =
     (let r = ToLower (TrimSpace result) in
      if r \<in> {''fail'', ''failed'', ''failure'', ''error''} then RunFailed
      else if r \<in> {''cancel'', ''canceled'', ''cancelled''} then RunCanceled
      else RunCompleted)"

definition namespacedNext :: "Next \<Rightarrow> string \<Rightarrow> Next" where
  "namespacedNext nx prefix = (if prefix = [] then nx else fmmap (\<lambda>target. prefix @ target) nx)"

definition approvalVerdicts :: "string list" where
  "approvalVerdicts = [''approve'', ''rework'']"

section \<open>The state of preparation\<close>

record pendingLoop =
  pl_from :: string
  pl_outcome :: string
  pl_to :: string
  pl_maxIterations :: int
  pl_onExhausted :: string
  pl_body :: "string list"
  pl_exits :: "(string \<times> string) list"

record preparing =
  pr_nodes :: "definitionNode list"
  pr_index :: "(string, nat) fmap"
  pr_nexts :: "(nat, Next) fmap"
  pr_loops :: "pendingLoop list"

definition appendNode :: "definitionNode \<Rightarrow> preparing \<Rightarrow> preparing result" where
  "appendNode node s =
     (if fmlookup (pr_index s) (n_id node) \<noteq> None then Inl ErrInvalidDefinition
      else Inr (s\<lparr>pr_index := fmupd (n_id node) (length (pr_nodes s)) (pr_index s), pr_nodes := pr_nodes s @ [node]\<rparr>))"

definition updateNode :: "nat \<Rightarrow> (definitionNode \<Rightarrow> definitionNode) \<Rightarrow> preparing \<Rightarrow> preparing" where
  "updateNode i f s = s\<lparr>pr_nodes := (pr_nodes s)[i := f (pr_nodes s ! i)]\<rparr>"

definition zeroPrepared :: definitionNode where
  "zeroPrepared =
     \<lparr>n_id = [], n_kind = definitionStart, n_program = emptyProgram, n_agent = None, n_maxAttempts = 0,
      n_retryAuthored = False, n_terminal = RunOther [], n_verdicts = [], n_outgoing = [], n_incoming = [],
      n_joinAll = False, n_joinAny = False, n_children = [], n_parent = None, n_stage = StageNone,
      n_doAnchor = None, n_planAnchor = None, n_approvalGate = None, n_scope = None, n_scopeEnd = None,
      n_entry = None, n_exitOutcome = [], n_loops = [], n_sourceOf = []\<rparr>"

section \<open>One authored node\<close>

definition preparePerformer ::
    "Performer \<Rightarrow> RetryPolicy option \<Rightarrow> (string, string) fmap \<Rightarrow> PerformerFallback option \<Rightarrow> definitionNode \<Rightarrow> definitionNode result" where
  "preparePerformer performer retry params fb node =
     (if p_Kind performer = PerformerAgent
      then bindR (bindAgent performer retry params fb) (\<lambda>agent. Inr (node\<lparr>n_agent := Some agent\<rparr>))
      else bindR (bindProgram performer params) (\<lambda>program. Inr (node\<lparr>n_program := program\<rparr>)))"

definition prepareNode ::
    "PerformerFallback option \<Rightarrow> (string, string) fmap \<Rightarrow> string \<Rightarrow> nat option \<Rightarrow> Node option \<Rightarrow> string \<Rightarrow> Node \<Rightarrow> definitionNode result" where
  "prepareNode fb params prefix scope owner nodeID node =
     (let base = zeroPrepared\<lparr>n_id := prefix @ nodeID, n_scope := scope,
                   n_joinAll := (Join node = JoinAll), n_joinAny := (Join node = JoinAny)\<rparr>
      in case Type node of
           NodeTypeStart \<Rightarrow> Inr (base\<lparr>n_kind := definitionStart\<rparr>)
         | NodeTypeParallel \<Rightarrow> Inr (base\<lparr>n_kind := definitionParallel\<rparr>)
         | NodeTypeTask \<Rightarrow>
             if IsCompound node then Inr (base\<lparr>n_kind := definitionCompound\<rparr>)
             else (case NodePerformer node of
                     None \<Rightarrow> Inl GoPanic
                   | Some performer \<Rightarrow>
                       preparePerformer performer (Retry node) params fb
                         (base\<lparr>n_kind := definitionTask, n_maxAttempts := RetryBudget (Retry node),
                               n_retryAuthored := (Retry node \<noteq> None)\<rparr>))
         | NodeTypeDecision \<Rightarrow>
             let decision = base\<lparr>n_kind := definitionDecision, n_verdicts := sortedOutcomes (NextOf node)\<rparr> in
             (case NodePerformer node of
                Some performer \<Rightarrow>
                  if p_Kind performer = PerformerAgent
                  then preparePerformer performer None params fb (decision\<lparr>n_maxAttempts := 1\<rparr>)
                  else Inr decision
              | None \<Rightarrow> Inr decision)
         | NodeTypeEnd \<Rightarrow>
             (case owner of
                Some own \<Rightarrow>
                  (case OutputOutcome (SubprocessOf own) nodeID (NextOf own) of
                     None \<Rightarrow> Inl ErrInvalidDefinition
                   | Some oc \<Rightarrow> Inr (base\<lparr>n_kind := definitionSubprocessExit, n_exitOutcome := oc\<rparr>))
              | None \<Rightarrow> Inr (base\<lparr>n_kind := definitionEnd, n_terminal := terminalStatus (Result node)\<rparr>))
         | NodeTypeSubprocess \<Rightarrow> Inr (base\<lparr>n_kind := definitionSubprocess\<rparr>)
         | NodeTypeWait \<Rightarrow> Inl GoPanic
         | NodeTypeOther _ \<Rightarrow> Inl GoPanic)"

section \<open>Compound stages\<close>

definition prepareStage ::
    "PerformerFallback option \<Rightarrow> (string, string) fmap \<Rightarrow> nat option \<Rightarrow> nat \<Rightarrow> Node \<Rightarrow> StageSpec \<Rightarrow> definitionNode result" where
  "prepareStage fb params scope parentIndex node spec =
     (let base = zeroPrepared\<lparr>n_id := ss_ChildID spec, n_parent := Some parentIndex, n_stage := ss_Stage spec,
                   n_maxAttempts := 1, n_scope := scope\<rparr>;
          budget = (\<lambda>child. if ss_Stage spec = StageDo
                     then child\<lparr>n_maxAttempts := RetryBudget (Retry node), n_retryAuthored := (Retry node \<noteq> None)\<rparr>
                     else child)
      in case ss_Stage spec of
           StageDone \<Rightarrow> Inr (budget (base\<lparr>n_kind := definitionStageDone\<rparr>))
         | StagePlanApproval \<Rightarrow> Inr (budget (base\<lparr>n_kind := definitionDecision, n_verdicts := approvalVerdicts\<rparr>))
         | _ \<Rightarrow>
             (case ss_Performer spec of
                None \<Rightarrow> Inl GoPanic
              | Some performer \<Rightarrow>
                  bindR (preparePerformer performer (if ss_Stage spec = StageDo then Retry node else None) params fb
                           (base\<lparr>n_kind := definitionTask\<rparr>))
                    (\<lambda>child. Inr (budget child))))"

definition adoptStage :: "StageKind \<Rightarrow> nat \<Rightarrow> definitionNode \<Rightarrow> definitionNode" where
  "adoptStage stage childIndex parent =
     (let p = parent\<lparr>n_children := n_children parent @ [childIndex]\<rparr> in
      case stage of
        StageDo \<Rightarrow> p\<lparr>n_doAnchor := Some childIndex\<rparr>
      | StagePlan \<Rightarrow> p\<lparr>n_planAnchor := Some childIndex\<rparr>
      | StagePlanApproval \<Rightarrow> p\<lparr>n_approvalGate := Some childIndex\<rparr>
      | _ \<Rightarrow> p)"

definition appendStage ::
    "PerformerFallback option \<Rightarrow> (string, string) fmap \<Rightarrow> nat option \<Rightarrow> nat \<Rightarrow> Node \<Rightarrow> StageSpec \<Rightarrow> preparing \<Rightarrow> preparing result" where
  "appendStage fb params scope parentIndex node spec s =
     bindR (prepareStage fb params scope parentIndex node spec) (\<lambda>child.
       let childIndex = length (pr_nodes s) in
       bindR (appendNode child s) (\<lambda>s'. Inr (updateNode parentIndex (adoptStage (ss_Stage spec) childIndex) s')))"

definition appendStages ::
    "PerformerFallback option \<Rightarrow> (string, string) fmap \<Rightarrow> nat option \<Rightarrow> nat \<Rightarrow> string \<Rightarrow> Node \<Rightarrow> preparing \<Rightarrow> preparing result" where
  "appendStages fb params scope parentIndex fid node s =
     bindR (foldR (appendStage fb params scope parentIndex node) (ExpandNode fid node) s) (\<lambda>s'.
       let parent = pr_nodes s' ! parentIndex in
       if n_doAnchor parent = None then Inl ErrInvalidDefinition
       else if n_approvalGate parent \<noteq> None \<and> n_planAnchor parent = None then Inl ErrInvalidDefinition
       else Inr s')"

section \<open>Scopes\<close>

definition scopeLoops :: "Template \<Rightarrow> string \<Rightarrow> pendingLoop list" where
  "scopeLoops t prefix =
     map (\<lambda>l. \<lparr>pl_from = prefix @ lp_From l, pl_outcome = lp_Outcome l, pl_to = prefix @ lp_To l,
               pl_maxIterations = lp_MaxIterations l, pl_onExhausted = lp_OnExhausted l,
               pl_body = map (\<lambda>nid. prefix @ nid) (lp_Body l),
               pl_exits = map (\<lambda>e. (prefix @ ed_From e, ed_Outcome e)) (lp_Exits l)\<rparr>)
       (Loops t (NormalizeEdges t))"

lemma foldR_cong [fundef_cong]:
  "xs = ys \<Longrightarrow> s = t \<Longrightarrow> (\<And>x s. x \<in> set ys \<Longrightarrow> f x s = g x s) \<Longrightarrow> foldR f xs s = foldR g ys t"
  by (induction ys arbitrary: xs s t) (auto intro: bindR_cong)

text \<open>The body of a subprocess node is prepared right after it; then its entry and end are known.\<close>

definition finishSubprocess :: "nat \<Rightarrow> string \<Rightarrow> Template \<Rightarrow> preparing \<Rightarrow> preparing result" where
  "finishSubprocess index fid body s =
     (case fmlookup (pr_index s) (fid @ ''/'' @ Start body) of
        None \<Rightarrow> Inl ErrInvalidDefinition
      | Some entry \<Rightarrow>
          Inr (updateNode index (\<lambda>n. n\<lparr>n_entry := Some entry, n_scopeEnd := Some (length (pr_nodes s))\<rparr>) s))"

text \<open>
  One node of a scope; \<open>nested\<close> prepares the body of a subprocess.
\<close>

definition scopeStep ::
    "(Template \<Rightarrow> (string, string) fmap \<Rightarrow> string \<Rightarrow> nat option \<Rightarrow> Node option \<Rightarrow> preparing \<Rightarrow> preparing result) \<Rightarrow>
     PerformerFallback option \<Rightarrow> Template \<Rightarrow> (string, string) fmap \<Rightarrow> string \<Rightarrow> nat option \<Rightarrow> Node option \<Rightarrow>
     string \<Rightarrow> preparing \<Rightarrow> preparing result" where
  "scopeStep nested fb t params prefix scope owner nodeID s =
     (let node = node_of t nodeID; fid = prefix @ nodeID; index = length (pr_nodes s) in
      bindR (prepareNode fb params prefix scope owner nodeID node) (\<lambda>prepared.
        bindR (appendNode prepared s) (\<lambda>s1.
          let s2 = (if n_kind prepared = definitionSubprocessExit then s1
                    else s1\<lparr>pr_nexts := fmupd index (namespacedNext (NextOf node) prefix) (pr_nexts s1)\<rparr>) in
          if n_kind prepared = definitionCompound then appendStages fb params scope index fid node s2
          else if n_kind prepared \<noteq> definitionSubprocess then Inr s2
          else (case Body (SubprocessOf node) of
                  None \<Rightarrow> Inl ErrInvalidDefinition
                | Some body \<Rightarrow>
                    bindR (nested body (case SubprocessOf node of None \<Rightarrow> fmempty | Some sp \<Rightarrow> BindInputs sp body params)
                             (fid @ ''/'') (Some index) (Some node) s2) (finishSubprocess index fid body)))))"

lemma scopeStep_cong [fundef_cong]:
  "nodeID = nodeID' \<Longrightarrow>
   (\<And>body ps px i n s. Body (SubprocessOf (node_of t nodeID')) = Some body \<Longrightarrow> f body ps px i n s = g body ps px i n s) \<Longrightarrow>
   scopeStep f fb t params prefix scope owner nodeID s = scopeStep g fb t params prefix scope owner nodeID' s"
  by (auto simp: scopeStep_def Let_def intro!: bindR_cong split: option.splits)

function prepareScope ::
    "PerformerFallback option \<Rightarrow> Template \<Rightarrow> (string, string) fmap \<Rightarrow> string \<Rightarrow> nat option \<Rightarrow> Node option \<Rightarrow> preparing \<Rightarrow> preparing result" where
  "prepareScope fb t params prefix scope owner s =
     bindR (topologicalOrder t) (\<lambda>order.
       bindR (foldR (scopeStep (prepareScope fb) fb t params prefix scope owner) order s)
         (\<lambda>s'. Inr (s'\<lparr>pr_loops := pr_loops s' @ scopeLoops t prefix\<rparr>)))"
  by pat_completeness auto
termination
proof (relation "measure (\<lambda>(fb, t, params, prefix, scope, owner, s). tmplDepth t)", simp, goal_cases)
  case (1 fb t params prefix scope owner s order nodeID s1 body)
  have "nodeID |\<in>| fmdom (TemplateNodes t)"
    using topologicalOrder_spec(2) [OF 1(1)] 1(2) by (auto simp: nodeSet_def)
  moreover have "tmplDepth body \<le> nodeDepth (node_of t nodeID)" using Body_depth 1 by simp
  ultimately show ?case using node_of_depth [of nodeID t] by simp
qed

declare prepareScope.simps [simp del]

section \<open>Edges\<close>

text \<open>The edges of one prepared node, in outcome order, and the node's list of them.\<close>

definition addEdge :: "nat \<Rightarrow> string \<Rightarrow> Next \<Rightarrow> string \<Rightarrow> Definition \<Rightarrow> Definition result" where
  "addEdge fromIndex from nx oc d =
     (let to = mget [] nx oc in
      case fmlookup (d_index d) to of
        None \<Rightarrow> Inl ErrInvalidDefinition
      | Some toIndex \<Rightarrow>
          let node = node_at d fromIndex in
          Inr (d\<lparr>d_edges := d_edges d @ [\<lparr>e_from = from, e_outcome = oc, e_to = to, e_fromIndex = fromIndex,
                   e_toIndex = toIndex, e_loop = None, e_exitOf = []\<rparr>],
                 d_nodes := (d_nodes d)[fromIndex := node\<lparr>n_outgoing := n_outgoing node @ [length (d_edges d)]\<rparr>]\<rparr>))"

definition nodeEdges :: "(nat, Next) fmap \<Rightarrow> nat \<Rightarrow> Definition \<Rightarrow> Definition result" where
  "nodeEdges nexts fromIndex d =
     (let from = node_at d fromIndex; nx = mget fmempty nexts fromIndex in
      if n_parent from \<noteq> None \<or> n_kind from = definitionSubprocessExit then Inr d
      else foldR (addEdge fromIndex (n_id from) nx) (sortedOutcomes nx) d)"

definition addIncoming :: "nat \<Rightarrow> Definition \<Rightarrow> Definition" where
  "addIncoming ei d =
     (let e = edge_at d ei in
      if e_loop e \<noteq> None then d
      else
        let to = node_at d (e_toIndex e);
            d1 = d\<lparr>d_nodes := (d_nodes d)[e_toIndex e := to\<lparr>n_incoming := n_incoming to @ [ei]\<rparr>]\<rparr>
        in if n_joinAny to then d1\<lparr>d_joinAnyIncoming := d_joinAnyIncoming d1 @ [ei]\<rparr> else d1)"

section \<open>Loops\<close>

definition loopEdgeIndex :: "Definition \<Rightarrow> string \<Rightarrow> string \<Rightarrow> nat option" where
  "loopEdgeIndex d from oc =
     (case fmlookup (d_index d) from of
        None \<Rightarrow> None
      | Some i \<Rightarrow> find (\<lambda>ei. e_outcome (edge_at d ei) = oc) (n_outgoing (node_at d i)))"

definition containsAll :: "nat list \<Rightarrow> nat list \<Rightarrow> bool" where
  "containsAll xs ys = list_all (BinarySearch xs) ys"

text \<open>The prepared indices one authored body node stands for.\<close>

definition bodyMembers :: "Definition \<Rightarrow> nat \<Rightarrow> nat list" where
  "bodyMembers d i =
     (let node = node_at d i in
      i # n_children node @
      (if n_kind node = definitionSubprocess
       then concat (map (\<lambda>j. j # n_children (node_at d j)) (bodyRange d i)) else []))"

fun collectR :: "('x \<Rightarrow> 'y option) \<Rightarrow> 'x list \<Rightarrow> 'y list result" where
  "collectR f [] = Inr []"
| "collectR f (x # xs) =
     (case f x of None \<Rightarrow> Inl ErrInvalidDefinition | Some y \<Rightarrow> bindR (collectR f xs) (\<lambda>ys. Inr (y # ys)))"

definition prepareLoop :: "pendingLoop \<Rightarrow> Definition \<Rightarrow> Definition result" where
  "prepareLoop pl d =
     (case loopEdgeIndex d (pl_from pl) (pl_outcome pl) of
        None \<Rightarrow> Inl ErrInvalidDefinition
      | Some edge \<Rightarrow>
          bindR (collectR (fmlookup (d_index d)) (pl_body pl)) (\<lambda>members.
            bindR (collectR (\<lambda>(from, oc). loopEdgeIndex d from oc) (pl_exits pl)) (\<lambda>exits.
              Inr (d\<lparr>d_loops := d_loops d @
                [\<lparr>l_edge = edge, l_from = e_fromIndex (edge_at d edge), l_to = e_toIndex (edge_at d edge),
                  l_outcome = pl_outcome pl, l_maxIterations = pl_maxIterations pl,
                  l_onExhausted = pl_onExhausted pl,
                  l_body = remdups_adj (sort (concat (map (bodyMembers d) members))),
                  l_exits = exits, l_inner = []\<rparr>]\<rparr>))))"

definition updateNodeAt :: "nat \<Rightarrow> (definitionNode \<Rightarrow> definitionNode) \<Rightarrow> Definition \<Rightarrow> Definition" where
  "updateNodeAt i f d = d\<lparr>d_nodes := (d_nodes d)[i := f (node_at d i)]\<rparr>"

definition updateEdgeAt :: "nat \<Rightarrow> (definitionEdge \<Rightarrow> definitionEdge) \<Rightarrow> Definition \<Rightarrow> Definition" where
  "updateEdgeAt i f d = d\<lparr>d_edges := (d_edges d)[i := f (edge_at d i)]\<rparr>"

definition innerLoops :: "Definition \<Rightarrow> nat \<Rightarrow> nat list" where
  "innerLoops d li =
     filter (\<lambda>other. other \<noteq> li \<and> length (l_body (loop_at d other)) < length (l_body (loop_at d li)) \<and>
                     containsAll (l_body (loop_at d li)) (l_body (loop_at d other)))
       [0 ..< length (d_loops d)]"

definition linkLoop :: "nat \<Rightarrow> Definition \<Rightarrow> Definition" where
  "linkLoop li d =
     (let loop = loop_at d li;
          d1 = updateEdgeAt (l_edge loop) (\<lambda>e. e\<lparr>e_loop := Some li\<rparr>) d;
          d2 = updateNodeAt (l_from loop) (\<lambda>n. n\<lparr>n_sourceOf := n_sourceOf n @ [li]\<rparr>) d1;
          d3 = fold (\<lambda>ei. updateEdgeAt ei (\<lambda>e. e\<lparr>e_exitOf := e_exitOf e @ [li]\<rparr>)) (l_exits loop) d2;
          d4 = fold (\<lambda>i. updateNodeAt i (\<lambda>n. n\<lparr>n_loops := n_loops n @ [li]\<rparr>)) (l_body loop) d3
      in d4\<lparr>d_loops := (d_loops d4)[li := loop\<lparr>l_inner := innerLoops d li\<rparr>]\<rparr>)"

definition sortLoops :: "Definition \<Rightarrow> Definition" where
  "sortLoops d =
     d\<lparr>d_nodes := map (\<lambda>n. n\<lparr>n_loops := sort_key (\<lambda>li. length (l_body (loop_at d li))) (n_loops n)\<rparr>) (d_nodes d)\<rparr>"

definition prepareLoops :: "pendingLoop list \<Rightarrow> Definition \<Rightarrow> Definition result" where
  "prepareLoops pending d =
     bindR (foldR prepareLoop pending d) (\<lambda>d1.
       Inr (sortLoops (fold linkLoop [0 ..< length (d_loops d1)] d1)))"

section \<open>Prepare\<close>

definition Prepare ::
    "Template \<Rightarrow> (string, string) fmap \<Rightarrow> Definition result" where
  "Prepare t params =
     bindR (RequireEligible t) (\<lambda>_.
       bindR (prepareScope (TemplateFallback t) t params [] None None
                \<lparr>pr_nodes = [], pr_index = fmempty, pr_nexts = fmempty, pr_loops = []\<rparr>) (\<lambda>s.
         bindR (foldR (nodeEdges (pr_nexts s)) [0 ..< length (pr_nodes s)]
                  \<lparr>d_nodes = pr_nodes s, d_index = pr_index s, d_edges = [], d_joinAnyIncoming = [], d_loops = []\<rparr>) (\<lambda>d.
           bindR (prepareLoops (pr_loops s) d) (\<lambda>d1.
             Inr (fold addIncoming [0 ..< length (d_edges d1)] d1)))))"

section \<open>The prepared index\<close>

text \<open>
  Preparation appends nodes at one place only, so the index names every prepared node by its
  position; the passes that follow keep ids and positions.
\<close>

definition indexOk :: "definitionNode list \<Rightarrow> (string, nat) fmap \<Rightarrow> bool" where
  "indexOk ns ix \<longleftrightarrow> distinct (map n_id ns) \<and> ix = fmap_of_list (zip (map n_id ns) [0 ..< length ns]) \<and>
     (\<forall>n\<in>set (take 1 ns). n_parent n = None)"

lemma fmlookup_positions:
  "fmlookup (fmap_of_list (zip ids [0 ..< length ids])) k = None \<longleftrightarrow> k \<notin> set ids"
proof -
  have "fst ` set (zip ids [0 ..< length ids]) = set ids"
    using set_map [of fst "zip ids [0 ..< length ids]"] by (simp del: set_map)
  then show ?thesis by (simp add: fmlookup_of_list map_of_eq_None_iff)
qed

lemma indexOk_append:
  assumes "indexOk ns ix" "fmlookup ix (n_id n) = None" "ns = [] \<Longrightarrow> n_parent n = None"
  shows "indexOk (ns @ [n]) (fmupd (n_id n) (length ns) ix)"
proof -
  have d: "distinct (map n_id ns)" and ix: "ix = fmap_of_list (zip (map n_id ns) [0 ..< length (map n_id ns)])"
    using assms(1) by (simp_all add: indexOk_def)
  have fresh: "n_id n \<notin> set (map n_id ns)"
    using assms(2) unfolding ix fmlookup_positions .
  have "fmupd (n_id n) (length ns) (fmap_of_list (zip (map n_id ns) [0 ..< length ns])) =
      fmap_of_list (zip (map n_id (ns @ [n])) [0 ..< length (ns @ [n])])"
  proof (rule fmap_ext)
    fix k :: string
    let ?zs = "zip (map n_id ns) [0 ..< length ns]"
    have zip: "zip (map n_id (ns @ [n])) [0 ..< length (ns @ [n])] = ?zs @ [(n_id n, length ns)]" by simp
    have none: "map_of ?zs (n_id n) = None" using assms(2) unfolding ix by (simp add: fmlookup_of_list)
    show "fmlookup (fmupd (n_id n) (length ns) (fmap_of_list ?zs)) k =
        fmlookup (fmap_of_list (zip (map n_id (ns @ [n])) [0 ..< length (ns @ [n])])) k"
      unfolding zip fmlookup_of_list map_of_append fmupd_lookup
      by (cases "k = n_id n")
        (simp_all only: map_add_def none map_of.simps fst_conv snd_conv fun_upd_apply if_True if_False option.case,
          simp split: option.splits)
  qed
  moreover have "\<forall>m\<in>set (take 1 (ns @ [n])). n_parent m = None"
    using assms(1,3) by (cases ns) (auto simp: indexOk_def)
  ultimately show ?thesis using d fresh ix by (simp add: indexOk_def)
qed

lemma map_update_nth [simp]: "(map g xs)[i := g (xs ! i)] = map g xs"
  by (cases "i < length xs") (simp_all add: list_update_same_conv list_update_beyond)

lemma indexOk_update:
  assumes "indexOk ns ix" "n_id (f (ns ! i)) = n_id (ns ! i)" "n_parent (f (ns ! i)) = n_parent (ns ! i)"
  shows "indexOk (ns[i := f (ns ! i)]) ix"
proof -
  have "map n_id (ns[i := f (ns ! i)]) = map n_id ns"
    using assms(2) by (simp add: map_update)
  moreover have "\<forall>n\<in>set (take 1 (ns[i := f (ns ! i)])). n_parent n = None"
    using assms(1,3) by (cases ns; cases i) (auto simp: indexOk_def)
  ultimately show ?thesis using assms(1) by (simp add: indexOk_def)
qed

lemma appendNode_index:
  assumes "appendNode n s = Inr s'" "indexOk (pr_nodes s) (pr_index s)" "pr_nodes s = [] \<Longrightarrow> n_parent n = None"
  shows "indexOk (pr_nodes s') (pr_index s')" "pr_nodes s' \<noteq> []"
  using assms indexOk_append [of "pr_nodes s" "pr_index s" n] by (auto simp: appendNode_def split: if_splits)

lemma updateNode_index:
  assumes "indexOk (pr_nodes s) (pr_index s)" "\<And>n. n_id (f n) = n_id n" "\<And>n. n_parent (f n) = n_parent n"
  shows "indexOk (pr_nodes (updateNode i f s)) (pr_index (updateNode i f s))"
  using indexOk_update [OF assms(1), of f i] assms(2,3) by (simp add: updateNode_def)

lemma adoptStage_fields: "n_id (adoptStage st i n) = n_id n" "n_parent (adoptStage st i n) = n_parent n"
  by (cases st; simp add: adoptStage_def Let_def)+

lemma prepareNode_parent: "prepareNode fb params prefix scope owner nodeID node = Inr n \<Longrightarrow> n_parent n = None"
  by (auto simp: prepareNode_def preparePerformer_def zeroPrepared_def Let_def bindR_Inr_iff
      split: NodeType.splits option.splits if_splits)

lemma appendStages_index:
  assumes "appendStages fb params scope i fid node s = Inr s'" "indexOk (pr_nodes s) (pr_index s)" "pr_nodes s \<noteq> []"
  shows "indexOk (pr_nodes s') (pr_index s') \<and> pr_nodes s' \<noteq> []"
proof -
  from assms(1) have "foldR (appendStage fb params scope i node) (ExpandNode fid node) s = Inr s'"
    by (auto simp: appendStages_def bindR_Inr_iff Let_def split: if_splits)
  then show ?thesis
  proof (rule foldR_invariant [where P = "\<lambda>s. indexOk (pr_nodes s) (pr_index s) \<and> pr_nodes s \<noteq> []"])
    fix spec s s'
    assume s: "indexOk (pr_nodes s) (pr_index s) \<and> pr_nodes s \<noteq> []" and "appendStage fb params scope i node spec s = Inr s'"
    then obtain child s1 where s1: "appendNode child s = Inr s1"
      and s': "s' = updateNode i (adoptStage (ss_Stage spec) (length (pr_nodes s))) s1"
      by (auto simp: appendStage_def bindR_Inr_iff Let_def)
    note ix = appendNode_index [OF s1]
    have "indexOk (pr_nodes s') (pr_index s')"
      unfolding s' by (rule updateNode_index) (use ix s in \<open>simp_all add: adoptStage_fields\<close>)
    moreover have "pr_nodes s' \<noteq> []" unfolding s' using ix(2) s by (simp add: updateNode_def)
    ultimately show "indexOk (pr_nodes s') (pr_index s') \<and> pr_nodes s' \<noteq> []" by blast
  qed (use assms in simp)
qed

lemma finishSubprocess_index:
  assumes "finishSubprocess i fid body s = Inr s'" "indexOk (pr_nodes s) (pr_index s)" "pr_nodes s \<noteq> []"
  shows "indexOk (pr_nodes s') (pr_index s') \<and> pr_nodes s' \<noteq> []"
proof -
  from assms(1) obtain entry where
    s': "s' = updateNode i (\<lambda>n. n\<lparr>n_entry := Some entry, n_scopeEnd := Some (length (pr_nodes s))\<rparr>) s"
    by (auto simp: finishSubprocess_def split: option.splits)
  have "indexOk (pr_nodes s') (pr_index s')" unfolding s' by (rule updateNode_index [OF assms(2)]) simp_all
  moreover have "pr_nodes s' \<noteq> []" unfolding s' using assms(3) by (simp add: updateNode_def)
  ultimately show ?thesis by blast
qed

lemma scopeStep_index:
  assumes step: "scopeStep nested fb t params prefix scope owner nodeID s = Inr s'"
    and ok: "indexOk (pr_nodes s) (pr_index s)"
    and nested: "\<And>body ps px i n s s'. Body (SubprocessOf (node_of t nodeID)) = Some body \<Longrightarrow>
      nested body ps px i n s = Inr s' \<Longrightarrow> indexOk (pr_nodes s) (pr_index s) \<Longrightarrow>
      indexOk (pr_nodes s') (pr_index s') \<and> pr_nodes s' \<noteq> []"
  shows "indexOk (pr_nodes s') (pr_index s') \<and> pr_nodes s' \<noteq> []"
proof -
  let ?node = "node_of t nodeID" and ?fid = "prefix @ nodeID" and ?i = "length (pr_nodes s)"
  from step obtain prepared s1 s2 where p: "prepareNode fb params prefix scope owner nodeID ?node = Inr prepared"
    and s1: "appendNode prepared s = Inr s1"
    and s2: "s2 = (if n_kind prepared = definitionSubprocessExit then s1
                   else s1\<lparr>pr_nexts := fmupd ?i (namespacedNext (NextOf ?node) prefix) (pr_nexts s1)\<rparr>)"
    and s': "(if n_kind prepared = definitionCompound then appendStages fb params scope ?i ?fid ?node s2
          else if n_kind prepared \<noteq> definitionSubprocess then Inr s2
          else (case Body (SubprocessOf ?node) of
                  None \<Rightarrow> Inl ErrInvalidDefinition
                | Some body \<Rightarrow>
                    bindR (nested body (case SubprocessOf ?node of None \<Rightarrow> fmempty | Some sp \<Rightarrow> BindInputs sp body params)
                             (?fid @ ''/'') (Some ?i) (Some ?node) s2) (finishSubprocess ?i ?fid body))) = Inr s'"
    by (auto simp: scopeStep_def Let_def bindR_Inr_iff)
  have ok2: "indexOk (pr_nodes s2) (pr_index s2)" "pr_nodes s2 \<noteq> []"
    using appendNode_index [OF s1 ok prepareNode_parent [OF p]] by (simp_all add: s2)
  show ?thesis
  proof (cases "n_kind prepared = definitionCompound \<or> n_kind prepared \<noteq> definitionSubprocess")
    case True
    then show ?thesis using s' ok2 appendStages_index [of fb params scope ?i ?fid ?node s2 s'] by (auto split: if_splits)
  next
    case False
    then obtain body s3 where b: "Body (SubprocessOf ?node) = Some body"
      and s3: "nested body (case SubprocessOf ?node of None \<Rightarrow> fmempty | Some sp \<Rightarrow> BindInputs sp body params)
          (?fid @ ''/'') (Some ?i) (Some ?node) s2 = Inr s3" and "finishSubprocess ?i ?fid body s3 = Inr s'"
      using s' by (auto simp: bindR_Inr_iff split: option.splits)
    with nested [OF b s3 ok2(1)] finishSubprocess_index show ?thesis by blast
  qed
qed

lemma prepareScope_index:
  assumes "prepareScope fb t params prefix scope owner s = Inr s'" "indexOk (pr_nodes s) (pr_index s)"
  shows "indexOk (pr_nodes s') (pr_index s') \<and> pr_nodes s' \<noteq> []"
  using assms
proof (induction fb t params prefix scope owner s arbitrary: s' rule: prepareScope.induct)
  case (1 fb t params prefix scope owner s)
  note IH = 1(1)
  from 1(2) obtain order s1 where order: "topologicalOrder t = Inr order"
    and fold: "foldR (scopeStep (prepareScope fb) fb t params prefix scope owner) order s = Inr s1"
    and s': "s' = s1\<lparr>pr_loops := pr_loops s1 @ scopeLoops t prefix\<rparr>"
    unfolding prepareScope.simps [of fb t params prefix scope owner s] bindR_Inr_iff by auto
  have step: "indexOk (pr_nodes y) (pr_index y) \<and> pr_nodes y \<noteq> []"
    if "nodeID \<in> set order" "indexOk (pr_nodes x) (pr_index x)"
      "scopeStep (prepareScope fb) fb t params prefix scope owner nodeID x = Inr y" for nodeID x y
    by (rule scopeStep_index [OF that(3,2)]) (use IH [OF order that(1)] in blast)
  obtain first rest where o: "order = first # rest" using topologicalOrder_spec(3) [OF order] by (cases order) auto
  with fold obtain x where x: "scopeStep (prepareScope fb) fb t params prefix scope owner first s = Inr x"
    and rest: "foldR (scopeStep (prepareScope fb) fb t params prefix scope owner) rest x = Inr s1"
    by (auto simp: bindR_Inr_iff)
  have "indexOk (pr_nodes s1) (pr_index s1) \<and> pr_nodes s1 \<noteq> []"
    by (rule foldR_invariant [where P = "\<lambda>s. indexOk (pr_nodes s) (pr_index s) \<and> pr_nodes s \<noteq> []", OF rest])
      (use step 1(3) x o in auto)
  then show ?case by (simp add: s')
qed

text \<open>The passes over edges and loops keep every node's id, parent and position.\<close>

definition sameIds :: "Definition \<Rightarrow> Definition \<Rightarrow> bool" where
  "sameIds d d' \<longleftrightarrow> map n_id (d_nodes d') = map n_id (d_nodes d) \<and> map n_parent (d_nodes d') = map n_parent (d_nodes d) \<and>
     d_index d' = d_index d"

lemma sameIds_refl [simp]: "sameIds d d"
  by (simp add: sameIds_def)

lemma sameIds_trans [trans]: "sameIds a b \<Longrightarrow> sameIds b c \<Longrightarrow> sameIds a c"
  by (simp add: sameIds_def)

lemma sameIds_updateNodeAt:
  "(\<And>n. n_id (f n) = n_id n) \<Longrightarrow> (\<And>n. n_parent (f n) = n_parent n) \<Longrightarrow> sameIds d (updateNodeAt i f d)"
  by (simp add: sameIds_def updateNodeAt_def map_update)

lemma sameIds_updateEdgeAt: "sameIds d (updateEdgeAt i f d)"
  by (simp add: sameIds_def updateEdgeAt_def)

lemma sameIds_fold: "(\<And>x d. sameIds d (f x d)) \<Longrightarrow> sameIds d (fold f xs d)"
  by (induction xs arbitrary: d) (auto intro: sameIds_trans)

lemma sameIds_foldR: "foldR f xs d = Inr d' \<Longrightarrow> (\<And>x a b. f x a = Inr b \<Longrightarrow> sameIds a b) \<Longrightarrow> sameIds d d'"
  by (rule foldR_invariant [where P = "sameIds d"]) (auto intro: sameIds_trans)

lemma sameIds_addEdge: "addEdge i from nx oc d = Inr d' \<Longrightarrow> sameIds d d'"
  by (auto simp: addEdge_def Let_def sameIds_def map_update split: option.splits)

lemma sameIds_nodeEdges: "nodeEdges nexts i d = Inr d' \<Longrightarrow> sameIds d d'"
  by (auto simp: nodeEdges_def Let_def split: if_splits intro: sameIds_foldR sameIds_addEdge)

lemma sameIds_prepareLoop: "prepareLoop l d = Inr d' \<Longrightarrow> sameIds d d'"
  by (auto simp: prepareLoop_def bindR_Inr_iff sameIds_def split: option.splits)

lemma sameIds_linkLoop: "sameIds d (linkLoop li d)"
proof -
  let ?l = "loop_at d li"
  let ?d1 = "updateEdgeAt (l_edge ?l) (\<lambda>e. e\<lparr>e_loop := Some li\<rparr>) d"
  let ?d2 = "updateNodeAt (l_from ?l) (\<lambda>n. n\<lparr>n_sourceOf := n_sourceOf n @ [li]\<rparr>) ?d1"
  let ?d3 = "fold (\<lambda>ei. updateEdgeAt ei (\<lambda>e. e\<lparr>e_exitOf := e_exitOf e @ [li]\<rparr>)) (l_exits ?l) ?d2"
  let ?d4 = "fold (\<lambda>i. updateNodeAt i (\<lambda>n. n\<lparr>n_loops := n_loops n @ [li]\<rparr>)) (l_body ?l) ?d3"
  have "sameIds d ?d1" by (rule sameIds_updateEdgeAt)
  also have "sameIds ?d1 ?d2" by (rule sameIds_updateNodeAt) simp_all
  also have "sameIds ?d2 ?d3" by (rule sameIds_fold) (rule sameIds_updateEdgeAt)
  also have "sameIds ?d3 ?d4" by (rule sameIds_fold, rule sameIds_updateNodeAt) simp_all
  finally have "sameIds d ?d4" .
  then show ?thesis unfolding linkLoop_def Let_def by (simp add: sameIds_def)
qed

lemma sameIds_prepareLoops:
  assumes "prepareLoops ls d = Inr d'"
  shows "sameIds d d'"
proof -
  from assms obtain d1 where d1: "foldR prepareLoop ls d = Inr d1"
    and d': "d' = sortLoops (fold linkLoop [0 ..< length (d_loops d1)] d1)"
    by (auto simp: prepareLoops_def bindR_Inr_iff)
  have "sameIds d d1" by (rule sameIds_foldR [OF d1 sameIds_prepareLoop])
  also have "sameIds d1 (fold linkLoop [0 ..< length (d_loops d1)] d1)" by (rule sameIds_fold [OF sameIds_linkLoop])
  also have "sameIds \<dots> d'" unfolding d' by (simp add: sameIds_def sortLoops_def comp_def)
  finally show ?thesis .
qed

lemma sameIds_addIncoming: "sameIds d (addIncoming ei d)"
  by (auto simp: addIncoming_def Let_def sameIds_def map_update)

lemma sameIds_index:
  assumes "sameIds d d'" "indexOk (d_nodes d) (d_index d)"
  shows "indexOk (d_nodes d') (d_index d')"
proof -
  have "map n_parent (take 1 (d_nodes d')) = map n_parent (take 1 (d_nodes d))"
    using assms(1) by (simp add: sameIds_def flip: take_map)
  then have "(\<forall>n\<in>set (take 1 (d_nodes d')). n_parent n = None) \<longleftrightarrow> (\<forall>n\<in>set (take 1 (d_nodes d)). n_parent n = None)"
    by (cases "d_nodes d"; cases "d_nodes d'") auto
  moreover have "length (d_nodes d') = length (d_nodes d)" using assms(1) by (metis length_map sameIds_def)
  ultimately show ?thesis using assms by (simp add: indexOk_def sameIds_def)
qed

lemma Prepare_wf_index:
  assumes "Prepare t params = Inr d"
  shows "wf_index d"
proof -
  let ?s0 = "\<lparr>pr_nodes = [], pr_index = fmempty, pr_nexts = fmempty, pr_loops = []\<rparr>"
  from assms obtain s d1 d2 where s: "prepareScope (TemplateFallback t) t params [] None None ?s0 = Inr s"
    and d1: "foldR (nodeEdges (pr_nexts s)) [0 ..< length (pr_nodes s)]
        \<lparr>d_nodes = pr_nodes s, d_index = pr_index s, d_edges = [], d_joinAnyIncoming = [], d_loops = []\<rparr> = Inr d1"
    and d2: "prepareLoops (pr_loops s) d1 = Inr d2" and d: "d = fold addIncoming [0 ..< length (d_edges d2)] d2"
    by (auto simp: Prepare_def bindR_Inr_iff)
  have "indexOk (pr_nodes ?s0) (pr_index ?s0)" by (simp add: indexOk_def)
  note ok = prepareScope_index [OF s this]
  have "sameIds \<lparr>d_nodes = pr_nodes s, d_index = pr_index s, d_edges = [], d_joinAnyIncoming = [], d_loops = []\<rparr> d1"
    by (rule sameIds_foldR [OF d1 sameIds_nodeEdges])
  also have "sameIds d1 d2" by (rule sameIds_prepareLoops [OF d2])
  also have "sameIds d2 d" unfolding d by (rule sameIds_fold [OF sameIds_addIncoming])
  finally have same: "sameIds \<lparr>d_nodes = pr_nodes s, d_index = pr_index s, d_edges = [], d_joinAnyIncoming = [], d_loops = []\<rparr> d" .
  have "indexOk (d_nodes d) (d_index d)" by (rule sameIds_index [OF same]) (use ok in simp)
  moreover have "d_nodes d \<noteq> []" using same ok by (auto simp: sameIds_def)
  ultimately show ?thesis by (cases "d_nodes d") (auto simp: wf_index_def indexOk_def)
qed

end
