(* ===== verification/Prepare_Ranges.thy ===== *)
theory Prepare_Ranges
  imports Preparation
begin

text \<open>
  The shape of a range of prepared nodes: how stages hang below their compound, and how the bodies of
  subprocesses nest.  A range is described without reference to what follows it, so ranges compose.
\<close>

section \<open>Nested bodies\<close>

definition insideBody :: "definitionNode list \<Rightarrow> nat \<Rightarrow> nat \<Rightarrow> bool" where
  "insideBody N s i \<longleftrightarrow> s < i \<and> (case n_scopeEnd (N ! s) of None \<Rightarrow> False | Some e \<Rightarrow> i < e)"

definition inScope :: "definitionNode list \<Rightarrow> nat \<Rightarrow> nat option \<Rightarrow> bool" where
  "inScope N s sc \<longleftrightarrow> (case sc of None \<Rightarrow> False | Some u \<Rightarrow> u = s \<or> insideBody N s u)"

lemma insideBody_less: "insideBody N s i \<Longrightarrow> s < i"
  by (simp add: insideBody_def)

lemma inScope_simps [simp]: "\<not> inScope N s None" "inScope N s (Some u) \<longleftrightarrow> u = s \<or> insideBody N s u"
  by (simp_all add: inScope_def)

text \<open>
  In the range from \<open>a\<close> to \<open>b\<close>, prepared in the scope \<open>scope\<close>, a node belongs to that scope or to the body of an earlier
  subprocess of the range, a body ends within the range, and a node lies in a body exactly when its own scope does.
\<close>

definition scopedNode :: "definitionNode list \<Rightarrow> nat \<Rightarrow> nat option \<Rightarrow> nat \<Rightarrow> bool" where
  "scopedNode N a scope i \<longleftrightarrow> n_scope (N ! i) = scope \<or>
     (\<exists>u. n_scope (N ! i) = Some u \<and> a \<le> u \<and> u < i \<and> n_kind (N ! u) = definitionSubprocess)"

definition scopedRange :: "definitionNode list \<Rightarrow> nat \<Rightarrow> nat \<Rightarrow> nat option \<Rightarrow> bool" where
  "scopedRange N a b scope \<longleftrightarrow>
     (\<forall>i\<in>{a..<b}. scopedNode N a scope i) \<and>
     (\<forall>i\<in>{a..<b}. \<forall>e. n_scopeEnd (N ! i) = Some e \<longrightarrow> i < e \<and> e \<le> b) \<and>
     (\<forall>i\<in>{a..<b}. \<forall>s\<in>{a..<b}. insideBody N s i \<longleftrightarrow> inScope N s (n_scope (N ! i)))"

definition below :: "nat option \<Rightarrow> nat \<Rightarrow> bool" where
  "below scope a \<longleftrightarrow> (\<forall>u. scope = Some u \<longrightarrow> u < a)"

lemma below_mono: "below scope a \<Longrightarrow> a \<le> b \<Longrightarrow> below scope b"
  by (auto simp: below_def)

lemma insideBody_cong: "N ! s = N' ! s \<Longrightarrow> insideBody N s i = insideBody N' s i"
  by (simp add: insideBody_def)

lemma scopedRange_cong:
  assumes "scopedRange N a b scope" "\<And>i. a \<le> i \<Longrightarrow> i < b \<Longrightarrow> N' ! i = N ! i"
  shows "scopedRange N' a b scope"
proof -
  have in_cong: "insideBody N' s i \<longleftrightarrow> insideBody N s i" if "s \<in> {a..<b}" for s i
    by (rule insideBody_cong) (use assms(2) that in auto)
  then have sc: "inScope N' s sc \<longleftrightarrow> inScope N s sc" if "s \<in> {a..<b}" for s sc
    using that by (cases sc) simp_all
  have "scopedNode N' a scope i" if "i \<in> {a..<b}" for i
  proof -
    have "scopedNode N a scope i" using assms(1) that by (simp add: scopedRange_def)
    then show ?thesis using that assms(2) unfolding scopedNode_def by auto
  qed
  then show ?thesis using assms by (auto simp: scopedRange_def in_cong sc)
qed

lemma scopedRangeD:
  assumes "scopedRange N a b scope" "a \<le> i" "i < b"
  shows "scopedNode N a scope i" "n_scopeEnd (N ! i) = Some e \<Longrightarrow> i < e \<and> e \<le> b"
    "a \<le> s \<Longrightarrow> s < b \<Longrightarrow> insideBody N s i \<longleftrightarrow> inScope N s (n_scope (N ! i))"
  using assms by (auto simp: scopedRange_def)

lemma insideBody_end: "scopedRange N a b scope \<Longrightarrow> a \<le> s \<Longrightarrow> s < b \<Longrightarrow> insideBody N s i \<Longrightarrow> i < b"
  using scopedRangeD(2) [of N a b scope s] by (fastforce simp: insideBody_def split: option.splits)

lemma scopedRange_append:
  assumes "scopedRange N a m scope" "scopedRange N m b scope" "a \<le> m" "m \<le> b" "below scope a"
  shows "scopedRange N a b scope"
proof -
  have node: "scopedNode N a scope i" if "a \<le> i" "i < b" for i
  proof (cases "i < m")
    case True
    with that scopedRangeD(1) [OF assms(1)] show ?thesis by blast
  next
    case False
    with that scopedRangeD(1) [OF assms(2), of i] assms(3) show ?thesis by (fastforce simp: scopedNode_def)
  qed
  have key: "insideBody N s i \<longleftrightarrow> inScope N s (n_scope (N ! i))" if r: "a \<le> i" "i < b" "a \<le> s" "s < b" for i s
  proof (cases "i < m \<longleftrightarrow> s < m")
    case True
    then show ?thesis
      using scopedRangeD(3) [OF assms(1), of i s] scopedRangeD(3) [OF assms(2), of i s] r by (cases "i < m") auto
  next
    case False
    have out: "\<not> insideBody N s j" if "s < m" "m \<le> j" for j
      using insideBody_end [OF assms(1), of s j] r that by auto
    have far: "\<not> inScope N s (n_scope (N ! i))" if "n_scope (N ! i) = scope"
      using that assms(5) r(3) by (cases scope) (auto simp: below_def dest!: insideBody_less)
    have "\<not> inScope N s (n_scope (N ! i))"
    proof (cases "i < m")
      case True
      with False have "m \<le> s" by simp
      with scopedRangeD(1) [OF assms(1) r(1) True] far True show ?thesis
        by (auto simp: scopedNode_def dest!: insideBody_less)
    next
      case late: False
      with False have "s < m" by simp
      with scopedRangeD(1) [OF assms(2) _ r(2)] far late out show ?thesis
        by (fastforce simp: scopedNode_def)
    qed
    moreover have "\<not> insideBody N s i" using False out r by (cases "i < m") (auto dest: insideBody_less)
    ultimately show ?thesis by simp
  qed
  have "i < e \<and> e \<le> b" if "a \<le> i" "i < b" "n_scopeEnd (N ! i) = Some e" for i e
    using scopedRangeD(2) [OF assms(1), of i e] scopedRangeD(2) [OF assms(2), of i e] that assms(4) by (cases "i < m") auto
  with node key show ?thesis by (auto simp: scopedRange_def)
qed

text \<open>Nodes of one scope without bodies of their own; a subprocess in front of its body.\<close>

lemma scopedRange_flat:
  assumes "\<And>i. a \<le> i \<Longrightarrow> i < b \<Longrightarrow> n_scope (N ! i) = scope \<and> n_scopeEnd (N ! i) = None" "below scope a"
  shows "scopedRange N a b scope"
  using assms by (auto simp: scopedRange_def scopedNode_def insideBody_def inScope_def below_def split: option.splits)

lemma scopedRange_wrap:
  assumes "scopedRange N (Suc a) b (Some a)" "below scope a" "Suc a \<le> b"
    and n: "n_scope (N ! a) = scope" "n_scopeEnd (N ! a) = Some b" "n_kind (N ! a) = definitionSubprocess"
  shows "scopedRange N a b scope"
proof -
  have inner: "n_scope (N ! i) = Some a \<or> (\<exists>u. n_scope (N ! i) = Some u \<and> a < u \<and> u < i \<and> n_kind (N ! u) = definitionSubprocess)"
    if "a < i" "i < b" for i
    using scopedRangeD(1) [OF assms(1), of i] that by (auto simp: scopedNode_def)
  have body: "insideBody N a i \<longleftrightarrow> a < i \<and> i < b" for i using n(2) by (simp add: insideBody_def)
  have "insideBody N s i \<longleftrightarrow> inScope N s (n_scope (N ! i))" if r: "a \<le> i" "i < b" "a \<le> s" "s < b" for i s
  proof (cases "i = a")
    case True
    with n(1) r assms(2) show ?thesis by (auto simp: below_def inScope_def split: option.splits dest: insideBody_less)
  next
    case i: False
    show ?thesis
    proof (cases "s = a")
      case True
      have "a < i" using i r(1) by simp
      then have "insideBody N s i" using body True r(2) by simp
      moreover have "inScope N s (n_scope (N ! i))" using inner [OF \<open>a < i\<close> r(2)] body True r(2) by (elim disjE exE conjE) simp_all
      ultimately show ?thesis by simp
    next
      case False
      with scopedRangeD(3) [OF assms(1), of i s] i r show ?thesis by simp
    qed
  qed
  moreover have "scopedNode N a scope i" if "a \<le> i" "i < b" for i
  proof (cases "i = a")
    case True
    then show ?thesis using n(1) by (simp add: scopedNode_def)
  next
    case False
    then show ?thesis using inner [of i] that n(3) unfolding scopedNode_def by (auto intro: less_imp_le)
  qed
  moreover have "i < e \<and> e \<le> b" if "a \<le> i" "i < b" "n_scopeEnd (N ! i) = Some e" for i e
    using that n(2) assms(3) scopedRangeD(2) [OF assms(1), of i e] by (cases "i = a") auto
  ultimately show ?thesis by (auto simp: scopedRange_def)
qed

text \<open>What the nesting of bodies gives.\<close>

lemma insideBody_nested:
  assumes r: "scopedRange N a b scope" "below scope a" "a \<le> s'" "a \<le> s" "s < b"
    and s: "insideBody N s' s" and i: "insideBody N s i"
  shows "insideBody N s' i"
proof -
  have s': "s' < b" using insideBody_less [OF s] r(5) by simp
  have "i < b" using insideBody_end [OF r(1,4,5) i] .
  with i show ?thesis
  proof (induction i rule: less_induct)
    case (less i)
    have ai: "a \<le> i" using r(4) insideBody_less [OF less.prems(1)] by simp
    from scopedRangeD(3) [OF r(1) ai less.prems(2) r(4,5)] less.prems(1)
    obtain u where u: "n_scope (N ! i) = Some u" "u = s \<or> insideBody N s u" by (cases "n_scope (N ! i)") auto
    have ui: "u < i"
      using scopedRangeD(1) [OF r(1) ai less.prems(2)] u(1) r(2) ai by (auto simp: scopedNode_def below_def)
    have "insideBody N s' u" using u(2) s less.IH [OF ui] ui less.prems(2) by auto
    with scopedRangeD(3) [OF r(1) ai less.prems(2) r(3) s'] u(1) show ?case by simp
  qed
qed

section \<open>The nodes of a range\<close>

definition plainNode :: "definitionNode \<Rightarrow> bool" where
  "plainNode n \<longleftrightarrow>
     n_outgoing n = [] \<and> n_incoming n = [] \<and> n_loops n = [] \<and> n_sourceOf n = [] \<and>
     (runsCommand n \<longrightarrow> 1 \<le> n_maxAttempts n \<and> n_maxAttempts n \<le> MaxInt) \<and>
     (n_retryAuthored n \<longrightarrow> n_kind n = definitionTask) \<and>
     (n_kind n = definitionEnd \<longrightarrow> knownRunStatus (n_terminal n) \<and> n_terminal n \<noteq> RunRunning) \<and>
     (n_kind n = definitionSubprocessExit \<longrightarrow> n_scope n \<noteq> None)"

definition stageOf :: "definitionNode \<Rightarrow> nat \<Rightarrow> definitionNode \<Rightarrow> nat \<Rightarrow> bool" where
  "stageOf parent p n i \<longleftrightarrow>
     n_parent n = Some p \<and> n_scope n = n_scope parent \<and> n_children n = [] \<and> n_scopeEnd n = None \<and> \<not> n_joinAny n \<and>
     (n_kind n = definitionTask \<or> n_kind n = definitionDecision \<or> n_kind n = definitionStageDone) \<and>
     (n_kind n = definitionDecision \<longleftrightarrow> n_stage n = StagePlanApproval) \<and>
     (n_kind n = definitionDecision \<longrightarrow> n_agent n = None) \<and>
     (n_kind n = definitionStageDone \<longleftrightarrow> n_stage n = StageDone) \<and>
     (n_retryAuthored n \<longrightarrow> n_stage n = StageDo) \<and>
     (n_stage n = StageDo \<longleftrightarrow> n_doAnchor parent = Some i) \<and>
     (n_stage n = StagePlan \<longleftrightarrow> n_planAnchor parent = Some i) \<and>
     (n_stage n = StagePlanApproval \<longleftrightarrow> n_approvalGate parent = Some i)"

definition compoundNode :: "definitionNode list \<Rightarrow> nat \<Rightarrow> nat \<Rightarrow> bool" where
  "compoundNode N b p \<longleftrightarrow>
     (let n = N ! p in
      n_parent n = None \<and> distinct (n_children n) \<and>
      stagesOk (map (\<lambda>i. n_stage (N ! i)) (n_children n)) \<and>
      (\<forall>i\<in>set (n_children n). p < i \<and> i < b \<and> stageOf n p (N ! i) i) \<and>
      (\<forall>a \<in> set_option (n_doAnchor n) \<union> set_option (n_planAnchor n) \<union> set_option (n_approvalGate n).
         a \<in> set (n_children n)))"

definition subprocessNode :: "definitionNode list \<Rightarrow> nat \<Rightarrow> nat \<Rightarrow> bool" where
  "subprocessNode N b s \<longleftrightarrow>
     n_parent (N ! s) = None \<and>
     (\<exists>e en. n_scopeEnd (N ! s) = Some e \<and> n_entry (N ! s) = Some en \<and> s < en \<and> en < e \<and> e \<le> b \<and>
        n_scope (N ! en) = Some s \<and> n_parent (N ! en) = None)"

definition linkedNode :: "definitionNode list \<Rightarrow> nat \<Rightarrow> nat \<Rightarrow> nat \<Rightarrow> bool" where
  "linkedNode N a b i \<longleftrightarrow>
     (let n = N ! i in
      (case n_parent n of
         None \<Rightarrow> n_kind n \<noteq> definitionStageDone
       | Some p \<Rightarrow> a \<le> p \<and> p < i \<and> n_kind (N ! p) = definitionCompound \<and> i \<in> set (n_children (N ! p))) \<and>
      (if n_kind n = definitionCompound then compoundNode N b i else n_children n = []) \<and>
      (if n_kind n = definitionSubprocess then subprocessNode N b i else n_scopeEnd n = None))"

definition builtRange :: "definitionNode list \<Rightarrow> nat \<Rightarrow> nat \<Rightarrow> nat option \<Rightarrow> bool" where
  "builtRange N a b scope \<longleftrightarrow>
     scopedRange N a b scope \<and> (\<forall>i\<in>{a..<b}. plainNode (N ! i) \<and> linkedNode N a b i)"

lemma linkedNode_cong:
  assumes "linkedNode N a b i" "\<And>j. a \<le> j \<Longrightarrow> j < b \<Longrightarrow> N' ! j = N ! j" "a \<le> i" "i < b"
  shows "linkedNode N' a b i"
proof -
  have i: "N' ! i = N ! i" using assms by blast
  have "compoundNode N' b i" if "compoundNode N b i"
  proof -
    have c: "N' ! j = N ! j" if "j \<in> set (n_children (N ! i))" for j
    proof -
      have "i < j \<and> j < b" using \<open>compoundNode N b i\<close> that by (simp add: compoundNode_def Let_def)
      then show ?thesis using assms(2,3) by simp
    qed
    have "map (\<lambda>j. n_stage (N' ! j)) (n_children (N ! i)) = map (\<lambda>j. n_stage (N ! j)) (n_children (N ! i))" using c by simp
    then show ?thesis using that c unfolding compoundNode_def Let_def i by (simp only: simp_thms) auto
  qed
  moreover have "subprocessNode N' b i" if "subprocessNode N b i"
  proof -
    from that obtain e en where "n_scopeEnd (N ! i) = Some e" "n_entry (N ! i) = Some en" "i < en" "en < e" "e \<le> b"
      "n_scope (N ! en) = Some i" "n_parent (N ! en) = None" "n_parent (N ! i) = None" unfolding subprocessNode_def by blast
    moreover have "N' ! en = N ! en" using calculation assms(2,3) by simp
    ultimately show ?thesis unfolding subprocessNode_def i by simp
  qed
  moreover have "N' ! p = N ! p" if "a \<le> p" "p < i" for p using that assms(2,4) by simp
  ultimately show ?thesis using assms(1) unfolding linkedNode_def Let_def i by (auto split: option.splits if_splits)
qed

lemma compoundNode_mono: "compoundNode N m i \<Longrightarrow> m \<le> b \<Longrightarrow> compoundNode N b i"
  by (auto simp: compoundNode_def Let_def)

lemma subprocessNode_mono: "subprocessNode N m i \<Longrightarrow> m \<le> b \<Longrightarrow> subprocessNode N b i"
  unfolding subprocessNode_def by (meson le_trans)

lemma linkedNode_mono:
  assumes "linkedNode N a m i" "a' \<le> a" "m \<le> b"
  shows "linkedNode N a' b i"
  using assms compoundNode_mono subprocessNode_mono unfolding linkedNode_def Let_def
  by (auto split: option.splits if_splits)

lemma builtRange_cong:
  assumes "builtRange N a b scope" "\<And>i. a \<le> i \<Longrightarrow> i < b \<Longrightarrow> N' ! i = N ! i"
  shows "builtRange N' a b scope"
proof -
  have "scopedRange N' a b scope" by (rule scopedRange_cong) (use assms in \<open>auto simp: builtRange_def\<close>)
  moreover have "plainNode (N' ! i) \<and> linkedNode N' a b i" if "i \<in> {a..<b}" for i
    using linkedNode_cong [of N a b i N'] assms that by (auto simp: builtRange_def)
  ultimately show ?thesis by (simp add: builtRange_def)
qed

lemma builtRange_append:
  assumes "builtRange N a m scope" "builtRange N m b scope" "a \<le> m" "m \<le> b" "below scope a"
  shows "builtRange N a b scope"
proof -
  have "scopedRange N a b scope" using scopedRange_append assms unfolding builtRange_def by blast
  moreover have "plainNode (N ! i) \<and> linkedNode N a b i" if "i \<in> {a..<b}" for i
  proof (cases "i < m")
    case True
    then show ?thesis using assms(1,4) that linkedNode_mono [of N a m i a b] by (auto simp: builtRange_def)
  next
    case False
    then show ?thesis using assms(2,3) that linkedNode_mono [of N m b i a b] by (auto simp: builtRange_def)
  qed
  ultimately show ?thesis by (simp add: builtRange_def)
qed

lemma builtRange_empty [simp]: "builtRange N a a scope"
  by (simp add: builtRange_def scopedRange_def)

text \<open>An ordinary node, a compound with its stages, a subprocess with its body.\<close>

lemma builtRange_single:
  assumes "plainNode (N ! a)" "n_scope (N ! a) = scope" "below scope a" "n_parent (N ! a) = None"
    "n_kind (N ! a) \<notin> {definitionStageDone, definitionCompound, definitionSubprocess}" "n_children (N ! a) = []" "n_scopeEnd (N ! a) = None"
  shows "builtRange N a (Suc a) scope"
proof -
  have "n_scope (N ! i) = scope \<and> n_scopeEnd (N ! i) = None" if "a \<le> i" "i < Suc a" for i
    using that assms by (auto simp: less_Suc_eq)
  then have "scopedRange N a (Suc a) scope" using assms(3) by (intro scopedRange_flat) auto
  then show ?thesis using assms by (simp add: builtRange_def linkedNode_def Let_def)
qed

lemma builtRange_compound:
  assumes "plainNode (N ! a)" "n_scope (N ! a) = scope" "below scope a" "n_scopeEnd (N ! a) = None"
    and kind: "n_kind (N ! a) = definitionCompound" and children: "n_children (N ! a) = [Suc a ..< b]" and "a < b"
    and comp: "compoundNode N b a" and plain: "\<And>i. a < i \<Longrightarrow> i < b \<Longrightarrow> plainNode (N ! i)"
  shows "builtRange N a b scope"
proof -
  have st: "stageOf (N ! a) a (N ! i) i" if "a < i" "i < b" for i
    using comp children that by (auto simp: compoundNode_def Let_def)
  have "n_scope (N ! i) = scope \<and> n_scopeEnd (N ! i) = None" if "a \<le> i" "i < b" for i
    using st [of i] that assms(2,4) by (cases "i = a") (auto simp: stageOf_def)
  then have "scopedRange N a b scope" using assms(3) by (intro scopedRange_flat) auto
  moreover have "plainNode (N ! i) \<and> linkedNode N a b i" if "i \<in> {a..<b}" for i
  proof (cases "i = a")
    case True
    then show ?thesis using assms(1,4) kind comp by (auto simp: linkedNode_def compoundNode_def Let_def)
  next
    case False
    with that have r: "a < i" "i < b" by auto
    with st [OF this] kind children have "linkedNode N a b i" by (auto simp: linkedNode_def stageOf_def Let_def)
    with plain [OF r] show ?thesis by simp
  qed
  ultimately show ?thesis by (simp add: builtRange_def)
qed

lemma builtRange_subprocess:
  assumes body: "builtRange N (Suc a) b (Some a)" and "plainNode (N ! a)" "n_scope (N ! a) = scope" "below scope a" "Suc a \<le> b"
    and kind: "n_kind (N ! a) = definitionSubprocess" "n_scopeEnd (N ! a) = Some b" "n_children (N ! a) = []"
    and sub: "subprocessNode N b a"
  shows "builtRange N a b scope"
proof -
  have "scopedRange N a b scope" using scopedRange_wrap body assms(3-5) kind by (simp add: builtRange_def)
  moreover have "plainNode (N ! i) \<and> linkedNode N a b i" if "i \<in> {a..<b}" for i
  proof (cases "i = a")
    case True
    then show ?thesis using assms(2) kind sub by (auto simp: linkedNode_def subprocessNode_def Let_def)
  next
    case False
    then show ?thesis using body that linkedNode_mono [of N "Suc a" b i a b] by (auto simp: builtRange_def)
  qed
  ultimately show ?thesis by (simp add: builtRange_def)
qed

end
