(* ===== verification/Prepare_Nodes.thy ===== *)
theory Prepare_Nodes
  imports Prepare_Ranges
begin

text \<open>
  Single prepared nodes and the stages of a compound: what \<open>prepareNode\<close> and \<open>prepareStage\<close> fix, and the range a
  compound occupies with its stages.
\<close>

section \<open>Authored nodes\<close>

definition budgetOk :: "Node \<Rightarrow> bool" where
  "budgetOk node \<longleftrightarrow> (\<forall>retry. Retry node = Some retry \<longrightarrow> rp_MaxAttempts retry \<le> 100)"

lemma RetryBudget_bounds: "budgetOk node \<Longrightarrow> 1 \<le> RetryBudget (Retry node) \<and> RetryBudget (Retry node) \<le> MaxInt"
  by (auto simp: budgetOk_def RetryBudget_def MaxInt_def split: option.splits)

lemma retryDiagnostics_budget: "retryDiagnostics path node = [] \<Longrightarrow> budgetOk node"
  by (auto simp: retryDiagnostics_def budgetOk_def Let_def maxExecutableRetryAttempts_def split: option.splits if_splits)

lemma preparePerformer_cases:
  assumes "preparePerformer performer retry params fb node = Inr n"
  obtains agent where "n = node\<lparr>n_agent := Some agent\<rparr>" | program where "n = node\<lparr>n_program := program\<rparr>"
  using assms by (auto simp: preparePerformer_def bindR_Inr_iff split: if_splits)

lemma terminalStatus_known: "knownRunStatus (terminalStatus r) \<and> terminalStatus r \<noteq> RunRunning"
  by (simp add: terminalStatus_def Let_def)

text \<open>The fields an authored node starts with, whatever its type.\<close>

definition freshNode :: "definitionNode \<Rightarrow> bool" where
  "freshNode n \<longleftrightarrow> n_outgoing n = [] \<and> n_incoming n = [] \<and> n_loops n = [] \<and> n_sourceOf n = [] \<and>
     n_children n = [] \<and> n_scopeEnd n = None \<and> n_doAnchor n = None \<and> n_planAnchor n = None \<and> n_approvalGate n = None"

lemma prepareNode_fields:
  assumes "prepareNode fb params prefix scope owner nodeID node = Inr n"
  shows "n_id n = prefix @ nodeID" "n_scope n = scope" "n_parent n = None" "freshNode n" "n_kind n \<noteq> definitionStageDone"
    "n_kind n = definitionDecision \<longleftrightarrow> Type node = NodeTypeDecision"
    "n_kind n = definitionCompound \<longleftrightarrow> IsCompound node"
    "n_kind n = definitionSubprocess \<longleftrightarrow> Type node = NodeTypeSubprocess"
    "n_kind n = definitionSubprocessExit \<longrightarrow> owner \<noteq> None"
  using assms
  by (auto simp: prepareNode_def zeroPrepared_def freshNode_def IsCompound_def Let_def elim!: preparePerformer_cases
      split: NodeType.splits option.splits if_splits)

lemma prepareNode_plain:
  assumes "prepareNode fb params prefix scope owner nodeID node = Inr n" "budgetOk node" "owner \<noteq> None \<Longrightarrow> scope \<noteq> None"
  shows "plainNode n"
  using assms RetryBudget_bounds [OF assms(2)] terminalStatus_known
  by (auto simp: prepareNode_def zeroPrepared_def plainNode_def runsCommand_def MaxInt_def Let_def elim!: preparePerformer_cases
      split: NodeType.splits option.splits if_splits)

section \<open>Stages\<close>

lemma prepareStage_fields:
  assumes "prepareStage fb params scope p node spec = Inr n"
  shows "n_parent n = Some p" "n_stage n = ss_Stage spec" "n_scope n = scope" "n_children n = []" "n_scopeEnd n = None" "\<not> n_joinAny n"
    "n_kind n = (if ss_Stage spec = StageDone then definitionStageDone
                 else if ss_Stage spec = StagePlanApproval then definitionDecision else definitionTask)"
    "n_kind n = definitionDecision \<longrightarrow> n_agent n = None" "n_retryAuthored n \<longrightarrow> ss_Stage spec = StageDo"
  using assms
  by (auto simp: prepareStage_def zeroPrepared_def Let_def bindR_Inr_iff elim!: preparePerformer_cases
      split: StageKind.splits option.splits if_splits)

lemma prepareStage_plain:
  assumes "prepareStage fb params scope p node spec = Inr n" "budgetOk node"
  shows "plainNode n"
  using assms(1) RetryBudget_bounds [OF assms(2)]
  by (auto simp: prepareStage_def zeroPrepared_def plainNode_def runsCommand_def MaxInt_def Let_def bindR_Inr_iff
      elim!: preparePerformer_cases split: StageKind.splits option.splits if_splits)

text \<open>A compound adopts its stages, given with the index of the first.\<close>

fun adoptStages :: "nat \<Rightarrow> StageSpec list \<Rightarrow> definitionNode \<Rightarrow> definitionNode" where
  "adoptStages k [] n = n"
| "adoptStages k (spec # specs) n = adoptStages (Suc k) specs (adoptStage (ss_Stage spec) k n)"

lemma adoptStage_same:
  "n_kind (adoptStage st i n) = n_kind n" "n_scope (adoptStage st i n) = n_scope n" "n_scopeEnd (adoptStage st i n) = n_scopeEnd n"
  "plainNode (adoptStage st i n) = plainNode n" "n_children (adoptStage st i n) = n_children n @ [i]"
  by (cases st; simp add: adoptStage_def plainNode_def runsCommand_def Let_def)+

lemma adoptStages_same:
  "n_kind (adoptStages k specs n) = n_kind n" "n_scope (adoptStages k specs n) = n_scope n"
  "n_scopeEnd (adoptStages k specs n) = n_scopeEnd n" "plainNode (adoptStages k specs n) = plainNode n"
  "n_parent (adoptStages k specs n) = n_parent n" "n_id (adoptStages k specs n) = n_id n"
  "n_children (adoptStages k specs n) = n_children n @ [k ..< k + length specs]"
  by (induction k specs n rule: adoptStages.induct) (simp_all add: adoptStage_same adoptStage_fields upt_rec [of "_ :: nat"])

lemma adoptStages_append: "adoptStages k (xs @ ys) n = adoptStages (k + length xs) ys (adoptStages k xs n)"
  by (induction xs arbitrary: k n) simp_all

lemma adoptStages_other:
  assumes "\<And>stage i n. sel (adoptStage stage i n) = (if stage = st then Some i else sel n)" "st \<notin> ss_Stage ` set specs"
  shows "sel (adoptStages k specs n) = sel n"
  using assms(2) by (induction specs arbitrary: k n) (auto simp: assms(1))

lemma adoptStages_anchor:
  assumes sel: "\<And>stage i n. sel (adoptStage stage i n) = (if stage = st then Some i else sel n)" and none: "sel n = None"
    and unique: "\<And>i j. i < length specs \<Longrightarrow> j < length specs \<Longrightarrow> ss_Stage (specs ! i) = st \<Longrightarrow> ss_Stage (specs ! j) = st \<Longrightarrow> i = j"
  shows "sel (adoptStages k specs n) = Some c \<longleftrightarrow> (\<exists>j<length specs. c = k + j \<and> ss_Stage (specs ! j) = st)"
proof (cases "st \<in> ss_Stage ` set specs")
  case False
  then have "sel (adoptStages k specs n) = None" using adoptStages_other [OF sel] none by metis
  with False show ?thesis by (auto dest: nth_mem)
next
  case True
  then obtain j where j: "j < length specs" "ss_Stage (specs ! j) = st" by (auto simp: in_set_conv_nth)
  have later: "st \<notin> ss_Stage ` set (drop (Suc j) specs)"
  proof
    assume "st \<in> ss_Stage ` set (drop (Suc j) specs)"
    then obtain i where "i < length specs - Suc j" "ss_Stage (specs ! (Suc j + i)) = st" by (auto simp: in_set_conv_nth)
    with unique [of j "Suc j + i"] j show False by (simp add: less_diff_conv)
  qed
  have "specs = take j specs @ specs ! j # drop (Suc j) specs" using j(1) by (rule id_take_nth_drop)
  then have "adoptStages k specs n =
      adoptStages (Suc (k + j)) (drop (Suc j) specs) (adoptStage st (k + j) (adoptStages k (take j specs) n))"
    using adoptStages_append [of k "take j specs" "specs ! j # drop (Suc j) specs" n] j by simp
  then have "sel (adoptStages k specs n) = Some (k + j)" using adoptStages_other [OF sel later] sel by metis
  then show ?thesis using j unique by auto
qed

lemma adoptStage_anchors:
  "n_doAnchor (adoptStage stage i n) = (if stage = StageDo then Some i else n_doAnchor n)"
  "n_planAnchor (adoptStage stage i n) = (if stage = StagePlan then Some i else n_planAnchor n)"
  "n_approvalGate (adoptStage stage i n) = (if stage = StagePlanApproval then Some i else n_approvalGate n)"
  by (cases stage; simp add: adoptStage_def Let_def)+

lemma stagesOk_unique:
  assumes "stagesOk xs" "i < length xs" "j < length xs" "xs ! i = st" "xs ! j = st" "st \<in> {StageDo, StagePlan, StagePlanApproval}"
  shows "i = j"
proof -
  from assms(1) obtain pre zs where x: "xs = pre @ StageDo # zs" and z: "stagesAfterDo zs"
    and p: "pre = [] \<or> pre = [StagePlan] \<or> pre = [StagePlan, StagePlanApproval]" by (rule stagesOk_split)
  have nz: "st \<notin> set zs" using stagesAfterDo_set(1) [OF z] assms(6) by auto
  have d: "distinct (pre @ [StageDo])" using p by auto
  have pos: "k < length (pre @ [StageDo]) \<and> (pre @ [StageDo]) ! k = st" if "k < length xs" "xs ! k = st" for k
  proof -
    have "k < length (pre @ [StageDo])"
    proof (rule ccontr)
      assume "\<not> k < length (pre @ [StageDo])"
      with that x have "st \<in> set zs" by (auto simp: nth_append nth_Cons' split: if_splits)
      with nz show False by simp
    qed
    with that x show ?thesis by (auto simp: nth_append nth_Cons' split: if_splits)
  qed
  from pos [OF assms(2,4)] pos [OF assms(3,5)] d show ?thesis by (metis nth_eq_iff_index_eq)
qed

text \<open>The nodes after a compound's stages were appended.\<close>

lemma appendNode_nodes:
  assumes "appendNode n s = Inr s'"
  shows "pr_nodes s' = pr_nodes s @ [n]" "pr_index s' = fmupd (n_id n) (length (pr_nodes s)) (pr_index s)"
    "fmlookup (pr_index s) (n_id n) = None" "pr_nexts s' = pr_nexts s" "pr_loops s' = pr_loops s"
  using assms by (auto simp: appendNode_def split: if_splits)

lemma foldR_appendStage:
  assumes "foldR (appendStage fb params scope p node) specs s = Inr s'" "p < length (pr_nodes s)"
  shows "\<exists>cs. length cs = length specs \<and>
    pr_nodes s' = (pr_nodes s)[p := adoptStages (length (pr_nodes s)) specs (pr_nodes s ! p)] @ cs \<and>
    (\<forall>k<length specs. prepareStage fb params scope p node (specs ! k) = Inr (cs ! k))"
  using assms
proof (induction specs arbitrary: s)
  case Nil
  then show ?case by simp
next
  case (Cons spec specs)
  from Cons.prems(1) obtain s2 where step: "appendStage fb params scope p node spec s = Inr s2"
    and rest: "foldR (appendStage fb params scope p node) specs s2 = Inr s'" by (auto simp: bindR_Inr_iff)
  from step obtain child s1 where c: "prepareStage fb params scope p node spec = Inr child"
    and s1: "appendNode child s = Inr s1" and s2: "s2 = updateNode p (adoptStage (ss_Stage spec) (length (pr_nodes s))) s1"
    by (auto simp: appendStage_def bindR_Inr_iff Let_def)
  have n2: "pr_nodes s2 = (pr_nodes s)[p := adoptStage (ss_Stage spec) (length (pr_nodes s)) (pr_nodes s ! p)] @ [child]"
    using Cons.prems(2) by (simp add: s2 updateNode_def appendNode_nodes(1) [OF s1] list_update_append nth_append)
  have "p < length (pr_nodes s2)" using n2 Cons.prems(2) by simp
  from Cons.IH [OF rest this] obtain cs where cs: "length cs = length specs"
    "pr_nodes s' = (pr_nodes s2)[p := adoptStages (length (pr_nodes s2)) specs (pr_nodes s2 ! p)] @ cs"
    "\<forall>k<length specs. prepareStage fb params scope p node (specs ! k) = Inr (cs ! k)" by blast
  have "pr_nodes s' = (pr_nodes s)[p := adoptStages (length (pr_nodes s)) (spec # specs) (pr_nodes s ! p)] @ (child # cs)"
    using cs(2) Cons.prems(2) by (simp add: n2 list_update_append nth_append)
  moreover have "\<forall>k<length (spec # specs). prepareStage fb params scope p node ((spec # specs) ! k) = Inr ((child # cs) ! k)"
    using cs(3) c by (simp add: nth_Cons')
  ultimately show ?case using cs(1) by (intro exI [of _ "child # cs"]) simp
qed

lemma compound_built:
  assumes fold: "foldR (appendStage fb params scope p node) (ExpandNode fid node) s = Inr s'"
    and s: "pr_nodes s = ns @ [n]" "p = length ns" and n: "n_kind n = definitionCompound" "n_parent n = None" "freshNode n"
      "plainNode n" "n_scope n = scope"
    and ok: "IsCompound node" "budgetOk node" "below scope p"
  shows "builtRange (pr_nodes s') p (length (pr_nodes s')) scope" "take p (pr_nodes s') = ns" "p < length (pr_nodes s')"
    "n_id (pr_nodes s' ! p) = n_id n" "n_parent (pr_nodes s' ! p) = None" "n_scope (pr_nodes s' ! p) = scope" "n_kind (pr_nodes s' ! p) = definitionCompound"
    "\<And>i. p < i \<Longrightarrow> i < length (pr_nodes s') \<Longrightarrow> n_parent (pr_nodes s' ! i) \<noteq> None"
proof -
  let ?specs = "ExpandNode fid node" and ?N = "pr_nodes s'" and ?m = "adoptStages (Suc p) (ExpandNode fid node) n"
  from foldR_appendStage [OF fold] s obtain cs where cs: "length cs = length ?specs" "?N = ns @ ?m # cs"
    "\<forall>k<length ?specs. prepareStage fb params scope p node (?specs ! k) = Inr (cs ! k)" by auto
  have len: "length ?N = Suc p + length ?specs" using cs s by simp
  have at: "?N ! p = ?m" "take p ?N = ns" using cs(2) s(2) by simp_all
  have child: "?N ! (Suc p + k) = cs ! k" for k using cs(2) s(2) by (simp add: nth_append)
  have ok_stages: "stagesOk (map ss_Stage ?specs)" by (rule ExpandNode_stagesOk [OF ok(1)])
  have unique: "i = j" if "i < length ?specs" "j < length ?specs" "ss_Stage (?specs ! i) = st" "ss_Stage (?specs ! j) = st"
    "st \<in> {StageDo, StagePlan, StagePlanApproval}" for i j st
    using stagesOk_unique [OF ok_stages, of i j st] that by simp
  have children: "n_children ?m = [Suc p ..< length ?N]" using n(3) len by (simp add: adoptStages_same freshNode_def)
  have anchors: "n_doAnchor ?m = Some c \<longleftrightarrow> (\<exists>j<length ?specs. c = Suc p + j \<and> ss_Stage (?specs ! j) = StageDo)"
    "n_planAnchor ?m = Some c \<longleftrightarrow> (\<exists>j<length ?specs. c = Suc p + j \<and> ss_Stage (?specs ! j) = StagePlan)"
    "n_approvalGate ?m = Some c \<longleftrightarrow> (\<exists>j<length ?specs. c = Suc p + j \<and> ss_Stage (?specs ! j) = StagePlanApproval)" for c
    using n(3) unique by (intro adoptStages_anchor adoptStage_anchors; auto simp: freshNode_def)+
  have spec: "prepareStage fb params scope p node (?specs ! k) = Inr (?N ! (Suc p + k))" if "k < length ?specs" for k
    using cs(3) that by (metis child)
  have stage: "n_stage (?N ! (Suc p + k)) = ss_Stage (?specs ! k)" if "k < length ?specs" for k
    using prepareStage_fields(2) [OF spec [OF that]] .
  have stageOf: "stageOf ?m p (?N ! (Suc p + k)) (Suc p + k)" if k: "k < length ?specs" for k
  proof -
    note f = prepareStage_fields [OF spec [OF k]]
    have "ss_Stage (?specs ! k) = StageDo \<longleftrightarrow> n_doAnchor ?m = Some (Suc p + k)"
      "ss_Stage (?specs ! k) = StagePlan \<longleftrightarrow> n_planAnchor ?m = Some (Suc p + k)"
      "ss_Stage (?specs ! k) = StagePlanApproval \<longleftrightarrow> n_approvalGate ?m = Some (Suc p + k)"
      using k by (auto simp: anchors)
    then show ?thesis using f n(5) unfolding stageOf_def adoptStages_same
      by (cases "ss_Stage (?specs ! k)") simp_all
  qed
  have offs: "\<exists>k<length ?specs. i = Suc p + k" if "p < i" "i < length ?N" for i
    using that len by (intro exI [of _ "i - Suc p"]) auto
  have "map (\<lambda>i. n_stage (?N ! i)) [Suc p ..< length ?N] = map ss_Stage ?specs"
    using stage len by (intro nth_equalityI) (simp_all del: upt_Suc)
  with ok_stages have st: "stagesOk (map (\<lambda>i. n_stage (?N ! i)) (n_children ?m))" unfolding children by metis
  have all: "p < i \<and> i < length ?N \<and> stageOf ?m p (?N ! i) i" if i: "i \<in> set (n_children ?m)" for i
  proof -
    have r: "p < i" "i < length ?N" using i unfolding children by auto
    from offs [OF this] obtain k where "k < length ?specs" "i = Suc p + k" by blast
    with stageOf [of k] r show ?thesis by simp
  qed
  have inside: "Suc p + j \<in> set (n_children ?m)" if "j < length ?specs" for j using that len unfolding children by (auto simp del: upt_Suc)
  have anch: "a \<in> set (n_children ?m)"
    if "a \<in> set_option (n_doAnchor ?m) \<union> set_option (n_planAnchor ?m) \<union> set_option (n_approvalGate ?m)" for a
  proof -
    from that have "n_doAnchor ?m = Some a \<or> n_planAnchor ?m = Some a \<or> n_approvalGate ?m = Some a" by auto
    then show ?thesis unfolding anchors using inside by blast
  qed
  have "n_parent ?m = None" "distinct (n_children ?m)" using n(2) unfolding children by (simp_all add: adoptStages_same)
  then have comp: "compoundNode ?N (length ?N) p"
    unfolding compoundNode_def Let_def at using st all anch by blast
  have plain: "plainNode (?N ! i)" if "p < i" "i < length ?N" for i
    using offs [OF that] prepareStage_plain [OF spec ok(2)] by auto
  show "builtRange ?N p (length ?N) scope"
  proof (rule builtRange_compound [OF _ _ ok(3) _ _ _ _ comp plain])
    show "n_children (?N ! p) = [Suc p ..< length ?N]" using children at(1) by simp
  qed (use n len at(1) in \<open>simp_all add: adoptStages_same freshNode_def\<close>)
  show "take p ?N = ns" "p < length ?N" "n_id (?N ! p) = n_id n" "n_parent (?N ! p) = None" "n_scope (?N ! p) = scope"
    "n_kind (?N ! p) = definitionCompound"
    using at len n by (simp_all add: adoptStages_same)
  show "n_parent (?N ! i) \<noteq> None" if "p < i" "i < length ?N" for i
    using offs [OF that] prepareStage_fields(1) [OF spec] by auto
qed

end
