(* ===== verification/Loop_Bodies.thy ===== *)
theory Loop_Bodies
  imports Clean_Scopes
begin

text \<open>
  The loops of a scope without errors: each leaves a decision through a routed outcome with a bound of two to a hundred
  rounds, its body holds both its ends and declared nodes only, its exits leave from the body, and no two loops share
  source and outcome.
\<close>

lemma forward_targets:
  "b \<in> set (mget [] (fst (forwardAdjacency t es)) a) \<Longrightarrow> fmlookup (TemplateNodes t) b \<noteq> None"
proof -
  define step where "step = (\<lambda>e (out, inc). if forwardEdge t e
             then (mappend (ed_From e) (ed_To e) out, mappend (ed_To e) (ed_From e) inc)
             else (out, inc :: (string, string list) fmap))"
  define declared where "declared = (\<lambda>p :: (string, string list) fmap \<times> (string, string list) fmap. \<forall>a. \<forall>b\<in>set (mget [] (fst p) a). fmlookup (TemplateNodes t) b \<noteq> None)"
  have "declared (fold step es p)" if "declared p" for p :: "(string, string list) fmap \<times> (string, string list) fmap"
    using that
  proof (induction es arbitrary: p)
    case (Cons e es)
    have "declared (step e p)"
      using Cons.prems by (cases p) (auto simp: step_def declared_def mappend_def forwardEdge_def)
    from Cons.IH [OF this] show ?case by simp
  qed simp
  from this [of "(fmempty, fmempty)"] have "declared (forwardAdjacency t es)"
    unfolding forwardAdjacency_def step_def by (simp add: declared_def)
  then show "b \<in> set (mget [] (fst (forwardAdjacency t es)) a) \<Longrightarrow> fmlookup (TemplateNodes t) b \<noteq> None"
    by (auto simp: declared_def)
qed

lemma reachable_declared:
  assumes "(a, b) \<in> (adjRel (fst (forwardAdjacency t es)))\<^sup>*" "fmlookup (TemplateNodes t) a \<noteq> None"
  shows "fmlookup (TemplateNodes t) b \<noteq> None"
  using assms by (induction rule: rtrancl_induct) (auto simp: adjRel_def dest: forward_targets)

definition properLoop :: "Template \<Rightarrow> Loop \<Rightarrow> bool" where
  "properLoop t l \<longleftrightarrow>
     Type (node_of t (lp_From l)) = NodeTypeDecision \<and>
     fmlookup (NextOf (node_of t (lp_From l))) (lp_Outcome l) = Some (lp_To l) \<and>
     2 \<le> lp_MaxIterations l \<and> lp_MaxIterations l \<le> 100 \<and>
     lp_From l \<in> set (lp_Body l) \<and> lp_To l \<in> set (lp_Body l) \<and>
     (\<forall>nid\<in>set (lp_Body l). nid |\<in>| fmdom (TemplateNodes t)) \<and>
     (\<forall>e\<in>set (lp_Exits l). ed_From e \<in> set (lp_Body l))"

lemma loopAt_proper:
  assumes "cleanScope t" "from |\<in>| fmdom (TemplateNodes t)" "fmlookup (LoopBounds (node_of t from)) oc = Some b"
    and l: "loopAt t es from oc = Some l"
  shows "properLoop t l" "lp_From l = from" "lp_Outcome l = oc"
proof -
  obtain out inc where fa: "forwardAdjacency t es = (out, inc)" by force
  define ahead where "ahead = reachableFrom (mget [] (NextOf (node_of t from)) oc) out"
  define behind where "behind = reachableFrom from inc"
  note bound = clean_bound [OF assms(1-3)]
  from l obtain to where to: "fmlookup (NextOf (node_of t from)) oc = Some to" "fmlookup (TemplateNodes t) to \<noteq> None"
    and ahead: "ahead = reachableFrom to out" "from |\<in>| ahead"
    unfolding loopAt_def ahead_def by (auto simp: fa Let_def mget_def split: option.splits if_splits)
  define l0 where "l0 = \<lparr>lp_From = from, lp_Outcome = oc, lp_To = to, lp_MaxIterations = lb_MaxIterations b,
      lp_OnExhausted = lb_OnExhausted b, lp_Body = sorted_list_of_fset (ahead |\<inter>| behind), lp_Exits = []\<rparr>"
  have l': "l = l0\<lparr>lp_Exits := sort_key compareKey
      (filter (\<lambda>e. \<not> (ed_From e = [] \<or> \<not> Contains l0 (ed_From e) \<or> Contains l0 (ed_To e) \<or> isCycleExemptEdge t e)) es)\<rparr>"
    using l to assms(3) ahead(2) unfolding loopAt_def l0_def ahead(1) behind_def by (simp add: fa Let_def mget_def)
  have body: "set (lp_Body l) = fset ahead \<inter> fset behind" "lp_Body l = lp_Body l0" by (simp_all add: l' l0_def)
  have cl: "fset ahead = {x. (to, x) \<in> (adjRel out)\<^sup>*}" "fset behind = {x. (from, x) \<in> (adjRel inc)\<^sup>*}"
    by (simp_all add: ahead behind_def reachableFrom_closure)
  have "(x, y) \<in> adjRel inc" if "(y, x) \<in> adjRel out" for x y
  proof -
    have "fold (\<lambda>e (out, inc). if forwardEdge t e
             then (mappend (ed_From e) (ed_To e) out, mappend (ed_To e) (ed_From e) inc)
             else (out, inc)) es' p = (out', inc') \<Longrightarrow>
        (\<forall>x y. y \<in> set (mget [] (fst p) x) \<longrightarrow> x \<in> set (mget [] (snd p) y)) \<Longrightarrow>
        y \<in> set (mget [] out' x) \<Longrightarrow> x \<in> set (mget [] inc' y)" for es' p out' inc' x y
    proof (induction es' arbitrary: p)
      case (Cons e es')
      show ?case
        by (rule Cons.IH [OF Cons.prems(1) [unfolded fold_simps]]) (use Cons.prems(2,3) in \<open>cases p; auto simp: mappend_def\<close>)+
    qed (cases p, auto)
    from this [of es "(fmempty, fmempty)"] fa that show ?thesis by (auto simp: forwardAdjacency_def adjRel_def)
  qed
  then have "(adjRel out)\<inverse> \<subseteq> adjRel inc" by auto
  then have inv: "(to, x) \<in> (adjRel out)\<^sup>* \<Longrightarrow> (x, to) \<in> (adjRel inc)\<^sup>*" for x
    by (metis converseI rtrancl_converse rtrancl_mono subsetD)
  have "from \<in> fset ahead" using ahead(2) by simp
  with inv [of "from"] have "from \<in> set (lp_Body l)" "to \<in> set (lp_Body l)" unfolding body(1) cl by auto
  moreover have "nid |\<in>| fmdom (TemplateNodes t)" if "nid \<in> set (lp_Body l)" for nid
  proof -
    from that have "(to, nid) \<in> (adjRel (fst (forwardAdjacency t es)))\<^sup>*" unfolding body(1) cl by (simp add: fa)
    from reachable_declared [OF this to(2)] show ?thesis by (simp add: fmlookup_dom_iff)
  qed
  moreover have "ed_From e \<in> set (lp_Body l)" if "e \<in> set (lp_Exits l)" for e
  proof -
    from that have "Contains l0 (ed_From e)" by (simp add: l')
    then show ?thesis unfolding body(2) Contains_def by (subst (asm) BinarySearch_iff) (simp_all add: l0_def sorted_list_of_fset.rep_eq)
  qed
  ultimately show "properLoop t l" using bound to(1) unfolding properLoop_def by (simp add: l' l0_def)
  show "lp_From l = from" "lp_Outcome l = oc" by (simp_all add: l' l0_def)
qed

lemma distinct_concat_options:
  assumes "distinct xs" "\<And>x y. x \<in> set xs \<Longrightarrow> f x = Some y \<Longrightarrow> g y = x"
  shows "distinct (map g (concat (map (\<lambda>x. case f x of None \<Rightarrow> [] | Some y \<Rightarrow> [y]) xs)))"
    "set (map g (concat (map (\<lambda>x. case f x of None \<Rightarrow> [] | Some y \<Rightarrow> [y]) xs))) \<subseteq> set xs"
  using assms by (induction xs) (auto split: option.splits)

theorem Loops_proper:
  assumes "cleanScope t" "l \<in> set (Loops t es)"
  shows "properLoop t l"
proof -
  from assms(2) obtain "from" oc where "from |\<in>| fmdom (TemplateNodes t)" "oc |\<in>| fmdom (LoopBounds (node_of t from))"
    "loopAt t es from oc = Some l" unfolding Loops_def by (auto split: option.splits)
  moreover from this obtain b where "fmlookup (LoopBounds (node_of t from)) oc = Some b" by (auto simp: fmlookup_dom_iff)
  ultimately show ?thesis using loopAt_proper(1) [OF assms(1)] by blast
qed

lemma Loops_distinct:
  assumes "cleanScope t"
  shows "distinct (map (\<lambda>l. (lp_From l, lp_Outcome l)) (Loops t es))"
proof -
  define at where "at = (\<lambda>from. concat (map (\<lambda>oc. case loopAt t es from oc of None \<Rightarrow> [] | Some l \<Rightarrow> [l])
      (sortedKeys (LoopBounds (node_of t from)))))"
  have at: "distinct (map lp_Outcome (at from)) \<and> (\<forall>l\<in>set (at from). lp_From l = from)" if "from |\<in>| fmdom (TemplateNodes t)" for "from"
  proof -
    have "lp_Outcome l = oc \<and> lp_From l = from"
      if "oc \<in> set (sortedKeys (LoopBounds (node_of t from)))" "loopAt t es from oc = Some l" for oc l
      using loopAt_proper(2,3) [OF assms \<open>from |\<in>| fmdom (TemplateNodes t)\<close>] that by (auto simp: fmlookup_dom_iff)
    then show ?thesis
      unfolding at_def using distinct_concat_options(1) [of "sortedKeys (LoopBounds (node_of t from))" "loopAt t es from" lp_Outcome]
      by (auto split: option.splits)
  qed
  have "distinct (map (\<lambda>l. (lp_From l, lp_Outcome l)) (concat (map at xs)))"
    if "distinct xs" "set xs \<subseteq> fset (fmdom (TemplateNodes t))" for xs
    using that
  proof (induction xs)
    case (Cons x xs)
    have "distinct (map (\<lambda>l. (lp_From l, lp_Outcome l)) (at x))"
    proof -
      have "map (\<lambda>l. (lp_From l, lp_Outcome l)) (at x) = map (Pair x) (map lp_Outcome (at x))" using at [of x] Cons.prems by simp
      moreover have "distinct (map (Pair x) (map lp_Outcome (at x)))"
        using at [of x] Cons.prems by (subst distinct_map) (auto simp: inj_on_def)
      ultimately show ?thesis by metis
    qed
    moreover have "lp_From l \<in> set xs" if "l \<in> set (concat (map at xs))" for l using that at Cons.prems by auto
    ultimately show ?case using Cons at [of x] by auto
  qed simp
  then show ?thesis unfolding Loops_def at_def [symmetric] by simp
qed

end
