(* ===== verification/Prepare_Scopes.thy ===== *)
theory Prepare_Scopes
  imports Prepare_Nodes Loop_Bodies
begin

text \<open>
  The pass over nested scopes: a scope without errors prepares to one well-built index range whose routes stay on the
  level they were written on, with its loops pending.
\<close>

section \<open>Growth\<close>

text \<open>Nodes, index entries, routes and loops that are there stay as they are.\<close>

definition grows :: "preparing \<Rightarrow> preparing \<Rightarrow> bool" where
  "grows s s' \<longleftrightarrow>
     take (length (pr_nodes s)) (pr_nodes s') = pr_nodes s \<and>
     (\<forall>k i. fmlookup (pr_index s) k = Some i \<longrightarrow> fmlookup (pr_index s') k = Some i) \<and>
     (\<forall>i<length (pr_nodes s). fmlookup (pr_nexts s') i = fmlookup (pr_nexts s) i)"

text \<open>Only what later scopes may read of a node stays; the preparation of a subprocess sets its entry late.\<close>

definition steady :: "preparing \<Rightarrow> preparing \<Rightarrow> bool" where
  "steady s s' \<longleftrightarrow>
     length (pr_nodes s) \<le> length (pr_nodes s') \<and>
     (\<forall>i<length (pr_nodes s).
        n_kind (pr_nodes s' ! i) = n_kind (pr_nodes s ! i) \<and> n_scope (pr_nodes s' ! i) = n_scope (pr_nodes s ! i) \<and>
        n_parent (pr_nodes s' ! i) = n_parent (pr_nodes s ! i) \<and> fmlookup (pr_nexts s') i = fmlookup (pr_nexts s) i) \<and>
     (\<forall>k i. fmlookup (pr_index s) k = Some i \<longrightarrow> fmlookup (pr_index s') k = Some i)"

lemma grows_nth: "grows s s' \<Longrightarrow> i < length (pr_nodes s) \<Longrightarrow> pr_nodes s' ! i = pr_nodes s ! i"
  unfolding grows_def by (metis nth_take)

lemma grows_length: "grows s s' \<Longrightarrow> length (pr_nodes s) \<le> length (pr_nodes s')"
  unfolding grows_def by (metis length_take min.cobounded2 min.commute)

lemma grows_refl [simp]: "grows s s"
  by (simp add: grows_def)

lemma grows_trans [trans]:
  assumes "grows a b" "grows b c"
  shows "grows a c"
proof -
  have "take (length (pr_nodes a)) (pr_nodes c) = take (length (pr_nodes a)) (take (length (pr_nodes b)) (pr_nodes c))"
    using grows_length [OF assms(1)] by simp
  also have "\<dots> = pr_nodes a" using assms by (simp add: grows_def)
  finally show ?thesis using assms grows_length [OF assms(1)] by (auto simp: grows_def)
qed

lemma grows_steady: "grows s s' \<Longrightarrow> steady s s'"
  using grows_nth grows_length by (auto simp: steady_def grows_def)

lemma steady_refl [simp]: "steady s s"
  by (simp add: steady_def)

lemma steady_trans: "steady a b \<Longrightarrow> steady b c \<Longrightarrow> steady a c"
  by (auto simp: steady_def)

section \<open>Routes and pending loops\<close>

abbreviation level :: "preparing \<Rightarrow> nat option \<Rightarrow> string \<Rightarrow> bool" where
  "level s sc k \<equiv> (\<exists>j<length (pr_nodes s). fmlookup (pr_index s) k = Some j \<and> n_scope (pr_nodes s ! j) = sc \<and> n_parent (pr_nodes s ! j) = None)"

text \<open>Every route of a node leads to a node of the same level.\<close>

definition routed :: "preparing \<Rightarrow> nat \<Rightarrow> bool" where
  "routed s i \<longleftrightarrow>
     (n_parent (pr_nodes s ! i) = None \<and> n_kind (pr_nodes s ! i) \<noteq> definitionSubprocessExit \<longrightarrow>
      (\<exists>nx. fmlookup (pr_nexts s) i = Some nx \<and>
         (\<forall>oc to. fmlookup nx oc = Some to \<longrightarrow> level s (n_scope (pr_nodes s ! i)) to)))"

definition pendingOk :: "preparing \<Rightarrow> pendingLoop \<Rightarrow> bool" where
  "pendingOk s l \<longleftrightarrow>
     (\<exists>i nx. i < length (pr_nodes s) \<and> fmlookup (pr_index s) (pl_from l) = Some i \<and> n_kind (pr_nodes s ! i) = definitionDecision \<and>
        n_parent (pr_nodes s ! i) = None \<and> fmlookup (pr_nexts s) i = Some nx \<and> fmlookup nx (pl_outcome l) = Some (pl_to l) \<and>
        (\<forall>k\<in>set (pl_body l). level s (n_scope (pr_nodes s ! i)) k)) \<and>
     pl_from l \<in> set (pl_body l) \<and> pl_to l \<in> set (pl_body l) \<and> fst ` set (pl_exits l) \<subseteq> set (pl_body l) \<and>
     2 \<le> pl_maxIterations l \<and> pl_maxIterations l \<le> 100"

lemma level_steady: "steady s s' \<Longrightarrow> level s sc k \<Longrightarrow> level s' sc k"
  unfolding steady_def by (metis (no_types, lifting) order_less_le_trans)

lemma routed_steady:
  assumes "steady s s'" "i < length (pr_nodes s)" "routed s i"
  shows "routed s' i"
proof -
  have same: "n_kind (pr_nodes s' ! i) = n_kind (pr_nodes s ! i)" "n_scope (pr_nodes s' ! i) = n_scope (pr_nodes s ! i)"
    "n_parent (pr_nodes s' ! i) = n_parent (pr_nodes s ! i)" "fmlookup (pr_nexts s') i = fmlookup (pr_nexts s) i"
    using assms(1,2) by (auto simp: steady_def)
  show ?thesis using assms(3) level_steady [OF assms(1)] unfolding routed_def same by metis
qed

lemma pendingOk_steady:
  assumes "steady s s'" "pendingOk s l"
  shows "pendingOk s' l"
proof -
  from assms(2) obtain i nx where i: "i < length (pr_nodes s)" "fmlookup (pr_index s) (pl_from l) = Some i"
    "n_kind (pr_nodes s ! i) = definitionDecision" "n_parent (pr_nodes s ! i) = None" "fmlookup (pr_nexts s) i = Some nx"
    "fmlookup nx (pl_outcome l) = Some (pl_to l)" and body: "\<forall>k\<in>set (pl_body l). level s (n_scope (pr_nodes s ! i)) k"
    by (auto simp: pendingOk_def)
  have same: "n_kind (pr_nodes s' ! i) = n_kind (pr_nodes s ! i)" "n_scope (pr_nodes s' ! i) = n_scope (pr_nodes s ! i)"
    "n_parent (pr_nodes s' ! i) = n_parent (pr_nodes s ! i)" "fmlookup (pr_nexts s') i = fmlookup (pr_nexts s) i"
    "fmlookup (pr_index s') (pl_from l) = Some i" "i < length (pr_nodes s')"
    using assms(1) i(1,2) by (auto simp: steady_def)
  have "\<forall>k\<in>set (pl_body l). level s' (n_scope (pr_nodes s' ! i)) k" using body level_steady [OF assms(1)] unfolding same by blast
  then show ?thesis using assms(2) i same unfolding pendingOk_def by (metis (no_types, lifting))
qed

lemma namespacedNext_lookup:
  "fmlookup (namespacedNext nx prefix) oc = map_option (\<lambda>target. prefix @ target) (fmlookup nx oc)"
  by (cases "fmlookup nx oc") (simp_all add: namespacedNext_def)

abbreviation loopKey :: "pendingLoop \<Rightarrow> string \<times> string" where
  "loopKey l \<equiv> (pl_from l, pl_outcome l)"

text \<open>The loops a pass adds: each pending on the nodes of the range, each from a node that satisfies a predicate.\<close>

definition addsLoops :: "(definitionNode \<Rightarrow> bool) \<Rightarrow> preparing \<Rightarrow> preparing \<Rightarrow> bool" where
  "addsLoops P s s' \<longleftrightarrow>
     (\<exists>ls. pr_loops s' = pr_loops s @ ls \<and> distinct (map loopKey ls) \<and>
        (\<forall>l\<in>set ls. pendingOk s' l \<and>
           (\<exists>i. fmlookup (pr_index s') (pl_from l) = Some i \<and> length (pr_nodes s) \<le> i \<and> i < length (pr_nodes s') \<and> P (pr_nodes s' ! i))))"

lemma addsLoops_none: "pr_loops s' = pr_loops s \<Longrightarrow> addsLoops P s s'"
  by (auto simp: addsLoops_def)

lemma addsLoops_append:
  assumes "addsLoops P s s1" "addsLoops P s1 s2" "grows s s1" "grows s1 s2"
  shows "addsLoops P s s2"
proof -
  from assms(1) obtain ls where ls: "pr_loops s1 = pr_loops s @ ls" "distinct (map loopKey ls)"
    "\<And>l. l \<in> set ls \<Longrightarrow> pendingOk s1 l \<and>
      (\<exists>i. fmlookup (pr_index s1) (pl_from l) = Some i \<and> length (pr_nodes s) \<le> i \<and> i < length (pr_nodes s1) \<and> P (pr_nodes s1 ! i))"
    by (auto simp: addsLoops_def)
  from assms(2) obtain ms where ms: "pr_loops s2 = pr_loops s1 @ ms" "distinct (map loopKey ms)"
    "\<And>l. l \<in> set ms \<Longrightarrow> pendingOk s2 l \<and>
      (\<exists>i. fmlookup (pr_index s2) (pl_from l) = Some i \<and> length (pr_nodes s1) \<le> i \<and> i < length (pr_nodes s2) \<and> P (pr_nodes s2 ! i))"
    by (auto simp: addsLoops_def)
  have early: "pendingOk s2 l \<and>
      (\<exists>i. fmlookup (pr_index s2) (pl_from l) = Some i \<and> length (pr_nodes s) \<le> i \<and> i < length (pr_nodes s1) \<and> P (pr_nodes s2 ! i))"
    if "l \<in> set ls" for l
  proof -
    from ls(3) [OF that] obtain i where "pendingOk s1 l" "fmlookup (pr_index s1) (pl_from l) = Some i"
      "length (pr_nodes s) \<le> i" "i < length (pr_nodes s1)" "P (pr_nodes s1 ! i)" by blast
    moreover have "fmlookup (pr_index s2) (pl_from l) = Some i" using calculation(2) assms(4) by (simp add: grows_def)
    ultimately show ?thesis using pendingOk_steady [OF grows_steady [OF assms(4)]] grows_nth [OF assms(4)] by auto
  qed
  have "pl_from l \<noteq> pl_from m" if "l \<in> set ls" "m \<in> set ms" for l m
    using early [OF that(1)] ms(3) [OF that(2)] by fastforce
  then have "distinct (map loopKey (ls @ ms))" using ls(2) ms(2) by (auto simp: image_iff)
  moreover have "pr_loops s2 = pr_loops s @ (ls @ ms)" using ls(1) ms(1) by simp
  moreover have "pendingOk s2 l \<and>
      (\<exists>i. fmlookup (pr_index s2) (pl_from l) = Some i \<and> length (pr_nodes s) \<le> i \<and> i < length (pr_nodes s2) \<and> P (pr_nodes s2 ! i))"
    if "l \<in> set (ls @ ms)" for l
    using that early [of l] ms(3) [of l] grows_length [OF assms(3)] grows_length [OF assms(4)]
    by (auto intro: order_less_le_trans le_trans)
  ultimately show ?thesis unfolding addsLoops_def by blast
qed

end
