(* ===== verification/Prepare_Levels.thy ===== *)
theory Prepare_Levels
  imports Prepare_Scopes
begin

text \<open>
  The induction over nested scopes: what one authored node adds (\<open>stepped\<close>) and what a whole scope adds
  (\<open>preparedScope\<close>) to the preparation state.
\<close>

section \<open>One authored node\<close>

definition levelNode :: "Template \<Rightarrow> string \<Rightarrow> nat option \<Rightarrow> preparing \<Rightarrow> string \<Rightarrow> nat \<Rightarrow> bool" where
  "levelNode t prefix scope s nid i \<longleftrightarrow>
     i < length (pr_nodes s) \<and> fmlookup (pr_index s) (prefix @ nid) = Some i \<and>
     n_scope (pr_nodes s ! i) = scope \<and> n_parent (pr_nodes s ! i) = None \<and>
     (n_kind (pr_nodes s ! i) = definitionDecision \<longleftrightarrow> Type (node_of t nid) = NodeTypeDecision) \<and>
     (n_kind (pr_nodes s ! i) \<noteq> definitionSubprocessExit \<longrightarrow>
        fmlookup (pr_nexts s) i = Some (namespacedNext (NextOf (node_of t nid)) prefix))"

lemma levelNode_steady: "steady s s' \<Longrightarrow> levelNode t prefix scope s nid i \<Longrightarrow> levelNode t prefix scope s' nid i"
  by (auto simp: steady_def levelNode_def)

definition stepped :: "Template \<Rightarrow> string \<Rightarrow> nat option \<Rightarrow> string \<Rightarrow> preparing \<Rightarrow> preparing \<Rightarrow> bool" where
  "stepped t prefix scope nid s s' \<longleftrightarrow>
     grows s s' \<and> length (pr_nodes s) < length (pr_nodes s') \<and>
     builtRange (pr_nodes s') (length (pr_nodes s)) (length (pr_nodes s')) scope \<and>
     levelNode t prefix scope s' nid (length (pr_nodes s)) \<and>
     (\<forall>i. length (pr_nodes s) < i \<and> i < length (pr_nodes s') \<longrightarrow> routed s' i) \<and>
     addsLoops (\<lambda>n. n_scope n \<noteq> scope) s s'"

definition preparedScope :: "Template \<Rightarrow> string \<Rightarrow> nat option \<Rightarrow> preparing \<Rightarrow> preparing \<Rightarrow> bool" where
  "preparedScope t prefix scope s s' \<longleftrightarrow>
     grows s s' \<and> builtRange (pr_nodes s') (length (pr_nodes s)) (length (pr_nodes s')) scope \<and>
     (\<forall>i. length (pr_nodes s) \<le> i \<and> i < length (pr_nodes s') \<longrightarrow> routed s' i) \<and>
     addsLoops (\<lambda>n. True) s s' \<and> Start t \<in> nodeSet t \<and>
     (\<forall>nid\<in>nodeSet t. \<exists>i\<ge>length (pr_nodes s). levelNode t prefix scope s' nid i)"

text \<open>The state right after a node is appended.\<close>

definition entered :: "Template \<Rightarrow> string \<Rightarrow> string \<Rightarrow> definitionNode \<Rightarrow> preparing \<Rightarrow> preparing \<Rightarrow> bool" where
  "entered t prefix nid prepared s s2 \<longleftrightarrow>
     pr_nodes s2 = pr_nodes s @ [prepared] \<and> grows s s2 \<and> pr_loops s2 = pr_loops s \<and>
     fmlookup (pr_index s2) (prefix @ nid) = Some (length (pr_nodes s)) \<and>
     (n_kind prepared \<noteq> definitionSubprocessExit \<longrightarrow>
        fmlookup (pr_nexts s2) (length (pr_nodes s)) = Some (namespacedNext (NextOf (node_of t nid)) prefix))"

lemma entered_append:
  assumes "appendNode prepared s = Inr s1" "n_id prepared = prefix @ nid"
    "s2 = (if n_kind prepared = definitionSubprocessExit then s1
           else s1\<lparr>pr_nexts := fmupd (length (pr_nodes s)) (namespacedNext (NextOf (node_of t nid)) prefix) (pr_nexts s1)\<rparr>)"
  shows "entered t prefix nid prepared s s2"
  using assms(2) appendNode_nodes [OF assms(1)] unfolding assms(3) entered_def grows_def by auto

lemma entered_levelNode:
  assumes "entered t prefix nid prepared s s2" "grows s2 s'"
    and f: "prepareNode fb params prefix scope owner nid (node_of t nid) = Inr prepared"
    and same: "n_scope (pr_nodes s' ! length (pr_nodes s)) = n_scope prepared"
      "n_parent (pr_nodes s' ! length (pr_nodes s)) = n_parent prepared"
      "n_kind (pr_nodes s' ! length (pr_nodes s)) = n_kind prepared"
  shows "levelNode t prefix scope s' nid (length (pr_nodes s))"
  using assms(1,2) same prepareNode_fields [OF f] grows_length [OF assms(2)]
  by (auto simp: levelNode_def entered_def grows_def)

lemma foldR_appendStage_frame:
  assumes "foldR (appendStage fb params scope p node) specs s = Inr s'"
  shows "pr_nexts s' = pr_nexts s \<and> pr_loops s' = pr_loops s \<and>
    (\<forall>k i. fmlookup (pr_index s) k = Some i \<longrightarrow> fmlookup (pr_index s') k = Some i)"
proof (rule foldR_invariant [OF assms])
  fix spec x y
  assume x: "pr_nexts x = pr_nexts s \<and> pr_loops x = pr_loops s \<and>
      (\<forall>k i. fmlookup (pr_index s) k = Some i \<longrightarrow> fmlookup (pr_index x) k = Some i)"
    and "appendStage fb params scope p node spec x = Inr y"
  then obtain child x1 where x1: "appendNode child x = Inr x1"
    and y: "y = updateNode p (adoptStage (ss_Stage spec) (length (pr_nodes x))) x1"
    by (auto simp: appendStage_def bindR_Inr_iff Let_def)
  show "pr_nexts y = pr_nexts s \<and> pr_loops y = pr_loops s \<and>
      (\<forall>k i. fmlookup (pr_index s) k = Some i \<longrightarrow> fmlookup (pr_index y) k = Some i)"
    using x appendNode_nodes(2-5) [OF x1] by (auto simp: y updateNode_def)
qed simp

lemma step_compound:
  assumes e: "entered t prefix nid prepared s s2"
    and f: "prepareNode fb params prefix scope owner nid (node_of t nid) = Inr prepared"
    and kind: "n_kind prepared = definitionCompound"
    and stages: "appendStages fb params scope (length (pr_nodes s)) fid (node_of t nid) s2 = Inr s'"
    and ok: "budgetOk (node_of t nid)" "plainNode prepared" "below scope (length (pr_nodes s))"
  shows "stepped t prefix scope nid s s'"
proof -
  let ?a = "length (pr_nodes s)"
  note pf = prepareNode_fields [OF f]
  have fold: "foldR (appendStage fb params scope ?a (node_of t nid)) (ExpandNode fid (node_of t nid)) s2 = Inr s'"
    using stages by (auto simp: appendStages_def bindR_Inr_iff Let_def split: if_splits)
  have n2: "pr_nodes s2 = pr_nodes s @ [prepared]" using e by (simp add: entered_def)
  have c: "IsCompound (node_of t nid)" using pf(7) kind by simp
  note built = compound_built [OF fold n2 refl kind pf(3,4) ok(2) pf(2) c ok(1,3)]
  note frame = foldR_appendStage_frame [OF fold]
  have g: "grows s s'" using e frame built(2) by (auto simp: entered_def grows_def)
  have "levelNode t prefix scope s' nid ?a"
    using e frame built(3,5,6,7) pf(6) kind by (auto simp: levelNode_def entered_def)
  moreover have "routed s' i" if "?a < i" "i < length (pr_nodes s')" for i using built(8) [OF that] by (auto simp: routed_def)
  moreover have "addsLoops (\<lambda>n. n_scope n \<noteq> scope) s s'" using frame e by (intro addsLoops_none) (simp add: entered_def)
  ultimately show ?thesis using g built(1,3) by (simp add: stepped_def)
qed

lemma step_single:
  assumes e: "entered t prefix nid prepared s s'"
    and f: "prepareNode fb params prefix scope owner nid (node_of t nid) = Inr prepared"
    and kind: "n_kind prepared \<noteq> definitionCompound" "n_kind prepared \<noteq> definitionSubprocess"
    and ok: "plainNode prepared" "below scope (length (pr_nodes s))"
  shows "stepped t prefix scope nid s s'"
proof -
  let ?a = "length (pr_nodes s)"
  note pf = prepareNode_fields [OF f]
  have n: "pr_nodes s' ! ?a = prepared" "length (pr_nodes s') = Suc ?a" using e by (simp_all add: entered_def)
  have "builtRange (pr_nodes s') ?a (Suc ?a) scope"
    using pf kind ok by (intro builtRange_single) (simp_all add: n freshNode_def)
  moreover have "levelNode t prefix scope s' nid ?a" by (rule entered_levelNode [OF e _ f]) (simp_all add: n)
  moreover have "addsLoops (\<lambda>n. n_scope n \<noteq> scope) s s'" using e by (intro addsLoops_none) (simp add: entered_def)
  ultimately show ?thesis using e by (auto simp: stepped_def n(2) entered_def)
qed

lemma step_subprocess:
  assumes e: "entered t prefix nid prepared s s2"
    and f: "prepareNode fb params prefix scope owner nid (node_of t nid) = Inr prepared"
    and kind: "n_kind prepared = definitionSubprocess"
    and nested: "preparedScope body (prefix @ nid @ ''/'') (Some (length (pr_nodes s))) s2 s3"
    and finish: "finishSubprocess (length (pr_nodes s)) (prefix @ nid) body s3 = Inr s'"
    and ok: "plainNode prepared" "below scope (length (pr_nodes s))"
  shows "stepped t prefix scope nid s s'"
proof -
  let ?a = "length (pr_nodes s)" and ?b = "length (pr_nodes s3)"
  note pf = prepareNode_fields [OF f]
  from finish obtain en where en: "fmlookup (pr_index s3) (prefix @ nid @ ''/'' @ Start body) = Some en"
    and s': "s' = updateNode ?a (\<lambda>n. n\<lparr>n_entry := Some en, n_scopeEnd := Some ?b\<rparr>) s3"
    by (auto simp: finishSubprocess_def split: option.splits)
  have n2: "pr_nodes s2 = pr_nodes s @ [prepared]" "length (pr_nodes s2) = Suc ?a" using e by (simp_all add: entered_def)
  have g: "grows s s2" "grows s2 s3" using e nested by (simp_all add: entered_def preparedScope_def)
  have b: "Suc ?a \<le> ?b" using grows_length [OF g(2)] n2 by simp
  have "pr_nodes s3 ! ?a = prepared" using grows_nth [OF g(2), of ?a] n2 by simp
  then have n': "pr_nodes s' ! ?a = prepared\<lparr>n_entry := Some en, n_scopeEnd := Some ?b\<rparr>" "length (pr_nodes s') = ?b"
    and other: "i \<noteq> ?a \<Longrightarrow> pr_nodes s' ! i = pr_nodes s3 ! i" for i
    using b by (simp_all add: s' updateNode_def)
  have frame: "pr_index s' = pr_index s3" "pr_nexts s' = pr_nexts s3" "pr_loops s' = pr_loops s3" by (simp_all add: s' updateNode_def)
  have st: "steady s3 s'"
  proof -
    have "n_kind (pr_nodes s' ! i) = n_kind (pr_nodes s3 ! i) \<and> n_scope (pr_nodes s' ! i) = n_scope (pr_nodes s3 ! i) \<and>
        n_parent (pr_nodes s' ! i) = n_parent (pr_nodes s3 ! i)" for i
      using other [of i] n'(1) \<open>pr_nodes s3 ! ?a = prepared\<close> by (cases "i = ?a") simp_all
    then show ?thesis using n'(2) by (simp add: steady_def frame)
  qed
  have "take ?a (pr_nodes s') = take ?a (pr_nodes s3)" using b by (simp add: s' updateNode_def)
  then have gs: "grows s s'" using grows_trans [OF g] by (simp add: grows_def frame)
  from nested obtain i where "i \<ge> Suc ?a" "levelNode body (prefix @ nid @ ''/'') (Some ?a) s3 (Start body) i"
    unfolding preparedScope_def n2(2) by blast
  with en have entry: "Suc ?a \<le> en" "en < ?b" "n_scope (pr_nodes s3 ! en) = Some ?a" "n_parent (pr_nodes s3 ! en) = None"
    by (auto simp: levelNode_def)
  have body: "builtRange (pr_nodes s3) (Suc ?a) ?b (Some ?a)" using nested by (simp add: preparedScope_def n2(2))
  have "builtRange (pr_nodes s') (Suc ?a) ?b (Some ?a)" by (rule builtRange_cong [OF body]) (simp add: other)
  moreover have "subprocessNode (pr_nodes s') ?b ?a"
    using entry pf(3) other [of en] by (simp add: subprocessNode_def n'(1))
  moreover have "plainNode (pr_nodes s' ! ?a)" using ok(1) by (simp add: n'(1) plainNode_def runsCommand_def)
  ultimately have "builtRange (pr_nodes s') ?a ?b scope"
    by - (rule builtRange_subprocess, use pf(2,4) kind ok(2) b in \<open>simp_all add: n'(1) freshNode_def\<close>)
  moreover have "levelNode t prefix scope s' nid ?a"
    using levelNode_steady [OF st] entered_levelNode [OF e g(2) f] \<open>pr_nodes s3 ! ?a = prepared\<close> by simp
  moreover have "routed s' i" if "?a < i" "i < ?b" for i
    using nested that routed_steady [OF st] by (simp add: preparedScope_def n2(2))
  moreover have "addsLoops (\<lambda>n. n_scope n \<noteq> scope) s s'"
  proof -
    from nested obtain ls where ls: "pr_loops s3 = pr_loops s2 @ ls" "distinct (map loopKey ls)"
      "\<And>l. l \<in> set ls \<Longrightarrow> pendingOk s3 l \<and>
        (\<exists>i. fmlookup (pr_index s3) (pl_from l) = Some i \<and> Suc ?a \<le> i \<and> i < ?b)"
      unfolding preparedScope_def addsLoops_def n2(2) by blast
    have "n_scope (pr_nodes s' ! i) \<noteq> scope" if "Suc ?a \<le> i" "i < ?b" for i
      using scopedRangeD(1) [of "pr_nodes s3" "Suc ?a" ?b "Some ?a" i] body that ok(2) other [of i]
      by (auto simp: builtRange_def scopedNode_def below_def)
    then have "pendingOk s' l \<and> (\<exists>i. fmlookup (pr_index s') (pl_from l) = Some i \<and> ?a \<le> i \<and> i < ?b \<and> n_scope (pr_nodes s' ! i) \<noteq> scope)"
      if "l \<in> set ls" for l
      using ls(3) [OF that] pendingOk_steady [OF st] unfolding frame by fastforce
    then show ?thesis using ls(1,2) e unfolding addsLoops_def frame n'(2) by (auto simp: entered_def)
  qed
  ultimately show ?thesis using gs b by (simp add: stepped_def n'(2))
qed

lemma scopeStep_stepped:
  assumes step: "scopeStep nested fb t params prefix scope owner nid s = Inr s'"
    and ok: "budgetOk (node_of t nid)" "owner \<noteq> None \<Longrightarrow> scope \<noteq> None" "below scope (length (pr_nodes s))"
    and nested: "\<And>body ps s2 s3. Type (node_of t nid) = NodeTypeSubprocess \<Longrightarrow> Body (SubprocessOf (node_of t nid)) = Some body \<Longrightarrow>
      nested body ps (prefix @ nid @ ''/'') (Some (length (pr_nodes s))) (Some (node_of t nid)) s2 = Inr s3 \<Longrightarrow>
      length (pr_nodes s) < length (pr_nodes s2) \<Longrightarrow>
      preparedScope body (prefix @ nid @ ''/'') (Some (length (pr_nodes s))) s2 s3"
  shows "stepped t prefix scope nid s s'"
proof -
  let ?node = "node_of t nid" and ?fid = "prefix @ nid" and ?i = "length (pr_nodes s)"
  from step obtain prepared s1 s2 where f: "prepareNode fb params prefix scope owner nid ?node = Inr prepared"
    and s1: "appendNode prepared s = Inr s1"
    and s2: "s2 = (if n_kind prepared = definitionSubprocessExit then s1
                   else s1\<lparr>pr_nexts := fmupd ?i (namespacedNext (NextOf ?node) prefix) (pr_nexts s1)\<rparr>)"
    and s': "(if n_kind prepared = definitionCompound then appendStages fb params scope ?i ?fid ?node s2
          else if n_kind prepared \<noteq> definitionSubprocess then Inr s2
          else (case Body (SubprocessOf ?node) of
                  None \<Rightarrow> Inl ErrInvalidDefinition
                | Some body \<Rightarrow>
                    bindR (nested body (case SubprocessOf ?node of None \<Rightarrow> fmempty | Some sp \<Rightarrow> BindInputs sp body params)
                             (?fid @ ''/'') (Some ?i) (Some ?node) s2) (finishSubprocess ?i ?fid body))) = Inr s'"
    by (auto simp: scopeStep_def Let_def bindR_Inr_iff)
  have e: "entered t prefix nid prepared s s2" by (rule entered_append [OF s1 prepareNode_fields(1) [OF f] s2])
  have plain: "plainNode prepared" by (rule prepareNode_plain [OF f ok(1,2)])
  consider (compound) "n_kind prepared = definitionCompound" | (body) "n_kind prepared = definitionSubprocess"
    | (single) "n_kind prepared \<noteq> definitionCompound" "n_kind prepared \<noteq> definitionSubprocess" by blast
  then show ?thesis
  proof cases
    case compound
    then show ?thesis using step_compound [OF e f compound _ ok(1) plain ok(3)] s' by simp
  next
    case single
    then have "s' = s2" using s' by simp
    with step_single [OF e f single plain ok(3)] show ?thesis by simp
  next
    case body
    then obtain b s3 where b: "Body (SubprocessOf ?node) = Some b"
      and s3: "nested b (case SubprocessOf ?node of None \<Rightarrow> fmempty | Some sp \<Rightarrow> BindInputs sp b params)
          (prefix @ nid @ ''/'') (Some ?i) (Some ?node) s2 = Inr s3" and fin: "finishSubprocess ?i ?fid b s3 = Inr s'"
      using s' by (auto simp: bindR_Inr_iff split: option.splits)
    have "Type ?node = NodeTypeSubprocess" using prepareNode_fields(8) [OF f] body by simp
    from nested [OF this b s3] e have "preparedScope b (prefix @ nid @ ''/'') (Some ?i) s2 s3" by (simp add: entered_def)
    from step_subprocess [OF e f body this fin plain ok(3)] show ?thesis .
  qed
qed

section \<open>Scopes\<close>

definition checkedScope :: "Template \<Rightarrow> bool" where
  "checkedScope t \<longleftrightarrow> (\<exists>i p. checkScope t i p = [])"

lemma checked_budget: "checkedScope t \<Longrightarrow> nid \<in> nodeSet t \<Longrightarrow> budgetOk (node_of t nid)"
  using checkScope_node(1) [of t _ _ nid] retryDiagnostics_budget
  unfolding checkedScope_def nodeSet_def nodeDiagnostics_def by blast

lemma checked_body:
  "checkedScope t \<Longrightarrow> nid \<in> nodeSet t \<Longrightarrow> Type (node_of t nid) = NodeTypeSubprocess \<Longrightarrow>
   Body (SubprocessOf (node_of t nid)) = Some body \<Longrightarrow> checkedScope body"
  using checkScope_node(2) [of t _ _ nid body] unfolding checkedScope_def nodeSet_def scopeBody_def by fastforce

text \<open>The scope's nodes so far; those written on this level are routed once all of them are there.\<close>

definition levelInv :: "Template \<Rightarrow> string \<Rightarrow> nat option \<Rightarrow> preparing \<Rightarrow> string list \<Rightarrow> preparing \<Rightarrow> bool" where
  "levelInv t prefix scope s done x \<longleftrightarrow>
     grows s x \<and> builtRange (pr_nodes x) (length (pr_nodes s)) (length (pr_nodes x)) scope \<and>
     (\<forall>nid\<in>set done. \<exists>i\<ge>length (pr_nodes s). levelNode t prefix scope x nid i) \<and>
     (\<forall>i. length (pr_nodes s) \<le> i \<and> i < length (pr_nodes x) \<longrightarrow> (\<exists>nid\<in>set done. levelNode t prefix scope x nid i) \<or> routed x i) \<and>
     addsLoops (\<lambda>n. n_scope n \<noteq> scope) s x"

lemma levelInv_step:
  assumes inv: "levelInv t prefix scope s done x" and step: "stepped t prefix scope nid x y" and b: "below scope (length (pr_nodes s))"
  shows "levelInv t prefix scope s (done @ [nid]) y"
proof -
  let ?a = "length (pr_nodes s)" and ?m = "length (pr_nodes x)" and ?b = "length (pr_nodes y)"
  have g: "grows s x" "grows x y" using inv step by (simp_all add: levelInv_def stepped_def)
  note st = grows_steady [OF g(2)]
  have "builtRange (pr_nodes y) ?a ?m scope"
    by (rule builtRange_cong [of "pr_nodes x"]) (use inv grows_nth [OF g(2)] in \<open>auto simp: levelInv_def\<close>)
  then have "builtRange (pr_nodes y) ?a ?b scope"
    by - (rule builtRange_append [of _ _ ?m], use step grows_length [OF g(1)] grows_length [OF g(2)] b in \<open>simp_all add: stepped_def\<close>)
  moreover have "\<exists>i\<ge>?a. levelNode t prefix scope y n i" if "n \<in> set (done @ [nid])" for n
    using that inv step levelNode_steady [OF st] grows_length [OF g(1)] unfolding levelInv_def stepped_def by auto blast
  moreover have "(\<exists>n\<in>set (done @ [nid]). levelNode t prefix scope y n i) \<or> routed y i" if "?a \<le> i" "i < ?b" for i
  proof (cases "i < ?m")
    case True
    then have "(\<exists>nid\<in>set done. levelNode t prefix scope x nid i) \<or> routed x i" using inv that(1) by (simp add: levelInv_def)
    then show ?thesis
    proof
      assume "\<exists>nid\<in>set done. levelNode t prefix scope x nid i"
      then obtain n where "n \<in> set done" "levelNode t prefix scope x n i" by blast
      with levelNode_steady [OF st this(2)] show ?thesis by (intro disjI1 bexI [of _ n]) simp_all
    qed (simp add: routed_steady [OF st True])
  next
    case False
    then show ?thesis using that step by (cases "i = ?m") (auto simp: stepped_def)
  qed
  moreover have "addsLoops (\<lambda>n. n_scope n \<noteq> scope) s y"
    using addsLoops_append inv step g by (auto simp: levelInv_def stepped_def)
  ultimately show ?thesis using grows_trans [OF g] by (simp add: levelInv_def)
qed

lemma level_routes:
  assumes "cleanScope t" "set order = nodeSet t" "levelInv t prefix scope s order x" "levelNode t prefix scope x nid i" "nid \<in> nodeSet t"
  shows "routed x i"
  unfolding routed_def
proof (intro impI)
  assume k: "n_parent (pr_nodes x ! i) = None \<and> n_kind (pr_nodes x ! i) \<noteq> definitionSubprocessExit"
  then have nx: "fmlookup (pr_nexts x) i = Some (namespacedNext (NextOf (node_of t nid)) prefix)" "n_scope (pr_nodes x ! i) = scope"
    using assms(4) by (simp_all add: levelNode_def)
  have "level x scope to" if to: "fmlookup (namespacedNext (NextOf (node_of t nid)) prefix) oc = Some to" for oc to
  proof -
    from to obtain target where "fmlookup (NextOf (node_of t nid)) oc = Some target" "to = prefix @ target"
      by (auto simp: namespacedNext_lookup)
    moreover from clean_target [OF assms(1) _ this(1)] assms(5) have "target \<in> set order" by (simp add: nodeSet_def assms(2))
    ultimately obtain j where "levelNode t prefix scope x target j" using assms(3) by (auto simp: levelInv_def)
    then show ?thesis using \<open>to = prefix @ target\<close> by (auto simp: levelNode_def)
  qed
  with nx show "\<exists>nx. fmlookup (pr_nexts x) i = Some nx \<and> (\<forall>oc to. fmlookup nx oc = Some to \<longrightarrow> level x (n_scope (pr_nodes x ! i)) to)"
    by auto
qed

lemma scopeLoops_pending:
  assumes clean: "cleanScope t" and order: "set order = nodeSet t" and inv: "levelInv t prefix scope s order x"
    and l: "l \<in> set (scopeLoops t prefix)"
  shows "pendingOk x l \<and>
    (\<exists>i. fmlookup (pr_index x) (pl_from l) = Some i \<and> length (pr_nodes s) \<le> i \<and> i < length (pr_nodes x) \<and> n_scope (pr_nodes x ! i) = scope)"
proof -
  from l obtain lp where lp: "lp \<in> set (Loops t (NormalizeEdges t))"
    and l': "l = \<lparr>pl_from = prefix @ lp_From lp, pl_outcome = lp_Outcome lp, pl_to = prefix @ lp_To lp,
               pl_maxIterations = lp_MaxIterations lp, pl_onExhausted = lp_OnExhausted lp,
               pl_body = map (\<lambda>nid. prefix @ nid) (lp_Body lp),
               pl_exits = map (\<lambda>e. (prefix @ ed_From e, ed_Outcome e)) (lp_Exits lp)\<rparr>"
    by (auto simp: scopeLoops_def)
  note p = Loops_proper [OF clean lp, unfolded properLoop_def]
  have at: "\<exists>i\<ge>length (pr_nodes s). levelNode t prefix scope x nid i" if "nid \<in> set (lp_Body lp)" for nid
  proof -
    from that p have "nid \<in> set order" by (simp add: order nodeSet_def)
    with inv show ?thesis by (simp add: levelInv_def)
  qed
  then obtain i where i: "i \<ge> length (pr_nodes s)" "levelNode t prefix scope x (lp_From lp) i" using p by blast
  have kind: "n_kind (pr_nodes x ! i) = definitionDecision" using i(2) p by (simp add: levelNode_def)
  then have nx: "fmlookup (pr_nexts x) i = Some (namespacedNext (NextOf (node_of t (lp_From lp))) prefix)"
    using i(2) by (simp add: levelNode_def)
  have body: "level x scope k" if "k \<in> set (pl_body l)" for k
    using that at by (force simp: l' levelNode_def)
  have "fst ` set (pl_exits l) \<subseteq> set (pl_body l)" using p by (auto simp: l')
  moreover have "n_scope (pr_nodes x ! i) = scope" "i < length (pr_nodes x)" "fmlookup (pr_index x) (pl_from l) = Some i"
    "n_parent (pr_nodes x ! i) = None" using i(2) by (simp_all add: levelNode_def l')
  moreover have "fmlookup (namespacedNext (NextOf (node_of t (lp_From lp))) prefix) (pl_outcome l) = Some (pl_to l)"
    using p by (simp add: namespacedNext_lookup l')
  moreover have "pl_from l \<in> set (pl_body l)" "pl_to l \<in> set (pl_body l)" "2 \<le> pl_maxIterations l" "pl_maxIterations l \<le> 100"
    using p by (simp_all add: l')
  ultimately show ?thesis using i(1) kind nx body unfolding pendingOk_def by blast
qed

lemma scopeLoops_distinct: "cleanScope t \<Longrightarrow> distinct (map loopKey (scopeLoops t prefix))"
proof -
  assume "cleanScope t"
  then have d: "distinct (map (\<lambda>l. (lp_From l, lp_Outcome l)) (Loops t (NormalizeEdges t)))" by (rule Loops_distinct)
  have "map loopKey (scopeLoops t prefix) =
      map (\<lambda>(f, oc). (prefix @ f, oc)) (map (\<lambda>l. (lp_From l, lp_Outcome l)) (Loops t (NormalizeEdges t)))"
    by (simp add: scopeLoops_def)
  moreover have "distinct (map (\<lambda>(f, oc). (prefix @ f, oc)) (map (\<lambda>l. (lp_From l, lp_Outcome l)) (Loops t (NormalizeEdges t))))"
    using d by (subst distinct_map) (auto simp: inj_on_def)
  ultimately show ?thesis by metis
qed

text \<open>Every scope of an eligible template is prepared this way.\<close>

theorem prepareScope_prepared:
  assumes "prepareScope fb t params prefix scope owner s = Inr s'" "cleanScope t" "checkedScope t"
    "owner \<noteq> None \<Longrightarrow> scope \<noteq> None" "below scope (length (pr_nodes s))"
  shows "preparedScope t prefix scope s s'"
  using assms
proof (induction fb t params prefix scope owner s arbitrary: s' rule: prepareScope.induct)
  case (1 fb t params prefix scope owner s)
  note IH = 1(1) and clean = 1(3) and checked = 1(4) and own = 1(5) and b = 1(6)
  from 1(2) obtain order s1 where order: "topologicalOrder t = Inr order"
    and fold: "foldR (scopeStep (prepareScope fb) fb t params prefix scope owner) order s = Inr s1"
    and s': "s' = s1\<lparr>pr_loops := pr_loops s1 @ scopeLoops t prefix\<rparr>"
    unfolding prepareScope.simps [of fb t params prefix scope owner s] bindR_Inr_iff by auto
  note spec = topologicalOrder_spec [OF order]
  have inv: "levelInv t prefix scope s order s1"
  proof (rule foldR_prefixes [OF fold])
    show "levelInv t prefix scope s [] s" by (auto simp: levelInv_def intro: addsLoops_none)
  next
    fix ps nid x y
    assume nid: "nid \<in> set order" and inv: "levelInv t prefix scope s ps x"
      and step: "scopeStep (prepareScope fb) fb t params prefix scope owner nid x = Inr y"
    have nid': "nid \<in> nodeSet t" using nid spec(2) by simp
    have len: "length (pr_nodes s) \<le> length (pr_nodes x)" using inv grows_length by (simp add: levelInv_def)
    have "stepped t prefix scope nid x y"
    proof (rule scopeStep_stepped [OF step checked_budget [OF checked nid'] own below_mono [OF b len]])
      fix body ps s2 s3
      assume body: "Type (node_of t nid) = NodeTypeSubprocess" "Body (SubprocessOf (node_of t nid)) = Some body"
        and run: "prepareScope fb body ps (prefix @ nid @ ''/'') (Some (length (pr_nodes x))) (Some (node_of t nid)) s2 = Inr s3"
        and long: "length (pr_nodes x) < length (pr_nodes s2)"
      show "preparedScope body (prefix @ nid @ ''/'') (Some (length (pr_nodes x))) s2 s3"
      proof (rule IH [OF order nid body(2) run])
        show "cleanScope body" using clean_body [OF clean _ body] nid' by (simp add: nodeSet_def)
        show "checkedScope body" by (rule checked_body [OF checked nid' body])
        show "below (Some (length (pr_nodes x))) (length (pr_nodes s2))" using long by (simp add: below_def)
      qed simp
    qed
    from levelInv_step [OF inv this b] show "levelInv t prefix scope s (ps @ [nid]) y" .
  qed
  note i = inv [unfolded levelInv_def]
  have st: "steady s1 s'" by (simp add: s' steady_def)
  have routes: "routed s' i" if "length (pr_nodes s) \<le> i" "i < length (pr_nodes s1)" for i
  proof -
    have "routed s1 i" using i that level_routes [OF clean spec(2) inv] spec(2) by blast
    with that(2) show ?thesis by (rule routed_steady [OF st])
  qed
  have loops: "addsLoops (\<lambda>n. True) s s'"
  proof -
    from i obtain ls where ls: "pr_loops s1 = pr_loops s @ ls" "distinct (map loopKey ls)"
      "\<And>l. l \<in> set ls \<Longrightarrow> pendingOk s1 l \<and> (\<exists>i. fmlookup (pr_index s1) (pl_from l) = Some i \<and> length (pr_nodes s) \<le> i \<and>
          i < length (pr_nodes s1) \<and> n_scope (pr_nodes s1 ! i) \<noteq> scope)" unfolding addsLoops_def by blast
    note own_loops = scopeLoops_pending [OF clean spec(2) inv]
    have "pl_from l \<noteq> pl_from m" if "l \<in> set ls" "m \<in> set (scopeLoops t prefix)" for l m
      using ls(3) [OF that(1)] own_loops [OF that(2)] by auto
    then have "distinct (map loopKey (ls @ scopeLoops t prefix))"
      using ls(2) scopeLoops_distinct [OF clean, of prefix] by (auto simp: image_iff)
    moreover have "pendingOk s' l \<and> (\<exists>i. fmlookup (pr_index s') (pl_from l) = Some i \<and> length (pr_nodes s) \<le> i \<and> i < length (pr_nodes s'))"
      if "l \<in> set (ls @ scopeLoops t prefix)" for l
      using that ls(3) [of l] own_loops [of l] pendingOk_steady [OF st, of l] by (auto simp: s')
    ultimately show ?thesis using ls(1) unfolding addsLoops_def by (intro exI [of _ "ls @ scopeLoops t prefix"]) (simp add: s')
  qed
  have "\<forall>nid\<in>nodeSet t. \<exists>j\<ge>length (pr_nodes s). levelNode t prefix scope s' nid j"
    using i levelNode_steady [OF st] spec(2) by metis
  moreover have "Start t \<in> nodeSet t" using spec(2,3,4) by (metis list.set_sel(1))
  moreover have "grows s s'" using i by (simp add: grows_def s')
  moreover have "builtRange (pr_nodes s') (length (pr_nodes s)) (length (pr_nodes s')) scope" using i by (simp add: s')
  ultimately show ?case using routes loops unfolding preparedScope_def by (simp add: s')
qed

end
