(* ===== verification/Prepare_Edges.thy ===== *)
theory Prepare_Edges
  imports Prepare_Levels
begin

text \<open>
  The pass over edges: every node written on some level gets one edge per outcome, to a node of the same level.
\<close>

section \<open>The state after the scopes\<close>

definition ready :: "preparing \<Rightarrow> bool" where
  "ready s \<longleftrightarrow>
     indexOk (pr_nodes s) (pr_index s) \<and> pr_nodes s \<noteq> [] \<and> builtRange (pr_nodes s) 0 (length (pr_nodes s)) None \<and>
     (\<forall>i<length (pr_nodes s). routed s i) \<and> (\<forall>l\<in>set (pr_loops s). pendingOk s l) \<and> distinct (map loopKey (pr_loops s))"

lemma prepared_ready:
  assumes "RequireEligible t = Inr ()"
    and s: "prepareScope (TemplateFallback t) t params [] None None
       \<lparr>pr_nodes = [], pr_index = fmempty, pr_nexts = fmempty, pr_loops = []\<rparr> = Inr s"
  shows "ready s"
proof -
  let ?s0 = "\<lparr>pr_nodes = [], pr_index = fmempty, pr_nexts = fmempty, pr_loops = []\<rparr>"
  have "checkedScope t"
    using RequireEligible_execution [OF assms(1)] unfolding executionDiagnostics_def checkedScope_def by blast
  from prepareScope_prepared [OF s RequireEligible_clean [OF assms(1)] this]
  have p: "preparedScope t [] None ?s0 s" by (simp add: below_def)
  have "indexOk (pr_nodes ?s0) (pr_index ?s0)" by (simp add: indexOk_def)
  from prepareScope_index [OF s this] p show ?thesis
    unfolding ready_def preparedScope_def addsLoops_def by auto
qed

lemma indexOk_lookup:
  assumes "indexOk ns ix"
  shows "fmlookup ix k = Some i \<longleftrightarrow> i < length ns \<and> n_id (ns ! i) = k"
proof -
  let ?zs = "zip (map n_id ns) [0 ..< length ns]"
  have "fmlookup ix k = Some i \<longleftrightarrow> map_of ?zs k = Some i"
    using assms by (simp add: indexOk_def fmlookup_of_list)
  also have "\<dots> \<longleftrightarrow> (k, i) \<in> set ?zs" using assms by (intro map_of_eq_Some_iff) (simp add: indexOk_def)
  also have "\<dots> \<longleftrightarrow> i < length ns \<and> n_id (ns ! i) = k" by (auto simp: set_zip intro!: exI [of _ i])
  finally show ?thesis .
qed

section \<open>Edges\<close>

text \<open>An edge of the definition comes from a route of its source and leads to the node of that name.\<close>

definition edgeFrom :: "preparing \<Rightarrow> definitionEdge \<Rightarrow> bool" where
  "edgeFrom s e \<longleftrightarrow>
     e_fromIndex e < length (pr_nodes s) \<and> e_from e = n_id (pr_nodes s ! e_fromIndex e) \<and>
     n_parent (pr_nodes s ! e_fromIndex e) = None \<and> n_kind (pr_nodes s ! e_fromIndex e) \<noteq> definitionSubprocessExit \<and>
     fmlookup (pr_index s) (e_to e) = Some (e_toIndex e) \<and>
     (\<exists>nx. fmlookup (pr_nexts s) (e_fromIndex e) = Some nx \<and> fmlookup nx (e_outcome e) = Some (e_to e))"

definition outcomesOf :: "Definition \<Rightarrow> nat \<Rightarrow> string list" where
  "outcomesOf d i = map (\<lambda>j. e_outcome (edge_at d j)) (n_outgoing (node_at d i))"

text \<open>The nodes of the scopes with their edges so far.\<close>

definition edged :: "preparing \<Rightarrow> Definition \<Rightarrow> bool" where
  "edged s d \<longleftrightarrow>
     d_index d = pr_index s \<and> d_loops d = [] \<and> length (d_nodes d) = length (pr_nodes s) \<and>
     (\<forall>i<length (pr_nodes s). node_at d i = (pr_nodes s ! i)\<lparr>n_outgoing := n_outgoing (node_at d i)\<rparr>) \<and>
     (\<forall>j<length (d_edges d). edgeFrom s (edge_at d j) \<and> e_loop (edge_at d j) = None \<and> e_exitOf (edge_at d j) = [] \<and>
        j \<in> set (n_outgoing (node_at d (e_fromIndex (edge_at d j))))) \<and>
     (\<forall>i<length (pr_nodes s). \<forall>j\<in>set (n_outgoing (node_at d i)). j < length (d_edges d) \<and> e_fromIndex (edge_at d j) = i)"

lemma addEdge_edged:
  assumes add: "addEdge i (n_id (node_at d i)) nx oc d = Inr d'" and d: "edged s d" and i: "i < length (pr_nodes s)"
    and n: "n_parent (node_at d i) = None" "n_kind (node_at d i) \<noteq> definitionSubprocessExit"
    and nx: "fmlookup (pr_nexts s) i = Some nx" "oc |\<in>| fmdom nx"
  shows "edged s d'" "outcomesOf d' i = outcomesOf d i @ [oc]"
    "k < length (pr_nodes s) \<Longrightarrow> k \<noteq> i \<Longrightarrow> outcomesOf d' k = outcomesOf d k" "n_parent (node_at d' i) = n_parent (node_at d i)" "n_kind (node_at d' i) = n_kind (node_at d i)" "n_id (node_at d' i) = n_id (node_at d i)"
proof -
  note dd = d [unfolded edged_def]
  from add obtain toIndex where to: "fmlookup (pr_index s) (mget [] nx oc) = Some toIndex"
    and d': "d' = d\<lparr>d_edges := d_edges d @ [\<lparr>e_from = n_id (node_at d i), e_outcome = oc, e_to = mget [] nx oc, e_fromIndex = i,
                   e_toIndex = toIndex, e_loop = None, e_exitOf = []\<rparr>],
                 d_nodes := (d_nodes d)[i := (node_at d i)\<lparr>n_outgoing := n_outgoing (node_at d i) @ [length (d_edges d)]\<rparr>]\<rparr>"
    using dd by (auto simp: addEdge_def Let_def split: option.splits)
  have i': "i < length (d_nodes d)" using dd i by simp
  have self: "node_at d i = (pr_nodes s ! i)\<lparr>n_outgoing := n_outgoing (node_at d i)\<rparr>" using dd i by blast
  have parts: "n_id (pr_nodes s ! i) = n_id (node_at d i)" "n_parent (pr_nodes s ! i) = n_parent (node_at d i)"
    "n_kind (pr_nodes s ! i) = n_kind (node_at d i)" by (subst self, simp)+
  have nodes: "node_at d' k = (if k = i then (node_at d i)\<lparr>n_outgoing := n_outgoing (node_at d i) @ [length (d_edges d)]\<rparr> else node_at d k)"
    for k using i' by (simp add: d' nth_list_update)
  have edges: "edge_at d' j = (if j < length (d_edges d) then edge_at d j else
      \<lparr>e_from = n_id (node_at d i), e_outcome = oc, e_to = mget [] nx oc, e_fromIndex = i, e_toIndex = toIndex, e_loop = None, e_exitOf = []\<rparr>)"
    if "j < Suc (length (d_edges d))" for j using that by (auto simp: d' nth_append)
  have new: "edgeFrom s \<lparr>e_from = n_id (node_at d i), e_outcome = oc, e_to = mget [] nx oc, e_fromIndex = i, e_toIndex = toIndex,
      e_loop = None, e_exitOf = []\<rparr>"
    using i n to nx by (auto simp: edgeFrom_def parts mget_def fmlookup_dom_iff)
  have len: "length (d_edges d') = Suc (length (d_edges d))" "length (d_nodes d') = length (d_nodes d)" by (simp_all add: d')
  have "node_at d' k = (pr_nodes s ! k)\<lparr>n_outgoing := n_outgoing (node_at d' k)\<rparr>" if "k < length (pr_nodes s)" for k
  proof (cases "k = i")
    case True
    then show ?thesis unfolding nodes by (subst self) simp
  next
    case False
    then show ?thesis using dd that by (simp add: nodes)
  qed
  moreover have "edgeFrom s (edge_at d' j) \<and> e_loop (edge_at d' j) = None \<and> e_exitOf (edge_at d' j) = [] \<and>
      j \<in> set (n_outgoing (node_at d' (e_fromIndex (edge_at d' j))))" if "j < length (d_edges d')" for j
  proof (cases "j < length (d_edges d)")
    case True
    then have "edgeFrom s (edge_at d j) \<and> e_loop (edge_at d j) = None \<and> e_exitOf (edge_at d j) = [] \<and>
        j \<in> set (n_outgoing (node_at d (e_fromIndex (edge_at d j))))" using dd by blast
    then show ?thesis using True by (auto simp: edges nodes)
  next
    case False
    then have "j = length (d_edges d)" using that len by simp
    then show ?thesis using new by (simp add: edges nodes)
  qed
  moreover have "j < length (d_edges d') \<and> e_fromIndex (edge_at d' j) = k" if "k < length (pr_nodes s)" "j \<in> set (n_outgoing (node_at d' k))" for k j
  proof -
    from that(2) have "j \<in> set (n_outgoing (node_at d k)) \<or> k = i \<and> j = length (d_edges d)" unfolding nodes by (auto split: if_splits)
    then show ?thesis using dd that(1) by (auto simp: len edges less_Suc_eq)
  qed
  ultimately show "edged s d'" using dd len unfolding edged_def by (simp add: d')
  have old: "map (\<lambda>j. e_outcome (edge_at d' j)) (n_outgoing (node_at d k)) = outcomesOf d k" if "k < length (pr_nodes s)" for k
  proof -
    have "j < length (d_edges d)" if "j \<in> set (n_outgoing (node_at d k))" for j using dd \<open>k < length (pr_nodes s)\<close> that by blast
    then have "edge_at d' j = edge_at d j" if "j \<in> set (n_outgoing (node_at d k))" for j
      using edges [of j] that by (metis less_SucI)
    then show ?thesis unfolding outcomesOf_def by simp
  qed
  show "outcomesOf d' i = outcomesOf d i @ [oc]" using old [OF i] by (simp add: outcomesOf_def [of d'] nodes edges)
  show "k < length (pr_nodes s) \<Longrightarrow> k \<noteq> i \<Longrightarrow> outcomesOf d' k = outcomesOf d k" using old [of k] by (simp add: outcomesOf_def [of d'] nodes)
  show "n_parent (node_at d' i) = n_parent (node_at d i)" "n_kind (node_at d' i) = n_kind (node_at d i)" "n_id (node_at d' i) = n_id (node_at d i)"
    by (simp_all add: nodes)
qed

lemma nodeEdges_edged:
  assumes run: "nodeEdges (pr_nexts s) i d = Inr d'" and d: "edged s d" and i: "i < length (pr_nodes s)" and none: "outcomesOf d i = []"
  shows "edged s d' \<and> distinct (outcomesOf d' i) \<and> (\<forall>k<length (pr_nodes s). k \<noteq> i \<longrightarrow> outcomesOf d' k = outcomesOf d k)"
proof (cases "n_parent (node_at d i) \<noteq> None \<or> n_kind (node_at d i) = definitionSubprocessExit")
  case True
  then show ?thesis using run d none by (simp add: nodeEdges_def Let_def)
next
  case False
  define nx where "nx = mget fmempty (pr_nexts s) i"
  have fold: "foldR (addEdge i (n_id (node_at d i)) nx) (sortedOutcomes nx) d = Inr d'"
    using run False by (simp add: nodeEdges_def Let_def nx_def)
  have "edged s d' \<and> n_parent (node_at d' i) = None \<and> n_kind (node_at d' i) \<noteq> definitionSubprocessExit \<and>
      n_id (node_at d' i) = n_id (node_at d i) \<and> outcomesOf d' i = sortedOutcomes nx \<and>
      (\<forall>k<length (pr_nodes s). k \<noteq> i \<longrightarrow> outcomesOf d' k = outcomesOf d k)"
  proof (rule foldR_prefixes [OF fold])
    show "edged s d \<and> n_parent (node_at d i) = None \<and> n_kind (node_at d i) \<noteq> definitionSubprocessExit \<and>
        n_id (node_at d i) = n_id (node_at d i) \<and> outcomesOf d i = [] \<and>
        (\<forall>k<length (pr_nodes s). k \<noteq> i \<longrightarrow> outcomesOf d k = outcomesOf d k)" using d none False by simp
  next
    fix ocs oc x y
    assume oc: "oc \<in> set (sortedOutcomes nx)" and x: "edged s x \<and> n_parent (node_at x i) = None \<and>
        n_kind (node_at x i) \<noteq> definitionSubprocessExit \<and> n_id (node_at x i) = n_id (node_at d i) \<and> outcomesOf x i = ocs \<and>
        (\<forall>k<length (pr_nodes s). k \<noteq> i \<longrightarrow> outcomesOf x k = outcomesOf d k)"
      and add: "addEdge i (n_id (node_at d i)) nx oc x = Inr y"
    have dom: "oc |\<in>| fmdom nx" using oc by (simp add: sortedOutcomes_def)
    then have "fmlookup (pr_nexts s) i = Some nx" by (auto simp: nx_def mget_def split: option.splits)
    note step = addEdge_edged [of i x nx oc y s, OF _ _ i _ _ this dom]
    show "edged s y \<and> n_parent (node_at y i) = None \<and> n_kind (node_at y i) \<noteq> definitionSubprocessExit \<and>
        n_id (node_at y i) = n_id (node_at d i) \<and> outcomesOf y i = ocs @ [oc] \<and>
        (\<forall>k<length (pr_nodes s). k \<noteq> i \<longrightarrow> outcomesOf y k = outcomesOf d k)"
      using step add x by simp
  qed
  moreover have "distinct (sortedOutcomes nx)" by (simp add: sortedOutcomes_def)
  ultimately show ?thesis by simp
qed

lemma edges_edged:
  assumes run: "foldR (nodeEdges (pr_nexts s)) [0 ..< length (pr_nodes s)]
      \<lparr>d_nodes = pr_nodes s, d_index = pr_index s, d_edges = [], d_joinAnyIncoming = [], d_loops = []\<rparr> = Inr d"
    and s: "builtRange (pr_nodes s) 0 (length (pr_nodes s)) None"
  shows "edged s d" "\<And>i. i < length (pr_nodes s) \<Longrightarrow> distinct (outcomesOf d i)"
proof -
  let ?d0 = "\<lparr>d_nodes = pr_nodes s, d_index = pr_index s, d_edges = [], d_joinAnyIncoming = [], d_loops = []\<rparr>"
  let ?P = "\<lambda>is x. edged s x \<and> (\<forall>i<length (pr_nodes s). distinct (outcomesOf x i) \<and> (i \<notin> set is \<longrightarrow> outcomesOf x i = []))"
  have fresh: "n_outgoing (pr_nodes s ! i) = []" if "i < length (pr_nodes s)" for i
    using s that by (simp add: builtRange_def plainNode_def)
  have "foldR (nodeEdges (pr_nexts s)) js x = Inr y \<Longrightarrow> ?P is x \<Longrightarrow> distinct (is @ js) \<Longrightarrow> set js \<subseteq> {..<length (pr_nodes s)} \<Longrightarrow> ?P (is @ js) y"
    for js "is" x y
  proof (induction js arbitrary: "is" x)
    case (Cons j js)
    from Cons.prems(1) obtain z where z: "nodeEdges (pr_nexts s) j x = Inr z" "foldR (nodeEdges (pr_nexts s)) js z = Inr y"
      by (auto simp: bindR_Inr_iff)
    have "edged s x" "j < length (pr_nodes s)" "outcomesOf x j = []" using Cons.prems by auto
    note step = nodeEdges_edged [OF z(1) this]
    have "?P (is @ [j]) z" using step Cons.prems(2) by (metis UnCI list.set_intros(1) set_append)
    from Cons.IH [OF z(2) this] Cons.prems(3,4) show ?case by simp
  qed simp
  from this [OF run, of "[]"] have "?P [0 ..< length (pr_nodes s)] d"
    using fresh by (simp add: edged_def outcomesOf_def lessThan_def subset_eq)
  then show "edged s d" "\<And>i. i < length (pr_nodes s) \<Longrightarrow> distinct (outcomesOf d i)" by blast+
qed

end
