(* ===== verification/Prepare_Links.thy ===== *)
theory Prepare_Links
  imports Prepare_Edges
begin

text \<open>
  The passes that link loops and arrivals: they set loop membership, the marks of back edges and exits, and the
  incidence lists, and change nothing else.
\<close>

section \<open>What the passes keep\<close>

definition bareNode :: "definitionNode \<Rightarrow> definitionNode" where
  "bareNode n = n\<lparr>n_incoming := [], n_loops := [], n_sourceOf := []\<rparr>"

definition bareEdge :: "definitionEdge \<Rightarrow> definitionEdge" where
  "bareEdge e = e\<lparr>e_loop := None, e_exitOf := []\<rparr>"

definition bareLoop :: "definitionLoop \<Rightarrow> definitionLoop" where
  "bareLoop l = l\<lparr>l_inner := []\<rparr>"

definition sameGraph :: "Definition \<Rightarrow> Definition \<Rightarrow> bool" where
  "sameGraph d d' \<longleftrightarrow>
     map bareNode (d_nodes d') = map bareNode (d_nodes d) \<and> map bareEdge (d_edges d') = map bareEdge (d_edges d) \<and>
     map bareLoop (d_loops d') = map bareLoop (d_loops d) \<and> d_index d' = d_index d"

lemma sameGraph_refl [simp]: "sameGraph d d"
  by (simp add: sameGraph_def)

lemma sameGraph_trans [trans]: "sameGraph a b \<Longrightarrow> sameGraph b c \<Longrightarrow> sameGraph a c"
  by (simp add: sameGraph_def)

lemma sameGraph_lengths:
  assumes "sameGraph d d'"
  shows "length (d_nodes d') = length (d_nodes d)" "length (d_edges d') = length (d_edges d)" "length (d_loops d') = length (d_loops d)"
  using assms unfolding sameGraph_def by (metis length_map)+

lemma sameGraph_at:
  assumes "sameGraph d d'"
  shows "i < length (d_nodes d) \<Longrightarrow> bareNode (node_at d' i) = bareNode (node_at d i)"
    "j < length (d_edges d) \<Longrightarrow> bareEdge (edge_at d' j) = bareEdge (edge_at d j)"
    "k < length (d_loops d) \<Longrightarrow> bareLoop (loop_at d' k) = bareLoop (loop_at d k)"
  using assms sameGraph_lengths [OF assms] unfolding sameGraph_def by (metis nth_map)+

lemma bareNode_fields:
  assumes "bareNode n' = bareNode n"
  shows "n_id n' = n_id n" "n_kind n' = n_kind n" "n_agent n' = n_agent n" "n_maxAttempts n' = n_maxAttempts n"
    "n_retryAuthored n' = n_retryAuthored n" "n_terminal n' = n_terminal n" "n_outgoing n' = n_outgoing n" "n_joinAny n' = n_joinAny n"
    "n_children n' = n_children n" "n_parent n' = n_parent n" "n_stage n' = n_stage n" "n_doAnchor n' = n_doAnchor n"
    "n_planAnchor n' = n_planAnchor n" "n_approvalGate n' = n_approvalGate n" "n_scope n' = n_scope n" "n_scopeEnd n' = n_scopeEnd n"
    "n_entry n' = n_entry n"
  using assms by (cases n; cases n'; simp add: bareNode_def)+

lemma bareEdge_fields:
  assumes "bareEdge e' = bareEdge e"
  shows "e_from e' = e_from e" "e_outcome e' = e_outcome e" "e_to e' = e_to e" "e_fromIndex e' = e_fromIndex e" "e_toIndex e' = e_toIndex e"
  using assms by (cases e; cases e'; simp add: bareEdge_def)+

lemma bareLoop_fields:
  assumes "bareLoop l' = bareLoop l"
  shows "l_edge l' = l_edge l" "l_from l' = l_from l" "l_to l' = l_to l" "l_outcome l' = l_outcome l"
    "l_maxIterations l' = l_maxIterations l" "l_body l' = l_body l" "l_exits l' = l_exits l"
  using assms by (cases l; cases l'; simp add: bareLoop_def)+

lemma sameGraph_updateNodeAt:
  assumes "\<And>n. bareNode (f n) = bareNode n"
  shows "sameGraph d (updateNodeAt i f d)"
proof -
  have "map bareNode ((d_nodes d)[i := f (node_at d i)]) = map bareNode (d_nodes d)"
    by (simp add: map_update assms)
  then show ?thesis by (simp add: sameGraph_def updateNodeAt_def)
qed

lemma sameGraph_updateEdgeAt:
  assumes "\<And>e. bareEdge (f e) = bareEdge e"
  shows "sameGraph d (updateEdgeAt i f d)"
proof -
  have "map bareEdge ((d_edges d)[i := f (edge_at d i)]) = map bareEdge (d_edges d)"
    by (simp add: map_update assms)
  then show ?thesis by (simp add: sameGraph_def updateEdgeAt_def)
qed

lemma fold_sameGraph: "(\<And>x d. sameGraph d (f x d)) \<Longrightarrow> sameGraph d (fold f xs d)"
  by (induction xs arbitrary: d) (auto intro: sameGraph_trans)

section \<open>Marks on nodes and edges\<close>

lemma node_at_update: "i < length (d_nodes d) \<Longrightarrow> node_at (updateNodeAt k f d) i = (if i = k then f (node_at d i) else node_at d i)"
  by (auto simp: updateNodeAt_def nth_list_update)

lemma edge_at_update: "j < length (d_edges d) \<Longrightarrow> edge_at (updateEdgeAt k f d) j = (if j = k then f (edge_at d j) else edge_at d j)"
  by (auto simp: updateEdgeAt_def nth_list_update)

lemma update_frames [simp]:
  "d_edges (updateNodeAt k f d) = d_edges d" "d_loops (updateNodeAt k f d) = d_loops d" "length (d_nodes (updateNodeAt k f d)) = length (d_nodes d)"
  "d_nodes (updateEdgeAt k g d) = d_nodes d" "d_loops (updateEdgeAt k g d) = d_loops d" "length (d_edges (updateEdgeAt k g d)) = length (d_edges d)"
  by (simp_all add: updateNodeAt_def updateEdgeAt_def)

abbreviation markBody :: "nat \<Rightarrow> nat \<Rightarrow> Definition \<Rightarrow> Definition" where
  "markBody li i \<equiv> updateNodeAt i (\<lambda>n. n\<lparr>n_loops := n_loops n @ [li]\<rparr>)"

abbreviation markExit :: "nat \<Rightarrow> nat \<Rightarrow> Definition \<Rightarrow> Definition" where
  "markExit li ei \<equiv> updateEdgeAt ei (\<lambda>e. e\<lparr>e_exitOf := e_exitOf e @ [li]\<rparr>)"

lemma fold_markBody:
  "i < length (d_nodes d) \<Longrightarrow>
   set (n_loops (node_at (fold (markBody li) is d) i)) = set (n_loops (node_at d i)) \<union> (if i \<in> set is then {li} else {}) \<and>
   n_sourceOf (node_at (fold (markBody li) is d) i) = n_sourceOf (node_at d i) \<and>
   n_incoming (node_at (fold (markBody li) is d) i) = n_incoming (node_at d i)"
proof (induction "is" arbitrary: d)
  case (Cons k ks)
  from Cons.IH [of "markBody li k d"] Cons.prems show ?case by (auto simp: node_at_update)
qed simp

lemma fold_markBody_frame: "d_edges (fold (markBody li) is d) = d_edges d" "d_loops (fold (markBody li) is d) = d_loops d"
  by (induction "is" arbitrary: d) simp_all

lemma fold_markExit:
  "j < length (d_edges d) \<Longrightarrow>
   set (e_exitOf (edge_at (fold (markExit li) is d) j)) = set (e_exitOf (edge_at d j)) \<union> (if j \<in> set is then {li} else {})"
proof (induction "is" arbitrary: d)
  case (Cons k ks)
  from Cons.IH [of "markExit li k d"] Cons.prems show ?case by (auto simp: edge_at_update)
qed simp

lemma fold_markExit_frame: "d_nodes (fold (markExit li) is d) = d_nodes d" "d_loops (fold (markExit li) is d) = d_loops d"
  by (induction "is" arbitrary: d) simp_all

section \<open>Loops\<close>

text \<open>A loop whose parts are in range, with a sorted body.\<close>

definition loopIn :: "Definition \<Rightarrow> definitionLoop \<Rightarrow> bool" where
  "loopIn d l \<longleftrightarrow> l_edge l < length (d_edges d) \<and> l_from l < length (d_nodes d) \<and> sorted (l_body l) \<and>
     (\<forall>i\<in>set (l_body l). i < length (d_nodes d)) \<and> (\<forall>j\<in>set (l_exits l). j < length (d_edges d))"

definition linkInv :: "Definition \<Rightarrow> nat \<Rightarrow> Definition \<Rightarrow> bool" where
  "linkInv d0 k d \<longleftrightarrow>
     sameGraph d0 d \<and>
     (\<forall>i<length (d_nodes d0).
        (\<forall>li\<in>set (n_loops (node_at d i)). li < k \<and> i \<in> set (l_body (loop_at d0 li))) \<and>
        (\<forall>li\<in>set (n_sourceOf (node_at d i)). li < k \<and> l_from (loop_at d0 li) = i) \<and>
        n_incoming (node_at d i) = []) \<and>
     (\<forall>j<length (d_edges d0). \<forall>li\<in>set (e_exitOf (edge_at d j)). li < k \<and> j \<in> set (l_exits (loop_at d0 li))) \<and>
     (\<forall>li<k. li \<in> set (n_sourceOf (node_at d (l_from (loop_at d0 li)))) \<and>
        (\<forall>i\<in>set (l_body (loop_at d0 li)). li \<in> set (n_loops (node_at d i)))) \<and>
     (\<forall>li<length (d_loops d0). \<forall>q\<in>set (l_inner (loop_at d li)).
        q < length (d_loops d0) \<and> set (l_body (loop_at d0 q)) \<subseteq> set (l_body (loop_at d0 li)))"

lemma innerLoops_sub:
  assumes "q \<in> set (innerLoops d li)" "sorted (l_body (loop_at d li))"
  shows "q < length (d_loops d)" "set (l_body (loop_at d q)) \<subseteq> set (l_body (loop_at d li))"
  using assms BinarySearch_iff [OF assms(2)] by (auto simp: innerLoops_def containsAll_def list_all_iff)

lemma linkLoop_linkInv:
  assumes ok: "\<And>l. l \<in> set (d_loops d0) \<Longrightarrow> loopIn d0 l" and inv: "linkInv d0 k d" and k: "k < length (d_loops d0)"
  shows "linkInv d0 (Suc k) (linkLoop k d)"
proof -
  let ?l = "loop_at d k" and ?base = "loop_at d0 k"
  define d1 where "d1 = updateEdgeAt (l_edge ?l) (\<lambda>e. e\<lparr>e_loop := Some k\<rparr>) d"
  define d2 where "d2 = updateNodeAt (l_from ?l) (\<lambda>n. n\<lparr>n_sourceOf := n_sourceOf n @ [k]\<rparr>) d1"
  define d3 where "d3 = fold (markExit k) (l_exits ?l) d2"
  define d4 where "d4 = fold (markBody k) (l_body ?l) d3"
  define d5 where "d5 = d4\<lparr>d_loops := (d_loops d4)[k := ?l\<lparr>l_inner := innerLoops d k\<rparr>]\<rparr>"
  have g: "sameGraph d0 d" using inv by (simp add: linkInv_def)
  note len = sameGraph_lengths [OF g]
  have l: "loopIn d0 ?base" using ok k by simp
  note same = bareLoop_fields [OF sameGraph_at(3) [OF g k]]
  have run: "linkLoop k d = d5" unfolding linkLoop_def Let_def d5_def d4_def d3_def d2_def d1_def ..
  have "sameGraph d d1" unfolding d1_def by (rule sameGraph_updateEdgeAt) (simp add: bareEdge_def)
  also have "sameGraph d1 d2" unfolding d2_def by (rule sameGraph_updateNodeAt) (simp add: bareNode_def)
  also have "sameGraph d2 d3" unfolding d3_def by (rule fold_sameGraph, rule sameGraph_updateEdgeAt) (simp add: bareEdge_def)
  also have "sameGraph d3 d4" unfolding d4_def by (rule fold_sameGraph, rule sameGraph_updateNodeAt) (simp add: bareNode_def)
  finally have g4: "sameGraph d d4" .
  have loops4: "d_loops d4 = d_loops d" by (simp add: d4_def d3_def d2_def d1_def fold_markBody_frame fold_markExit_frame)
  have "map bareLoop ((d_loops d)[k := ?l\<lparr>l_inner := innerLoops d k\<rparr>]) = map bareLoop (d_loops d)"
    by (simp add: map_update bareLoop_def list_update_same_conv)
       (metis (no_types, lifting) bareLoop_def list_update_id map_update)
  then have "sameGraph d4 d5" by (simp add: sameGraph_def loops4 d5_def)
  with g g4 have g5: "sameGraph d0 d5" by (meson sameGraph_trans)
  have nodes: "set (n_loops (node_at d5 i)) = set (n_loops (node_at d i)) \<union> (if i \<in> set (l_body ?base) then {k} else {})"
    "set (n_sourceOf (node_at d5 i)) = set (n_sourceOf (node_at d i)) \<union> (if i = l_from ?base then {k} else {})"
    "n_incoming (node_at d5 i) = n_incoming (node_at d i)" if "i < length (d_nodes d0)" for i
    using that len fold_markBody [of i d3 k "l_body ?l"]
    by (simp_all add: d5_def d4_def [symmetric]) (auto simp: d3_def d2_def d1_def fold_markExit_frame node_at_update same)
  have edges: "set (e_exitOf (edge_at d5 j)) = set (e_exitOf (edge_at d j)) \<union> (if j \<in> set (l_exits ?base) then {k} else {})"
    if "j < length (d_edges d0)" for j
    using that len fold_markExit [of j d2 k "l_exits ?l"]
    by (simp add: d5_def d4_def fold_markBody_frame d3_def [symmetric]) (auto simp: d2_def d1_def edge_at_update same)
  have "(\<forall>li\<in>set (n_loops (node_at d5 i)). li < Suc k \<and> i \<in> set (l_body (loop_at d0 li))) \<and>
        (\<forall>li\<in>set (n_sourceOf (node_at d5 i)). li < Suc k \<and> l_from (loop_at d0 li) = i) \<and> n_incoming (node_at d5 i) = []"
    if i: "i < length (d_nodes d0)" for i
  proof -
    have old: "\<forall>li\<in>set (n_loops (node_at d i)). li < k \<and> i \<in> set (l_body (loop_at d0 li))"
      "\<forall>li\<in>set (n_sourceOf (node_at d i)). li < k \<and> l_from (loop_at d0 li) = i" "n_incoming (node_at d i) = []"
      using inv i unfolding linkInv_def by blast+
    have "li < Suc k \<and> i \<in> set (l_body (loop_at d0 li))" if "li \<in> set (n_loops (node_at d5 i))" for li
      using that old(1) nodes(1) [OF i] by (auto split: if_splits)
    moreover have "li < Suc k \<and> l_from (loop_at d0 li) = i" if "li \<in> set (n_sourceOf (node_at d5 i))" for li
      using that old(2) nodes(2) [OF i] by (auto split: if_splits)
    ultimately show ?thesis using old(3) nodes(3) [OF i] by simp
  qed
  moreover have "li < Suc k \<and> j \<in> set (l_exits (loop_at d0 li))" if "j < length (d_edges d0)" "li \<in> set (e_exitOf (edge_at d5 j))" for j li
  proof -
    have "\<forall>li\<in>set (e_exitOf (edge_at d j)). li < k \<and> j \<in> set (l_exits (loop_at d0 li))"
      using inv that(1) unfolding linkInv_def by blast
    then show ?thesis using edges [OF that(1)] that(2) by (auto split: if_splits)
  qed
  moreover have "li \<in> set (n_sourceOf (node_at d5 (l_from (loop_at d0 li)))) \<and>
        (\<forall>i\<in>set (l_body (loop_at d0 li)). li \<in> set (n_loops (node_at d5 i)))" if "li < Suc k" for li
  proof -
    have in_range: "l_from (loop_at d0 li) < length (d_nodes d0)" "\<And>i. i \<in> set (l_body (loop_at d0 li)) \<Longrightarrow> i < length (d_nodes d0)"
      using ok [of "loop_at d0 li"] k that by (auto simp: loopIn_def)
    show ?thesis
    proof (cases "li = k")
      case True
      then show ?thesis using nodes in_range by auto
    next
      case False
      then have "li < k" using that by simp
      then have "li \<in> set (n_sourceOf (node_at d (l_from (loop_at d0 li))))"
        "\<forall>i\<in>set (l_body (loop_at d0 li)). li \<in> set (n_loops (node_at d i))"
        using inv unfolding linkInv_def by blast+
      then show ?thesis using nodes(1) [OF in_range(2)] nodes(2) [OF in_range(1)] by simp
    qed
  qed
  moreover have "q < length (d_loops d0) \<and> set (l_body (loop_at d0 q)) \<subseteq> set (l_body (loop_at d0 li))"
    if "li < length (d_loops d0)" "q \<in> set (l_inner (loop_at d5 li))" for li q
  proof (cases "li = k")
    case True
    then have q: "q \<in> set (innerLoops d k)" using that k len by (simp add: loops4 d5_def)
    have "sorted (l_body ?l)" using l same by (simp add: loopIn_def)
    from innerLoops_sub [OF q this] same(6) show ?thesis
      using True len bareLoop_fields(6) [OF sameGraph_at(3) [OF g, of q]] by simp
  next
    case False
    then have "q \<in> set (l_inner (loop_at d li))" using that k len by (simp add: loops4 d5_def)
    then show ?thesis using inv that(1) unfolding linkInv_def by blast
  qed
  ultimately show ?thesis using g5 unfolding run linkInv_def by blast
qed

lemma linkInv_all:
  assumes "\<And>l. l \<in> set (d_loops d0) \<Longrightarrow> loopIn d0 l" "linkInv d0 0 d0" "k \<le> length (d_loops d0)"
  shows "linkInv d0 k (fold linkLoop [0 ..< k] d0)"
  using assms(3)
proof (induction k)
  case (Suc k)
  then have "linkInv d0 k (fold linkLoop [0 ..< k] d0)" by simp
  from linkLoop_linkInv [OF assms(1) this] Suc.prems show ?case by simp
qed (simp add: assms(2))

lemma sortLoops_linkInv:
  assumes ok: "\<And>l. l \<in> set (d_loops d0) \<Longrightarrow> loopIn d0 l" and inv: "linkInv d0 k d" and k: "k \<le> length (d_loops d0)"
  shows "linkInv d0 k (sortLoops d)"
proof -
  have g: "sameGraph d0 d" using inv by (simp add: linkInv_def)
  have "sameGraph d (sortLoops d)" by (simp add: sameGraph_def sortLoops_def comp_def bareNode_def)
  with g have g': "sameGraph d0 (sortLoops d)" by (rule sameGraph_trans)
  have at: "set (n_loops (node_at (sortLoops d) i)) = set (n_loops (node_at d i))"
    "n_sourceOf (node_at (sortLoops d) i) = n_sourceOf (node_at d i)" "n_incoming (node_at (sortLoops d) i) = n_incoming (node_at d i)"
    if "i < length (d_nodes d0)" for i using that sameGraph_lengths [OF g] by (simp_all add: sortLoops_def)
  have frame: "d_edges (sortLoops d) = d_edges d" "d_loops (sortLoops d) = d_loops d" by (simp_all add: sortLoops_def)
  have marks: "li \<in> set (n_sourceOf (node_at (sortLoops d) (l_from (loop_at d0 li)))) \<and>
        (\<forall>i\<in>set (l_body (loop_at d0 li)). li \<in> set (n_loops (node_at (sortLoops d) i)))" if "li < k" for li
  proof -
    have "loopIn d0 (loop_at d0 li)" using ok k that by simp
    then show ?thesis using inv that at unfolding linkInv_def loopIn_def by metis
  qed
  have "(\<forall>li\<in>set (n_loops (node_at (sortLoops d) i)). li < k \<and> i \<in> set (l_body (loop_at d0 li))) \<and>
        (\<forall>li\<in>set (n_sourceOf (node_at (sortLoops d) i)). li < k \<and> l_from (loop_at d0 li) = i) \<and>
        n_incoming (node_at (sortLoops d) i) = []" if "i < length (d_nodes d0)" for i
    using inv that unfolding linkInv_def at [OF that] by blast
  then show ?thesis using inv g' marks unfolding linkInv_def frame by blast
qed

end
