(* ===== verification/Prepare_Rounds.thy ===== *)
theory Prepare_Rounds
  imports Prepare_Links
begin

text \<open>
  The loops of a prepared definition: each starts at a decision, its body is the closure of nodes of one level under
  stages and nested bodies, and its exits leave from that level.
\<close>

section \<open>The members of a body\<close>

definition membersOf :: "definitionNode list \<Rightarrow> nat \<Rightarrow> nat set" where
  "membersOf N m = insert m (set (n_children (N ! m))) \<union>
     (if n_kind (N ! m) = definitionSubprocess then (\<Union>j\<in>{j. insideBody N m j}. insert j (set (n_children (N ! j)))) else {})"

text \<open>The bodies are closed under stages, their compounds and nested bodies, and hold no subprocess around their own level.\<close>

lemma stage_scope:
  assumes N: "builtRange N 0 (length N) None" and "i < length N" "n_parent (N ! i) = Some p"
  shows "p < i" "n_scope (N ! i) = n_scope (N ! p)" "n_kind (N ! p) = definitionCompound" "i \<in> set (n_children (N ! p))"
    "n_children (N ! i) = []" "n_scopeEnd (N ! i) = None" "n_parent (N ! p) = None"
proof -
  have "linkedNode N 0 (length N) i" using assms(1,2) by (simp add: builtRange_def)
  then show p: "p < i" "n_kind (N ! p) = definitionCompound" "i \<in> set (n_children (N ! p))"
    using assms(3) by (simp_all add: linkedNode_def Let_def)
  have "linkedNode N 0 (length N) p" using assms(1,2) p(1) by (simp add: builtRange_def)
  then have "compoundNode N (length N) p" using p(2) by (simp add: linkedNode_def Let_def)
  then show "n_scope (N ! i) = n_scope (N ! p)" "n_children (N ! i) = []" "n_scopeEnd (N ! i) = None" "n_parent (N ! p) = None"
    using p(3) by (auto simp: compoundNode_def stageOf_def Let_def)
qed

lemma child_stage:
  assumes N: "builtRange N 0 (length N) None" and "p < length N" "i \<in> set (n_children (N ! p))"
  shows "i < length N" "p < i" "n_parent (N ! i) = Some p" "n_kind (N ! p) = definitionCompound"
proof -
  have l: "linkedNode N 0 (length N) p" using assms(1,2) by (simp add: builtRange_def)
  then show kind: "n_kind (N ! p) = definitionCompound" using assms(3) by (auto simp: linkedNode_def Let_def split: if_splits)
  with l have "compoundNode N (length N) p" by (simp add: linkedNode_def Let_def)
  then show "i < length N" "p < i" "n_parent (N ! i) = Some p" using assms(3) by (auto simp: compoundNode_def stageOf_def Let_def)
qed

lemma insideBody_kind:
  assumes N: "builtRange N 0 (length N) None" and "s < length N" "insideBody N s i"
  shows "n_kind (N ! s) = definitionSubprocess" "i < length N"
proof -
  have "linkedNode N 0 (length N) s" using assms(1,2) by (simp add: builtRange_def)
  then show "n_kind (N ! s) = definitionSubprocess" using assms(3) by (auto simp: linkedNode_def insideBody_def Let_def split: if_splits)
  show "i < length N" using insideBody_end [of N 0 "length N" None s i] assms by (simp add: builtRange_def)
qed

lemma insideBody_scope:
  assumes N: "builtRange N 0 (length N) None" and "i < length N" "j < length N" "s < length N" "n_scope (N ! i) = n_scope (N ! j)"
  shows "insideBody N s i \<longleftrightarrow> insideBody N s j"
  using scopedRangeD(3) [of N 0 "length N" None i s] scopedRangeD(3) [of N 0 "length N" None j s] assms by (simp add: builtRange_def)

lemma scope_before:
  assumes N: "builtRange N 0 (length N) None" and "i < length N" "n_scope (N ! i) = Some u"
  shows "u < i" "n_kind (N ! u) = definitionSubprocess" "insideBody N u i"
proof -
  have sc: "scopedRange N 0 (length N) None" using N by (simp add: builtRange_def)
  from scopedRangeD(1) [OF sc _ assms(2)] assms(3) show u: "u < i" "n_kind (N ! u) = definitionSubprocess"
    by (auto simp: scopedNode_def)
  show "insideBody N u i" using scopedRangeD(3) [OF sc _ assms(2), of u] u(1) assms(2,3) by simp
qed

lemma nested_body:
  assumes N: "builtRange N 0 (length N) None" and "s < length N" "insideBody N s' s" "insideBody N s i"
  shows "insideBody N s' i"
  using insideBody_nested [of N 0 "length N" None s' s i] assms by (simp add: builtRange_def below_def)

lemma membersOf_range:
  assumes N: "builtRange N 0 (length N) None" and m: "m < length N" and i: "i \<in> membersOf N m"
  shows "i < length N"
proof -
  from i consider "i = m" | "i \<in> set (n_children (N ! m))" | j where "insideBody N m j" "i = j \<or> i \<in> set (n_children (N ! j))"
    unfolding membersOf_def by (auto split: if_splits)
  then show ?thesis
    using m child_stage(1) [OF N] insideBody_kind(2) [OF N m] by cases auto
qed

lemma membersOf_body: "n_kind (N ! m) = definitionSubprocess \<Longrightarrow> insideBody N m j \<Longrightarrow> j \<in> membersOf N m"
  by (auto simp: membersOf_def)

lemma membersOf_closed:
  assumes N: "builtRange N 0 (length N) None" and m: "m < length N" "n_parent (N ! m) = None" and i: "i \<in> membersOf N m"
  shows "set (n_children (N ! i)) \<subseteq> membersOf N m" "\<And>j. insideBody N i j \<Longrightarrow> j \<in> membersOf N m"
    "n_parent (N ! i) = Some p \<Longrightarrow> p \<in> membersOf N m"
proof -
  have inside: "set (n_children (N ! k)) \<subseteq> membersOf N m \<and> (\<forall>j. insideBody N k j \<longrightarrow> j \<in> membersOf N m) \<and>
      (\<forall>p. n_parent (N ! k) = Some p \<longrightarrow> p \<in> membersOf N m)" if k: "insideBody N m k" for k
  proof -
    note mk = insideBody_kind [OF N m(1) k]
    have "p \<in> membersOf N m" if "n_parent (N ! k) = Some p" for p
    proof -
      note st = stage_scope [OF N mk(2) that]
      have "insideBody N m p" using insideBody_scope [OF N mk(2) _ m(1) st(2)] st(1) mk(2) k by simp
      then show ?thesis using membersOf_body [OF mk(1)] by simp
    qed
    moreover have "j \<in> membersOf N m" if "insideBody N k j" for j
      using membersOf_body [OF mk(1)] nested_body [OF N mk(2) k that] by simp
    moreover have "set (n_children (N ! k)) \<subseteq> membersOf N m" using k mk(1) by (auto simp: membersOf_def)
    ultimately show ?thesis by blast
  qed
  have stage: "set (n_children (N ! k)) \<subseteq> membersOf N m \<and> (\<forall>j. insideBody N k j \<longrightarrow> j \<in> membersOf N m) \<and>
      (\<forall>p. n_parent (N ! k) = Some p \<longrightarrow> p \<in> membersOf N m)"
    if c: "c \<in> membersOf N m" "c < length N" "k \<in> set (n_children (N ! c))" for c k
  proof -
    note ch = child_stage [OF N c(2,3)]
    note st = stage_scope [OF N ch(1,3)]
    show ?thesis using c(1) ch(3) st(5,6) by (simp add: insideBody_def)
  qed
  have self: "set (n_children (N ! m)) \<subseteq> membersOf N m \<and> (\<forall>j. insideBody N m j \<longrightarrow> j \<in> membersOf N m) \<and>
      (\<forall>p. n_parent (N ! m) = Some p \<longrightarrow> p \<in> membersOf N m)"
    using m insideBody_kind(1) [OF N m(1)] membersOf_body by (auto simp: membersOf_def)
  from i consider "i = m" | "i \<in> set (n_children (N ! m))" | "insideBody N m i" | j where "insideBody N m j" "i \<in> set (n_children (N ! j))"
    unfolding membersOf_def by (auto split: if_splits)
  then have "set (n_children (N ! i)) \<subseteq> membersOf N m \<and> (\<forall>j. insideBody N i j \<longrightarrow> j \<in> membersOf N m) \<and>
      (\<forall>p. n_parent (N ! i) = Some p \<longrightarrow> p \<in> membersOf N m)"
  proof cases
    case 1
    from self show ?thesis unfolding 1 .
  next
    case 2
    then show ?thesis by (intro stage [of m]) (use m(1) in \<open>simp_all add: membersOf_def\<close>)
  next
    case (4 j)
    have "j \<in> membersOf N m" using membersOf_body insideBody_kind(1) [OF N m(1) 4(1)] 4(1) by simp
    from stage [OF this insideBody_kind(2) [OF N m(1) 4(1)] 4(2)] show ?thesis .
  next
    case 3
    from inside [OF this] show ?thesis .
  qed
  then show "set (n_children (N ! i)) \<subseteq> membersOf N m" "\<And>j. insideBody N i j \<Longrightarrow> j \<in> membersOf N m"
    "n_parent (N ! i) = Some p \<Longrightarrow> p \<in> membersOf N m" by blast+
qed

lemma membersOf_outside:
  assumes N: "builtRange N 0 (length N) None" and m: "m < length N" "n_parent (N ! m) = None" and i: "i \<in> membersOf N m"
    and x: "x < length N" "n_scope (N ! x) = n_scope (N ! m)"
  shows "\<not> insideBody N i x"
proof
  assume inside: "insideBody N i x"
  have il: "i < length N" by (rule membersOf_range [OF N m(1) i])
  have kind: "n_kind (N ! i) = definitionSubprocess" using insideBody_kind(1) [OF N il inside] .
  have im: "insideBody N i m" using insideBody_scope [OF N x(1) m(1) il x(2)] inside by simp
  from i consider "i = m" | "i \<in> set (n_children (N ! m))" | "insideBody N m i" | j where "insideBody N m j" "i \<in> set (n_children (N ! j))"
    unfolding membersOf_def by (auto split: if_splits)
  then have "m \<le> i"
  proof cases
    case 2
    from child_stage(2) [OF N m(1) this] show ?thesis by simp
  next
    case 3
    from insideBody_less [OF this] show ?thesis by simp
  next
    case (4 j)
    from child_stage(2) [OF N insideBody_kind(2) [OF N m(1) 4(1)] 4(2)] insideBody_less [OF 4(1)] show ?thesis by simp
  qed simp
  with insideBody_less [OF im] show False by simp
qed

section \<open>Prepared loops\<close>

definition looped :: "preparing \<Rightarrow> Definition \<Rightarrow> definitionLoop \<Rightarrow> bool" where
  "looped s d l \<longleftrightarrow>
     l_edge l < length (d_edges d) \<and> l_from l = e_fromIndex (edge_at d (l_edge l)) \<and> l_to l = e_toIndex (edge_at d (l_edge l)) \<and>
     l_outcome l = e_outcome (edge_at d (l_edge l)) \<and> n_kind (pr_nodes s ! l_from l) = definitionDecision \<and>
     2 \<le> l_maxIterations l \<and> l_maxIterations l \<le> 100 \<and> sorted (l_body l) \<and>
     (\<exists>ms. l_from l \<in> ms \<and> l_to l \<in> ms \<and> set (l_body l) = (\<Union>m\<in>ms. membersOf (pr_nodes s) m) \<and>
        (\<forall>m\<in>ms. m < length (pr_nodes s) \<and> n_scope (pr_nodes s ! m) = n_scope (pr_nodes s ! l_from l) \<and> n_parent (pr_nodes s ! m) = None) \<and>
        (\<forall>ei\<in>set (l_exits l). ei < length (d_edges d) \<and> e_fromIndex (edge_at d ei) \<in> ms))"

lemma loopEdgeIndex_edged:
  assumes "edged s d" "ready s" "loopEdgeIndex d from oc = Some ei"
  shows "ei < length (d_edges d)" "e_outcome (edge_at d ei) = oc" "fmlookup (pr_index s) from = Some (e_fromIndex (edge_at d ei))"
proof -
  from assms obtain i where i: "fmlookup (pr_index s) from = Some i" "find (\<lambda>ei. e_outcome (edge_at d ei) = oc) (n_outgoing (node_at d i)) = Some ei"
    by (auto simp: loopEdgeIndex_def edged_def split: option.splits)
  have "indexOk (pr_nodes s) (pr_index s)" using assms(2) by (simp add: ready_def)
  from iffD1 [OF indexOk_lookup [OF this] i(1)] have il: "i < length (pr_nodes s)" by blast
  from i(2) have ei: "ei \<in> set (n_outgoing (node_at d i))" "e_outcome (edge_at d ei) = oc"
    unfolding find_Some_iff by (auto simp: in_set_conv_nth)
  have "\<forall>j\<in>set (n_outgoing (node_at d i)). j < length (d_edges d) \<and> e_fromIndex (edge_at d j) = i"
    using assms(1) il unfolding edged_def by blast
  with ei i(1) show "ei < length (d_edges d)" "e_outcome (edge_at d ei) = oc" "fmlookup (pr_index s) from = Some (e_fromIndex (edge_at d ei))"
    by auto
qed

lemma collectR_Inr: "collectR f xs = Inr ys \<Longrightarrow> map Some ys = map f xs"
  by (induction xs arbitrary: ys) (auto simp: bindR_Inr_iff split: option.splits)

lemma edged_node:
  assumes "edged s d" "i < length (pr_nodes s)"
  shows "n_children (node_at d i) = n_children (pr_nodes s ! i)" "n_kind (node_at d i) = n_kind (pr_nodes s ! i)"
    "n_scopeEnd (node_at d i) = n_scopeEnd (pr_nodes s ! i)"
proof -
  have "node_at d i = (pr_nodes s ! i)\<lparr>n_outgoing := n_outgoing (node_at d i)\<rparr>" using assms unfolding edged_def by blast
  note eq = this
  show "n_children (node_at d i) = n_children (pr_nodes s ! i)" "n_kind (node_at d i) = n_kind (pr_nodes s ! i)"
    "n_scopeEnd (node_at d i) = n_scopeEnd (pr_nodes s ! i)" by (subst eq, simp)+
qed

lemma bodyRange_inside: "n_scopeEnd (node_at d m) = n_scopeEnd (N ! m) \<Longrightarrow> j \<in> set (bodyRange d m) \<longleftrightarrow> insideBody N m j"
  by (auto simp: bodyRange_def insideBody_def split: option.splits)

lemma bodyMembers_edged:
  assumes d: "edged s d" and N: "builtRange (pr_nodes s) 0 (length (pr_nodes s)) None" and m: "m < length (pr_nodes s)"
  shows "set (bodyMembers d m) = membersOf (pr_nodes s) m"
proof -
  note at = edged_node [OF d m]
  have range: "j \<in> set (bodyRange d m) \<longleftrightarrow> insideBody (pr_nodes s) m j" for j by (rule bodyRange_inside [OF at(3)])
  have "n_children (node_at d j) = n_children (pr_nodes s ! j)" if "insideBody (pr_nodes s) m j" for j
    using edged_node(1) [OF d insideBody_kind(2) [OF N m that]] .
  then show ?thesis by (auto simp: bodyMembers_def membersOf_def Let_def at range)
qed

lemma prepareLoop_looped:
  assumes run: "prepareLoop p d0 = Inr d'" and d0: "d_nodes d0 = d_nodes d" "d_edges d0 = d_edges d" "d_index d0 = d_index d"
    and d: "edged s d" and s: "ready s" and p: "pendingOk s p"
  shows "\<exists>l. d' = d0\<lparr>d_loops := d_loops d0 @ [l]\<rparr> \<and> looped s d l \<and> n_id (pr_nodes s ! l_from l) = pl_from p \<and> l_outcome l = pl_outcome p \<and> l_inner l = []"
proof -
  have same: "loopEdgeIndex d0 = loopEdgeIndex d" "bodyMembers d0 = bodyMembers d"
    by (auto simp: fun_eq_iff loopEdgeIndex_def bodyMembers_def bodyRange_def d0 Let_def split: option.splits)
  note N = s [unfolded ready_def]
  from run obtain ei ms exits where ei: "loopEdgeIndex d (pl_from p) (pl_outcome p) = Some ei"
    and ms: "collectR (fmlookup (pr_index s)) (pl_body p) = Inr ms"
    and ex: "collectR (\<lambda>(from, oc). loopEdgeIndex d from oc) (pl_exits p) = Inr exits"
    and d': "d' = d0\<lparr>d_loops := d_loops d0 @
                [\<lparr>l_edge = ei, l_from = e_fromIndex (edge_at d ei), l_to = e_toIndex (edge_at d ei),
                  l_outcome = pl_outcome p, l_maxIterations = pl_maxIterations p, l_onExhausted = pl_onExhausted p,
                  l_body = remdups_adj (sort (concat (map (bodyMembers d) ms))), l_exits = exits, l_inner = []\<rparr>]\<rparr>"
    using d by (auto simp: prepareLoop_def bindR_Inr_iff same d0 edged_def split: option.splits)
  define l where "l = \<lparr>l_edge = ei, l_from = e_fromIndex (edge_at d ei), l_to = e_toIndex (edge_at d ei),
      l_outcome = pl_outcome p, l_maxIterations = pl_maxIterations p, l_onExhausted = pl_onExhausted p,
      l_body = remdups_adj (sort (concat (map (bodyMembers d) ms))), l_exits = exits, l_inner = []\<rparr>"
  from p obtain i nx where i: "i < length (pr_nodes s)" "fmlookup (pr_index s) (pl_from p) = Some i"
    "n_kind (pr_nodes s ! i) = definitionDecision" "fmlookup (pr_nexts s) i = Some nx" "fmlookup nx (pl_outcome p) = Some (pl_to p)"
    and body: "\<forall>k\<in>set (pl_body p). level s (n_scope (pr_nodes s ! i)) k" and "from": "pl_from p \<in> set (pl_body p)"
    and to: "pl_to p \<in> set (pl_body p)" and exits: "fst ` set (pl_exits p) \<subseteq> set (pl_body p)"
    and rounds: "2 \<le> pl_maxIterations p" "pl_maxIterations p \<le> 100" by (auto simp: pendingOk_def)
  note e = loopEdgeIndex_edged [OF d s ei]
  have fi: "e_fromIndex (edge_at d ei) = i" using e(3) i(2) by simp
  have "edgeFrom s (edge_at d ei)" using d e(1) by (simp add: edged_def)
  then have ti: "fmlookup (pr_index s) (pl_to p) = Some (e_toIndex (edge_at d ei))"
    using i(4,5) fi e(2) by (auto simp: edgeFrom_def)
  have mem: "set ms = {m. \<exists>k\<in>set (pl_body p). fmlookup (pr_index s) k = Some m}"
  proof -
    have "set (map Some ms) = set (map (fmlookup (pr_index s)) (pl_body p))" using collectR_Inr [OF ms] by simp
    then have "Some ` set ms = fmlookup (pr_index s) ` set (pl_body p)" by simp
    then show ?thesis by (auto simp: set_eq_iff image_iff) (metis option.inject)+
  qed
  have lev: "m < length (pr_nodes s) \<and> n_scope (pr_nodes s ! m) = n_scope (pr_nodes s ! i) \<and> n_parent (pr_nodes s ! m) = None" if "m \<in> set ms" for m
    using that body unfolding mem by force
  have "set (l_body l) = (\<Union>m\<in>set ms. set (bodyMembers d m))" by (simp add: l_def)
  also have "\<dots> = (\<Union>m\<in>set ms. membersOf (pr_nodes s) m)" using bodyMembers_edged [OF d] N lev by simp
  finally have lb: "set (l_body l) = (\<Union>m\<in>set ms. membersOf (pr_nodes s) m)" .
  have le: "ej < length (d_edges d) \<and> e_fromIndex (edge_at d ej) \<in> set ms" if "ej \<in> set exits" for ej
  proof -
    have "Some ej \<in> set (map (\<lambda>(from, oc). loopEdgeIndex d from oc) (pl_exits p))"
      using that unfolding collectR_Inr [OF ex, symmetric] by simp
    then obtain f oc where f: "(f, oc) \<in> set (pl_exits p)" "loopEdgeIndex d f oc = Some ej" by auto
    then have "f \<in> set (pl_body p)" using exits by force
    with loopEdgeIndex_edged [OF d s f(2)] show ?thesis unfolding mem by blast
  qed
  have "l_from l \<in> set ms" "l_to l \<in> set ms" using i(2) ti fi "from" to unfolding mem l_def by auto
  moreover have lf: "l_edge l = ei" "l_from l = i" "l_to l = e_toIndex (edge_at d ei)" "l_outcome l = pl_outcome p"
    "l_maxIterations l = pl_maxIterations p" "l_exits l = exits" "l_inner l = []" "sorted (l_body l)" by (simp_all add: l_def fi)
  ultimately have ends: "i \<in> set ms" "e_toIndex (edge_at d ei) \<in> set ms" by simp_all
  have ex: "\<exists>ms. l_from l \<in> ms \<and> l_to l \<in> ms \<and> set (l_body l) = (\<Union>m\<in>ms. membersOf (pr_nodes s) m) \<and>
        (\<forall>m\<in>ms. m < length (pr_nodes s) \<and> n_scope (pr_nodes s ! m) = n_scope (pr_nodes s ! l_from l) \<and> n_parent (pr_nodes s ! m) = None) \<and>
        (\<forall>ei\<in>set (l_exits l). ei < length (d_edges d) \<and> e_fromIndex (edge_at d ei) \<in> ms)"
  proof (intro exI [of _ "set ms"] conjI ballI)
    show "l_from l \<in> set ms" "l_to l \<in> set ms" unfolding lf by (rule ends)+
    show "set (l_body l) = (\<Union>m\<in>set ms. membersOf (pr_nodes s) m)" by (rule lb)
  next
    fix m assume "m \<in> set ms"
    from lev [OF this] show "m < length (pr_nodes s)" "n_scope (pr_nodes s ! m) = n_scope (pr_nodes s ! l_from l)" "n_parent (pr_nodes s ! m) = None"
      unfolding lf by blast+
  next
    fix ej assume "ej \<in> set (l_exits l)"
    from le [OF this [unfolded lf]] show "ej < length (d_edges d)" "e_fromIndex (edge_at d ej) \<in> set ms" by blast+
  qed
  have "l_edge l < length (d_edges d)" "l_from l = e_fromIndex (edge_at d (l_edge l))" "l_to l = e_toIndex (edge_at d (l_edge l))"
    "l_outcome l = e_outcome (edge_at d (l_edge l))" "n_kind (pr_nodes s ! l_from l) = definitionDecision"
    "2 \<le> l_maxIterations l" "l_maxIterations l \<le> 100"
    using e(1,2) i(3) fi rounds unfolding lf by simp_all
  then have "looped s d l" unfolding looped_def using lf(8) ex by (intro conjI)
  moreover have "n_id (pr_nodes s ! l_from l) = pl_from p"
    using iffD1 [OF indexOk_lookup [of "pr_nodes s" "pr_index s"] i(2)] N fi by (simp add: l_def)
  moreover have "d' = d0\<lparr>d_loops := d_loops d0 @ [l]\<rparr>" "l_outcome l = pl_outcome p" "l_inner l = []" by (simp_all add: d' l_def)
  ultimately show ?thesis by blast
qed

lemma prepareLoop_all:
  assumes run: "foldR prepareLoop ps d = Inr d'" and d: "edged s d" and s: "ready s" and ps: "\<And>p. p \<in> set ps \<Longrightarrow> pendingOk s p"
  shows "d_nodes d' = d_nodes d \<and> d_edges d' = d_edges d \<and> d_index d' = d_index d \<and> (\<forall>l\<in>set (d_loops d'). looped s d l \<and> l_inner l = []) \<and>
    map (\<lambda>l. (n_id (pr_nodes s ! l_from l), l_outcome l)) (d_loops d') = map loopKey ps"
proof (rule foldR_prefixes [OF run])
  show "d_nodes d = d_nodes d \<and> d_edges d = d_edges d \<and> d_index d = d_index d \<and> (\<forall>l\<in>set (d_loops d). looped s d l \<and> l_inner l = []) \<and>
      map (\<lambda>l. (n_id (pr_nodes s ! l_from l), l_outcome l)) (d_loops d) = map loopKey []" using d by (simp add: edged_def)
next
  fix qs p x y
  assume p: "p \<in> set ps" and x: "d_nodes x = d_nodes d \<and> d_edges x = d_edges d \<and> d_index x = d_index d \<and>
      (\<forall>l\<in>set (d_loops x). looped s d l \<and> l_inner l = []) \<and> map (\<lambda>l. (n_id (pr_nodes s ! l_from l), l_outcome l)) (d_loops x) = map loopKey qs"
    and step: "prepareLoop p x = Inr y"
  have "d_nodes x = d_nodes d" "d_edges x = d_edges d" "d_index x = d_index d" using x by simp_all
  from prepareLoop_looped [OF step this d s ps [OF p]] x
  show "d_nodes y = d_nodes d \<and> d_edges y = d_edges d \<and> d_index y = d_index d \<and> (\<forall>l\<in>set (d_loops y). looped s d l \<and> l_inner l = []) \<and>
      map (\<lambda>l. (n_id (pr_nodes s ! l_from l), l_outcome l)) (d_loops y) = map loopKey (qs @ [p])" by auto
qed

end
