(* ===== verification/Prepare_Wellformed.thy ===== *)
theory Prepare_Wellformed
  imports Prepare_Rounds
begin

text \<open>
  What \<open>Prepare\<close> returns is well-formed: the facts of the passes put together, and each part of \<open>wf_definition\<close>
  derived from them.
\<close>

section \<open>Arrivals\<close>

definition arrivals :: "Definition \<Rightarrow> nat \<Rightarrow> Definition \<Rightarrow> bool" where
  "arrivals d0 k d \<longleftrightarrow>
     sameGraph d0 d \<and> d_edges d = d_edges d0 \<and> d_loops d = d_loops d0 \<and>
     (\<forall>i<length (d_nodes d0).
        n_loops (node_at d i) = n_loops (node_at d0 i) \<and> n_sourceOf (node_at d i) = n_sourceOf (node_at d0 i) \<and>
        distinct (n_incoming (node_at d i)) \<and>
        set (n_incoming (node_at d i)) = {j. j < k \<and> e_toIndex (edge_at d0 j) = i \<and> e_loop (edge_at d0 j) = None})"

lemma addIncoming_arrivals:
  assumes inv: "arrivals d0 k d" and to: "e_toIndex (edge_at d0 k) < length (d_nodes d0)"
  shows "arrivals d0 (Suc k) (addIncoming k d)"
proof -
  let ?t = "e_toIndex (edge_at d0 k)"
  have frame: "d_edges d = d_edges d0" "d_loops d = d_loops d0" "sameGraph d0 d" using inv by (simp_all add: arrivals_def)
  note len = sameGraph_lengths [OF frame(3)]
  have at: "n_loops (node_at d i) = n_loops (node_at d0 i) \<and> n_sourceOf (node_at d i) = n_sourceOf (node_at d0 i) \<and>
        distinct (n_incoming (node_at d i)) \<and>
        set (n_incoming (node_at d i)) = {j. j < k \<and> e_toIndex (edge_at d0 j) = i \<and> e_loop (edge_at d0 j) = None}"
    if "i < length (d_nodes d0)" for i using inv that by (simp add: arrivals_def)
  show ?thesis
  proof (cases "e_loop (edge_at d0 k) = None")
    case False
    then have "addIncoming k d = d" by (simp add: addIncoming_def Let_def frame)
    then show ?thesis using frame at False unfolding arrivals_def by (auto simp: less_Suc_eq)
  next
    case True
    define d1 where "d1 = updateNodeAt ?t (\<lambda>n. n\<lparr>n_incoming := n_incoming n @ [k]\<rparr>) d"
    have nodes: "d_nodes (addIncoming k d) = d_nodes d1" "d_edges (addIncoming k d) = d_edges d1" "d_loops (addIncoming k d) = d_loops d1"
      "d_index (addIncoming k d) = d_index d1"
      using True by (auto simp: addIncoming_def Let_def frame d1_def updateNodeAt_def)
    have "sameGraph d d1" unfolding d1_def by (rule sameGraph_updateNodeAt) (simp add: bareNode_def)
    with frame(3) have "sameGraph d0 d1" by (rule sameGraph_trans)
    then have g: "sameGraph d0 (addIncoming k d)" by (simp add: sameGraph_def nodes)
    have n: "node_at d1 i = (if i = ?t then (node_at d i)\<lparr>n_incoming := n_incoming (node_at d i) @ [k]\<rparr> else node_at d i)"
      if "i < length (d_nodes d0)" for i using that len by (simp add: d1_def node_at_update)
    have "n_loops (node_at d1 i) = n_loops (node_at d0 i) \<and> n_sourceOf (node_at d1 i) = n_sourceOf (node_at d0 i) \<and>
        distinct (n_incoming (node_at d1 i)) \<and>
        set (n_incoming (node_at d1 i)) = {j. j < Suc k \<and> e_toIndex (edge_at d0 j) = i \<and> e_loop (edge_at d0 j) = None}"
      if i: "i < length (d_nodes d0)" for i
      unfolding n [OF i] using at [OF i] True by (auto simp: less_Suc_eq)
    then show ?thesis using g frame unfolding arrivals_def nodes by (simp add: d1_def)
  qed
qed

lemma arrivals_all:
  assumes "arrivals d0 0 d0" "\<And>j. j < k \<Longrightarrow> e_toIndex (edge_at d0 j) < length (d_nodes d0)"
  shows "arrivals d0 k (fold addIncoming [0 ..< k] d0)"
  using assms(2)
proof (induction k)
  case (Suc k)
  then have "arrivals d0 k (fold addIncoming [0 ..< k] d0)" by simp
  from addIncoming_arrivals [OF this] Suc.prems show ?case by simp
qed (simp add: assms(1))

section \<open>The facts of all passes\<close>

definition finishedNode :: "preparing \<Rightarrow> Definition \<Rightarrow> nat \<Rightarrow> bool" where
  "finishedNode s d i \<longleftrightarrow>
     bareNode (node_at d i) = bareNode ((pr_nodes s ! i)\<lparr>n_outgoing := n_outgoing (node_at d i)\<rparr>) \<and>
     (\<forall>j\<in>set (n_outgoing (node_at d i)). j < length (d_edges d) \<and> e_fromIndex (edge_at d j) = i) \<and>
     distinct (outcomesOf d i) \<and> distinct (n_incoming (node_at d i)) \<and>
     set (n_incoming (node_at d i)) = {j. j < length (d_edges d) \<and> e_toIndex (edge_at d j) = i \<and> e_loop (edge_at d j) = None} \<and>
     (\<forall>li\<in>set (n_loops (node_at d i)). li < length (d_loops d) \<and> i \<in> set (l_body (loop_at d li))) \<and>
     (\<forall>li\<in>set (n_sourceOf (node_at d i)). li < length (d_loops d) \<and> l_from (loop_at d li) = i)"

definition finishedEdge :: "preparing \<Rightarrow> Definition \<Rightarrow> nat \<Rightarrow> bool" where
  "finishedEdge s d j \<longleftrightarrow>
     edgeFrom s (edge_at d j) \<and> j \<in> set (n_outgoing (node_at d (e_fromIndex (edge_at d j)))) \<and>
     (\<forall>li\<in>set (e_exitOf (edge_at d j)). li < length (d_loops d) \<and> j \<in> set (l_exits (loop_at d li)))"

definition finishedLoop :: "preparing \<Rightarrow> Definition \<Rightarrow> nat \<Rightarrow> bool" where
  "finishedLoop s d li \<longleftrightarrow>
     looped s d (loop_at d li) \<and> li \<in> set (n_sourceOf (node_at d (l_from (loop_at d li)))) \<and>
     (\<forall>i\<in>set (l_body (loop_at d li)). li \<in> set (n_loops (node_at d i))) \<and>
     (\<forall>q\<in>set (l_inner (loop_at d li)). q < length (d_loops d) \<and> set (l_body (loop_at d q)) \<subseteq> set (l_body (loop_at d li)))"

definition finished :: "preparing \<Rightarrow> Definition \<Rightarrow> bool" where
  "finished s d \<longleftrightarrow>
     ready s \<and> length (d_nodes d) = length (pr_nodes s) \<and> (\<forall>i<length (pr_nodes s). finishedNode s d i) \<and>
     (\<forall>j<length (d_edges d). finishedEdge s d j) \<and> (\<forall>li<length (d_loops d). finishedLoop s d li) \<and>
     distinct (map (\<lambda>l. (l_from l, l_outcome l)) (d_loops d))"

lemma edgeFrom_bare:
  assumes "bareEdge e' = bareEdge e"
  shows "edgeFrom s e' = edgeFrom s e"
  unfolding edgeFrom_def bareEdge_fields [OF assms] ..

lemma looped_same:
  assumes "looped s d l" "sameGraph d d'" "bareLoop l' = bareLoop l"
  shows "looped s d' l'"
proof -
  have e: "e_fromIndex (edge_at d' j) = e_fromIndex (edge_at d j)" "e_toIndex (edge_at d' j) = e_toIndex (edge_at d j)"
    "e_outcome (edge_at d' j) = e_outcome (edge_at d j)" if "j < length (d_edges d)" for j
    using bareEdge_fields [OF sameGraph_at(2) [OF assms(2) that]] by simp_all
  note f = bareLoop_fields [OF assms(3)]
  note len = sameGraph_lengths [OF assms(2)] and l = assms(1) [unfolded looped_def]
  from l obtain ms where ms: "l_from l \<in> ms" "l_to l \<in> ms" "set (l_body l) = (\<Union>m\<in>ms. membersOf (pr_nodes s) m)"
    "\<forall>m\<in>ms. m < length (pr_nodes s) \<and> n_scope (pr_nodes s ! m) = n_scope (pr_nodes s ! l_from l) \<and> n_parent (pr_nodes s ! m) = None"
    "\<forall>ei\<in>set (l_exits l). ei < length (d_edges d) \<and> e_fromIndex (edge_at d ei) \<in> ms" by blast
  have "\<forall>ei\<in>set (l_exits l). ei < length (d_edges d) \<and> e_fromIndex (edge_at d' ei) \<in> ms" using ms(5) e(1) by simp
  with ms(1-4) have "\<exists>ms. l_from l \<in> ms \<and> l_to l \<in> ms \<and> set (l_body l) = (\<Union>m\<in>ms. membersOf (pr_nodes s) m) \<and>
        (\<forall>m\<in>ms. m < length (pr_nodes s) \<and> n_scope (pr_nodes s ! m) = n_scope (pr_nodes s ! l_from l) \<and> n_parent (pr_nodes s ! m) = None) \<and>
        (\<forall>ei\<in>set (l_exits l). ei < length (d_edges d) \<and> e_fromIndex (edge_at d' ei) \<in> ms)" by (intro exI [of _ ms] conjI)
  moreover have edge: "l_edge l < length (d_edges d)" using l by blast
  ultimately show ?thesis using l unfolding looped_def f len e [OF edge] by (elim conjE) (intro conjI)
qed

lemma outcomesOf_same:
  assumes "sameGraph d d'" "i < length (d_nodes d)" "\<And>j. j \<in> set (n_outgoing (node_at d i)) \<Longrightarrow> j < length (d_edges d)"
  shows "outcomesOf d' i = outcomesOf d i"
  using assms(3) bareEdge_fields(2) [OF sameGraph_at(2) [OF assms(1)]] bareNode_fields(7) [OF sameGraph_at(1) [OF assms(1,2)]]
  by (simp add: outcomesOf_def)

lemma looped_range:
  assumes "looped s d l" "edged s d" "builtRange (pr_nodes s) 0 (length (pr_nodes s)) None"
  shows "loopIn d l"
proof -
  from assms(1) obtain ms where ms: "l_from l \<in> ms" "set (l_body l) = (\<Union>m\<in>ms. membersOf (pr_nodes s) m)"
    "\<forall>m\<in>ms. m < length (pr_nodes s)" "\<forall>ei\<in>set (l_exits l). ei < length (d_edges d)"
    unfolding looped_def by blast
  have "i < length (pr_nodes s)" if "i \<in> set (l_body l)" for i
    using that membersOf_range [OF assms(3)] ms(2,3) by blast
  then show ?thesis using assms(1,2) ms by (auto simp: looped_def loopIn_def edged_def)
qed

lemma edged_bare:
  assumes "edged s d" "i < length (pr_nodes s)" "builtRange (pr_nodes s) 0 (length (pr_nodes s)) None"
  shows "bareNode (node_at d i) = bareNode ((pr_nodes s ! i)\<lparr>n_outgoing := n_outgoing (node_at d i)\<rparr>)"
    "n_loops (node_at d i) = []" "n_sourceOf (node_at d i) = []" "n_incoming (node_at d i) = []"
proof -
  have eq: "node_at d i = (pr_nodes s ! i)\<lparr>n_outgoing := n_outgoing (node_at d i)\<rparr>" using assms(1,2) unfolding edged_def by blast
  then show "bareNode (node_at d i) = bareNode ((pr_nodes s ! i)\<lparr>n_outgoing := n_outgoing (node_at d i)\<rparr>)" by simp
  have "plainNode (pr_nodes s ! i)" using assms(2,3) by (simp add: builtRange_def)
  then show "n_loops (node_at d i) = []" "n_sourceOf (node_at d i) = []" "n_incoming (node_at d i) = []"
    by (subst eq, simp add: plainNode_def)+
qed

lemma edged_linkInv:
  assumes d: "edged s d" and N: "builtRange (pr_nodes s) 0 (length (pr_nodes s)) None"
    and dL: "d_nodes dL = d_nodes d" "d_edges dL = d_edges d" and l: "\<And>l. l \<in> set (d_loops dL) \<Longrightarrow> l_inner l = []"
  shows "linkInv dL 0 dL"
proof -
  have len: "length (d_nodes d) = length (pr_nodes s)" using d by (simp add: edged_def)
  have "n_loops (node_at d i) = []" "n_sourceOf (node_at d i) = []" "n_incoming (node_at d i) = []" if "i < length (d_nodes d)" for i
    using edged_bare(2-4) [OF d _ N] that len by simp_all
  moreover have "e_exitOf (edge_at d j) = []" if "j < length (d_edges d)" for j using d that by (simp add: edged_def)
  moreover have "l_inner (loop_at dL li) = []" if "li < length (d_loops dL)" for li using l that by simp
  ultimately show ?thesis unfolding linkInv_def by (simp add: dL)
qed

lemma edge_ends:
  assumes "ready s" "edgeFrom s e"
  shows "e_toIndex e < length (pr_nodes s)" "n_id (pr_nodes s ! e_toIndex e) = e_to e"
    "n_scope (pr_nodes s ! e_toIndex e) = n_scope (pr_nodes s ! e_fromIndex e)" "n_parent (pr_nodes s ! e_toIndex e) = None"
proof -
  have ix: "indexOk (pr_nodes s) (pr_index s)" and r: "routed s (e_fromIndex e)" using assms by (auto simp: ready_def edgeFrom_def)
  from assms(2) have to: "fmlookup (pr_index s) (e_to e) = Some (e_toIndex e)" by (simp add: edgeFrom_def)
  from iffD1 [OF indexOk_lookup [OF ix] to] show "e_toIndex e < length (pr_nodes s)" "n_id (pr_nodes s ! e_toIndex e) = e_to e" by blast+
  from assms(2) obtain nx where "fmlookup (pr_nexts s) (e_fromIndex e) = Some nx" "fmlookup nx (e_outcome e) = Some (e_to e)"
    "n_parent (pr_nodes s ! e_fromIndex e) = None" "n_kind (pr_nodes s ! e_fromIndex e) \<noteq> definitionSubprocessExit"
    by (auto simp: edgeFrom_def)
  with r have "level s (n_scope (pr_nodes s ! e_fromIndex e)) (e_to e)" unfolding routed_def by auto
  with to show "n_scope (pr_nodes s ! e_toIndex e) = n_scope (pr_nodes s ! e_fromIndex e)" "n_parent (pr_nodes s ! e_toIndex e) = None"
    by auto
qed

lemma Prepare_finished:
  assumes "Prepare t params = Inr d"
  shows "\<exists>s. finished s d"
proof -
  let ?s0 = "\<lparr>pr_nodes = [], pr_index = fmempty, pr_nexts = fmempty, pr_loops = []\<rparr>"
  from assms obtain s d1 d2 where el: "RequireEligible t = Inr ()"
    and s: "prepareScope (TemplateFallback t) t params [] None None ?s0 = Inr s"
    and d1: "foldR (nodeEdges (pr_nexts s)) [0 ..< length (pr_nodes s)]
        \<lparr>d_nodes = pr_nodes s, d_index = pr_index s, d_edges = [], d_joinAnyIncoming = [], d_loops = []\<rparr> = Inr d1"
    and d2: "prepareLoops (pr_loops s) d1 = Inr d2" and d: "d = fold addIncoming [0 ..< length (d_edges d2)] d2"
    by (auto simp: Prepare_def bindR_Inr_iff)
  have ready: "ready s" by (rule prepared_ready [OF el s])
  then have N: "builtRange (pr_nodes s) 0 (length (pr_nodes s)) None" and pend: "\<And>p. p \<in> set (pr_loops s) \<Longrightarrow> pendingOk s p"
    and keys: "distinct (map loopKey (pr_loops s))" by (simp_all add: ready_def)
  note e1 = edges_edged [OF d1 N]
  from d2 obtain dL where dL: "foldR prepareLoop (pr_loops s) d1 = Inr dL"
    and d2': "d2 = sortLoops (fold linkLoop [0 ..< length (d_loops dL)] dL)" by (auto simp: prepareLoops_def bindR_Inr_iff)
  note L = prepareLoop_all [OF dL e1(1) ready pend]
  have L_frame: "d_nodes dL = d_nodes d1" "d_edges dL = d_edges d1" "d_index dL = d_index d1" using L by blast+
  have L_loops: "looped s d1 l" "l_inner l = []" if "l \<in> set (d_loops dL)" for l using L that by blast+
  have L_in: "loopIn dL l" if "l \<in> set (d_loops dL)" for l
    using looped_range [OF L_loops(1) [OF that] e1(1) N] by (simp add: loopIn_def L_frame)
  have "linkInv dL (length (d_loops dL)) d2" unfolding d2'
    by (intro sortLoops_linkInv linkInv_all L_in edged_linkInv [OF e1(1) N L_frame(1,2)] L_loops(2)) simp_all
  note I = this [unfolded linkInv_def]
  have gL: "sameGraph dL d2" using I by blast
  note lenL = sameGraph_lengths [OF gL, unfolded L_frame(1,2)]
  have g1: "bareEdge (edge_at d2 j) = bareEdge (edge_at d1 j)" if "j < length (d_edges d1)" for j
    using sameGraph_at(2) [OF gL] that L_frame by simp
  have len1: "length (d_nodes d1) = length (pr_nodes s)" using e1(1) by (simp add: edged_def)
  have ef1: "edgeFrom s (edge_at d1 j)" if "j < length (d_edges d1)" for j using e1(1) that by (simp add: edged_def)
  have to: "e_toIndex (edge_at d2 j) < length (d_nodes d2)" if "j < length (d_edges d2)" for j
    using edge_ends(1) [OF ready ef1, of j] bareEdge_fields(5) [OF g1, of j] that lenL len1 by simp
  have "arrivals d2 0 d2" using I lenL by (simp add: arrivals_def L_frame)
  from arrivals_all [OF this, of "length (d_edges d2)"] to have A: "arrivals d2 (length (d_edges d2)) d" unfolding d by blast
  note A' = A [unfolded arrivals_def]
  have gd: "sameGraph d2 d" and de: "d_edges d = d_edges d2" and dl: "d_loops d = d_loops d2" using A' by blast+
  have g: "sameGraph dL d" by (rule sameGraph_trans [OF gL gd])
  note len = sameGraph_lengths [OF g, unfolded L_frame(1,2)]
  have bn: "bareNode (node_at d i) = bareNode (node_at d1 i)" if "i < length (pr_nodes s)" for i
    using sameGraph_at(1) [OF g, of i] that len1 L_frame by simp
  have be: "bareEdge (edge_at d j) = bareEdge (edge_at d1 j)" if "j < length (d_edges d1)" for j
    using sameGraph_at(2) [OF g] that L_frame by simp
  have bl: "bareLoop (loop_at d li) = bareLoop (loop_at dL li)" if "li < length (d_loops dL)" for li by (rule sameGraph_at(3) [OF g that])
  have out1: "j < length (d_edges d1) \<and> e_fromIndex (edge_at d1 j) = i" if "i < length (pr_nodes s)" "j \<in> set (n_outgoing (node_at d1 i))" for i j
    using e1(1) that unfolding edged_def by blast
  have nodes: "bareNode (node_at d i) = bareNode ((pr_nodes s ! i)\<lparr>n_outgoing := n_outgoing (node_at d i)\<rparr>)"
    "\<forall>j\<in>set (n_outgoing (node_at d i)). j < length (d_edges d) \<and> e_fromIndex (edge_at d j) = i" "distinct (outcomesOf d i)"
    if i: "i < length (pr_nodes s)" for i
  proof -
    note f = bareNode_fields(7) [OF bn [OF i]]
    show "bareNode (node_at d i) = bareNode ((pr_nodes s ! i)\<lparr>n_outgoing := n_outgoing (node_at d i)\<rparr>)"
      using edged_bare(1) [OF e1(1) i N] bn [OF i] f by simp
    show "\<forall>j\<in>set (n_outgoing (node_at d i)). j < length (d_edges d) \<and> e_fromIndex (edge_at d j) = i"
      using out1 [OF i] bareEdge_fields(4) [OF be] len(2) unfolding f by simp
    have "outcomesOf d i = outcomesOf d1 i"
      unfolding outcomesOf_def f using out1 [OF i] bareEdge_fields(2) [OF be] by simp
    then show "distinct (outcomesOf d i)" using e1(2) [OF i] by simp
  qed
  have arr: "distinct (n_incoming (node_at d i))" "n_loops (node_at d i) = n_loops (node_at d2 i)" "n_sourceOf (node_at d i) = n_sourceOf (node_at d2 i)"
    "set (n_incoming (node_at d i)) = {j. j < length (d_edges d) \<and> e_toIndex (edge_at d j) = i \<and> e_loop (edge_at d j) = None}"
    if "i < length (pr_nodes s)" for i using A' that lenL len1 de by simp_all
  have marks: "\<forall>li\<in>set (n_loops (node_at d i)). li < length (d_loops d) \<and> i \<in> set (l_body (loop_at d li))"
    "\<forall>li\<in>set (n_sourceOf (node_at d i)). li < length (d_loops d) \<and> l_from (loop_at d li) = i" if i: "i < length (pr_nodes s)" for i
  proof -
    have i': "i < length (d_nodes dL)" using i len1 L_frame by simp
    have "\<forall>li\<in>set (n_loops (node_at d2 i)). li < length (d_loops dL) \<and> i \<in> set (l_body (loop_at dL li))"
      "\<forall>li\<in>set (n_sourceOf (node_at d2 i)). li < length (d_loops dL) \<and> l_from (loop_at dL li) = i" using I i' by blast+
    then show "\<forall>li\<in>set (n_loops (node_at d i)). li < length (d_loops d) \<and> i \<in> set (l_body (loop_at d li))"
      "\<forall>li\<in>set (n_sourceOf (node_at d i)). li < length (d_loops d) \<and> l_from (loop_at d li) = i"
      unfolding arr(2,3) [OF i] using bareLoop_fields(2,6) [OF bl] len(3) by simp_all
  qed
  have edges: "edgeFrom s (edge_at d j) \<and> j \<in> set (n_outgoing (node_at d (e_fromIndex (edge_at d j)))) \<and>
      (\<forall>li\<in>set (e_exitOf (edge_at d j)). li < length (d_loops d) \<and> j \<in> set (l_exits (loop_at d li)))" if "j < length (d_edges d)" for j
  proof -
    have j: "j < length (d_edges d1)" using that len by simp
    have "edgeFrom s (edge_at d j)" using ef1 [OF j] edgeFrom_bare [OF be [OF j]] by simp
    moreover have "j \<in> set (n_outgoing (node_at d (e_fromIndex (edge_at d j))))"
    proof -
      have "e_fromIndex (edge_at d1 j) < length (pr_nodes s)" using ef1 [OF j] by (simp add: edgeFrom_def)
      from bareNode_fields(7) [OF bn [OF this]] bareEdge_fields(4) [OF be [OF j]] e1(1) j show ?thesis by (simp add: edged_def)
    qed
    moreover have "\<forall>li\<in>set (e_exitOf (edge_at d j)). li < length (d_loops d) \<and> j \<in> set (l_exits (loop_at d li))"
    proof -
      have "\<forall>li\<in>set (e_exitOf (edge_at d2 j)). li < length (d_loops dL) \<and> j \<in> set (l_exits (loop_at dL li))"
        using I j L_frame by simp
      then show ?thesis unfolding de using bareLoop_fields(7) [OF bl] len(3) by simp
    qed
    ultimately show ?thesis by blast
  qed
  have loops: "looped s d (loop_at d li) \<and> li \<in> set (n_sourceOf (node_at d (l_from (loop_at d li)))) \<and>
      (\<forall>i\<in>set (l_body (loop_at d li)). li \<in> set (n_loops (node_at d i))) \<and>
      (\<forall>q\<in>set (l_inner (loop_at d li)). q < length (d_loops d) \<and> set (l_body (loop_at d q)) \<subseteq> set (l_body (loop_at d li)))"
    if "li < length (d_loops d)" for li
  proof -
    have li: "li < length (d_loops dL)" using that len by simp
    have "looped s d1 (loop_at dL li)" using L_loops(1) li by simp
    then have lL: "looped s dL (loop_at dL li)" unfolding looped_def L_frame .
    note f = bareLoop_fields [OF bl [OF li]]
    have in_range: "l_from (loop_at dL li) < length (pr_nodes s)" "\<And>i. i \<in> set (l_body (loop_at dL li)) \<Longrightarrow> i < length (pr_nodes s)"
      using L_in [of "loop_at dL li"] li len1 by (auto simp: loopIn_def L_frame)
    have "li \<in> set (n_sourceOf (node_at d2 (l_from (loop_at dL li))))" "\<forall>i\<in>set (l_body (loop_at dL li)). li \<in> set (n_loops (node_at d2 i))"
      using I li by blast+
    moreover have "\<forall>q\<in>set (l_inner (loop_at d2 li)). q < length (d_loops dL) \<and> set (l_body (loop_at dL q)) \<subseteq> set (l_body (loop_at dL li))"
      using I li by blast
    ultimately show ?thesis
      using looped_same [OF lL g bl [OF li]] arr(2) [OF in_range(2)] arr(3) [OF in_range(1)] bareLoop_fields(6) [OF bl] len(3)
      unfolding f dl [symmetric] by simp
  qed
  have "distinct (map (\<lambda>l. (l_from l, l_outcome l)) (d_loops dL))"
  proof -
    have "map (\<lambda>l. (n_id (pr_nodes s ! l_from l), l_outcome l)) (d_loops dL) = map loopKey (pr_loops s)" using L by blast
    then have "distinct (map (\<lambda>(f, oc). (n_id (pr_nodes s ! f), oc)) (map (\<lambda>l. (l_from l, l_outcome l)) (d_loops dL)))"
      using keys by (simp add: comp_def)
    then show ?thesis by (simp only: distinct_map)
  qed
  moreover have "map (\<lambda>l. (l_from l, l_outcome l)) (d_loops d) = map (\<lambda>l. (l_from l, l_outcome l)) (d_loops dL)"
    using bareLoop_fields(2,4) [OF bl] len(3) by (intro nth_equalityI) simp_all
  ultimately have "distinct (map (\<lambda>l. (l_from l, l_outcome l)) (d_loops d))" by simp
  moreover have "length (d_nodes d) = length (pr_nodes s)" using len len1 by simp
  moreover have "finishedNode s d i" if "i < length (pr_nodes s)" for i
    unfolding finishedNode_def using nodes [OF that] arr(1,4) [OF that] marks [OF that] by (intro conjI)
  moreover have "finishedEdge s d j" if "j < length (d_edges d)" for j unfolding finishedEdge_def by (rule edges [OF that])
  moreover have "finishedLoop s d li" if "li < length (d_loops d)" for li unfolding finishedLoop_def by (rule loops [OF that])
  ultimately have "finished s d" unfolding finished_def using ready by simp
  then show ?thesis by blast
qed

end
