(* ===== verification/Prepare_Correct.thy ===== *)
theory Prepare_Correct
  imports Prepare_Wellformed
begin

text \<open>Each part of \<open>wf_definition\<close> from the facts of the passes, and the theorem about \<open>Prepare\<close>.\<close>

lemma finished_nodes:
  assumes "finished s d" "i < length (pr_nodes s)"
  shows "n_id (node_at d i) = n_id (pr_nodes s ! i)" "n_kind (node_at d i) = n_kind (pr_nodes s ! i)"
    "n_agent (node_at d i) = n_agent (pr_nodes s ! i)" "n_maxAttempts (node_at d i) = n_maxAttempts (pr_nodes s ! i)"
    "n_retryAuthored (node_at d i) = n_retryAuthored (pr_nodes s ! i)" "n_terminal (node_at d i) = n_terminal (pr_nodes s ! i)"
    "n_joinAny (node_at d i) = n_joinAny (pr_nodes s ! i)" "n_children (node_at d i) = n_children (pr_nodes s ! i)"
    "n_parent (node_at d i) = n_parent (pr_nodes s ! i)" "n_stage (node_at d i) = n_stage (pr_nodes s ! i)"
    "n_doAnchor (node_at d i) = n_doAnchor (pr_nodes s ! i)" "n_planAnchor (node_at d i) = n_planAnchor (pr_nodes s ! i)"
    "n_approvalGate (node_at d i) = n_approvalGate (pr_nodes s ! i)" "n_scope (node_at d i) = n_scope (pr_nodes s ! i)"
    "n_scopeEnd (node_at d i) = n_scopeEnd (pr_nodes s ! i)" "n_entry (node_at d i) = n_entry (pr_nodes s ! i)"
proof -
  have "bareNode (node_at d i) = bareNode ((pr_nodes s ! i)\<lparr>n_outgoing := n_outgoing (node_at d i)\<rparr>)"
    using assms by (simp add: finished_def finishedNode_def)
  note f = bareNode_fields [OF this]
  show "n_id (node_at d i) = n_id (pr_nodes s ! i)" "n_kind (node_at d i) = n_kind (pr_nodes s ! i)"
    "n_agent (node_at d i) = n_agent (pr_nodes s ! i)" "n_maxAttempts (node_at d i) = n_maxAttempts (pr_nodes s ! i)"
    "n_retryAuthored (node_at d i) = n_retryAuthored (pr_nodes s ! i)" "n_terminal (node_at d i) = n_terminal (pr_nodes s ! i)"
    "n_joinAny (node_at d i) = n_joinAny (pr_nodes s ! i)" "n_children (node_at d i) = n_children (pr_nodes s ! i)"
    "n_parent (node_at d i) = n_parent (pr_nodes s ! i)" "n_stage (node_at d i) = n_stage (pr_nodes s ! i)"
    "n_doAnchor (node_at d i) = n_doAnchor (pr_nodes s ! i)" "n_planAnchor (node_at d i) = n_planAnchor (pr_nodes s ! i)"
    "n_approvalGate (node_at d i) = n_approvalGate (pr_nodes s ! i)" "n_scope (node_at d i) = n_scope (pr_nodes s ! i)"
    "n_scopeEnd (node_at d i) = n_scopeEnd (pr_nodes s ! i)" "n_entry (node_at d i) = n_entry (pr_nodes s ! i)"
    using f by simp_all
qed

lemma finishedD:
  assumes "finished s d"
  shows "ready s" "builtRange (pr_nodes s) 0 (length (pr_nodes s)) None" "length (d_nodes d) = length (pr_nodes s)"
    "distinct (map (\<lambda>l. (l_from l, l_outcome l)) (d_loops d))"
  using assms by (simp_all add: finished_def ready_def)

lemma finished_at:
  assumes "finished s d" "i < length (pr_nodes s)"
  shows "\<forall>j\<in>set (n_outgoing (node_at d i)). j < length (d_edges d) \<and> e_fromIndex (edge_at d j) = i"
    "distinct (outcomesOf d i)" "distinct (n_incoming (node_at d i))"
    "set (n_incoming (node_at d i)) = {j. j < length (d_edges d) \<and> e_toIndex (edge_at d j) = i \<and> e_loop (edge_at d j) = None}"
    "\<forall>li\<in>set (n_loops (node_at d i)). li < length (d_loops d) \<and> i \<in> set (l_body (loop_at d li))"
    "\<forall>li\<in>set (n_sourceOf (node_at d i)). li < length (d_loops d) \<and> l_from (loop_at d li) = i"
    "plainNode (pr_nodes s ! i)" "linkedNode (pr_nodes s) 0 (length (pr_nodes s)) i"
proof -
  show "\<forall>j\<in>set (n_outgoing (node_at d i)). j < length (d_edges d) \<and> e_fromIndex (edge_at d j) = i"
    "distinct (outcomesOf d i)" "distinct (n_incoming (node_at d i))"
    "set (n_incoming (node_at d i)) = {j. j < length (d_edges d) \<and> e_toIndex (edge_at d j) = i \<and> e_loop (edge_at d j) = None}"
    "\<forall>li\<in>set (n_loops (node_at d i)). li < length (d_loops d) \<and> i \<in> set (l_body (loop_at d li))"
    "\<forall>li\<in>set (n_sourceOf (node_at d i)). li < length (d_loops d) \<and> l_from (loop_at d li) = i"
    using assms by (simp_all add: finished_def finishedNode_def)
  show "plainNode (pr_nodes s ! i)" "linkedNode (pr_nodes s) 0 (length (pr_nodes s)) i"
    using finishedD(2) [OF assms(1)] assms(2) by (simp_all add: builtRange_def)
qed

lemma finished_edge:
  assumes "finished s d" "j < length (d_edges d)"
  shows "edgeFrom s (edge_at d j)" "j \<in> set (n_outgoing (node_at d (e_fromIndex (edge_at d j))))"
    "\<forall>li\<in>set (e_exitOf (edge_at d j)). li < length (d_loops d) \<and> j \<in> set (l_exits (loop_at d li))"
  using assms by (simp_all add: finished_def finishedEdge_def)

lemma finished_loop:
  assumes "finished s d" "li < length (d_loops d)"
  shows "looped s d (loop_at d li)" "li \<in> set (n_sourceOf (node_at d (l_from (loop_at d li))))"
    "\<forall>i\<in>set (l_body (loop_at d li)). li \<in> set (n_loops (node_at d i))"
    "\<forall>q\<in>set (l_inner (loop_at d li)). q < length (d_loops d) \<and> set (l_body (loop_at d q)) \<subseteq> set (l_body (loop_at d li))"
  using assms by (simp_all add: finished_def finishedLoop_def)

lemma finished_inBody:
  assumes "finished s d" "x < length (pr_nodes s)"
  shows "inBody d x i \<longleftrightarrow> insideBody (pr_nodes s) x i"
  unfolding inBody_def by (rule bodyRange_inside [OF finished_nodes(15) [OF assms]])

lemma finished_sameScopes:
  assumes f: "finished s d" and "i < length (pr_nodes s)" "j < length (pr_nodes s)" "n_scope (pr_nodes s ! i) = n_scope (pr_nodes s ! j)"
  shows "sameScopes d i j"
proof -
  have "inBody d x i = inBody d x j" if "x < length (pr_nodes s)" for x
    using insideBody_scope [OF finishedD(2) [OF f] assms(2,3) that assms(4)] by (simp add: finished_inBody [OF f that])
  then show ?thesis by (simp add: sameScopes_iff finishedD(3) [OF f])
qed

lemma staged_bare:
  assumes f: "finished s d" and i: "i < length (pr_nodes s)" "n_parent (pr_nodes s ! i) \<noteq> None"
  shows "n_outgoing (node_at d i) = []" "n_incoming (node_at d i) = []" "n_sourceOf (node_at d i) = []"
proof -
  note at = finished_at [OF f i(1)]
  have "\<not> j \<in> set (n_outgoing (node_at d i))" for j
    using at(1) finished_edge(1) [OF f, of j] i(2) by (auto simp: edgeFrom_def)
  then show "n_outgoing (node_at d i) = []" by (cases "n_outgoing (node_at d i)") auto
  have "\<not> j \<in> set (n_incoming (node_at d i))" for j
    using at(4) edge_ends(4) [OF finishedD(1) [OF f] finished_edge(1) [OF f], of j] i(2) by auto
  then show "n_incoming (node_at d i) = []" by (cases "n_incoming (node_at d i)") auto
  have "\<not> li \<in> set (n_sourceOf (node_at d i))" for li
  proof
    assume "li \<in> set (n_sourceOf (node_at d i))"
    with at(6) have li: "li < length (d_loops d)" "l_from (loop_at d li) = i" by auto
    from finished_loop(1) [OF f li(1)] obtain ms where "l_from (loop_at d li) \<in> ms" "\<forall>m\<in>ms. n_parent (pr_nodes s ! m) = None"
      unfolding looped_def by blast
    with li(2) i(2) show False by auto
  qed
  then show "n_sourceOf (node_at d i) = []" by (cases "n_sourceOf (node_at d i)") auto
qed

section \<open>Nodes\<close>

lemma finished_child:
  assumes f: "finished s d" and p: "p < length (pr_nodes s)" and i: "p < i" "i < length (pr_nodes s)"
    and st: "stageOf (pr_nodes s ! p) p (pr_nodes s ! i) i"
  shows "wf_child d p i"
proof -
  have scope: "n_scope (pr_nodes s ! p) = n_scope (pr_nodes s ! i)" and parent: "n_parent (pr_nodes s ! i) = Some p"
    using st by (simp_all add: stageOf_def)
  have "sameScopes d p i" by (rule finished_sameScopes [OF f p i(2) scope])
  moreover have "n_outgoing (node_at d i) = []" "n_incoming (node_at d i) = []" "n_sourceOf (node_at d i) = []"
    using staged_bare [OF f i(2)] parent by simp_all
  ultimately show ?thesis
    using st i(2) unfolding wf_child_def Let_def finished_nodes [OF f i(2)] finished_nodes [OF f p] stageOf_def finishedD(3) [OF f]
    by blast
qed

lemma finished_compound:
  assumes f: "finished s d" and p: "p < length (pr_nodes s)" and c: "compoundNode (pr_nodes s) (length (pr_nodes s)) p"
  shows "wf_compound d p"
proof -
  let ?N = "pr_nodes s"
  note c' = c [unfolded compoundNode_def Let_def]
  have range: "p < i \<and> i < length ?N \<and> stageOf (?N ! p) p (?N ! i) i" if "i \<in> set (n_children (?N ! p))" for i
    using c' that by blast
  have "map (\<lambda>i. n_stage (node_at d i)) (n_children (?N ! p)) = map (\<lambda>i. n_stage (?N ! i)) (n_children (?N ! p))"
    using finished_nodes(10) [OF f] range by simp
  with c' have "stagesOk (map (\<lambda>i. n_stage (node_at d i)) (n_children (?N ! p)))" by metis
  moreover have "\<forall>i\<in>set (n_children (?N ! p)). wf_child d p i"
    using finished_child [OF f p] range by blast
  ultimately show ?thesis using c' unfolding wf_compound_def Let_def finished_nodes [OF f p] by blast
qed

lemma finished_subprocess:
  assumes f: "finished s d" and x: "x < length (pr_nodes s)" and sub: "subprocessNode (pr_nodes s) (length (pr_nodes s)) x"
  shows "wf_subprocess d x"
proof -
  let ?N = "pr_nodes s"
  note N = finishedD(2) [OF f]
  from sub obtain e en where e: "n_scopeEnd (?N ! x) = Some e" "n_entry (?N ! x) = Some en" "x < en" "en < e" "e \<le> length ?N"
    "n_scope (?N ! en) = Some x" "n_parent (?N ! en) = None" "n_parent (?N ! x) = None" by (auto simp: subprocessNode_def)
  have en: "en < length ?N" using e by simp
  have nested: "inBody d y i" if "y < length ?N" "inBody d y x" "i \<in> set (bodyRange d x)" for y i
    using nested_body [OF N x] that finished_inBody [OF f] by (metis inBody_def x)
  have "\<not> inBody d y en" if "y < length ?N" "inBody d x y" for y
  proof
    assume "inBody d y en"
    then have yen: "insideBody ?N y en" using finished_inBody [OF f that(1)] by simp
    have xy: "insideBody ?N x y" using that(2) finished_inBody [OF f x] by simp
    have "scopedRange ?N 0 (length ?N) None" using N by (simp add: builtRange_def)
    from scopedRangeD(3) [OF this _ en, of y] that(1) yen e(6) have "x = y \<or> insideBody ?N y x" by simp
    with insideBody_less [OF xy] insideBody_less [of ?N y x] show False by auto
  qed
  moreover have "inBody d x en" using e finished_inBody [OF f x] by (simp add: insideBody_def)
  moreover have "n_parent (node_at d en) = None" using finished_nodes(9) [OF f en] e(7) by simp
  moreover have "y < length ?N" if "y \<in> set (subprocesses d)" for y using that by (simp add: subprocesses_def finishedD(3) [OF f])
  ultimately have "list_all (\<lambda>y. inBody d y x \<longrightarrow> list_all (inBody d y) (bodyRange d x)) (subprocesses d)"
    "list_all (\<lambda>y. inBody d x y \<longrightarrow> \<not> inBody d y en) (subprocesses d)" "inBody d x en" "n_parent (node_at d en) = None"
    using nested unfolding list_all_iff by blast+
  moreover have "x < e" using e(3,4) by simp
  ultimately show ?thesis
    unfolding wf_subprocess_def Let_def finished_nodes [OF f x] e(1,2) option.case prod.case using e(5,8)
    by (simp only: finishedD(3) [OF f] simp_thms)
qed

lemma finished_wf_node:
  assumes f: "finished s d" and i: "i < length (pr_nodes s)"
  shows "wf_node d i"
proof -
  let ?N = "pr_nodes s"
  note N = finishedD(2) [OF f] and at = finished_at [OF f i] and n = finished_nodes [OF f i]
  note plain = at(7) [unfolded plainNode_def] and link = at(8) [unfolded linkedNode_def Let_def]
  have runs: "runsCommand (node_at d i) = runsCommand (?N ! i)" by (simp add: runsCommand_def n)
  have parent: "case n_parent (?N ! i) of
         None \<Rightarrow> n_kind (?N ! i) \<noteq> definitionStageDone
       | Some p \<Rightarrow> p < length (d_nodes d) \<and> n_kind (node_at d p) = definitionCompound \<and> i \<in> set (n_children (node_at d p))"
  proof (cases "n_parent (?N ! i)")
    case None
    then show ?thesis using link by simp
  next
    case (Some p)
    then have p: "p < i" "n_kind (?N ! p) = definitionCompound" "i \<in> set (n_children (?N ! p))" using link by simp_all
    then have "p < length ?N" using i by simp
    from finished_nodes [OF f this] p Some \<open>p < length ?N\<close> show ?thesis by (simp add: finishedD(3) [OF f])
  qed
  have kinds: "if n_kind (?N ! i) = definitionCompound then wf_compound d i else n_children (?N ! i) = []"
    "if n_kind (?N ! i) = definitionSubprocess then wf_subprocess d i else n_scopeEnd (?N ! i) = None"
    using link finished_compound [OF f i] finished_subprocess [OF f i] by simp_all
  have exit: "case n_scope (?N ! i) of None \<Rightarrow> False
          | Some x \<Rightarrow> x < length (d_nodes d) \<and> n_kind (node_at d x) = definitionSubprocess \<and> inBody d x i"
    if "n_kind (?N ! i) = definitionSubprocessExit"
  proof -
    from that plain obtain x where x: "n_scope (?N ! i) = Some x" by auto
    note b = scope_before [OF N i x]
    then have "x < length ?N" using i by simp
    with b x finished_nodes(2) [OF f this] finished_inBody [OF f this] show ?thesis by (simp add: finishedD(3) [OF f])
  qed
  show ?thesis
    unfolding wf_node_def Let_def runs n
    using at(1-6) plain parent kinds exit by (simp add: list_all_iff outcomesOf_def)
qed

section \<open>Edges and loops\<close>

lemma finished_wf_edge:
  assumes f: "finished s d" and j: "j < length (d_edges d)"
  shows "wf_edge d j"
proof -
  let ?e = "edge_at d j"
  note e = finished_edge [OF f j]
  note ends = edge_ends [OF finishedD(1) [OF f] e(1)]
  have fr: "e_fromIndex ?e < length (pr_nodes s)" "e_from ?e = n_id (pr_nodes s ! e_fromIndex ?e)" "n_parent (pr_nodes s ! e_fromIndex ?e) = None"
    using e(1) by (simp_all add: edgeFrom_def)
  have "sameScopes d (e_fromIndex ?e) (e_toIndex ?e)" by (rule finished_sameScopes [OF f fr(1) ends(1) ends(3) [symmetric]])
  moreover have "j \<in> set (n_incoming (node_at d (e_toIndex ?e))) \<longleftrightarrow> e_loop ?e = None"
    using finished_at(4) [OF f ends(1)] j by simp
  ultimately show ?thesis
    unfolding wf_edge_def Let_def using fr ends e(2,3) finished_nodes [OF f fr(1)] finished_nodes [OF f ends(1)]
    by (simp add: finishedD(3) [OF f] list_all_iff)
qed

lemma finished_wf_loop:
  assumes f: "finished s d" and li: "li < length (d_loops d)"
  shows "wf_loop d li"
proof -
  let ?l = "loop_at d li" and ?N = "pr_nodes s"
  note N = finishedD(2) [OF f] and loop = finished_loop [OF f li]
  from loop(1) obtain ms where edge: "l_edge ?l < length (d_edges d)" "l_from ?l = e_fromIndex (edge_at d (l_edge ?l))"
      "l_to ?l = e_toIndex (edge_at d (l_edge ?l))" "l_outcome ?l = e_outcome (edge_at d (l_edge ?l))"
      "n_kind (?N ! l_from ?l) = definitionDecision" "2 \<le> l_maxIterations ?l" "l_maxIterations ?l \<le> 100"
    and ms: "l_from ?l \<in> ms" "l_to ?l \<in> ms" "set (l_body ?l) = (\<Union>m\<in>ms. membersOf ?N m)"
      "\<And>m. m \<in> ms \<Longrightarrow> m < length ?N \<and> n_scope (?N ! m) = n_scope (?N ! l_from ?l) \<and> n_parent (?N ! m) = None"
      "\<And>ei. ei \<in> set (l_exits ?l) \<Longrightarrow> ei < length (d_edges d) \<and> e_fromIndex (edge_at d ei) \<in> ms"
    unfolding looped_def by blast
  have mem: "m \<in> membersOf ?N m" for m by (simp add: membersOf_def)
  have body: "i < length ?N \<and> set (n_children (?N ! i)) \<subseteq> set (l_body ?l) \<and> (\<forall>j. insideBody ?N i j \<longrightarrow> j \<in> set (l_body ?l)) \<and>
      set_option (n_parent (?N ! i)) \<subseteq> set (l_body ?l) \<and> \<not> insideBody ?N i (l_to ?l)" if i: "i \<in> set (l_body ?l)" for i
  proof -
    from i obtain m where m: "m \<in> ms" "i \<in> membersOf ?N m" using ms(3) by blast
    then have mN: "m < length ?N" "n_parent (?N ! m) = None" "n_scope (?N ! l_to ?l) = n_scope (?N ! m)" "l_to ?l < length ?N"
      using ms(2,4) by simp_all
    note closed = membersOf_closed [OF N mN(1,2) m(2)]
    have sub: "membersOf ?N m \<subseteq> set (l_body ?l)" using m(1) ms(3) by blast
    have "set_option (n_parent (?N ! i)) \<subseteq> set (l_body ?l)" using closed(3) sub by (cases "n_parent (?N ! i)") auto
    moreover have "\<not> insideBody ?N i (l_to ?l)" by (rule membersOf_outside [OF N mN(1,2) m(2) mN(4,3)])
    moreover have "set (n_children (?N ! i)) \<subseteq> set (l_body ?l)" "\<forall>j. insideBody ?N i j \<longrightarrow> j \<in> set (l_body ?l)" using closed(1,2) sub by blast+
    ultimately show ?thesis using membersOf_range [OF N mN(1) m(2)] by blast
  qed
  have bodies: "i < length (d_nodes d) \<and> li \<in> set (n_loops (node_at d i)) \<and>
         set (n_children (node_at d i)) \<subseteq> set (l_body ?l) \<and> set (bodyRange d i) \<subseteq> set (l_body ?l) \<and>
         set_option (n_parent (node_at d i)) \<subseteq> set (l_body ?l) \<and> \<not> inBody d i (l_to ?l)" if "i \<in> set (l_body ?l)" for i
  proof -
    from body [OF that] have i: "i < length ?N" by blast
    have "set (bodyRange d i) = {j. insideBody ?N i j}" using finished_inBody [OF f i] by (auto simp: inBody_def)
    then show ?thesis using body [OF that] loop(3) that unfolding finished_nodes [OF f i] finished_inBody [OF f i] finishedD(3) [OF f] by blast
  qed
  have exits: "j < length (d_edges d) \<and> sameScopes d (l_from ?l) (e_toIndex (edge_at d j))" if "j \<in> set (l_exits ?l)" for j
  proof -
    note x = ms(5) [OF that]
    note ends = edge_ends [OF finishedD(1) [OF f] finished_edge(1) [OF f conjunct1 [OF x]]]
    have "n_scope (?N ! e_fromIndex (edge_at d j)) = n_scope (?N ! l_from ?l)" using ms(4) x by blast
    with ends(3) have "n_scope (?N ! l_from ?l) = n_scope (?N ! e_toIndex (edge_at d j))" by simp
    from finished_sameScopes [OF f _ ends(1) this] ms(1,4) x show ?thesis by simp
  qed
  have ft: "l_from ?l < length ?N" "l_to ?l < length ?N" using ms(1,2,4) by simp_all
  have kind: "n_kind (node_at d (l_from ?l)) = definitionDecision" using finished_nodes(2) [OF f ft(1)] edge(5) by simp
  have ends: "l_from ?l \<in> set (l_body ?l)" "l_to ?l \<in> set (l_body ?l)" using ms(1-3) mem by blast+
  have "l_maxIterations ?l \<le> MaxInt" using edge(7) by (simp add: MaxInt_def)
  then show ?thesis
    unfolding wf_loop_def Let_def list_all_iff
    using edge(1-4,6) ft kind ends loop(2,4) bodies exits by (simp add: finishedD(3) [OF f])
qed

section \<open>The theorem\<close>

theorem Prepare_wf:
  assumes "Prepare t params = Inr d"
  shows "wf_definition d"
proof -
  from Prepare_finished [OF assms] obtain s where f: "finished s d" by blast
  have "wf_index d" by (rule Prepare_wf_index [OF assms])
  moreover have "list_all (wf_edge d) [0 ..< length (d_edges d)]" using finished_wf_edge [OF f] by (simp add: list_all_iff)
  moreover have "list_all (wf_node d) [0 ..< length (d_nodes d)]"
    using finished_wf_node [OF f] by (simp add: list_all_iff finishedD(3) [OF f])
  moreover have "list_all (wf_loop d) [0 ..< length (d_loops d)]" using finished_wf_loop [OF f] by (simp add: list_all_iff)
  ultimately show ?thesis using finishedD(4) [OF f] unfolding wf_definition_def by blast
qed

end
