(* ===== verification/Template_Samples.thy ===== *)
theory Template_Samples
  imports Preparation
begin

text \<open>Small templates for the witnesses of the theorems about authoring and preparation.\<close>

definition blankAuthored :: "NodeType \<Rightarrow> Next \<Rightarrow> Node" where
  "blankAuthored ty nx = Node ty (JoinOther []) None None [] None None None nx fmempty [] [] None noProse"

definition programTask :: "string \<Rightarrow> RetryPolicy option \<Rightarrow> Step option \<Rightarrow> Step list \<Rightarrow> Next \<Rightarrow> Node" where
  "programTask run retry plan checks nx =
     Node NodeTypeTask (JoinOther []) (Some (blankPerformer\<lparr>p_Kind := PerformerProgram, p_Run := run\<rparr>)) plan checks None
       retry None nx fmempty [] [] None noProse"

text \<open>A start, a program with three attempts, an end.\<close>

definition briefTemplate :: Template where
  "briefTemplate = Template ''tclaude.dev/v1alpha1'' ''ProcessTemplate'' ''brief'' fmempty None ''s''
     (fmap_of_list [(''s'', blankAuthored NodeTypeStart (fmap_of_list [(''next'', ''w'')])),
        (''w'', programTask ''make'' (Some \<lparr>rp_MaxAttempts = 3, rp_Backoff = [], rp_OnFail = []\<rparr>) None [] (fmap_of_list [(''pass'', ''e'')])),
        (''e'', blankAuthored NodeTypeEnd fmempty)]) noProse None"

lemma brief_nodes: "sortedKeys (TemplateNodes briefTemplate) = [''e'', ''s'', ''w'']"
  by code_simp

lemma brief_eligible: "RequireEligible briefTemplate = Inr ()"
  by code_simp

text \<open>A task with an approved plan and one check.\<close>

definition plannedTask :: Node where
  "plannedTask = programTask ''make'' None
     (Some \<lparr>sp_ID = [], sp_Performer = blankPerformer\<lparr>p_Kind := PerformerAgent\<rparr>, sp_Approval = ''human'', sp_ApprovalRetry = None, sp_Retry = None, sp_Prose = noProse\<rparr>)
     [\<lparr>sp_ID = ''lint'', sp_Performer = blankPerformer\<lparr>p_Kind := PerformerProgram\<rparr>, sp_Approval = [], sp_ApprovalRetry = None, sp_Retry = None, sp_Prose = noProse\<rparr>]
     (fmap_of_list [(''pass'', ''e'')])"

text \<open>A start and an end.\<close>

definition pairTemplate :: Template where
  "pairTemplate = Template ''tclaude.dev/v1alpha1'' ''ProcessTemplate'' ''pair'' fmempty None ''s''
     (fmap_of_list [(''s'', blankAuthored NodeTypeStart (fmap_of_list [(''n'', ''e'')])), (''e'', blankAuthored NodeTypeEnd fmempty)]) noProse None"

lemma pair_order: "topologicalOrder pairTemplate = Inr [''s'', ''e'']"
  by code_simp

lemma pair_prepares: "\<not> isl (Prepare pairTemplate fmempty)"
  by code_simp

text \<open>A person decides whether the work goes another round, at most three times.\<close>

definition humanDecisionNode :: "string list \<Rightarrow> Next \<Rightarrow> (string, LoopBound) fmap \<Rightarrow> Node" where
  "humanDecisionNode choices nx loops =
     Node NodeTypeDecision (JoinOther []) (Some (blankPerformer\<lparr>p_Kind := PerformerHuman, p_Ask := ''go on?'', p_Choices := choices\<rparr>))
       None [] None None None nx loops [] [] None noProse"

definition roundTemplate :: Template where
  "roundTemplate = Template ''tclaude.dev/v1alpha1'' ''ProcessTemplate'' ''round'' fmempty None ''s''
     (fmap_of_list [(''s'', blankAuthored NodeTypeStart (fmap_of_list [(''next'', ''w'')])),
        (''w'', programTask ''make'' None None [] (fmap_of_list [(''pass'', ''d'')])),
        (''d'', humanDecisionNode [''again'', ''stop''] (fmap_of_list [(''again'', ''w''), (''stop'', ''e'')])
           (fmap_of_list [(''again'', \<lparr>lb_MaxIterations = 3, lb_OnExhausted = ''stop''\<rparr>)])),
        (''e'', blankAuthored NodeTypeEnd fmempty)]) noProse None"

lemma round_eligible: "RequireEligible roundTemplate = Inr ()"
  by code_simp

text \<open>A checked task whose failure a person can send back.\<close>

definition escalationTemplate :: Template where
  "escalationTemplate = Template ''tclaude.dev/v1alpha1'' ''ProcessTemplate'' ''esc'' fmempty None ''s''
     (fmap_of_list [(''s'', blankAuthored NodeTypeStart (fmap_of_list [(''next'', ''w'')])),
        (''w'', programTask ''make'' (Some \<lparr>rp_MaxAttempts = 2, rp_Backoff = [], rp_OnFail = []\<rparr>) None
           [\<lparr>sp_ID = ''lint'', sp_Performer = blankPerformer\<lparr>p_Kind := PerformerProgram, p_Run := ''lint''\<rparr>, sp_Approval = [],
              sp_ApprovalRetry = None, sp_Retry = None, sp_Prose = noProse\<rparr>] (fmap_of_list [(''fail'', ''d'')])),
        (''d'', humanDecisionNode [''retry'', ''cancel''] (fmap_of_list [(''retry'', ''w''), (''cancel'', ''e'')]) fmempty),
        (''e'', Node NodeTypeEnd (JoinOther []) None None [] None None None fmempty fmempty ''canceled'' [] None noProse)])
     noProse None"

lemma escalation_eligible: "RequireEligible escalationTemplate = Inr ()"
  by code_simp

end
