(* ===== verification/Gate_Samples.thy ===== *)
theory Gate_Samples
  imports Sample_Steps Prepare_Correct Template_Samples
begin

text \<open>A task whose plan a person approves, prepared from its template, up to the waiting decision.\<close>

definition gateTemplate :: Template where
  "gateTemplate = Template ''tclaude.dev/v1alpha1'' ''ProcessTemplate'' ''gate'' fmempty None ''w''
     (fmap_of_list [(''w'', programTask ''make'' None
           (Some \<lparr>sp_ID = ''p'', sp_Performer = blankPerformer\<lparr>p_Kind := PerformerProgram, p_Run := ''draft''\<rparr>, sp_Approval = ''human'', sp_ApprovalRetry = None,
              sp_Retry = None, sp_Prose = noProse\<rparr>) [] (fmap_of_list [(''pass'', ''e'')])),
        (''e'', blankAuthored NodeTypeEnd fmempty)]) noProse None"

definition planGate :: Definition where
  "planGate =
   \<lparr>d_nodes =
       [\<lparr>n_id = ''w'', n_kind = definitionCompound,
           n_program =
             \<lparr>pc_Profile = [], pc_Run = [], pc_Args = [], pc_Timeout = []\<rparr>,
           n_agent = None, n_maxAttempts = 0, n_retryAuthored = False,
           n_terminal = RunOther [], n_verdicts = [], n_outgoing = [0],
           n_incoming = [], n_joinAll = False, n_joinAny = False,
           n_children = [1, 2, 3, 4], n_parent = None, n_stage = StageNone,
           n_doAnchor = Some 3, n_planAnchor = Some 1, n_approvalGate = Some 2,
           n_scope = None, n_scopeEnd = None, n_entry = None,
           n_exitOutcome = [], n_loops = [], n_sourceOf = []\<rparr>,
        \<lparr>n_id = ''w.plan'', n_kind = definitionTask,
           n_program =
             \<lparr>pc_Profile = [], pc_Run = ''draft'', pc_Args = [],
                pc_Timeout = []\<rparr>,
           n_agent = None, n_maxAttempts = 1, n_retryAuthored = False,
           n_terminal = RunOther [], n_verdicts = [], n_outgoing = [],
           n_incoming = [], n_joinAll = False, n_joinAny = False,
           n_children = [], n_parent = Some 0, n_stage = StagePlan,
           n_doAnchor = None, n_planAnchor = None, n_approvalGate = None,
           n_scope = None, n_scopeEnd = None, n_entry = None,
           n_exitOutcome = [], n_loops = [], n_sourceOf = []\<rparr>,
        \<lparr>n_id = ''w.plan.approval'', n_kind = definitionDecision,
           n_program =
             \<lparr>pc_Profile = [], pc_Run = [], pc_Args = [], pc_Timeout = []\<rparr>,
           n_agent = None, n_maxAttempts = 1, n_retryAuthored = False,
           n_terminal = RunOther [], n_verdicts = [''approve'', ''rework''],
           n_outgoing = [], n_incoming = [], n_joinAll = False,
           n_joinAny = False, n_children = [], n_parent = Some 0,
           n_stage = StagePlanApproval, n_doAnchor = None, n_planAnchor = None,
           n_approvalGate = None, n_scope = None, n_scopeEnd = None,
           n_entry = None, n_exitOutcome = [], n_loops = [], n_sourceOf = []\<rparr>,
        \<lparr>n_id = ''w.do'', n_kind = definitionTask,
           n_program =
             \<lparr>pc_Profile = [], pc_Run = ''make'', pc_Args = [],
                pc_Timeout = []\<rparr>,
           n_agent = None, n_maxAttempts = 1, n_retryAuthored = False,
           n_terminal = RunOther [], n_verdicts = [], n_outgoing = [],
           n_incoming = [], n_joinAll = False, n_joinAny = False,
           n_children = [], n_parent = Some 0, n_stage = StageDo,
           n_doAnchor = None, n_planAnchor = None, n_approvalGate = None,
           n_scope = None, n_scopeEnd = None, n_entry = None,
           n_exitOutcome = [], n_loops = [], n_sourceOf = []\<rparr>,
        \<lparr>n_id = ''w.done'', n_kind = definitionStageDone,
           n_program =
             \<lparr>pc_Profile = [], pc_Run = [], pc_Args = [], pc_Timeout = []\<rparr>,
           n_agent = None, n_maxAttempts = 1, n_retryAuthored = False,
           n_terminal = RunOther [], n_verdicts = [], n_outgoing = [],
           n_incoming = [], n_joinAll = False, n_joinAny = False,
           n_children = [], n_parent = Some 0, n_stage = StageDone,
           n_doAnchor = None, n_planAnchor = None, n_approvalGate = None,
           n_scope = None, n_scopeEnd = None, n_entry = None,
           n_exitOutcome = [], n_loops = [], n_sourceOf = []\<rparr>,
        \<lparr>n_id = ''e'', n_kind = definitionEnd,
           n_program =
             \<lparr>pc_Profile = [], pc_Run = [], pc_Args = [], pc_Timeout = []\<rparr>,
           n_agent = None, n_maxAttempts = 0, n_retryAuthored = False,
           n_terminal = RunCompleted, n_verdicts = [], n_outgoing = [],
           n_incoming = [0], n_joinAll = False, n_joinAny = False,
           n_children = [], n_parent = None, n_stage = StageNone,
           n_doAnchor = None, n_planAnchor = None, n_approvalGate = None,
           n_scope = None, n_scopeEnd = None, n_entry = None,
           n_exitOutcome = [], n_loops = [], n_sourceOf = []\<rparr>],
       d_index =
         fmap_of_list
          [(''w'', 0), (''w.plan'', 1), (''w.plan.approval'', 2),
           (''w.do'', 3), (''w.done'', 4), (''e'', 5)],
       d_edges =
         [\<lparr>e_from = ''w'', e_outcome = ''pass'', e_to = ''e'', e_fromIndex = 0,
             e_toIndex = 5, e_loop = None, e_exitOf = []\<rparr>],
       d_joinAnyIncoming = [], d_loops = []\<rparr>"

lemma gate_prepared: "Prepare gateTemplate fmempty = Inr planGate"
  by code_simp

lemma planGate_wf: "wf_definition planGate"
  by (rule Prepare_wf [OF gate_prepared])

definition pg_created :: Checkpoint where "pg_created = initialCheckpoint ''run'' planGate"

definition pg_planned :: Checkpoint where "pg_planned = drive planGate pg_created"

lemma pg_planned_value [code]:
  "pg_planned =
   \<lparr>Version = 3, RunID = ''run'', Status = RunRunning,
        Nodes =
          fmap_of_list
           [(''w'', NodeRunning), (''w.plan'', NodeRunning),
            (''w.plan.approval'', NodePending), (''w.do'', NodePending),
            (''w.done'', NodePending), (''e'', NodePending)],
        Attempts = fmap_of_list [(''w.plan'', 1)],
        Edges =
          fmap_of_list [(''w'', fmap_of_list [(''pass'', EdgeUnresolved)])],
        AwaitingDecisions = [],
        Commands =
          [\<lparr>cmd_ID = ''cmd_3_run_6_w.plan_1_program'',
              cmd_Kind = CommandProgram, cmd_NodeID = ''w.plan'',
              cmd_Attempt = 1,
              cmd_Program =
                \<lparr>pc_Profile = [], pc_Run = ''draft'', pc_Args = [],
                   pc_Timeout = []\<rparr>,
              cmd_Agent = None, cmd_Round = 0, cmd_Rounds = 0,
              cmd_LoopFrom = [], cmd_LoopOutcome = [], cmd_Verdicts = []\<rparr>],
        Blocked = [], AttemptCeilings = fmap_of_list [],
        Iterations = fmap_of_list []\<rparr>"
  by code_simp

definition pg_waiting :: Checkpoint where
  "pg_waiting = accept planGate (observed ''cmd_3_run_6_w.plan_1_program'' ''w.plan'' ProgramSucceeded 0 []) pg_planned"

lemma pg_waiting_value [code]:
  "pg_waiting =
   \<lparr>Version = 3, RunID = ''run'', Status = RunRunning,
       Nodes =
         fmap_of_list
          [(''w'', NodeRunning), (''w.plan'', NodeDone),
           (''w.plan.approval'', NodeReady), (''w.do'', NodePending),
           (''w.done'', NodePending), (''e'', NodePending)],
       Attempts = fmap_of_list [(''w.plan'', 1)],
       Edges =
         fmap_of_list [(''w'', fmap_of_list [(''pass'', EdgeUnresolved)])],
       AwaitingDecisions = [\<lparr>do_NodeID = ''w.plan.approval''\<rparr>], Commands = [],
       Blocked = [], AttemptCeilings = fmap_of_list [],
       Iterations = fmap_of_list []\<rparr>"
  by code_simp

lemma pg_created_reachable: "reachable ''run'' planGate pg_created"
  unfolding pg_created_def by (rule initial_reachable; code_simp)

lemma pg_planned_reachable: "reachable ''run'' planGate pg_planned"
  unfolding pg_planned_def by (rule drive_reachable [OF pg_created_reachable]) code_simp

lemma pg_waiting_reachable: "reachable ''run'' planGate pg_waiting"
  unfolding pg_waiting_def by (rule accept_reachable [OF pg_planned_reachable]; code_simp)

end
