(* ===== verification/Transition_Laws.thy ===== *)
theory Transition_Laws
  imports Refusals Gate_Samples
begin

text \<open>
  The theorems about single operations of the engine: creation, completion, failures and retries,
  rounds of a loop, refusals, command identity, the outboxes and the classification.
\<close>

section \<open>Creation, completion and failure\<close>

text \<open>
  C17. Creating a run succeeds exactly for a valid run id; the new checkpoint has its entry ready,
  every other node pending, every edge unresolved and nothing outstanding but the entry's decision.
\<close>

theorem initialize_creates:
  assumes "wf_definition d"
  shows "Initialize r d = (if validRunID r then Inr (initialCheckpoint r d) else Inl ErrInvalidCheckpoint) \<and>
    (\<forall>i<length (d_nodes d). nodeStatus (initialCheckpoint r d) (n_id (node_at d i)) = (if i = 0 then NodeReady else NodePending))"
  by (rule Initialize_result [OF assms])

theorem initialize_creates_witness:
  "Initialize ''run'' reviewLoop = Inr rl_created \<and> Initialize ''Run'' reviewLoop = Inl ErrInvalidCheckpoint"
proof -
  have "validRunID ''run''" "\<not> validRunID ''Run''" by code_simp+
  then show ?thesis using initialize_creates [OF reviewLoop_wf, of "''run''"] initialize_creates [OF reviewLoop_wf, of "''Run''"]
    by (simp add: rl_created_def)
qed

text \<open>
  C18. A run completes through an end node only when nothing else is left: advancing a ready end is
  accepted exactly if no command, decision or parked branch is outstanding and no other node is ready
  or running, and then the run takes the end's terminal status.
\<close>

theorem end_requires_no_work:
  assumes "wf_definition d" "i < length (d_nodes d)" "n_kind (node_at d i) = definitionEnd"
    "nodeStatus c (n_id (node_at d i)) = NodeReady"
  shows "apply_transition c d (advanceTransition (n_id (node_at d i))) =
    (if Commands c = [] \<and> AwaitingDecisions c = [] \<and> Blocked c = [] \<and>
        (\<forall>j<length (d_nodes d). j \<noteq> i \<longrightarrow> nodeStatus c (n_id (node_at d j)) \<notin> {NodeReady, NodeRunning})
     then Inr ((setNode (n_id (node_at d i)) NodeDone c)\<lparr>Status := n_terminal (node_at d i)\<rparr>)
     else Inl ErrInvalidTransition)"
  by (rule advance_end [OF assms])

theorem end_requires_no_work_witness:
  "apply_transition rl_approved reviewLoop (advanceTransition ''fin'') =
     Inr ((setNode ''fin'' NodeDone rl_approved)\<lparr>Status := RunCompleted\<rparr>)"
proof -
  have s: "3 < length (d_nodes reviewLoop)" "n_kind (node_at reviewLoop 3) = definitionEnd" "n_id (node_at reviewLoop 3) = ''fin''"
    "n_terminal (node_at reviewLoop 3) = RunCompleted" "nodeStatus rl_approved ''fin'' = NodeReady"
    "Commands rl_approved = []" "AwaitingDecisions rl_approved = []" "Blocked rl_approved = []"
    "list_all (\<lambda>j. j \<noteq> 3 \<longrightarrow> nodeStatus rl_approved (n_id (node_at reviewLoop j)) \<notin> {NodeReady, NodeRunning})
       [0 ..< length (d_nodes reviewLoop)]" by code_simp+
  then have "\<forall>j<length (d_nodes reviewLoop). j \<noteq> 3 \<longrightarrow> nodeStatus rl_approved (n_id (node_at reviewLoop j)) \<notin> {NodeReady, NodeRunning}"
    by (simp add: list_all_iff)
  with end_requires_no_work [OF reviewLoop_wf s(1,2), of rl_approved] s show ?thesis by simp
qed

text \<open>
  C19. A failed attempt of a plain task: while the budget lasts the task is ready again, a spent budget
  parks it if its author asked for retries and fails it otherwise, and in a doomed run it always fails;
  its command is gone, and a failed node dooms the run.
\<close>

theorem failed_attempt_outcome:
  assumes "wf_definition d" "reachable r d c" "tr_Kind t = TransitionProgramObserved" "tr_Observation t = Some ob"
    "obs_Outcome ob = ProgramFailed" "i < length (d_nodes d)" "obs_NodeID ob = n_id (node_at d i)"
    "gateAnchor d (node_at d i) = None" "admissible c t" "apply_transition c d t = Inr c'"
  shows "nodeStatus c' (n_id (node_at d i)) =
      (if doomed c then NodeFailed
       else if attempts c (n_id (node_at d i)) < attemptCeiling c (node_at d i) then NodeReady
       else if n_retryAuthored (node_at d i) then NodeBlocked else NodeFailed) \<and>
    findCommand c' (obs_CommandID ob) (obs_NodeID ob) = None \<and>
    (nodeStatus c' (n_id (node_at d i)) = NodeFailed \<longrightarrow> doomed c')"
proof -
  have f: "observeFailure d i ob c = Inr c'" by (rule failed_observation [OF assms(1,3-7,10)])
  have inv: "Inv d c" by (rule Inv_reachable [OF assms(1,2)])
  have "findCommand c' (obs_CommandID ob) (obs_NodeID ob) = None"
    by (rule observed_answered [OF inv Inv_apply [OF assms(1) inv assms(9,10)] assms(3,4,10)])
  with failed_attempt [OF f assms(8)] doomed_failed [of c' "n_id (node_at d i)"] show ?thesis by blast
qed

theorem failed_attempt_outcome_witness:
  "nodeStatus rl_retry ''work'' = NodeReady \<and> findCommand rl_retry ''cmd_3_run_4_work_1_program'' ''work'' = None"
proof -
  let ?t = "observed ''cmd_3_run_4_work_1_program'' ''work'' ProgramFailed 1 ''boom''"
  have s: "1 < length (d_nodes reviewLoop)" "n_id (node_at reviewLoop 1) = ''work''" "gateAnchor reviewLoop (node_at reviewLoop 1) = None"
    "admissible rl_planned ?t" "\<not> doomed rl_planned" "attempts rl_planned ''work'' < attemptCeiling rl_planned (node_at reviewLoop 1)"
    by code_simp+
  have t: "tr_Kind ?t = TransitionProgramObserved" by (simp add: observed_def)
  show ?thesis
    using failed_attempt_outcome [OF reviewLoop_wf rl_planned_reachable t _ _ s(1) _ s(3,4) rl_retry_step] s by (simp add: observed_def)
qed

text \<open>
  C20. An operator's retry of a parked plain task makes it ready again with a fresh window of its
  authored size above the attempts already used; no attempt is recorded and the branch is not parked.
\<close>

theorem retry_opens_window:
  assumes "wf_definition d" "reachable r d c" "tr_Kind t = TransitionBlockedResolved" "tr_Resolution t = Some res"
    "res_Action res = ResolveRetry" "i < length (d_nodes d)" "res_NodeID res = n_id (node_at d i)"
    "gateAnchor d (node_at d i) = None" "apply_transition c d t = Inr c'"
  shows "nodeStatus c' (n_id (node_at d i)) = NodeReady \<and> \<not> hasBlocked c' (n_id (node_at d i)) \<and>
    attemptCeiling c' (node_at d i) = attempts c (n_id (node_at d i)) + n_maxAttempts (node_at d i) \<and> attempts c' = attempts c"
proof -
  from assms(1,3-7,9) have b: "nodeStatus c (n_id (node_at d i)) = NodeBlocked" and s: "resolveRetry d i c = Inr c'"
    by (auto simp: apply_transition_def apply_blockedResolved_def split: if_splits option.splits)
  from retry_window [OF assms(1) Inv_reachable [OF assms(1,2)] assms(6) b assms(8) s] show ?thesis
    by (simp add: hasBlocked_keys)
qed

theorem retry_opens_window_witness:
  "attemptCeiling (accept reviewLoop (resolved ''work'' 2 ResolveRetry) rl_blocked) (node_at reviewLoop 1) = 4 \<and>
   nodeStatus (accept reviewLoop (resolved ''work'' 2 ResolveRetry) rl_blocked) ''work'' = NodeReady"
proof -
  let ?t = "resolved ''work'' 2 ResolveRetry"
  have s: "1 < length (d_nodes reviewLoop)" "n_id (node_at reviewLoop 1) = ''work''" "gateAnchor reviewLoop (node_at reviewLoop 1) = None"
    "attempts rl_blocked ''work'' = 2" "n_maxAttempts (node_at reviewLoop 1) = 2" by code_simp+
  have step: "apply_transition rl_blocked reviewLoop ?t = Inr (accept reviewLoop ?t rl_blocked)" by (rule accept_step) code_simp
  have t: "tr_Kind ?t = TransitionBlockedResolved" by (simp add: resolved_def)
  show ?thesis
    using retry_opens_window [OF reviewLoop_wf rl_blocked_reachable t _ _ s(1) _ s(3) step] s by (simp add: resolved_def)
qed

text \<open>
  C21. A verdict that takes a loop's back edge while rounds are left reopens the loop body: its entry
  is ready, every other node of the body is pending, no node outside the body moves, and outstanding
  commands, parked branches and the run status stay.
\<close>

theorem loop_reopens_body:
  assumes "wf_definition d" "reachable r d c" "i < length (d_nodes d)" "loopOf d (node_at d i) v = Some li"
    "loopHasRounds c d (loop_at d li)" "iterateLoop d li c = Inr c'"
  shows "(\<forall>j\<in>set (l_body (loop_at d li)). nodeStatus c' (n_id (node_at d j)) = (if j = l_to (loop_at d li) then NodeReady else NodePending)) \<and>
    (\<forall>j<length (d_nodes d). j \<notin> set (l_body (loop_at d li)) \<longrightarrow> nodeStatus c' (n_id (node_at d j)) = nodeStatus c (n_id (node_at d j))) \<and>
    Commands c' = Commands c \<and> Blocked c' = Blocked c \<and> Status c' = Status c"
  using next_round [OF assms(1) Inv_reachable [OF assms(1,2)] assms(3-6)] by blast

theorem loop_reopens_body_witness:
  "nodeStatus (projr (iterateLoop reviewLoop 0 rl_review)) ''work'' = NodeReady \<and>
   nodeStatus (projr (iterateLoop reviewLoop 0 rl_review)) ''review'' = NodePending \<and>
   Status (projr (iterateLoop reviewLoop 0 rl_review)) = RunRunning"
proof -
  let ?x = "iterateLoop reviewLoop 0 rl_review"
  have s: "2 < length (d_nodes reviewLoop)" "loopOf reviewLoop (node_at reviewLoop 2) ''changes'' = Some 0"
    "loopHasRounds rl_review reviewLoop (loop_at reviewLoop 0)" "\<not> isl ?x" "l_body (loop_at reviewLoop 0) = [1, 2]"
    "l_to (loop_at reviewLoop 0) = 1" "n_id (node_at reviewLoop 1) = ''work''" "n_id (node_at reviewLoop 2) = ''review''"
    "Status rl_review = RunRunning" by code_simp+
  have x: "?x = Inr (projr ?x)" using s(4) by (cases ?x) auto
  from loop_reopens_body [OF reviewLoop_wf rl_review_reachable s(1-3) x] show ?thesis unfolding s(5-6) by (simp add: s(7-9) s(7) [simplified])
qed

section \<open>Refusals\<close>



text \<open>
  C23. An operator's resolution is refused as stale unless the run is running, the node is parked and
  the resolution names its current attempt.
\<close>

theorem stale_resolution_refused:
  assumes "wf_definition d" "reachable r d c"
    "Status c \<noteq> RunRunning \<or> \<not> hasBlocked c nid \<or> k \<noteq> attempts c nid"
  shows "apply_transition c d (resolved nid k a) = Inl ErrStaleResolution"
  by (rule stale_resolution [OF assms(1) Inv_reachable [OF assms(1,2)] assms(3)])

theorem stale_resolution_refused_witness:
  "apply_transition rl_blocked reviewLoop (resolved ''work'' 1 ResolveSkip) = Inl ErrStaleResolution"
proof -
  have "1 \<noteq> attempts rl_blocked ''work''" by code_simp
  then show ?thesis using stale_resolution_refused [OF reviewLoop_wf rl_blocked_reachable] by blast
qed

section \<open>Commands and outboxes\<close>

text \<open>
  C24. A command id names one run, one node, one attempt and one kind: two commands with the same id
  agree in all four, whatever characters the run and node ids contain.
\<close>

theorem command_id_unique:
  assumes "command_id r n a k = command_id r' n' a' k'"
  shows "r = r' \<and> n = n' \<and> a = a' \<and> kind_string k = kind_string k'"
  by (rule command_id_inj [OF assms])

theorem command_id_unique_witness:
  "command_id ''a_1'' ''b'' 1 CommandProgram \<noteq> command_id ''a'' ''1_b'' 1 CommandProgram"
proof
  assume "command_id ''a_1'' ''b'' 1 CommandProgram = command_id ''a'' ''1_b'' 1 CommandProgram"
  from command_id_unique [OF this] show False by simp
qed

text \<open>
  C25. The command outbox of a run implements a map from nodes to commands: putting a command is a map
  update, removing one a deletion, and finding one by id and node a lookup.
\<close>

theorem commands_refine_map:
  assumes "wf_definition d" "reachable r d c"
  shows "commandMap (putCommand x c) = (commandMap c)(cmd_NodeID x \<mapsto> x) \<and>
    commandMap (removeCommand k c) = (commandMap c)(k := None) \<and>
    findCommand c cid k = (case commandMap c k of Some y \<Rightarrow> if cmd_ID y = cid then Some y else None | None \<Rightarrow> None)"
proof -
  have can: "cmds.canonical c" using InvD(3) [OF Inv_reachable [OF assms]] by (simp add: commandsOk_def)
  show ?thesis by (simp add: commandMap_put [OF can] commandMap_remove findCommand_map [OF can])
qed

theorem commands_refine_map_witness:
  "commandMap (removeCommand ''left'' fw_both) ''left'' = None \<and> commandMap (removeCommand ''left'' fw_both) ''right'' = commandMap fw_both ''right''"
  using commands_refine_map [OF firstWins_wf fw_both_reachable, of undefined "''left''" "[]"] by simp

text \<open>
  Every outbox of a run is in canonical order, sorted by node with no node twice, so a checkpoint
  has one encoding.
\<close>

lemma outboxes_canonical:
  assumes "wf_definition d" "reachable r d c"
  shows "sorted (map cmd_NodeID (Commands c)) \<and> distinct (map cmd_NodeID (Commands c)) \<and>
    sorted (map do_NodeID (AwaitingDecisions c)) \<and> distinct (map do_NodeID (AwaitingDecisions c)) \<and>
    sorted (map bo_NodeID (Blocked c)) \<and> distinct (map bo_NodeID (Blocked c))"
  using InvD(3-5) [OF Inv_reachable [OF assms]]
  by (simp add: commandsOk_def awaitsOk_def parkedOk_def cmds.canonical_def awaits.canonical_def parked.canonical_def)

text \<open>
  The stored reason of a parked branch is a prefix of the reported one and at most 1024 bytes;
  cutting it leaves valid UTF-8.
\<close>

lemma blocked_reason_bounded:
  shows "length (truncateReason reason) \<le> 1024 \<and> (\<exists>rest. reason = truncateReason reason @ rest) \<and>
    (utf8_ValidString (truncateReason reason) \<or> truncateReason reason = reason)"
proof -
  have "reason = truncateReason reason @ drop (length (truncateReason reason)) reason"
    using truncateCut_le [of reason MaxBlockedReasonBytes] by (auto simp: truncateReason_def min_def)
  moreover have "utf8_ValidString (truncateReason reason) \<or> truncateReason reason = reason"
    by (simp add: truncateReason_def truncateCut_valid)
  ultimately show ?thesis using truncateReason_ok(1) [of reason] by (auto simp: MaxBlockedReasonBytes_def)
qed

text \<open>
  C26. A checkpoint the strict classification accepts has a single token: a running one has exactly one
  active node and neither a doomed node nor a completed end, and one that is over has no active node.
\<close>

theorem classified_single_token:
  assumes "ClassifyCheckpoint c d = Inr ()"
  shows "(Status c = RunRunning \<longrightarrow> (\<exists>!i. i < length (d_nodes d) \<and> activeNode c d i) \<and>
      (\<forall>i<length (d_nodes d). \<not> doomedNode c d i \<and> \<not> doneEnd c d i)) \<and>
    (Status c \<noteq> RunRunning \<longrightarrow> (\<forall>i<length (d_nodes d). \<not> activeNode c d i))"
  by (rule classified_token) (use assms in \<open>auto simp: ClassifyCheckpoint_def bindR_Inr_iff\<close>)

theorem classified_single_token_witness:
  "(\<exists>!i. i < length (d_nodes reviewLoop) \<and> activeNode rl_planned reviewLoop i) \<and> \<not> activeNode rl_done reviewLoop 3"
proof -
  have s: "ClassifyCheckpoint rl_planned reviewLoop = Inr ()" "ClassifyCheckpoint rl_done reviewLoop = Inr ()"
    "Status rl_planned = RunRunning" "Status rl_done \<noteq> RunRunning" "3 < length (d_nodes reviewLoop)" by code_simp+
  show ?thesis using classified_single_token [OF s(1)] classified_single_token [OF s(2)] s(3-5) by blast
qed

end
