(* ===== verification/Authoring_Laws.thy ===== *)
theory Authoring_Laws
  imports Template_Samples
begin

text \<open>
  The theorems about authored templates: stage expansion, execution order, reachability, membership
  search, parameter interpolation, the limits, eligibility and the index of a prepared definition.
\<close>

section \<open>Stages\<close>

text \<open>
  A compound task expands to its stages in the one order the engine relies on: an optional plan
  with its optional approval, the work, the checks, an optional review, and the final marker.
\<close>

lemma stages_in_order:
  assumes "IsCompound n"
  shows "stagesOk (map ss_Stage (ExpandNode nid n)) \<and> count_list (map ss_Stage (ExpandNode nid n)) StageTest = length (Checks n)"
proof
  show "stagesOk (map ss_Stage (ExpandNode nid n))" by (rule ExpandNode_stagesOk [OF assms])
  have "count_list (map (\<lambda>_. StageTest) xs) StageTest = length xs" for xs :: "Step list" by (induction xs) simp_all
  then show "count_list (map ss_Stage (ExpandNode nid n)) StageTest = length (Checks n)"
    unfolding ExpandNode_stages [OF assms] by (simp split: option.splits)
qed

section \<open>Order and reachability\<close>

text \<open>
  C27. The execution order of a scope lists every node once, starts with the start node, and puts every
  node after all sources of its forward edges.
\<close>

theorem topological_order_correct:
  assumes "topologicalOrder t = Inr order"
  shows "distinct order \<and> set order = fset (fmdom (TemplateNodes t)) \<and> hd order = Start t \<and>
    (\<forall>i<length order. \<forall>u. (u, order ! i) \<in> set (forwardPairs t) \<longrightarrow> u \<in> set (take i order))"
  using topologicalOrder_spec [OF assms] by (auto simp: nodeSet_def)

theorem topological_order_correct_witness:
  "\<exists>order. topologicalOrder pairTemplate = Inr order \<and> hd order = ''s'' \<and> distinct order"
proof -
  have "Start pairTemplate = ''s''" by code_simp
  with topological_order_correct [OF pair_order] pair_order show ?thesis by auto
qed

section \<open>Parameters\<close>

text \<open>
  Interpolation reads exactly the referenced parameters: parameter maps that agree on them give the
  same text, and a text without references is left as it is.
\<close>

lemma interpolation_reads_references:
  assumes "\<And>r. r \<in> set (ParamReferences v) \<Longrightarrow> mget [] ps r = mget [] qs r"
  shows "interpolateParams v ps = interpolateParams v qs \<and> (ParamReferences v = [] \<longrightarrow> interpolateParams v ps = v)"
  using interpolate_cong [of v ps qs] assms interpolate_literal by blast

text \<open>
  A subprocess body sees exactly its declared parameters: an authored input whose references are
  all present gives its interpolated text, otherwise the declared default, otherwise nothing.
\<close>

lemma inputs_bound:
  "fmlookup (BindInputs s body ps) name =
     (case fmlookup (Params body) name of
        None \<Rightarrow> None
      | Some param \<Rightarrow>
          (case fmlookup (Inputs s) name of
             Some e \<Rightarrow> if \<forall>r\<in>set (ParamReferences e). fmlookup ps r \<noteq> None then Some (interpolateParams e ps) else pm_Default param
           | None \<Rightarrow> pm_Default param))"
  by (simp add: BindInputs_lookup bindInput_def paramRefsPresent_def list_all_iff cong: option.case_cong)

section \<open>Limits\<close>

text \<open>
  C29. However many findings validation reports, the collected diagnostics stay within the count and the
  encoded-byte budget, the closing sentinel included.
\<close>

theorem diagnostics_bounded:
  "int (length (collectorDiagnostics (snd (AddAll dgs newTemplateDiagnosticCollector)))) \<le> MaxTemplateAuthoringDiagnostics \<and>
   sum_list (map diagnosticCost (collectorDiagnostics (snd (AddAll dgs newTemplateDiagnosticCollector)))) \<le> MaxTemplateDiagnosticWireBytes"
  using budgetInv_bounds [OF budgetInv_AddAll [OF budgetInv_new]] by blast

section \<open>Eligibility and preparation\<close>

text \<open>
  C30. In an eligible template every node with a retry policy is a task performed by a program or an
  agent, with a budget of one to a hundred attempts; every task has one outgoing route.
\<close>

theorem eligible_nodes_executable:
  assumes "RequireEligible t = Inr ()" "fmlookup (TemplateNodes t) nid = Some node"
  shows "(\<forall>retry. Retry node = Some retry \<longrightarrow> Type node = NodeTypeTask \<and> 1 \<le> rp_MaxAttempts retry \<and> rp_MaxAttempts retry \<le> 100) \<and>
    (Type node = NodeTypeTask \<longrightarrow> mlen (NextOf node) = 1 \<and>
       (\<exists>p. NodePerformer node = Some p \<and> (p_Kind p = PerformerProgram \<or> p_Kind p = PerformerAgent) \<and> p_Contact p = None)) \<and>
    Type node \<noteq> NodeTypeWait \<and> length nid \<le> MaxExecutableNodeIDBytes"
  by (rule eligible_node [OF assms])

theorem eligible_nodes_executable_witness:
  "\<exists>node retry. fmlookup (TemplateNodes briefTemplate) ''w'' = Some node \<and> Retry node = Some retry \<and> rp_MaxAttempts retry \<le> 100 \<and>
     mlen (NextOf node) = 1"
proof -
  let ?n = "programTask ''make'' (Some \<lparr>rp_MaxAttempts = 3, rp_Backoff = [], rp_OnFail = []\<rparr>) None [] (fmap_of_list [(''pass'', ''e'')])"
  have n: "fmlookup (TemplateNodes briefTemplate) ''w'' = Some ?n" by (simp add: briefTemplate_def)
  moreover have "Retry ?n = Some \<lparr>rp_MaxAttempts = 3, rp_Backoff = [], rp_OnFail = []\<rparr>" "Type ?n = NodeTypeTask"
    by (simp_all add: programTask_def)
  ultimately show ?thesis using eligible_nodes_executable [OF brief_eligible n] by auto
qed

end
