(* ===== verification/Execution_Order.thy ===== *)
theory Execution_Order
  imports Loop_Bodies Eligibility
begin

text \<open>
  When preparation finds an execution order.  The order skips bounded outcomes only, while the cycle check of authoring
  validation also exempts the retry of a poison escalation: in an eligible template an order is missing exactly
  when such a retry is not bounded.
\<close>

definition escalates :: "Template \<Rightarrow> bool" where
  "escalates t \<longleftrightarrow> (\<exists>e\<in>set (NormalizeEdges t). IsPoisonEscalationRetryEdge t e \<and> \<not> IsBoundedLoopEdge t e)"

section \<open>Orders and cycles\<close>

lemma forwardPairs_mem:
  "(u, v) \<in> set (forwardPairs t) \<longleftrightarrow> u \<in> nodeSet t \<and>
     (\<exists>oc. fmlookup (NextOf (node_of t u)) oc = Some v \<and> fmlookup (LoopBounds (node_of t u)) oc = None)"
  unfolding forwardPairs_def forwardTargets_def sortedOutcomes_def nodeSet_def
  by (fastforce simp: fmlookup_dom_iff mget_def image_iff)

lemma openEdges_none: "openEdges t P v = 0 \<longleftrightarrow> (\<forall>u. (u, v) \<in> set (forwardPairs t) \<longrightarrow> u \<in> P)"
  unfolding openEdges_def by (auto simp: filter_empty_conv)

lemma topologicalOrder_error: "topologicalOrder t = Inl e \<Longrightarrow> e = ErrInvalidDefinition"
  by (auto simp: topologicalOrder_def Let_def split: if_splits)

lemma order_before:
  assumes "topologicalOrder t = Inr order" "(u, v) \<in> set (forwardPairs t)" "i < length order" "order ! i = v"
  obtains j where "j < i" "order ! j = u"
  using topologicalOrder_spec(5) [OF assms(1,3), of u] assms(2,3,4) by (auto simp: in_set_conv_nth)

lemma order_two_cycle:
  assumes "topologicalOrder t = Inr order" "(u, v) \<in> set (forwardPairs t)" "(v, u) \<in> set (forwardPairs t)"
  shows False
proof -
  have "u \<in> set order" using topologicalOrder_spec(2) [OF assms(1)] assms(2) by (simp add: forwardPairs_mem)
  then obtain i where i: "i < length order" "order ! i = u" by (auto simp: in_set_conv_nth)
  from order_before [OF assms(1,3) i] obtain j where j: "j < i" "order ! j = v" .
  from order_before [OF assms(1,2) _ j(2)] j(1) i(1) obtain k where "k < j" "order ! k = u" by auto
  with i j(1) topologicalOrder_spec(1) [OF assms(1)] show False by (auto simp: distinct_conv_nth)
qed

text \<open>Without cycles, and with the entry as the only node without predecessors, the order is complete.\<close>

lemma order_exists:
  assumes ac: "acyclic (set (forwardPairs t))" and start: "{v \<in> nodeSet t. openEdges t {} v = 0} = {Start t}"
  shows "\<exists>order. topologicalOrder t = Inr order"
proof -
  let ?m = "initialRemaining t"
  let ?cs = "filter (\<lambda>nid. mget 0 ?m nid = 0) (sortedKeys ?m)"
  have s: "Start t \<in> nodeSet t" "openEdges t {} (Start t) = 0" using start by blast+
  have "set ?cs = {v \<in> nodeSet t. openEdges t {} v = 0}" using initialRemaining_spec(1) [of t] initialRemaining_spec(2) by auto
  then have "set ?cs = {Start t}" using start by simp
  moreover have "distinct ?cs" by simp
  ultimately have cs: "?cs = [Start t]"
    by (cases ?cs; cases "tl ?cs") (auto simp del: set_filter)
  have "mget 0 ?m v \<le> 0" if "v \<notin> nodeSet t" for v
    using that initialRemaining_spec(1) [of t] by (metis fmdom_notD mget_def option.simps(4) order_refl)
  then have "orderInv t [Start t] ?m []" unfolding orderInv_def using start initialRemaining_spec(2) by simp
  from orderLoop_spec [OF this] obtain m' where inv: "orderInv t [] m' (orderLoop t [Start t] ?m [])" by blast
  define order where "order = orderLoop t [Start t] ?m []"
  have d: "distinct order" and elems: "set order = {v \<in> nodeSet t. openEdges t (set order) v = 0}"
    using inv by (auto simp: orderInv_def order_def)
  have "wf (set (forwardPairs t))" using ac by (simp add: wf_iff_acyclic_if_finite)
  then have "v \<in> nodeSet t \<longrightarrow> v \<in> set order" for v
  proof (induction v rule: wf_induct_rule)
    case (less v)
    then show ?case by (subst elems) (auto simp: openEdges_none forwardPairs_mem)
  qed
  then have "set order = nodeSet t" using elems by blast
  then have "length order = mlen (TemplateNodes t)" using distinct_card [OF d] by (simp add: mlen_def nodeSet_def fcard.rep_eq)
  then show ?thesis by (simp add: topologicalOrder_def Let_def cs order_def)
qed

section \<open>Clean scopes\<close>

lemma forwardAdjacency_rel:
  "adjRel (fst (forwardAdjacency t es)) = {(ed_From e, ed_To e) | e. e \<in> set es \<and> forwardEdge t e}"
  "adjRel (snd (forwardAdjacency t es)) = {(ed_To e, ed_From e) | e. e \<in> set es \<and> forwardEdge t e}"
proof -
  define step where "step = (\<lambda>e (out, inc). if forwardEdge t e
             then (mappend (ed_From e) (ed_To e) out, mappend (ed_To e) (ed_From e) inc)
             else (out, inc :: (string, string list) fmap))"
  have one: "adjRel (fst (step e p)) = {(ed_From e', ed_To e') | e'. e' = e \<and> forwardEdge t e'} \<union> adjRel (fst p) \<and>
      adjRel (snd (step e p)) = {(ed_To e', ed_From e') | e'. e' = e \<and> forwardEdge t e'} \<union> adjRel (snd p)" for e p
    by (cases p) (simp add: step_def adjRel_mappend)
  have "adjRel (fst (fold step es p)) = {(ed_From e, ed_To e) | e. e \<in> set es \<and> forwardEdge t e} \<union> adjRel (fst p) \<and>
      adjRel (snd (fold step es p)) = {(ed_To e, ed_From e) | e. e \<in> set es \<and> forwardEdge t e} \<union> adjRel (snd p)" for p
  proof (induction es arbitrary: p)
    case (Cons e es)
    show ?case using Cons.IH [of "step e p"] unfolding one [THEN conjunct1] one [THEN conjunct2] fold_simps list.set by blast
  qed simp
  from this [of "(fmempty, fmempty)"]
  show "adjRel (fst (forwardAdjacency t es)) = {(ed_From e, ed_To e) | e. e \<in> set es \<and> forwardEdge t e}"
    "adjRel (snd (forwardAdjacency t es)) = {(ed_To e, ed_From e) | e. e \<in> set es \<and> forwardEdge t e}"
    unfolding forwardAdjacency_def step_def by (simp_all add: adjRel_def)
qed

abbreviation forwardRel :: "Template \<Rightarrow> (string \<times> string) set" where
  "forwardRel t \<equiv> edgeRel (acyclicEdges t (NormalizeEdges t))"

lemma forwardRel_adjacency:
  assumes "cleanScope t"
  shows "adjRel (fst (forwardAdjacency t (NormalizeEdges t))) = forwardRel t"
    "adjRel (snd (forwardAdjacency t (NormalizeEdges t))) = (forwardRel t)\<inverse>"
proof -
  have "forwardEdge t e \<longleftrightarrow> ed_From e \<noteq> [] \<and> \<not> isCycleExemptEdge t e" if "e \<in> set (NormalizeEdges t)" for e
    using clean_target [OF assms NormalizeEdges_cases [OF that]] by (auto simp: forwardEdge_def fmlookup_dom_iff)
  then show "adjRel (fst (forwardAdjacency t (NormalizeEdges t))) = forwardRel t"
    "adjRel (snd (forwardAdjacency t (NormalizeEdges t))) = (forwardRel t)\<inverse>"
    unfolding forwardAdjacency_rel edgeRel_def acyclicEdges_def by auto
qed

lemma bounded_iff:
  assumes "e \<in> set (NormalizeEdges t)" "ed_From e \<noteq> []"
  shows "IsBoundedLoopEdge t e \<longleftrightarrow> fmlookup (LoopBounds (node_of t (ed_From e))) (ed_Outcome e) \<noteq> None"
  using NormalizeEdges_cases [OF assms] assms(2)
  by (auto simp: IsBoundedLoopEdge_def node_of_def mget_def fmlookup_dom_iff)

lemma forwardPairs_forwardRel:
  assumes "cleanScope t" "\<not> escalates t"
  shows "set (forwardPairs t) = forwardRel t"
proof -
  have exempt: "isCycleExemptEdge t e \<longleftrightarrow> fmlookup (LoopBounds (node_of t (ed_From e))) (ed_Outcome e) \<noteq> None"
    if "e \<in> set (NormalizeEdges t)" "ed_From e \<noteq> []" for e
    using that assms(2) bounded_iff [OF that] by (auto simp: isCycleExemptEdge_def escalates_def)
  show ?thesis
  proof (intro set_eqI iffI)
    fix p assume "p \<in> set (forwardPairs t)"
    moreover obtain u v where "p = (u, v)" by force
    ultimately obtain u v oc where p: "p = (u, v)" "u |\<in>| fmdom (TemplateNodes t)" "fmlookup (NextOf (node_of t u)) oc = Some v"
      "fmlookup (LoopBounds (node_of t u)) oc = None" by (auto simp: forwardPairs_mem nodeSet_def)
    from NormalizeEdges_mem [OF p(2,3)] exempt [of "\<lparr>ed_From = u, ed_Outcome = oc, ed_To = v\<rparr>"] clean_id(2) [OF assms(1) p(2)] p(1,4)
    show "p \<in> forwardRel t" by (auto simp: edgeRel_def acyclicEdges_def intro!: exI [of _ "\<lparr>ed_From = u, ed_Outcome = oc, ed_To = v\<rparr>"])
  next
    fix p assume "p \<in> forwardRel t"
    then obtain e where e: "p = (ed_From e, ed_To e)" "e \<in> set (NormalizeEdges t)" "ed_From e \<noteq> []" "\<not> isCycleExemptEdge t e"
      by (auto simp: edgeRel_def acyclicEdges_def)
    then show "p \<in> set (forwardPairs t)"
      using NormalizeEdges_cases [OF e(2,3)] exempt [OF e(2,3)] by (auto simp: forwardPairs_mem nodeSet_def)
  qed
qed

section \<open>Loops and reachability\<close>

lemma notBack_silent: "\<not> HasErrors (notBackFindings t es nid) \<Longrightarrow> notBackFindings t es nid = []"
  unfolding notBackFindings_def Let_def by (auto simp: HasErrors_map split: if_splits)

lemma bound_silent: "\<not> HasErrors (boundFindings path node free oc) \<Longrightarrow> boundFindings path node free oc = []"
  by (auto simp: boundFindings_def Let_def split: if_splits)

lemma bounds_silent: "\<not> HasErrors (boundsOfNode t nid) \<Longrightarrow> boundsOfNode t nid = []"
  unfolding boundsOfNode_def Let_def by (auto simp: HasErrors_map bound_silent split: if_splits)

lemma notBack_at:
  assumes "notBackFindings t es nid = []" "oc |\<in>| fmdom (LoopBounds (node_of t nid))" "mget [] (NextOf (node_of t nid)) oc |\<in>| fmdom (TemplateNodes t)"
  shows "nid |\<in>| reachableFrom (mget [] (NextOf (node_of t nid)) oc) (fst (forwardAdjacency t es))"
proof (rule ccontr)
  assume "nid |\<notin>| reachableFrom (mget [] (NextOf (node_of t nid)) oc) (fst (forwardAdjacency t es))"
  then have "HasErrors (notBackFindings t es nid)"
    unfolding notBackFindings_def Let_def HasErrors_map using assms(2,3)
    by (intro bexI [of _ oc]) (auto simp: fmlookup_dom_iff)
  with assms(1) show False by simp
qed

lemma clean_shapes:
  assumes "cleanScope t"
  shows "nid |\<in>| fmdom (TemplateNodes t) \<Longrightarrow> notBackFindings t (NormalizeEdges t) nid = []"
    "l \<in> set (Loops t (NormalizeEdges t)) \<Longrightarrow> \<not> HasErrors (loopShape t (NormalizeEdges t) l)"
proof -
  let ?es = "NormalizeEdges t"
  define declared where "declared = concat (map (boundsOfNode t) (sortedKeys (TemplateNodes t)))"
  define goingBack where "goingBack = concat (map (notBackFindings t ?es) (sortedKeys (TemplateNodes t)))"
  define shapes where "shapes = concat (map (loopShape t ?es) (Loops t ?es))"
  have v: "validateLoops t ?es = (if declared \<noteq> [] then declared else if goingBack \<noteq> [] \<or> HasErrors (validateAcyclic t ?es) then goingBack
      else shapes @ overlaps (Loops t ?es))"
    unfolding validateLoops_def Let_def declared_def goingBack_def shapes_def by simp
  have "declared = [] \<or> HasErrors declared" unfolding declared_def HasErrors_map using bounds_silent by auto
  with clean_loops [OF assms] v have d: "declared = []" by (auto split: if_splits)
  have "goingBack = [] \<or> HasErrors goingBack" unfolding goingBack_def HasErrors_map using notBack_silent by auto
  with clean_loops [OF assms] v d have b: "goingBack = []" by (auto split: if_splits)
  then show "nid |\<in>| fmdom (TemplateNodes t) \<Longrightarrow> notBackFindings t ?es nid = []" by (auto simp: goingBack_def)
  have "\<not> HasErrors shapes" using clean_loops [OF assms] clean_cycles [OF assms] v d b by (simp add: HasErrors_append)
  then show "l \<in> set (Loops t ?es) \<Longrightarrow> \<not> HasErrors (loopShape t ?es l)" by (simp add: shapes_def HasErrors_map)
qed

text \<open>A bounded edge leads back to a node that forward edges reach as well, because a loop is entered at its top only.\<close>

lemma loop_top_reached:
  assumes clean: "cleanScope t" and e: "e \<in> set (NormalizeEdges t)" "ed_From e \<noteq> []" "IsBoundedLoopEdge t e"
    and reached: "(Start t, ed_From e) \<in> (forwardRel t)\<^sup>*"
  shows "(Start t, ed_To e) \<in> (forwardRel t)\<^sup>*"
proof -
  let ?es = "NormalizeEdges t" and ?F = "forwardRel t"
  note n = NormalizeEdges_cases [OF e(1,2)]
  note target = clean_target [OF clean n]
  from e bounded_iff obtain b where b: "fmlookup (LoopBounds (node_of t (ed_From e))) (ed_Outcome e) = Some b" by blast
  have oc: "ed_Outcome e \<in> set (sortedKeys (LoopBounds (node_of t (ed_From e))))" using b by (simp add: fmdomI)
  have again: "ed_From e |\<in>| reachableFrom (ed_To e) (fst (forwardAdjacency t ?es))"
    using notBack_at [OF clean_shapes(1) [OF clean n(1)], of "ed_Outcome e"] n(2) b target by (simp add: mget_def fmdomI)
  with n(2) target obtain l where l: "loopAt t ?es (ed_From e) (ed_Outcome e) = Some l" "lp_To l = ed_To e"
    "lp_Body l = sorted_list_of_fset (reachableFrom (ed_To e) (fst (forwardAdjacency t ?es)) |\<inter>| reachableFrom (ed_From e) (snd (forwardAdjacency t ?es)))"
    unfolding loopAt_def by (cases "forwardAdjacency t ?es") (auto simp: Let_def fmlookup_dom_iff)
  have contains: "Contains l x \<longleftrightarrow> (ed_To e, x) \<in> ?F\<^sup>* \<and> (x, ed_From e) \<in> ?F\<^sup>*" for x
  proof -
    have "x |\<in>| reachableFrom (ed_To e) (fst (forwardAdjacency t ?es)) \<longleftrightarrow> (ed_To e, x) \<in> ?F\<^sup>*"
      "x |\<in>| reachableFrom (ed_From e) (snd (forwardAdjacency t ?es)) \<longleftrightarrow> (x, ed_From e) \<in> ?F\<^sup>*"
      using reachableFrom_closure forwardRel_adjacency [OF clean] by (simp_all add: rtrancl_converse)
    then show ?thesis unfolding Contains_def l(3) by (subst BinarySearch_iff) (simp_all add: sorted_list_of_fset.rep_eq)
  qed
  have "l \<in> set (Loops t ?es)" unfolding Loops_def using n(1) oc l(1) by force
  note shape = clean_shapes(2) [OF clean this, unfolded loopShape_def HasErrors_append HasErrors_map]
  have top: "ed_To e = Start t" if "Contains l (Start t)" using shape that l(2) by auto
  have entry: "y = ed_To e" if "(x, y) \<in> ?F" "Contains l y" "\<not> Contains l x" for x y
    using shape that l(2) by (fastforce simp: edgeRel_def acyclicEdges_def)
  have "Contains l x \<longrightarrow> (Start t, ed_To e) \<in> ?F\<^sup>*" if "(Start t, x) \<in> ?F\<^sup>*" for x
    using that
  proof (induction rule: rtrancl_induct)
    case base
    then show ?case using top by auto
  next
    case (step y z)
    then show ?case using entry [OF step(2)] by (metis rtrancl.rtrancl_into_rtrancl)
  qed
  moreover have "Contains l (ed_From e)" using again reachableFrom_closure forwardRel_adjacency [OF clean]
    unfolding contains by auto
  ultimately show ?thesis using reached by blast
qed

lemma forward_reached:
  assumes clean: "cleanScope t" and start: "Start t |\<in>| fmdom (TemplateNodes t)" and no: "\<not> escalates t"
    and v: "v |\<in>| fmdom (TemplateNodes t)"
  shows "(Start t, v) \<in> (forwardRel t)\<^sup>*"
proof -
  let ?es = "NormalizeEdges t"
  have "\<not> HasErrors (validateReachability t ?es)" using clean_graph [OF clean] unfolding validateScopeGraph_def HasErrors_append by blast
  with v clean_id(2) [OF clean start] have "v |\<in>| reachedNodes t ?es" unfolding validateReachability_def by (auto simp: HasErrors_map split: if_splits)
  then have "(Start t, v) \<in> (insideRel (fmdom (TemplateNodes t)) (adjacency ?es))\<^sup>*"
    using start reachVisits_spec [of "fmdom (TemplateNodes t)" "adjacency ?es" "[Start t]"] by (auto simp: reachedNodes_def split: if_splits)
  then show ?thesis
  proof (induction rule: rtrancl_induct)
    case (step y z)
    then obtain e where e: "e \<in> set ?es" "ed_From e \<noteq> []" "y = ed_From e" "z = ed_To e"
      by (auto simp: insideRel_def adjRel_adjacency edgeRel_def)
    show ?case
    proof (cases "isCycleExemptEdge t e")
      case True
      with no e(1) have "IsBoundedLoopEdge t e" by (auto simp: isCycleExemptEdge_def escalates_def)
      from loop_top_reached [OF clean e(1,2) this] step(3) show ?thesis by (simp add: e(3,4))
    next
      case False
      with e have "(y, z) \<in> forwardRel t" by (auto simp: edgeRel_def acyclicEdges_def)
      with step(3) show ?thesis by simp
    qed
  qed simp
qed

section \<open>The order of an eligible template\<close>

lemma clean_order:
  assumes clean: "cleanScope t" and start: "Start t |\<in>| fmdom (TemplateNodes t)" and no: "\<not> escalates t"
  shows "\<exists>order. topologicalOrder t = Inr order"
proof (rule order_exists)
  note eq = forwardPairs_forwardRel [OF clean no] and ac = clean_acyclic [OF clean] and reach = forward_reached [OF clean start no]
  show "acyclic (set (forwardPairs t))" unfolding eq by (rule ac)
  have "(u, Start t) \<notin> forwardRel t" for u
  proof
    assume u: "(u, Start t) \<in> forwardRel t"
    then have "u |\<in>| fmdom (TemplateNodes t)" unfolding eq [symmetric] by (simp add: forwardPairs_mem nodeSet_def)
    from rtrancl_into_trancl1 [OF reach [OF this] u] ac show False by (auto simp: acyclic_def)
  qed
  moreover have "\<exists>u. (u, v) \<in> forwardRel t" if "v |\<in>| fmdom (TemplateNodes t)" "v \<noteq> Start t" for v
    using reach [OF that(1)] that(2) by (metis rtranclE)
  ultimately show "{v \<in> nodeSet t. openEdges t {} v = 0} = {Start t}"
    using start by (auto simp: openEdges_none eq nodeSet_def)
qed

lemma escalation_no_order:
  assumes clean: "cleanScope t" and esc: "escalates t"
  shows "topologicalOrder t = Inl ErrInvalidDefinition"
proof -
  from esc obtain e where e: "e \<in> set (NormalizeEdges t)" "IsPoisonEscalationRetryEdge t e" "\<not> IsBoundedLoopEdge t e"
    by (auto simp: escalates_def)
  then have declared: "ed_From e |\<in>| fmdom (TemplateNodes t)" "ed_To e |\<in>| fmdom (TemplateNodes t)"
    and target: "IsCompound (node_of t (ed_To e))" "FailTarget (NextOf (node_of t (ed_To e))) = ed_From e"
    by (auto simp: IsPoisonEscalationRetryEdge_def node_of_def mget_def fmlookup_dom_iff split: option.splits)
  note ne = clean_id(2) [OF clean declared(1)]
  note n = NormalizeEdges_cases [OF e(1) ne]
  have retry: "(ed_From e, ed_To e) \<in> set (forwardPairs t)"
    using n e(3) bounded_iff [OF e(1) ne] by (auto simp: forwardPairs_mem nodeSet_def)
  from target(2) ne obtain oc where "mget [] (NextOf (node_of t (ed_To e))) oc = ed_From e"
    by (auto simp: FailTarget_def split: option.splits)
  with ne have "fmlookup (NextOf (node_of t (ed_To e))) oc = Some (ed_From e)" by (auto simp: mget_def split: option.splits)
  moreover have "fmlookup (LoopBounds (node_of t (ed_To e))) oc = None"
    using clean_bound(1) [OF clean declared(2)] target(1) by (cases "fmlookup (LoopBounds (node_of t (ed_To e))) oc") (auto simp: IsCompound_def)
  ultimately have "(ed_To e, ed_From e) \<in> set (forwardPairs t)" using declared(2) by (auto simp: forwardPairs_mem nodeSet_def)
  with retry order_two_cycle show ?thesis by (cases "topologicalOrder t") (auto dest: topologicalOrder_error)
qed

lemma eligible_start: "RequireEligible t = Inr () \<Longrightarrow> Start t |\<in>| fmdom (TemplateNodes t)"
  using RequireEligible_execution [of t] by (auto simp: executionDiagnostics_def fmlookup_dom_iff split: if_splits)

lemma eligible_order: "RequireEligible t = Inr () \<Longrightarrow> (\<exists>order. topologicalOrder t = Inr order) \<longleftrightarrow> \<not> escalates t"
  using clean_order escalation_no_order RequireEligible_clean eligible_start by (metis sum.distinct(1))

end
