(* ===== verification/Preparation_Laws.thy ===== *)
theory Preparation_Laws
  imports Prepare_Correct Template_Samples Run_Laws Execution_Order
begin

text \<open>
  The theorems about preparation and about the graph checks of authoring validation it relies on:
  what \<open>Prepare\<close> returns is well formed, so every guarantee about runs holds of every
  prepared template; cycles and reachability are decided exactly; bounded loops are proper.
\<close>

section \<open>Prepared definitions\<close>

lemma pair_prepared: "Prepare pairTemplate fmempty = Inr (projr (Prepare pairTemplate fmempty))"
  using pair_prepares by (cases "Prepare pairTemplate fmempty") auto

text \<open>
  C2. Whatever template and parameters preparation accepts, the definition it returns is well formed: all
  indexes are in range, edges and incidence lists agree, stages are the ordered children of their
  compound, bodies are index ranges that edges do not leave, and loop bodies are closed.
\<close>

theorem prepared_well_formed:
  assumes "Prepare t params = Inr d"
  shows "wf_definition d"
  by (rule Prepare_wf [OF assms])

theorem prepared_well_formed_witness:
  "wf_definition (projr (Prepare pairTemplate fmempty)) \<and> length (d_nodes (projr (Prepare pairTemplate fmempty))) = 2"
proof -
  have "length (d_nodes (projr (Prepare pairTemplate fmempty))) = 2" by code_simp
  with prepared_well_formed [OF pair_prepared] show ?thesis by blast
qed

text \<open>
  C3. From an authored template to a stored run: every checkpoint that a run of a prepared template can reach
  passes the load boundary, and a driver pass from it neither exhausts its budget nor leaves the invariant.
\<close>

theorem prepared_run_loads:
  assumes "Prepare t params = Inr d" "reachable r d c"
  shows "validateCheckpoint c d = Inr () \<and> AdvanceUntilQuiescent c d \<noteq> Inl ErrTransitionBudgetExhausted \<and>
    (\<forall>c' x changed. AdvanceAndPlan c d = Inr (c', x, changed) \<longrightarrow> validateCheckpoint c' d = Inr ())"
proof -
  have wf: "wf_definition d" by (rule Prepare_wf [OF assms(1)])
  note inv = Inv_reachable [OF wf assms(2)]
  have "validateCheckpoint c' d = Inr ()" if "AdvanceAndPlan c d = Inr (c', x, changed)" for c' x changed
    using Inv_validates [OF wf Inv_reachable [OF wf reachable.driven [OF assms(2) that]]] .
  moreover have "AdvanceUntilQuiescent c d \<noteq> Inl ErrTransitionBudgetExhausted"
    using advance_error [OF wf inv] by (auto simp: AdvanceUntilQuiescent_def bindR_Inl_iff refusal_def)
  ultimately show ?thesis using Inv_validates [OF wf inv] by blast
qed

theorem prepared_run_loads_witness:
  "validateCheckpoint (initialCheckpoint ''run'' (projr (Prepare pairTemplate fmempty))) (projr (Prepare pairTemplate fmempty)) = Inr ()"
proof -
  have "\<not> isl (Initialize ''run'' (projr (Prepare pairTemplate fmempty)))" by code_simp
  then have "Initialize ''run'' (projr (Prepare pairTemplate fmempty)) =
      Inr (initialCheckpoint ''run'' (projr (Prepare pairTemplate fmempty)))"
    by (auto simp: Initialize_def bindR_def split: sum.splits if_splits)
  from prepared_run_loads [OF pair_prepared reachable.created [OF this]] show ?thesis by blast
qed

text \<open>
  C34. In an eligible template the nodes have an execution order exactly when no poison escalation, the retry of a human
  decision that goes back to the compound task whose failure it handles, is left without a loop bound: the
  cycle check of authoring validation exempts that retry, preparation's order does not.  Such a template is
  eligible, and preparation refuses it for all parameters as an invalid definition.
\<close>

theorem eligible_order_exact:
  assumes "RequireEligible t = Inr ()"
  shows "((\<exists>order. topologicalOrder t = Inr order) \<longleftrightarrow>
      \<not> (\<exists>e\<in>set (NormalizeEdges t). IsPoisonEscalationRetryEdge t e \<and> \<not> IsBoundedLoopEdge t e)) \<and>
    ((\<exists>e\<in>set (NormalizeEdges t). IsPoisonEscalationRetryEdge t e \<and> \<not> IsBoundedLoopEdge t e) \<longrightarrow>
      (\<forall>params. Prepare t params = Inl ErrInvalidDefinition))"
  using eligible_order [OF assms] escalation_no_order [OF RequireEligible_clean [OF assms]]
  unfolding escalates_def by (simp add: Prepare_def prepareScope.simps assms)

theorem eligible_order_exact_witness:
  "(\<forall>params. Prepare escalationTemplate params = Inl ErrInvalidDefinition) \<and> (\<exists>order. topologicalOrder briefTemplate = Inr order)"
proof -
  have "list_ex (\<lambda>e. IsPoisonEscalationRetryEdge escalationTemplate e \<and> \<not> IsBoundedLoopEdge escalationTemplate e) (NormalizeEdges escalationTemplate)"
    "\<not> list_ex (IsPoisonEscalationRetryEdge briefTemplate) (NormalizeEdges briefTemplate)" by code_simp+
  with eligible_order_exact [OF escalation_eligible] eligible_order_exact [OF brief_eligible] show ?thesis
    unfolding list_ex_iff by blast
qed

section \<open>The graph of a scope\<close>

text \<open>
  C32. The cycle check is exact: it reports nothing precisely when the edges that are neither bounded by a
  loop nor the retry of a poison escalation form an acyclic graph.
\<close>

theorem cycle_check_exact: "validateAcyclic t es = [] \<longleftrightarrow> acyclic (edgeRel (acyclicEdges t es))"
  by (rule validateAcyclic_iff)

text \<open>
  C33. The reachability check is exact: in a scope whose start is declared it reports nothing precisely
  when every declared node can be reached from the start over edges to declared nodes.
\<close>

theorem reachability_check_exact:
  assumes "Start t \<noteq> []" "Start t |\<in>| fmdom (TemplateNodes t)"
  shows "validateReachability t es = [] \<longleftrightarrow>
    (\<forall>nid |\<in>| fmdom (TemplateNodes t). (Start t, nid) \<in> {(a, b) \<in> edgeRel es. b |\<in>| fmdom (TemplateNodes t)}\<^sup>*)"
proof -
  let ?R = "{(a, b) \<in> edgeRel es. b |\<in>| fmdom (TemplateNodes t)}"
  have "insideRel (fmdom (TemplateNodes t)) (adjacency es) = ?R" by (auto simp: insideRel_def adjRel_adjacency)
  then have "fset (reachedNodes t es) = ?R\<^sup>* `` {Start t}"
    using assms(2) reachVisits_spec [of "fmdom (TemplateNodes t)" "adjacency es" "[Start t]"]
    by (auto simp: reachedNodes_def fmlookup_dom_iff)
  then show ?thesis
    using assms(1) by (auto simp: validateReachability_def concat_eq_Nil_conv)
qed

theorem reachability_check_exact_witness:
  "(''s'', ''e'') \<in> {(a, b) \<in> edgeRel (NormalizeEdges pairTemplate). b |\<in>| fmdom (TemplateNodes pairTemplate)}\<^sup>*"
proof -
  have "Start pairTemplate = ''s''" "''s'' |\<in>| fmdom (TemplateNodes pairTemplate)" "''e'' |\<in>| fmdom (TemplateNodes pairTemplate)"
    by (simp_all add: pairTemplate_def)
  moreover have "validateReachability pairTemplate (NormalizeEdges pairTemplate) = []" by code_simp
  ultimately show ?thesis using reachability_check_exact [of pairTemplate "NormalizeEdges pairTemplate"] by auto
qed

text \<open>
  C31. Every bounded loop of an eligible template is proper: it leaves a decision by one of its outcomes, has two to a
  hundred rounds, its body is a set of declared nodes with both ends, and its exits leave from the body.
\<close>

theorem eligible_loops_proper:
  assumes "RequireEligible t = Inr ()" "l \<in> set (Loops t (NormalizeEdges t))"
  shows "Type (node_of t (lp_From l)) = NodeTypeDecision \<and>
    fmlookup (NextOf (node_of t (lp_From l))) (lp_Outcome l) = Some (lp_To l) \<and>
    2 \<le> lp_MaxIterations l \<and> lp_MaxIterations l \<le> 100 \<and> {lp_From l, lp_To l} \<subseteq> set (lp_Body l) \<and>
    set (lp_Body l) \<subseteq> fset (fmdom (TemplateNodes t)) \<and> ed_From ` set (lp_Exits l) \<subseteq> set (lp_Body l)"
  using Loops_proper [OF RequireEligible_clean [OF assms(1)] assms(2)] unfolding properLoop_def by auto

theorem eligible_loops_proper_witness:
  "\<exists>l\<in>set (Loops roundTemplate (NormalizeEdges roundTemplate)). lp_MaxIterations l \<le> 100 \<and> lp_To l = ''w''"
proof -
  have "map lp_To (Loops roundTemplate (NormalizeEdges roundTemplate)) = [''w'']" by code_simp
  then obtain l where "l \<in> set (Loops roundTemplate (NormalizeEdges roundTemplate))" "lp_To l = ''w''"
    by (metis (no_types, lifting) imageE list.set_intros(1) list.set_map)
  with eligible_loops_proper [OF round_eligible] show ?thesis by blast
qed

end
