(* ===== verification/Resolution.thy ===== *)
theory Resolution
  imports Validate_Scope
begin

text \<open>
  Resolution of template references (\<open>model/subprocess.go\<close>): a run embeds the templates its subprocess nodes
  refer to, so that its snapshot needs no template store.  The resolver, the store's lookup of a template by id and version,
  is a parameter; its error and every error of resolution is the message text.  The source clones a template and
  then writes to the clone; here the rewritten template is the result.
\<close>

section \<open>Writes to the template tree\<close>

definition withNodes :: "Template \<Rightarrow> (string, Node) fmap \<Rightarrow> Template" where
  "withNodes t ns =
     Template (APIVersion t) (TemplateKind t) (TemplateID t) (Params t) (TemplateFallback t) (Start t) ns (TemplateProse t) (LayoutOf t)"

definition withoutLayout :: "Template \<Rightarrow> Template" where
  "withoutLayout t =
     Template (APIVersion t) (TemplateKind t) (TemplateID t) (Params t) (TemplateFallback t) (Start t) (TemplateNodes t) (TemplateProse t) None"

definition withSubprocess :: "Node \<Rightarrow> Subprocess \<Rightarrow> Node" where
  "withSubprocess n s =
     Node (Type n) (Join n) (NodePerformer n) (Plan n) (Checks n) (Review n) (Retry n) (Wait n) (NextOf n) (LoopBounds n)
       (Result n) (Captures n) (Some s) (NodeProse n)"

definition withBodyNodes :: "Subprocess \<Rightarrow> (string, Node) fmap \<Rightarrow> Subprocess" where
  "withBodyNodes s ns =
     Subprocess (TemplateRef s) (PinnedVersion s) (SubParams s) (SubStart s) ns (Inputs s) (Outputs s) (Resolved s)"

definition withResolved :: "Subprocess \<Rightarrow> Template \<Rightarrow> Subprocess" where
  "withResolved s body =
     Subprocess (TemplateRef s) (PinnedVersion s) (SubParams s) (SubStart s) (SubNodes s) (Inputs s) (Outputs s) (Some body)"

lemma withNodes_simps [simp]:
  "TemplateNodes (withNodes t ns) = ns" "TemplateID (withNodes t ns) = TemplateID t" "LayoutOf (withNodes t ns) = LayoutOf t"
  "withNodes (withNodes t ns) ms = withNodes t ms" "withNodes t (TemplateNodes t) = t"
  by (cases t, simp add: withNodes_def)+

lemma withoutLayout_simps [simp]:
  "TemplateNodes (withoutLayout t) = TemplateNodes t" "TemplateID (withoutLayout t) = TemplateID t" "LayoutOf (withoutLayout t) = None"
  by (simp_all add: withoutLayout_def)

lemma withSubprocess_simps [simp]:
  "SubprocessOf (withSubprocess n s) = Some s" "Type (withSubprocess n s) = Type n"
  by (simp_all add: withSubprocess_def)

lemma withBodyNodes_simps [simp]:
  "SubNodes (withBodyNodes s ns) = ns" "TemplateRef (withBodyNodes s ns) = TemplateRef s" "Resolved (withBodyNodes s ns) = Resolved s"
  by (simp_all add: withBodyNodes_def)

lemma withResolved_simps [simp]:
  "Resolved (withResolved s b) = Some b" "TemplateRef (withResolved s b) = TemplateRef s" "IsInline (withResolved s b) = IsInline s"
  by (simp_all add: withResolved_def IsInline_def)

section \<open>Graph size\<close>

definition scopeGraphCardinality :: "Template \<Rightarrow> NormalizedGraphCardinality" where
  "scopeGraphCardinality scope =
     (let counts = edgesOfBody scope \<lparr>gc_Nodes = saturatingCount (int (mlen (TemplateNodes scope))) MaxNormalizedNodes, gc_Edges = 0\<rparr>;
          nested = subprocessGraphCardinality scope
      in addEdges (gc_Edges nested) (addNodes (gc_Nodes nested) counts))"

section \<open>Resolution\<close>

type_synonym TemplateResolver = "string \<Rightarrow> string \<Rightarrow> string + Template option \<times> string"

definition subprocessError :: "string \<Rightarrow> string \<Rightarrow> string" where
  "subprocessError nodeID message = ''subprocess '' @ quote nodeID @ '': '' @ message"

text \<open>The checks of one reference and the body it stands for, before the body's own references.\<close>

definition resolveReference ::
    "TemplateResolver option \<Rightarrow> string list \<Rightarrow> Subprocess \<Rightarrow> NormalizedGraphCardinality \<Rightarrow> string + Template \<times> NormalizedGraphCardinality" where
  "resolveReference resolver stack sp budget =
     (if TemplateRef sp \<in> set stack
      then Inl (''template reference cycle '' @ joinWith '' -> '' stack @ '' -> '' @ TemplateRef sp)
      else case resolver of
        None \<Rightarrow> Inl (''template '' @ quote (TemplateRef sp) @ '' cannot be resolved'')
      | Some resolve \<Rightarrow>
          (case resolve (TemplateRef sp) (PinnedVersion sp) of
             Inl err \<Rightarrow> Inl (''resolve template '' @ quote (TemplateRef sp) @ '': '' @ err)
           | Inr (None, version) \<Rightarrow> Inl (''resolver returned the wrong template for '' @ quote (TemplateRef sp))
           | Inr (Some referenced, version) \<Rightarrow>
               if TemplateID referenced \<noteq> TemplateRef sp
               then Inl (''resolver returned the wrong template for '' @ quote (TemplateRef sp))
               else if PinnedVersion sp \<noteq> [] \<and> version \<noteq> PinnedVersion sp
               then Inl (''resolver returned version '' @ quote version @ '', want '' @ quote (PinnedVersion sp))
               else
                 let body = withoutLayout referenced;
                     added = scopeGraphCardinality body;
                     budget' = addEdges (gc_Edges added) (addNodes (gc_Nodes added) budget)
                 in if gc_Nodes budget' > MaxNormalizedNodes \<or> gc_Edges budget' > MaxNormalizedEdges
                    then Inl (''resolved process exceeds '' @ show_int MaxNormalizedNodes @ '' nodes or '' @ show_int MaxNormalizedEdges @ '' edges'')
                    else Inr (body, budget')))"

text \<open>
  One node of a scope.  \<open>nested\<close> resolves a body one level deeper; it is \<open>None\<close> where the nesting limit is reached.
\<close>

definition resolveNode ::
    "TemplateResolver option \<Rightarrow> (string list \<Rightarrow> Template \<Rightarrow> NormalizedGraphCardinality \<Rightarrow> string + Template \<times> NormalizedGraphCardinality) option \<Rightarrow>
     string list \<Rightarrow> string \<Rightarrow> Template \<times> NormalizedGraphCardinality \<Rightarrow> string + Template \<times> NormalizedGraphCardinality" where
  "resolveNode resolver nested stack nodeID st =
     (case st of (scope, budget) \<Rightarrow>
      let node = node_of scope nodeID;
          fail = map_sum (subprocessError nodeID) id;
          store = (\<lambda>sp. withNodes scope (fmupd nodeID (withSubprocess node sp) (TemplateNodes scope)))
      in case SubprocessOf node of
           None \<Rightarrow> Inr (scope, budget)
         | Some sp \<Rightarrow>
             if Type node \<noteq> NodeTypeSubprocess then Inr (scope, budget)
             else (case nested of
                     None \<Rightarrow> Inl (subprocessError nodeID
                        (''subprocesses nest at most '' @ show_int (int MaxSubprocessDepth) @ '' levels deep''))
                   | Some resolveBody \<Rightarrow>
                       if IsInline sp
                       then bindR (fail (resolveBody stack (the (Body (Some sp))) budget))
                              (\<lambda>(body, budget'). Inr (store (withBodyNodes sp (TemplateNodes body)), budget'))
                       else if TemplateRef sp = [] then Inr (scope, budget)
                       else bindR (fail (resolveReference resolver stack sp budget)) (\<lambda>(body, budget').
                              bindR (fail (resolveBody (stack @ [TemplateRef sp]) body budget'))
                                (\<lambda>(body', budget''). Inr (store (withResolved sp body'), budget'')))))"

text \<open>The scope at nesting depth \<open>MaxSubprocessDepth - left\<close>.\<close>

primrec resolveScope ::
    "TemplateResolver option \<Rightarrow> nat \<Rightarrow> string list \<Rightarrow> Template \<Rightarrow> NormalizedGraphCardinality \<Rightarrow> string + Template \<times> NormalizedGraphCardinality" where
  "resolveScope resolver 0 = (\<lambda>stack scope budget.
     foldR (resolveNode resolver None stack) (sortedKeys (TemplateNodes scope)) (scope, budget))"
| "resolveScope resolver (Suc left) = (\<lambda>stack scope budget.
     foldR (resolveNode resolver (Some (resolveScope resolver left)) stack) (sortedKeys (TemplateNodes scope)) (scope, budget))"

definition ResolveSubprocessRefs :: "Template \<Rightarrow> TemplateResolver option \<Rightarrow> string + Template" where
  "ResolveSubprocessRefs t resolver =
     map_sum id fst (resolveScope resolver MaxSubprocessDepth [TemplateID t] t (scopeGraphCardinality t))"

section \<open>Dropping resolved bodies\<close>

text \<open>
  What \<open>SemanticHash\<close> does before it hashes: the authored template, without the bodies a run embedded.  The source
  descends into inline bodies only; a body that is not inline has no nodes.
\<close>

primrec stripNode :: "Node \<Rightarrow> Node"
and stripSubprocess :: "Subprocess \<Rightarrow> Subprocess"
and stripTemplate :: "Template \<Rightarrow> Template" where
  "stripNode (Node ty jn pf pl ch rv rt wt nx lb rs cp s px) =
     Node ty jn pf pl ch rv rt wt nx lb rs cp (map_option stripSubprocess s) px"
| "stripSubprocess (Subprocess tr v ps st ns ins outs rs) =
     Subprocess tr v ps st (fmmap stripNode ns) ins outs None"
| "stripTemplate (Template av k i ps fb st ns px ly) = Template av k i ps fb st (fmmap stripNode ns) px ly"

definition stripResolvedSubprocesses :: "Template \<Rightarrow> Template" where
  "stripResolvedSubprocesses t = stripTemplate t"

lemma strip_store:
  assumes "fmlookup (TemplateNodes t) nid = Some n" "stripNode n' = stripNode n"
  shows "stripTemplate (withNodes t (fmupd nid n' (TemplateNodes t))) = stripTemplate t"
proof -
  have "fmmap stripNode (fmupd nid n' (TemplateNodes t)) = fmmap stripNode (TemplateNodes t)"
    by (rule fmap_ext) (use assms in auto)
  then show ?thesis by (cases t) (simp add: withNodes_def)
qed

lemma strip_withSubprocess:
  "SubprocessOf n = Some s \<Longrightarrow> stripSubprocess s' = stripSubprocess s \<Longrightarrow> stripNode (withSubprocess n s') = stripNode n"
  by (cases n) (simp add: withSubprocess_def)

lemma strip_withResolved: "stripSubprocess (withResolved s b) = stripSubprocess s"
  by (cases s) (simp add: withResolved_def)

lemma strip_withBodyNodes: "fmmap stripNode ns = fmmap stripNode (SubNodes s) \<Longrightarrow> stripSubprocess (withBodyNodes s ns) = stripSubprocess s"
  by (cases s) (simp add: withBodyNodes_def)

lemma strip_nodes: "stripTemplate t = stripTemplate t' \<Longrightarrow> fmmap stripNode (TemplateNodes t) = fmmap stripNode (TemplateNodes t')"
  by (cases t; cases t') simp

lemma inline_body: "IsInline s \<Longrightarrow> TemplateNodes (the (Body (Some s))) = SubNodes s"
  by (simp add: Body_def)

section \<open>What a resolution step does\<close>

text \<open>
  The three ways a node is stepped over or rewritten: nothing to resolve, an inline body resolved in place, a reference
  resolved to a body.
\<close>

lemma map_sum_Inr_iff: "map_sum f id x = Inr y \<longleftrightarrow> x = Inr y"
  by (cases x) auto

lemma resolveNode_cases:
  assumes "resolveNode resolver nested stack nid (scope, budget) = Inr (scope', budget')"
  obtains (skip) "scope' = scope" "\<And>sp. SubprocessOf (node_of scope nid) = Some sp \<Longrightarrow> Type (node_of scope nid) = NodeTypeSubprocess \<Longrightarrow>
      nested \<noteq> None \<and> \<not> IsInline sp \<and> TemplateRef sp = []"
  | (inline) sp f body b where "SubprocessOf (node_of scope nid) = Some sp" "nested = Some f" "IsInline sp"
      "f stack (the (Body (Some sp))) budget = Inr (body, b)"
      "scope' = withNodes scope (fmupd nid (withSubprocess (node_of scope nid) (withBodyNodes sp (TemplateNodes body))) (TemplateNodes scope))"
  | (reference) sp f body b body' where "SubprocessOf (node_of scope nid) = Some sp" "nested = Some f" "\<not> IsInline sp"
      "resolveReference resolver stack sp budget = Inr (body, b)"
      "f (stack @ [TemplateRef sp]) body b = Inr (body', budget')"
      "scope' = withNodes scope (fmupd nid (withSubprocess (node_of scope nid) (withResolved sp body')) (TemplateNodes scope))"
proof (cases "SubprocessOf (node_of scope nid)")
  case None
  with assms show ?thesis by (intro skip) (auto simp: resolveNode_def)
next
  case (Some sp)
  with assms show ?thesis
    by (cases "Type (node_of scope nid) = NodeTypeSubprocess"; cases nested; cases "IsInline sp"; cases "TemplateRef sp = []")
       (auto simp: resolveNode_def Let_def bindR_Inr_iff map_sum_Inr_iff intro: skip inline reference)
qed

end
