(* ===== verification/Resolved_Scopes.thy ===== *)
theory Resolved_Scopes
  imports Resolution
begin

text \<open>
  What a resolved template looks like: the authored template is unchanged but for embedded bodies, every
  reference is embedded, no reference repeats one it is nested in, and nesting stays within the limit.
\<close>

section \<open>The frame of a resolution\<close>

definition rewritten :: "Template \<Rightarrow> Template \<Rightarrow> bool" where
  "rewritten t t' \<longleftrightarrow> (\<exists>ns. t' = withNodes t ns \<and> fmdom ns = fmdom (TemplateNodes t)) \<and> stripTemplate t' = stripTemplate t"

lemma rewritten_refl [simp]: "rewritten t t"
  unfolding rewritten_def by (metis withNodes_simps(5))

lemma rewritten_trans:
  assumes "rewritten t t'" "rewritten t' t''"
  shows "rewritten t t''"
proof -
  from assms obtain ns ms where "t' = withNodes t ns" "fmdom ns = fmdom (TemplateNodes t)"
    "t'' = withNodes t' ms" "fmdom ms = fmdom (TemplateNodes t')" unfolding rewritten_def by blast
  then have "t'' = withNodes t ms \<and> fmdom ms = fmdom (TemplateNodes t)" by simp
  then show ?thesis using assms unfolding rewritten_def by metis
qed

lemma rewritten_facts:
  assumes "rewritten t t'"
  shows "fmdom (TemplateNodes t') = fmdom (TemplateNodes t)" "TemplateID t' = TemplateID t" "LayoutOf t' = LayoutOf t"
    "t' = withNodes t (TemplateNodes t')"
proof -
  from assms obtain ns where "t' = withNodes t ns" "fmdom ns = fmdom (TemplateNodes t)" unfolding rewritten_def by blast
  then show "fmdom (TemplateNodes t') = fmdom (TemplateNodes t)" "TemplateID t' = TemplateID t" "LayoutOf t' = LayoutOf t"
    "t' = withNodes t (TemplateNodes t')" by simp_all
qed

lemma declared_node: "nid |\<in>| fmdom (TemplateNodes t) \<Longrightarrow> fmlookup (TemplateNodes t) nid = Some (node_of t nid)"
  by (auto simp: node_of_def mget_def fmlookup_dom_iff)

lemma rewritten_store:
  assumes "nid |\<in>| fmdom (TemplateNodes t)" "SubprocessOf (node_of t nid) = Some sp" "stripSubprocess sp' = stripSubprocess sp"
  shows "rewritten t (withNodes t (fmupd nid (withSubprocess (node_of t nid) sp') (TemplateNodes t)))"
  using assms(1) strip_store [OF declared_node [OF assms(1)] strip_withSubprocess [OF assms(2,3)]]
  by (auto simp: rewritten_def intro!: exI)

lemma rewritten_inline:
  assumes "rewritten (the (Body (Some sp))) body" "IsInline sp"
  shows "stripSubprocess (withBodyNodes sp (TemplateNodes body)) = stripSubprocess sp"
proof -
  from assms(1) have "stripTemplate body = stripTemplate (the (Body (Some sp)))" by (simp add: rewritten_def)
  then show ?thesis using strip_nodes inline_body [OF assms(2)] strip_withBodyNodes by metis
qed

lemma resolveNode_frame:
  assumes "resolveNode resolver nested stack nid (scope, budget) = Inr (scope', budget')" "nid |\<in>| fmdom (TemplateNodes scope)"
    and "\<And>f st t b t' b'. nested = Some f \<Longrightarrow> f st t b = Inr (t', b') \<Longrightarrow> rewritten t t'"
  shows "rewritten scope scope'"
  using assms(1)
proof (cases rule: resolveNode_cases)
  case skip
  then show ?thesis by simp
next
  case (inline sp f body b)
  from rewritten_inline [OF assms(3) [OF inline(2,4)] inline(3)] rewritten_store [OF assms(2) inline(1)] inline(5) show ?thesis by simp
next
  case (reference sp f body b body')
  from rewritten_store [OF assms(2) reference(1) strip_withResolved] reference(6) show ?thesis by simp
qed

lemma resolveNodes_frame:
  assumes "foldR (resolveNode resolver nested stack) (sortedKeys (TemplateNodes scope)) (scope, budget) = Inr (scope', budget')"
    and "\<And>f st t b t' b'. nested = Some f \<Longrightarrow> f st t b = Inr (t', b') \<Longrightarrow> rewritten t t'"
  shows "rewritten scope scope'"
proof -
  have "rewritten scope (fst (scope', budget'))"
  proof (rule foldR_invariant [OF assms(1), of "\<lambda>s. rewritten scope (fst s)"])
    fix nid s s'
    assume nid: "nid \<in> set (sortedKeys (TemplateNodes scope))" and s: "rewritten scope (fst s)" and
      step: "resolveNode resolver nested stack nid s = Inr s'"
    have "nid |\<in>| fmdom (TemplateNodes (fst s))" using nid rewritten_facts(1) [OF s] by simp
    moreover have "resolveNode resolver nested stack nid (fst s, snd s) = Inr (fst s', snd s')" using step by simp
    ultimately have "rewritten (fst s) (fst s')" using resolveNode_frame assms(2) by blast
    with s show "rewritten scope (fst s')" by (rule rewritten_trans)
  qed simp
  then show ?thesis by simp
qed

lemma resolveScope_frame: "resolveScope resolver left stack scope budget = Inr (scope', budget') \<Longrightarrow> rewritten scope scope'"
proof (induction left arbitrary: stack scope budget scope' budget')
  case 0
  then show ?case using resolveNodes_frame [of resolver None] by simp
next
  case (Suc left)
  from Suc.prems have "foldR (resolveNode resolver (Some (resolveScope resolver left)) stack) (sortedKeys (TemplateNodes scope)) (scope, budget) =
      Inr (scope', budget')" by simp
  from resolveNodes_frame [OF this] Suc.IH show ?case by blast
qed

section \<open>Resolved scopes\<close>

primrec resolvedWithin :: "nat \<Rightarrow> string list \<Rightarrow> Template \<Rightarrow> bool" where
  "resolvedWithin 0 = (\<lambda>stack t. \<forall>nid \<in> fset (fmdom (TemplateNodes t)).
     Type (node_of t nid) = NodeTypeSubprocess \<longrightarrow> SubprocessOf (node_of t nid) = None)"
| "resolvedWithin (Suc left) = (\<lambda>stack t. \<forall>nid \<in> fset (fmdom (TemplateNodes t)). \<forall>sp.
     SubprocessOf (node_of t nid) = Some sp \<and> Type (node_of t nid) = NodeTypeSubprocess \<longrightarrow>
       (if IsInline sp then resolvedWithin left stack (the (Body (Some sp)))
        else TemplateRef sp \<noteq> [] \<longrightarrow> TemplateRef sp \<notin> set stack \<and>
          (\<exists>b. Resolved sp = Some b \<and> TemplateID b = TemplateRef sp \<and> LayoutOf b = None \<and>
               resolvedWithin left (stack @ [TemplateRef sp]) b)))"

definition resolvedNode :: "(string list \<Rightarrow> Template \<Rightarrow> bool) option \<Rightarrow> string list \<Rightarrow> Node \<Rightarrow> bool" where
  "resolvedNode nested stack n \<longleftrightarrow> (\<forall>sp. SubprocessOf n = Some sp \<and> Type n = NodeTypeSubprocess \<longrightarrow>
     (\<exists>ok. nested = Some ok \<and>
       (if IsInline sp then ok stack (the (Body (Some sp)))
        else TemplateRef sp \<noteq> [] \<longrightarrow> TemplateRef sp \<notin> set stack \<and>
          (\<exists>b. Resolved sp = Some b \<and> TemplateID b = TemplateRef sp \<and> LayoutOf b = None \<and> ok (stack @ [TemplateRef sp]) b))))"

lemma resolvedWithin_nodes:
  "resolvedWithin 0 stack t \<longleftrightarrow> (\<forall>nid \<in> fset (fmdom (TemplateNodes t)). resolvedNode None stack (node_of t nid))"
  "resolvedWithin (Suc left) stack t \<longleftrightarrow>
     (\<forall>nid \<in> fset (fmdom (TemplateNodes t)). resolvedNode (Some (resolvedWithin left)) stack (node_of t nid))"
  by (auto simp: resolvedNode_def)

lemma resolveReference_facts:
  assumes "resolveReference resolver stack sp budget = Inr (body, budget')"
  shows "TemplateRef sp \<notin> set stack" "TemplateID body = TemplateRef sp" "LayoutOf body = None"
    "gc_Nodes budget' \<le> MaxNormalizedNodes" "gc_Edges budget' \<le> MaxNormalizedEdges"
  using assms by (auto simp: resolveReference_def Let_def split: if_splits option.splits sum.splits)

text \<open>The body of a rewritten inline subprocess is the rewritten body.\<close>

lemma rewritten_body:
  assumes "IsInline sp" "rewritten (the (Body (Some sp))) body"
  shows "IsInline (withBodyNodes sp (TemplateNodes body))" "the (Body (Some (withBodyNodes sp (TemplateNodes body)))) = body"
proof -
  have "fmdom (TemplateNodes body) = fmdom (SubNodes sp)" using rewritten_facts(1) [OF assms(2)] inline_body [OF assms(1)] by simp
  then have "TemplateNodes body = fmempty \<longleftrightarrow> SubNodes sp = fmempty" by (metis fmdom_empty fmrestrict_fset_dom fmrestrict_fset_null)
  then show inl: "IsInline (withBodyNodes sp (TemplateNodes body))" using assms(1) by (simp add: IsInline_def withBodyNodes_def)
  have "body = withNodes (the (Body (Some sp))) (TemplateNodes body)" by (rule rewritten_facts(4) [OF assms(2)])
  also have "\<dots> = the (Body (Some (withBodyNodes sp (TemplateNodes body))))"
    using inl assms(1) by (simp add: Body_def withNodes_def withBodyNodes_def)
  finally show "the (Body (Some (withBodyNodes sp (TemplateNodes body)))) = body" by simp
qed

lemma node_of_store: "node_of (withNodes t (fmupd nid n (TemplateNodes t))) m = (if m = nid then n else node_of t m)"
  by (simp add: node_of_def mget_def)

lemma resolveNode_resolved:
  assumes step: "resolveNode resolver nested stack nid (scope, budget) = Inr (scope', budget')"
    and nested: "nested = map_option fst both" "ok = map_option snd both"
    and good: "\<And>f p st t b t' b'. both = Some (f, p) \<Longrightarrow> f st t b = Inr (t', b') \<Longrightarrow> rewritten t t' \<and> p st t'"
  shows "resolvedNode ok stack (node_of scope' nid) \<and> (\<forall>m. m \<noteq> nid \<longrightarrow> node_of scope' m = node_of scope m)"
  using step
proof (cases rule: resolveNode_cases)
  case skip
  then show ?thesis using nested unfolding resolvedNode_def by fastforce
next
  case (inline sp f body b)
  from inline(2) nested obtain p where p: "both = Some (f, p)" "ok = Some p" by (cases both) auto
  from good [OF p(1) inline(4)] have r: "rewritten (the (Body (Some sp))) body" "p stack body" by simp_all
  note b = rewritten_body [OF inline(3) r(1)]
  show ?thesis using r(2) b p(2) unfolding inline(5) node_of_store resolvedNode_def by simp
next
  case (reference sp f body b body')
  from reference(2) nested obtain p where p: "both = Some (f, p)" "ok = Some p" by (cases both) auto
  from good [OF p(1) reference(5)] have r: "rewritten body body'" "p (stack @ [TemplateRef sp]) body'" by simp_all
  note q = resolveReference_facts [OF reference(4)]
  show ?thesis using r q p(2) reference(3) rewritten_facts [OF r(1)] unfolding reference(6) node_of_store resolvedNode_def by simp
qed

lemma resolveNodes_resolved:
  assumes run: "foldR (resolveNode resolver nested stack) (sortedKeys (TemplateNodes scope)) (scope, budget) = Inr (scope', budget')"
    and nested: "nested = map_option fst both" "ok = map_option snd both"
    and good: "\<And>f p st t b t' b'. both = Some (f, p) \<Longrightarrow> f st t b = Inr (t', b') \<Longrightarrow> rewritten t t' \<and> p st t'"
  shows "\<forall>nid \<in> fset (fmdom (TemplateNodes scope')). resolvedNode ok stack (node_of scope' nid)"
proof -
  have "\<forall>nid \<in> set (sortedKeys (TemplateNodes scope)). resolvedNode ok stack (node_of (fst (scope', budget')) nid)"
  proof (rule foldR_prefixes [OF run, of "\<lambda>ids s. \<forall>nid \<in> set ids. resolvedNode ok stack (node_of (fst s) nid)"])
    fix ids nid s s'
    assume "\<forall>nid \<in> set ids. resolvedNode ok stack (node_of (fst s) nid)" "resolveNode resolver nested stack nid s = Inr s'"
    moreover from this have "resolveNode resolver nested stack nid (fst s, snd s) = Inr (fst s', snd s')" by simp
    from resolveNode_resolved [OF this nested] good
    have "resolvedNode ok stack (node_of (fst s') nid) \<and> (\<forall>m. m \<noteq> nid \<longrightarrow> node_of (fst s') m = node_of (fst s) m)" by blast
    ultimately show "\<forall>nid \<in> set (ids @ [nid]). resolvedNode ok stack (node_of (fst s') nid)" by (metis Un_iff empty_iff insertE list.set(1,2) set_append)
  qed simp
  moreover have "rewritten scope scope'"
    by (rule resolveNodes_frame [OF run]) (use nested good in \<open>force simp: map_option_case split: option.splits\<close>)
  ultimately show ?thesis using rewritten_facts(1) by simp
qed

lemma resolveScope_resolved:
  "resolveScope resolver left stack scope budget = Inr (scope', budget') \<Longrightarrow> resolvedWithin left stack scope'"
proof (induction left arbitrary: stack scope budget scope' budget')
  case 0
  then show ?case unfolding resolvedWithin_nodes by (intro resolveNodes_resolved [of resolver None _ _ _ _ _ None]) simp_all
next
  case (Suc left)
  have "rewritten t t' \<and> resolvedWithin left st t'" if "resolveScope resolver left st t b = Inr (t', b')" for st t b t' b'
    using resolveScope_frame [OF that] Suc.IH [OF that] by blast
  note nested = this
  from Suc.prems have "foldR (resolveNode resolver (Some (resolveScope resolver left)) stack) (sortedKeys (TemplateNodes scope)) (scope, budget) =
      Inr (scope', budget')" by simp
  from resolveNodes_resolved [OF this, of "Some (resolveScope resolver left, resolvedWithin left)"] nested
  show ?case unfolding resolvedWithin_nodes by auto
qed

lemma ResolveSubprocessRefs_facts:
  assumes "ResolveSubprocessRefs t resolver = Inr t'"
  shows "rewritten t t'" "resolvedWithin MaxSubprocessDepth [TemplateID t] t'"
proof -
  from assms obtain b where "resolveScope resolver MaxSubprocessDepth [TemplateID t] t (scopeGraphCardinality t) = Inr (t', b)"
    by (cases "resolveScope resolver MaxSubprocessDepth [TemplateID t] t (scopeGraphCardinality t)") (auto simp: ResolveSubprocessRefs_def)
  from resolveScope_frame [OF this] resolveScope_resolved [OF this]
  show "rewritten t t'" "resolvedWithin MaxSubprocessDepth [TemplateID t] t'" .
qed

end
