(* ===== verification/Process_Runs.thy ===== *)
theory Process_Runs
  imports Boundary Resolution
begin

text \<open>
  The durable records of runs (\<open>common/db/process_runs.go\<close>): one row per run with its checkpoint and state version,
  and the append-only evidence of its transitions.  A transition is a compare-and-swap on the version.  JSON columns are
  kept as the values they encode, the evidence payload is a type parameter, and time stamps are left out.  What the
  encoding and the database may refuse (sizes, a failed commit) is the argument \<open>io\<close>.
\<close>

section \<open>Text checks\<close>

text \<open>\<open>unicode.IsControl\<close> on a valid UTF-8 text: C0 controls, DEL, and C1 controls, whose lead byte is C2.\<close>

fun hasControl :: "string \<Rightarrow> bool" where
  "hasControl [] = False"
| "hasControl (c # cs) \<longleftrightarrow>
     byte c < 32 \<or> byte c = 127 \<or> byte c = 194 \<and> cs \<noteq> [] \<and> byte (hd cs) \<le> 159 \<or> hasControl cs"

definition validProcessRuntimeIdentifier :: "string \<Rightarrow> nat \<Rightarrow> bool \<Rightarrow> bool" where
  "validProcessRuntimeIdentifier v maximum allowEmpty \<longleftrightarrow>
     (if v = [] then allowEmpty else length v \<le> maximum \<and> idPattern v)"

text \<open>The segments of a subprocess-namespaced id.\<close>

fun segments :: "string \<Rightarrow> string list" where
  "segments [] = [[]]"
| "segments (c # cs) = (if c = CHR ''/'' then [] # segments cs else (c # hd (segments cs)) # tl (segments cs))"

definition validProcessRuntimeNodeID :: "string \<Rightarrow> bool" where
  "validProcessRuntimeNodeID v \<longleftrightarrow> v = [] \<or> length v \<le> MaxExecutableNodeIDBytes \<and> list_all idPattern (segments v)"

definition validProcessRuntimeText :: "string \<Rightarrow> nat \<Rightarrow> bool \<Rightarrow> bool" where
  "validProcessRuntimeText v maximum allowEmpty \<longleftrightarrow>
     (if v = [] then allowEmpty else length v \<le> maximum \<and> utf8_ValidString v \<and> \<not> hasControl v)"

section \<open>Records\<close>

definition MaxProcessRunEventsPerTransition :: nat where "MaxProcessRunEventsPerTransition = 256"
definition MaxProcessRunIDBytes :: nat where "MaxProcessRunIDBytes = 128"
definition MaxProcessRunTemplateRef :: nat where "MaxProcessRunTemplateRef = 512"
definition MaxProcessRunStatusBytes :: nat where "MaxProcessRunStatusBytes = 64"
definition MaxProcessRunEventKind :: nat where "MaxProcessRunEventKind = 128"
definition MaxProcessRunEventActor :: nat where "MaxProcessRunEventActor = 256"
definition MaxProcessRunAuthorizationProfiles :: int where "MaxProcessRunAuthorizationProfiles = MaxNormalizedNodes"
definition MaxProcessRunAuthorizationProfile :: nat where "MaxProcessRunAuthorizationProfile = 262144 - 4"
definition MaxProcessRunOwner :: nat where "MaxProcessRunOwner = 256"
definition MaxProcessRunScopeAgentID :: nat where "MaxProcessRunScopeAgentID = 128"

record ProcessRunScope =
  sc_Kind :: string
  sc_GroupID :: int
  sc_AgentID :: string
  sc_Owner :: string

record 'p ProcessRunEvent =
  ev_Sequence :: int
  ev_NodeID :: string
  ev_Kind :: string
  ev_Payload :: 'p
  ev_Actor :: string

record 'p ProcessRun =
  row_TemplateRef :: string
  row_TemplateSnapshot :: Template
  row_Params :: "(string, string) fmap"
  row_ProgramAuthorizations :: "string list"
  row_Status :: RunStatus
  row_StateVersion :: int
  row_Checkpoint :: Checkpoint
  row_Scope :: ProcessRunScope
  row_Events :: "'p ProcessRunEvent list"

datatype storeError =
    ErrProcessRunInvalid | ErrProcessRunExists | ErrProcessRunNotFound
  | ErrProcessRunVersionConflict int int | ErrProcessRunEventSequence | StoreFailure

text \<open>What encoding and database do with a write: both may refuse it.\<close>

record storeIO =
  io_encodes :: bool
  io_commits :: bool

definition reliable :: storeIO where "reliable = \<lparr>io_encodes = True, io_commits = True\<rparr>"

fun runStatusText :: "RunStatus \<Rightarrow> string" where
  "runStatusText RunRunning = ''running''"
| "runStatusText RunCompleted = ''completed''"
| "runStatusText RunFailed = ''failed''"
| "runStatusText RunCanceled = ''canceled''"
| "runStatusText (RunOther s) = s"

section \<open>Validation\<close>

definition normalizeProcessRunScope :: "ProcessRunScope \<Rightarrow> ProcessRunScope" where
  "normalizeProcessRunScope s = (if sc_Kind s = [] then s\<lparr>sc_Kind := ''none''\<rparr> else s)"

definition validProcessRunScopeBinding :: "string \<Rightarrow> int \<Rightarrow> string \<Rightarrow> bool" where
  "validProcessRunScopeBinding kind groupID agentID \<longleftrightarrow>
     (if kind = ''none'' then groupID = 0 \<and> agentID = []
      else if kind = ''group'' then groupID > 0 \<and> agentID = []
      else if kind = ''agent'' then groupID = 0 \<and> agentID \<noteq> [] \<and> validProcessRuntimeText agentID MaxProcessRunScopeAgentID False
      else False)"

definition validateProcessRunScope :: "ProcessRunScope \<Rightarrow> storeError + unit" where
  "validateProcessRunScope scope0 =
     (let scope = normalizeProcessRunScope scope0 in
      guardR (validProcessRuntimeText (sc_Owner scope) MaxProcessRunOwner True \<and>
              validProcessRunScopeBinding (sc_Kind scope) (sc_GroupID scope) (sc_AgentID scope)) ErrProcessRunInvalid)"

text \<open>The authored identity of a template; \<open>hash\<close> is the hash of its canonical JSON without layout.\<close>

definition SemanticHash :: "(Template \<Rightarrow> string) \<Rightarrow> Template \<Rightarrow> string" where
  "SemanticHash hash t = hash (withoutLayout (stripResolvedSubprocesses t))"

definition TemplateRefOf :: "string \<Rightarrow> string \<Rightarrow> string" where
  "TemplateRefOf tid semanticHash = (if tid = [] \<or> semanticHash = [] then [] else tid @ ''@sha256:'' @ semanticHash)"

definition validateProcessTemplateSnapshotCreate :: "(Template \<Rightarrow> string) \<Rightarrow> string \<Rightarrow> Template \<Rightarrow> storeError + unit" where
  "validateProcessTemplateSnapshotCreate hash ref snapshot =
     guardR (ref \<noteq> [] \<and> length ref \<le> MaxProcessRunTemplateRef \<and> LayoutOf snapshot = None \<and>
             ref = TemplateRefOf (TemplateID snapshot) (SemanticHash hash snapshot)) ErrProcessRunInvalid"

text \<open>The authorization column decodes to at most so many distinct printable profiles.\<close>

definition decodeProcessRunAuthorizations :: "string list \<Rightarrow> storeError + string list" where
  "decodeProcessRunAuthorizations profiles =
     (if int (length profiles) \<le> MaxProcessRunAuthorizationProfiles \<and>
         list_all (\<lambda>p. validProcessRuntimeText p MaxProcessRunAuthorizationProfile True) profiles \<and> distinct profiles
      then Inr profiles else Inl ErrProcessRunInvalid)"

text \<open>The events of one write, in order; \<open>prior\<close> is the last sequence number seen.\<close>

fun validateEventSequences :: "bool \<Rightarrow> int \<Rightarrow> 'p ProcessRunEvent list \<Rightarrow> storeError + unit" where
  "validateEventSequences auto prior [] = Inr ()"
| "validateEventSequences auto prior (e # es) =
     (if auto \<and> ev_Sequence e \<noteq> 0 then Inl ErrProcessRunEventSequence
      else if \<not> auto \<and> (ev_Sequence e \<le> 0 \<or> ev_Sequence e \<le> prior) then Inl ErrProcessRunEventSequence
      else if \<not> validProcessRuntimeNodeID (ev_NodeID e) then Inl ErrProcessRunInvalid
      else if \<not> validProcessRuntimeIdentifier (ev_Kind e) MaxProcessRunEventKind False then Inl ErrProcessRunInvalid
      else if \<not> validProcessRuntimeText (ev_Actor e) MaxProcessRunEventActor True then Inl ErrProcessRunInvalid
      else validateEventSequences auto (ev_Sequence e) es)"

definition validateProcessRunEvents :: "'p ProcessRunEvent list \<Rightarrow> bool \<Rightarrow> storeError + unit" where
  "validateProcessRunEvents events allowAutoSequence =
     (if length events > MaxProcessRunEventsPerTransition then Inl ErrProcessRunInvalid
      else validateEventSequences (allowAutoSequence \<and> events \<noteq> [] \<and> ev_Sequence (hd events) = 0) 0 events)"

definition validateProcessRunCreate :: "(Template \<Rightarrow> string) \<Rightarrow> storeIO \<Rightarrow> string \<Rightarrow> 'p ProcessRun \<Rightarrow> storeError + unit" where
  "validateProcessRunCreate hash io runID row =
     bindR (guardR (validProcessRuntimeIdentifier runID MaxProcessRunIDBytes False) ErrProcessRunInvalid) (\<lambda>_.
     bindR (guardR (validProcessRuntimeIdentifier (runStatusText (row_Status row)) MaxProcessRunStatusBytes False) ErrProcessRunInvalid) (\<lambda>_.
     bindR (validateProcessTemplateSnapshotCreate hash (row_TemplateRef row) (row_TemplateSnapshot row)) (\<lambda>_.
     bindR (decodeProcessRunAuthorizations (row_ProgramAuthorizations row)) (\<lambda>_.
     bindR (guardR (io_encodes io) ErrProcessRunInvalid) (\<lambda>_.
     bindR (validateProcessRunScope (row_Scope row)) (\<lambda>_.
     validateProcessRunEvents (row_Events row) False))))))"

section \<open>Writes\<close>

type_synonym 'p ProcessRuns = "(string, 'p ProcessRun) fmap"

definition CreateProcessRun ::
    "(Template \<Rightarrow> string) \<Rightarrow> storeIO \<Rightarrow> string \<Rightarrow> 'p ProcessRun \<Rightarrow> 'p ProcessRuns \<Rightarrow> storeError + 'p ProcessRuns" where
  "CreateProcessRun hash io runID row rows =
     bindR (validateProcessRunCreate hash io runID row) (\<lambda>_.
       if fmlookup rows runID \<noteq> None then Inl ErrProcessRunExists
       else if \<not> io_commits io then Inl StoreFailure
       else Inr (fmupd runID (row\<lparr>row_StateVersion := 1, row_Scope := normalizeProcessRunScope (row_Scope row)\<rparr>) rows))"

text \<open>The sequence numbers of a write that leaves them to the store.\<close>

definition lastSequence :: "'p ProcessRun \<Rightarrow> int" where
  "lastSequence row = (if row_Events row = [] then 0 else Max (ev_Sequence ` set (row_Events row)))"

definition assignSequences :: "int \<Rightarrow> 'p ProcessRunEvent list \<Rightarrow> 'p ProcessRunEvent list" where
  "assignSequences from events = map (\<lambda>(i, e). e\<lparr>ev_Sequence := from + int i + 1\<rparr>) (List.enumerate 0 events)"

definition sequencedEvents :: "'p ProcessRun \<Rightarrow> 'p ProcessRunEvent list \<Rightarrow> storeError + 'p ProcessRunEvent list" where
  "sequencedEvents row events =
     (if events = [] then Inr []
      else if ev_Sequence (hd events) = 0
      then if lastSequence row > MaxInt - int (length events) then Inl ErrProcessRunEventSequence
           else Inr (assignSequences (lastSequence row) events)
      else if ev_Sequence (hd events) \<le> lastSequence row then Inl ErrProcessRunEventSequence
      else Inr events)"

definition TransitionProcessRun ::
    "storeIO \<Rightarrow> string \<Rightarrow> int \<Rightarrow> Checkpoint \<Rightarrow> 'p ProcessRunEvent list \<Rightarrow> 'p ProcessRuns \<Rightarrow> storeError + int \<times> 'p ProcessRuns" where
  "TransitionProcessRun io runID expected c events rows =
     (if \<not> validProcessRuntimeIdentifier runID MaxProcessRunIDBytes False \<or> expected \<le> 0 \<or> expected = MaxInt \<or>
         \<not> validProcessRuntimeIdentifier (runStatusText (Status c)) MaxProcessRunStatusBytes False \<or> \<not> io_encodes io
      then Inl ErrProcessRunInvalid
      else bindR (validateProcessRunEvents events True) (\<lambda>_.
        case fmlookup rows runID of
          None \<Rightarrow> Inl ErrProcessRunNotFound
        | Some row \<Rightarrow>
            if row_StateVersion row \<noteq> expected then Inl (ErrProcessRunVersionConflict expected (row_StateVersion row))
            else bindR (sequencedEvents row events) (\<lambda>es.
              if \<not> io_commits io then Inl StoreFailure
              else Inr (expected + 1, fmupd runID (row\<lparr>row_Status := Status c, row_StateVersion := expected + 1, row_Checkpoint := c,
                     row_Events := row_Events row @ es\<rparr>) rows))))"

end
