(* ===== verification/Evidence.thy ===== *)
theory Evidence
  imports Process_Runs
begin

text \<open>
  The evidence of a committed transition (\<open>process/executor/executor.go\<close>): the human-facing rows derived from the
  checkpoints before and after, in causal order, within the store's limit per transition.  A payload is a constructor per
  payload struct of the source.
\<close>

section \<open>Payloads\<close>

text \<open>Where a program attempt runs (\<open>executor/bounds.go\<close>); the wrapper of its argv is not recorded.\<close>

record ProgramBounds =
  pb_Scope :: string
  pb_Cwd :: string
  pb_Sandbox :: string
  pb_Profiles :: "string list"
  pb_Reason :: string
  pb_Error :: string

text \<open>What a worker reports (\<open>executor/program.go\<close>).\<close>

record Result =
  rs_Observation :: ProgramObservation
  rs_Dispatched :: bool
  rs_TimedOut :: bool
  rs_Canceled :: bool
  rs_Stdout :: string
  rs_Stderr :: string
  rs_StdoutTruncated :: bool
  rs_StderrTruncated :: bool
  rs_CleanupError :: string

record decisionEvidencePayload =
  dp_Verdict :: string
  dp_Evidence :: string
  dp_ChosenEdge :: "ChosenEdge option"
  dp_Attempt :: int

record loopEvidencePayload =
  lp_edge :: LoopEdge
  lp_Feedback :: string

datatype Payload =
    PreparedEvidence Command "ProgramBounds option"
  | ReissuedEvidence string "ProgramBounds option"
  | RecordedEvidence ProgramObservation string
  | ObservedEvidence Result
  | ReportedEvidence ProgramObservation int string string
  | DecisionEvidence decisionEvidencePayload
  | LoopEvidence loopEvidencePayload
  | ResolvedEvidence string int ResolutionAction string
  | AwaitedEvidence string int
  | BlockedEvidence string int string
  | StageResetEvidence StageReset
  | JoinEvidence string string string
  | JoinsTruncated int int int int
  | AdvancedEvidence RunStatus
  | CreatedEvidence string "string list" string int string
  | AwaitedEntry string

type_synonym Event = "Payload ProcessRunEvent"

definition EngineActor :: string where "EngineActor = ''engine:program-executor''"

definition eventForNode :: "string \<Rightarrow> string \<Rightarrow> string \<Rightarrow> Payload \<Rightarrow> Event" where
  "eventForNode kind nodeID actor payload =
     \<lparr>ev_Sequence = 0, ev_NodeID = nodeID, ev_Kind = kind, ev_Payload = payload, ev_Actor = actor\<rparr>"

section \<open>Rows of one commit\<close>

definition advanceEvidence :: "Command option \<Rightarrow> ProgramBounds option \<Rightarrow> Event list" where
  "advanceEvidence command bounds =
     (case command of
        None \<Rightarrow> []
      | Some x \<Rightarrow> [eventForNode (if cmd_Kind x = CommandAgent then ''agent_prepared'' else ''program_prepared'') (cmd_NodeID x)
                     EngineActor (PreparedEvidence x bounds)])"

definition awaitedEvidence :: "Definition \<Rightarrow> Checkpoint \<Rightarrow> Checkpoint \<Rightarrow> Event list" where
  "awaitedEvidence d before after =
     map (\<lambda>ob. eventForNode ''decision_awaited'' (do_NodeID ob) EngineActor
                 (AwaitedEvidence (do_NodeID ob) (RequiredDecisionAttempt d after (do_NodeID ob))))
       (filter (\<lambda>ob. \<not> list_ex (\<lambda>x. do_NodeID x = do_NodeID ob) (AwaitingDecisions before)) (AwaitingDecisions after))"

definition blockedEvidence :: "Checkpoint \<Rightarrow> Checkpoint \<Rightarrow> Event list" where
  "blockedEvidence before after =
     map (\<lambda>ob. eventForNode ''node_blocked'' (bo_NodeID ob) EngineActor
                 (BlockedEvidence (bo_NodeID ob) (attempts after (bo_NodeID ob)) (bo_Reason ob)))
       (filter (\<lambda>ob. \<not> list_ex (\<lambda>x. bo_NodeID x = bo_NodeID ob) (Blocked before)) (Blocked after))"

definition causedStageReset :: "Definition \<Rightarrow> string \<Rightarrow> Checkpoint \<Rightarrow> Checkpoint \<Rightarrow> Event list" where
  "causedStageReset d nodeID before after =
     (case Definition_StageReset d nodeID before after of
        None \<Rightarrow> []
      | Some reset \<Rightarrow> [eventForNode ''stage_reset'' (sr_ParentNodeID reset) EngineActor (StageResetEvidence reset)])"

definition joinEvidence :: "Definition \<Rightarrow> Checkpoint \<Rightarrow> Checkpoint \<Rightarrow> int \<Rightarrow> Event list" where
  "joinEvidence d before after budget =
     (let arrivals = JoinArrivals d before after in
      if arrivals = [] \<or> budget \<le> 0 then []
      else
        let recorded = (if int (length arrivals) > budget then budget - 1 else int (length arrivals));
            won = int (length (filter ja_Winner arrivals));
            late = int (length (filter (\<lambda>a. \<not> ja_Winner a) arrivals));
            rows = map (\<lambda>a. eventForNode (if ja_Winner a then ''join_won'' else ''join_arrival_late'') (ja_JoinNodeID a) EngineActor
                              (JoinEvidence (ja_JoinNodeID a) (ja_From a) (ja_Outcome a))) (take (nat recorded) arrivals)
        in if int (length arrivals) > recorded
           then rows @ [eventForNode ''join_arrivals_truncated'' [] EngineActor
                          (JoinsTruncated (int (length arrivals)) recorded won late)]
           else rows)"

definition commitEvidence ::
    "Definition \<Rightarrow> Checkpoint \<Rightarrow> Checkpoint \<Rightarrow> Event list \<Rightarrow> Event list \<Rightarrow> bool \<Rightarrow> Event list" where
  "commitEvidence d before after input advance engineAdvanced =
     (let blocked = blockedEvidence before after;
          awaited = awaitedEvidence d before after;
          joins = joinEvidence d before after
            (int MaxProcessRunEventsPerTransition - int (length input) - int (length blocked) - int (length awaited) - int (length advance))
      in input @ blocked @ joins @ awaited @ advance @
         (if engineAdvanced \<and> awaited = [] \<and> advance = []
          then [eventForNode ''engine_advanced'' [] EngineActor (AdvancedEvidence (Status after))] else []))"

section \<open>Verdicts\<close>

definition loopEvidence :: "string \<Rightarrow> LoopStep \<Rightarrow> Event" where
  "loopEvidence feedback step =
     eventForNode (if ls_Exhausted step then ''loop_exhausted'' else ''loop_iterated'') (le_To (ls_Loop step)) EngineActor
       (LoopEvidence \<lparr>lp_edge = ls_Loop step, lp_Feedback = feedback\<rparr>)"

text \<open>\<open>None\<close> where the verdict names no edge although the node is not an approval gate: the source reports an invalid run.\<close>

definition verdictEvidence ::
    "Definition \<Rightarrow> Checkpoint \<Rightarrow> Checkpoint \<Rightarrow> string \<Rightarrow> decisionEvidencePayload \<Rightarrow> string \<Rightarrow> Event list option" where
  "verdictEvidence d before next actor payload nodeID =
     (let step = LoopStepOf d nodeID (dp_Verdict payload) before next;
          route = (case step of Some s \<Rightarrow> if ls_Exhausted s then le_OnExhausted (ls_Loop s) else dp_Verdict payload | None \<Rightarrow> dp_Verdict payload);
          chosen = DecisionEdge d nodeID route
      in if chosen = None \<and> ApprovalAttempt d before nodeID = None then None
         else Some (eventForNode ''decision_recorded'' nodeID actor
                      (DecisionEvidence (case chosen of Some e \<Rightarrow> payload\<lparr>dp_ChosenEdge := Some e\<rparr> | None \<Rightarrow> payload)) #
                    causedStageReset d nodeID before next @
                    (case step of Some s \<Rightarrow> [loopEvidence (dp_Evidence payload) s] | None \<Rightarrow> [])))"

section \<open>The limit per transition\<close>

lemma joinEvidence_length:
  "length (joinEvidence d before after budget) = (if budget \<le> 0 then 0 else min (length (JoinArrivals d before after)) (nat budget))"
  by (auto simp: joinEvidence_def Let_def)

abbreviation requiredRows :: "Definition \<Rightarrow> Checkpoint \<Rightarrow> Checkpoint \<Rightarrow> Event list \<Rightarrow> Event list \<Rightarrow> nat" where
  "requiredRows d before after input advance \<equiv>
     length input + length (blockedEvidence before after) + length (awaitedEvidence d before after) + length advance"

lemma commitEvidence_length:
  "length (commitEvidence d before after input advance engineAdvanced) =
     requiredRows d before after input advance +
     min (length (JoinArrivals d before after)) (MaxProcessRunEventsPerTransition - requiredRows d before after input advance) +
     (if engineAdvanced \<and> awaitedEvidence d before after = [] \<and> advance = [] then 1 else 0)"
  by (auto simp: commitEvidence_def Let_def joinEvidence_length)

lemma set_commitEvidence:
  "set input \<union> set advance \<subseteq> set (commitEvidence d before after input advance engineAdvanced)"
  by (auto simp: commitEvidence_def Let_def)

end
