(* ===== verification/Executor.thy ===== *)
theory Executor
  imports Evidence Preparation
begin

text \<open>
  The executor (\<open>process/executor/executor.go\<close>, \<open>agent.go\<close>, \<open>program.go\<close>): a \<open>Run\<close> is one process's handle on a stored run,
  with the checkpoint and version it last saw and the live permissions (\<open>Dispatch\<close>) for commands it accounts for.
  Permissions are shared objects, so they live in a store and a handle names them by address; the source's nil pointers are
  addresses outside the store.  Every operation persists by one compare-and-swap before it changes the handle.
\<close>

section \<open>Handles and permissions\<close>

record BoundedProgram = ProgramBounds +
  pb_Wrap :: "(string list \<Rightarrow> string + string list) option"

record Dispatch =
  ds_owner :: nat
  ds_runID :: string
  ds_command :: Command
  ds_bounds :: "BoundedProgram option"
  ds_claimed :: bool
  ds_spent :: bool

record Run =
  rn_handle :: nat
  rn_id :: string
  rn_stateVersion :: int
  rn_checkpoint :: Checkpoint
  rn_definition :: Definition
  rn_authorized :: "string list"
  rn_dispatches :: "(string, nat) fmap"
  rn_held :: bool
  rn_bounds :: "(Command \<Rightarrow> BoundedProgram option) option"

record World =
  w_rows :: "Payload ProcessRuns"
  w_dispatches :: "Dispatch list"

datatype executorError =
    ErrInvalidRun | ErrNeedsReconcile | ErrNoReconciliation | ErrAmbiguousReconcile | ErrStaleDispatch | ErrInvalidActor
  | ErrInvalidDecisionInput | ErrInvalidResolutionInput | ErrInvalidAgentReport | ErrUnauthorized
  | EngineError error | StoreError storeError

type_synonym 'a executed = "executorError + (Run \<times> World) \<times> 'a"

definition engineR :: "'a result \<Rightarrow> executorError + 'a" where "engineR = map_sum EngineError id"

definition dispatchAt :: "World \<Rightarrow> nat \<Rightarrow> Dispatch" where "dispatchAt w i = w_dispatches w ! i"

section \<open>Reads\<close>

definition liveDispatch :: "Run \<Rightarrow> string \<Rightarrow> bool" where
  "liveDispatch run nodeID \<longleftrightarrow> fmlookup (rn_dispatches run) nodeID \<noteq> None"

record CommandState =
  st_Command :: Command
  st_Executing :: bool

definition CommandStates :: "Run \<Rightarrow> CommandState list" where
  "CommandStates run =
     map (\<lambda>x. \<lparr>st_Command = x, st_Executing = (liveDispatch run (cmd_NodeID x) \<or> cmd_Kind x = CommandAgent)\<rparr>)
       (Commands (rn_checkpoint run))"

definition AgentCommands :: "Run \<Rightarrow> Command list" where
  "AgentCommands run = filter (\<lambda>x. cmd_Kind x = CommandAgent) (Commands (rn_checkpoint run))"

definition BlockedAttempt :: "Run \<Rightarrow> string \<Rightarrow> int" where
  "BlockedAttempt run nodeID =
     (if nodeStatus (rn_checkpoint run) nodeID \<noteq> NodeBlocked then 0 else attempts (rn_checkpoint run) nodeID)"

definition VerdictsFor :: "Run \<Rightarrow> string \<Rightarrow> string list" where
  "VerdictsFor run nodeID = (case DecisionVerdicts (rn_definition run) nodeID of Some vs \<Rightarrow> vs | None \<Rightarrow> [])"

datatype ActionKind =
    ActionContinue | ActionDispatch | ActionAwaitDecision | ActionNeedsReconcile | ActionBlocked | ActionAwaitPerformer | ActionTerminal

record Action =
  ac_ActionKind :: ActionKind
  ac_Status :: RunStatus
  ac_Command :: "Command option"
  ac_Decision :: "DecisionObligation option"

definition ActionOf :: "Run \<Rightarrow> Action" where
  "ActionOf run =
     (let c = rn_checkpoint run;
          act = (\<lambda>k x ob. \<lparr>ac_ActionKind = k, ac_Status = Status c, ac_Command = x, ac_Decision = ob\<rparr>)
      in case find (\<lambda>s. \<not> st_Executing s) (CommandStates run) of
           Some s \<Rightarrow> act ActionNeedsReconcile (Some (st_Command s)) None
         | None \<Rightarrow>
             (case find (\<lambda>x. cmd_Kind x \<noteq> CommandAgent) (Commands c) of
                Some x \<Rightarrow> act ActionDispatch (Some x) None
              | None \<Rightarrow>
                  if Runnable c (rn_definition run) then act ActionContinue None None
                  else if AwaitingDecisions c \<noteq> [] then act ActionAwaitDecision None (Some (hd (AwaitingDecisions c)))
                  else if Blocked c \<noteq> [] then act ActionBlocked None None
                  else if Commands c \<noteq> [] then act ActionAwaitPerformer (Some (hd (Commands c))) None
                  else if Status c = RunRunning then act ActionContinue None None
                  else act ActionTerminal None None))"

definition firstUnaccountedCommand :: "Run \<Rightarrow> Command option" where
  "firstUnaccountedCommand run =
     find (\<lambda>x. cmd_Kind x \<noteq> CommandAgent \<and> \<not> liveDispatch run (cmd_NodeID x)) (Commands (rn_checkpoint run))"

definition programBounds :: "Run \<Rightarrow> Command option \<Rightarrow> BoundedProgram option" where
  "programBounds run command =
     (case (rn_bounds run, command) of
        (Some resolver, Some x) \<Rightarrow> if cmd_Kind x = CommandAgent then None else resolver x
      | _ \<Rightarrow> None)"

definition Hold :: "bool \<Rightarrow> Run \<Rightarrow> Run" where "Hold b run = run\<lparr>rn_held := b\<rparr>"

definition SetProgramBounds :: "(Command \<Rightarrow> BoundedProgram option) option \<Rightarrow> Run \<Rightarrow> Run" where
  "SetProgramBounds resolver run = run\<lparr>rn_bounds := resolver\<rparr>"

abbreviation recordedBounds :: "BoundedProgram option \<Rightarrow> ProgramBounds option" where
  "recordedBounds \<equiv> map_option ProgramBounds.truncate"

section \<open>Loading\<close>

definition LoadPreparedRun :: "nat \<Rightarrow> string \<Rightarrow> Payload ProcessRun \<Rightarrow> Definition \<Rightarrow> executorError + Run" where
  "LoadPreparedRun handle runID row d =
     (if row_StateVersion row \<le> 0 then Inl ErrInvalidRun
      else case decodeProcessRunAuthorizations (row_ProgramAuthorizations row) of
        Inl _ \<Rightarrow> Inl ErrInvalidRun
      | Inr profiles \<Rightarrow>
          (case validateCheckpoint (row_Checkpoint row) d of
             Inl _ \<Rightarrow> Inl ErrInvalidRun
           | Inr _ \<Rightarrow>
               if RunID (row_Checkpoint row) \<noteq> runID \<or> Status (row_Checkpoint row) \<noteq> row_Status row then Inl ErrInvalidRun
               else Inr \<lparr>rn_handle = handle, rn_id = runID, rn_stateVersion = row_StateVersion row, rn_checkpoint = row_Checkpoint row,
                         rn_definition = d, rn_authorized = profiles, rn_dispatches = fmempty, rn_held = False, rn_bounds = None\<rparr>))"

definition LoadRun :: "nat \<Rightarrow> string \<Rightarrow> World \<Rightarrow> executorError + Run" where
  "LoadRun handle runID w =
     (case fmlookup (w_rows w) runID of
        None \<Rightarrow> Inl (StoreError ErrProcessRunNotFound)
      | Some row \<Rightarrow>
          (case Prepare (row_TemplateSnapshot row) (row_Params row) of
             Inl _ \<Rightarrow> Inl ErrInvalidRun
           | Inr d \<Rightarrow> LoadPreparedRun handle runID row d))"

section \<open>Commits and permissions\<close>

definition persistEvents :: "storeIO \<Rightarrow> Checkpoint \<Rightarrow> Event list \<Rightarrow> Run \<times> World \<Rightarrow> executorError + Run \<times> World" where
  "persistEvents io c events rw =
     (case rw of (run, w) \<Rightarrow>
      case TransitionProcessRun io (rn_id run) (rn_stateVersion run) c events (w_rows w) of
        Inl e \<Rightarrow> Inl (StoreError e)
      | Inr (version, rows) \<Rightarrow>
          Inr (run\<lparr>rn_stateVersion := version, rn_checkpoint := c,
                   rn_dispatches := fmfilter (\<lambda>nodeID. case fmlookup (rn_dispatches run) nodeID of
                       None \<Rightarrow> False
                     | Some i \<Rightarrow> findCommand c (cmd_ID (ds_command (dispatchAt w i))) nodeID \<noteq> None) (rn_dispatches run)\<rparr>,
               w\<lparr>w_rows := rows\<rparr>))"

definition grant :: "Command \<Rightarrow> BoundedProgram option \<Rightarrow> Run \<times> World \<Rightarrow> (Run \<times> World) \<times> nat" where
  "grant command bounds rw =
     (case rw of (run, w) \<Rightarrow>
      let i = length (w_dispatches w) in
      ((run\<lparr>rn_dispatches := fmupd (cmd_NodeID command) i (rn_dispatches run)\<rparr>,
        w\<lparr>w_dispatches := w_dispatches w @ [\<lparr>ds_owner = rn_handle run, ds_runID = rn_id run, ds_command = command,
             ds_bounds = bounds, ds_claimed = False, ds_spent = False\<rparr>]\<rparr>), i))"

definition grantOption :: "Command option \<Rightarrow> BoundedProgram option \<Rightarrow> Run \<times> World \<Rightarrow> (Run \<times> World) \<times> nat option" where
  "grantOption command bounds rw =
     (case command of None \<Rightarrow> (rw, None) | Some x \<Rightarrow> map_prod id Some (grant x bounds rw))"

section \<open>Planning\<close>

definition Prepare_dispatch :: "storeIO \<Rightarrow> Run \<times> World \<Rightarrow> nat option executed" where
  "Prepare_dispatch io rw =
     (case rw of (run, w) \<Rightarrow>
      if firstUnaccountedCommand run \<noteq> None then Inl ErrNeedsReconcile
      else if Status (rn_checkpoint run) \<noteq> RunRunning \<or> rn_held run then Inr (rw, None)
      else bindR (engineR (AdvanceAndPlan (rn_checkpoint run) (rn_definition run))) (\<lambda>(next, command, advanced).
        if \<not> advanced then Inr (rw, None)
        else
          let bounds = programBounds run command;
              events = commitEvidence (rn_definition run) (rn_checkpoint run) next []
                         (advanceEvidence command (recordedBounds bounds)) True
          in bindR (persistEvents io next events rw) (\<lambda>rw'. Inr (grantOption command bounds rw'))))"

section \<open>Reconciliation\<close>

definition validateReconciliationActor :: "string \<Rightarrow> executorError + unit" where
  "validateReconciliationActor actor =
     guardR (actor \<noteq> [] \<and> TrimSpace actor = actor \<and> length actor \<le> MaxProcessRunEventActor \<and> utf8_ValidString actor \<and> \<not> hasControl actor)
       ErrInvalidActor"

definition reconcileCommand :: "Run \<Rightarrow> string \<Rightarrow> bool \<Rightarrow> executorError + Command" where
  "reconcileCommand run selector includeAgent =
     (let candidates = map st_Command (filter (\<lambda>s. \<not> st_Executing s \<or> includeAgent \<and> cmd_Kind (st_Command s) = CommandAgent) (CommandStates run)) in
      if candidates = [] then Inl ErrNoReconciliation
      else if selector = [] then (if length candidates > 1 then Inl ErrAmbiguousReconcile else Inr (hd candidates))
      else case find (\<lambda>x. cmd_NodeID x = selector) candidates of
             None \<Rightarrow> Inl ErrNoReconciliation
           | Some x \<Rightarrow> Inr x)"

definition Reissue :: "storeIO \<Rightarrow> string \<Rightarrow> string \<Rightarrow> Run \<times> World \<Rightarrow> nat executed" where
  "Reissue io actor selector rw =
     (case rw of (run, w) \<Rightarrow>
      bindR (validateReconciliationActor actor) (\<lambda>_.
      bindR (reconcileCommand run selector False) (\<lambda>command.
        let bounds = programBounds run (Some command);
            events = [eventForNode ''program_reissued'' (cmd_NodeID command) actor (ReissuedEvidence (cmd_ID command) (recordedBounds bounds))]
        in bindR (persistEvents io (rn_checkpoint run) events rw) (\<lambda>rw'. Inr (grant command bounds rw')))))"

definition observationTransition :: "ProgramObservation \<Rightarrow> Transition" where
  "observationTransition ob =
     \<lparr>tr_Kind = TransitionProgramObserved, tr_NodeID = [], tr_Command = None, tr_Observation = Some ob, tr_Decision = None, tr_Resolution = None\<rparr>"

definition decisionTransition :: "DecisionRecord \<Rightarrow> Transition" where
  "decisionTransition dec =
     \<lparr>tr_Kind = TransitionDecisionRecorded, tr_NodeID = [], tr_Command = None, tr_Observation = None, tr_Decision = Some dec, tr_Resolution = None\<rparr>"

definition resolutionTransition :: "BlockedResolution \<Rightarrow> Transition" where
  "resolutionTransition r =
     \<lparr>tr_Kind = TransitionBlockedResolved, tr_NodeID = [], tr_Command = None, tr_Observation = None, tr_Decision = None, tr_Resolution = Some r\<rparr>"

text \<open>An external transition is applied, its evidence assembled, and both are committed.\<close>

definition commitExternal ::
    "storeIO \<Rightarrow> Transition \<Rightarrow> (Checkpoint \<Rightarrow> Event list option) \<Rightarrow> Run \<times> World \<Rightarrow> unit executed" where
  "commitExternal io t causal rw =
     (case rw of (run, w) \<Rightarrow>
      bindR (engineR (apply_transition (rn_checkpoint run) (rn_definition run) t)) (\<lambda>next.
        case causal next of
          None \<Rightarrow> Inl ErrInvalidRun
        | Some input \<Rightarrow>
            bindR (persistEvents io next (commitEvidence (rn_definition run) (rn_checkpoint run) next input [] False) rw)
              (\<lambda>rw'. Inr (rw', ()))))"

record RecordedOutcome =
  ro_Outcome :: ProgramOutcome
  ro_ExitCode :: int
  ro_Error :: string
  ro_Note :: string

definition RecordOutcome :: "storeIO \<Rightarrow> string \<Rightarrow> string \<Rightarrow> RecordedOutcome \<Rightarrow> Run \<times> World \<Rightarrow> unit executed" where
  "RecordOutcome io actor selector outcome rw =
     (case rw of (run, w) \<Rightarrow>
      bindR (validateReconciliationActor actor) (\<lambda>_.
      bindR (reconcileCommand run selector True) (\<lambda>command.
        if cmd_Verdicts command \<noteq> [] \<and> ro_Outcome outcome = ProgramSucceeded then Inl (EngineError ErrInvalidDecisionVerdict)
        else
          let ob = \<lparr>obs_CommandID = cmd_ID command, obs_NodeID = cmd_NodeID command, obs_Outcome = ro_Outcome outcome,
                    obs_ExitCode = ro_ExitCode outcome, obs_Error = ro_Error outcome, obs_Verdict = []\<rparr>
          in commitExternal io (observationTransition ob)
               (\<lambda>next. Some (eventForNode ''program_outcome_recorded'' (cmd_NodeID command) actor (RecordedEvidence ob (ro_Note outcome)) #
                  causedStageReset (rn_definition run) (cmd_NodeID command) (rn_checkpoint run) next)) rw)))"

section \<open>Decisions and resolutions\<close>

definition MaxDecisionNodeIDBytes :: nat where "MaxDecisionNodeIDBytes = 256"
definition MaxDecisionVerdictBytes :: nat where "MaxDecisionVerdictBytes = 1024"
definition MaxDecisionEvidenceBytes :: nat where "MaxDecisionEvidenceBytes = 4096"
definition MaxResolutionNoteBytes :: nat where "MaxResolutionNoteBytes = 4096"

text \<open>Prose may contain line breaks and tabs.\<close>

definition hasControlText :: "string \<Rightarrow> bool" where
  "hasControlText s \<longleftrightarrow> hasControl (filter (\<lambda>c. byte c \<notin> {9, 10, 13}) s)"

record DecisionInput =
  di_NodeID :: string
  di_Verdict :: string
  di_Evidence :: string
  di_Attempt :: int
  di_CurrentWindow :: bool

record ResolutionInput =
  ri_NodeID :: string
  ri_Attempt :: int
  ri_Action :: ResolutionAction
  ri_Note :: string

definition validateDecisionInput :: "DecisionInput \<Rightarrow> executorError + unit" where
  "validateDecisionInput input =
     guardR (di_NodeID input \<noteq> [] \<and> length (di_NodeID input) \<le> MaxDecisionNodeIDBytes \<and> utf8_ValidString (di_NodeID input) \<and>
             di_Verdict input \<noteq> [] \<and> length (di_Verdict input) \<le> MaxDecisionVerdictBytes \<and> utf8_ValidString (di_Verdict input) \<and>
             \<not> hasControl (di_NodeID input @ di_Verdict input) \<and> \<not> di_Attempt input < 0 \<and>
             length (di_Evidence input) \<le> MaxDecisionEvidenceBytes \<and> utf8_ValidString (di_Evidence input) \<and>
             \<not> hasControlText (di_Evidence input)) ErrInvalidDecisionInput"

definition validateResolutionInput :: "ResolutionInput \<Rightarrow> executorError + unit" where
  "validateResolutionInput input =
     guardR (ri_NodeID input \<noteq> [] \<and> length (ri_NodeID input) \<le> MaxDecisionNodeIDBytes \<and> utf8_ValidString (ri_NodeID input) \<and>
             \<not> hasControl (ri_NodeID input) \<and> \<not> ri_Attempt input < 1 \<and> ri_Action input \<in> {ResolveRetry, ResolveSkip, ResolveCancel} \<and>
             length (ri_Note input) \<le> MaxResolutionNoteBytes \<and> utf8_ValidString (ri_Note input) \<and> \<not> hasControlText (ri_Note input))
       ErrInvalidResolutionInput"

definition RecordDecision :: "storeIO \<Rightarrow> string \<Rightarrow> DecisionInput \<Rightarrow> Run \<times> World \<Rightarrow> unit executed" where
  "RecordDecision io actor input rw =
     (case rw of (run, w) \<Rightarrow>
      bindR (validateReconciliationActor actor) (\<lambda>_.
      bindR (validateDecisionInput input) (\<lambda>_.
        let d = rn_definition run; c = rn_checkpoint run; nodeID = di_NodeID input;
            attempt = (if di_CurrentWindow input \<and> ApprovalAttempt d c nodeID = None then RequiredDecisionAttempt d c nodeID else di_Attempt input)
        in commitExternal io (decisionTransition \<lparr>dec_NodeID = nodeID, dec_Verdict = di_Verdict input, dec_Attempt = attempt\<rparr>)
             (\<lambda>next. verdictEvidence d c next actor
                \<lparr>dp_Verdict = di_Verdict input, dp_Evidence = di_Evidence input, dp_ChosenEdge = None, dp_Attempt = attempt\<rparr> nodeID) rw)))"

definition ResolveBlocked :: "storeIO \<Rightarrow> string \<Rightarrow> ResolutionInput \<Rightarrow> Run \<times> World \<Rightarrow> unit executed" where
  "ResolveBlocked io actor input rw =
     (case rw of (run, w) \<Rightarrow>
      bindR (validateReconciliationActor actor) (\<lambda>_.
      bindR (validateResolutionInput input) (\<lambda>_.
        commitExternal io (resolutionTransition \<lparr>res_NodeID = ri_NodeID input, res_Attempt = ri_Attempt input, res_Action = ri_Action input\<rparr>)
          (\<lambda>next. Some (eventForNode ''blocked_resolved'' (ri_NodeID input) actor
               (ResolvedEvidence (ri_NodeID input) (ri_Attempt input) (ri_Action input) (ri_Note input)) #
             causedStageReset (rn_definition run) (ri_NodeID input) (rn_checkpoint run) next)) rw)))"

end
