(* ===== verification/Dispatches.thy ===== *)
theory Dispatches
  imports Executor
begin

text \<open>
  The life of a permission (\<open>executor.go\<close>: \<open>Claim\<close>, \<open>Abandon\<close>; \<open>program.go\<close>: \<open>Perform\<close>, \<open>Observe\<close>) and the reports of agents
  (\<open>agent.go\<close>).  The two compare-and-swaps on a permission are sequential writes here: each is atomic in the source.
  \<open>Perform\<close> returns the command the external program is started for.
\<close>

section \<open>Claiming and starting\<close>

record Authorization =
  au_RunID :: string
  au_Profile :: string

definition AuthorizationFor :: "Run \<Rightarrow> string \<Rightarrow> Authorization option" where
  "AuthorizationFor run profile =
     (if profile \<in> set (rn_authorized run) then Some \<lparr>au_RunID = rn_id run, au_Profile = profile\<rparr> else None)"

text \<open>A permission is live for a handle that owns it and still holds it for its command's node.\<close>

definition holds :: "Run \<times> World \<Rightarrow> nat \<Rightarrow> bool" where
  "holds rw i \<longleftrightarrow>
     (case rw of (run, w) \<Rightarrow>
      i < length (w_dispatches w) \<and> ds_owner (dispatchAt w i) = rn_handle run \<and>
      fmlookup (rn_dispatches run) (cmd_NodeID (ds_command (dispatchAt w i))) = Some i)"

definition setDispatch :: "nat \<Rightarrow> (Dispatch \<Rightarrow> Dispatch) \<Rightarrow> World \<Rightarrow> World" where
  "setDispatch i f w = w\<lparr>w_dispatches := (w_dispatches w)[i := f (dispatchAt w i)]\<rparr>"

definition Claim :: "nat \<Rightarrow> Authorization \<Rightarrow> Run \<times> World \<Rightarrow> unit executed" where
  "Claim i auth rw =
     (case rw of (run, w) \<Rightarrow>
      let ds = dispatchAt w i in
      if \<not> holds rw i then Inl ErrStaleDispatch
      else if findCommand (rn_checkpoint run) (cmd_ID (ds_command ds)) (cmd_NodeID (ds_command ds)) = None then Inl ErrStaleDispatch
      else if au_RunID auth \<noteq> rn_id run \<or> au_Profile auth \<noteq> pc_Profile (cmd_Program (ds_command ds)) then Inl ErrUnauthorized
      else if ds_claimed ds then Inl ErrStaleDispatch
      else Inr ((run, setDispatch i (\<lambda>ds. ds\<lparr>ds_claimed := True\<rparr>) w), ()))"

definition Perform :: "nat \<Rightarrow> World \<Rightarrow> executorError + World \<times> Command" where
  "Perform i w =
     (if \<not> i < length (w_dispatches w) \<or> \<not> ds_claimed (dispatchAt w i) then Inl ErrStaleDispatch
      else if ds_spent (dispatchAt w i) then Inl ErrStaleDispatch
      else Inr (setDispatch i (\<lambda>ds. ds\<lparr>ds_spent := True\<rparr>) w, ds_command (dispatchAt w i)))"

definition Abandon :: "nat \<Rightarrow> Run \<times> World \<Rightarrow> Run \<times> World" where
  "Abandon i rw =
     (case rw of (run, w) \<Rightarrow>
      if \<not> holds rw i then rw
      else (run\<lparr>rn_dispatches := fmdrop (cmd_NodeID (ds_command (dispatchAt w i))) (rn_dispatches run)\<rparr>, w))"

section \<open>Observing\<close>

text \<open>
  The handle and the store after \<open>Observe\<close>, and its answer: an observation that does not commit drops the permission.
\<close>

definition Observe :: "storeIO \<Rightarrow> nat \<Rightarrow> Result \<Rightarrow> Run \<times> World \<Rightarrow> (Run \<times> World) \<times> (executorError + nat option)" where
  "Observe io i result rw =
     (case rw of (run, w) \<Rightarrow>
      let ds = dispatchAt w i; command = ds_command ds; ob = rs_Observation result;
          c = rn_checkpoint run; d = rn_definition run
      in if \<not> holds rw i \<or> \<not> ds_claimed ds then (rw, Inl ErrStaleDispatch)
      else if obs_CommandID ob \<noteq> cmd_ID command \<or> obs_NodeID ob \<noteq> cmd_NodeID command then (rw, Inl ErrStaleDispatch)
      else case apply_transition c d (observationTransition ob) of
        Inl e \<Rightarrow> (rw, Inl (EngineError e))
      | Inr next \<Rightarrow>
          (case (if rn_held run then map_sum id (\<lambda>c'. (c', None)) (AdvanceUntilQuiescent next d)
                 else map_sum id (\<lambda>(c', x, _). (c', x)) (AdvanceAndPlan next d)) of
             Inl e \<Rightarrow> (rw, Inl (EngineError e))
           | Inr (advanced, planned) \<Rightarrow>
               let bounds = programBounds run planned;
                   input = eventForNode ''program_observed'' (cmd_NodeID command) EngineActor (ObservedEvidence result) #
                           causedStageReset d (cmd_NodeID command) c advanced;
                   events = commitEvidence d c advanced input (advanceEvidence planned (recordedBounds bounds)) True
               in case persistEvents io advanced events rw of
                    Inl e \<Rightarrow> (Abandon i rw, Inl e)
                  | Inr rw' \<Rightarrow> map_prod id Inr (grantOption planned bounds rw')))"

section \<open>Agent reports\<close>

definition MaxAgentReportNoteBytes :: nat where "MaxAgentReportNoteBytes = 4096"

record AgentReport =
  ar_CommandID :: string
  ar_NodeID :: string
  ar_Attempt :: int
  ar_Outcome :: ProgramOutcome
  ar_Note :: string
  ar_Verdict :: string
  ar_Performer :: string

definition ValidateAgentReportNote :: "string \<Rightarrow> executorError + unit" where
  "ValidateAgentReportNote note =
     guardR (length note \<le> MaxAgentReportNoteBytes \<and> utf8_ValidString note \<and> \<not> hasControlText note) ErrInvalidAgentReport"

definition validateAgentReport :: "AgentReport \<Rightarrow> executorError + unit" where
  "validateAgentReport report =
     bindR (guardR (ar_CommandID report \<noteq> [] \<and> ar_NodeID report \<noteq> [] \<and> \<not> ar_Attempt report < 1) ErrInvalidAgentReport) (\<lambda>_.
     bindR (guardR (ar_Outcome report = ProgramSucceeded \<or> ar_Outcome report = ProgramFailed) ErrInvalidAgentReport) (\<lambda>_.
     ValidateAgentReportNote (ar_Note report)))"

definition agentObservation :: "Run \<Rightarrow> AgentReport \<Rightarrow> executorError + ProgramObservation" where
  "agentObservation run report =
     (case findCommand (rn_checkpoint run) (ar_CommandID report) (ar_NodeID report) of
        None \<Rightarrow> Inl (EngineError ErrStaleObservation)
      | Some x \<Rightarrow>
          let decider = cmd_Verdicts x \<noteq> [] in
          if cmd_Kind x \<noteq> CommandAgent \<or> cmd_Attempt x \<noteq> ar_Attempt report then Inl (EngineError ErrStaleObservation)
          else if decider \<and> ar_Outcome report = ProgramSucceeded \<and> ar_Verdict report = [] then Inl ErrInvalidAgentReport
          else if (\<not> decider \<or> ar_Outcome report \<noteq> ProgramSucceeded) \<and> ar_Verdict report \<noteq> [] then Inl ErrInvalidAgentReport
          else
            let failed = (ar_Outcome report = ProgramFailed) in
            Inr \<lparr>obs_CommandID = cmd_ID x, obs_NodeID = cmd_NodeID x, obs_Outcome = ar_Outcome report,
                 obs_ExitCode = (if failed then 1 else 0),
                 obs_Error = (if \<not> failed then [] else if ar_Note report = [] then ''agent performer reported failure'' else ar_Note report),
                 obs_Verdict = ar_Verdict report\<rparr>)"

definition RecordAgentReport :: "storeIO \<Rightarrow> string \<Rightarrow> AgentReport \<Rightarrow> Run \<times> World \<Rightarrow> unit executed" where
  "RecordAgentReport io actor report rw =
     (case rw of (run, w) \<Rightarrow>
      bindR (validateReconciliationActor actor) (\<lambda>_.
      bindR (validateAgentReport report) (\<lambda>_.
      bindR (agentObservation run report) (\<lambda>ob.
        let command = the (findCommand (rn_checkpoint run) (ar_CommandID report) (ar_NodeID report));
            d = rn_definition run; c = rn_checkpoint run; nodeID = cmd_NodeID command
        in commitExternal io (observationTransition ob)
             (\<lambda>next.
               let causal = eventForNode ''agent_reported'' nodeID actor
                              (ReportedEvidence ob (cmd_Attempt command) (ar_Performer report) (ar_Note report)) #
                            causedStageReset d nodeID c next
               in if obs_Verdict ob = [] then Some causal
                  else map_option (\<lambda>decided. causal @ decided)
                    (verdictEvidence d c next actor
                       \<lparr>dp_Verdict = ar_Verdict report, dp_Evidence = ar_Note report, dp_ChosenEdge = None,
                        dp_Attempt = cmd_Attempt command\<rparr> nodeID)) rw))))"

definition CheckAgentReport :: "Run \<Rightarrow> AgentReport \<Rightarrow> executorError + unit" where
  "CheckAgentReport run report =
     bindR (validateAgentReport report) (\<lambda>_.
     bindR (agentObservation run report) (\<lambda>ob.
       map_sum EngineError (\<lambda>_. ()) (apply_transition (rn_checkpoint run) (rn_definition run) (observationTransition ob))))"

end
