(* ===== verification/Execution_Laws.thy ===== *)
theory Execution_Laws
  imports Resolved_Scopes Dispatches Template_Samples
begin

text \<open>
  The theorems about what surrounds the engine: the resolution of template references before a run is
  created, and the evidence each commit stores.
\<close>

section \<open>Embedded templates\<close>

text \<open>A process that runs the pair template as a nested process, and a store that holds only the latter.\<close>

definition hostTemplate :: Template where
  "hostTemplate = Template ''tclaude.dev/v1alpha1'' ''ProcessTemplate'' ''host'' fmempty None ''s''
     (fmap_of_list [(''s'', blankAuthored NodeTypeStart (fmap_of_list [(''next'', ''p'')])),
        (''p'', Node NodeTypeSubprocess (JoinOther []) None None [] None None None (fmap_of_list [(''pass'', ''e'')]) fmempty [] []
           (Some (Subprocess ''pair'' [] fmempty [] fmempty fmempty fmempty None)) noProse),
        (''e'', blankAuthored NodeTypeEnd fmempty)]) noProse None"

definition pairStore :: TemplateResolver where
  "pairStore tid version = (if tid = ''pair'' then Inr (Some pairTemplate, ''sha256:0'') else Inl ''not found'')"

lemma host_resolves: "ResolveSubprocessRefs hostTemplate (Some pairStore) = Inr (projr (ResolveSubprocessRefs hostTemplate (Some pairStore)))"
proof -
  have "\<not> isl (ResolveSubprocessRefs hostTemplate (Some pairStore))" by code_simp
  then show ?thesis by (cases "ResolveSubprocessRefs hostTemplate (Some pairStore)") auto
qed

lemma resolved_reference:
  assumes "resolvedWithin (Suc left) stack t" "nid |\<in>| fmdom (TemplateNodes t)" "SubprocessOf (node_of t nid) = Some sp"
    "Type (node_of t nid) = NodeTypeSubprocess" "\<not> IsInline sp"
  shows "TemplateRef sp \<noteq> [] \<longrightarrow> (\<exists>b. Resolved sp = Some b \<and> TemplateID b = TemplateRef sp)"
  using assms unfolding resolvedWithin.simps(2) by (metis (no_types, lifting))

text \<open>
  C35. Resolution embeds bodies and changes nothing else: without the embedded bodies the resolved template is the
  authored one, at every nesting depth, so its semantic hash, and with it the reference a run records, stays
  that of the template it was created from.
\<close>

theorem resolution_keeps_identity:
  assumes "ResolveSubprocessRefs t resolver = Inr t'"
  shows "stripResolvedSubprocesses t' = stripResolvedSubprocesses t \<and> SemanticHash hash t' = SemanticHash hash t \<and>
    TemplateID t' = TemplateID t \<and> fmdom (TemplateNodes t') = fmdom (TemplateNodes t) \<and> LayoutOf t' = LayoutOf t"
  using ResolveSubprocessRefs_facts(1) [OF assms] rewritten_facts [of t t']
  by (simp add: rewritten_def SemanticHash_def stripResolvedSubprocesses_def)

theorem resolution_keeps_identity_witness:
  "SemanticHash TemplateID (projr (ResolveSubprocessRefs hostTemplate (Some pairStore))) = ''host'' \<and>
   projr (ResolveSubprocessRefs hostTemplate (Some pairStore)) \<noteq> hostTemplate"
proof
  have "SemanticHash TemplateID hostTemplate = ''host''"
    by (simp add: SemanticHash_def stripResolvedSubprocesses_def hostTemplate_def)
  with resolution_keeps_identity [OF host_resolves]
  show "SemanticHash TemplateID (projr (ResolveSubprocessRefs hostTemplate (Some pairStore))) = ''host''" by metis
  show "projr (ResolveSubprocessRefs hostTemplate (Some pairStore)) \<noteq> hostTemplate"
  proof
    assume same: "projr (ResolveSubprocessRefs hostTemplate (Some pairStore)) = hostTemplate"
    have "map_option (\<lambda>s. map_option TemplateID (Resolved s)) (SubprocessOf (node_of (projr (ResolveSubprocessRefs hostTemplate (Some pairStore))) ''p'')) = Some (Some ''pair'')"
      by code_simp
    moreover have "map_option (\<lambda>s. map_option TemplateID (Resolved s)) (SubprocessOf (node_of hostTemplate ''p'')) = Some None"
      by (simp add: hostTemplate_def node_of_def mget_def)
    ultimately show False unfolding same by simp
  qed
qed

text \<open>
  C36. A resolved template needs no store: every reference, however deeply nested, carries the template it names,
  no reference repeats a template it is nested in, and bodies nest within the limit.
\<close>

theorem resolution_embeds_references:
  assumes "ResolveSubprocessRefs t resolver = Inr t'"
  shows "resolvedWithin MaxSubprocessDepth [TemplateID t] t'"
  by (rule ResolveSubprocessRefs_facts(2) [OF assms])

theorem resolution_embeds_references_witness:
  "\<exists>sp b. SubprocessOf (node_of (projr (ResolveSubprocessRefs hostTemplate (Some pairStore))) ''p'') = Some sp \<and>
     Resolved sp = Some b \<and> TemplateID b = ''pair''"
proof -
  let ?t = "projr (ResolveSubprocessRefs hostTemplate (Some pairStore))"
  have n: "''p'' |\<in>| fmdom (TemplateNodes ?t)" "Type (node_of ?t ''p'') = NodeTypeSubprocess"
    "map_option (\<lambda>s. (IsInline s, TemplateRef s)) (SubprocessOf (node_of ?t ''p'')) = Some (False, ''pair'')" by code_simp+
  then obtain sp where sp: "SubprocessOf (node_of ?t ''p'') = Some sp" "\<not> IsInline sp" "TemplateRef sp = ''pair''" by auto
  have "MaxSubprocessDepth = Suc 3" by (simp add: MaxSubprocessDepth_def)
  with resolution_embeds_references [OF host_resolves] have "resolvedWithin (Suc 3) [TemplateID hostTemplate] ?t" by metis
  from resolved_reference [OF this n(1) sp(1) n(2) sp(2)] have "\<exists>b. Resolved sp = Some b \<and> TemplateID b = ''pair''" unfolding sp(3) by simp
  with sp(1) show ?thesis by blast
qed

section \<open>Evidence\<close>

text \<open>
  C37. The rows of one commit fit the store's limit exactly when the required rows do and, where the bare
  "engine advanced" row is added, the join arrivals leave it a place: the arrivals yield to every other
  row but not to that one.  The rows of the input and of the follow-on command are never dropped.
\<close>

theorem commit_rows_fit:
  "(length (commitEvidence d before after input advance engineAdvanced) \<le> MaxProcessRunEventsPerTransition \<longleftrightarrow>
     requiredRows d before after input advance \<le> MaxProcessRunEventsPerTransition \<and>
     \<not> (engineAdvanced \<and> awaitedEvidence d before after = [] \<and> advance = [] \<and>
        MaxProcessRunEventsPerTransition \<le> requiredRows d before after input advance + length (JoinArrivals d before after))) \<and>
   set input \<union> set advance \<subseteq> set (commitEvidence d before after input advance engineAdvanced)"
  unfolding commitEvidence_length using set_commitEvidence by (auto simp: MaxProcessRunEventsPerTransition_def)

end
