(* ===== verification/Run_Creation.thy ===== *)
theory Run_Creation
  imports Executor
begin

text \<open>
  The creation of a run (\<open>agentd/process_runtime.go\<close>): the template version a request starts, the embedding of
  the templates it refers to, the program profiles it must authorize, and the stored row with its first evidence.  The
  template store and the fresh id of an unnamed run are parameters; the scope is an argument, as it is in the source, and the
  request's group and agent, which the handler resolves to it, are left out.
\<close>

section \<open>Requests\<close>

record RunRequest =
  rq_ID :: string
  rq_TemplateID :: string
  rq_Params :: "(string, string) fmap"
  rq_AuthorizeProgramProfiles :: "string list"
  rq_ExpectedRef :: string
  rq_TemplateRef :: string

text \<open>The template store: the reference of a template's newest version, and the template behind a reference.\<close>

record TemplateStore =
  ts_Head :: "string \<Rightarrow> string + string"
  ts_Template :: "string \<Rightarrow> string + Template"

datatype creationError =
    RequestInvalid | TemplateMoved | TemplateUnavailable string | UnresolvedTemplate string | NotExecutable error
  | MissingProfiles "string list" | TooLarge | CreationRefused storeError

definition orElse :: "'a + 'b \<Rightarrow> ('a \<Rightarrow> 'e) \<Rightarrow> 'e + 'b" where
  "orElse r f = map_sum f id r"

text \<open>The text before the first occurrence of a separator (\<open>strings.Cut\<close>).\<close>

fun cutBefore :: "string \<Rightarrow> string \<Rightarrow> string option" where
  "cutBefore sep [] = (if sep = [] then Some [] else None)"
| "cutBefore sep (c # cs) =
     (if take (length sep) (c # cs) = sep then Some [] else map_option (Cons c) (cutBefore sep cs))"

definition processRunTemplateRef :: "RunRequest \<Rightarrow> string \<Rightarrow> string \<Rightarrow> creationError + string" where
  "processRunTemplateRef request templateID headRef =
     (let expected = TrimSpace (rq_ExpectedRef request); pinned = TrimSpace (rq_TemplateRef request) in
      if expected \<noteq> [] \<and> pinned \<noteq> [] then Inl RequestInvalid
      else if expected \<noteq> [] \<and> expected \<noteq> headRef then Inl TemplateMoved
      else if pinned = [] then Inr headRef
      else if cutBefore ''@sha256:'' pinned \<noteq> Some templateID then Inl RequestInvalid
      else Inr pinned)"

section \<open>References and profiles\<close>

definition processSubprocessResolver :: "TemplateStore \<Rightarrow> TemplateResolver" where
  "processSubprocessResolver st tid version =
     bindR (if version = [] then ts_Head st tid else Inr (tid @ ''@'' @ version)) (\<lambda>ref.
       map_sum id (\<lambda>t. (Some t, case dropPrefix (tid @ ''@'') ref of Some rest \<Rightarrow> rest | None \<Rightarrow> ref)) (ts_Template st ref))"

definition normalizeProcessRunAuthorizations :: "string list \<Rightarrow> creationError + string list" where
  "normalizeProcessRunAuthorizations profiles =
     (if int (length profiles) > MaxProcessRunAuthorizationProfiles then Inl RequestInvalid
      else if \<not> list_all (\<lambda>p. length p \<le> MaxProcessRunAuthorizationProfile \<and> utf8_ValidString p) profiles \<or> \<not> distinct profiles
      then Inl RequestInvalid
      else Inr (sort profiles))"

text \<open>The performers a task can run: its own and those of its stages.\<close>

definition nodePerformers :: "Node \<Rightarrow> Performer list" where
  "nodePerformers node =
     (if Type node \<noteq> NodeTypeTask then []
      else (case NodePerformer node of None \<Rightarrow> [] | Some p \<Rightarrow> [p]) @
           (case Plan node of None \<Rightarrow> [] | Some s \<Rightarrow> [sp_Performer s]) @
           map sp_Performer (Checks node) @
           (case Review node of None \<Rightarrow> [] | Some s \<Rightarrow> [sp_Performer s]))"

definition missingProcessProgramAuthorizations :: "Template \<Rightarrow> string list \<Rightarrow> string list" where
  "missingProcessProgramAuthorizations t authorized =
     sort (remdups (filter (\<lambda>p. p \<notin> set authorized)
       (map p_Profile (filter (\<lambda>p. p_Kind p = PerformerProgram) (concat (map (nodePerformers \<circ> snd) (WalkNodes t)))))))"

section \<open>Creation\<close>

text \<open>What a snapshot stores: the template without its layout, unless it is above the graph limits.\<close>

definition CanonicalSemanticJSON :: "Template \<Rightarrow> creationError + Template" where
  "CanonicalSemanticJSON t = (if HasErrors (PreflightNormalizedGraphCardinality t) then Inl TooLarge else Inr (withoutLayout t))"

definition creationEvents :: "string \<Rightarrow> string \<Rightarrow> string list \<Rightarrow> ProcessRunScope \<Rightarrow> Checkpoint \<Rightarrow> Event list" where
  "creationEvents actor ref profiles scope c =
     (eventForNode ''run_created'' [] actor (CreatedEvidence ref profiles (sc_Kind scope) (sc_GroupID scope) (sc_AgentID scope)))
       \<lparr>ev_Sequence := 1\<rparr> #
     map (\<lambda>(i, ob). (eventForNode ''decision_awaited'' (do_NodeID ob) EngineActor (AwaitedEntry (do_NodeID ob)))\<lparr>ev_Sequence := int i + 2\<rparr>)
       (List.enumerate 0 (AwaitingDecisions c))"

definition createdRow ::
    "string \<Rightarrow> string \<Rightarrow> Template \<Rightarrow> (string, string) fmap \<Rightarrow> string list \<Rightarrow> Checkpoint \<Rightarrow> ProcessRunScope \<Rightarrow> Payload ProcessRun" where
  "createdRow actor ref snapshot params profiles c scope =
     \<lparr>row_TemplateRef = ref, row_TemplateSnapshot = snapshot, row_Params = params, row_ProgramAuthorizations = profiles,
      row_Status = Status c, row_StateVersion = 1, row_Checkpoint = c, row_Scope = scope,
      row_Events = creationEvents actor ref profiles scope c\<rparr>"

definition createProcessRun ::
    "(Template \<Rightarrow> string) \<Rightarrow> storeIO \<Rightarrow> TemplateStore \<Rightarrow> string \<Rightarrow> nat \<Rightarrow> RunRequest \<Rightarrow> string \<Rightarrow> ProcessRunScope \<Rightarrow> World \<Rightarrow>
     creationError + (executorError + Run) \<times> World" where
  "createProcessRun hash io st freshID handle request actor scope w =
     (let templateID = TrimSpace (rq_TemplateID request) in
      bindR (guardR (templateID \<noteq> []) RequestInvalid) (\<lambda>_.
      bindR (orElse (ts_Head st templateID) TemplateUnavailable) (\<lambda>headRef.
      bindR (processRunTemplateRef request templateID headRef) (\<lambda>ref.
      bindR (orElse (ts_Template st ref) TemplateUnavailable) (\<lambda>stored.
      bindR (orElse (ResolveSubprocessRefs stored (Some (processSubprocessResolver st))) UnresolvedTemplate) (\<lambda>t.
      let params = rq_Params request in
      bindR (orElse (Prepare t params) NotExecutable) (\<lambda>d.
      bindR (normalizeProcessRunAuthorizations (rq_AuthorizeProgramProfiles request)) (\<lambda>profiles.
      bindR (let missing = missingProcessProgramAuthorizations t profiles in guardR (missing = []) (MissingProfiles missing)) (\<lambda>_.
      let named = TrimSpace (rq_ID request); runID = (if named = [] then freshID else named) in
      bindR (orElse (Initialize runID d) NotExecutable) (\<lambda>c.
      bindR (CanonicalSemanticJSON t) (\<lambda>snapshot.
      let row = createdRow actor ref snapshot params profiles c scope in
      bindR (orElse (CreateProcessRun hash io runID row (w_rows w)) CreationRefused) (\<lambda>rows.
      Inr (LoadPreparedRun handle runID row d, w\<lparr>w_rows := rows\<rparr>)))))))))))))"

end
