(* ===== verification/Layouts.thy ===== *)
theory Layouts
  imports Run_Creation Validate_Facts
begin

text \<open>
  A template's layout is presentation: a template that can be prepared can be prepared without it, with
  the same result.  The stored snapshot of a run has no layout, the template a run is created from may have one.
\<close>

named_theorems layout \<open>functions that do not read the layout\<close>

section \<open>What does not read the layout\<close>

lemma layout_fields [simp, layout]:
  "APIVersion (withoutLayout t) = APIVersion t" "TemplateKind (withoutLayout t) = TemplateKind t" "Params (withoutLayout t) = Params t"
  "TemplateFallback (withoutLayout t) = TemplateFallback t" "Start (withoutLayout t) = Start t" "TemplateProse (withoutLayout t) = TemplateProse t"
  "node_of (withoutLayout t) = node_of t" "TemplateNodes (withoutLayout t) = TemplateNodes t" "TemplateID (withoutLayout t) = TemplateID t"
  by (simp_all add: withoutLayout_def node_of_def fun_eq_iff)

subsection \<open>Edges and loops\<close>

lemma layout_NormalizeEdges [layout]: "NormalizeEdges (withoutLayout t) = NormalizeEdges t"
  by (unfold NormalizeEdges_def layout, rule refl)

lemma layout_IsBoundedLoopEdge [layout]: "IsBoundedLoopEdge (withoutLayout t) = IsBoundedLoopEdge t"
  by (intro ext) (unfold IsBoundedLoopEdge_def layout, rule refl)

lemma layout_IsPoisonEscalationRetryEdge [layout]: "IsPoisonEscalationRetryEdge (withoutLayout t) = IsPoisonEscalationRetryEdge t"
  by (intro ext) (unfold IsPoisonEscalationRetryEdge_def layout, rule refl)

lemma layout_isCycleExemptEdge [layout]: "isCycleExemptEdge (withoutLayout t) = isCycleExemptEdge t"
  by (intro ext) (unfold isCycleExemptEdge_def layout, rule refl)

lemma layout_forwardEdge [layout]: "forwardEdge (withoutLayout t) = forwardEdge t"
  by (intro ext) (unfold forwardEdge_def layout, rule refl)

lemma layout_forwardAdjacency [layout]: "forwardAdjacency (withoutLayout t) = forwardAdjacency t"
  by (intro ext) (unfold forwardAdjacency_def layout, rule refl)

lemma layout_loopAt [layout]: "loopAt (withoutLayout t) = loopAt t"
  by (intro ext) (unfold loopAt_def layout, rule refl)

lemma layout_Loops [layout]: "Loops (withoutLayout t) = Loops t"
  by (intro ext) (unfold Loops_def layout, rule refl)

subsection \<open>Counts\<close>

lemma layout_edgesOfBody [layout]: "edgesOfBody (withoutLayout t) = edgesOfBody t"
  by (intro ext) (unfold edgesOfBody_def layout, rule refl)

lemma layout_cardinalityWalk [layout]: "cardinalityWalk x (withoutLayout t) = cardinalityWalk x t"
  by (cases x; intro ext) (simp_all only: cardinalityWalk.simps layout)

lemma layout_subprocessGraphCardinality [layout]: "subprocessGraphCardinality (withoutLayout t) = subprocessGraphCardinality t"
  by (unfold subprocessGraphCardinality_def layout, rule refl)

lemma layout_scopeEdgeCount [layout]: "scopeEdgeCount (withoutLayout t) = scopeEdgeCount t"
  by (intro ext) (unfold scopeEdgeCount_def layout, rule refl)

lemma layout_PreflightNormalizedGraphCardinality [layout]: "PreflightNormalizedGraphCardinality (withoutLayout t) = PreflightNormalizedGraphCardinality t"
  by (unfold PreflightNormalizedGraphCardinality_def layout, rule refl)

lemma layout_NormalizeEdgesWithinBudget [layout]: "NormalizeEdgesWithinBudget (withoutLayout t) = NormalizeEdgesWithinBudget t"
  by (unfold NormalizeEdgesWithinBudget_def layout, rule refl)

lemma layout_walkNodes [layout]: "walkNodes x (withoutLayout t) = walkNodes x t"
proof -
  have "walkNodes x (withoutLayout t) prefix = walkNodes x t prefix" for prefix by (cases x) simp_all
  then show ?thesis by (rule ext)
qed

lemma layout_WalkNodes [layout]: "WalkNodes (withoutLayout t) = WalkNodes t"
  by (unfold WalkNodes_def layout, rule refl)

lemma layout_expandedNodeCount [layout]: "expandedNodeCount (withoutLayout t) = expandedNodeCount t"
  by (unfold expandedNodeCount_def layout, rule refl)

subsection \<open>Execution order\<close>

lemma layout_forwardPairs [layout]: "forwardPairs (withoutLayout t) = forwardPairs t"
  by (unfold forwardPairs_def layout, rule refl)

lemma layout_initialRemaining [layout]: "initialRemaining (withoutLayout t) = initialRemaining t"
  by (unfold initialRemaining_def layout, rule refl)

lemma layout_orderLoop [layout]: "orderLoop (withoutLayout t) = orderLoop t"
proof (intro ext)
  fix p m xs
  show "orderLoop (withoutLayout t) p m xs = orderLoop t p m xs" by (induction t p m xs rule: orderLoop.induct) (auto split: prod.split)
qed

lemma layout_topologicalOrder [layout]: "topologicalOrder (withoutLayout t) = topologicalOrder t"
  by (unfold topologicalOrder_def layout, rule refl)

subsection \<open>Walks\<close>

lemma layout_reachedNodes [layout]: "reachedNodes (withoutLayout t) = reachedNodes t"
  by (intro ext) (unfold reachedNodes_def layout, rule refl)

lemma layout_validateReachability [layout]: "validateReachability (withoutLayout t) = validateReachability t"
  by (intro ext) (unfold validateReachability_def layout, rule refl)

lemma layout_cycleFixHint [layout]: "cycleFixHint (withoutLayout t) = cycleFixHint t"
  by (intro ext) (unfold cycleFixHint_def layout, rule refl)

lemma layout_acyclicEdges [layout]: "acyclicEdges (withoutLayout t) = acyclicEdges t"
  by (intro ext) (unfold acyclicEdges_def layout, rule refl)

lemma layout_cycleDiagnostic [layout]: "cycleDiagnostic (withoutLayout t) = cycleDiagnostic t"
  by (intro ext) (unfold cycleDiagnostic_def layout, rule refl)

lemma layout_validateAcyclic [layout]: "validateAcyclic (withoutLayout t) = validateAcyclic t"
  by (intro ext) (unfold validateAcyclic_def layout, rule refl)

subsection \<open>Graph checks\<close>

lemma layout_validateEdges [layout]: "validateEdges (withoutLayout t) = validateEdges t"
  by (intro ext) (unfold validateEdges_def layout, rule refl)

lemma layout_joinableCount [layout]: "joinableCount (withoutLayout t) = joinableCount t"
  by (intro ext) (unfold joinableCount_def layout, rule refl)

lemma layout_validateJoinAndDegree [layout]: "validateJoinAndDegree (withoutLayout t) = validateJoinAndDegree t"
  by (intro ext) (unfold validateJoinAndDegree_def layout, rule refl)

lemma layout_validateOutcomeRouting [layout]: "validateOutcomeRouting (withoutLayout t) = validateOutcomeRouting t"
  by (unfold validateOutcomeRouting_def layout, rule refl)

lemma layout_derivedStages [layout]: "derivedStages (withoutLayout t) = derivedStages t"
  by (unfold derivedStages_def layout, rule refl)

lemma layout_collisionLoop [layout]: "collisionLoop (withoutLayout t) = collisionLoop t"
proof (intro ext)
  fix m xs
  show "collisionLoop (withoutLayout t) m xs = collisionLoop t m xs" by (induction t m xs rule: collisionLoop.induct) (simp_all split: option.split)
qed

lemma layout_validateExpansionCollisions [layout]: "validateExpansionCollisions (withoutLayout t) = validateExpansionCollisions t"
  by (unfold validateExpansionCollisions_def layout, rule refl)

lemma layout_humanDecision [layout]: "humanDecision (withoutLayout t) = humanDecision t"
  by (intro ext) (unfold humanDecision_def layout, rule refl)

lemma layout_validateLoopBudgets [layout]: "validateLoopBudgets (withoutLayout t) = validateLoopBudgets t"
  by (unfold validateLoopBudgets_def layout, rule refl)

lemma layout_strayEntries [layout]: "strayEntries (withoutLayout t) = strayEntries t"
  by (intro ext) (unfold strayEntries_def layout, rule refl)

lemma layout_cancelsRun [layout]: "cancelsRun (withoutLayout t) = cancelsRun t"
  by (intro ext) (unfold cancelsRun_def layout, rule refl)

lemma layout_validatePoisonEscalations [layout]: "validatePoisonEscalations (withoutLayout t) = validatePoisonEscalations t"
  by (unfold validatePoisonEscalations_def layout, rule refl)

lemma layout_boundsOfNode [layout]: "boundsOfNode (withoutLayout t) = boundsOfNode t"
  by (intro ext) (unfold boundsOfNode_def layout, rule refl)

lemma layout_notBackFindings [layout]: "notBackFindings (withoutLayout t) = notBackFindings t"
  by (intro ext) (unfold notBackFindings_def layout, rule refl)

lemma layout_loopShape [layout]: "loopShape (withoutLayout t) = loopShape t"
  by (intro ext) (unfold loopShape_def layout, rule refl)

lemma layout_validateLoops [layout]: "validateLoops (withoutLayout t) = validateLoops t"
  by (intro ext) (unfold validateLoops_def layout, rule refl)

subsection \<open>The parallel scope plan\<close>

lemma layout_planEdges [layout]: "planEdges (withoutLayout t) = planEdges t"
  by (intro ext) (unfold planEdges_def layout, rule refl)

lemma layout_inboundEdges [layout]: "inboundEdges (withoutLayout t) = inboundEdges t"
  by (intro ext) (unfold inboundEdges_def layout, rule refl)

lemma layout_outboundEdges [layout]: "outboundEdges (withoutLayout t) = outboundEdges t"
  by (intro ext) (unfold outboundEdges_def layout, rule refl)

lemma layout_planIndegree [layout]: "planIndegree (withoutLayout t) = planIndegree t"
  by (intro ext) (unfold planIndegree_def layout, rule refl)

lemma layout_completeForkBranches [layout]: "completeForkBranches (withoutLayout t) = completeForkBranches t"
  by (intro ext) (unfold completeForkBranches_def layout, rule refl)

lemma layout_edgeSignature [layout]: "edgeSignature (withoutLayout t) = edgeSignature t"
  by (intro ext) (unfold edgeSignature_def layout, rule refl)

lemma layout_incomingSignatures [layout]: "incomingSignatures (withoutLayout t) = incomingSignatures t"
  by (intro ext) (unfold incomingSignatures_def layout, rule refl)

lemma layout_reduceNode [layout]: "reduceNode (withoutLayout t) = reduceNode t"
  by (intro ext) (unfold reduceNode_def layout, rule refl)

lemma layout_planScopeNode [layout]: "planScopeNode (withoutLayout t) = planScopeNode t"
  by (intro ext) (unfold planScopeNode_def layout, rule refl)

lemma layout_forkFindings [layout]: "forkFindings (withoutLayout t) = forkFindings t"
  by (intro ext) (unfold forkFindings_def layout, rule refl)

lemma layout_scopePlanOf [layout]: "scopePlanOf (withoutLayout t) = scopePlanOf t"
  by (intro ext) (unfold scopePlanOf_def layout, rule refl)

lemma layout_validateParallelScopePlan [layout]: "validateParallelScopePlan (withoutLayout t) = validateParallelScopePlan t"
  by (intro ext) (unfold validateParallelScopePlan_def layout, rule refl)

subsection \<open>Scopes\<close>

lemma layout_validateTemplateIdentity [layout]: "validateTemplateIdentity (withoutLayout t) = validateTemplateIdentity t"
  by (unfold validateTemplateIdentity_def layout, rule refl)

lemma layout_validateScopeHeader [layout]: "validateScopeHeader (withoutLayout t) = validateScopeHeader t"
  by (unfold validateScopeHeader_def layout, rule refl)

lemma layout_validateHeader [layout]: "validateHeader (withoutLayout t) = validateHeader t"
  by (intro ext) (unfold validateHeader_def layout, rule refl)

lemma layout_inputTypeMismatch [layout]: "inputTypeMismatch (withoutLayout t) = inputTypeMismatch t"
  by (intro ext) (unfold inputTypeMismatch_def layout, rule refl)

lemma layout_inputFindings [layout]: "inputFindings (withoutLayout t) = inputFindings t"
  by (intro ext) (unfold inputFindings_def layout, rule refl)

lemma layout_validateSubprocessPorts [layout]: "validateSubprocessPorts (withoutLayout t) = validateSubprocessPorts t"
  by (intro ext) (unfold validateSubprocessPorts_def layout, rule refl)

lemma layout_subprocessSource [layout]: "subprocessSource (withoutLayout t) = subprocessSource t"
  by (intro ext) (unfold subprocessSource_def layout, rule refl)

lemma layout_validateSubprocessNode [layout]: "validateSubprocessNode x (withoutLayout t) = validateSubprocessNode x t"
  by (intro ext) (unfold validateSubprocessNode_def layout, rule refl)

lemma layout_validateNode [layout]: "validateNode x (withoutLayout t) = validateNode x t"
  by (intro ext) (unfold validateNode_def layout, rule refl)

lemma layout_validateNodes [layout]: "validateNodes x (withoutLayout t) = validateNodes x t"
  by (intro ext) (unfold validateNodes_def layout, rule refl)

lemma layout_validateParamRefs [layout]: "validateParamRefs (withoutLayout t) = validateParamRefs t"
  by (unfold validateParamRefs_def layout, rule refl)

lemma layout_validateScopeGraph [layout]: "validateScopeGraph (withoutLayout t) = validateScopeGraph t"
  by (intro ext) (unfold validateScopeGraph_def layout, rule refl)

section \<open>Eligibility\<close>

text \<open>The layout's findings come last, so dropping them drops a suffix.\<close>

lemma layout_validateScope: "validateScope t es 0 False = validateScope (withoutLayout t) es 0 False @ validateLayout t"
proof -
  have "validateLayout (withoutLayout t) = []" by (simp add: validateLayout_def)
  then show ?thesis unfolding validateScope.simps [of _ es 0 False] layout by simp
qed

lemma layout_findings: "\<exists>rest. templateFindings t es = templateFindings (withoutLayout t) es @ rest"
  unfolding templateFindings_def layout Let_def by (auto simp: layout_validateScope [of t es])

lemma AddAll_open: "AddAll ds tc = (True, tc') \<Longrightarrow> \<not> tb_exhausted (tc_budget tc) \<Longrightarrow> \<not> tb_exhausted (tc_budget tc')"
  by (induction ds arbitrary: tc) (auto simp: Add_def Let_def split: if_splits prod.splits)

lemma collected_prefix:
  assumes "plainFindings (ds @ rest)" "\<not> HasErrors (collectorDiagnostics (snd (AddAll (ds @ rest) newTemplateDiagnosticCollector)))"
  shows "\<not> HasErrors (collectorDiagnostics (snd (AddAll ds newTemplateDiagnosticCollector)))"
proof -
  obtain k tc where tc: "AddAll ds newTemplateDiagnosticCollector = (k, tc)" by force
  show ?thesis
  proof (cases k)
    case True
    have fresh: "\<not> tb_exhausted (tc_budget newTemplateDiagnosticCollector)" by (simp add: newTemplateDiagnosticCollector_def)
    from tc True have "\<not> tb_exhausted (tc_budget tc)" using AddAll_open [OF _ fresh] by simp
    with AddAll_kept [OF tc] have "collectorDiagnostics tc = ds" by (simp add: collectorDiagnostics_def newTemplateDiagnosticCollector_def)
    then show ?thesis using collected_errors(1) [OF assms] tc by (simp add: HasErrors_append)
  qed (use assms(2) tc in \<open>simp add: AddAll_append\<close>)
qed

lemma layout_Validate: "\<not> HasErrors (Validate t es) \<Longrightarrow> \<not> HasErrors (Validate (withoutLayout t) es)"
  using layout_findings [of t es] collected_prefix [of "templateFindings (withoutLayout t) es"] plain_findings [of t es]
  unfolding Validate_def by metis

lemma layout_execution: "executionDiagnostics (withoutLayout t) = executionDiagnostics t"
  unfolding executionDiagnostics_def checkScope.simps [of "withoutLayout t"] checkScope.simps [of t] layout by (rule refl)

lemma layout_eligible:
  assumes "RequireEligible t = Inr ()"
  shows "RequireEligible (withoutLayout t) = Inr ()"
proof -
  obtain es budget where n: "NormalizeEdgesWithinBudget t = (es, budget)" by force
  have e: "CheckEligibility t = []" using assms by (simp add: RequireEligible_def split: if_splits)
  have "\<not> HasErrors budget" "\<not> HasErrors (Validate t es)"
    using e unfolding CheckEligibility_def n by (simp_all add: Errors_empty_iff split: if_splits)
  moreover from this(2) have "\<not> HasErrors (Validate (withoutLayout t) es)" by (rule layout_Validate)
  ultimately have "CheckEligibility (withoutLayout t) = CheckEligibility t"
    unfolding CheckEligibility_def layout layout_execution n by simp
  with e show ?thesis by (simp add: RequireEligible_def)
qed

section \<open>Preparation\<close>

lemma layout_scopeLoops [layout]: "scopeLoops (withoutLayout t) = scopeLoops t"
  by (intro ext) (unfold scopeLoops_def layout, rule refl)

lemma layout_scopeStep [layout]: "scopeStep f fb (withoutLayout t) = scopeStep f fb t"
  by (intro ext) (unfold scopeStep_def layout, rule refl)

lemma layout_prepareScope [layout]: "prepareScope fb (withoutLayout t) = prepareScope fb t"
  by (intro ext) (unfold prepareScope.simps [of fb "withoutLayout t"] prepareScope.simps [of fb t] layout, rule refl)

lemma Prepare_withoutLayout: "Prepare t params = Inr d \<Longrightarrow> Prepare (withoutLayout t) params = Inr d"
  unfolding Prepare_def layout using layout_eligible by (auto simp: bindR_Inr_iff)

end
