(* ===== verification/Effects.thy ===== *)
theory Effects
  imports Layouts Dispatches Prepare_Correct Outcomes
begin

text \<open>
  What one operation on a handle does to the stored run: nothing, a commit that plans no command, a commit that plans
  one and grants its permission, or the reissue of an outstanding command.
\<close>

section \<open>Commands of a history\<close>

text \<open>Only planning adds a command.\<close>

interpretation outstanding: external_writes d "\<lambda>c. set (Commands c) \<subseteq> X" for d X
  by unfold_locales auto

lemma external_commands:
  assumes "external t" "apply_transition c d t = Inr c'"
  shows "set (Commands c') \<subseteq> set (Commands c)"
proof (cases "tr_Kind t")
  case TransitionProgramObserved
  then have s: "apply_programObserved d t c = Inr c'" using assms(2) by (simp add: apply_transition_def split: if_splits)
  then obtain ob where ob: "tr_Observation t = Some ob" by (auto simp: apply_programObserved_def split: option.splits)
  have "set (Commands (removeCommand (obs_NodeID ob) c)) \<subseteq> set (Commands c)" by (auto simp: removeCommand_def)
  with outstanding.apply_observed_keeps [OF s ob] show ?thesis .
next
  case TransitionDecisionRecorded
  then show ?thesis using assms(2) outstanding.apply_decided_keeps [OF _ order_refl]
    by (auto simp: apply_transition_def split: if_splits)
next
  case TransitionBlockedResolved
  then show ?thesis using assms(2) outstanding.apply_resolved_keeps [OF _ order_refl]
    by (auto simp: apply_transition_def split: if_splits)
qed (use assms in \<open>auto simp: external_def apply_transition_def split: if_splits\<close>)

lemma advanceLoop_commands:
  assumes "advanceLoop d budget n c = Inr (c', n')"
  shows "set (Commands c') \<subseteq> set (Commands c)"
proof (rule advanceLoop_invariant [OF _ order_refl assms])
  fix b t b'
  assume b: "set (Commands b) \<subseteq> set (Commands c)" and t: "nextEngineTransition b d = Some t" and s: "apply_transition b d t = Inr b'"
  have "apply_advance d t b = Inr b'" using s nextEngine_facts(1) [OF t] by (simp add: apply_transition_def split: if_splits)
  then show "set (Commands b') \<subseteq> set (Commands c)" using b by (rule outstanding.advance_keeps)
qed

lemma drive_commands:
  assumes "AdvanceAndPlan c d = Inr (c', None, changed)"
  shows "set (Commands c') \<subseteq> set (Commands c)"
  using assms by (cases rule: AdvanceAndPlan_cases) (auto dest: advanceLoop_commands)

lemma quiescent_commands:
  assumes "AdvanceUntilQuiescent c d = Inr c'"
  shows "set (Commands c') \<subseteq> set (Commands c)"
  using assms by (auto simp: AdvanceUntilQuiescent_def advanceUntilQuiescent_def bindR_Inr_iff split: if_splits dest: advanceLoop_commands)

lemma plan_commands:
  assumes run: "AdvanceAndPlan c d = Inr (c', Some x, changed)"
  shows "set (Commands c') \<subseteq> insert x (set (Commands c))"
  using run
proof (cases rule: AdvanceAndPlan_cases)
  case (planned c1 n node)
  then have "\<exists>i. c' = putCommand x (recordAttempt (node_id d i) (nextAttempt c1 (node_id d i)) (setNode (node_id d i) NodeRunning c1))"
    by (auto simp: apply_transition_def planTransition_def apply_commandPlanned_def planNode_def commandsEqual_iff Let_def split: if_splits option.splits)
  then obtain c2 where "c' = putCommand x c2" "Commands c2 = Commands c1" by auto
  with putCommand_set [of x c2] advanceLoop_commands [OF planned(1)] show ?thesis by auto
qed simp

section \<open>Evidence of plans\<close>

definition plannedIn :: "Event list \<Rightarrow> Command list" where
  "plannedIn es = List.map_filter (\<lambda>p. case p of PreparedEvidence x b \<Rightarrow> Some x | _ \<Rightarrow> None) (map ev_Payload es)"

definition reissuedIn :: "Event list \<Rightarrow> string list" where
  "reissuedIn es = List.map_filter (\<lambda>p. case p of ReissuedEvidence i b \<Rightarrow> Some i | _ \<Rightarrow> None) (map ev_Payload es)"

lemma planned_simps [simp]:
  "plannedIn [] = []" "plannedIn (xs @ ys) = plannedIn xs @ plannedIn ys" "reissuedIn [] = []" "reissuedIn (xs @ ys) = reissuedIn xs @ reissuedIn ys"
  "plannedIn (e # es) = (case ev_Payload e of PreparedEvidence x b \<Rightarrow> x # plannedIn es | _ \<Rightarrow> plannedIn es)"
  "reissuedIn (e # es) = (case ev_Payload e of ReissuedEvidence i b \<Rightarrow> i # reissuedIn es | _ \<Rightarrow> reissuedIn es)"
  by (simp_all add: plannedIn_def reissuedIn_def List.map_filter_def split: Payload.splits)

lemma planned_cong: "map ev_Payload es = map ev_Payload es' \<Longrightarrow> plannedIn es = plannedIn es' \<and> reissuedIn es = reissuedIn es'"
  unfolding plannedIn_def reissuedIn_def by (simp only:)

text \<open>Rows of any other kind.\<close>

definition silentRow :: "Event \<Rightarrow> bool" where
  "silentRow e \<longleftrightarrow> (case ev_Payload e of PreparedEvidence x b \<Rightarrow> False | ReissuedEvidence i b \<Rightarrow> False | _ \<Rightarrow> True)"

lemma silentRow_event [simp]:
  "silentRow (eventForNode k n a p) \<longleftrightarrow> (case p of PreparedEvidence x b \<Rightarrow> False | ReissuedEvidence i b \<Rightarrow> False | _ \<Rightarrow> True)"
  by (simp add: silentRow_def eventForNode_def)

lemma silent_planned: "list_all silentRow es \<Longrightarrow> plannedIn es = [] \<and> reissuedIn es = []"
  by (induction es) (auto simp: silentRow_def split: Payload.splits)

lemma silent_evidence [simp]:
  "list_all silentRow (blockedEvidence b a)" "list_all silentRow (awaitedEvidence d b a)" "list_all silentRow (joinEvidence d b a k)"
  "list_all silentRow (causedStageReset d n b a)"
  by (auto simp: blockedEvidence_def awaitedEvidence_def joinEvidence_def causedStageReset_def Let_def list_all_iff split: option.split)

lemma silent_verdict: "verdictEvidence d b a actor p n = Some es \<Longrightarrow> list_all silentRow es"
  by (auto simp: verdictEvidence_def loopEvidence_def Let_def split: if_splits option.splits)

lemma planned_advance [simp]:
  "plannedIn (advanceEvidence x b) = (case x of None \<Rightarrow> [] | Some x \<Rightarrow> [x])" "reissuedIn (advanceEvidence x b) = []"
  by (simp_all add: advanceEvidence_def eventForNode_def split: option.split)

lemma planned_commit [simp]:
  "plannedIn (commitEvidence d b a input advance e) = plannedIn input @ plannedIn advance"
  "reissuedIn (commitEvidence d b a input advance e) = reissuedIn input @ reissuedIn advance"
  by (simp_all add: commitEvidence_def Let_def eventForNode_def silent_evidence [THEN silent_planned])

section \<open>Commits\<close>

definition commits :: "Run \<times> World \<Rightarrow> Run \<times> World \<Rightarrow> Event list \<Rightarrow> bool" where
  "commits rw rw' es \<longleftrightarrow>
     (case (rw, rw') of ((run, w), (run', w')) \<Rightarrow>
      \<exists>row. fmlookup (w_rows w) (rn_id run) = Some row \<and> row_StateVersion row = rn_stateVersion run \<and>
        w_rows w' = fmupd (rn_id run) (row\<lparr>row_Status := Status (rn_checkpoint run'), row_StateVersion := rn_stateVersion run + 1,
          row_Checkpoint := rn_checkpoint run', row_Events := row_Events row @ es\<rparr>) (w_rows w) \<and>
        rn_stateVersion run' = rn_stateVersion run + 1)"

definition sameHandle :: "Run \<Rightarrow> Run \<Rightarrow> bool" where
  "sameHandle run run' \<longleftrightarrow> rn_id run' = rn_id run \<and> rn_definition run' = rn_definition run \<and> rn_authorized run' = rn_authorized run \<and>
     rn_handle run' = rn_handle run"

definition permission :: "Run \<Rightarrow> Command \<Rightarrow> BoundedProgram option \<Rightarrow> Dispatch" where
  "permission run x b = \<lparr>ds_owner = rn_handle run, ds_runID = rn_id run, ds_command = x, ds_bounds = b, ds_claimed = False, ds_spent = False\<rparr>"

lemma assigned_payloads: "map ev_Payload (assignSequences k es) = map ev_Payload es"
proof -
  have "map ev_Payload (assignSequences k es) = map ev_Payload (map snd (List.enumerate 0 es))"
    by (simp only: assignSequences_def list.map_comp) (rule map_cong; auto)
  then show ?thesis by simp
qed

lemma sequenced_payloads: "sequencedEvents row es = Inr es' \<Longrightarrow> map ev_Payload es' = map ev_Payload es"
  by (auto simp: sequencedEvents_def assigned_payloads split: if_splits)

lemma persist_commits:
  assumes "persistEvents io c events (run, w) = Inr (run', w')"
  obtains es where "map ev_Payload es = map ev_Payload events" "commits (run, w) (run', w') es" "sameHandle run run'"
    "rn_checkpoint run' = c" "w_dispatches w' = w_dispatches w"
proof -
  from assms obtain version rows where t: "TransitionProcessRun io (rn_id run) (rn_stateVersion run) c events (w_rows w) = Inr (version, rows)"
    and run': "w' = w\<lparr>w_rows := rows\<rparr>" "rn_stateVersion run' = version" "rn_checkpoint run' = c" "sameHandle run run'"
    by (auto simp: persistEvents_def sameHandle_def split: sum.splits prod.splits)
  from t obtain row es where row: "fmlookup (w_rows w) (rn_id run) = Some row" "row_StateVersion row = rn_stateVersion run"
    and es: "sequencedEvents row events = Inr es" and rows: "version = rn_stateVersion run + 1"
      "rows = fmupd (rn_id run) (row\<lparr>row_Status := Status c, row_StateVersion := rn_stateVersion run + 1, row_Checkpoint := c,
         row_Events := row_Events row @ es\<rparr>) (w_rows w)"
    by (auto simp: TransitionProcessRun_def bindR_Inr_iff split: if_splits option.splits)
  show thesis
    by (rule that [of es]) (use sequenced_payloads [OF es] row rows run' in \<open>auto simp: commits_def\<close>)
qed

section \<open>Effects\<close>

inductive effect :: "Run \<times> World \<Rightarrow> Run \<times> World \<Rightarrow> bool" where
  silent: "sameHandle run run' \<Longrightarrow> rn_stateVersion run' = rn_stateVersion run \<Longrightarrow> rn_checkpoint run' = rn_checkpoint run \<Longrightarrow>
    effect (run, w) (run', w)"
| moved: "commits (run, w) (run', w') es \<Longrightarrow> sameHandle run run' \<Longrightarrow> w_dispatches w' = w_dispatches w \<Longrightarrow>
    plannedIn es = [] \<Longrightarrow> reissuedIn es = [] \<Longrightarrow> (run_step (rn_definition run))\<^sup>*\<^sup>* (rn_checkpoint run) (rn_checkpoint run') \<Longrightarrow>
    set (Commands (rn_checkpoint run')) \<subseteq> set (Commands (rn_checkpoint run)) \<Longrightarrow> effect (run, w) (run', w')"
| planned: "commits (run, w) (run', w') es \<Longrightarrow> sameHandle run run' \<Longrightarrow> w_dispatches w' = w_dispatches w @ [permission run x b] \<Longrightarrow>
    plannedIn es = [x] \<Longrightarrow> reissuedIn es = [] \<Longrightarrow> (run_step (rn_definition run))\<^sup>*\<^sup>* (rn_checkpoint run) c \<Longrightarrow>
    set (Commands c) \<subseteq> set (Commands (rn_checkpoint run)) \<Longrightarrow>
    AdvanceAndPlan c (rn_definition run) = Inr (rn_checkpoint run', Some x, changed) \<Longrightarrow> effect (run, w) (run', w')"
| reissued: "commits (run, w) (run', w') es \<Longrightarrow> sameHandle run run' \<Longrightarrow> w_dispatches w' = w_dispatches w @ [permission run x b] \<Longrightarrow>
    plannedIn es = [] \<Longrightarrow> reissuedIn es = [cmd_ID x] \<Longrightarrow> rn_checkpoint run' = rn_checkpoint run \<Longrightarrow>
    x \<in> set (Commands (rn_checkpoint run)) \<Longrightarrow> effect (run, w) (run', w')"

lemma sameHandle_refl [simp]: "sameHandle run run"
  by (simp add: sameHandle_def)

lemma effect_same [simp]: "effect rw rw"
  by (cases rw) (auto intro: effect.silent)

section \<open>The effects of the operations\<close>

lemma moved_effect:
  assumes "persistEvents io next events (run, w) = Inr rw'" "plannedIn events = []" "reissuedIn events = []"
    "(run_step (rn_definition run))\<^sup>*\<^sup>* (rn_checkpoint run) next" "set (Commands next) \<subseteq> set (Commands (rn_checkpoint run))"
  shows "effect (run, w) rw'"
proof -
  obtain run' w' where rw': "rw' = (run', w')" by force
  from persist_commits [OF assms(1) [unfolded rw']] obtain es where es: "map ev_Payload es = map ev_Payload events"
    and c: "commits (run, w) (run', w') es" "sameHandle run run'" "rn_checkpoint run' = next" "w_dispatches w' = w_dispatches w" by blast
  show ?thesis unfolding rw'
    by (rule effect.moved [OF c(1,2,4)]) (use planned_cong [OF es] assms c(3) in auto)
qed

lemma planned_effect:
  assumes "persistEvents io next events (run, w) = Inr rw1" "plannedIn events = [x]" "reissuedIn events = []"
    "(run_step (rn_definition run))\<^sup>*\<^sup>* (rn_checkpoint run) c" "set (Commands c) \<subseteq> set (Commands (rn_checkpoint run))"
    "AdvanceAndPlan c (rn_definition run) = Inr (next, Some x, changed)"
  shows "effect (run, w) (fst (grant x b rw1))"
proof -
  obtain run1 w1 where rw1: "rw1 = (run1, w1)" by force
  obtain run' w' where rw': "fst (grant x b rw1) = (run', w')" by force
  from persist_commits [OF assms(1) [unfolded rw1]] obtain es where es: "map ev_Payload es = map ev_Payload events"
    and c: "commits (run, w) (run1, w1) es" "sameHandle run run1" "rn_checkpoint run1 = next" "w_dispatches w1 = w_dispatches w" by blast
  have g: "commits (run, w) (run', w') es" "sameHandle run run'" "rn_checkpoint run' = next" "w_dispatches w' = w_dispatches w @ [permission run x b]"
    using c rw' unfolding rw1 by (auto simp: grant_def Let_def commits_def sameHandle_def permission_def)
  show ?thesis unfolding rw'
    by (rule effect.planned [OF g(1,2,4) _ _ assms(4,5)]) (use planned_cong [OF es] assms g(3) in auto)
qed

lemma reissued_effect:
  assumes "persistEvents io (rn_checkpoint run) events (run, w) = Inr rw1" "plannedIn events = []" "reissuedIn events = [cmd_ID x]"
    "x \<in> set (Commands (rn_checkpoint run))"
  shows "effect (run, w) (fst (grant x b rw1))"
proof -
  obtain run1 w1 where rw1: "rw1 = (run1, w1)" by force
  obtain run' w' where rw': "fst (grant x b rw1) = (run', w')" by force
  from persist_commits [OF assms(1) [unfolded rw1]] obtain es where es: "map ev_Payload es = map ev_Payload events"
    and c: "commits (run, w) (run1, w1) es" "sameHandle run run1" "rn_checkpoint run1 = rn_checkpoint run" "w_dispatches w1 = w_dispatches w" by blast
  have g: "commits (run, w) (run', w') es" "sameHandle run run'" "rn_checkpoint run' = rn_checkpoint run"
    "w_dispatches w' = w_dispatches w @ [permission run x b]"
    using c rw' unfolding rw1 by (auto simp: grant_def Let_def commits_def sameHandle_def permission_def)
  show ?thesis unfolding rw'
    by (rule effect.reissued [OF g(1,2,4) _ _ g(3) assms(4)]) (use planned_cong [OF es] assms in auto)
qed

lemma map_prod_left: "map_prod id f p = (a, b) \<longleftrightarrow> fst p = a \<and> f (snd p) = b"
  by (cases p) simp

text \<open>A follow-on plan, of at most one command.\<close>

lemma follow_effect:
  assumes "persistEvents io next (commitEvidence (rn_definition run) before next input (advanceEvidence command b') e) (run, w) = Inr rw1"
    "list_all silentRow input" "(run_step (rn_definition run))\<^sup>*\<^sup>* (rn_checkpoint run) c"
    "set (Commands c) \<subseteq> set (Commands (rn_checkpoint run))"
    "AdvanceAndPlan c (rn_definition run) = Inr (next, command, changed)"
  shows "effect (run, w) (fst (grantOption command b rw1))"
proof (cases command)
  case None
  have "(run_step (rn_definition run))\<^sup>*\<^sup>* (rn_checkpoint run) next" using assms(3) run_step.drive [OF assms(5)] by (rule rtranclp.rtrancl_into_rtrancl)
  then show ?thesis using moved_effect [OF assms(1)] silent_planned [OF assms(2)] drive_commands [of c "rn_definition run"] assms(4,5) None
    by (simp add: grantOption_def)
next
  case (Some x)
  then show ?thesis using planned_effect [OF assms(1) _ _ assms(3,4)] silent_planned [OF assms(2)] assms(5) by (simp add: grantOption_def)
qed

lemma external_effect:
  assumes "commitExternal io t causal (run, w) = Inr (rw', u)" "external t" "admissible (rn_checkpoint run) t"
    "\<And>next input. causal next = Some input \<Longrightarrow> list_all silentRow input"
  shows "effect (run, w) rw'"
proof -
  from assms(1) obtain c' input where t: "apply_transition (rn_checkpoint run) (rn_definition run) t = Inr c'"
    and i: "causal c' = Some input"
    and p: "persistEvents io c' (commitEvidence (rn_definition run) (rn_checkpoint run) c' input [] False) (run, w) = Inr rw'"
    by (auto simp: commitExternal_def engineR_def bindR_Inr_iff map_sum_Inr_iff split: option.splits)
  have "run_step (rn_definition run) (rn_checkpoint run) c'" by (rule run_step.receive [OF assms(2,3) t])
  then show ?thesis using moved_effect [OF p] silent_planned [OF assms(4) [OF i]] external_commands [OF assms(2) t] by auto
qed

lemma Prepare_effect:
  assumes "Prepare_dispatch io (run, w) = Inr (rw', g)"
  shows "effect (run, w) rw'"
proof (cases "rw' = (run, w)")
  case False
  with assms obtain c' command where a: "AdvanceAndPlan (rn_checkpoint run) (rn_definition run) = Inr (c', command, True)"
    and p: "bindR (persistEvents io c' (commitEvidence (rn_definition run) (rn_checkpoint run) c' []
        (advanceEvidence command (recordedBounds (programBounds run command))) True) (run, w))
      (\<lambda>rw1. Inr (grantOption command (programBounds run command) rw1)) = Inr (rw', g)"
    by (auto simp: Prepare_dispatch_def engineR_def bindR_Inr_iff map_sum_Inr_iff Let_def split: if_splits)
  from p obtain rw1 where p1: "persistEvents io c' (commitEvidence (rn_definition run) (rn_checkpoint run) c' []
        (advanceEvidence command (recordedBounds (programBounds run command))) True) (run, w) = Inr rw1"
    and rw': "grantOption command (programBounds run command) rw1 = (rw', g)" unfolding bindR_Inr_iff by auto
  show ?thesis using follow_effect [OF p1 _ rtranclp.rtrancl_refl order_refl a, of "programBounds run command"] rw' by simp
qed simp

lemma find_in: "find p xs = Some x \<Longrightarrow> x \<in> set xs"
  by (induction xs) (auto split: if_splits)

lemma reconcile_member:
  assumes "reconcileCommand run selector b = Inr x"
  shows "x \<in> set (Commands (rn_checkpoint run))"
proof -
  define cs where "cs = map st_Command (filter (\<lambda>s. \<not> st_Executing s \<or> b \<and> cmd_Kind (st_Command s) = CommandAgent) (CommandStates run))"
  have "x \<in> set cs" using assms unfolding reconcileCommand_def cs_def [symmetric] Let_def
    by (auto split: if_splits option.splits dest: find_in simp: hd_in_set)
  then show ?thesis by (auto simp: cs_def CommandStates_def)
qed

lemma Reissue_effect:
  assumes "Reissue io actor selector (run, w) = Inr (rw', g)"
  shows "effect (run, w) rw'"
proof -
  from assms obtain x rw1 where x: "reconcileCommand run selector False = Inr x"
    and p: "persistEvents io (rn_checkpoint run) [eventForNode ''program_reissued'' (cmd_NodeID x) actor
        (ReissuedEvidence (cmd_ID x) (recordedBounds (programBounds run (Some x))))] (run, w) = Inr rw1"
    and rw': "grant x (programBounds run (Some x)) rw1 = (rw', g)"
    by (auto simp: Reissue_def bindR_Inr_iff Let_def)
  from reissued_effect [OF p _ _ reconcile_member [OF x], of "programBounds run (Some x)"] rw' show ?thesis by (simp add: eventForNode_def)
qed

lemma transition_kinds [simp]:
  "external (observationTransition ob)" "external (decisionTransition dec)" "external (resolutionTransition r)"
  "admissible c (decisionTransition dec)" "admissible c (resolutionTransition r)"
  "admissible c (observationTransition ob) \<longleftrightarrow> utf8_ValidString (obs_Error ob)"
  by (simp_all add: external_def admissible_def observationTransition_def decisionTransition_def resolutionTransition_def)

lemma RecordOutcome_effect:
  assumes "RecordOutcome io actor selector oc (run, w) = Inr (rw', u)" "utf8_ValidString (ro_Error oc)"
  shows "effect (run, w) rw'"
  using assms by (auto simp: RecordOutcome_def bindR_Inr_iff Let_def elim!: external_effect intro: silent_verdict split: if_splits)

lemma RecordDecision_effect:
  assumes "RecordDecision io actor input (run, w) = Inr (rw', u)"
  shows "effect (run, w) rw'"
  using assms by (auto simp: RecordDecision_def bindR_Inr_iff Let_def elim!: external_effect intro: silent_verdict )

lemma ResolveBlocked_effect:
  assumes "ResolveBlocked io actor input (run, w) = Inr (rw', u)"
  shows "effect (run, w) rw'"
  using assms by (auto simp: ResolveBlocked_def bindR_Inr_iff Let_def elim!: external_effect intro: silent_verdict )

text \<open>The error text of a report is its note, which is checked, or a fixed text.\<close>

lemma agentObservation_error:
  assumes "agentObservation run rep = Inr ob" "validateAgentReport rep = Inr u"
  shows "utf8_ValidString (obs_Error ob)"
proof -
  have "utf8_ValidString (ar_Note rep)" using assms(2) by (auto simp: validateAgentReport_def ValidateAgentReportNote_def bindR_Inr_iff guardR_Inr_iff)
  moreover have "utf8_ValidString []" "utf8_ValidString ''agent performer reported failure''" by code_simp+
  ultimately show ?thesis using assms(1) by (auto simp: agentObservation_def Let_def split: option.splits if_splits)
qed

lemma RecordAgentReport_effect:
  assumes "RecordAgentReport io actor rep (run, w) = Inr (rw', u)"
  shows "effect (run, w) rw'"
proof -
  from assms obtain ob v where ob: "agentObservation run rep = Inr ob" "validateAgentReport rep = Inr v"
    by (auto simp: RecordAgentReport_def bindR_Inr_iff)
  note utf = agentObservation_error [OF this]
  show ?thesis using assms ob(1) utf
    by (auto simp: RecordAgentReport_def bindR_Inr_iff Let_def elim!: external_effect split: if_splits) (erule silent_verdict)
qed

lemma Abandon_effect: "effect (run, w) (Abandon k (run, w))"
  by (auto simp: Abandon_def sameHandle_def intro!: effect.silent)

lemma Observe_effect:
  assumes "Observe io k result (run, w) = (rw', r)" "utf8_ValidString (obs_Error (rs_Observation result))"
  shows "effect (run, w) rw'"
proof -
  let ?c = "rn_checkpoint run" and ?d = "rn_definition run" and ?ob = "rs_Observation result"
  let ?n = "cmd_NodeID (ds_command (dispatchAt w k))"
  consider (same) "rw' = (run, w)" | (dropped) "rw' = Abandon k (run, w)"
    | (committed) b advanced command rw1 where "apply_transition ?c ?d (observationTransition ?ob) = Inr b"
      "(if rn_held run then map_sum id (\<lambda>c'. (c', None)) (AdvanceUntilQuiescent b ?d)
        else map_sum id (\<lambda>(c', x, _). (c', x)) (AdvanceAndPlan b ?d)) = Inr (advanced, command)"
      "persistEvents io advanced (commitEvidence ?d ?c advanced (eventForNode ''program_observed'' ?n EngineActor (ObservedEvidence result) #
         causedStageReset ?d ?n ?c advanced) (advanceEvidence command (recordedBounds (programBounds run command))) True) (run, w) = Inr rw1"
      "rw' = fst (grantOption command (programBounds run command) rw1)"
    using assms(1) by (auto simp: Observe_def Let_def map_prod_left split: if_splits sum.splits prod.splits)
  then show ?thesis
  proof cases
    case committed
    have "run_step ?d ?c b" by (rule run_step.receive [OF _ _ committed(1)]) (use assms(2) in simp_all)
    then have steps: "(run_step ?d)\<^sup>*\<^sup>* ?c b" by (rule r_into_rtranclp)
    have sub: "set (Commands b) \<subseteq> set (Commands ?c)" by (rule external_commands [OF _ committed(1)]) simp
    show ?thesis
    proof (cases "rn_held run")
      case True
      with committed(2) have q: "AdvanceUntilQuiescent b ?d = Inr advanced" and n: "command = None"
        by (cases "AdvanceUntilQuiescent b ?d"; simp)+
      have "(run_step ?d)\<^sup>*\<^sup>* ?c advanced" using steps run_step.advance [OF q] by (rule rtranclp.rtrancl_into_rtrancl)
      then show ?thesis using moved_effect [OF committed(3)] quiescent_commands [OF q] sub unfolding committed(4) n
        by (simp add: grantOption_def silent_planned eventForNode_def)
    next
      case False
      with committed(2) obtain changed where a: "AdvanceAndPlan b ?d = Inr (advanced, command, changed)"
        by (cases "AdvanceAndPlan b ?d") auto
      show ?thesis unfolding committed(4)
        by (rule follow_effect [OF committed(3) _ steps sub a]) simp
    qed
  qed (use Abandon_effect in simp_all)
qed

end
