(* ===== verification/Executions.thy ===== *)
theory Executions
  imports Effects
begin

text \<open>
  Everything together: a store of runs, any number of handles on them, the permissions they grant, and the
  programs started with those permissions.  A step is one call of an exported operation; every operation that writes
  may fail at the store.  \<open>systemInv\<close> holds of every system so reached.
\<close>

section \<open>Systems\<close>

record System =
  sy_world :: World
  sy_runs :: "Run list"
  sy_started :: "(string \<times> Command) list"

definition emptySystem :: System where
  "emptySystem = \<lparr>sy_world = \<lparr>w_rows = fmempty, w_dispatches = []\<rparr>, sy_runs = [], sy_started = []\<rparr>"

text \<open>The operations of a handle's owner.  Error texts of observations are valid UTF-8: the callers see to that.\<close>

inductive owner_step :: "Run \<times> World \<Rightarrow> Run \<times> World \<Rightarrow> bool" where
  plan: "Prepare_dispatch io rw = Inr (rw', granted) \<Longrightarrow> owner_step rw rw'"
| reissue: "Reissue io actor selector rw = Inr (rw', granted) \<Longrightarrow> owner_step rw rw'"
| outcome: "RecordOutcome io actor selector oc rw = Inr (rw', u) \<Longrightarrow> utf8_ValidString (ro_Error oc) \<Longrightarrow> owner_step rw rw'"
| decision: "RecordDecision io actor input rw = Inr (rw', u) \<Longrightarrow> owner_step rw rw'"
| resolution: "ResolveBlocked io actor res rw = Inr (rw', u) \<Longrightarrow> owner_step rw rw'"
| report: "RecordAgentReport io actor rep rw = Inr (rw', u) \<Longrightarrow> owner_step rw rw'"
| observe: "Observe io k result rw = (rw', r) \<Longrightarrow> utf8_ValidString (obs_Error (rs_Observation result)) \<Longrightarrow> owner_step rw rw'"
| abandon: "owner_step rw (Abandon k rw)"
| hold: "owner_step (run, w) (Hold b run, w)"
| bounds: "owner_step (run, w) (SetProgramBounds resolver run, w)"

inductive system_step :: "(Template \<Rightarrow> string) \<Rightarrow> TemplateStore \<Rightarrow> System \<Rightarrow> System \<Rightarrow> bool" for hash templates where
  create: "createProcessRun hash io templates freshID (length (sy_runs S)) request actor scope (sy_world S) = Inr (loaded, w) \<Longrightarrow>
    system_step hash templates S (S\<lparr>sy_world := w, sy_runs := sy_runs S @ (case loaded of Inl e \<Rightarrow> [] | Inr run \<Rightarrow> [run])\<rparr>)"
| load: "LoadRun (length (sy_runs S)) runID (sy_world S) = Inr run \<Longrightarrow> system_step hash templates S (S\<lparr>sy_runs := sy_runs S @ [run]\<rparr>)"
| own: "i < length (sy_runs S) \<Longrightarrow> owner_step (sy_runs S ! i, sy_world S) (run, w) \<Longrightarrow>
    system_step hash templates S (S\<lparr>sy_world := w, sy_runs := (sy_runs S)[i := run]\<rparr>)"
| claim: "i < length (sy_runs S) \<Longrightarrow> j < length (sy_runs S) \<Longrightarrow> AuthorizationFor (sy_runs S ! j) profile = Some auth \<Longrightarrow>
    Claim k auth (sy_runs S ! i, sy_world S) = Inr ((run, w), u) \<Longrightarrow>
    system_step hash templates S (S\<lparr>sy_world := w, sy_runs := (sy_runs S)[i := run]\<rparr>)"
| perform: "Perform k (sy_world S) = Inr (w, x) \<Longrightarrow>
    system_step hash templates S (S\<lparr>sy_world := w, sy_started := sy_started S @ [(ds_runID (dispatchAt (sy_world S) k), x)]\<rparr>)"

inductive executed :: "(Template \<Rightarrow> string) \<Rightarrow> TemplateStore \<Rightarrow> System \<Rightarrow> bool" for hash templates where
  start: "executed hash templates emptySystem"
| step: "executed hash templates S \<Longrightarrow> system_step hash templates S S' \<Longrightarrow> executed hash templates S'"

section \<open>The invariant\<close>

text \<open>
  A stored run: it can be loaded, its commands were planned in its evidence, and no command was planned twice.
\<close>

definition plannedOk :: "string \<Rightarrow> Checkpoint \<Rightarrow> Command list \<Rightarrow> bool" where
  "plannedOk rid c xs \<longleftrightarrow>
     distinct (map cmd_ID xs) \<and> set (Commands c) \<subseteq> set xs \<and>
     (\<forall>x\<in>set xs. cmd_ID x = command_id rid (cmd_NodeID x) (cmd_Attempt x) (cmd_Kind x) \<and> cmd_Attempt x \<le> attempts c (cmd_NodeID x))"

definition definitionOf :: "'p ProcessRun \<Rightarrow> Definition result" where
  "definitionOf row = Prepare (row_TemplateSnapshot row) (row_Params row)"

definition rowOk :: "string \<Rightarrow> Payload ProcessRun \<Rightarrow> bool" where
  "rowOk rid row \<longleftrightarrow>
     (\<exists>d. definitionOf row = Inr d \<and> reachable rid d (row_Checkpoint row)) \<and> row_Status row = Status (row_Checkpoint row) \<and>
     0 < row_StateVersion row \<and> decodeProcessRunAuthorizations (row_ProgramAuthorizations row) = Inr (row_ProgramAuthorizations row) \<and>
     plannedOk rid (row_Checkpoint row) (plannedIn (row_Events row))"

definition handleOk :: "Payload ProcessRuns \<Rightarrow> Run \<Rightarrow> bool" where
  "handleOk rows run \<longleftrightarrow>
     (\<exists>row. fmlookup rows (rn_id run) = Some row \<and> definitionOf row = Inr (rn_definition run) \<and>
        rn_authorized run = row_ProgramAuthorizations row \<and> rn_stateVersion run \<le> row_StateVersion row \<and>
        (rn_stateVersion run = row_StateVersion row \<longrightarrow> rn_checkpoint run = row_Checkpoint row))"

definition grantedTo :: "string \<Rightarrow> World \<Rightarrow> string multiset" where
  "grantedTo rid w = mset (map (\<lambda>ds. cmd_ID (ds_command ds)) (filter (\<lambda>ds. ds_runID ds = rid) (w_dispatches w)))"

definition dispatchOk :: "Payload ProcessRuns \<Rightarrow> Dispatch \<Rightarrow> bool" where
  "dispatchOk rows ds \<longleftrightarrow>
     (\<exists>row. fmlookup rows (ds_runID ds) = Some row \<and> ds_command ds \<in> set (plannedIn (row_Events row)) \<and>
        (ds_spent ds \<longrightarrow> ds_claimed ds) \<and>
        (ds_claimed ds \<longrightarrow> pc_Profile (cmd_Program (ds_command ds)) \<in> set (row_ProgramAuthorizations row)))"

definition worldOk :: "World \<Rightarrow> bool" where
  "worldOk w \<longleftrightarrow>
     (\<forall>rid row. fmlookup (w_rows w) rid = Some row \<longrightarrow> rowOk rid row \<and>
        grantedTo rid w = mset (map cmd_ID (plannedIn (row_Events row))) + mset (reissuedIn (row_Events row))) \<and>
     (\<forall>ds\<in>set (w_dispatches w). dispatchOk (w_rows w) ds)"

definition spentOn :: "World \<Rightarrow> (string \<times> Command) multiset" where
  "spentOn w = mset (map (\<lambda>ds. (ds_runID ds, ds_command ds)) (filter ds_spent (w_dispatches w)))"

text \<open>Handles are numbered, and a permission is held by the handle that granted it.\<close>

definition ownersOk :: "System \<Rightarrow> bool" where
  "ownersOk S \<longleftrightarrow>
     (\<forall>i<length (sy_runs S). rn_handle (sy_runs S ! i) = i) \<and>
     (\<forall>ds\<in>set (w_dispatches (sy_world S)). ds_owner ds < length (sy_runs S) \<and> rn_id (sy_runs S ! ds_owner ds) = ds_runID ds)"

definition systemInv :: "System \<Rightarrow> bool" where
  "systemInv S \<longleftrightarrow>
     worldOk (sy_world S) \<and> (\<forall>run\<in>set (sy_runs S). handleOk (w_rows (sy_world S)) run) \<and> ownersOk S \<and>
     mset (sy_started S) = spentOn (sy_world S)"

section \<open>Plans\<close>

lemma reachable_id: "reachable r d c \<Longrightarrow> RunID c = r"
  using identity.history_keeps [of d "initialCheckpoint r d" c CheckpointVersion r] reachable_history [of r d c] by (simp add: initial_fields)

lemma plannedOk_history:
  assumes "plannedOk rid c xs" "Inv d c" "(run_step d)\<^sup>*\<^sup>* c c'" "set (Commands c') \<subseteq> set (Commands c)"
  shows "plannedOk rid c' xs"
  using assms(1,4) history_attempts [OF assms(2,3)] unfolding plannedOk_def by (fastforce intro: order_trans)

lemma plannedOk_plan:
  assumes ok: "plannedOk rid c xs" and wf: "wf_definition d" and c: "reachable rid d c" and run: "AdvanceAndPlan c d = Inr (c', Some x, changed)"
  shows "plannedOk rid c' (xs @ [x])"
proof -
  note inv = Inv_reachable [OF wf c]
  have c': "reachable rid d c'" by (rule reachable.driven [OF c run])
  note p = planned_command [OF wf inv run]
  have "cmd_ID x = command_id rid (cmd_NodeID x) (cmd_Attempt x) (cmd_Kind x)"
    using command_budget [OF wf Inv_reachable [OF wf c'] p(1)] reachable_id [OF c'] by (metis taskCommand_simps)
  moreover have "attempts c k \<le> attempts c' k" for k
    using history_attempts [OF inv r_into_rtranclp [of "run_step d", OF run_step.drive [OF run]]] .
  moreover have "cmd_ID y \<noteq> cmd_ID x" if "y \<in> set xs" for y
  proof
    assume "cmd_ID y = cmd_ID x"
    with ok that calculation(1) have "cmd_NodeID y = cmd_NodeID x \<and> cmd_Attempt y = cmd_Attempt x"
      unfolding plannedOk_def by (metis command_id_inj)
    with ok that p(4) show False unfolding plannedOk_def by fastforce
  qed
  ultimately show ?thesis using ok p(3) plan_commands [OF run] unfolding plannedOk_def by (fastforce intro: order_trans)
qed

section \<open>Commits keep the invariant\<close>

lemma commit_row:
  assumes "commits (run, w) (run', w') es" "worldOk w" "handleOk (w_rows w) run"
  obtains row where "fmlookup (w_rows w) (rn_id run) = Some row" "row_Checkpoint row = rn_checkpoint run"
    "definitionOf row = Inr (rn_definition run)" "rowOk (rn_id run) row" "rn_authorized run = row_ProgramAuthorizations row"
    "rn_stateVersion run = row_StateVersion row"
    "w_rows w' = fmupd (rn_id run) (row\<lparr>row_Status := Status (rn_checkpoint run'), row_StateVersion := rn_stateVersion run + 1,
       row_Checkpoint := rn_checkpoint run', row_Events := row_Events row @ es\<rparr>) (w_rows w)"
    "rn_stateVersion run' = rn_stateVersion run + 1"
proof -
  from assms(1) obtain row where row: "fmlookup (w_rows w) (rn_id run) = Some row" "row_StateVersion row = rn_stateVersion run"
    and w': "w_rows w' = fmupd (rn_id run) (row\<lparr>row_Status := Status (rn_checkpoint run'), row_StateVersion := rn_stateVersion run + 1,
       row_Checkpoint := rn_checkpoint run', row_Events := row_Events row @ es\<rparr>) (w_rows w)"
      "rn_stateVersion run' = rn_stateVersion run + 1" by (auto simp: commits_def)
  from assms(3) row have "row_Checkpoint row = rn_checkpoint run" "definitionOf row = Inr (rn_definition run)"
    "rn_authorized run = row_ProgramAuthorizations row" by (auto simp: handleOk_def)
  moreover have "rowOk (rn_id run) row" using assms(2) row(1) by (auto simp: worldOk_def)
  ultimately show thesis using that row w' by simp
qed

text \<open>A commit whose rows account for the commands it leaves and the permissions it grants.\<close>

lemma commit_keeps:
  assumes c: "commits (run, w) (run', w') es" and same: "sameHandle run run'" and w: "worldOk w" and h: "handleOk (w_rows w) run"
    and steps: "(run_step (rn_definition run))\<^sup>*\<^sup>* (rn_checkpoint run) (rn_checkpoint run')"
    and plan: "\<And>row. rowOk (rn_id run) row \<Longrightarrow> row_Checkpoint row = rn_checkpoint run \<Longrightarrow> definitionOf row = Inr (rn_definition run) \<Longrightarrow>
      plannedOk (rn_id run) (rn_checkpoint run') (plannedIn (row_Events row) @ plannedIn es) \<and>
      (\<forall>ds\<in>set new. ds_command ds \<in> set (plannedIn (row_Events row) @ plannedIn es))"
    and new: "w_dispatches w' = w_dispatches w @ new" "\<And>ds. ds \<in> set new \<Longrightarrow> ds_runID ds = rn_id run \<and> \<not> ds_claimed ds \<and> \<not> ds_spent ds"
      "mset (map (\<lambda>ds. cmd_ID (ds_command ds)) new) = mset (map cmd_ID (plannedIn es)) + mset (reissuedIn es)"
  shows "worldOk w' \<and> handleOk (w_rows w') run' \<and> (\<forall>r. handleOk (w_rows w) r \<longrightarrow> handleOk (w_rows w') r) \<and> spentOn w' = spentOn w"
proof -
  from commit_row [OF c w h] obtain row where row: "fmlookup (w_rows w) (rn_id run) = Some row" "row_Checkpoint row = rn_checkpoint run"
    "definitionOf row = Inr (rn_definition run)" "rowOk (rn_id run) row" "rn_authorized run = row_ProgramAuthorizations row"
    "rn_stateVersion run = row_StateVersion row"
    and w': "w_rows w' = fmupd (rn_id run) (row\<lparr>row_Status := Status (rn_checkpoint run'), row_StateVersion := rn_stateVersion run + 1,
       row_Checkpoint := rn_checkpoint run', row_Events := row_Events row @ es\<rparr>) (w_rows w)"
      "rn_stateVersion run' = rn_stateVersion run + 1" .
  let ?row = "row\<lparr>row_Status := Status (rn_checkpoint run'), row_StateVersion := rn_stateVersion run + 1,
       row_Checkpoint := rn_checkpoint run', row_Events := row_Events row @ es\<rparr>"
  note plan = plan [OF row(4,2,3)]
  have rowOk': "rowOk (rn_id run) ?row"
    using row(2,3,4,6) plan history_reachable [OF steps] by (auto simp: rowOk_def definitionOf_def)
  have old: "granted = grantedTo rid w + (if rid = rn_id run then mset (map (\<lambda>ds. cmd_ID (ds_command ds)) new) else {#})"
    if "granted = grantedTo rid w'" for rid granted
  proof -
    have "filter (\<lambda>ds. ds_runID ds = rid) new = (if rid = rn_id run then new else [])"
      using new(2) by (auto simp: filter_empty_conv filter_id_conv)
    then show ?thesis using that by (simp add: grantedTo_def new(1))
  qed
  have "dispatchOk (w_rows w') ds" if "ds \<in> set (w_dispatches w')" for ds
  proof (cases "ds \<in> set new")
    case True
    then show ?thesis using new(2) [OF True] plan w'(1) by (auto simp: dispatchOk_def)
  next
    case False
    with that new(1) w have "dispatchOk (w_rows w) ds" by (auto simp: worldOk_def)
    then show ?thesis using row(1) w'(1) by (auto simp: dispatchOk_def)
  qed
  moreover have "rowOk rid r \<and> grantedTo rid w' = mset (map cmd_ID (plannedIn (row_Events r))) + mset (reissuedIn (row_Events r))"
    if "fmlookup (w_rows w') rid = Some r" for rid r
    using that w row(1) rowOk' old [OF refl, of rid] new(3) unfolding worldOk_def w'(1) by (auto split: if_splits)
  ultimately have "worldOk w'" by (simp add: worldOk_def)
  moreover have "handleOk (w_rows w') run'"
    using same row(3,5) w' by (auto simp: handleOk_def sameHandle_def definitionOf_def)
  moreover have "handleOk (w_rows w') r" if "handleOk (w_rows w) r" for r
    using that row(1,6) w'(1) by (auto simp: handleOk_def definitionOf_def)
  moreover have "filter ds_spent new = []" using new(2) by (simp add: filter_empty_conv)
  then have "spentOn w' = spentOn w" by (simp add: spentOn_def new(1))
  ultimately show ?thesis by blast
qed

lemma effect_keeps:
  assumes "effect (run, w) (run', w')" "worldOk w" "handleOk (w_rows w) run"
  shows "worldOk w' \<and> handleOk (w_rows w') run' \<and> (\<forall>r. handleOk (w_rows w) r \<longrightarrow> handleOk (w_rows w') r) \<and> spentOn w' = spentOn w"
  using assms(1)
proof cases
  case silent
  then show ?thesis using assms(2,3) by (simp add: handleOk_def sameHandle_def)
next
  case (moved es)
  show ?thesis
  proof (rule commit_keeps [OF moved(1,2) assms(2,3) moved(6), of "[]"])
    fix row assume r: "rowOk (rn_id run) row" "row_Checkpoint row = rn_checkpoint run" "definitionOf row = Inr (rn_definition run)"
    then have "Inv (rn_definition run) (rn_checkpoint run)" by (auto simp: rowOk_def definitionOf_def intro: Inv_reachable Prepare_wf)
    with r(1,2) plannedOk_history [OF _ _ moved(6,7)] show "plannedOk (rn_id run) (rn_checkpoint run') (plannedIn (row_Events row) @ plannedIn es) \<and>
      (\<forall>ds\<in>set []. ds_command ds \<in> set (plannedIn (row_Events row) @ plannedIn es))" by (simp add: rowOk_def moved(4))
  qed (use moved in simp_all)
next
  case (planned es x b c changed)
  have steps: "(run_step (rn_definition run))\<^sup>*\<^sup>* (rn_checkpoint run) (rn_checkpoint run')"
    using planned(6) run_step.drive [OF planned(8)] by (rule rtranclp.rtrancl_into_rtrancl)
  show ?thesis
  proof (rule commit_keeps [OF planned(1,2) assms(2,3) steps, of "[permission run x b]"])
    fix row assume r: "rowOk (rn_id run) row" "row_Checkpoint row = rn_checkpoint run" "definitionOf row = Inr (rn_definition run)"
    then have d: "wf_definition (rn_definition run)" "reachable (rn_id run) (rn_definition run) (rn_checkpoint run)"
      by (auto simp: rowOk_def definitionOf_def intro: Prepare_wf)
    have "plannedOk (rn_id run) c (plannedIn (row_Events row))"
      using plannedOk_history [OF _ Inv_reachable [OF d] planned(6,7)] r(1,2) by (simp add: rowOk_def)
    from plannedOk_plan [OF this d(1) history_reachable [OF planned(6) d(2)] planned(8)]
    show "plannedOk (rn_id run) (rn_checkpoint run') (plannedIn (row_Events row) @ plannedIn es) \<and>
      (\<forall>ds\<in>set [permission run x b]. ds_command ds \<in> set (plannedIn (row_Events row) @ plannedIn es))"
      by (simp add: planned(4) permission_def)
  qed (use planned in \<open>simp_all add: permission_def\<close>)
next
  case (reissued es x b)
  show ?thesis
  proof (rule commit_keeps [OF reissued(1,2) assms(2,3), of "[permission run x b]"])
    fix row assume "rowOk (rn_id run) row" "row_Checkpoint row = rn_checkpoint run"
    then show "plannedOk (rn_id run) (rn_checkpoint run') (plannedIn (row_Events row) @ plannedIn es) \<and>
      (\<forall>ds\<in>set [permission run x b]. ds_command ds \<in> set (plannedIn (row_Events row) @ plannedIn es))"
      using reissued(4,6,7) by (auto simp: rowOk_def plannedOk_def permission_def)
  qed (use reissued in \<open>simp_all add: permission_def\<close>)
qed

section \<open>Permissions\<close>

lemma setDispatch_frame [simp]:
  "w_rows (setDispatch k f w) = w_rows w" "length (w_dispatches (setDispatch k f w)) = length (w_dispatches w)"
  by (simp_all add: setDispatch_def)

lemma setDispatch_map:
  assumes "g (f (dispatchAt w k)) = g (dispatchAt w k)"
  shows "map g (w_dispatches (setDispatch k f w)) = map g (w_dispatches w)"
  by (cases "k < length (w_dispatches w)")
    (use assms in \<open>simp_all add: setDispatch_def dispatchAt_def map_update list_update_same_conv\<close>)

lemma setDispatch_mset:
  "k < length (w_dispatches w) \<Longrightarrow>
   mset (w_dispatches (setDispatch k f w)) = add_mset (f (dispatchAt w k)) (mset (w_dispatches w) - {#dispatchAt w k#})"
  by (simp add: setDispatch_def dispatchAt_def mset_update)

lemma grantedTo_set:
  assumes "ds_runID (f (dispatchAt w k)) = ds_runID (dispatchAt w k)" "ds_command (f (dispatchAt w k)) = ds_command (dispatchAt w k)"
  shows "grantedTo rid (setDispatch k f w) = grantedTo rid w"
proof -
  have granted: "grantedTo rid v = mset (map snd (filter (\<lambda>p. fst p = rid) (map (\<lambda>ds. (ds_runID ds, cmd_ID (ds_command ds))) (w_dispatches v))))" for v
    by (simp add: grantedTo_def filter_map comp_def)
  show ?thesis unfolding granted by (subst setDispatch_map) (simp_all only: assms)
qed

lemma setDispatch_member: "ds \<in> set (w_dispatches (setDispatch k f w)) \<Longrightarrow> k < length (w_dispatches w) \<Longrightarrow>
    ds = f (dispatchAt w k) \<or> ds \<in> set (w_dispatches w)"
  by (auto simp: setDispatch_def dest: set_update_subset_insert [THEN subsetD])

lemma worldOk_set:
  assumes "worldOk w" "k < length (w_dispatches w)" "dispatchOk (w_rows w) (f (dispatchAt w k))"
    "ds_runID (f (dispatchAt w k)) = ds_runID (dispatchAt w k)" "ds_command (f (dispatchAt w k)) = ds_command (dispatchAt w k)"
  shows "worldOk (setDispatch k f w)"
  using assms setDispatch_member [of _ k f w] unfolding worldOk_def grantedTo_set [of f w k, OF assms(4,5)] by auto

lemma spentOn_set:
  assumes "k < length (w_dispatches w)" "ds_runID (f (dispatchAt w k)) = ds_runID (dispatchAt w k)"
    "ds_command (f (dispatchAt w k)) = ds_command (dispatchAt w k)"
  shows "ds_spent (f (dispatchAt w k)) = ds_spent (dispatchAt w k) \<Longrightarrow> spentOn (setDispatch k f w) = spentOn w"
    "ds_spent (f (dispatchAt w k)) \<Longrightarrow> \<not> ds_spent (dispatchAt w k) \<Longrightarrow>
       spentOn (setDispatch k f w) = add_mset (ds_runID (dispatchAt w k), ds_command (dispatchAt w k)) (spentOn w)"
proof -
  have spent: "spentOn v = mset (map snd (filter fst (map (\<lambda>ds. (ds_spent ds, ds_runID ds, ds_command ds)) (w_dispatches v))))" for v
    by (simp add: spentOn_def filter_map comp_def)
  show "spentOn (setDispatch k f w) = spentOn w" if "ds_spent (f (dispatchAt w k)) = ds_spent (dispatchAt w k)"
    unfolding spent by (subst setDispatch_map) (simp_all only: assms that)
  have "spentOn v = image_mset (\<lambda>ds. (ds_runID ds, ds_command ds)) (filter_mset ds_spent (mset (w_dispatches v)))" for v
    by (simp add: spentOn_def)
  then show "spentOn (setDispatch k f w) = add_mset (ds_runID (dispatchAt w k), ds_command (dispatchAt w k)) (spentOn w)"
    if "ds_spent (f (dispatchAt w k))" "\<not> ds_spent (dispatchAt w k)"
    using assms that setDispatch_mset [OF assms(1), of f] by simp
qed

section \<open>Creation and loading\<close>

lemma silent_creation: "list_all silentRow (creationEvents actor ref profiles scope c)"
  by (auto simp: creationEvents_def list_all_iff silentRow_def eventForNode_def)

lemma initial_plannedOk: "plannedOk rid (initialCheckpoint rid d) []"
  by (simp add: plannedOk_def initial_fields)

lemma orElse_Inr [simp]: "orElse r f = Inr x \<longleftrightarrow> r = Inr x"
  by (cases r) (simp_all add: orElse_def)

lemma CreateProcessRun_row:
  assumes "CreateProcessRun hash io rid row rows = Inr rows'"
  obtains sc where "fmlookup rows rid = None" "rows' = fmupd rid (row\<lparr>row_StateVersion := 1, row_Scope := sc\<rparr>) rows"
    "decodeProcessRunAuthorizations (row_ProgramAuthorizations row) = Inr (row_ProgramAuthorizations row)"
  using assms by (auto simp: CreateProcessRun_def validateProcessRunCreate_def bindR_Inr_iff decodeProcessRunAuthorizations_def split: if_splits)

lemma LoadPreparedRun_handle:
  assumes "LoadPreparedRun handle rid row d = Inr run"
  shows "rn_id run = rid \<and> rn_handle run = handle \<and> rn_definition run = d \<and> rn_authorized run = row_ProgramAuthorizations row \<and>
    rn_stateVersion run = row_StateVersion row \<and> rn_checkpoint run = row_Checkpoint row"
  using assms by (auto simp: LoadPreparedRun_def decodeProcessRunAuthorizations_def split: if_splits sum.splits)

text \<open>A created run is a new row that can be loaded.\<close>

lemma created_row:
  assumes "createProcessRun hash io templates freshID handle request actor scope w = Inr (loaded, w')"
  obtains rid row where "fmlookup (w_rows w) rid = None" "w' = w\<lparr>w_rows := fmupd rid row (w_rows w)\<rparr>" "rowOk rid row"
    "plannedIn (row_Events row) = []" "reissuedIn (row_Events row) = []"
    "\<And>run. loaded = Inr run \<Longrightarrow> rn_id run = rid \<and> rn_handle run = handle \<and> handleOk (w_rows w') run"
proof -
  from assms obtain t d c profiles ref rows rid where d: "Prepare t (rq_Params request) = Inr d" and c: "Initialize rid d = Inr c"
    and r: "CreateProcessRun hash io rid (createdRow actor ref (withoutLayout t) (rq_Params request) profiles c scope) (w_rows w) = Inr rows"
    and l: "loaded = LoadPreparedRun handle rid (createdRow actor ref (withoutLayout t) (rq_Params request) profiles c scope) d"
    and w': "w' = w\<lparr>w_rows := rows\<rparr>"
    by (auto simp: createProcessRun_def Let_def bindR_Inr_iff CanonicalSemanticJSON_def split: if_splits)
  let ?row = "createdRow actor ref (withoutLayout t) (rq_Params request) profiles c scope"
  from CreateProcessRun_row [OF r] obtain sc where new: "fmlookup (w_rows w) rid = None"
    and rows: "rows = fmupd rid (?row\<lparr>row_StateVersion := 1, row_Scope := sc\<rparr>) (w_rows w)"
    and auth: "decodeProcessRunAuthorizations profiles = Inr profiles" by (auto simp: createdRow_def)
  let ?stored = "?row\<lparr>row_StateVersion := 1, row_Scope := sc\<rparr>"
  have ci: "c = initialCheckpoint rid d" using Initialize_initial [OF c] by simp
  have def: "definitionOf ?stored = Inr d" using Prepare_withoutLayout [OF d] by (simp add: definitionOf_def createdRow_def)
  have e: "plannedIn (row_Events ?stored) = []" "reissuedIn (row_Events ?stored) = []"
    using silent_planned [OF silent_creation] by (simp_all add: createdRow_def)
  have "rowOk rid ?stored"
    unfolding rowOk_def using def reachable.created [OF c] auth e(1) initial_plannedOk [of rid d]
    by (simp add: createdRow_def ci)
  moreover have "rn_id run = rid \<and> rn_handle run = handle \<and> handleOk (w_rows w') run" if "loaded = Inr run" for run
    using LoadPreparedRun_handle [of handle rid ?row d run] that l def by (simp add: handleOk_def w' rows createdRow_def)
  ultimately show thesis using that [OF new _ _ e] w' rows by blast
qed

lemma loaded_handle:
  assumes "LoadRun handle rid w = Inr run"
  shows "rn_id run = rid \<and> rn_handle run = handle \<and> handleOk (w_rows w) run"
  using assms LoadPreparedRun_handle [of handle rid _ _ run]
  by (fastforce simp: LoadRun_def handleOk_def definitionOf_def split: option.splits sum.splits)

text \<open>Every stored run can be loaded.\<close>

lemma row_loads:
  assumes "rowOk rid row" "fmlookup (w_rows w) rid = Some row"
  shows "\<exists>run. LoadRun handle rid w = Inr run"
proof -
  from assms(1) obtain d where d: "Prepare (row_TemplateSnapshot row) (row_Params row) = Inr d" "reachable rid d (row_Checkpoint row)"
    "row_Status row = Status (row_Checkpoint row)" "0 < row_StateVersion row"
    "decodeProcessRunAuthorizations (row_ProgramAuthorizations row) = Inr (row_ProgramAuthorizations row)"
    by (auto simp: rowOk_def definitionOf_def)
  note wf = Prepare_wf [OF d(1)]
  have "validateCheckpoint (row_Checkpoint row) d = Inr ()" by (rule Inv_validates [OF wf Inv_reachable [OF wf d(2)]])
  then show ?thesis using d assms(2) reachable_id [OF d(2)] by (simp add: LoadRun_def LoadPreparedRun_def)
qed

section \<open>Steps keep the invariant\<close>

lemma owner_effect: "owner_step rw rw' \<Longrightarrow> effect rw rw'"
proof (induction rule: owner_step.induct)
  case (plan io rw rw' granted)
  then show ?case using Prepare_effect by (cases rw) blast
next
  case (reissue io actor selector rw rw' granted)
  then show ?case using Reissue_effect by (cases rw) blast
next
  case (outcome io actor selector oc rw rw' u)
  then show ?case using RecordOutcome_effect by (cases rw) blast
next
  case (decision io actor input rw rw' u)
  then show ?case using RecordDecision_effect by (cases rw) blast
next
  case (resolution io actor res rw rw' u)
  then show ?case using ResolveBlocked_effect by (cases rw) blast
next
  case (report io actor rep rw rw' u)
  then show ?case using RecordAgentReport_effect by (cases rw) blast
next
  case (observe io k result rw rw' r)
  then show ?case using Observe_effect by (cases rw) blast
next
  case (abandon rw k)
  then show ?case using Abandon_effect by (cases rw) blast
qed (auto simp: Hold_def SetProgramBounds_def sameHandle_def intro!: effect.silent)

lemma effect_dispatches:
  assumes "effect (run, w) (run', w')"
  shows "rn_handle run' = rn_handle run \<and> rn_id run' = rn_id run \<and>
    (\<forall>ds\<in>set (w_dispatches w'). ds \<in> set (w_dispatches w) \<or> ds_owner ds = rn_handle run \<and> ds_runID ds = rn_id run)"
  using assms by cases (auto simp: sameHandle_def permission_def)

lemma create_keeps:
  assumes inv: "systemInv S"
    and run: "createProcessRun hash io templates freshID (length (sy_runs S)) request actor scope (sy_world S) = Inr (loaded, w)"
  shows "systemInv (S\<lparr>sy_world := w, sy_runs := sy_runs S @ (case loaded of Inl e \<Rightarrow> [] | Inr run \<Rightarrow> [run])\<rparr>)"
proof -
  let ?w = "sy_world S"
  from created_row [OF run] obtain rid row where new: "fmlookup (w_rows ?w) rid = None" "w = ?w\<lparr>w_rows := fmupd rid row (w_rows ?w)\<rparr>" "rowOk rid row"
    "plannedIn (row_Events row) = []" "reissuedIn (row_Events row) = []"
    and loaded: "\<And>run. loaded = Inr run \<Longrightarrow> rn_id run = rid \<and> rn_handle run = length (sy_runs S) \<and> handleOk (w_rows w) run" by metis
  have w: "worldOk ?w" and hs: "\<And>r. r \<in> set (sy_runs S) \<Longrightarrow> handleOk (w_rows ?w) r" and ow: "ownersOk S"
    and st: "mset (sy_started S) = spentOn ?w" using inv by (auto simp: systemInv_def)
  have known: "ds_runID ds \<noteq> rid" if "ds \<in> set (w_dispatches ?w)" for ds
    using w that new(1) by (auto simp: worldOk_def dispatchOk_def)
  have "grantedTo rid w = {#}" using known new(2) by (auto simp: grantedTo_def filter_empty_conv)
  moreover have "grantedTo r w = grantedTo r ?w" for r by (simp add: grantedTo_def new(2))
  moreover have "dispatchOk (w_rows w) ds" if "ds \<in> set (w_dispatches ?w)" for ds
    using w that known [OF that] by (auto simp: worldOk_def dispatchOk_def new(2))
  ultimately have "worldOk w" using w new by (auto simp: worldOk_def)
  moreover have "handleOk (w_rows w) r" if "handleOk (w_rows ?w) r" for r using that new(1,2) by (auto simp: handleOk_def)
  moreover have "ownersOk (S\<lparr>sy_world := w, sy_runs := sy_runs S @ (case loaded of Inl e \<Rightarrow> [] | Inr run \<Rightarrow> [run])\<rparr>)"
    using ow loaded by (auto simp: ownersOk_def nth_append new(2) less_Suc_eq split: sum.splits)
  moreover have "spentOn w = spentOn ?w" by (simp add: spentOn_def new(2))
  ultimately show ?thesis using hs loaded st by (auto simp: systemInv_def split: sum.splits)
qed

lemma own_keeps:
  assumes inv: "systemInv S" and i: "i < length (sy_runs S)" and step: "owner_step (sy_runs S ! i, sy_world S) (run, w)"
  shows "systemInv (S\<lparr>sy_world := w, sy_runs := (sy_runs S)[i := run]\<rparr>)"
proof -
  let ?r = "sy_runs S ! i"
  note e = owner_effect [OF step]
  have w: "worldOk (sy_world S)" and hs: "\<And>r. r \<in> set (sy_runs S) \<Longrightarrow> handleOk (w_rows (sy_world S)) r" and ow: "ownersOk S"
    using inv by (auto simp: systemInv_def)
  note kept = effect_keeps [OF e w hs [OF nth_mem [OF i]]]
  have "handleOk (w_rows w) r" if "r \<in> set ((sy_runs S)[i := run])" for r
    using set_update_subset_insert [of "sy_runs S" i run] that hs kept by blast
  moreover have "ownersOk (S\<lparr>sy_world := w, sy_runs := (sy_runs S)[i := run]\<rparr>)"
    unfolding ownersOk_def
  proof (intro conjI allI ballI impI)
    fix h assume "h < length (sy_runs (S\<lparr>sy_world := w, sy_runs := (sy_runs S)[i := run]\<rparr>))"
    then show "rn_handle (sy_runs (S\<lparr>sy_world := w, sy_runs := (sy_runs S)[i := run]\<rparr>) ! h) = h"
      using ow effect_dispatches [OF e] i by (auto simp: ownersOk_def nth_list_update)
  next
    fix ds assume "ds \<in> set (w_dispatches (sy_world (S\<lparr>sy_world := w, sy_runs := (sy_runs S)[i := run]\<rparr>)))"
    then have "ds_owner ds < length (sy_runs S) \<and> rn_id (sy_runs S ! ds_owner ds) = ds_runID ds"
      using effect_dispatches [OF e] ow i by (auto simp: ownersOk_def)
    then show "ds_owner ds < length (sy_runs (S\<lparr>sy_world := w, sy_runs := (sy_runs S)[i := run]\<rparr>))"
      "rn_id (sy_runs (S\<lparr>sy_world := w, sy_runs := (sy_runs S)[i := run]\<rparr>) ! ds_owner ds) = ds_runID ds"
      using effect_dispatches [OF e] by (cases "ds_owner ds = i"; auto)+
  qed
  ultimately show ?thesis using inv kept by (simp add: systemInv_def)
qed

lemma claim_keeps:
  assumes inv: "systemInv S" and i: "i < length (sy_runs S)" and j: "j < length (sy_runs S)"
    and auth: "AuthorizationFor (sy_runs S ! j) profile = Some auth"
    and run: "Claim k auth (sy_runs S ! i, sy_world S) = Inr ((run, w), u)"
  shows "systemInv (S\<lparr>sy_world := w, sy_runs := (sy_runs S)[i := run]\<rparr>)"
proof -
  let ?w = "sy_world S" and ?f = "\<lambda>ds :: Dispatch. ds\<lparr>ds_claimed := True\<rparr>"
  let ?ds = "dispatchAt ?w k"
  from run have k: "k < length (w_dispatches ?w)" "ds_owner ?ds = rn_handle (sy_runs S ! i)" "au_RunID auth = rn_id (sy_runs S ! i)"
    "au_Profile auth = pc_Profile (cmd_Program (ds_command ?ds))" and w: "run = sy_runs S ! i" "w = setDispatch k ?f ?w"
    by (auto simp: Claim_def holds_def Let_def split: if_splits)
  have world: "worldOk ?w" and hs: "\<And>r. r \<in> set (sy_runs S) \<Longrightarrow> handleOk (w_rows ?w) r" and ow: "ownersOk S"
    using inv by (auto simp: systemInv_def)
  have mem: "?ds \<in> set (w_dispatches ?w)" using k(1) by (simp add: dispatchAt_def)
  have owner: "ds_runID ?ds = rn_id (sy_runs S ! i)" using ow mem k(2) i by (auto simp: ownersOk_def)
  from auth have a: "profile \<in> set (rn_authorized (sy_runs S ! j))" "au_RunID auth = rn_id (sy_runs S ! j)" "au_Profile auth = profile"
    by (auto simp: AuthorizationFor_def split: if_splits)
  have "dispatchOk (w_rows ?w) ?ds" using world mem by (simp add: worldOk_def)
  then have "dispatchOk (w_rows ?w) (?f ?ds)"
    using hs [OF nth_mem [OF j]] a k(3,4) owner by (auto simp: dispatchOk_def handleOk_def)
  then have "worldOk w" unfolding w(2) by (intro worldOk_set [OF world k(1)]) simp_all
  moreover have "spentOn w = spentOn ?w" unfolding w(2) by (rule spentOn_set(1) [OF k(1)]) simp_all
  moreover have "ownersOk (S\<lparr>sy_world := w, sy_runs := (sy_runs S)[i := run]\<rparr>)"
    using ow setDispatch_member [of _ k ?f ?w] k(1) mem by (fastforce simp: ownersOk_def w)
  ultimately show ?thesis using inv by (simp add: systemInv_def w)
qed

lemma perform_keeps:
  assumes inv: "systemInv S" and run: "Perform k (sy_world S) = Inr (w, x)"
  shows "systemInv (S\<lparr>sy_world := w, sy_started := sy_started S @ [(ds_runID (dispatchAt (sy_world S) k), x)]\<rparr>)"
proof -
  let ?w = "sy_world S" and ?f = "\<lambda>ds :: Dispatch. ds\<lparr>ds_spent := True\<rparr>"
  let ?ds = "dispatchAt ?w k"
  from run have k: "k < length (w_dispatches ?w)" "ds_claimed ?ds" "\<not> ds_spent ?ds" and w: "w = setDispatch k ?f ?w" "x = ds_command ?ds"
    by (auto simp: Perform_def split: if_splits)
  have world: "worldOk ?w" and ow: "ownersOk S" using inv by (auto simp: systemInv_def)
  have mem: "?ds \<in> set (w_dispatches ?w)" using k(1) by (simp add: dispatchAt_def)
  have "dispatchOk (w_rows ?w) (?f ?ds)" using world mem k(2) by (fastforce simp: worldOk_def dispatchOk_def)
  then have "worldOk w" unfolding w(1) by (intro worldOk_set [OF world k(1)]) simp_all
  moreover have "spentOn w = add_mset (ds_runID ?ds, x) (spentOn ?w)" unfolding w by (rule spentOn_set(2) [OF k(1)]) (use k in simp_all)
  moreover have "ownersOk (S\<lparr>sy_world := w, sy_started := started\<rparr>)" for started
    using ow setDispatch_member [of _ k ?f ?w] k(1) mem by (fastforce simp: ownersOk_def w)
  ultimately show ?thesis using inv by (simp add: systemInv_def w(1))
qed

lemma load_keeps:
  assumes inv: "systemInv S" and run: "LoadRun (length (sy_runs S)) runID (sy_world S) = Inr run"
  shows "systemInv (S\<lparr>sy_runs := sy_runs S @ [run]\<rparr>)"
proof -
  note l = loaded_handle [OF run]
  have "ownersOk S" using inv by (simp add: systemInv_def)
  then have "ownersOk (S\<lparr>sy_runs := sy_runs S @ [run]\<rparr>)" using l by (auto simp: ownersOk_def nth_append less_Suc_eq)
  then show ?thesis using inv l by (auto simp: systemInv_def)
qed

lemma step_keeps:
  assumes "system_step hash templates S S'" "systemInv S"
  shows "systemInv S'"
  using assms(1)
proof cases
  case create
  then show ?thesis using create_keeps [OF assms(2)] by simp
next
  case load
  then show ?thesis using load_keeps [OF assms(2)] by simp
next
  case own
  then show ?thesis using own_keeps [OF assms(2)] by simp
next
  case claim
  then show ?thesis using claim_keeps [OF assms(2)] by simp
next
  case perform
  then show ?thesis using perform_keeps [OF assms(2)] by simp
qed

lemma systemInv_empty: "systemInv emptySystem"
  by (simp add: systemInv_def emptySystem_def worldOk_def ownersOk_def spentOn_def)

lemma executed_inv: "executed hash templates S \<Longrightarrow> systemInv S"
  by (induction rule: executed.induct) (auto intro: systemInv_empty step_keeps)

section \<open>What the invariant says of starts\<close>

lemma count_pairs:
  "count (image_mset (\<lambda>z. (f z, g z)) (mset zs)) (a, b) = count (mset (map g (filter (\<lambda>z. f z = a) zs))) b"
  by (induction zs) auto

lemma count_started:
  assumes "systemInv S" "fmlookup (w_rows (sy_world S)) rid = Some row"
  shows "count_list (map (\<lambda>(r, x). (r, cmd_ID x)) (sy_started S)) (rid, cid) \<le> 1 + count_list (reissuedIn (row_Events row)) cid"
proof -
  let ?w = "sy_world S"
  have "mset (map (\<lambda>(r, x). (r, cmd_ID x)) (sy_started S)) = image_mset (\<lambda>(r, x). (r, cmd_ID x)) (spentOn ?w)"
    using assms(1) by (simp add: systemInv_def)
  also have "\<dots> = image_mset (\<lambda>ds. (ds_runID ds, cmd_ID (ds_command ds))) (filter_mset ds_spent (mset (w_dispatches ?w)))"
    by (simp add: spentOn_def image_mset.compositionality comp_def)
  also have "\<dots> \<subseteq># image_mset (\<lambda>ds. (ds_runID ds, cmd_ID (ds_command ds))) (mset (w_dispatches ?w))"
    by (intro image_mset_subseteq_mono) simp
  finally have "count (mset (map (\<lambda>(r, x). (r, cmd_ID x)) (sy_started S))) (rid, cid) \<le> count (grantedTo rid ?w) cid"
    unfolding grantedTo_def count_pairs [symmetric] by (rule mset_subset_eq_count)
  also have "\<dots> = count (mset (map cmd_ID (plannedIn (row_Events row)))) cid + count (mset (reissuedIn (row_Events row))) cid"
    using assms by (auto simp: systemInv_def worldOk_def)
  also have "count (mset (map cmd_ID (plannedIn (row_Events row)))) cid \<le> 1"
    using assms by (auto simp: systemInv_def worldOk_def rowOk_def plannedOk_def distinct_count_atmost_1)
  finally show ?thesis by (simp only: count_mset)
qed

lemma started_planned:
  assumes "systemInv S" "(rid, x) \<in> set (sy_started S)"
  obtains row where "fmlookup (w_rows (sy_world S)) rid = Some row" "x \<in> set (plannedIn (row_Events row))"
    "pc_Profile (cmd_Program x) \<in> set (row_ProgramAuthorizations row)"
proof -
  from assms have "(rid, x) \<in># spentOn (sy_world S)" by (metis in_multiset_in_set systemInv_def)
  then obtain ds where "ds \<in> set (w_dispatches (sy_world S))" "ds_spent ds" "ds_runID ds = rid" "ds_command ds = x"
    by (auto simp: spentOn_def)
  moreover from this(1) have "dispatchOk (w_rows (sy_world S)) ds" using assms(1) by (simp add: systemInv_def worldOk_def)
  ultimately show thesis using that by (auto simp: dispatchOk_def)
qed

text \<open>The stored run behind a load, and the commit behind a changed row.\<close>

lemma stored_load:
  assumes "systemInv S" "fmlookup (w_rows (sy_world S)) rid = Some row"
  shows "\<exists>run. LoadRun handle rid (sy_world S) = Inr run \<and> rn_checkpoint run = row_Checkpoint row \<and>
    Prepare (row_TemplateSnapshot row) (row_Params row) = Inr (rn_definition run) \<and> reachable rid (rn_definition run) (row_Checkpoint row)"
proof -
  have ok: "rowOk rid row" using assms by (auto simp: systemInv_def worldOk_def)
  from row_loads [OF this assms(2)] obtain run where run: "LoadRun handle rid (sy_world S) = Inr run" by blast
  then obtain d where d: "Prepare (row_TemplateSnapshot row) (row_Params row) = Inr d" "LoadPreparedRun handle rid row d = Inr run"
    using assms(2) by (auto simp: LoadRun_def split: sum.splits)
  note h = LoadPreparedRun_handle [OF d(2)]
  from ok d(1) have "reachable rid d (row_Checkpoint row)" by (auto simp: rowOk_def definitionOf_def)
  with run d h show ?thesis by (intro exI [of _ run]) auto
qed

lemma owner_commit:
  assumes inv: "systemInv S" and i: "i < length (sy_runs S)" and step: "owner_step (sy_runs S ! i, sy_world S) (run, w)"
    and changed: "w_rows w \<noteq> w_rows (sy_world S)"
  obtains row es where "fmlookup (w_rows (sy_world S)) (rn_id run) = Some row" "rn_checkpoint (sy_runs S ! i) = row_Checkpoint row"
    "(run_step (rn_definition run))\<^sup>*\<^sup>* (row_Checkpoint row) (rn_checkpoint run)"
    "w_rows w = fmupd (rn_id run) (row\<lparr>row_Status := Status (rn_checkpoint run), row_StateVersion := row_StateVersion row + 1,
       row_Checkpoint := rn_checkpoint run, row_Events := row_Events row @ es\<rparr>) (w_rows (sy_world S))"
proof -
  let ?r = "sy_runs S ! i"
  have w: "worldOk (sy_world S)" and h: "handleOk (w_rows (sy_world S)) ?r" using inv i by (auto simp: systemInv_def)
  from owner_effect [OF step] obtain es where c: "commits (?r, sy_world S) (run, w) es" and same: "sameHandle ?r run"
    and steps: "(run_step (rn_definition ?r))\<^sup>*\<^sup>* (rn_checkpoint ?r) (rn_checkpoint run)"
  proof cases
    case planned
    then show ?thesis using that by (meson rtranclp.rtrancl_into_rtrancl run_step.drive)
  next
    case reissued
    then show ?thesis using that by simp
  qed (use changed that in blast)+
  from commit_row [OF c w h] obtain row where "fmlookup (w_rows (sy_world S)) (rn_id ?r) = Some row" "row_Checkpoint row = rn_checkpoint ?r"
    "rn_stateVersion ?r = row_StateVersion row"
    "w_rows w = fmupd (rn_id ?r) (row\<lparr>row_Status := Status (rn_checkpoint run), row_StateVersion := rn_stateVersion ?r + 1,
       row_Checkpoint := rn_checkpoint run, row_Events := row_Events row @ es\<rparr>) (w_rows (sy_world S))" by metis
  then show thesis using that [of row es] same steps by (simp add: sameHandle_def)
qed

end
