(* ===== verification/System_Samples.thy ===== *)
theory System_Samples
  imports Executions Gate_Samples
begin

text \<open>
  The gated task as a stored run, for the witnesses of the theorems about systems: it is created, its first
  command is planned, the permission for that is claimed and the program started.
\<close>

section \<open>Creation\<close>

definition gateStore :: TemplateStore where
  "gateStore = \<lparr>ts_Head = \<lambda>tid. Inr ''gate@sha256:h'', ts_Template = \<lambda>ref. Inr gateTemplate\<rparr>"

definition gateRequest :: RunRequest where
  "gateRequest = \<lparr>rq_ID = ''run'', rq_TemplateID = ''gate'', rq_Params = fmempty, rq_AuthorizeProgramProfiles = [[]],
     rq_ExpectedRef = [], rq_TemplateRef = []\<rparr>"

definition openScope :: ProcessRunScope where
  "openScope = \<lparr>sc_Kind = ''none'', sc_GroupID = 0, sc_AgentID = [], sc_Owner = []\<rparr>"

definition gateRow :: "Payload ProcessRun" where
  "gateRow = createdRow ''operator'' ''gate@sha256:h'' gateTemplate fmempty [[]] pg_created openScope"

definition gateWorld :: World where
  "gateWorld = \<lparr>w_rows = fmap_of_list [(''run'', gateRow)], w_dispatches = []\<rparr>"

definition gateRun :: Run where
  "gateRun = \<lparr>rn_handle = 0, rn_id = ''run'', rn_stateVersion = 1, rn_checkpoint = pg_created, rn_definition = planGate,
     rn_authorized = [[]], rn_dispatches = fmempty, rn_held = False, rn_bounds = None\<rparr>"

lemma gate_references: "ResolveSubprocessRefs gateTemplate (Some (processSubprocessResolver gateStore)) = Inr gateTemplate"
  by code_simp

lemma gate_authorized:
  "decodeProcessRunAuthorizations [[]] = Inr [[]]" "normalizeProcessRunAuthorizations [[]] = Inr [[]]"
  by (simp_all add: decodeProcessRunAuthorizations_def normalizeProcessRunAuthorizations_def MaxProcessRunAuthorizationProfiles_def
      MaxNormalizedNodes_def MaxNormalizedDegree_def validProcessRuntimeText_def utf8_ValidString_def)

lemma gate_profiles: "missingProcessProgramAuthorizations gateTemplate [[]] = []"
  by code_simp

lemma gate_initialized: "Initialize ''run'' planGate = Inr pg_created"
proof -
  have "\<not> isl (Initialize ''run'' planGate)" by code_simp
  then show ?thesis using Initialize_initial [of "''run''" planGate] by (cases "Initialize ''run'' planGate") (auto simp: pg_created_def)
qed

lemma gate_snapshot: "CanonicalSemanticJSON gateTemplate = Inr gateTemplate"
  by code_simp

lemma gate_stored: "CreateProcessRun (\<lambda>t. ''h'') reliable ''run'' gateRow fmempty = Inr (fmap_of_list [(''run'', gateRow)])"
proof -
  have "validProcessRuntimeIdentifier ''run'' MaxProcessRunIDBytes False"
     "validProcessRuntimeIdentifier (runStatusText (Status pg_created)) MaxProcessRunStatusBytes False"
     "validateProcessTemplateSnapshotCreate (\<lambda>t. ''h'') ''gate@sha256:h'' gateTemplate = Inr ()"
     "validateProcessRunScope openScope = Inr ()" 
     "validateProcessRunEvents (creationEvents ''operator'' ''gate@sha256:h'' [[]] openScope pg_created) False = Inr ()"
     by code_simp+
  then show ?thesis
    by (simp add: CreateProcessRun_def validateProcessRunCreate_def gateRow_def createdRow_def gate_authorized reliable_def
      normalizeProcessRunScope_def openScope_def)
qed


lemma gate_loaded: "LoadPreparedRun 0 ''run'' gateRow planGate = Inr gateRun"
proof -
  have "validateCheckpoint pg_created planGate = Inr ()" by (rule Inv_validates [OF planGate_wf Inv_reachable [OF planGate_wf pg_created_reachable]])
  moreover have "RunID pg_created = ''run''" by code_simp
  ultimately show ?thesis by (simp add: LoadPreparedRun_def gateRow_def createdRow_def gate_authorized gateRun_def)
qed

lemma gate_created:
  "createProcessRun (\<lambda>t. ''h'') reliable gateStore [] 0 gateRequest ''operator'' openScope (sy_world emptySystem) = Inr (Inr gateRun, gateWorld)"
proof -
  have trims: "TrimSpace ''gate'' = ''gate''" "TrimSpace ''run'' = ''run''" "TrimSpace [] = []" by code_simp+
  have store: "ts_Head gateStore tid = Inr ''gate@sha256:h''" "ts_Template gateStore ref = Inr gateTemplate" for tid ref
    by (simp_all add: gateStore_def)
  show ?thesis
    using gate_stored gate_loaded
    by (simp add: createProcessRun_def gateRequest_def Let_def trims store orElse_def processRunTemplateRef_def gate_references gate_prepared
        gate_authorized gate_profiles gate_initialized gate_snapshot gateRow_def emptySystem_def gateWorld_def guardR_def)
qed

section \<open>Planning, claim and start\<close>

definition gateEvents :: "Event list" where
  "gateEvents = commitEvidence planGate pg_created pg_planned [] (advanceEvidence (Some (hd (Commands pg_planned))) None) True"

definition gateNext :: "Payload ProcessRun" where
  "gateNext = gateRow\<lparr>row_Status := RunRunning, row_StateVersion := 2, row_Checkpoint := pg_planned,
     row_Events := row_Events gateRow @ projr (sequencedEvents gateRow gateEvents)\<rparr>"

lemma gate_transition:
  "TransitionProcessRun reliable ''run'' 1 pg_planned gateEvents (fmap_of_list [(''run'', gateRow)]) = Inr (2, fmap_of_list [(''run'', gateNext)])"
proof -
  have "validProcessRuntimeIdentifier ''run'' MaxProcessRunIDBytes False"
     "validProcessRuntimeIdentifier (runStatusText (Status pg_planned)) MaxProcessRunStatusBytes False" "Status pg_planned = RunRunning"
     "validateProcessRunEvents gateEvents True = Inr ()" "\<not> isl (sequencedEvents gateRow gateEvents)" "row_StateVersion gateRow = 1"
     by code_simp+
  then show ?thesis
    by (cases "sequencedEvents gateRow gateEvents") (simp_all add: TransitionProcessRun_def reliable_def gateNext_def MaxInt_def)
qed


definition gatePlanned :: Run where
  "gatePlanned = gateRun\<lparr>rn_stateVersion := 2, rn_checkpoint := pg_planned, rn_dispatches := fmap_of_list [(''w.plan'', 0)]\<rparr>"

definition gatePermission :: "bool \<Rightarrow> bool \<Rightarrow> Dispatch" where
  "gatePermission claimed spent =
     \<lparr>ds_owner = 0, ds_runID = ''run'', ds_command = hd (Commands pg_planned), ds_bounds = None, ds_claimed = claimed, ds_spent = spent\<rparr>"

definition gateGranted :: "bool \<Rightarrow> bool \<Rightarrow> World" where
  "gateGranted claimed spent = \<lparr>w_rows = fmap_of_list [(''run'', gateNext)], w_dispatches = [gatePermission claimed spent]\<rparr>"

lemma gate_planned: "Prepare_dispatch reliable (gateRun, gateWorld) = Inr ((gatePlanned, gateGranted False False), Some 0)"
proof -
  have c: "AdvanceAndPlan pg_created planGate = Inr (pg_planned, Some (hd (Commands pg_planned)), True)"
    "Status pg_created = RunRunning" "Commands pg_created = []" "cmd_NodeID (hd (Commands pg_planned)) = ''w.plan''" by code_simp+
  show ?thesis
    using gate_transition
    by (simp add: Prepare_dispatch_def firstUnaccountedCommand_def gateRun_def c engineR_def programBounds_def Let_def persistEvents_def
        gateWorld_def gateEvents_def grantOption_def grant_def gatePlanned_def gateGranted_def gatePermission_def fmap_ext)
qed

lemma gate_claimed:
  "Claim 0 \<lparr>au_RunID = ''run'', au_Profile = []\<rparr> (gatePlanned, gateGranted False False) = Inr ((gatePlanned, gateGranted True False), ())"
proof -
  have "findCommand pg_planned (cmd_ID (hd (Commands pg_planned))) ''w.plan'' \<noteq> None" "cmd_NodeID (hd (Commands pg_planned)) = ''w.plan''"
    "pc_Profile (cmd_Program (hd (Commands pg_planned))) = []" by code_simp+
  then show ?thesis
    by (simp add: Claim_def holds_def gatePlanned_def gateRun_def gateGranted_def gatePermission_def dispatchAt_def setDispatch_def Let_def)
qed

definition gateSystem :: System where
  "gateSystem = \<lparr>sy_world = gateGranted True True, sy_runs = [gatePlanned], sy_started = [(''run'', hd (Commands pg_planned))]\<rparr>"

abbreviation gateHash :: "Template \<Rightarrow> string" where "gateHash \<equiv> (\<lambda>t. ''h'')"

lemma gateCreated_executed: "executed gateHash gateStore \<lparr>sy_world = gateWorld, sy_runs = [gateRun], sy_started = []\<rparr>"
  using executed.step [OF executed.start system_step.create] gate_created by (fastforce simp: emptySystem_def)

lemma gateSystem_executed: "executed gateHash gateStore gateSystem"
proof -
  let ?created = "\<lparr>sy_world = gateWorld, sy_runs = [gateRun], sy_started = []\<rparr>"
  let ?planned = "\<lparr>sy_world = gateGranted False False, sy_runs = [gatePlanned], sy_started = []\<rparr>"
  let ?claimed = "\<lparr>sy_world = gateGranted True False, sy_runs = [gatePlanned], sy_started = []\<rparr>"
  have "system_step gateHash gateStore ?created ?planned"
    using system_step.own [of 0 ?created gatePlanned "gateGranted False False"] owner_step.plan [OF gate_planned] by simp
  moreover have "system_step gateHash gateStore ?planned ?claimed"
    using system_step.claim [of 0 ?planned 0 "[]" _ 0 gatePlanned "gateGranted True False"] gate_claimed
    by (simp add: AuthorizationFor_def gatePlanned_def gateRun_def)
  moreover have "system_step gateHash gateStore ?claimed gateSystem"
    using system_step.perform [of 0 ?claimed "gateGranted True True" "hd (Commands pg_planned)"]
    by (simp add: Perform_def gateSystem_def gateGranted_def gatePermission_def dispatchAt_def setDispatch_def)
  ultimately show ?thesis using gateCreated_executed by (metis executed.step)
qed

lemma gate_evidence: "plannedIn (row_Events gateNext) = [hd (Commands pg_planned)]" "reissuedIn (row_Events gateNext) = []"
  by code_simp+

end
