(* ===== verification/System_Laws.thy ===== *)
theory System_Laws
  imports System_Samples
begin

text \<open>The theorems about stored runs, the handles on them and the programs they start.\<close>

text \<open>
  C38. However many handles are loaded on a run, and whatever operations, claims and failed writes come in
  between, a planned command is started at most once more than an operator reissued it: every start beyond the first
  is accounted for by a reissue row of the run's evidence.
\<close>

theorem starts_bounded:
  assumes "executed hash templates S" "fmlookup (w_rows (sy_world S)) rid = Some row"
  shows "count_list (map (\<lambda>(r, x). (r, cmd_ID x)) (sy_started S)) (rid, cid) \<le> 1 + count_list (reissuedIn (row_Events row)) cid"
  by (rule count_started [OF executed_inv [OF assms(1)] assms(2)])

theorem starts_bounded_witness:
  "count_list (map (\<lambda>(r, x). (r, cmd_ID x)) (sy_started gateSystem)) (''run'', ''cmd_3_run_6_w.plan_1_program'') \<le> 1 \<and>
   sy_started gateSystem \<noteq> []"
proof -
  have "fmlookup (w_rows (sy_world gateSystem)) ''run'' = Some gateNext" by (simp add: gateSystem_def gateGranted_def)
  from starts_bounded [OF gateSystem_executed this, of "''cmd_3_run_6_w.plan_1_program''"] gate_evidence(2)
  show ?thesis by (simp add: gateSystem_def)
qed

text \<open>
  C39. Nothing starts unrecorded or unauthorized: the command of every started program was planned in the stored
  evidence of its run, and its profile is one that the run was created to authorize.
\<close>

theorem starts_authorized:
  assumes "executed hash templates S" "(rid, x) \<in> set (sy_started S)"
  shows "\<exists>row. fmlookup (w_rows (sy_world S)) rid = Some row \<and> x \<in> set (plannedIn (row_Events row)) \<and>
    pc_Profile (cmd_Program x) \<in> set (row_ProgramAuthorizations row)"
  by (rule started_planned [OF executed_inv [OF assms(1)] assms(2)]) blast

theorem starts_authorized_witness:
  "\<exists>row. fmlookup (w_rows (sy_world gateSystem)) ''run'' = Some row \<and> hd (Commands pg_planned) \<in> set (plannedIn (row_Events row))"
  using starts_authorized [OF gateSystem_executed, of "''run''" "hd (Commands pg_planned)"] by (auto simp: gateSystem_def)

text \<open>
  C40. No update is lost: an operation that changes a stored row starts from the checkpoint stored there, moves it along
  the steps of the process engine, and appends to its evidence; a handle that fell behind changes nothing.
\<close>

theorem no_lost_update:
  assumes "executed hash templates S" "i < length (sy_runs S)" "owner_step (sy_runs S ! i, sy_world S) (run, w)"
    "w_rows w \<noteq> w_rows (sy_world S)"
  shows "\<exists>row es. fmlookup (w_rows (sy_world S)) (rn_id run) = Some row \<and> rn_checkpoint (sy_runs S ! i) = row_Checkpoint row \<and>
    (run_step (rn_definition run))\<^sup>*\<^sup>* (row_Checkpoint row) (rn_checkpoint run) \<and>
    w_rows w = fmupd (rn_id run) (row\<lparr>row_Status := Status (rn_checkpoint run), row_StateVersion := row_StateVersion row + 1,
       row_Checkpoint := rn_checkpoint run, row_Events := row_Events row @ es\<rparr>) (w_rows (sy_world S))"
  by (rule owner_commit [OF executed_inv [OF assms(1)] assms(2,3,4)]) blast

theorem no_lost_update_witness:
  "\<exists>row es. fmlookup (w_rows gateWorld) ''run'' = Some row \<and>
     fmlookup (w_rows (gateGranted False False)) ''run'' = Some (row\<lparr>row_Status := Status pg_planned,
       row_StateVersion := row_StateVersion row + 1, row_Checkpoint := pg_planned, row_Events := row_Events row @ es\<rparr>)"
proof -
  let ?S = "\<lparr>sy_world = gateWorld, sy_runs = [gateRun], sy_started = []\<rparr>"
  have "row_StateVersion gateRow \<noteq> row_StateVersion gateNext" by (simp add: gateNext_def gateRow_def createdRow_def)
  moreover have "fmlookup (w_rows (gateGranted False False)) ''run'' = Some gateNext" "fmlookup (w_rows gateWorld) ''run'' = Some gateRow"
    by (simp_all add: gateGranted_def gateWorld_def)
  ultimately have "w_rows (gateGranted False False) \<noteq> w_rows (sy_world ?S)" by (metis option.inject System.select_convs(1))
  from no_lost_update [OF gateCreated_executed _ _ this, of 0 gatePlanned] owner_step.plan [OF gate_planned]
  show ?thesis by (auto simp: gatePlanned_def gateRun_def)
qed

text \<open>
  C28. Every stored run can be loaded: the template and parameters of its row prepare again, and
  the handle has the stored checkpoint, which the run of that definition can reach.
\<close>

theorem stored_runs_load:
  assumes "executed hash templates S" "fmlookup (w_rows (sy_world S)) rid = Some row"
  shows "\<exists>run. LoadRun handle rid (sy_world S) = Inr run \<and> rn_checkpoint run = row_Checkpoint row \<and>
    Prepare (row_TemplateSnapshot row) (row_Params row) = Inr (rn_definition run) \<and> reachable rid (rn_definition run) (row_Checkpoint row)"
  by (rule stored_load [OF executed_inv [OF assms(1)] assms(2)])

theorem stored_runs_load_witness:
  "\<exists>run. LoadRun 1 ''run'' (sy_world gateSystem) = Inr run \<and> rn_checkpoint run = pg_planned"
proof -
  have "fmlookup (w_rows (sy_world gateSystem)) ''run'' = Some gateNext" by (simp add: gateSystem_def gateGranted_def)
  from stored_runs_load [OF gateSystem_executed this, of 1] show ?thesis by (auto simp: gateNext_def)
qed

end
