(* ===== verification/Spec2Isabelle.thy ===== *)
theory Spec2Isabelle
  imports Run_Laws Transition_Laws Authoring_Laws Preparation_Laws Execution_Laws System_Laws
begin

text \<open>
  \<^bold>\<open>The process engine of tclaude.\<close>

  tclaude runs authored process templates: a template is a graph of tasks, decisions, forks, joins,
  bounded loops and nested subprocesses.  The engine prepares it to an indexed definition, creates a
  durable checkpoint, and moves the checkpoint by a pure reducer: a driver advances what the engine owns
  and plans commands, executors report observations, people decide, operators resolve parked branches.
  Everything is stored as one checkpoint between steps, so the properties that matter are that every
  stored checkpoint loads again, that every external report counts once, that budgets and loop bounds
  hold, that a run ends in one way, and that no program is started without a durable plan or twice by accident.
  All Go files named below are under \<open>src/pkg/claude/process\<close>, except \<open>common/db/process_runs.go\<close> and
  \<open>agentd/process_runtime.go\<close> under \<open>src/pkg/claude\<close>.

  \<^bold>\<open>How the code is modelled.\<close>  A Go struct is a record, an enumerated string type a datatype with a
  constructor for the unknown strings, a Go \<open>int\<close> an \<open>int\<close> with \<open>wrap64\<close> written out where the source
  adds without a guard, a map a finite map, a string a byte list.  A function that returns an error is a function to
  \<open>error + 'a\<close> whose left values are the package's sentinels; a nil map write and an index out of range are
  the value \<open>GoPanic\<close>.  The reducer never mutates its input (the source clones it first), so it is a HOL function.
  Loops are structural recursion, or functions with a measure (the settlement queue, the stack
  walk, the Kahn order, the text scanner); only the driver loop takes its source's own budget.

  \<^bold>\<open>Engine.\<close>
  \<^item> \<open>Prelude\<close>: the error monad \<open>bindR\<close>, the loop \<open>foldR\<close> with its invariant rule, finite map helpers, \<open>wrap64\<close>.
  \<^item> \<open>Process_Types\<close>: the data of \<open>engine/types.go\<close> and the prepared definition of \<open>engine/validate.go\<close>.
  \<^item> \<open>Outboxes\<close>: commands, awaited decisions, blocked branches (\<open>putCommand\<close>, \<open>addObligation\<close>, \<open>addBlocked\<close>, \<open>truncateReason\<close>);
    the locale \<open>outbox\<close> is their common contract and is interpreted three times.
  \<^item> \<open>Attempts\<close>, \<open>Task_Commands\<close>: attempt counters, ceilings and anchors; the deterministic command and its id.
  \<^item> \<open>Settlement\<close>: \<open>completeAndSettle\<close> and the queue of affected targets.
  \<^item> \<open>Stages\<close>, \<open>Loops\<close>: compound stages (\<open>engine/stages.go\<close>) and bounded loops (\<open>engine/loops.go\<close>).
  \<^item> \<open>Reducer\<close>: \<open>apply\<close>, one definition per transition kind, and the driver (\<open>AdvanceUntilQuiescent\<close>, \<open>AdvanceAndPlan\<close>, \<open>Runnable\<close>).
  \<^item> \<open>Boundary\<close>, \<open>Classify\<close>: \<open>ValidateCheckpoint\<close>, \<open>Initialize\<close>, the read surfaces, and the strict classification.

  \<^bold>\<open>Authoring.\<close>
  \<^item> \<open>Template_Types\<close>, \<open>Template_Text\<close>, \<open>Template_Graph\<close>: templates, parameter references, stage expansion, edges, loop bodies
    (\<open>model/types.go\<close>, \<open>interpolate.go\<close>, \<open>expand.go\<close>, \<open>next.go\<close>, \<open>loops.go\<close>, parts of \<open>subprocess.go\<close>).
  \<^item> \<open>Text_Forms\<close>, \<open>Validate_Fields\<close>: the text formats validation reads (ids, durations, timestamps, numbers) and the checks of
    performers, steps, retries, choices, parameter references and layout (\<open>model/validate.go\<close>, \<open>time.go\<close>).
  \<^item> \<open>Graph_Walks\<close>, \<open>Validate_Graph\<close>, \<open>Validate_Parallel\<close>: reachability and cycles as recursive walks, edges, degrees,
    routing, stage collisions, loops, and the scope plan of forks (\<open>model/validate.go\<close>, \<open>loops.go\<close>, \<open>parallel.go\<close>).
  \<^item> \<open>Validate_Scope\<close>: nodes, subprocess ports, nested scopes and \<open>Validate\<close>.  A producer that adds to the shared
    collector is the list of its findings in order; the collector itself (\<open>Limits\<close>) takes the list of the whole template.
  \<^item> \<open>Topology\<close>, \<open>Limits\<close>, \<open>Eligibility\<close>, \<open>Preparation\<close>: execution order, graph limits and the diagnostic budget
    (\<open>model/limits.go\<close>), \<open>CheckEligibility\<close> and \<open>Prepare\<close>.
  \<^item> \<open>Validate_Facts\<close>, \<open>Clean_Scopes\<close>: what a template without findings of severity error satisfies, in every nested scope.

  \<^bold>\<open>Execution.\<close>
  \<^item> \<open>Resolution\<close>: the embedding of referenced templates before a run is created (\<open>model/subprocess.go\<close>); the template store's
    lookup is a parameter.  \<open>Resolved_Scopes\<close> shows what a resolved template looks like.
  \<^item> \<open>Process_Runs\<close>: the stored rows of runs, their creation and the compare-and-swap on their version
    (\<open>common/db/process_runs.go\<close>); JSON columns are the values they encode, and what encoding and database
    may refuse is the parameter \<open>storeIO\<close>.
  \<^item> \<open>Evidence\<close>: the rows derived for one commit, within the limit of 256 (\<open>executor/executor.go\<close>).
  \<^item> \<open>Executor\<close>, \<open>Dispatches\<close>: handles on stored runs, planning, reconciliation, decisions, resolutions, and the
    life of a permission from its grant to its observation (\<open>executor/executor.go\<close>, \<open>program.go\<close>, \<open>agent.go\<close>, \<open>bounds.go\<close>).
    Permissions are shared objects of the source, so they live in a store and are named by index.
  \<^item> \<open>Run_Creation\<close>: which template version a start runs, the embedding of its references, the program profiles it must
    authorize, and the new row with its first evidence (\<open>createProcessRun\<close> in \<open>agentd/process_runtime.go\<close>).

  \<^bold>\<open>What is shown of runs.\<close>  \<open>Prepared\<close> states what preparation guarantees (\<open>wf_definition\<close>, executable);
  \<open>Invariant\<close> states the run-time invariant \<open>Inv\<close> and that it implies that the checkpoint loads.
  \<open>Settlement_Effect\<close> gives the effect of one settlement pass as a relation, and \<open>Preservation\<close> with the \<open>Preserve\<close>
  theories shows that every operation keeps \<open>Inv\<close>.  \<open>Runs\<close> closes this under the rules of \<open>reachable\<close>: a
  run is created, driven, and receives external transitions in any order.  \<open>Writes\<close> names, in a chain
  of locales, the elementary writes of each layer of the reducer; what the writes keep, every
  operation keeps.  \<open>Histories\<close> interprets it three times (the run's name, attempts with
  commands, first-arrival joins) and shows that observations and decisions count once.  \<open>Driving\<close> shows that
  the driver's budget suffices: an engine transition takes a node out of the pending and ready ones and puts none back.
  \<open>Outcomes\<close> shows how runs end; \<open>Refusals\<close> says which error a decision or resolution is refused with.

  \<^bold>\<open>What is shown of preparation.\<close>  \<open>Loop_Bodies\<close> shows the loops of an eligible template proper, and
  \<open>Execution_Order\<close> when its nodes have an execution order: a loop is entered at its top only, so the forward edges reach
  every node, and the Kahn order is complete unless an unbounded poison escalation closes a cycle.  The \<open>Prepare\<close> theories follow
  \<open>Prepare\<close> through its passes: node ids and ranges of nested scopes (\<open>Prepare_Nodes\<close>, \<open>Prepare_Ranges\<close>, \<open>Prepare_Levels\<close>,
  \<open>Prepare_Scopes\<close>), edges and incidence lists (\<open>Prepare_Edges\<close>, \<open>Prepare_Links\<close>), loops (\<open>Prepare_Rounds\<close>), and their
  conclusion that whatever \<open>Prepare\<close> returns satisfies \<open>wf_definition\<close> (\<open>Prepare_Wellformed\<close>, \<open>Prepare_Correct\<close>).

  \<^bold>\<open>What is shown of execution.\<close>  \<open>Layouts\<close> shows that preparation ignores the layout a stored template has lost, so a stored
  run prepares to the definition it was created with.  \<open>Effects\<close> gives the effect of every operation of a handle: nothing, a commit
  that plans no command, a commit that plans one and grants its permission, or a reissue.  \<open>Executions\<close> composes
  them: a \<open>System\<close> is a store of runs with any number of handles, the permissions they grant and the programs
  started with those, a step is one call of an operation (any of which may fail at the store), and an invariant of every \<open>executed\<close>
  system accounts for each start by a permission and for each permission by a row of the stored evidence.

  \<^bold>\<open>Theorems.\<close>  \<open>Run_Laws\<close>, \<open>Transition_Laws\<close>, \<open>Authoring_Laws\<close>, \<open>Preparation_Laws\<close>, \<open>Execution_Laws\<close> and \<open>System_Laws\<close>;
  \<open>Samples\<close>, \<open>Parallel_Samples\<close>, \<open>Sample_Steps\<close>, \<open>Template_Samples\<close>, \<open>Gate_Samples\<close> and \<open>System_Samples\<close> hold the concrete runs,
  templates and systems of their witnesses.

  \<^bold>\<open>Assumptions.\<close>  Theorems about runs assume \<open>wf_definition d\<close>, which is proved of every definition \<open>Prepare\<close> returns.  A transition handed
  to the reducer is \<open>admissible\<close>: advance and plan come from the driver, which checks that the run is running, and an
  observation's error text is valid UTF-8, which the program executor guarantees; the steps of a system ask
  the same of a reported outcome.  A start is a call of \<open>Perform\<close> that passes its guards.  A restart of the daemon is a handle
  loaded anew: the permissions of older handles stay in the model, which only allows more.  Values in JSON columns come back as they
  were stored.
  The standard library's quoting and case folding are modelled for ASCII text.

  \<^bold>\<open>Not modelled.\<close>  YAML parsing and JSON decoding, the template store, the listings and readers of the run store, the operating
  system processes that programs and agents run in and the scheduler that owns the handles (I/O), and the rest of tclaude: the
  agent daemon and its dashboards, sessions, sandboxes, databases, federation, proxies and command line.
\<close>

section \<open>Where the reducer relies on its caller\<close>

text \<open>
  Why a transition has to be \<open>admissible\<close>: the reducer does not check the run status of an advance.  In the sample
  \<open>forkRace\<close> a run that failed while a fork was ready accepts an advance of that fork, and the result, an awaited decision
  in a failed run, does not load.  The drivers never hand it such a transition.
\<close>

lemma advance_needs_running_run:
  "\<exists>c c'. reachable ''run'' forkRace c \<and> Status c = RunFailed \<and>
     apply_transition c forkRace (advanceTransition ''f'') = Inr c' \<and> validateCheckpoint c' forkRace = Inl ErrInvalidCheckpoint"
proof -
  have "\<not> isl (apply_transition fr_failed forkRace (advanceTransition ''f''))" by code_simp
  from accept_step [OF this] fr_advance_stale fr_failed_reachable show ?thesis by blast
qed

end
